(* ===== verification/JsPrelude.thy ===== *)
theory JsPrelude
  imports Main "HOL-Library.Word" "HOL-Library.AList"
begin

text \<open>
  Shared ground of the development: bytes and typed arrays, big- and little-endian
  fields as a \<open>DataView\<close> reads and writes them, results of code that may throw, and
  the JavaScript \<open>Map\<close> (an association list that keeps insertion order) with its
  contract as a locale.
\<close>

unbundle bit_operations_syntax

named_theorems endian_simps \<open>reading back what a DataView setter wrote\<close>
named_theorems result_simps \<open>computation rules for results\<close>

section \<open>Results\<close>

text \<open>
  A function that throws returns a value of \<open>'e + 'a\<close>: \<open>Inl\<close> carries the error,
  \<open>Inr\<close> the value.
\<close>

definition rbind :: "'e + 'a \<Rightarrow> ('a \<Rightarrow> 'e + 'b) \<Rightarrow> 'e + 'b" where
  "rbind r f = (case r of Inl e \<Rightarrow> Inl e | Inr x \<Rightarrow> f x)"

lemma rbind_simps [simp, result_simps]:
  "rbind (Inl e) f = Inl e"
  "rbind (Inr x) f = f x"
  by (simp_all add: rbind_def)

lemma rbind_eq_Inr_iff: "rbind r f = Inr y \<longleftrightarrow> (\<exists>x. r = Inr x \<and> f x = Inr y)"
  by (cases r) simp_all

lemma rbind_cong [fundef_cong]:
  "r = r' \<Longrightarrow> (\<And>x. r' = Inr x \<Longrightarrow> f x = g x) \<Longrightarrow> rbind r f = rbind r' g"
  by (cases r') simp_all

fun map_result :: "('a \<Rightarrow> 'e + 'b) \<Rightarrow> 'a list \<Rightarrow> 'e + 'b list" where
  "map_result f [] = Inr []"
| "map_result f (x # xs) = rbind (f x) (\<lambda>y. rbind (map_result f xs) (\<lambda>ys. Inr (y # ys)))"

lemma map_result_Inr:
  "(\<And>x. x \<in> set xs \<Longrightarrow> f x = Inr (g x)) \<Longrightarrow> map_result f xs = Inr (map g xs)"
  by (induction xs) simp_all

section \<open>Bytes\<close>

type_synonym byte = "8 word"
type_synonym bytes = "byte list"

lemma unat_byte_less [simp]: "unat (b :: byte) < 256"
  using unsigned_less [of b] by simp

lemma unat_byte_le [simp]: "unat (b :: byte) \<le> 255"
  using unat_byte_less [of b] by linarith

lemma unat_of_nat_byte: "unat (of_nat n :: byte) = n mod 256"
  by (simp add: unat_of_nat)

lemma unat_of_nat_byte_small [simp]: "n < 256 \<Longrightarrow> unat (of_nat n :: byte) = n"
  by (simp add: unat_of_nat_byte)

text \<open>
  \<open>DataView.setUint16\<close> and \<open>setUint32\<close> store their argument modulo the field's
  width; the byte at each offset keeps the low eight bits of what it is given.
\<close>

definition put_u16_be :: "nat \<Rightarrow> bytes" where
  "put_u16_be n = [of_nat (n div 256), of_nat n]"

definition put_u16_le :: "nat \<Rightarrow> bytes" where
  "put_u16_le n = [of_nat n, of_nat (n div 256)]"

definition put_u32_le :: "nat \<Rightarrow> bytes" where
  "put_u32_le n =
     [of_nat n, of_nat (n div 256), of_nat (n div 65536), of_nat (n div 16777216)]"

text \<open>The getters, at an offset inside the view (every caller checks the length).\<close>

definition get_u16_be :: "bytes \<Rightarrow> nat \<Rightarrow> nat" where
  "get_u16_be bs i = unat (bs ! i) * 256 + unat (bs ! Suc i)"

definition get_u16_le :: "bytes \<Rightarrow> nat \<Rightarrow> nat" where
  "get_u16_le bs i = unat (bs ! i) + unat (bs ! Suc i) * 256"

definition get_u32_le :: "bytes \<Rightarrow> nat \<Rightarrow> nat" where
  "get_u32_le bs i =
     unat (bs ! i) + unat (bs ! (i + 1)) * 256 + unat (bs ! (i + 2)) * 65536
       + unat (bs ! (i + 3)) * 16777216"

lemma length_put [simp]:
  "length (put_u16_be n) = 2" "length (put_u16_le n) = 2" "length (put_u32_le n) = 4"
  by (simp_all add: put_u16_be_def put_u16_le_def put_u32_le_def)

lemma get_u16_bound [simp]: "get_u16_be bs i < 65536" "get_u16_le bs i < 65536"
  using unat_byte_less [of "bs ! i"] unat_byte_less [of "bs ! Suc i"]
  unfolding get_u16_be_def get_u16_le_def by linarith+

lemma get_u32_bound [simp]: "get_u32_le bs i < 4294967296"
  using unat_byte_less [of "bs ! i"] unat_byte_less [of "bs ! (i + 1)"]
    unat_byte_less [of "bs ! (i + 2)"] unat_byte_less [of "bs ! (i + 3)"]
  unfolding get_u32_le_def by linarith

lemma get_put_u16_be [endian_simps]:
  "get_u16_be (xs @ put_u16_be n @ ys) (length xs) = n mod 65536"
proof -
  have "n mod 65536 = n div 256 mod 256 * 256 + n mod 256"
    using mod_mult2_eq [of n 256 256] by simp
  then show ?thesis
    by (simp add: get_u16_be_def put_u16_be_def nth_append unat_of_nat_byte)
qed

lemma get_put_u16_le [endian_simps]:
  "get_u16_le (xs @ put_u16_le n @ ys) (length xs) = n mod 65536"
proof -
  have "n mod 65536 = n div 256 mod 256 * 256 + n mod 256"
    using mod_mult2_eq [of n 256 256] by simp
  then show ?thesis
    by (simp add: get_u16_le_def put_u16_le_def nth_append unat_of_nat_byte)
qed

lemma mod_u32_split:
  "(n::nat) mod 4294967296 = n mod 256 + n div 256 mod 256 * 256
     + n div 65536 mod 256 * 65536 + n div 16777216 mod 256 * 16777216"
proof -
  have "n mod 4294967296 = n div 65536 mod 65536 * 65536 + n mod 65536"
    using mod_mult2_eq [of n 65536 65536] by simp
  moreover have "n mod 65536 = n div 256 mod 256 * 256 + n mod 256"
    using mod_mult2_eq [of n 256 256] by simp
  moreover have "n div 65536 mod 65536 = n div 16777216 mod 256 * 256 + n div 65536 mod 256"
    using mod_mult2_eq [of "n div 65536" 256 256] by (simp add: div_mult2_eq [symmetric])
  ultimately show ?thesis by simp
qed

lemma get_put_u32_le [endian_simps]:
  "get_u32_le (xs @ put_u32_le n @ ys) (length xs) = n mod 4294967296"
  unfolding get_u32_le_def put_u32_le_def mod_u32_split
  by (simp add: nth_append unat_of_nat_byte)

lemma put_get_u16_be: "Suc i < length bs \<Longrightarrow> put_u16_be (get_u16_be bs i) = [bs ! i, bs ! Suc i]"
  by (simp add: put_u16_be_def get_u16_be_def word_unat_eq_iff unat_of_nat_byte
      del: of_nat_add of_nat_mult)

text \<open>
  A read below the split point does not see what follows: the reason a parser's decision
  on a complete field survives the arrival of more bytes.
\<close>

lemma get_u16_be_append [simp]: "Suc i < length bs \<Longrightarrow> get_u16_be (bs @ cs) i = get_u16_be bs i"
  by (simp add: get_u16_be_def nth_append)

lemma get_u16_le_append [simp]: "Suc i < length bs \<Longrightarrow> get_u16_le (bs @ cs) i = get_u16_le bs i"
  by (simp add: get_u16_le_def nth_append)

lemma get_u32_le_append [simp]: "i + 3 < length bs \<Longrightarrow> get_u32_le (bs @ cs) i = get_u32_le bs i"
  by (simp add: get_u32_le_def nth_append)

text \<open>\<open>arr.slice(from, to)\<close> and \<open>arr.subarray(from, to)\<close> on in-range indices.\<close>

definition slice :: "'a list \<Rightarrow> nat \<Rightarrow> nat \<Rightarrow> 'a list" where
  "slice xs i j = take (j - i) (drop i xs)"

lemma length_slice [simp]: "length (slice xs i j) = min (j - i) (length xs - i)"
  by (simp add: slice_def min.commute)

lemma slice_append_left: "j \<le> length xs \<Longrightarrow> slice (xs @ ys) i j = slice xs i j"
  by (simp add: slice_def)

lemma slice_all [simp]: "slice xs 0 (length xs) = xs"
  by (simp add: slice_def)

lemma slice_prefix: "slice (xs @ ys @ zs) (length xs) (length xs + length ys) = ys"
  by (simp add: slice_def)

lemma drop_prefix: "drop (length xs + length ys) (xs @ ys @ zs) = zs"
  by simp

lemma slice_join: "i \<le> j \<Longrightarrow> j \<le> k \<Longrightarrow> slice xs i j @ slice xs j k = slice xs i k"
proof -
  assume "i \<le> j" "j \<le> k"
  then obtain a b where "j = i + a" "k = i + a + b" by (metis le_Suc_ex)
  then show ?thesis by (simp add: slice_def take_add add.commute)
qed

section \<open>The JavaScript Map\<close>

text \<open>
  \<open>Map\<close> iterates in insertion order; \<open>set\<close> on a present key keeps its place.
  The association list of the library updates and deletes the same way.
\<close>

locale js_map =
  fixes empty_map :: "'m"
    and get :: "'m \<Rightarrow> 'k \<Rightarrow> 'v option"
    and put :: "'k \<Rightarrow> 'v \<Rightarrow> 'm \<Rightarrow> 'm"
    and del :: "'k \<Rightarrow> 'm \<Rightarrow> 'm"
    and keys :: "'m \<Rightarrow> 'k list"
    and ok :: "'m \<Rightarrow> bool"
  assumes ok_empty: "ok empty_map"
    and ok_put: "ok m \<Longrightarrow> ok (put k v m)"
    and ok_del: "ok m \<Longrightarrow> ok (del k m)"
    and get_empty: "get empty_map k = None"
    and get_put: "get (put k v m) k' = (if k' = k then Some v else get m k')"
    and get_del: "get (del k m) k' = (if k' = k then None else get m k')"
    and keys_get: "k \<in> set (keys m) \<longleftrightarrow> get m k \<noteq> None"
    and keys_distinct: "ok m \<Longrightarrow> distinct (keys m)"
    and keys_put: "keys (put k v m) = (if k \<in> set (keys m) then keys m else keys m @ [k])"
begin

lemma get_put_same: "get (put k v m) k = Some v"
  by (simp add: get_put)

lemma get_put_other: "k' \<noteq> k \<Longrightarrow> get (put k v m) k' = get m k'"
  by (simp add: get_put)

lemma get_del_same: "get (del k m) k = None"
  by (simp add: get_del)

lemma get_del_other: "k' \<noteq> k \<Longrightarrow> get (del k m) k' = get m k'"
  by (simp add: get_del)

lemma set_keys_put: "set (keys (put k v m)) = insert k (set (keys m))"
  by (auto simp: keys_put)

lemma set_keys_del: "set (keys (del k m)) = set (keys m) - {k}"
  by (auto simp: keys_get get_del split: if_splits)

end

type_synonym ('k, 'v) jsmap = "('k \<times> 'v) list"

abbreviation jget :: "('k, 'v) jsmap \<Rightarrow> 'k \<Rightarrow> 'v option" where
  "jget m k \<equiv> map_of m k"

abbreviation jset :: "'k \<Rightarrow> 'v \<Rightarrow> ('k, 'v) jsmap \<Rightarrow> ('k, 'v) jsmap" where
  "jset k v m \<equiv> AList.update k v m"

abbreviation jdelete :: "'k \<Rightarrow> ('k, 'v) jsmap \<Rightarrow> ('k, 'v) jsmap" where
  "jdelete k m \<equiv> AList.delete k m"

abbreviation jkeys :: "('k, 'v) jsmap \<Rightarrow> 'k list" where
  "jkeys m \<equiv> map fst m"

abbreviation jok :: "('k, 'v) jsmap \<Rightarrow> bool" where
  "jok m \<equiv> distinct (map fst m)"

interpretation jm: js_map "[]" map_of AList.update AList.delete "map fst" jok
proof unfold_locales
  fix k k' :: 'a and v :: 'b and m :: "('a, 'b) jsmap"
  show "jok ([] :: ('a, 'b) jsmap)" by simp
  show "jok m \<Longrightarrow> jok (jset k v m)" by (rule distinct_update)
  show "jok m \<Longrightarrow> jok (jdelete k m)" by (rule distinct_delete)
  show "jget [] k = None" by simp
  show "jget (jset k v m) k' = (if k' = k then Some v else jget m k')"
    by (simp add: update_conv)
  show "jget (jdelete k m) k' = (if k' = k then None else jget m k')"
    by (simp add: delete_conv)
  show "k \<in> set (jkeys m) \<longleftrightarrow> jget m k \<noteq> None"
    by (metis map_of_eq_None_iff list.set_map)
  show "jok m \<Longrightarrow> distinct (jkeys m)" .
  show "jkeys (jset k v m) = (if k \<in> set (jkeys m) then jkeys m else jkeys m @ [k])"
    by (simp add: update_keys)
qed

end
