(* ===== verification/JsText.thy ===== *)
theory JsText
  imports JsPrelude
begin

text \<open>
  JavaScript text: strings as sequences of 16-bit code units, the string functions the
  extension calls (\<open>indexOf\<close>, \<open>split\<close>, \<open>join\<close>, \<open>trim\<close>, \<open>toLowerCase\<close>, \<open>parseInt\<close>,
  \<open>toString\<close>), and \<open>TextEncoder\<close> / \<open>TextDecoder\<close> for UTF-8. Two limits: case mapping is
  that of the ASCII letters and the Kelvin sign (other code units are left alone), and \<open>parseInt\<close> computes the exact
  integer, where a double rounds above \<open>2^53\<close>.
\<close>

section \<open>Strings\<close>

type_synonym unit16 = "16 word"
type_synonym jstr = "unit16 list"

definition cu :: "char \<Rightarrow> unit16" where
  "cu c = of_char c"

definition js :: "string \<Rightarrow> jstr" where
  "js s = map cu s"

lemma js_simps [simp]:
  "js [] = []" "js (c # s) = cu c # js s"
  by (simp_all add: js_def)

lemma js_append [simp]: "js (s @ t) = js s @ js t"
  by (simp add: js_def)

lemma js_eq_Nil [simp]: "js s = [] \<longleftrightarrow> s = []"
  by (simp add: js_def)

lemma length_js [simp]: "length (js s) = length s"
  by (simp add: js_def)

text \<open>The first occurrence of a sequence: \<open>indexOf\<close>, with \<open>-1\<close> as \<open>None\<close>.\<close>

fun index_of :: "'a list \<Rightarrow> 'a list \<Rightarrow> nat option" where
  "index_of pat [] = (if pat = [] then Some 0 else None)"
| "index_of pat (x # xs) =
     (if take (length pat) (x # xs) = pat then Some 0 else map_option Suc (index_of pat xs))"

lemma index_of_Some_take:
  "index_of pat xs = Some i \<Longrightarrow> take (length pat) (drop i xs) = pat \<and> i + length pat \<le> length xs"
proof (induction pat xs arbitrary: i rule: index_of.induct)
  case (1 pat)
  then show ?case by (auto split: if_splits)
next
  case (2 pat x xs)
  show ?case
  proof (cases "take (length pat) (x # xs) = pat")
    case True
    then have "length pat \<le> length (x # xs)"
      by (metis length_take min.cobounded1)
    with True 2 show ?thesis by (auto split: if_splits)
  next
    case False
    with 2 show ?thesis by (auto split: if_splits)
  qed
qed

lemma index_of_first:
  "index_of pat xs = Some i \<Longrightarrow> j < i \<Longrightarrow> take (length pat) (drop j xs) \<noteq> pat"
proof (induction pat xs arbitrary: i j rule: index_of.induct)
  case (1 pat)
  then show ?case by (auto split: if_splits)
next
  case (2 pat x xs)
  then show ?case
    by (cases j) (auto split: if_splits)
qed

lemma index_of_None: "index_of pat xs = None \<Longrightarrow> take (length pat) (drop j xs) \<noteq> pat"
proof (induction pat xs arbitrary: j rule: index_of.induct)
  case (1 pat)
  then show ?case by (auto split: if_splits)
next
  case (2 pat x xs)
  then show ?case
    by (cases j) (auto split: if_splits)
qed

lemma index_of_length: "index_of pat xs = Some i \<Longrightarrow> i + length pat \<le> length xs"
  using index_of_Some_take by blast

lemma index_of_split:
  "index_of pat xs = Some i \<Longrightarrow> xs = take i xs @ pat @ drop (i + length pat) xs"
  by (metis append_take_drop_id drop_drop add.commute index_of_Some_take)

lemma index_of_append:
  "index_of pat xs = Some i \<Longrightarrow> index_of pat (xs @ ys) = Some i"
proof (induction pat xs arbitrary: i rule: index_of.induct)
  case (1 pat)
  then show ?case by (cases ys) (auto split: if_splits)
next
  case (2 pat x xs)
  show ?case
  proof (cases "take (length pat) (x # xs) = pat")
    case True
    then have "length pat \<le> length (x # xs)"
      by (metis length_take min.cobounded1)
    then have "take (length pat) (x # xs @ ys) = take (length pat) (x # xs)"
      by (metis append_Cons diff_is_0_eq' take_0 take_append append_Nil2)
    with True 2 show ?thesis by auto
  next
    case False
    with 2 obtain k where k: "index_of pat xs = Some k" "i = Suc k"
      by auto
    with 2 False have IH: "index_of pat (xs @ ys) = Some k" by simp
    have "length pat \<le> length (x # xs)"
      using index_of_length [OF k(1)] by simp
    then have "take (length pat) (x # xs @ ys) = take (length pat) (x # xs)"
      by (metis append_Cons diff_is_0_eq' take_0 take_append append_Nil2)
    with False IH k show ?thesis by simp
  qed
qed

lemma index_of_single_None [simp]: "index_of [c] xs = None \<longleftrightarrow> c \<notin> set xs"
  by (induction xs) auto

lemma index_of_single_append:
  "c \<notin> set xs \<Longrightarrow> index_of [c] (xs @ c # ys) = Some (length xs)"
  by (induction xs) auto

text \<open>\<open>lastIndexOf\<close> of one code unit.\<close>

fun last_index_of :: "'a \<Rightarrow> 'a list \<Rightarrow> nat option" where
  "last_index_of c [] = None"
| "last_index_of c (x # xs) =
     (case last_index_of c xs of Some i \<Rightarrow> Some (Suc i) | None \<Rightarrow> if x = c then Some 0 else None)"

lemma last_index_of_None [simp]: "last_index_of c xs = None \<longleftrightarrow> c \<notin> set xs"
  by (induction xs) (auto split: option.splits)

lemma last_index_of_append:
  "c \<notin> set ys \<Longrightarrow> last_index_of c (xs @ c # ys) = Some (length xs)"
  by (induction xs) (auto split: option.splits)

lemma last_index_of_Some:
  "last_index_of c xs = Some i \<Longrightarrow> i < length xs \<and> xs ! i = c \<and> c \<notin> set (drop (Suc i) xs)"
  by (induction xs arbitrary: i) (auto split: option.splits if_splits)

text \<open>\<open>split\<close> at a non-empty separator, and \<open>join\<close>.\<close>

function split_on :: "'a list \<Rightarrow> 'a list \<Rightarrow> 'a list list" where
  "split_on sep xs =
     (case index_of sep xs of
        None \<Rightarrow> [xs]
      | Some i \<Rightarrow>
          if sep = [] then [xs]
          else take i xs # split_on sep (drop (i + length sep) xs))"
  by pat_completeness auto
termination
proof (relation "measure (\<lambda>(sep, xs). length xs)")
  fix sep xs :: "'a list" and i
  assume "index_of sep xs = Some i" "sep \<noteq> []"
  then have "i + length sep \<le> length xs" "0 < length sep"
    by (auto dest: index_of_length)
  then have "length xs - (i + length sep) < length xs"
    by linarith
  then show "((sep, drop (i + length sep) xs), sep, xs) \<in> measure (\<lambda>(sep, xs). length xs)"
    by simp
qed simp

declare split_on.simps [simp del]

fun join :: "'a list \<Rightarrow> 'a list list \<Rightarrow> 'a list" where
  "join sep [] = []"
| "join sep [x] = x"
| "join sep (x # y # ys) = x @ sep @ join sep (y # ys)"

lemma split_on_not_Nil [simp]: "split_on sep xs \<noteq> []"
  by (subst split_on.simps) (simp split: option.splits)

lemma join_split_on: "sep \<noteq> [] \<Longrightarrow> join sep (split_on sep xs) = xs"
proof (induction sep xs rule: split_on.induct)
  case (1 sep xs)
  show ?case
  proof (cases "index_of sep xs")
    case None
    then show ?thesis by (simp add: split_on.simps [of sep xs])
  next
    case (Some i)
    let ?rest = "split_on sep (drop (i + length sep) xs)"
    obtain y ys where rest: "?rest = y # ys"
      by (cases ?rest) auto
    have "join sep ?rest = drop (i + length sep) xs"
      using "1.IH" [OF Some] "1.prems" by simp
    moreover have "split_on sep xs = take i xs # ?rest"
      using Some "1.prems" by (simp add: split_on.simps [of sep xs])
    ultimately show ?thesis
      using index_of_split [OF Some] rest by simp
  qed
qed

lemma split_on_single_notin: "c \<notin> set xs \<Longrightarrow> split_on [c] xs = [xs]"
  by (subst split_on.simps) (simp add: iffD2 [OF index_of_single_None])

lemma split_on_single_append:
  "c \<notin> set xs \<Longrightarrow> split_on [c] (xs @ c # ys) = xs # split_on [c] ys"
  by (subst split_on.simps) (simp add: index_of_single_append)

lemma split_on_join:
  "xss \<noteq> [] \<Longrightarrow> (\<And>xs. xs \<in> set xss \<Longrightarrow> c \<notin> set xs) \<Longrightarrow> split_on [c] (join [c] xss) = xss"
proof (induction "[c]" xss rule: join.induct)
  case (3 x y ys)
  then show ?case by (simp add: split_on_single_append)
qed (auto simp: split_on_single_notin)

section \<open>White space and case\<close>

text \<open>What \<open>trim\<close> and \<open>parseInt\<close> skip: WhiteSpace and LineTerminator of the language.\<close>

definition is_ws :: "unit16 \<Rightarrow> bool" where
  "is_ws c \<longleftrightarrow> (let n = unat c in
     (9 \<le> n \<and> n \<le> 13) \<or> n = 32 \<or> n = 160 \<or> n = 5760 \<or> (8192 \<le> n \<and> n \<le> 8202)
     \<or> n = 8232 \<or> n = 8233 \<or> n = 8239 \<or> n = 8287 \<or> n = 12288 \<or> n = 65279)"

definition trim :: "jstr \<Rightarrow> jstr" where
  "trim s = rev (dropWhile is_ws (rev (dropWhile is_ws s)))"

text \<open>
  Lower case of the letters that the program compares: those of ASCII, and the Kelvin sign U+212A,
  the only other code unit with an ASCII lower case (U+0130 gives two units, never an ASCII text).
\<close>

definition lower_unit :: "unit16 \<Rightarrow> unit16" where
  "lower_unit c = (if 65 \<le> c \<and> c \<le> 90 then c + 32 else if c = 0x212A then cu CHR ''k'' else c)"

definition to_lower :: "jstr \<Rightarrow> jstr" where
  "to_lower s = map lower_unit s"

lemma lower_unit_idem [simp]: "lower_unit (lower_unit c) = lower_unit c"
proof -
  have "\<not> (65 \<le> c + 32 \<and> c + 32 \<le> 90)" if "65 \<le> c" "c \<le> 90" for c :: unit16
    using that by unat_arith
  then show ?thesis by (auto simp: lower_unit_def cu_def)
qed

lemma to_lower_idem [simp]: "to_lower (to_lower s) = to_lower s"
  by (simp add: to_lower_def)

lemma to_lower_append [simp]: "to_lower (s @ t) = to_lower s @ to_lower t"
  by (simp add: to_lower_def)

lemma dropWhile_id_hd: "(xs \<noteq> [] \<Longrightarrow> \<not> P (hd xs)) \<Longrightarrow> dropWhile P xs = xs"
  by (cases xs) auto

lemma trim_id:
  "(s \<noteq> [] \<Longrightarrow> \<not> is_ws (hd s)) \<Longrightarrow> (s \<noteq> [] \<Longrightarrow> \<not> is_ws (last s)) \<Longrightarrow> trim s = s"
  by (cases "s = []") (simp_all add: trim_def dropWhile_id_hd hd_rev)

lemma trim_ends:
  assumes "trim s \<noteq> []"
  shows "\<not> is_ws (hd (trim s))" "\<not> is_ws (last (trim s))"
proof -
  let ?t = "dropWhile is_ws s"
  have e: "trim s = rev (dropWhile is_ws (rev ?t))" by (simp add: trim_def)
  have t: "?t \<noteq> []" using assms e by (metis dropWhile.simps(1) rev.simps(1))
  have "?t = trim s @ rev (takeWhile is_ws (rev ?t))"
    by (metis e rev_append rev_rev_ident takeWhile_dropWhile_id)
  then have "hd ?t = hd (trim s)" using assms by (metis hd_append2)
  then show "\<not> is_ws (hd (trim s))" using t hd_dropWhile [of is_ws s] by metis
  have "dropWhile is_ws (rev ?t) \<noteq> []" using assms unfolding e by simp
  then have "\<not> is_ws (hd (dropWhile is_ws (rev ?t)))" by (rule hd_dropWhile)
  moreover have "last (trim s) = hd (dropWhile is_ws (rev ?t))"
    unfolding e by (rule last_rev)
  ultimately show "\<not> is_ws (last (trim s))" by simp
qed

lemma trim_Nil [simp]: "trim [] = []"
  by (simp add: trim_def)

lemma trim_trim [simp]: "trim (trim s) = trim s"
proof (cases "trim s = []")
  case True
  then show ?thesis by (simp only: trim_Nil)
next
  case False
  then show ?thesis by (intro trim_id trim_ends)
qed

text \<open>Lower case keeps white space apart from the rest, so it may come before or after trimming.\<close>

lemma is_ws_lower [simp]: "is_ws (lower_unit c) = is_ws c"
proof -
  have "unat (c + 32) = unat c + 32" "\<not> is_ws c" "\<not> is_ws (c + 32)" if "65 \<le> c" "c \<le> 90"
  proof -
    have b: "65 \<le> unat c" "unat c \<le> 90" using that by (simp_all add: word_le_nat_alt)
    then show u: "unat (c + 32) = unat c + 32" by (subst unat_add_lem [THEN iffD1]) simp_all
    show "\<not> is_ws c" "\<not> is_ws (c + 32)" using b u by (simp_all add: is_ws_def Let_def)
  qed
  then show ?thesis by (auto simp: lower_unit_def is_ws_def cu_def)
qed

lemma trim_to_lower: "trim (to_lower s) = to_lower (trim s)"
proof -
  have "dropWhile is_ws (map lower_unit t) = map lower_unit (dropWhile is_ws t)" for t
    by (simp add: dropWhile_map comp_def)
  then show ?thesis by (simp add: trim_def to_lower_def rev_map)
qed

section \<open>Numbers\<close>

text \<open>The digit a code unit stands for, in any radix up to 36.\<close>

definition digit_val :: "unit16 \<Rightarrow> nat option" where
  "digit_val c = (let n = unat c in
     if 48 \<le> n \<and> n \<le> 57 then Some (n - 48)
     else if 97 \<le> n \<and> n \<le> 122 then Some (n - 87)
     else if 65 \<le> n \<and> n \<le> 90 then Some (n - 55)
     else None)"

definition is_digit :: "nat \<Rightarrow> unit16 \<Rightarrow> bool" where
  "is_digit r c = (case digit_val c of None \<Rightarrow> False | Some d \<Rightarrow> d < r)"

definition digits_value :: "nat \<Rightarrow> jstr \<Rightarrow> nat" where
  "digits_value r ds =
     foldl (\<lambda>n c. n * r + (case digit_val c of None \<Rightarrow> 0 | Some d \<Rightarrow> d)) 0 ds"

text \<open>
  \<open>parseInt(s, radix)\<close> for radix 10 and 16: leading white space, a sign, an optional
  \<open>0x\<close> for radix 16, then the longest run of digits; no digit is NaN (\<open>None\<close>). What
  follows the digits is ignored.
\<close>

definition parse_int :: "jstr \<Rightarrow> nat \<Rightarrow> int option" where
  "parse_int s r =
     (let s1 = dropWhile is_ws s;
          neg = (s1 \<noteq> [] \<and> hd s1 = cu CHR ''-'');
          s2 = (if s1 \<noteq> [] \<and> (hd s1 = cu CHR ''-'' \<or> hd s1 = cu CHR ''+'') then tl s1 else s1);
          s3 = (if r = 16 \<and> to_lower (take 2 s2) = js ''0x'' then drop 2 s2 else s2);
          ds = takeWhile (is_digit r) s3
      in if ds = [] then None
         else Some (if neg then - int (digits_value r ds) else int (digits_value r ds)))"

text \<open>\<open>n.toString(radix)\<close> for a non-negative integer; lower-case digits.\<close>

definition digit_unit :: "nat \<Rightarrow> unit16" where
  "digit_unit d = (if d < 10 then of_nat (48 + d) else of_nat (87 + d))"

fun to_radix :: "nat \<Rightarrow> nat \<Rightarrow> jstr" where
  "to_radix r n =
     (if n < r \<or> r < 2 then [digit_unit n] else to_radix r (n div r) @ [digit_unit (n mod r)])"

declare to_radix.simps [simp del]

abbreviation dec_str :: "nat \<Rightarrow> jstr" where
  "dec_str n \<equiv> to_radix 10 n"

abbreviation hex_str :: "nat \<Rightarrow> jstr" where
  "hex_str n \<equiv> to_radix 16 n"

lemma unat_of_nat_16_small [simp]: "n < 65536 \<Longrightarrow> unat (of_nat n :: unit16) = n"
  by (simp add: unat_of_nat)

lemma digit_val_unit [simp]: "d < 36 \<Longrightarrow> digit_val (digit_unit d) = Some d"
  by (auto simp: digit_val_def digit_unit_def Let_def simp del: of_nat_add)

lemma is_digit_unit [simp]: "d < r \<Longrightarrow> r \<le> 36 \<Longrightarrow> is_digit r (digit_unit d)"
  by (simp add: is_digit_def)

lemma unat_digit_unit: "d < 36 \<Longrightarrow> unat (digit_unit d) = (if d < 10 then 48 + d else 87 + d)"
  by (simp add: digit_unit_def del: of_nat_add)

lemma digits_value_snoc:
  "digits_value r (ds @ [c]) =
     digits_value r ds * r + (case digit_val c of None \<Rightarrow> 0 | Some d \<Rightarrow> d)"
  by (simp add: digits_value_def)

lemma to_radix_not_Nil [simp]: "to_radix r n \<noteq> []"
  by (subst to_radix.simps) simp

lemma to_radix_digits:
  "2 \<le> r \<Longrightarrow> r \<le> 36 \<Longrightarrow> c \<in> set (to_radix r n) \<Longrightarrow> \<exists>d < r. c = digit_unit d"
proof (induction r n rule: to_radix.induct)
  case (1 r n)
  show ?case
  proof (cases "n < r")
    case True
    with "1.prems" show ?thesis by (auto simp: to_radix.simps [of r n])
  next
    case False
    with "1.prems" have "c \<in> set (to_radix r (n div r)) \<or> c = digit_unit (n mod r)"
      by (auto simp: to_radix.simps [of r n])
    then show ?thesis
    proof
      assume "c \<in> set (to_radix r (n div r))"
      with False "1.prems" show ?thesis using "1.IH" by auto
    next
      assume "c = digit_unit (n mod r)"
      moreover have "n mod r < r" using "1.prems" by simp
      ultimately show ?thesis by blast
    qed
  qed
qed

lemma digits_value_to_radix:
  "2 \<le> r \<Longrightarrow> r \<le> 36 \<Longrightarrow> digits_value r (to_radix r n) = n"
proof (induction r n rule: to_radix.induct)
  case (1 r n)
  show ?case
  proof (cases "n < r")
    case True
    with "1.prems" show ?thesis
      by (simp add: to_radix.simps [of r n] digits_value_def)
  next
    case False
    have "n mod r < 36"
      using "1.prems" mod_less_divisor [of r n] by linarith
    with False "1.prems" "1.IH" show ?thesis
      by (simp add: to_radix.simps [of r n] digits_value_snoc)
  qed
qed

lemma is_ws_digit_unit [simp]: "d < 36 \<Longrightarrow> \<not> is_ws (digit_unit d)"
  by (auto simp: is_ws_def Let_def unat_digit_unit)

lemma sign_digit_unit [simp]:
  "d < 36 \<Longrightarrow> digit_unit d \<noteq> cu CHR ''-''" "d < 36 \<Longrightarrow> digit_unit d \<noteq> cu CHR ''+''"
  by (auto simp: cu_def word_unat_eq_iff unat_digit_unit)

lemma takeWhile_digits:
  "2 \<le> r \<Longrightarrow> r \<le> 36 \<Longrightarrow> (rest \<noteq> [] \<Longrightarrow> \<not> is_digit r (hd rest)) \<Longrightarrow>
   takeWhile (is_digit r) (to_radix r n @ rest) = to_radix r n"
proof -
  assume r: "2 \<le> r" "r \<le> 36" and rest: "rest \<noteq> [] \<Longrightarrow> \<not> is_digit r (hd rest)"
  have "\<forall>c \<in> set (to_radix r n). is_digit r c"
    using to_radix_digits [OF r] r by fastforce
  moreover have "takeWhile (is_digit r) rest = []"
    using rest by (cases rest) auto
  ultimately show ?thesis by (simp add: takeWhile_append)
qed

lemma parse_int_plain:
  assumes "s \<noteq> []" "\<not> is_ws (hd s)" "hd s \<noteq> cu CHR ''-''" "hd s \<noteq> cu CHR ''+''"
    and "\<not> (r = 16 \<and> to_lower (take 2 s) = js ''0x'')"
    and "takeWhile (is_digit r) s = ds" "ds \<noteq> []"
  shows "parse_int s r = Some (int (digits_value r ds))"
proof -
  have "dropWhile is_ws s = s" using assms(1,2) by (cases s) auto
  then show ?thesis using assms(3-) unfolding parse_int_def Let_def by auto
qed

text \<open>Parsing what \<open>toString\<close> printed, whatever follows it that is not a digit.\<close>

lemma parse_int_to_radix:
  assumes r: "r = 10 \<or> r = 16"
    and rest: "rest \<noteq> [] \<Longrightarrow> \<not> is_digit r (hd rest) \<and> lower_unit (hd rest) \<noteq> cu CHR ''x''"
  shows "parse_int (to_radix r n @ rest) r = Some (int n)"
proof -
  have r2: "2 \<le> r" "r \<le> 36" using r by auto
  obtain c cs where cs: "to_radix r n = c # cs"
    by (cases "to_radix r n") auto
  then obtain d where d: "d < r" "c = digit_unit d"
    using to_radix_digits [OF r2, of c n] by auto
  then have d36: "d < 36" using r2 by simp
  have no_x: "\<not> (r = 16 \<and> to_lower (take 2 (to_radix r n @ rest)) = js ''0x'')"
  proof
    assume a: "r = 16 \<and> to_lower (take 2 (to_radix r n @ rest)) = js ''0x''"
    then obtain y ys where y: "cs @ rest = y # ys" "lower_unit y = cu CHR ''x''"
      by (cases "cs @ rest") (auto simp: cs to_lower_def)
    show False
    proof (cases cs)
      case Nil
      with y rest show False by simp
    next
      case (Cons z zs)
      then have "z \<in> set (to_radix r n)" using cs by simp
      then obtain e where e: "e < r" "z = digit_unit e"
        using to_radix_digits [OF r2] by blast
      have "z = y" using Cons y by simp
      moreover have "lower_unit (digit_unit e) \<noteq> cu CHR ''x''"
        using e a by (auto simp: lower_unit_def cu_def word_unat_eq_iff word_le_nat_alt unat_digit_unit
            split: if_splits)
      ultimately show False using e y by simp
    qed
  qed
  have hd: "hd (to_radix r n @ rest) = digit_unit d"
    using cs d by simp
  have "takeWhile (is_digit r) (to_radix r n @ rest) = to_radix r n"
    using takeWhile_digits [OF r2] rest by blast
  then have "parse_int (to_radix r n @ rest) r = Some (int (digits_value r (to_radix r n)))"
    using no_x d36 hd by (intro parse_int_plain) simp_all
  then show ?thesis by (simp add: digits_value_to_radix [OF r2])
qed

end
