(* ===== verification/Utf8.thy ===== *)
theory Utf8
  imports JsText
begin

text \<open>
  \<open>new TextEncoder().encode\<close> and \<open>new TextDecoder().decode\<close>, as the Encoding Standard
  fixes them: a lone surrogate is encoded as U+FFFD, a malformed byte sequence decodes to
  U+FFFD (the decoder is not fatal), and the decoder drops a leading byte-order mark.
\<close>

section \<open>Encoding\<close>

definition high_surrogate :: "unit16 \<Rightarrow> bool" where
  "high_surrogate u \<longleftrightarrow> 55296 \<le> unat u \<and> unat u < 56320"

definition low_surrogate :: "unit16 \<Rightarrow> bool" where
  "low_surrogate u \<longleftrightarrow> 56320 \<le> unat u \<and> unat u < 57344"

definition surrogate :: "unit16 \<Rightarrow> bool" where
  "surrogate u \<longleftrightarrow> high_surrogate u \<or> low_surrogate u"

fun code_points :: "jstr \<Rightarrow> nat list" where
  "code_points [] = []"
| "code_points [u] = [if surrogate u then 65533 else unat u]"
| "code_points (u # v # us) =
     (if high_surrogate u \<and> low_surrogate v
      then (65536 + (unat u - 55296) * 1024 + (unat v - 56320)) # code_points us
      else (if surrogate u then 65533 else unat u) # code_points (v # us))"

definition utf8_of :: "nat \<Rightarrow> bytes" where
  "utf8_of c =
     (if c < 128 then [of_nat c]
      else if c < 2048 then [of_nat (192 + c div 64), of_nat (128 + c mod 64)]
      else if c < 65536 then
        [of_nat (224 + c div 4096), of_nat (128 + c div 64 mod 64), of_nat (128 + c mod 64)]
      else
        [of_nat (240 + c div 262144), of_nat (128 + c div 4096 mod 64),
         of_nat (128 + c div 64 mod 64), of_nat (128 + c mod 64)])"

definition text_encode :: "jstr \<Rightarrow> bytes" where
  "text_encode s = concat (map utf8_of (code_points s))"

section \<open>Decoding\<close>

text \<open>
  The decoder's state: how many continuation bytes are still needed, the code point so far
  and the bounds on the next byte.
\<close>

type_synonym utf8_state = "nat \<times> nat \<times> nat \<times> nat"

definition utf8_init :: utf8_state where
  "utf8_init = (0, 0, 128, 191)"

definition utf8_start :: "nat \<Rightarrow> nat list \<times> utf8_state" where
  "utf8_start b =
     (if b < 128 then ([b], utf8_init)
      else if 194 \<le> b \<and> b \<le> 223 then ([], (1, b - 192, 128, 191))
      else if 224 \<le> b \<and> b \<le> 239 then
        ([], (2, b - 224, if b = 224 then 160 else 128, if b = 237 then 159 else 191))
      else if 240 \<le> b \<and> b \<le> 244 then
        ([], (3, b - 240, if b = 240 then 144 else 128, if b = 244 then 143 else 191))
      else ([65533], utf8_init))"

fun utf8_step :: "utf8_state \<Rightarrow> nat \<Rightarrow> nat list \<times> utf8_state" where
  "utf8_step (n, cp, lo, hi) b =
     (if n = 0 then utf8_start b
      else if lo \<le> b \<and> b \<le> hi then
        (let cp' = cp * 64 + (b - 128)
         in if n = 1 then ([cp'], utf8_init) else ([], (n - 1, cp', 128, 191)))
      else (let (out, st) = utf8_start b in (65533 # out, st)))"

fun utf8_run :: "utf8_state \<Rightarrow> bytes \<Rightarrow> nat list" where
  "utf8_run st [] = (if fst st = 0 then [] else [65533])"
| "utf8_run st (b # bs) = (let (out, st') = utf8_step st (unat b) in out @ utf8_run st' bs)"

definition to_utf16 :: "nat \<Rightarrow> jstr" where
  "to_utf16 c =
     (if c < 65536 then [of_nat c]
      else [of_nat (55296 + (c - 65536) div 1024), of_nat (56320 + (c - 65536) mod 1024)])"

definition strip_bom :: "bytes \<Rightarrow> bytes" where
  "strip_bom bs = (if take 3 bs = [0xEF, 0xBB, 0xBF] then drop 3 bs else bs)"

definition text_decode :: "bytes \<Rightarrow> jstr" where
  "text_decode bs = concat (map to_utf16 (utf8_run utf8_init (strip_bom bs)))"

section \<open>Round trip\<close>

text \<open>Well-formed UTF-16: every surrogate is half of a pair.\<close>

fun well_formed :: "jstr \<Rightarrow> bool" where
  "well_formed [] = True"
| "well_formed [u] = (\<not> surrogate u)"
| "well_formed (u # v # us) =
     (if high_surrogate u \<and> low_surrogate v then well_formed us
      else \<not> surrogate u \<and> well_formed (v # us))"

definition scalar :: "nat \<Rightarrow> bool" where
  "scalar c \<longleftrightarrow> c < 55296 \<or> (57344 \<le> c \<and> c < 1114112)"

text \<open>The text survives encoding and decoding.\<close>

definition encodable :: "jstr \<Rightarrow> bool" where
  "encodable s \<longleftrightarrow> well_formed s \<and> (s \<noteq> [] \<longrightarrow> hd s \<noteq> 0xFEFF)"

lemma unit_less [simp]: "unat (u :: unit16) < 65536"
  using unsigned_less [of u] by simp

lemma unit_scalar: "\<not> surrogate u \<Longrightarrow> scalar (unat u)"
  using less_trans [OF unit_less [of u], of 1114112]
  by (auto simp: scalar_def surrogate_def high_surrogate_def low_surrogate_def)

lemma pair_scalar:
  "high_surrogate u \<Longrightarrow> low_surrogate v \<Longrightarrow>
   scalar (65536 + (unat u - 55296) * 1024 + (unat v - 56320))"
  by (auto simp: scalar_def high_surrogate_def low_surrogate_def)

lemma scalar_replacement: "scalar 65533"
  by (simp add: scalar_def)

lemma scalar_code_points: "c \<in> set (code_points s) \<Longrightarrow> scalar c"
  by (induction s rule: code_points.induct)
    (auto simp: unit_scalar pair_scalar scalar_replacement split: if_splits)

lemma utf8_run_1: "c < 128 \<Longrightarrow> utf8_run utf8_init (of_nat c # bs) = c # utf8_run utf8_init bs"
  by (simp add: utf8_init_def utf8_start_def)

lemma utf8_run_2:
  "2 \<le> a \<Longrightarrow> a < 32 \<Longrightarrow> b < 64 \<Longrightarrow>
   utf8_run utf8_init (of_nat (192 + a) # of_nat (128 + b) # bs)
     = (a * 64 + b) # utf8_run utf8_init bs"
  by (simp add: utf8_init_def utf8_start_def del: of_nat_add)

lemma utf8_run_3:
  assumes "a < 16" "b < 64" "d < 64" "a = 0 \<longrightarrow> 32 \<le> b" "a = 13 \<longrightarrow> b < 32"
  shows "utf8_run utf8_init (of_nat (224 + a) # of_nat (128 + b) # of_nat (128 + d) # bs)
     = ((a * 64 + b) * 64 + d) # utf8_run utf8_init bs"
proof -
  have "utf8_step utf8_init (224 + a) =
      ([], 2, a, if a = 0 then 160 else 128, if a = 13 then 159 else 191)"
    using assms by (simp add: utf8_init_def utf8_start_def)
  then show ?thesis
    using assms by (simp del: of_nat_add utf8_step.simps) (auto simp del: of_nat_add)
qed

lemma utf8_run_4:
  assumes "a < 5" "b < 64" "d < 64" "e < 64" "a = 0 \<longrightarrow> 16 \<le> b" "a = 4 \<longrightarrow> b < 16"
  shows "utf8_run utf8_init
       (of_nat (240 + a) # of_nat (128 + b) # of_nat (128 + d) # of_nat (128 + e) # bs)
     = (((a * 64 + b) * 64 + d) * 64 + e) # utf8_run utf8_init bs"
proof -
  have "utf8_step utf8_init (240 + a) =
      ([], 3, a, if a = 0 then 144 else 128, if a = 4 then 143 else 191)"
    using assms by (simp add: utf8_init_def utf8_start_def)
  then show ?thesis
    using assms by (simp del: of_nat_add utf8_step.simps) (auto simp del: of_nat_add)
qed

lemma base64_digits:
  fixes c :: nat
  shows "c div 64 * 64 + c mod 64 = c"
    and "(c div 4096 * 64 + c div 64 mod 64) * 64 + c mod 64 = c"
    and "((c div 262144 * 64 + c div 4096 mod 64) * 64 + c div 64 mod 64) * 64 + c mod 64 = c"
proof -
  show one: "c div 64 * 64 + c mod 64 = c" for c :: nat by simp
  have "c div 4096 = c div 64 div 64" "c div 262144 = c div 64 div 64 div 64"
    by (simp_all add: div_mult2_eq [symmetric])
  with one [of c] one [of "c div 64"] one [of "c div 4096"]
  show "(c div 4096 * 64 + c div 64 mod 64) * 64 + c mod 64 = c"
    and "((c div 262144 * 64 + c div 4096 mod 64) * 64 + c div 64 mod 64) * 64 + c mod 64 = c"
    by simp_all
qed

text \<open>Overlong forms and surrogates are what the decoder's bounds exclude.\<close>

lemma three_bytes_bounds:
  assumes "(a * 64 + b) * 64 + d = c" "b < 64" "d < 64" "2048 \<le> c" "scalar c"
  shows "(a = 0 \<longrightarrow> 32 \<le> b) \<and> (a = 13 \<longrightarrow> b < 32)"
  using assms by (auto simp: scalar_def)

lemma four_bytes_bounds:
  fixes a b c d e :: nat
  assumes "((a * 64 + b) * 64 + d) * 64 + e = c" "b < 64" "d < 64" "e < 64"
    "65536 \<le> c" "c < 1114112"
  shows "(a = 0 \<longrightarrow> 16 \<le> b) \<and> (a = 4 \<longrightarrow> b < 16)"
  using assms by auto

lemma utf8_run_utf8_of:
  assumes "scalar c"
  shows "utf8_run utf8_init (utf8_of c @ bs) = c # utf8_run utf8_init bs"
proof -
  consider "c < 128" | "128 \<le> c" "c < 2048" | "2048 \<le> c" "c < 65536" | "65536 \<le> c" "c < 1114112"
    using assms by (force simp: scalar_def)
  then show ?thesis
  proof cases
    case 1
    then show ?thesis by (simp add: utf8_of_def utf8_run_1 del: utf8_run.simps)
  next
    case 2
    then have "2 \<le> c div 64" "c div 64 < 32" by auto
    moreover have "utf8_of c = [of_nat (192 + c div 64), of_nat (128 + c mod 64)]"
      using 2 by (simp add: utf8_of_def del: of_nat_add)
    ultimately show ?thesis
      using utf8_run_2 [of "c div 64" "c mod 64" bs] base64_digits(1) [of c]
      by (simp del: utf8_run.simps of_nat_add)
  next
    case 3
    let ?a = "c div 4096" and ?b = "c div 64 mod 64" and ?d = "c mod 64"
    have bd: "?b < 64" "?d < 64" by simp_all
    have a: "?a < 16" using 3 by auto
    have lohi: "?a = 0 \<longrightarrow> 32 \<le> ?b" "?a = 13 \<longrightarrow> ?b < 32"
      using three_bytes_bounds [OF base64_digits(2) [of c] bd 3(1) assms] by blast+
    have "utf8_of c = [of_nat (224 + ?a), of_nat (128 + ?b), of_nat (128 + ?d)]"
      using 3 by (simp add: utf8_of_def del: of_nat_add)
    then show ?thesis
      by (simp only: append_Cons append_Nil utf8_run_3 [OF a bd lohi] base64_digits(2))
  next
    case 4
    let ?a = "c div 262144" and ?b = "c div 4096 mod 64" and ?d = "c div 64 mod 64" and ?e = "c mod 64"
    have bde: "?b < 64" "?d < 64" "?e < 64" by simp_all
    have a: "?a < 5" using 4 by auto
    have lohi: "?a = 0 \<longrightarrow> 16 \<le> ?b" "?a = 4 \<longrightarrow> ?b < 16"
      using four_bytes_bounds [OF base64_digits(3) [of c] bde 4] by blast+
    have "utf8_of c =
        [of_nat (240 + ?a), of_nat (128 + ?b), of_nat (128 + ?d), of_nat (128 + ?e)]"
      using 4 by (simp add: utf8_of_def del: of_nat_add)
    then show ?thesis
      by (simp only: append_Cons append_Nil utf8_run_4 [OF a bde lohi] base64_digits(3))
  qed
qed

lemma utf8_run_text_encode:
  "utf8_run utf8_init (text_encode s) = code_points s"
proof -
  have "utf8_run utf8_init (concat (map utf8_of cs)) = cs" if "\<forall>c \<in> set cs. scalar c" for cs
    using that by (induction cs) (simp_all add: utf8_run_utf8_of, simp add: utf8_init_def)
  then show ?thesis by (simp add: text_encode_def scalar_code_points)
qed

lemma to_utf16_pair:
  assumes "high_surrogate u" "low_surrogate v"
  shows "to_utf16 (65536 + (unat u - 55296) * 1024 + (unat v - 56320)) = [u, v]"
proof -
  obtain a b where a: "unat u = 55296 + a" "a < 1024" and b: "unat v = 56320 + b" "b < 1024"
    using assms by (auto simp: high_surrogate_def low_surrogate_def nat_le_iff_add)
  have "u = of_nat (55296 + a)" "v = of_nat (56320 + b)"
    unfolding a(1) [symmetric] b(1) [symmetric] by simp_all
  then show ?thesis using a b by (simp add: to_utf16_def)
qed

lemma to_utf16_code_points: "well_formed s \<Longrightarrow> concat (map to_utf16 (code_points s)) = s"
proof (induction s rule: well_formed.induct)
  case (2 u)
  then show ?case by (simp add: to_utf16_def)
next
  case (3 u v us)
  show ?case
  proof (cases "high_surrogate u \<and> low_surrogate v")
    case True
    then have "to_utf16 (65536 + (unat u - 55296) * 1024 + (unat v - 56320)) = [u, v]"
      by (simp add: to_utf16_pair)
    moreover have "concat (map to_utf16 (code_points us)) = us"
      using 3 True by auto
    ultimately show ?thesis
      using True by (simp only: code_points.simps if_True simp_thms list.map concat.simps append.simps)
  next
    case False
    have "to_utf16 (unat u) = [u]" by (simp add: to_utf16_def)
    moreover have "code_points (u # v # us) = unat u # code_points (v # us)"
      using 3 False by auto
    moreover have "concat (map to_utf16 (code_points (v # us))) = v # us"
      using 3 False by (auto simp del: code_points.simps)
    ultimately show ?thesis
      by (simp only: list.map concat.simps append.simps)
  qed
qed simp

text \<open>Only U+FEFF encodes to the three bytes of the mark.\<close>

lemma encode_no_bom:
  assumes "encodable s"
  shows "strip_bom (text_encode s) = text_encode s"
proof -
  have "take 3 (text_encode s) \<noteq> [0xEF, 0xBB, 0xBF]"
  proof
    assume bom: "take 3 (text_encode s) = [0xEF, 0xBB, 0xBF]"
    then have enc: "text_encode s = [0xEF, 0xBB, 0xBF] @ drop 3 (text_encode s)"
      by (metis append_take_drop_id)
    have "utf8_run utf8_init ([0xEF, 0xBB, 0xBF] @ bs) = 65279 # utf8_run utf8_init bs" for bs
      by (simp add: utf8_init_def utf8_start_def)
    then have cps: "code_points s = 65279 # utf8_run utf8_init (drop 3 (text_encode s))"
      using utf8_run_text_encode [of s] enc by metis
    then obtain u us where s: "s = u # us" by (cases s) auto
    have "hd s = 0xFEFF"
      using cps s assms
      by (cases us) (auto simp: encodable_def word_unat_eq_iff split: if_splits)
    then show False using assms s by (simp add: encodable_def)
  qed
  then show ?thesis by (simp add: strip_bom_def)
qed

lemma text_decode_encode: "encodable s \<Longrightarrow> text_decode (text_encode s) = s"
  by (simp add: text_decode_def encode_no_bom utf8_run_text_encode to_utf16_code_points encodable_def)

text \<open>ASCII text is one byte per code unit, both ways.\<close>

definition ascii :: "jstr \<Rightarrow> bool" where
  "ascii s \<longleftrightarrow> (\<forall>u \<in> set s. unat u < 128)"

lemma ascii_simps [simp]:
  "ascii []" "ascii (u # us) \<longleftrightarrow> unat u < 128 \<and> ascii us"
  "ascii (s @ t) \<longleftrightarrow> ascii s \<and> ascii t"
  by (auto simp: ascii_def)

lemma code_points_ascii: "ascii s \<Longrightarrow> code_points s = map unat s"
  by (induction s rule: code_points.induct)
    (auto simp: surrogate_def high_surrogate_def low_surrogate_def)

lemma text_encode_ascii: "ascii s \<Longrightarrow> text_encode s = map (\<lambda>u. of_nat (unat u)) s"
  by (induction s) (auto simp: text_encode_def code_points_ascii utf8_of_def ascii_def)

lemma ascii_well_formed: "ascii s \<Longrightarrow> well_formed s"
  by (induction s rule: well_formed.induct)
    (auto simp: surrogate_def high_surrogate_def low_surrogate_def)

lemma ascii_encodable: "ascii s \<Longrightarrow> encodable s"
  by (cases s) (auto simp: encodable_def ascii_well_formed)

lemma length_text_encode_ascii: "ascii s \<Longrightarrow> length (text_encode s) = length s"
  by (simp add: text_encode_ascii)

lemma text_encode_Nil [simp]: "text_encode [] = []"
  by (simp add: text_encode_def)

lemma text_encode_append_ascii:
  "ascii s \<Longrightarrow> text_encode (s @ t) = text_encode s @ text_encode t"
proof (induction s)
  case (Cons u s)
  have "code_points (u # r) = unat u # code_points r" for r
    using Cons.prems by (cases r) (auto simp: surrogate_def high_surrogate_def low_surrogate_def)
  with Cons show ?case by (simp add: text_encode_def)
qed simp

lemma ascii_digit_unit [simp]: "d < 36 \<Longrightarrow> unat (digit_unit d) < 128"
  by (simp add: unat_digit_unit)

lemma ascii_to_radix: "2 \<le> r \<Longrightarrow> r \<le> 36 \<Longrightarrow> ascii (to_radix r n)"
  unfolding ascii_def using to_radix_digits [of r _ n] by fastforce

end
