(* ===== verification/Relay.thy ===== *)
theory Relay
  imports Utf8
begin

text \<open>
  The relay protocol codec, \<open>extension/lib/relay.js\<close>: the five feature codecs, the
  type-length-value layer, the request encoder and the response decoder. All integers on
  the wire are big-endian. A \<open>RelayError\<close> (and the \<open>RangeError\<close> of a write past a buffer)
  is the left side of a sum. The contract of one feature codec is the locale
  \<open>feature_codec\<close>; the round trip of a whole message rests on its five interpretations.
\<close>

section \<open>Constants and data\<close>

definition Version1 :: byte where "Version1 = 1"

definition CmdConnect :: byte where "CmdConnect = 1"
definition CmdBind :: byte where "CmdBind = 2"
definition CmdAssociate :: byte where "CmdAssociate = 3"

definition StatusOK :: byte where "StatusOK = 0"

definition FeatureUserAuth :: nat where "FeatureUserAuth = 1"
definition FeatureAddr :: nat where "FeatureAddr = 2"
definition FeatureTunnel :: nat where "FeatureTunnel = 3"
definition FeatureNetwork :: nat where "FeatureNetwork = 4"
definition FeatureMetadata :: nat where "FeatureMetadata = 5"

definition AddrIPv4 :: byte where "AddrIPv4 = 1"
definition AddrDomain :: byte where "AddrDomain = 3"
definition AddrIPv6 :: byte where "AddrIPv6 = 4"

definition NetworkTCP :: nat where "NetworkTCP = 0"
definition NetworkUDP :: nat where "NetworkUDP = 1"

definition FEATURE_HEADER_LEN :: nat where "FEATURE_HEADER_LEN = 3"

lemmas feature_types =
  FeatureUserAuth_def FeatureAddr_def FeatureTunnel_def FeatureNetwork_def FeatureMetadata_def

lemmas addr_types = AddrIPv4_def AddrDomain_def AddrIPv6_def

datatype relay_error =
    ShortBuffer
  | UsernameLength
  | PasswordLength
  | AddrLength
  | BadAddrType byte
  | TunnelIdLength
  | FeaturesLength
  | BadVersion byte
  | RangeError

text \<open>A string-to-string object, in the order of \<open>Object.keys\<close>.\<close>

type_synonym metadata = "(jstr, jstr) jsmap"

text \<open>
  A feature to send: the \<open>type\<close> and \<open>payload\<close> of the source, one constructor per handler;
  \<open>FOpaque\<close> is a type without a handler and its raw bytes.
\<close>

datatype feature =
    FUserAuth jstr jstr
  | FAddr jstr int
  | FTunnel bytes
  | FNetwork nat
  | FMetadata metadata
  | FOpaque nat bytes

text \<open>A decoded feature's value.\<close>

datatype fvalue =
    VUserAuth jstr jstr
  | VAddr jstr nat byte
  | VTunnel bytes
  | VNetwork nat
  | VMetadata metadata
  | VRaw bytes

section \<open>Feature codecs\<close>

definition encodeUserAuth :: "jstr \<Rightarrow> jstr \<Rightarrow> relay_error + bytes" where
  "encodeUserAuth username password =
     (let uname = text_encode username; pwd = text_encode password in
      if length uname > 255 then Inl UsernameLength
      else if length pwd > 255 then Inl PasswordLength
      else Inr ([of_nat (length uname)] @ uname @ [of_nat (length pwd)] @ pwd))"

definition decodeUserAuth :: "bytes \<Rightarrow> relay_error + fvalue" where
  "decodeUserAuth data =
     (if length data < 2 then Inl ShortBuffer
      else let ulen = unat (data ! 0); pos = 1 in
        if length data < pos + ulen + 1 then Inl ShortBuffer
        else let username = text_decode (slice data pos (pos + ulen));
                 plen = unat (data ! (pos + ulen)); pos2 = pos + ulen + 1 in
          if length data < pos2 + plen then Inl ShortBuffer
          else Inr (VUserAuth username (text_decode (slice data pos2 (pos2 + plen)))))"

text \<open>IP literals. \<open>parseInt\<close> ignores what follows the digits of a part.\<close>

definition parseIPv4 :: "jstr \<Rightarrow> bytes option" where
  "parseIPv4 host =
     (let parts = split_on [cu CHR ''.''] host;
          ns = map (\<lambda>p. parse_int p 10) parts in
      if length parts \<noteq> 4 then None
      else if list_all (\<lambda>n. case n of None \<Rightarrow> False | Some k \<Rightarrow> 0 \<le> k \<and> k \<le> 255) ns
      then Some (map (\<lambda>n. of_nat (nat (the n))) ns)
      else None)"

fun hex_groups :: "jstr list \<Rightarrow> bytes option" where
  "hex_groups [] = Some []"
| "hex_groups (part # parts) =
     (case parse_int part 16 of
        None \<Rightarrow> None
      | Some n \<Rightarrow>
          if n < 0 \<or> n > 65535 then None
          else map_option (\<lambda>bs. put_u16_be (nat n) @ bs) (hex_groups parts))"

definition groups_of :: "jstr \<Rightarrow> jstr list" where
  "groups_of s = (if s = [] then [] else filter (\<lambda>p. p \<noteq> []) (split_on [cu CHR '':''] s))"

definition parseIPv6 :: "jstr \<Rightarrow> bytes option" where
  "parseIPv6 host =
     (let colons = length (filter (\<lambda>c. c = cu CHR '':'') host);
          doubleColon = index_of (js ''::'') host in
      if colons < 2 \<or> colons > 7 then None
      else if doubleColon = None \<and> colons \<noteq> 7 then None
      else
        let left = (case doubleColon of None \<Rightarrow> host | Some i \<Rightarrow> take i host);
            right = (case doubleColon of None \<Rightarrow> [] | Some i \<Rightarrow> drop (i + 2) host);
            leftParts = groups_of left;
            rightParts = groups_of right in
        if length leftParts + length rightParts > 8 then None
        else
          let omitted = 8 - length leftParts - length rightParts in
          (case hex_groups leftParts of
             None \<Rightarrow> None
           | Some l \<Rightarrow>
               (case hex_groups rightParts of
                  None \<Rightarrow> None
                | Some r \<Rightarrow> Some (l @ replicate (omitted * 2) 0 @ r))))"

text \<open>
  The address is written into a 256-byte view. A domain name that does not leave room for
  the port throws a \<open>RangeError\<close>.
\<close>

definition ADDR_VIEW_SIZE :: nat where "ADDR_VIEW_SIZE = 256"

definition encodeAddr :: "jstr \<Rightarrow> int \<Rightarrow> relay_error + bytes" where
  "encodeAddr host port =
     (let port16 = put_u16_be (nat (port mod 65536)) in
      case parseIPv4 host of
        Some ip4 \<Rightarrow> Inr ([AddrIPv4] @ ip4 @ port16)
      | None \<Rightarrow>
          (case parseIPv6 host of
             Some ip6 \<Rightarrow> Inr ([AddrIPv6] @ ip6 @ port16)
           | None \<Rightarrow>
               (let name = text_encode host in
                if length name > 255 then Inl AddrLength
                else if 2 + length name + 2 > ADDR_VIEW_SIZE then Inl RangeError
                else Inr ([AddrDomain, of_nat (length name)] @ name @ port16))))"

definition dotted :: "bytes \<Rightarrow> jstr" where
  "dotted ip = join [cu CHR ''.''] (map (\<lambda>b. dec_str (unat b)) ip)"

fun hex_pairs :: "bytes \<Rightarrow> jstr list" where
  "hex_pairs (a # b # bs) = hex_str (push_bit 8 (unat a) OR unat b) # hex_pairs bs"
| "hex_pairs _ = []"

definition coloned :: "bytes \<Rightarrow> jstr" where
  "coloned ip = join [cu CHR '':''] (hex_pairs ip)"

definition decodeAddr :: "bytes \<Rightarrow> relay_error + fvalue" where
  "decodeAddr data =
     (if length data < 4 then Inl ShortBuffer
      else let aType = data ! 0 in
        if aType = AddrIPv4 then
          (if length data < 1 + 4 + 2 then Inl ShortBuffer
           else Inr (VAddr (dotted (slice data 1 5)) (get_u16_be data 5) aType))
        else if aType = AddrIPv6 then
          (if length data < 1 + 16 + 2 then Inl ShortBuffer
           else Inr (VAddr (coloned (slice data 1 17)) (get_u16_be data 17) aType))
        else if aType = AddrDomain then
          (let alen = unat (data ! 1); pos = 2 in
           if length data < 1 + 1 + alen + 2 then Inl ShortBuffer
           else Inr (VAddr (text_decode (slice data pos (pos + alen)))
                  (get_u16_be data (pos + alen)) aType))
        else Inl (BadAddrType aType))"

definition encodeTunnel :: "bytes \<Rightarrow> relay_error + bytes" where
  "encodeTunnel id20 = (if length id20 \<noteq> 20 then Inl TunnelIdLength else Inr id20)"

definition decodeTunnel :: "bytes \<Rightarrow> relay_error + fvalue" where
  "decodeTunnel data =
     (if length data < 20 then Inl ShortBuffer else Inr (VTunnel (take 20 data)))"

definition encodeNetwork :: "nat \<Rightarrow> relay_error + bytes" where
  "encodeNetwork networkId = Inr (put_u16_be networkId)"

definition decodeNetwork :: "bytes \<Rightarrow> relay_error + fvalue" where
  "decodeNetwork data =
     (if length data < 2 then Inl ShortBuffer else Inr (VNetwork (get_u16_be data 0)))"

definition encode_entry :: "jstr \<times> jstr \<Rightarrow> bytes" where
  "encode_entry kv =
     (let k = text_encode (fst kv); v = text_encode (snd kv)
      in put_u16_be (length k) @ k @ put_u16_be (length v) @ v)"

definition encodeMetadata :: "metadata \<Rightarrow> relay_error + bytes" where
  "encodeMetadata kvs =
     (if kvs = [] then Inr [0, 0]
      else Inr (put_u16_be (length kvs) @ concat (map encode_entry kvs)))"

text \<open>
  \<open>kvs[key] = val\<close> on a plain object: the key \<open>__proto__\<close> names a setter that ignores a
  string, every other key is set.
\<close>

definition object_set :: "jstr \<Rightarrow> jstr \<Rightarrow> metadata \<Rightarrow> metadata" where
  "object_set k v kvs = (if k = js ''__proto__'' then kvs else jset k v kvs)"

primrec decode_entries :: "nat \<Rightarrow> bytes \<Rightarrow> nat \<Rightarrow> metadata \<Rightarrow> relay_error + metadata" where
  "decode_entries 0 data off kvs = Inr kvs"
| "decode_entries (Suc n) data off kvs =
     (if off + 2 > length data then Inl ShortBuffer
      else let klen = get_u16_be data off; off1 = off + 2 in
        if off1 + klen > length data then Inl ShortBuffer
        else let key = text_decode (slice data off1 (off1 + klen)); off2 = off1 + klen in
          if off2 + 2 > length data then Inl ShortBuffer
          else let vlen = get_u16_be data off2; off3 = off2 + 2 in
            if off3 + vlen > length data then Inl ShortBuffer
            else let val = text_decode (slice data off3 (off3 + vlen)) in
              decode_entries n data (off3 + vlen) (object_set key val kvs))"

definition decodeMetadata :: "bytes \<Rightarrow> relay_error + fvalue" where
  "decodeMetadata data =
     (if length data < 2 then Inl ShortBuffer
      else rbind (decode_entries (get_u16_be data 0) data 2 []) (\<lambda>kvs. Inr (VMetadata kvs)))"

section \<open>Type, length, value\<close>

definition encodeTLV :: "nat \<Rightarrow> bytes \<Rightarrow> bytes" where
  "encodeTLV type raw = [of_nat type] @ put_u16_be (length raw) @ raw"

fun encodeFeature :: "feature \<Rightarrow> relay_error + bytes" where
  "encodeFeature (FUserAuth u p) = map_sum id (encodeTLV FeatureUserAuth) (encodeUserAuth u p)"
| "encodeFeature (FAddr h p) = map_sum id (encodeTLV FeatureAddr) (encodeAddr h p)"
| "encodeFeature (FTunnel i) = map_sum id (encodeTLV FeatureTunnel) (encodeTunnel i)"
| "encodeFeature (FNetwork n) = map_sum id (encodeTLV FeatureNetwork) (encodeNetwork n)"
| "encodeFeature (FMetadata kvs) = map_sum id (encodeTLV FeatureMetadata) (encodeMetadata kvs)"
| "encodeFeature (FOpaque t raw) = Inr (encodeTLV t raw)"

text \<open>The handler table of the decoder; a type without a handler passes through.\<close>

definition decode_value :: "nat \<Rightarrow> bytes \<Rightarrow> relay_error + fvalue" where
  "decode_value type raw =
     (if type = FeatureUserAuth then decodeUserAuth raw
      else if type = FeatureAddr then decodeAddr raw
      else if type = FeatureTunnel then decodeTunnel raw
      else if type = FeatureNetwork then decodeNetwork raw
      else if type = FeatureMetadata then decodeMetadata raw
      else Inr (VRaw raw))"

text \<open>One feature at an offset: its type and value, and the bytes it took.\<close>

definition decodeFeature :: "bytes \<Rightarrow> nat \<Rightarrow> relay_error + ((nat \<times> fvalue) \<times> nat)" where
  "decodeFeature buffer off =
     (if length buffer < off + FEATURE_HEADER_LEN then Inl ShortBuffer
      else let type = unat (buffer ! off); len = get_u16_be buffer (off + 1) in
        if length buffer < off + FEATURE_HEADER_LEN + len then Inl ShortBuffer
        else rbind (decode_value type (slice buffer (off + FEATURE_HEADER_LEN)
                      (off + FEATURE_HEADER_LEN + len)))
               (\<lambda>v. Inr ((type, v), FEATURE_HEADER_LEN + len)))"

lemma decodeFeature_progress:
  "decodeFeature buffer off = Inr (f, n) \<Longrightarrow> 3 \<le> n \<and> off + n \<le> length buffer"
  by (auto simp: decodeFeature_def FEATURE_HEADER_LEN_def Let_def rbind_eq_Inr_iff split: if_splits)

section \<open>Messages\<close>

record relay_request =
  rq_version :: byte
  rq_cmd :: byte
  rq_features :: "feature list"

definition new_request :: "byte \<Rightarrow> relay_request" where
  "new_request cmd = \<lparr>rq_version = Version1, rq_cmd = cmd, rq_features = []\<rparr>"

definition addFeature :: "feature \<Rightarrow> relay_request \<Rightarrow> relay_request" where
  "addFeature f rq = rq\<lparr>rq_features := rq_features rq @ [f]\<rparr>"

definition encodeRequest :: "relay_request \<Rightarrow> relay_error + bytes" where
  "encodeRequest rq =
     rbind (map_result encodeFeature (rq_features rq)) (\<lambda>encoded.
       let flen = sum_list (map length encoded) in
       if flen > 65535 then Inl FeaturesLength
       else Inr ([rq_version rq, rq_cmd rq] @ put_u16_be flen @ concat encoded))"

record relay_response =
  rs_version :: byte
  rs_status :: byte
  rs_features :: "(nat \<times> fvalue) list"

text \<open>
  The feature loop runs while the offset is below the end of the feature block. It stops
  because each feature takes at least its header and lies inside the buffer.
\<close>

function decode_features :: "bytes \<Rightarrow> nat \<Rightarrow> nat \<Rightarrow> relay_error + (nat \<times> fvalue) list" where
  "decode_features buffer end_off off =
     (if off < end_off then
        (case decodeFeature buffer off of
           Inl e \<Rightarrow> Inl e
         | Inr (f, n) \<Rightarrow>
             rbind (decode_features buffer end_off (off + n)) (\<lambda>fs. Inr (f # fs)))
      else Inr [])"
  by pat_completeness auto
termination
  by (relation "measure (\<lambda>(buffer, end_off, off). end_off - off)")
    (auto dest!: decodeFeature_progress)

declare decode_features.simps [simp del]

definition relayResponseFromWire :: "bytes \<Rightarrow> relay_error + relay_response" where
  "relayResponseFromWire buffer =
     (if length buffer < 4 then Inl ShortBuffer
      else if buffer ! 0 \<noteq> Version1 then Inl (BadVersion (buffer ! 0))
      else rbind (decode_features buffer (4 + get_u16_be buffer 2) 4) (\<lambda>fs.
        Inr \<lparr>rs_version = buffer ! 0, rs_status = buffer ! 1, rs_features = fs\<rparr>))"

definition findFeature :: "(nat \<times> fvalue) list \<Rightarrow> nat \<Rightarrow> fvalue option" where
  "findFeature features type = map_option snd (find (\<lambda>f. fst f = type) features)"

end
