(* ===== verification/TextTransit.thy ===== *)
theory TextTransit
  imports Utf8
begin

text \<open>
  What a text is after it went through \<open>TextEncoder\<close> and \<open>TextDecoder\<close>, for every text: each half
  of a surrogate pair that stands alone is U+FFFD, and a leading byte-order mark is gone.
\<close>

fun replace_lone :: "jstr \<Rightarrow> jstr" where
  "replace_lone [] = []"
| "replace_lone [u] = [if surrogate u then 0xFFFD else u]"
| "replace_lone (u # v # us) =
     (if high_surrogate u \<and> low_surrogate v then u # v # replace_lone us
      else (if surrogate u then 0xFFFD else u) # replace_lone (v # us))"

definition received :: "jstr \<Rightarrow> jstr" where
  "received s = (let w = replace_lone s in if w \<noteq> [] \<and> hd w = 0xFEFF then tl w else w)"

lemma not_surrogate [simp]: "\<not> surrogate 0xFFFD" "\<not> high_surrogate 0xFFFD" "\<not> low_surrogate 0xFFFD"
  "\<not> surrogate 0xFEFF" "\<not> high_surrogate 0xFEFF"
  by (simp_all add: surrogate_def high_surrogate_def low_surrogate_def)

lemma to_utf16_small: "to_utf16 (unat u) = [u]"
  by (simp add: to_utf16_def)

lemma code_points_Cons:
  "\<not> (high_surrogate u \<and> us \<noteq> [] \<and> low_surrogate (hd us)) \<Longrightarrow>
   code_points (u # us) = (if surrogate u then 65533 else unat u) # code_points us"
  by (cases us) auto

lemma replace_lone_points: "concat (map to_utf16 (code_points s)) = replace_lone s"
proof (induction s rule: replace_lone.induct)
  case (2 u)
  then show ?case by (simp add: to_utf16_def)
next
  case (3 u v us)
  show ?case
  proof (cases "high_surrogate u \<and> low_surrogate v")
    case True
    then show ?thesis using 3 to_utf16_pair [of u v] by (simp only: code_points.simps if_True simp_thms list.map concat.simps append.simps) simp
  next
    case False
    have "to_utf16 65533 = [0xFFFD]" by (simp add: to_utf16_def)
    have "concat (map to_utf16 (code_points (v # us))) = replace_lone (v # us)" using 3 False by simp
    moreover have "code_points (u # v # us) = (if surrogate u then 65533 else unat u) # code_points (v # us)"
      by (rule code_points_Cons) (use False in simp)
    moreover have "replace_lone (u # v # us) = (if surrogate u then 0xFFFD else u) # replace_lone (v # us)"
      by (simp only: replace_lone.simps if_not_P [OF False])
    ultimately show ?thesis using \<open>to_utf16 65533 = [0xFFFD]\<close> by (simp add: to_utf16_small del: code_points.simps replace_lone.simps)
  qed
qed simp

lemma low_not_high: "low_surrogate u \<Longrightarrow> \<not> high_surrogate u"
  by (auto simp: low_surrogate_def high_surrogate_def)

lemma replace_lone_hd: "s \<noteq> [] \<Longrightarrow> low_surrogate (hd (replace_lone s)) \<Longrightarrow> False"
  by (induction s rule: replace_lone.induct) (auto simp: surrogate_def dest: low_not_high split: if_splits)

lemma replace_lone_Nil [simp]: "replace_lone s = [] \<longleftrightarrow> s = []"
  by (induction s rule: replace_lone.induct) auto

lemma replace_lone_same: "code_points (replace_lone s) = code_points s" "well_formed (replace_lone s)"
proof (induction s rule: replace_lone.induct)
  case (3 u v us)
  {
    case 1
    show ?case
    proof (cases "high_surrogate u \<and> low_surrogate v")
      case False
      have "\<not> low_surrogate (hd (replace_lone (v # us)))" using replace_lone_hd [of "v # us"] by blast
      then have "code_points (c # replace_lone (v # us)) = (if surrogate c then 65533 else unat c) # code_points (replace_lone (v # us))" for c
        by (intro code_points_Cons) simp
      moreover have "code_points (u # v # us) = (if surrogate u then 65533 else unat u) # code_points (v # us)"
        by (rule code_points_Cons) (use False in simp)
      moreover have "replace_lone (u # v # us) = (if surrogate u then 0xFFFD else u) # replace_lone (v # us)"
      by (simp only: replace_lone.simps if_not_P [OF False])
      moreover have "code_points (replace_lone (v # us)) = code_points (v # us)" using 3 False by simp
      ultimately show ?thesis by (simp del: code_points.simps replace_lone.simps)
    qed (use 3 in simp)
  next
    case 2
    show ?case
    proof (cases "high_surrogate u \<and> low_surrogate v")
      case False
      have "\<not> surrogate c \<Longrightarrow> well_formed (c # replace_lone (v # us))" for c
        using 3 False by (cases "replace_lone (v # us)") (auto simp: surrogate_def)
      moreover have "replace_lone (u # v # us) = (if surrogate u then 0xFFFD else u) # replace_lone (v # us)"
        by (simp only: replace_lone.simps if_not_P [OF False])
      ultimately show ?thesis by (simp del: replace_lone.simps well_formed.simps)
    qed (use 3 in simp)
  }
qed simp_all

lemma received_encode: "text_decode (text_encode s) = received s"
proof -
  let ?w = "replace_lone s"
  have e: "text_encode s = text_encode ?w" by (simp add: text_encode_def replace_lone_same)
  show ?thesis
  proof (cases "?w \<noteq> [] \<and> hd ?w = 0xFEFF")
    case False
    then have "encodable ?w" by (auto simp: encodable_def replace_lone_same)
    then have "text_decode (text_encode ?w) = ?w" by (rule text_decode_encode)
    moreover have "received s = ?w" unfolding received_def Let_def using False by (rule if_not_P)
    ultimately show ?thesis by (simp add: e)
  next
    case True
    then obtain t where t: "?w = 0xFEFF # t" by (cases ?w) auto
    have "text_encode ?w = [0xEF, 0xBB, 0xBF] @ text_encode t"
      unfolding t text_encode_def by (subst code_points_Cons) (simp_all add: utf8_of_def)
    moreover have "well_formed t" using replace_lone_same(2) [of s] unfolding t by (cases t) auto
    ultimately have "text_decode (text_encode ?w) = t"
      by (simp add: text_decode_def strip_bom_def utf8_run_text_encode to_utf16_code_points)
    then show ?thesis using t by (simp add: e received_def)
  qed
qed

lemma received_id: "encodable s \<Longrightarrow> received s = s"
  using text_decode_encode [of s] by (simp add: received_encode)

lemma received_ascii: "ascii s \<Longrightarrow> received s = s"
  by (simp add: received_id ascii_encodable)

end
