(* ===== verification/RelayCorrect.thy ===== *)
theory RelayCorrect
  imports Relay TextTransit
begin

text \<open>
  What the relay codec guarantees: each feature codec reads back what it wrote
  (\<open>feature_codec\<close> and its interpretations), IP literals survive printing and parsing, a
  request decodes to its features, and a cut message is refused.
\<close>

section \<open>Single codecs\<close>

lemma slice_at: "i = length xs \<Longrightarrow> j = i + length ys \<Longrightarrow> slice (xs @ ys @ zs) i j = ys"
  by (simp add: slice_def)

lemma decode_encodeUserAuth:
  assumes enc: "encodeUserAuth u p = Inr raw"
  shows "decodeUserAuth raw = Inr (VUserAuth (received u) (received p))"
proof -
  let ?u = "text_encode u" and ?p = "text_encode p"
  have raw: "raw = [of_nat (length ?u)] @ ?u @ [of_nat (length ?p)] @ ?p"
    and le: "length ?u < 256" "length ?p < 256"
    using enc by (auto simp: encodeUserAuth_def Let_def split: if_splits)
  have "slice raw 1 (1 + length ?u) = ?u"
    unfolding raw by (rule slice_at) simp_all
  moreover have "slice raw (2 + length ?u) (2 + length ?u + length ?p) = ?p"
    unfolding raw slice_def by simp
  moreover have "raw ! 0 = of_nat (length ?u)" "raw ! (1 + length ?u) = of_nat (length ?p)"
    unfolding raw by (simp_all add: nth_append)
  moreover have "length raw = length ?u + length ?p + 2"
    unfolding raw by simp
  ultimately show ?thesis
    using le by (simp add: decodeUserAuth_def Let_def received_encode add.commute)
qed

lemma decode_encodeTunnel: "encodeTunnel i = Inr raw \<Longrightarrow> decodeTunnel raw = Inr (VTunnel i)"
  by (auto simp: encodeTunnel_def decodeTunnel_def split: if_splits)

lemma decode_encodeNetwork:
  "encodeNetwork n = Inr raw \<Longrightarrow> decodeNetwork raw = Inr (VNetwork (n mod 65536))"
  using get_put_u16_be [of "[]" n "[]"] by (auto simp: encodeNetwork_def decodeNetwork_def)

subsection \<open>Addresses\<close>

lemma parseIPv4_length: "parseIPv4 h = Some ip \<Longrightarrow> length ip = 4"
  by (auto simp: parseIPv4_def Let_def split: if_splits)

lemma hex_groups_length: "hex_groups ps = Some bs \<Longrightarrow> length bs = 2 * length ps"
  by (induction ps arbitrary: bs) (auto split: option.splits if_splits)

lemma parseIPv6_length: "parseIPv6 h = Some ip \<Longrightarrow> length ip = 16"
  by (auto simp: parseIPv6_def Let_def dest!: hex_groups_length split: option.splits if_splits)

text \<open>What the decoder reports for the address that the encoder was given.\<close>

definition addr_view :: "jstr \<Rightarrow> int \<Rightarrow> fvalue" where
  "addr_view host port =
     (let p = nat (port mod 65536) in
      case parseIPv4 host of
        Some ip4 \<Rightarrow> VAddr (dotted ip4) p AddrIPv4
      | None \<Rightarrow>
          (case parseIPv6 host of
             Some ip6 \<Rightarrow> VAddr (coloned ip6) p AddrIPv6
           | None \<Rightarrow> VAddr (received host) p AddrDomain))"

lemma get_last_u16: "i = length xs \<Longrightarrow> n < 65536 \<Longrightarrow> get_u16_be (xs @ put_u16_be n) i = n"
  using get_put_u16_be [of xs n "[]"] by simp

lemma nat_mod_65536_less [simp]: "nat (p mod 65536) < 65536"
proof -
  have "p mod 65536 < 65536" by simp
  then show ?thesis by linarith
qed

lemma decode_encodeAddr:
  assumes enc: "encodeAddr h p = Inr raw"
  shows "decodeAddr raw = Inr (addr_view h p)"
proof (cases "parseIPv4 h")
  case (Some ip)
  then have len: "length ip = 4" by (rule parseIPv4_length)
  have raw: "raw = ([AddrIPv4] @ ip) @ put_u16_be (nat (p mod 65536))"
    using enc Some by (simp add: encodeAddr_def Let_def)
  have "get_u16_be raw 5 = nat (p mod 65536)"
    unfolding raw by (rule get_last_u16) (simp_all add: len)
  moreover have "slice raw 1 5 = ip" unfolding raw by (simp add: slice_def len)
  ultimately show ?thesis
    using Some len by (simp add: raw decodeAddr_def addr_view_def addr_types Let_def)
next
  case None
  note v4 = this
  show ?thesis
  proof (cases "parseIPv6 h")
    case (Some ip)
    then have len: "length ip = 16" by (rule parseIPv6_length)
    have raw: "raw = ([AddrIPv6] @ ip) @ put_u16_be (nat (p mod 65536))"
      using enc Some v4 by (simp add: encodeAddr_def Let_def)
    have "get_u16_be raw 17 = nat (p mod 65536)"
      unfolding raw by (rule get_last_u16) (simp_all add: len)
    moreover have "slice raw 1 17 = ip" unfolding raw by (simp add: slice_def len)
    ultimately show ?thesis
      using Some v4 len by (simp add: raw decodeAddr_def addr_view_def addr_types Let_def)
  next
    case None
    let ?n = "text_encode h"
    have raw: "raw = ([AddrDomain, of_nat (length ?n)] @ ?n) @ put_u16_be (nat (p mod 65536))"
      and len: "length ?n < 256"
      using enc v4 None by (auto simp: encodeAddr_def Let_def split: if_splits)
    have "get_u16_be raw (2 + length ?n) = nat (p mod 65536)"
      unfolding raw by (rule get_last_u16) simp_all
    moreover have "slice raw 2 (2 + length ?n) = ?n" unfolding raw by (simp add: slice_def)
    moreover have "raw ! 1 = of_nat (length ?n)" "raw ! 0 = AddrDomain"
      unfolding raw by simp_all
    moreover have "length raw = 4 + length ?n" unfolding raw by simp
    ultimately show ?thesis
      using v4 None len
      by (simp add: decodeAddr_def addr_view_def addr_types Let_def received_encode)
  qed
qed

subsection \<open>Metadata\<close>

text \<open>
  The object that arrives: of the received pairs those under \<open>__proto__\<close> are lost, and of several under
  one key, which lone surrogates or a mark may bring about, the last value counts.
\<close>

definition received_metadata :: "metadata \<Rightarrow> metadata" where
  "received_metadata kvs =
     (let ps = filter (\<lambda>p. fst p \<noteq> js ''__proto__'') (map (\<lambda>(k, v). (received k, received v)) kvs)
      in map (\<lambda>k. (k, the (map_of (rev ps) k))) (rev (remdups (rev (map fst ps)))))"

lemma fold_jset:
  "fold (\<lambda>(k, v). jset k v) ps [] = map (\<lambda>k. (k, the (map_of (rev ps) k))) (rev (remdups (rev (map fst ps))))"
proof (induction ps rule: rev_induct)
  case (snoc p ps)
  obtain k v where p: "p = (k, v)" by (cases p)
  let ?ks = "rev (remdups (rev (map fst ps)))"
  have upd: "jset k v (map (\<lambda>j. (j, f j)) ks) = map (\<lambda>j. (j, if j = k then v else f j)) ks @ (if k \<in> set ks then [] else [(k, v)])"
    if "distinct ks" for ks :: "'a list" and f
    using that
  proof (induction ks)
    case (Cons j ks)
    have "map (\<lambda>i. (i, if i = k then v else f i)) ks = map (\<lambda>i. (i, f i)) ks" if "k \<notin> set ks"
      using that by (auto intro!: map_cong)
    then show ?case using Cons by auto
  qed simp
  have "fold (\<lambda>(k, v). jset k v) (ps @ [p]) [] = jset k v (map (\<lambda>k. (k, the (map_of (rev ps) k))) ?ks)"
    using snoc by (simp add: p)
  also have "\<dots> = map (\<lambda>j. (j, if j = k then v else the (map_of (rev ps) j))) ?ks @ (if k \<in> set ?ks then [] else [(k, v)])"
    by (rule upd) simp
  also have "\<dots> = map (\<lambda>j. (j, the (map_of (rev (ps @ [p])) j))) (rev (remdups (rev (map fst (ps @ [p])))))"
    by (auto simp: p)
  finally show ?case .
qed simp

lemma fold_object_set:
  "fold (\<lambda>(k, v). object_set k v) ps acc = fold (\<lambda>(k, v). jset k v) (filter (\<lambda>p. fst p \<noteq> js ''__proto__'') ps) acc"
  by (induction ps arbitrary: acc) (auto simp: object_set_def)

lemma received_metadata_fold:
  "fold (\<lambda>(k, v). object_set (received k) (received v)) kvs [] = received_metadata kvs"
proof -
  have "fold (\<lambda>(k, v). object_set (received k) (received v)) kvs acc
      = fold (\<lambda>(k, v). object_set k v) (map (\<lambda>(k, v). (received k, received v)) kvs) acc" for acc
    by (induction kvs arbitrary: acc) auto
  then show ?thesis by (simp add: fold_object_set fold_jset received_metadata_def Let_def)
qed

lemma get_u16_mid: "i = length xs \<Longrightarrow> n < 65536 \<Longrightarrow> get_u16_be (xs @ put_u16_be n @ ys) i = n"
  using get_put_u16_be [of xs n ys] by simp

lemma decode_entries_step:
  assumes "get_u16_be d off = length K" "slice d (off + 2) (off + 2 + length K) = K"
    and "get_u16_be d (off + 2 + length K) = length V"
    and "slice d (off + 2 + length K + 2) (off + 2 + length K + 2 + length V) = V"
    and "off + 2 + length K + 2 + length V \<le> length d"
  shows "decode_entries (Suc n) d off acc =
    decode_entries n d (off + 2 + length K + 2 + length V)
      (object_set (text_decode K) (text_decode V) acc)"
  using assms by (simp add: Let_def)

lemma decode_entries_encode:
  assumes "length (concat (map encode_entry kvs)) < 65536"
  shows "decode_entries (length kvs) (pre @ concat (map encode_entry kvs)) (length pre) acc
       = Inr (fold (\<lambda>(k, v). object_set (received k) (received v)) kvs acc)"
  using assms
proof (induction kvs arbitrary: pre acc)
  case (Cons kv kvs)
  obtain k v where kv: "kv = (k, v)" by (cases kv)
  let ?k = "text_encode k" and ?v = "text_encode v"
  define rest where "rest = concat (map encode_entry kvs)"
  define d where "d = pre @ encode_entry kv @ rest"
  have len: "length ?k < 65536" "length ?v < 65536" "length rest < 65536"
    using Cons.prems unfolding rest_def by (simp_all add: kv encode_entry_def [of "(k, v)"] Let_def)
  have d': "d = pre @ put_u16_be (length ?k) @ ?k @ put_u16_be (length ?v) @ ?v @ rest"
    by (simp add: d_def kv encode_entry_def Let_def)
  have klen: "get_u16_be d (length pre) = length ?k"
    unfolding d' by (rule get_u16_mid) (simp_all add: len)
  have key: "slice d (length pre + 2) (length pre + 2 + length ?k) = ?k"
    unfolding d' by (simp add: slice_def)
  have vlen: "get_u16_be d (length pre + 2 + length ?k) = length ?v"
    using get_u16_mid [of _ "pre @ put_u16_be (length ?k) @ ?k" "length ?v" "?v @ rest"]
    unfolding d' by (simp add: len)
  have val: "slice d (length pre + 2 + length ?k + 2) (length pre + 2 + length ?k + 2 + length ?v) = ?v"
    unfolding d' by (simp add: slice_def)
  have bound: "length pre + 2 + length ?k + 2 + length ?v \<le> length d"
    unfolding d' by simp
  have entry: "length (pre @ encode_entry kv) = length pre + 2 + length ?k + 2 + length ?v"
    by (simp add: kv encode_entry_def Let_def)
  let ?acc = "object_set (received k) (received v) acc"
  have "decode_entries (length (kv # kvs)) d (length pre) acc
      = decode_entries (length kvs) d (length (pre @ encode_entry kv)) ?acc"
    using decode_entries_step [OF klen key vlen val bound, of "length kvs" acc]
    by (simp only: entry length_Cons received_encode)
  also have "\<dots> = Inr (fold (\<lambda>(k, v). object_set (received k) (received v)) kvs ?acc)"
    using Cons.IH [of "pre @ encode_entry kv" ?acc] len by (simp add: d_def rest_def del: length_append)
  finally show ?case by (simp add: d_def rest_def kv)
qed simp

lemma decode_encodeMetadata:
  assumes enc: "encodeMetadata kvs = Inr raw" and len: "length raw < 65536"
  shows "decodeMetadata raw = Inr (VMetadata (received_metadata kvs))"
proof -
  let ?es = "concat (map encode_entry kvs)"
  have raw: "raw = put_u16_be (length kvs) @ ?es"
    using enc by (auto simp: encodeMetadata_def put_u16_be_def split: if_splits)
  then have es: "length ?es < 65536" using len by simp
  have "4 * length kvs \<le> length ?es" by (induction kvs) (auto simp: encode_entry_def Let_def)
  then have "length kvs < 65536" using es by linarith
  then have "get_u16_be raw 0 = length kvs"
    using get_u16_mid [of 0 "[]" "length kvs" ?es] by (simp add: raw)
  moreover have "decode_entries (length kvs) raw 2 [] = Inr (received_metadata kvs)"
    using decode_entries_encode [OF es, of "put_u16_be (length kvs)" "[]"] by (simp add: raw received_metadata_fold)
  ultimately show ?thesis by (simp add: decodeMetadata_def raw)
qed

subsection \<open>IP literals\<close>

lemma or_byte: "b < 256 \<Longrightarrow> push_bit 8 a OR b = a * 256 + (b::nat)"
proof -
  assume "b < 256"
  then have "take_bit 8 b = b" by (simp add: take_bit_nat_eq_self)
  then have "push_bit 8 a AND b = 0"
    by (metis bit_eqI bit_and_iff bit_push_bit_iff bit_take_bit_iff bit_0_eq bot_apply bot_bool_def not_le)
  then have "push_bit 8 a OR b = push_bit 8 a + b" by (simp add: disjunctive_add_eq_or)
  then show ?thesis by (simp add: push_bit_eq_mult)
qed

lemma parse_int_to_radix': "r = 10 \<or> r = 16 \<Longrightarrow> parse_int (to_radix r n) r = Some (int n)"
  using parse_int_to_radix [of r "[]" n] by simp

lemma sep_notin_radix: "c \<in> {cu CHR ''.'', cu CHR '':''} \<Longrightarrow> 2 \<le> r \<Longrightarrow> r \<le> 36 \<Longrightarrow> c \<notin> set (to_radix r n)"
proof
  assume c: "c \<in> {cu CHR ''.'', cu CHR '':''}" and r: "2 \<le> r" "r \<le> 36" and "c \<in> set (to_radix r n)"
  then obtain d where "d < r" "c = digit_unit d" using to_radix_digits by blast
  then show False using c r by (auto simp: cu_def word_unat_eq_iff unat_digit_unit split: if_splits)
qed

lemma parseIPv4_dotted: "length ip = 4 \<Longrightarrow> parseIPv4 (dotted ip) = Some ip"
proof -
  assume len: "length ip = 4"
  then have "map (\<lambda>b. dec_str (unat b)) ip \<noteq> []" by auto
  then have parts: "split_on [cu CHR ''.''] (dotted ip) = map (\<lambda>b. dec_str (unat b)) ip"
    unfolding dotted_def by (rule split_on_join) (auto simp: sep_notin_radix)
  have "uint b \<le> 255" for b :: byte
  proof -
    have "uint b < 2 ^ LENGTH(8)" by (rule unsigned_less)
    then show ?thesis by simp
  qed
  then show ?thesis
    using len by (simp add: parseIPv4_def parts Let_def list_all_iff parse_int_to_radix' comp_def)
qed

lemma join_filter:
  "(\<And>g. g \<in> set gs \<Longrightarrow> c \<notin> set g) \<Longrightarrow> gs \<noteq> [] \<Longrightarrow>
   length (filter (\<lambda>x. x = c) (join [c] gs)) = length gs - 1"
proof (induction "[c]" gs rule: join.induct)
  case (2 x)
  then have "filter (\<lambda>y. y = c) x = []" by (auto simp: filter_empty_conv)
  then show ?case by simp
next
  case (3 x y ys)
  then have "filter (\<lambda>y. y = c) x = []" by (auto simp: filter_empty_conv)
  with 3 show ?case by simp
qed simp

lemma no_double_sep:
  "(\<And>g. g \<in> set gs \<Longrightarrow> c \<notin> set g \<and> g \<noteq> []) \<Longrightarrow> index_of [c, c] (join [c] gs) = None"
proof (induction "[c]" gs rule: join.induct)
  case (2 x)
  then have "c \<notin> set x" by simp
  then have "index_of [c, c] x = None" by (induction x) auto
  then show ?case by simp
next
  case (3 x y ys)
  have rest: "index_of [c, c] (join [c] (y # ys)) = None" using 3 by simp
  have "hd (join [c] (y # ys)) \<noteq> c" "join [c] (y # ys) \<noteq> []"
    using 3(2) [of y] by (cases ys; cases y; auto)+
  then obtain z zs where z: "join [c] (y # ys) = z # zs" "z \<noteq> c"
    by (cases "join [c] (y # ys)") auto
  have "index_of [c, c] (x @ c # z # zs) = None" if "c \<notin> set x"
    using that rest z by (induction x) auto
  then show ?case using 3(2) [of x] z by simp
qed simp

lemma groups_of_join:
  "(\<And>g. g \<in> set gs \<Longrightarrow> cu CHR '':'' \<notin> set g \<and> g \<noteq> []) \<Longrightarrow> gs \<noteq> [] \<Longrightarrow>
   groups_of (join [cu CHR '':''] gs) = gs"
proof -
  assume g: "\<And>g. g \<in> set gs \<Longrightarrow> cu CHR '':'' \<notin> set g \<and> g \<noteq> []" and ne: "gs \<noteq> []"
  have "split_on [cu CHR '':''] (join [cu CHR '':''] gs) = gs"
    using ne by (rule split_on_join) (use g in blast)
  moreover have "filter (\<lambda>p. p \<noteq> []) gs = gs"
    using g by (simp add: filter_id_conv)
  moreover have "join [cu CHR '':''] gs \<noteq> []"
    using ne g by (cases gs; cases "tl gs") auto
  ultimately show ?thesis by (simp add: groups_of_def)
qed

lemma hex_pairs_groups:
  "even (length bs) \<Longrightarrow> hex_groups (hex_pairs bs) = Some bs"
proof (induction bs rule: hex_pairs.induct)
  case (1 a b bs)
  have "push_bit 8 (unat a) OR unat b = unat a * 256 + unat b"
    by (simp add: or_byte)
  moreover have "unat a * 256 + unat b < 65536"
    using unat_byte_less [of a] unat_byte_less [of b] by linarith
  moreover have "put_u16_be (unat a * 256 + unat b) = [a, b]"
    by (simp add: put_u16_be_def word_unat_eq_iff unat_of_nat_byte del: of_nat_add of_nat_mult)
  ultimately show ?case
    using 1 by (simp add: parse_int_to_radix' del: of_nat_add of_nat_mult)
qed auto

lemma hex_pairs_shape:
  "g \<in> set (hex_pairs bs) \<Longrightarrow> \<exists>n. g = hex_str n"
  by (induction bs rule: hex_pairs.induct) auto

lemma length_hex_pairs: "length (hex_pairs bs) = length bs div 2"
  by (induction bs rule: hex_pairs.induct) auto

lemma parseIPv6_coloned:
  assumes len: "length ip = 16"
  shows "parseIPv6 (coloned ip) = Some ip" "parseIPv4 (coloned ip) = None"
proof -
  let ?gs = "hex_pairs ip"
  have n: "length ?gs = 8" using len by (simp add: length_hex_pairs)
  then have ne: "?gs \<noteq> []" by auto
  have g: "cu CHR '':'' \<notin> set g \<and> g \<noteq> []" "cu CHR ''.'' \<notin> set g" if "g \<in> set ?gs" for g
    using hex_pairs_shape [OF that] by (auto simp: sep_notin_radix)
  have "length (filter (\<lambda>c. c = cu CHR '':'') (coloned ip)) = 7"
    using join_filter [of ?gs "cu CHR '':''"] g ne n by (simp add: coloned_def)
  moreover have "index_of (js ''::'') (coloned ip) = None"
    using no_double_sep [of ?gs "cu CHR '':''"] g by (simp add: coloned_def)
  moreover have "groups_of (coloned ip) = ?gs"
    unfolding coloned_def using g ne by (intro groups_of_join) auto
  moreover have "groups_of [] = []" by (simp add: groups_of_def)
  ultimately show "parseIPv6 (coloned ip) = Some ip"
    using hex_pairs_groups [of ip] len n by (simp add: parseIPv6_def Let_def)
  have "cu CHR ''.'' \<notin> set (join [cu CHR '':''] gs)" if "\<And>g. g \<in> set gs \<Longrightarrow> cu CHR ''.'' \<notin> set g" for gs
    using that by (induction "[cu CHR '':'']" gs rule: join.induct) (auto simp: cu_def)
  then have "cu CHR ''.'' \<notin> set (coloned ip)"
    unfolding coloned_def using g by blast
  then show "parseIPv4 (coloned ip) = None"
    by (simp add: parseIPv4_def split_on_single_notin Let_def)
qed

section \<open>The feature layer\<close>

text \<open>
  What a handler pair promises: the decoder registered for the type reads the encoder's
  output as \<open>view\<close> of the payload. Given that, the type-length-value layer hands the view
  on, wherever the feature stands in the buffer.
\<close>

locale feature_codec =
  fixes type_id :: nat
    and enc :: "'a \<Rightarrow> relay_error + bytes"
    and view :: "'a \<Rightarrow> fvalue"
    and ok :: "'a \<Rightarrow> bool"
  assumes type_byte: "type_id < 256"
    and dec_enc: "ok x \<Longrightarrow> enc x = Inr raw \<Longrightarrow> length raw < 65536 \<Longrightarrow> decode_value type_id raw = Inr (view x)"
begin

lemma decodeFeature_enc:
  assumes "ok x" "enc x = Inr raw" "length raw < 65536"
  shows "decodeFeature (pre @ encodeTLV type_id raw @ post) (length pre)
       = Inr ((type_id, view x), 3 + length raw)"
proof -
  define d where "d = pre @ encodeTLV type_id raw @ post"
  have d': "d = (pre @ [of_nat type_id]) @ put_u16_be (length raw) @ (raw @ post)"
    by (simp add: d_def encodeTLV_def)
  have "get_u16_be d (Suc (length pre)) = length raw"
    unfolding d' using assms(3) by (intro get_u16_mid) simp_all
  moreover have "unat (d ! length pre) = type_id"
    unfolding d' using type_byte by (simp add: nth_append)
  moreover have "slice d (length pre + 3) (length pre + 3 + length raw) = raw"
    unfolding d' by (simp add: slice_def)
  moreover have "length pre + 3 + length raw \<le> length d"
    unfolding d' by simp
  ultimately have "decodeFeature d (length pre) = Inr ((type_id, view x), 3 + length raw)"
    using dec_enc [OF assms] by (simp add: decodeFeature_def FEATURE_HEADER_LEN_def Let_def)
  then show ?thesis by (simp add: d_def)
qed

end

interpretation user_auth: feature_codec FeatureUserAuth "\<lambda>(u, p). encodeUserAuth u p"
  "\<lambda>(u, p). VUserAuth (received u) (received p)" "\<lambda>_. True"
  by unfold_locales (auto simp: feature_types decode_value_def decode_encodeUserAuth)

interpretation addr: feature_codec FeatureAddr "\<lambda>(h, p). encodeAddr h p"
  "\<lambda>(h, p). addr_view h p" "\<lambda>_. True"
  by unfold_locales (auto simp: feature_types decode_value_def decode_encodeAddr)

interpretation tunnel: feature_codec FeatureTunnel encodeTunnel VTunnel "\<lambda>_. True"
  by unfold_locales (auto simp: feature_types decode_value_def decode_encodeTunnel)

interpretation network: feature_codec FeatureNetwork encodeNetwork
  "\<lambda>n. VNetwork (n mod 65536)" "\<lambda>_. True"
  by unfold_locales (auto simp: feature_types decode_value_def decode_encodeNetwork)

interpretation metadata: feature_codec FeatureMetadata encodeMetadata "\<lambda>kvs. VMetadata (received_metadata kvs)" "\<lambda>_. True"
  by unfold_locales (auto simp: feature_types decode_value_def decode_encodeMetadata)

text \<open>
  A raw feature is one of a type without a handler, also when its type does not fit a byte; and
  what the decoder reports for each feature.
\<close>

fun raw_type_ok :: "feature \<Rightarrow> bool" where
  "raw_type_ok (FOpaque t raw) \<longleftrightarrow> t mod 256 \<notin> {1, 2, 3, 4, 5}"
| "raw_type_ok _ \<longleftrightarrow> True"

fun feature_view :: "feature \<Rightarrow> nat \<times> fvalue" where
  "feature_view (FUserAuth u p) = (FeatureUserAuth, VUserAuth (received u) (received p))"
| "feature_view (FAddr h p) = (FeatureAddr, addr_view h p)"
| "feature_view (FTunnel i) = (FeatureTunnel, VTunnel i)"
| "feature_view (FNetwork n) = (FeatureNetwork, VNetwork (n mod 65536))"
| "feature_view (FMetadata kvs) = (FeatureMetadata, VMetadata (received_metadata kvs))"
| "feature_view (FOpaque t raw) = (t mod 256, VRaw raw)"

lemma opaque_codec: "t < 256 \<Longrightarrow> t \<notin> {1, 2, 3, 4, 5} \<Longrightarrow> feature_codec t Inr VRaw (\<lambda>_. True)"
  by unfold_locales (auto simp: decode_value_def feature_types)

lemma encodeTLV_mod: "encodeTLV t raw = encodeTLV (t mod 256) raw"
  by (simp add: encodeTLV_def word_unat_eq_iff unat_of_nat)

lemma decodeFeature_encodeFeature:
  assumes ok: "raw_type_ok f" and enc: "encodeFeature f = Inr tlv" and len: "length tlv < 65539"
  shows "decodeFeature (pre @ tlv @ post) (length pre) = Inr (feature_view f, length tlv)"
proof (cases f)
  case (FUserAuth u p)
  then obtain raw where "encodeUserAuth u p = Inr raw" "tlv = encodeTLV FeatureUserAuth raw"
    using enc by (cases "encodeUserAuth u p") auto
  then show ?thesis
    using user_auth.decodeFeature_enc [of "(u, p)" raw pre post] ok len FUserAuth
    by (simp add: encodeTLV_def)
next
  case (FAddr h p)
  then obtain raw where "encodeAddr h p = Inr raw" "tlv = encodeTLV FeatureAddr raw"
    using enc by (cases "encodeAddr h p") auto
  then show ?thesis
    using addr.decodeFeature_enc [of "(h, p)" raw pre post] ok len FAddr
    by (simp add: encodeTLV_def)
next
  case (FTunnel i)
  then obtain raw where "encodeTunnel i = Inr raw" "tlv = encodeTLV FeatureTunnel raw"
    using enc by (cases "encodeTunnel i") auto
  then show ?thesis
    using tunnel.decodeFeature_enc [of i raw pre post] len FTunnel by (simp add: encodeTLV_def)
next
  case (FNetwork n)
  then obtain raw where "encodeNetwork n = Inr raw" "tlv = encodeTLV FeatureNetwork raw"
    using enc by (cases "encodeNetwork n") auto
  then show ?thesis
    using network.decodeFeature_enc [of n raw pre post] len FNetwork by (simp add: encodeTLV_def)
next
  case (FMetadata kvs)
  then obtain raw where "encodeMetadata kvs = Inr raw" "tlv = encodeTLV FeatureMetadata raw"
    using enc by (cases "encodeMetadata kvs") auto
  then show ?thesis
    using metadata.decodeFeature_enc [of kvs raw pre post] ok len FMetadata
    by (simp add: encodeTLV_def)
next
  case (FOpaque t raw)
  then have "feature_codec (t mod 256) Inr VRaw (\<lambda>_. True)" using ok by (intro opaque_codec) simp_all
  from feature_codec.decodeFeature_enc [OF this, of raw raw pre post] show ?thesis
    using FOpaque enc len encodeTLV_mod [of t raw] by (auto simp: encodeTLV_def)
qed

section \<open>Messages\<close>

lemma encodeFeature_TLV:
  "encodeFeature f = Inr tlv \<Longrightarrow> \<exists>t raw. tlv = encodeTLV t raw"
  by (cases f) (auto split: sum.splits simp: map_sum_def elim: sum.exhaust)

lemma encodeFeature_nonempty: "encodeFeature f = Inr tlv \<Longrightarrow> 3 \<le> length tlv"
  by (auto dest!: encodeFeature_TLV simp: encodeTLV_def)

lemma decode_features_step:
  "decodeFeature d off = Inr (f, n) \<Longrightarrow> off < e \<Longrightarrow>
   decode_features d e off = rbind (decode_features d e (off + n)) (\<lambda>fs. Inr (f # fs))"
  by (subst decode_features.simps) simp

lemma decode_features_encode:
  assumes "map_result encodeFeature fs = Inr tlvs" "\<forall>f \<in> set fs. raw_type_ok f"
    and "length (concat tlvs) \<le> 65535"
  shows "decode_features (pre @ concat tlvs @ post) (length pre + length (concat tlvs)) (length pre)
       = Inr (map feature_view fs)"
  using assms
proof (induction fs arbitrary: pre tlvs)
  case Nil
  then show ?case by (simp add: decode_features.simps)
next
  case (Cons f fs)
  then obtain tlv rest where enc: "encodeFeature f = Inr tlv" "map_result encodeFeature fs = Inr rest"
    and tlvs: "tlvs = tlv # rest"
    by (auto simp: rbind_eq_Inr_iff)
  have ne: "tlv \<noteq> []" using encodeFeature_nonempty [OF enc(1)] by auto
  have "decodeFeature (pre @ tlv @ (concat rest @ post)) (length pre) = Inr (feature_view f, length tlv)"
    using Cons.prems enc tlvs by (intro decodeFeature_encodeFeature) auto
  moreover have "decode_features ((pre @ tlv) @ concat rest @ post)
      (length (pre @ tlv) + length (concat rest)) (length (pre @ tlv)) = Inr (map feature_view fs)"
    using Cons.prems enc tlvs by (intro Cons.IH) auto
  ultimately show ?case
    using ne by (subst decode_features.simps) (simp add: tlvs add.assoc)
qed

lemma decodeFeature_cut:
  assumes "j < length (encodeTLV t raw)" "length raw < 65536"
  shows "decodeFeature (pre @ take j (encodeTLV t raw)) (length pre) = Inl ShortBuffer"
proof (cases "j < 3")
  case True
  then show ?thesis by (simp add: decodeFeature_def FEATURE_HEADER_LEN_def encodeTLV_def)
next
  case False
  then obtain k where j: "j = k + 3" by (metis add.commute le_Suc_ex not_less)
  have d: "pre @ take j (encodeTLV t raw) = (pre @ [of_nat t]) @ put_u16_be (length raw) @ take k raw"
    by (simp add: encodeTLV_def j put_u16_be_def numeral_3_eq_3)
  have "get_u16_be (pre @ take j (encodeTLV t raw)) (Suc (length pre)) = length raw"
    unfolding d using assms(2) by (intro get_u16_mid) simp_all
  then show ?thesis
    using assms(1) by (simp add: decodeFeature_def FEATURE_HEADER_LEN_def Let_def encodeTLV_def j)
qed

lemma decode_features_cut:
  assumes "map_result encodeFeature fs = Inr tlvs" "\<forall>f \<in> set fs. raw_type_ok f"
    and "length (concat tlvs) \<le> 65535" "k < length (concat tlvs)"
  shows "decode_features (pre @ take k (concat tlvs)) (length pre + length (concat tlvs)) (length pre)
       = Inl ShortBuffer"
  using assms
proof (induction fs arbitrary: pre tlvs k)
  case (Cons f fs)
  then obtain tlv rest where enc: "encodeFeature f = Inr tlv" "map_result encodeFeature fs = Inr rest"
    and tlvs: "tlvs = tlv # rest"
    by (auto simp: rbind_eq_Inr_iff)
  have ne: "tlv \<noteq> []" using encodeFeature_nonempty [OF enc(1)] by auto
  show ?case
  proof (cases "k < length tlv")
    case True
    obtain t raw where tlv: "tlv = encodeTLV t raw" using encodeFeature_TLV [OF enc(1)] by blast
    have "length raw < 65536" using Cons.prems(3) by (simp add: tlvs tlv encodeTLV_def)
    then have "decodeFeature (pre @ take k tlv) (length pre) = Inl ShortBuffer"
      using True tlv decodeFeature_cut by blast
    then show ?thesis
      using True ne by (subst decode_features.simps) (simp add: tlvs)
  next
    case False
    define k' where "k' = k - length tlv"
    have k': "k = length tlv + k'" "k' < length (concat rest)"
      using False Cons.prems(4) by (auto simp: k'_def tlvs)
    have "decodeFeature (pre @ tlv @ take k' (concat rest)) (length pre)
        = Inr (feature_view f, length tlv)"
      using Cons.prems enc tlvs by (intro decodeFeature_encodeFeature) auto
    moreover have "decode_features ((pre @ tlv) @ take k' (concat rest))
        (length (pre @ tlv) + length (concat rest)) (length (pre @ tlv)) = Inl ShortBuffer"
      using Cons.prems enc tlvs k' by (intro Cons.IH) auto
    ultimately show ?thesis
      using ne by (subst decode_features.simps) (simp add: tlvs k' add.assoc)
  qed
qed simp

lemma encodeRequest_shape:
  assumes "encodeRequest rq = Inr wire"
  obtains tlvs where "map_result encodeFeature (rq_features rq) = Inr tlvs"
    "length (concat tlvs) \<le> 65535"
    "wire = [rq_version rq, rq_cmd rq] @ put_u16_be (length (concat tlvs)) @ concat tlvs"
  using assms by (auto simp: encodeRequest_def Let_def rbind_eq_Inr_iff length_concat split: if_splits)

lemma take_plus: "length xs = n \<Longrightarrow> take (n + k) (xs @ ys) = xs @ take k ys"
  by simp
lemma uint_byte_le: "uint (b :: byte) \<le> 255"
proof -
  have "uint b < 2 ^ LENGTH(8)" by (rule unsigned_less)
  then show ?thesis by simp
qed

lemma decodeFeature_extend:
  assumes "decodeFeature d off = Inr (f, n)"
  shows "decodeFeature (d @ x) off = Inr (f, n)"
proof -
  let ?len = "get_u16_be d (off + 1)"
  have le: "off + 3 + ?len \<le> length d" "\<not> length d < off + 3"
    using assms by (auto simp: decodeFeature_def FEATURE_HEADER_LEN_def Let_def split: if_splits)
  then have "get_u16_be (d @ x) (off + 1) = ?len" "(d @ x) ! off = d ! off"
    "slice (d @ x) (off + 3) (off + 3 + ?len) = slice d (off + 3) (off + 3 + ?len)"
    by (auto simp: nth_append slice_append_left)
  then show ?thesis
    using assms le by (simp add: decodeFeature_def FEATURE_HEADER_LEN_def Let_def)
qed

lemma decode_features_extend:
  "decode_features d e off = Inr fs \<Longrightarrow> decode_features (d @ x) e off = Inr fs"
proof (induction d e off arbitrary: fs rule: decode_features.induct)
  case (1 d e off)
  show ?case
  proof (cases "off < e")
    case True
    then obtain f n gs where f: "decodeFeature d off = Inr (f, n)"
      and gs: "decode_features d e (off + n) = Inr gs" "fs = f # gs"
      using "1.prems" by (subst (asm) decode_features.simps) (auto simp: rbind_eq_Inr_iff split: sum.splits)
    have "decode_features (d @ x) e (off + n) = Inr gs"
      using "1.IH" [OF True f refl] gs by blast
    then show ?thesis
      using True decodeFeature_extend [OF f] gs by (subst decode_features.simps) simp
  next
    case False
    with "1.prems" show ?thesis by (simp add: decode_features.simps)
  qed
qed

lemma u16_suffix_split: "length d = n \<Longrightarrow> Suc i < n \<Longrightarrow> Suc (Suc i) = n \<Longrightarrow> 
  d = d ! 0 # slice d 1 i @ put_u16_be (get_u16_be d i)" if "0 < i" for i
proof -
  assume n: "length d = n" "Suc (Suc i) = n"
  have "drop i d = [d ! i, d ! Suc i]"
    using n by (simp add: Cons_nth_drop_Suc [symmetric])
  moreover have "d = take 1 d @ take (i - 1) (drop 1 d) @ drop i d"
    using n that by (metis append_take_drop_id drop_drop le_add_diff_inverse2 Suc_leI One_nat_def)
  moreover have "take 1 d = [d ! 0]" using n by (cases d) auto
  ultimately show ?thesis using n by (simp add: slice_def put_get_u16_be)
qed

text \<open>
  A name that is no IP literal is sent as a domain; the 256-byte view has room for 252
  bytes of it. Names of 253 to 255 bytes pass the length check and then throw.
\<close>

theorem domain_length_limit:
  assumes "parseIPv4 host = None" "parseIPv6 host = None"
  shows "encodeAddr host port =
    (if length (text_encode host) \<le> 252
     then Inr (AddrDomain # of_nat (length (text_encode host)) # text_encode host
                @ put_u16_be (nat (port mod 65536)))
     else if length (text_encode host) \<le> 255 then Inl RangeError
     else Inl AddrLength)"
  using assms by (simp add: encodeAddr_def ADDR_VIEW_SIZE_def Let_def)

lemma domain_length_limit_witness:
  "encodeAddr (replicate 253 (cu CHR ''a'')) 80 = Inl RangeError"
proof -
  have "split_on [cu CHR ''.''] (replicate 253 (cu CHR ''a'')) = [replicate 253 (cu CHR ''a'')]"
    by (rule split_on_single_notin) (simp add: cu_def)
  then have "parseIPv4 (replicate 253 (cu CHR ''a'')) = None"
    by (simp add: parseIPv4_def Let_def)
  moreover have "parseIPv6 (replicate 253 (cu CHR ''a'')) = None"
    by (simp add: parseIPv6_def Let_def filter_replicate cu_def)
  moreover have "ascii (replicate 253 (cu CHR ''a''))"
    by (simp add: ascii_def cu_def)
  ultimately show ?thesis
    using domain_length_limit [of "replicate 253 (cu CHR ''a'')" 80]
    by (simp add: length_text_encode_ascii)
qed

text \<open>A request of the kind the extension sends, and its wire form, for the witnesses.\<close>

definition demo_request :: relay_request where
  "demo_request = addFeature (FUserAuth (js ''u'') (js ''p:w''))
     (addFeature (FAddr (dotted [10, 0, 0, 7]) 8080) (new_request CmdBind))"

definition demo_wire :: bytes where
  "demo_wire = [1, 2, 0, 19, 2, 0, 7, 1, 10, 0, 0, 7, 31, 144, 1, 0, 6, 1, 117, 3, 112, 58, 119]"

lemma demo_request_ok:
  "rq_version demo_request = Version1" "\<forall>f \<in> set (rq_features demo_request). raw_type_ok f"
  "encodeRequest demo_request = Inr demo_wire"
proof -
  show "rq_version demo_request = Version1"
    by (simp add: demo_request_def addFeature_def new_request_def)
  have "ascii (dotted [10, 0, 0, 7])"
    using ascii_to_radix [of 10] by (simp add: dotted_def cu_def)
  then show "\<forall>f \<in> set (rq_features demo_request). raw_type_ok f"
    by (simp add: demo_request_def addFeature_def new_request_def cu_def ascii_encodable)
  show "encodeRequest demo_request = Inr demo_wire"
    by (simp add: demo_request_def demo_wire_def encodeRequest_def addFeature_def new_request_def
        encodeAddr_def parseIPv4_dotted encodeUserAuth_def encodeTLV_def text_encode_ascii cu_def
        put_u16_be_def feature_types addr_types Version1_def CmdBind_def)
qed

lemma demo_texts: "received (js ''u'') = js ''u''" "received (js ''p:w'') = js ''p:w''"
  by (rule received_ascii; simp add: cu_def)+

lemma decode_demo_address: "decodeAddr [1,10,0,0,7,31,144] = Inr (VAddr (dotted [10,0,0,7]) 8080 AddrIPv4)"
  by (simp add: decodeAddr_def addr_types slice_def get_u16_be_def)

section \<open>Properties\<close>

lemma request_decodes:
  assumes "rq_version rq = Version1" "\<forall>f \<in> set (rq_features rq). raw_type_ok f"
    and "encodeRequest rq = Inr wire"
  shows "relayResponseFromWire (wire @ trailing) =
    Inr \<lparr>rs_version = Version1, rs_status = rq_cmd rq, rs_features = map feature_view (rq_features rq)\<rparr>"
proof -
  obtain tlvs where t: "map_result encodeFeature (rq_features rq) = Inr tlvs"
    "length (concat tlvs) \<le> 65535"
    and wire: "wire = [Version1, rq_cmd rq] @ put_u16_be (length (concat tlvs)) @ concat tlvs"
    using assms(1,3) encodeRequest_shape by metis
  define d where "d = wire @ trailing"
  have d': "d = [Version1, rq_cmd rq] @ put_u16_be (length (concat tlvs)) @ (concat tlvs @ trailing)"
    by (simp add: d_def wire)
  have "get_u16_be d 2 = length (concat tlvs)"
    unfolding d' using t(2) by (intro get_u16_mid) simp_all
  moreover have "decode_features d (4 + length (concat tlvs)) 4 = Inr (map feature_view (rq_features rq))"
    using decode_features_encode [OF t(1) assms(2) t(2),
        of "[Version1, rq_cmd rq] @ put_u16_be (length (concat tlvs))" trailing]
    by (simp add: d')
  moreover have "d ! 0 = Version1" "d ! 1 = rq_cmd rq" "4 \<le> length d" by (simp_all add: d')
  ultimately show ?thesis by (simp add: relayResponseFromWire_def d_def [symmetric])
qed

text \<open>
  C2. Every request of version 1 that encodes decodes, read as a response: version 1, the command
  in the status field, and the features in order, whatever bytes follow the message. Of each
  feature the decoder reports what was sent; its texts come back as \<open>received\<close> says (lone
  surrogates replaced, a leading byte-order mark dropped, any other text unchanged), an address
  in its canonical form with its port modulo 2^16, metadata without the key \<open>__proto__\<close>. The
  one condition on the features is what a raw feature is: its type is none of the five known.
\<close>

theorem relay_request_roundtrip:
  assumes "rq_version rq = Version1" "\<forall>f \<in> set (rq_features rq). raw_type_ok f"
    and "encodeRequest rq = Inr wire"
  shows "relayResponseFromWire (wire @ trailing) =
    Inr \<lparr>rs_version = Version1, rs_status = rq_cmd rq, rs_features = map feature_view (rq_features rq)\<rparr>"
  using assms by (rule request_decodes)

theorem relay_request_roundtrip_witness:
  "relayResponseFromWire (demo_wire @ [71, 69, 84]) =
    Inr \<lparr>rs_version = 1, rs_status = 2, rs_features =
      [(2, VAddr (dotted [10, 0, 0, 7]) 8080 AddrIPv4), (1, VUserAuth (js ''u'') (js ''p:w''))]\<rparr>"
  using relay_request_roundtrip [OF demo_request_ok, of "[71, 69, 84]"] demo_texts
  by (simp add: demo_request_def addFeature_def new_request_def addr_view_def parseIPv4_dotted
      feature_types Version1_def CmdBind_def)

text \<open>
  C31. A message cut anywhere is refused with a short-buffer error: no proper prefix of an
  encoded request of version 1 decodes. Raw features are again of a type that is none of the five.
\<close>

theorem relay_truncated:
  assumes "rq_version rq = Version1" "\<forall>f \<in> set (rq_features rq). raw_type_ok f"
    and "encodeRequest rq = Inr wire" "n < length wire"
  shows "relayResponseFromWire (take n wire) = Inl ShortBuffer"
proof -
  obtain tlvs where t: "map_result encodeFeature (rq_features rq) = Inr tlvs"
    "length (concat tlvs) \<le> 65535"
    and wire: "wire = [Version1, rq_cmd rq] @ put_u16_be (length (concat tlvs)) @ concat tlvs"
    using assms(1,3) encodeRequest_shape by metis
  show ?thesis
  proof (cases "n < 4")
    case True
    then show ?thesis using assms(4) by (simp add: relayResponseFromWire_def)
  next
    case False
    then obtain k where n: "n = 4 + k" by (metis le_Suc_ex not_less)
    let ?hdr = "[Version1, rq_cmd rq] @ put_u16_be (length (concat tlvs))"
    define d where "d = take n wire"
    have d': "d = ?hdr @ take k (concat tlvs)"
      using take_plus [of ?hdr 4 k "concat tlvs"] by (simp add: d_def wire n)
    have "k < length (concat tlvs)" using assms(4) by (simp add: n wire)
    then have "decode_features d (4 + length (concat tlvs)) 4 = Inl ShortBuffer"
      using decode_features_cut [OF t(1) assms(2) t(2), of k ?hdr] by (simp add: d')
    moreover have "get_u16_be d 2 = length (concat tlvs)"
      using get_u16_mid [of 2 "[Version1, rq_cmd rq]" "length (concat tlvs)" "take k (concat tlvs)"] t(2)
      by (simp add: d')
    ultimately show ?thesis
      by (simp add: relayResponseFromWire_def d_def [symmetric]) (simp add: d')
  qed
qed

theorem relay_truncated_witness: "relayResponseFromWire (take 9 demo_wire) = Inl ShortBuffer"
  using relay_truncated [OF demo_request_ok, of 9] by (simp add: demo_wire_def)

text \<open>
  Reading a response is not disturbed by the bytes that follow it: a buffer that decodes
  decodes to the same response when more of the stream has already arrived.
\<close>

theorem relay_response_stable:
  assumes "relayResponseFromWire d = Inr r"
  shows "relayResponseFromWire (d @ x) = Inr r"
proof -
  have "4 \<le> length d" using assms by (auto simp: relayResponseFromWire_def split: if_splits)
  then have "(d @ x) ! 0 = d ! 0" "(d @ x) ! 1 = d ! 1" "get_u16_be (d @ x) 2 = get_u16_be d 2"
    by (auto simp: nth_append)
  then show ?thesis
    using assms decode_features_extend
    by (auto simp: relayResponseFromWire_def rbind_eq_Inr_iff split: if_splits)
qed

theorem relay_response_stable_witness:
  "relayResponseFromWire ([1, 0, 0, 0] @ [72, 84]) = Inr \<lparr>rs_version = 1, rs_status = 0, rs_features = []\<rparr>"
  by (rule relay_response_stable)
    (simp add: relayResponseFromWire_def Version1_def get_u16_be_def decode_features.simps)

text \<open>
  An IP address that was read off the wire is written back to the same bytes: the
  textual form the extension shows and stores names the same address.
\<close>

theorem ip_address_reencodes:
  assumes "decodeAddr raw = Inr (VAddr host port t)"
    and "t = AddrIPv4 \<and> length raw = 7 \<or> t = AddrIPv6 \<and> length raw = 19"
  shows "encodeAddr host (int port) = Inr raw"
  using assms(2)
proof
  assume t: "t = AddrIPv4 \<and> length raw = 7"
  then have "raw ! 0 = AddrIPv4" "host = dotted (slice raw 1 5)" "port = get_u16_be raw 5"
    using assms(1) by (auto simp: decodeAddr_def addr_types Let_def split: if_splits)
  moreover have "raw = raw ! 0 # slice raw 1 5 @ put_u16_be (get_u16_be raw 5)"
    using u16_suffix_split [of 5 raw 7] t by simp
  ultimately show ?thesis using t by (simp add: encodeAddr_def parseIPv4_dotted)
next
  assume t: "t = AddrIPv6 \<and> length raw = 19"
  then have "raw ! 0 = AddrIPv6" "host = coloned (slice raw 1 17)" "port = get_u16_be raw 17"
    using assms(1) by (auto simp: decodeAddr_def addr_types Let_def split: if_splits)
  moreover have "raw = raw ! 0 # slice raw 1 17 @ put_u16_be (get_u16_be raw 17)"
    using u16_suffix_split [of 17 raw 19] t by simp
  ultimately show ?thesis using t by (simp add: encodeAddr_def parseIPv6_coloned)
qed

theorem ip_address_reencodes_witness:
  "encodeAddr (dotted [10,0,0,7]) 8080 = Inr [1,10,0,0,7,31,144]"
  using ip_address_reencodes [OF decode_demo_address] by simp

text \<open>
  A host name that begins with a dotted quad is sent as that IPv4 address: whatever
  follows the fourth number (no dot, not a digit) is dropped on the wire.
\<close>

theorem ipv4_suffix_ignored:
  assumes "length ip = 4" "rest \<noteq> []" "cu CHR ''.'' \<notin> set rest" "\<not> is_digit 10 (hd rest)"
    and "lower_unit (hd rest) \<noteq> cu CHR ''x''"
  shows "encodeAddr (dotted ip @ rest) port = encodeAddr (dotted ip) port"
proof -
  obtain a b c d where ip: "ip = [a, b, c, d]"
    using assms(1) by (auto simp: eval_nat_numeral length_Suc_conv)
  let ?parts = "[dec_str (unat a), dec_str (unat b), dec_str (unat c), dec_str (unat d) @ rest]"
  have "dotted ip @ rest = join [cu CHR ''.''] ?parts"
    by (simp add: dotted_def ip)
  moreover have "split_on [cu CHR ''.''] (join [cu CHR ''.''] ?parts) = ?parts"
    by (rule split_on_join) (auto simp: sep_notin_radix assms(3))
  moreover have "parse_int (dec_str (unat d) @ rest) 10 = Some (int (unat d))"
    using assms(4,5) by (intro parse_int_to_radix) auto
  ultimately have "parseIPv4 (dotted ip @ rest) = Some ip"
    by (simp add: parseIPv4_def parse_int_to_radix' ip Let_def uint_byte_le)
  then show ?thesis
    by (simp add: encodeAddr_def parseIPv4_dotted assms(1))
qed

theorem ipv4_suffix_ignored_witness:
  "encodeAddr (dotted [1, 2, 3, 4] @ js ''-web'') 80 = encodeAddr (dotted [1, 2, 3, 4]) 80"
  by (rule ipv4_suffix_ignored) (simp_all add: cu_def is_digit_def digit_val_def lower_unit_def)

end
