(* ===== verification/Framing.thy ===== *)
theory Framing
  imports JsPrelude
begin

text \<open>
  Incremental frame parsing. Two components read frames out of a growing buffer: the SMUX
  session (\<open>lib/smux.js\<close>, \<open>_processFrames\<close>) and the WebSocket decoder
  (\<open>lib/ws-codec.js\<close>, \<open>parse\<close>). Both loop over one-frame steps until the buffer holds no
  complete frame. The contract of such a step and what follows from it, above all that the
  way the transport cuts the bytes into chunks does not matter, is the locale
  \<open>frame_parser\<close>.
\<close>

text \<open>
  One iteration: wait for more bytes; consume a frame (new state, events, rest of the
  buffer); or give up on the buffer and drop all of it.
\<close>

datatype ('s, 'e) outcome =
    Wait
  | Frame 's "'e list" bytes
  | Resync 's "'e list"

text \<open>
  The loop, with fuel; \<open>drain\<close> gives it one unit per byte and one more, which is enough
  because a frame is never empty (\<open>drain_n_enough\<close>). The flag says whether the
  buffer was dropped on the way.
\<close>

fun drain_n ::
  "nat \<Rightarrow> ('s \<Rightarrow> bytes \<Rightarrow> ('s, 'e) outcome) \<Rightarrow> 's \<Rightarrow> bytes \<Rightarrow> 's \<times> 'e list \<times> bytes \<times> bool"
where
  "drain_n 0 step s b = (s, [], b, False)"
| "drain_n (Suc n) step s b =
     (case step s b of
        Wait \<Rightarrow> (s, [], b, False)
      | Resync s' ev \<Rightarrow> (s', ev, [], True)
      | Frame s' ev r \<Rightarrow>
          (let (s2, ev2, r2, dropped) = drain_n n step s' r in (s2, ev @ ev2, r2, dropped)))"

definition drain ::
  "('s \<Rightarrow> bytes \<Rightarrow> ('s, 'e) outcome) \<Rightarrow> 's \<Rightarrow> bytes \<Rightarrow> 's \<times> 'e list \<times> bytes \<times> bool" where
  "drain step s b = drain_n (Suc (length b)) step s b"

text \<open>Feeding one chunk after another, the rest of the buffer carried over.\<close>

fun feed_chunks ::
  "('s \<Rightarrow> bytes \<Rightarrow> ('s, 'e) outcome) \<Rightarrow> 's \<Rightarrow> bytes \<Rightarrow> bytes list \<Rightarrow> 's \<times> 'e list \<times> bytes"
where
  "feed_chunks step s b [] = (s, [], b)"
| "feed_chunks step s b (c # cs) =
     (let (s1, ev1, r1, _) = drain step s (b @ c);
          (s2, ev2, r2) = feed_chunks step s1 r1 cs
      in (s2, ev1 @ ev2, r2))"

locale frame_parser =
  fixes step :: "'s \<Rightarrow> bytes \<Rightarrow> ('s, 'e) outcome"
  assumes step_extend: "step s b = Frame s' ev r \<Longrightarrow> step s (b @ x) = Frame s' ev (r @ x)"
    and step_consumes: "step s b = Frame s' ev r \<Longrightarrow> length r < length b"
    and step_resync: "step s b = Resync s' ev \<Longrightarrow> step s (b @ x) = Resync s' ev"
begin

lemma drain_n_enough:
  "length b < n \<Longrightarrow> length b < m \<Longrightarrow> drain_n n step s b = drain_n m step s b"
proof (induction n arbitrary: m s b)
  case (Suc n)
  then obtain m' where m: "m = Suc m'" by (cases m) auto
  show ?case
  proof (cases "step s b")
    case (Frame s' ev r)
    then have "length r < length b" by (rule step_consumes)
    then have "drain_n n step s' r = drain_n m' step s' r"
      using Suc.prems m by (intro Suc.IH) auto
    then show ?thesis by (simp add: m Frame)
  qed (simp_all add: m)
qed simp

lemma drain_unfold:
  "drain step s b =
     (case step s b of
        Wait \<Rightarrow> (s, [], b, False)
      | Resync s' ev \<Rightarrow> (s', ev, [], True)
      | Frame s' ev r \<Rightarrow>
          (let (s2, ev2, r2, dropped) = drain step s' r in (s2, ev @ ev2, r2, dropped)))"
proof (cases "step s b")
  case (Frame s' ev r)
  then have "length r < length b" by (rule step_consumes)
  then have "drain_n (length b) step s' r = drain step s' r"
    unfolding drain_def by (intro drain_n_enough) auto
  then show ?thesis by (simp add: drain_def Frame)
qed (simp_all add: drain_def)

text \<open>The loop leaves no complete frame behind.\<close>

lemma drain_stuck: "drain step s b = (s', ev, r, False) \<Longrightarrow> step s' r = Wait"
proof (induction "length b" arbitrary: s b ev rule: less_induct)
  case less
  show ?case
  proof (cases "step s b")
    case Wait
    with less.prems show ?thesis by (simp add: drain_unfold [of s b])
  next
    case (Frame s1 ev1 r1)
    obtain ev2 where "drain step s1 r1 = (s', ev2, r, False)"
      using less.prems Frame by (auto simp: drain_unfold [of s b] split: prod.splits)
    with step_consumes [OF Frame] show ?thesis by (rule less.hyps)
  next
    case (Resync s1 ev1)
    with less.prems show ?thesis by (simp add: drain_unfold [of s b])
  qed
qed

text \<open>Bytes that arrive later continue where the loop stopped.\<close>

lemma drain_append:
  "drain step s b = (s1, ev1, r1, False) \<Longrightarrow>
   drain step s (b @ x) =
     (let (s2, ev2, r2, dropped) = drain step s1 (r1 @ x) in (s2, ev1 @ ev2, r2, dropped))"
proof (induction "length b" arbitrary: s b ev1 rule: less_induct)
  case less
  show ?case
  proof (cases "step s b")
    case Wait
    with less.prems have "s1 = s" "ev1 = []" "r1 = b"
      by (auto simp: drain_unfold [of s b])
    then show ?thesis by (simp split: prod.split)
  next
    case (Frame s' ev r)
    then obtain ev2 where ev2: "drain step s' r = (s1, ev2, r1, False)" "ev1 = ev @ ev2"
      using less.prems by (auto simp: drain_unfold [of s b] split: prod.splits)
    have "drain step s' (r @ x) =
        (let (s2, ev3, r2, dropped) = drain step s1 (r1 @ x) in (s2, ev2 @ ev3, r2, dropped))"
      using step_consumes [OF Frame] ev2(1) by (rule less.hyps)
    then show ?thesis
      using step_extend [OF Frame] ev2(2)
      by (simp add: drain_unfold [of s "b @ x"] split: prod.splits)
  next
    case (Resync s' ev)
    with less.prems show ?thesis by (simp add: drain_unfold [of s b])
  qed
qed

lemma drain_prefix_not_dropped:
  "drain step s (b @ x) = (s2, ev2, r2, False) \<Longrightarrow> \<exists>s1 ev1 r1. drain step s b = (s1, ev1, r1, False)"
proof (induction "length b" arbitrary: s b ev2 rule: less_induct)
  case less
  show ?case
  proof (cases "step s b")
    case Wait
    then show ?thesis by (simp add: drain_unfold [of s b])
  next
    case (Frame s' ev r)
    then obtain ev3 where "drain step s' (r @ x) = (s2, ev3, r2, False)"
      using less.prems step_extend [OF Frame, of x]
      by (auto simp: drain_unfold [of s "b @ x"] split: prod.splits)
    with step_consumes [OF Frame] have "\<exists>s1 ev1 r1. drain step s' r = (s1, ev1, r1, False)"
      by (rule less.hyps)
    then show ?thesis by (auto simp: drain_unfold [of s b] Frame)
  next
    case (Resync s' ev)
    then have "step s (b @ x) = Resync s' ev" by (rule step_resync)
    with less.prems show ?thesis by (simp add: drain_unfold [of s "b @ x"])
  qed
qed

text \<open>
  Chunk independence: whatever way the bytes are cut, feeding the pieces gives the state,
  the events and the rest of feeding them at once, as long as the parser never drops its
  buffer.
\<close>

lemma feed_chunks_concat:
  "cs \<noteq> [] \<Longrightarrow> drain step s (b @ concat cs) = (s', ev, r, False) \<Longrightarrow>
   feed_chunks step s b cs = (s', ev, r)"
proof (induction cs arbitrary: s b ev)
  case (Cons c cs)
  have whole: "drain step s ((b @ c) @ concat cs) = (s', ev, r, False)"
    using Cons.prems(2) by simp
  then obtain s1 ev1 r1 where first: "drain step s (b @ c) = (s1, ev1, r1, False)"
    using drain_prefix_not_dropped by blast
  then obtain ev2 where rest: "drain step s1 (r1 @ concat cs) = (s', ev2, r, False)"
    and ev: "ev = ev1 @ ev2"
    using drain_append [OF first, of "concat cs"] whole by (auto split: prod.splits)
  show ?case
  proof (cases "cs = []")
    case True
    with whole show ?thesis by simp
  next
    case False
    then have "feed_chunks step s1 r1 cs = (s', ev2, r)" using rest by (rule Cons.IH)
    then show ?thesis using first ev by simp
  qed
qed simp

text \<open>What every frame preserves, and what holds of every event of a frame, the loop keeps.\<close>

lemma drain_preserves:
  assumes frame: "\<And>s b s' ev r. P s \<Longrightarrow> step s b = Frame s' ev r \<Longrightarrow> P s' \<and> (\<forall>e \<in> set ev. Q e)"
    and resync: "\<And>s b s' ev. P s \<Longrightarrow> step s b = Resync s' ev \<Longrightarrow> P s' \<and> (\<forall>e \<in> set ev. Q e)"
    and "P s" "drain step s b = (s', ev, r, d)"
  shows "P s' \<and> (\<forall>e \<in> set ev. Q e)"
  using assms(3,4)
proof (induction "length b" arbitrary: s b ev rule: less_induct)
  case less
  show ?case
  proof (cases "step s b")
    case Wait
    with less.prems show ?thesis by (auto simp: drain_unfold [of s b])
  next
    case (Frame s1 ev1 r1)
    then obtain ev2 where rest: "drain step s1 r1 = (s', ev2, r, d)" and ev: "ev = ev1 @ ev2"
      using less.prems by (auto simp: drain_unfold [of s b] split: prod.splits)
    have one: "P s1 \<and> (\<forall>e \<in> set ev1. Q e)" using less.prems(1) Frame by (rule frame)
    have "P s' \<and> (\<forall>e \<in> set ev2. Q e)"
      by (rule less.hyps [OF step_consumes [OF Frame] _ rest]) (use one in blast)
    with one ev show ?thesis by auto
  next
    case (Resync s1 ev1)
    with less.prems resync show ?thesis by (auto simp: drain_unfold [of s b])
  qed
qed

end

end
