(* ===== verification/Smux.thy ===== *)
theory Smux
  imports Framing
begin

text \<open>
  The stream multiplexer, \<open>extension/lib/smux.js\<close> (\<open>SmuxServer\<close>, \<open>StreamState\<close>, \<open>Stream\<close>).
  A session keeps its stream objects in a store, because a \<open>Stream\<close> handle outlives the
  entry of the session's map and a repeated SYN replaces the entry of a live handle. The
  callbacks, the transport and the results of \<open>read\<close> are events. A continuation of an
  \<open>await\<close> is an operation of its own: a resolved \<open>read\<close> waits in \<open>st_readDone\<close>, and the
  promise chain \<open>_writeTail\<close> is the list \<open>st_tail\<close> of jobs, whose head runs until it
  ends or blocks on flow control. The order of the operations is free, so every schedule
  of the microtask queue is among the runs.
\<close>

section \<open>Constants and data\<close>

definition HEADER_LEN :: nat where "HEADER_LEN = 8"
definition CMD_SYN :: byte where "CMD_SYN = 0"
definition CMD_FIN :: byte where "CMD_FIN = 1"
definition CMD_PSH :: byte where "CMD_PSH = 2"
definition CMD_NOP :: byte where "CMD_NOP = 3"
definition CMD_UPD :: byte where "CMD_UPD = 4"
definition SZ_CMD_UPD :: nat where "SZ_CMD_UPD = 8"
definition INITIAL_PEER_WINDOW :: nat where "INITIAL_PEER_WINDOW = 262144"
definition MAX_STREAM_BUFFER :: nat where "MAX_STREAM_BUFFER = 1048576"
definition MAX_FRAME_SIZE :: nat where "MAX_FRAME_SIZE = 32768"
definition KEEPALIVE_TIMEOUT :: nat where "KEEPALIVE_TIMEOUT = 30000"
definition UPD_THRESHOLD :: nat where "UPD_THRESHOLD = 524288"
definition SMUX_VERSION :: byte where "SMUX_VERSION = 2"

lemmas smux_cmds = CMD_SYN_def CMD_FIN_def CMD_PSH_def CMD_NOP_def CMD_UPD_def

text \<open>A job on the write tail: a \<open>_writeSync\<close> that has sent its first bytes, or the FIN.\<close>

datatype job = JWrite bytes nat | JClose

record stream_state =
  st_id :: nat
  st_readQueue :: "bytes list"
  st_readWaiting :: bool
  st_readDone :: "bytes option list"
  st_writeWaiting :: bool
  st_closed :: bool
  st_closing :: bool
  st_remoteClosed :: bool
  st_numRead :: nat
  st_updIncr :: nat
  st_numWritten :: nat
  st_peerConsumed :: nat
  st_peerWindow :: nat
  st_tail :: "job list"

type_synonym stream_ref = nat

record smux =
  sx_streams :: "(nat, stream_ref) jsmap"
  sx_objs :: "stream_state list"
  sx_buffer :: bytes
  sx_closed :: bool
  sx_output :: bool
  sx_nopTimer :: bool
  sx_timeoutTimer :: bool
  sx_lastRecvAt :: int

datatype smux_error = BadSmuxVersion byte | UnknownCommand byte | KeepaliveTimeout

datatype smux_event =
    Output bytes
  | OnStream stream_ref
  | OnError smux_error
  | OnClose
  | ReadResult stream_ref "bytes option"
  | WriteRejected stream_ref
  | WriteEnds stream_ref bool

definition new_stream_state :: "nat \<Rightarrow> stream_state" where
  "new_stream_state sid =
     \<lparr>st_id = sid, st_readQueue = [], st_readWaiting = False, st_readDone = [],
      st_writeWaiting = False, st_closed = False, st_closing = False, st_remoteClosed = False,
      st_numRead = 0, st_updIncr = 0, st_numWritten = 0, st_peerConsumed = 0,
      st_peerWindow = INITIAL_PEER_WINDOW, st_tail = []\<rparr>"

definition new_smux :: "int \<Rightarrow> smux" where
  "new_smux now =
     \<lparr>sx_streams = [], sx_objs = [], sx_buffer = [], sx_closed = False, sx_output = False,
      sx_nopTimer = False, sx_timeoutTimer = False, sx_lastRecvAt = now\<rparr>"

definition setOutput :: "smux \<Rightarrow> smux" where
  "setOutput s = s\<lparr>sx_output := True\<rparr>"

abbreviation obj :: "smux \<Rightarrow> stream_ref \<Rightarrow> stream_state" where
  "obj s r \<equiv> sx_objs s ! r"

definition upd_obj :: "stream_ref \<Rightarrow> (stream_state \<Rightarrow> stream_state) \<Rightarrow> smux \<Rightarrow> smux" where
  "upd_obj r f s = s\<lparr>sx_objs := (sx_objs s)[r := f (obj s r)]\<rparr>"

section \<open>Frame output\<close>

definition smux_frame :: "byte \<Rightarrow> nat \<Rightarrow> bytes \<Rightarrow> bytes" where
  "smux_frame cmd sid data =
     [SMUX_VERSION, cmd] @ put_u16_le (length data) @ put_u32_le sid @ data"

definition sendFrame :: "smux \<Rightarrow> byte \<Rightarrow> nat \<Rightarrow> bytes \<Rightarrow> smux_event list" where
  "sendFrame s cmd sid data =
     (if \<not> sx_output s \<or> sx_closed s then [] else [Output (smux_frame cmd sid data)])"

definition sendUPD :: "smux \<Rightarrow> nat \<Rightarrow> nat \<Rightarrow> nat \<Rightarrow> smux_event list" where
  "sendUPD s sid consumed window =
     sendFrame s CMD_UPD sid (put_u32_le consumed @ put_u32_le window)"

definition sendPSH :: "smux \<Rightarrow> nat \<Rightarrow> bytes \<Rightarrow> smux_event list" where
  "sendPSH s sid data = sendFrame s CMD_PSH sid data"

definition sendFIN :: "smux \<Rightarrow> nat \<Rightarrow> smux_event list" where
  "sendFIN s sid = sendFrame s CMD_FIN sid []"

definition removeStream :: "nat \<Rightarrow> smux \<Rightarrow> smux" where
  "removeStream sid s = s\<lparr>sx_streams := jdelete sid (sx_streams s)\<rparr>"

section \<open>Stream state\<close>

definition resolveRead :: "bytes option \<Rightarrow> stream_state \<Rightarrow> stream_state" where
  "resolveRead v st =
     (if st_readWaiting st
      then st\<lparr>st_readWaiting := False, st_readDone := st_readDone st @ [v]\<rparr> else st)"

definition resolveWrite :: "stream_state \<Rightarrow> stream_state" where
  "resolveWrite st = st\<lparr>st_writeWaiting := False\<rparr>"

definition pushData :: "bytes \<Rightarrow> stream_state \<Rightarrow> stream_state" where
  "pushData d st =
     (if st_closed st then st
      else if st_readWaiting st then resolveRead (Some d) st
      else st\<lparr>st_readQueue := st_readQueue st @ [d]\<rparr>)"

definition closeStream :: "stream_state \<Rightarrow> stream_state" where
  "closeStream st =
     resolveWrite (resolveRead None (st\<lparr>st_closed := True, st_closing := True\<rparr>))"

definition writeWin :: "stream_state \<Rightarrow> int" where
  "writeWin st =
     int (st_peerWindow st) - (int (st_numWritten st) - int (st_peerConsumed st))"

definition stream_closed :: "stream_state \<Rightarrow> bool" where
  "stream_closed st \<longleftrightarrow> st_closed st \<or> st_closing st \<or> st_remoteClosed st"

section \<open>Incoming frames\<close>

definition handleSyn :: "nat \<Rightarrow> bytes \<Rightarrow> smux \<Rightarrow> smux \<times> smux_event list" where
  "handleSyn sid data s =
     (let st = new_stream_state sid;
          st' = (if data = [] then st else pushData data st);
          r = length (sx_objs s)
      in (s\<lparr>sx_objs := sx_objs s @ [st'], sx_streams := jset sid r (sx_streams s)\<rparr>, [OnStream r]))"

definition handlePsh :: "nat \<Rightarrow> bytes \<Rightarrow> smux \<Rightarrow> smux" where
  "handlePsh sid data s =
     (case jget (sx_streams s) sid of None \<Rightarrow> s | Some r \<Rightarrow> upd_obj r (pushData data) s)"

definition handleFin :: "nat \<Rightarrow> smux \<Rightarrow> smux" where
  "handleFin sid s =
     (case jget (sx_streams s) sid of
        None \<Rightarrow> s
      | Some r \<Rightarrow>
          upd_obj r (\<lambda>st. resolveWrite (resolveRead None (st\<lparr>st_remoteClosed := True\<rparr>))) s)"

definition updateWindow :: "nat \<Rightarrow> nat \<Rightarrow> stream_state \<Rightarrow> stream_state" where
  "updateWindow consumed window st =
     (let st' = st\<lparr>st_peerConsumed := consumed, st_peerWindow := window\<rparr>
      in if st_writeWaiting st' \<and> writeWin st' > 0 then resolveWrite st' else st')"

definition handleUpd :: "nat \<Rightarrow> bytes \<Rightarrow> smux \<Rightarrow> smux" where
  "handleUpd sid data s =
     (if length data < SZ_CMD_UPD then s
      else case jget (sx_streams s) sid of
          None \<Rightarrow> s
        | Some r \<Rightarrow> upd_obj r (updateWindow (get_u32_le data 0) (get_u32_le data 4)) s)"

definition dispatch :: "byte \<Rightarrow> byte \<Rightarrow> nat \<Rightarrow> bytes \<Rightarrow> smux \<Rightarrow> smux \<times> smux_event list" where
  "dispatch ver cmd sid data s =
     (if ver \<noteq> SMUX_VERSION then (s, [OnError (BadSmuxVersion ver)])
      else if cmd = CMD_SYN then handleSyn sid data s
      else if cmd = CMD_PSH then (handlePsh sid data s, [])
      else if cmd = CMD_FIN then (handleFin sid s, [])
      else if cmd = CMD_NOP then (s, sendFrame s CMD_NOP 0 [])
      else if cmd = CMD_UPD then (handleUpd sid data s, [])
      else (s, [OnError (UnknownCommand cmd)]))"

text \<open>One turn of the loop of \<open>_processFrames\<close>; the buffer is the second argument.\<close>

definition smux_step :: "int \<Rightarrow> smux \<Rightarrow> bytes \<Rightarrow> (smux, smux_event) outcome" where
  "smux_step now s b =
     (if length b < HEADER_LEN then Wait
      else let len = get_u16_le b 2; total = HEADER_LEN + len in
        if length b < total then Wait
        else let (s', ev) = dispatch (b ! 0) (b ! 1) (get_u32_le b 4) (slice b HEADER_LEN total)
                              (s\<lparr>sx_lastRecvAt := now\<rparr>)
          in Frame s' ev (drop total b))"

definition processFrames :: "int \<Rightarrow> smux \<Rightarrow> smux \<times> smux_event list" where
  "processFrames now s =
     (let (s', ev, rest, _) = drain (smux_step now) (s\<lparr>sx_buffer := []\<rparr>) (sx_buffer s)
      in (s'\<lparr>sx_buffer := rest\<rparr>, ev))"

definition feed :: "int \<Rightarrow> bytes \<Rightarrow> smux \<Rightarrow> smux \<times> smux_event list" where
  "feed now data s =
     (if sx_closed s then (s, [])
      else processFrames now (s\<lparr>sx_buffer := sx_buffer s @ data\<rparr>))"

section \<open>The session\<close>

definition close_session :: "smux \<Rightarrow> smux \<times> smux_event list" where
  "close_session s =
     (if sx_closed s then (s, [])
      else let s1 = s\<lparr>sx_closed := True, sx_nopTimer := False, sx_timeoutTimer := False\<rparr>;
               s2 = fold (\<lambda>r. upd_obj r closeStream) (map snd (sx_streams s1)) s1
           in (s2\<lparr>sx_streams := []\<rparr>, [OnClose]))"

definition startKeepalive :: "int \<Rightarrow> smux \<Rightarrow> smux" where
  "startKeepalive now s =
     (if sx_nopTimer s then s
      else s\<lparr>sx_lastRecvAt := now, sx_nopTimer := True, sx_timeoutTimer := True\<rparr>)"

definition nop_tick :: "smux \<Rightarrow> smux \<times> smux_event list" where
  "nop_tick s = (s, if sx_nopTimer s then sendFrame s CMD_NOP 0 [] else [])"

definition timeout_tick :: "int \<Rightarrow> smux \<Rightarrow> smux \<times> smux_event list" where
  "timeout_tick now s =
     (if \<not> sx_timeoutTimer s \<or> sx_closed s then (s, [])
      else if now - sx_lastRecvAt s > int KEEPALIVE_TIMEOUT then
        (let (s', ev) = close_session s in (s', OnError KeepaliveTimeout # ev))
      else (s, []))"

section \<open>Reading\<close>

definition accountRead :: "stream_ref \<Rightarrow> bytes \<Rightarrow> smux \<Rightarrow> smux \<times> smux_event list" where
  "accountRead r chunk s =
     (let st = obj s r;
          st1 = st\<lparr>st_numRead := st_numRead st + length chunk,
                   st_updIncr := st_updIncr st + length chunk\<rparr>
      in if st_numRead st1 = length chunk \<or> st_updIncr st1 \<ge> UPD_THRESHOLD
         then (upd_obj r (\<lambda>_. st1\<lparr>st_updIncr := 0\<rparr>) s,
               sendUPD s (st_id st) (st_numRead st1) MAX_STREAM_BUFFER)
         else (upd_obj r (\<lambda>_. st1) s, []))"

definition read_stream :: "stream_ref \<Rightarrow> smux \<Rightarrow> smux \<times> smux_event list" where
  "read_stream r s =
     (let st = obj s r in
      if st_closed st then (s, [ReadResult r None])
      else case st_readQueue st of
          chunk # rest \<Rightarrow>
            (let (s', ev) = accountRead r chunk (upd_obj r (\<lambda>st. st\<lparr>st_readQueue := rest\<rparr>) s)
             in (s', ev @ [ReadResult r (Some chunk)]))
        | [] \<Rightarrow>
            if st_remoteClosed st then (s, [ReadResult r None])
            else (upd_obj r (\<lambda>st. st\<lparr>st_readWaiting := True\<rparr>) s, []))"

text \<open>The part of \<open>read\<close> after its \<open>await\<close>, for the oldest resolved promise.\<close>

definition read_resume :: "stream_ref \<Rightarrow> smux \<Rightarrow> smux \<times> smux_event list" where
  "read_resume r s =
     (case st_readDone (obj s r) of
        [] \<Rightarrow> (s, [])
      | v # rest \<Rightarrow>
          (let s1 = upd_obj r (\<lambda>st. st\<lparr>st_readDone := rest\<rparr>) s in
           case v of
             None \<Rightarrow> (s1, [ReadResult r None])
           | Some chunk \<Rightarrow>
               (let (s', ev) = accountRead r chunk s1 in (s', ev @ [ReadResult r (Some chunk)]))))"

section \<open>Writing and closing\<close>

definition write_stream :: "stream_ref \<Rightarrow> bytes \<Rightarrow> smux \<Rightarrow> smux \<times> smux_event list" where
  "write_stream r data s =
     (if stream_closed (obj s r) then (s, [WriteRejected r])
      else (upd_obj r (\<lambda>st. st\<lparr>st_tail := st_tail st @ [JWrite data 0]\<rparr>) s, []))"

text \<open>
  The loop of \<open>_writeSync\<close> from an offset: send what the window allows, at most one frame's
  worth at a time; stop when the data is out, when the stream is closed (the write fails),
  or when the window is exhausted (the write waits). Nothing but this loop touches the
  counters while it runs, and it stops because each turn sends at least one byte.
\<close>

definition chunk_len :: "stream_state \<Rightarrow> bytes \<Rightarrow> nat \<Rightarrow> nat" where
  "chunk_len st data off = nat (min (min (writeWin st) (int (length data - off))) (int MAX_FRAME_SIZE))"

datatype write_outcome = WDone | WFailed | WBlocked nat

function writeSync ::
  "stream_ref \<Rightarrow> bytes \<Rightarrow> nat \<Rightarrow> smux \<Rightarrow> smux \<times> smux_event list \<times> write_outcome"
where
  "writeSync r data off s =
     (let st = obj s r in
      if st_closed st \<or> st_remoteClosed st then (s, [], WFailed)
      else if \<not> off < length data then (s, [], WDone)
      else if writeWin st \<le> 0 then (s, [], WBlocked off)
      else let n = chunk_len st data off;
               ev = sendPSH s (st_id st) (slice data off (off + n));
               s1 = upd_obj r (\<lambda>st. st\<lparr>st_numWritten := st_numWritten st + n\<rparr>) s;
               (s2, ev2, out) = writeSync r data (off + n) s1
           in (s2, ev @ ev2, out))"
  by pat_completeness auto
termination
  by (relation "measure (\<lambda>(r, data, off, s). length data - off)")
    (auto simp: chunk_len_def MAX_FRAME_SIZE_def)

declare writeSync.simps [simp del]

text \<open>
  The head of the write tail runs, when it is not waiting for the window. A failed write is
  swallowed by the chain, so the next job runs in any case.
\<close>

definition run_tail :: "stream_ref \<Rightarrow> smux \<Rightarrow> smux \<times> smux_event list" where
  "run_tail r s =
     (let st = obj s r in
      if st_writeWaiting st then (s, [])
      else case st_tail st of
          [] \<Rightarrow> (s, [])
        | JWrite data off # rest \<Rightarrow>
            (let (s1, ev, out) = writeSync r data off s in
             case out of
               WBlocked off' \<Rightarrow>
                 (upd_obj r (\<lambda>st. st\<lparr>st_writeWaiting := True, st_tail := JWrite data off' # rest\<rparr>) s1, ev)
             | _ \<Rightarrow> (upd_obj r (\<lambda>st. st\<lparr>st_tail := rest\<rparr>) s1, ev @ [WriteEnds r (out = WDone)]))
        | JClose # rest \<Rightarrow>
            (let s1 = upd_obj r (\<lambda>st. st\<lparr>st_closed := True, st_tail := rest\<rparr>) s
             in (removeStream (st_id st) s1, sendFIN s1 (st_id st))))"

definition close_stream :: "stream_ref \<Rightarrow> bool \<Rightarrow> smux \<Rightarrow> smux \<times> smux_event list" where
  "close_stream r force s =
     (let st = obj s r in
      if st_closed st then (s, [])
      else if force then
        (let s1 = upd_obj r (\<lambda>st. resolveWrite (resolveRead None (st\<lparr>st_closed := True\<rparr>))) s
         in (removeStream (st_id st) s1, sendFIN s1 (st_id st)))
      else
        (upd_obj r (\<lambda>st. (resolveWrite (resolveRead None (st\<lparr>st_closing := True\<rparr>)))
           \<lparr>st_tail := st_tail st @ [JClose]\<rparr>) s, []))"

section \<open>Runs\<close>

text \<open>
  The operations of a session: incoming bytes, the timers, the calls of its owner and of the
  holders of its streams, and the continuations. A call on a handle that no
  \<open>OnStream\<close> has handed out does not exist.
\<close>

datatype smux_op =
    Feed int bytes
  | SetOutput
  | CloseSession
  | StartKeepalive int
  | NopTick
  | TimeoutTick int
  | Read stream_ref
  | ReadResume stream_ref
  | Write stream_ref bytes
  | RunTail stream_ref
  | CloseStream stream_ref bool

fun op_ref :: "smux_op \<Rightarrow> stream_ref option" where
  "op_ref (Read r) = Some r"
| "op_ref (ReadResume r) = Some r"
| "op_ref (Write r d) = Some r"
| "op_ref (RunTail r) = Some r"
| "op_ref (CloseStream r f) = Some r"
| "op_ref _ = None"

fun exec_op :: "smux_op \<Rightarrow> smux \<Rightarrow> smux \<times> smux_event list" where
  "exec_op (Feed now d) s = feed now d s"
| "exec_op SetOutput s = (setOutput s, [])"
| "exec_op CloseSession s = close_session s"
| "exec_op (StartKeepalive now) s = (startKeepalive now s, [])"
| "exec_op NopTick s = nop_tick s"
| "exec_op (TimeoutTick now) s = timeout_tick now s"
| "exec_op (Read r) s = read_stream r s"
| "exec_op (ReadResume r) s = read_resume r s"
| "exec_op (Write r d) s = write_stream r d s"
| "exec_op (RunTail r) s = run_tail r s"
| "exec_op (CloseStream r f) s = close_stream r f s"

definition exec :: "smux_op \<Rightarrow> smux \<Rightarrow> smux \<times> smux_event list" where
  "exec op s =
     (case op_ref op of
        Some r \<Rightarrow> if r < length (sx_objs s) then exec_op op s else (s, [])
      | None \<Rightarrow> exec_op op s)"

text \<open>A run, with the events of each operation kept apart.\<close>

fun run :: "smux_op list \<Rightarrow> smux \<Rightarrow> smux \<times> (smux_op \<times> smux_event list) list" where
  "run [] s = (s, [])"
| "run (op # ops) s =
     (let (s1, ev) = exec op s; (s2, tr) = run ops s1 in (s2, (op, ev) # tr))"

end
