(* ===== verification/SmuxCorrect.thy ===== *)
theory SmuxCorrect
  imports Smux
begin

section \<open>Parsing\<close>

lemma smux_step_extend:
  "smux_step now s b = Frame s' ev r \<Longrightarrow> smux_step now s (b @ x) = Frame s' ev (r @ x)"
  by (auto simp: smux_step_def HEADER_LEN_def Let_def slice_append_left nth_append
      split: if_splits prod.splits)

interpretation smux: frame_parser "smux_step now" for now
proof unfold_locales
  fix s s' :: smux and b r x and ev :: "smux_event list"
  show "smux_step now s b = Frame s' ev r \<Longrightarrow> smux_step now s (b @ x) = Frame s' ev (r @ x)"
    by (rule smux_step_extend)
  show "smux_step now s b = Frame s' ev r \<Longrightarrow> length r < length b"
    by (auto simp: smux_step_def HEADER_LEN_def Let_def split: if_splits prod.splits)
  show "smux_step now s b = Resync s' ev \<Longrightarrow> smux_step now s (b @ x) = Resync s' ev"
    by (auto simp: smux_step_def Let_def split: if_splits prod.splits)
qed

lemma smux_never_drops: "drain (smux_step now) s b = (s', ev, r, d) \<Longrightarrow> \<not> d"
proof (induction "length b" arbitrary: s b ev rule: less_induct)
  case less
  show ?case
  proof (cases "smux_step now s b")
    case Wait
    with less.prems show ?thesis by (simp add: smux.drain_unfold [of now s b])
  next
    case (Frame s1 ev1 r1)
    then obtain ev2 where "drain (smux_step now) s1 r1 = (s', ev2, r, d)"
      using less.prems by (auto simp: smux.drain_unfold [of now s b] split: prod.splits)
    with smux.step_consumes [OF Frame] show ?thesis by (rule less.hyps)
  next
    case (Resync s1 ev1)
    then show ?thesis by (auto simp: smux_step_def Let_def split: if_splits prod.splits)
  qed
qed

text \<open>What a frame leaves alone.\<close>

lemma upd_obj_simps [simp]:
  "sx_streams (upd_obj r f s) = sx_streams s" "sx_buffer (upd_obj r f s) = sx_buffer s"
  "sx_closed (upd_obj r f s) = sx_closed s" "sx_output (upd_obj r f s) = sx_output s"
  "sx_nopTimer (upd_obj r f s) = sx_nopTimer s"
  "sx_timeoutTimer (upd_obj r f s) = sx_timeoutTimer s"
  "sx_lastRecvAt (upd_obj r f s) = sx_lastRecvAt s"
  "sx_objs (upd_obj r f s) = (sx_objs s)[r := f (obj s r)]"
  by (simp_all add: upd_obj_def)

lemma dispatch_frame:
  assumes "dispatch ver cmd sid data s = (s', ev)"
  shows "sx_buffer s' = sx_buffer s" "sx_closed s' = sx_closed s" "sx_output s' = sx_output s"
    "length (sx_objs s) \<le> length (sx_objs s')"
  using assms
  by (auto simp: dispatch_def handleSyn_def handlePsh_def handleFin_def handleUpd_def Let_def
      split: if_splits option.splits)

lemma smux_step_frame:
  assumes "smux_step now s b = Frame s' ev r"
  shows "sx_buffer s' = sx_buffer s" "sx_closed s' = sx_closed s" "sx_output s' = sx_output s"
proof -
  obtain ver cmd sid data where "dispatch ver cmd sid data (s\<lparr>sx_lastRecvAt := now\<rparr>) = (s', ev)"
    using assms by (auto simp: smux_step_def Let_def split: if_splits prod.splits)
  from dispatch_frame [OF this] show "sx_buffer s' = sx_buffer s" "sx_closed s' = sx_closed s"
    "sx_output s' = sx_output s" by simp_all
qed

lemma smux_no_resync: "smux_step now s b \<noteq> Resync s' ev"
  by (auto simp: smux_step_def Let_def split: if_splits prod.splits)

lemma smux_drain_frame:
  assumes "drain (smux_step now) s b = (s', ev, r, d)"
  shows "sx_buffer s' = sx_buffer s" "sx_closed s' = sx_closed s" "sx_output s' = sx_output s"
proof -
  have "(sx_buffer s' = sx_buffer s \<and> sx_closed s' = sx_closed s \<and> sx_output s' = sx_output s)
      \<and> (\<forall>e \<in> set ev. True)"
    by (rule smux.drain_preserves [where P = "\<lambda>t. sx_buffer t = sx_buffer s
          \<and> sx_closed t = sx_closed s \<and> sx_output t = sx_output s", OF _ _ _ assms])
      (auto simp: smux_no_resync dest: smux_step_frame)
  then show "sx_buffer s' = sx_buffer s" "sx_closed s' = sx_closed s" "sx_output s' = sx_output s"
    by simp_all
qed

lemma feed_eq:
  "\<not> sx_closed s \<Longrightarrow> feed now d s =
     (let (s', ev, rest, _) = drain (smux_step now) (s\<lparr>sx_buffer := []\<rparr>) (sx_buffer s @ d)
      in (s'\<lparr>sx_buffer := rest\<rparr>, ev))"
  by (simp add: feed_def processFrames_def)

definition feed_all :: "int \<Rightarrow> bytes list \<Rightarrow> smux \<Rightarrow> smux \<times> smux_event list" where
  "feed_all now cs s = (let (s', tr) = run (map (Feed now) cs) s in (s', concat (map snd tr)))"

lemma feed_all_Nil: "feed_all now [] s = (s, [])"
  by (simp add: feed_all_def)

lemma feed_all_Cons:
  "feed_all now (c # cs) s =
     (let (s1, ev1) = feed now c s; (s2, ev2) = feed_all now cs s1 in (s2, ev1 @ ev2))"
  by (simp add: feed_all_def exec_def split: prod.splits)

lemma feed_all_chunks:
  assumes "\<not> sx_closed s" "feed_chunks (smux_step now) (s\<lparr>sx_buffer := []\<rparr>) (sx_buffer s) cs = (s', ev, r)"
  shows "feed_all now cs s = (s'\<lparr>sx_buffer := r\<rparr>, ev)"
  using assms
proof (induction cs arbitrary: s ev)
  case (Cons c cs)
  let ?s0 = "s\<lparr>sx_buffer := []\<rparr>"
  obtain s1 ev1 r1 d where one: "drain (smux_step now) ?s0 (sx_buffer s @ c) = (s1, ev1, r1, d)"
    by (metis prod_cases4)
  then obtain ev2 where rest: "feed_chunks (smux_step now) s1 r1 cs = (s', ev2, r)" "ev = ev1 @ ev2"
    using Cons.prems by (auto split: prod.splits)
  have clr: "sx_buffer s1 = []" "\<not> sx_closed s1"
    using smux_drain_frame [OF one] Cons.prems by simp_all
  then have eq: "s1\<lparr>sx_buffer := []\<rparr> = s1" by (cases s1) simp
  have "feed_all now cs (s1\<lparr>sx_buffer := r1\<rparr>) = (s'\<lparr>sx_buffer := r\<rparr>, ev2)"
    by (rule Cons.IH) (simp_all add: clr eq rest)
  then show ?case
    using one rest Cons.prems by (simp add: feed_all_Cons feed_eq)
qed (auto simp: feed_all_Nil)

lemma feed_all_concat:
  assumes "cs \<noteq> []" 
  shows "feed_all now cs s = feed now (concat cs) s"
proof (cases "sx_closed s")
  case True
  then have "feed_all now ds s = (s, [])" for ds
    by (induction ds) (simp_all add: feed_all_Nil feed_all_Cons feed_def)
  with True show ?thesis by (simp add: feed_def)
next
  case False
  obtain s' ev r d where whole:
    "drain (smux_step now) (s\<lparr>sx_buffer := []\<rparr>) (sx_buffer s @ concat cs) = (s', ev, r, d)"
    by (metis prod_cases4)
  moreover have "\<not> d" using smux_never_drops [OF whole] .
  ultimately have "feed_chunks (smux_step now) (s\<lparr>sx_buffer := []\<rparr>) (sx_buffer s) cs = (s', ev, r)"
    using assms by (intro smux.feed_chunks_concat) simp_all
  then show ?thesis
    using feed_all_chunks [OF False] False whole by (simp add: feed_eq)
qed

section \<open>Frames\<close>

text \<open>What goes out as a frame comes in as the same frame.\<close>

definition frame_fits :: "byte \<times> nat \<times> bytes \<Rightarrow> bool" where
  "frame_fits f \<longleftrightarrow> fst (snd f) < 4294967296 \<and> length (snd (snd f)) < 65536"

fun dispatch_all :: "int \<Rightarrow> (byte \<times> nat \<times> bytes) list \<Rightarrow> smux \<Rightarrow> smux \<times> smux_event list" where
  "dispatch_all now [] s = (s, [])"
| "dispatch_all now ((cmd, sid, data) # fs) s =
     (let (s1, ev1) = dispatch SMUX_VERSION cmd sid data (s\<lparr>sx_lastRecvAt := now\<rparr>);
          (s2, ev2) = dispatch_all now fs s1
      in (s2, ev1 @ ev2))"

lemma get_u16_le_at: "i = length xs \<Longrightarrow> n < 65536 \<Longrightarrow> get_u16_le (xs @ put_u16_le n @ ys) i = n"
  using get_put_u16_le [of xs n ys] by simp

lemma get_u32_le_at: "i = length xs \<Longrightarrow> n < 4294967296 \<Longrightarrow> get_u32_le (xs @ put_u32_le n @ ys) i = n"
  using get_put_u32_le [of xs n ys] by simp

lemma length_smux_frame [simp]: "length (smux_frame cmd sid data) = 8 + length data"
  by (simp add: smux_frame_def)

lemma smux_step_frame_bytes:
  assumes "sid < 4294967296" "length data < 65536"
  shows "smux_step now s (smux_frame cmd sid data @ rest) =
    (let (s', ev) = dispatch SMUX_VERSION cmd sid data (s\<lparr>sx_lastRecvAt := now\<rparr>)
     in Frame s' ev rest)"
proof -
  let ?f = "smux_frame cmd sid data @ rest"
  have "get_u16_le ?f 2 = length data"
    unfolding smux_frame_def append_assoc using assms by (intro get_u16_le_at) simp_all
  moreover have "get_u32_le ?f 4 = sid"
    unfolding smux_frame_def append_assoc
    using assms get_u32_le_at [of 4 "[SMUX_VERSION, cmd] @ put_u16_le (length data)" sid "data @ rest"] by simp
  moreover have "slice ?f 8 (8 + length data) = data"
    by (simp add: slice_def smux_frame_def)
  moreover have "drop (8 + length data) ?f = rest"
    by (simp add: drop_append)
  moreover have "?f ! 0 = SMUX_VERSION" "?f ! 1 = cmd" by (simp_all add: smux_frame_def)
  ultimately show ?thesis
    by (simp add: smux_step_def HEADER_LEN_def Let_def)
qed

lemma drain_frames:
  assumes "\<forall>f \<in> set fs. frame_fits f"
  shows "drain (smux_step now) s (concat (map (\<lambda>(c, i, d). smux_frame c i d) fs)) =
    (let (s', ev) = dispatch_all now fs s in (s', ev, [], False))"
  using assms
proof (induction fs arbitrary: s)
  case Nil
  then show ?case by (simp add: drain_def smux_step_def HEADER_LEN_def)
next
  case (Cons f fs)
  obtain c i d where f: "f = (c, i, d)" by (cases f)
  then have "i < 4294967296" "length d < 65536" using Cons.prems by (simp_all add: frame_fits_def)
  then show ?case
    using Cons
    by (simp add: f smux.drain_unfold [of now s] smux_step_frame_bytes split: prod.splits)
qed

section \<open>The invariant\<close>

fun tail_ok :: "job list \<Rightarrow> bool" where
  "tail_ok [] \<longleftrightarrow> True"
| "tail_ok (JWrite d off # js) \<longleftrightarrow> off \<le> length d \<and> tail_ok js"
| "tail_ok (JClose # js) \<longleftrightarrow> (\<forall>j \<in> set js. j = JClose)"

definition write_blocked :: "stream_state \<Rightarrow> bool" where
  "write_blocked st \<longleftrightarrow> writeWin st \<le> 0 \<and> \<not> st_closed st \<and> \<not> st_remoteClosed st
     \<and> (\<exists>d off js. st_tail st = JWrite d off # js \<and> off < length d)"

definition stream_ok :: "stream_state \<Rightarrow> bool" where
  "stream_ok st \<longleftrightarrow> st_id st < 4294967296
     \<and> st_updIncr st < UPD_THRESHOLD \<and> st_updIncr st \<le> st_numRead st
     \<and> (st_writeWaiting st \<longrightarrow> write_blocked st)
     \<and> (st_readWaiting st \<longrightarrow> st_readQueue st = [] \<and> \<not> st_remoteClosed st)
     \<and> tail_ok (st_tail st) \<and> (JClose \<in> set (st_tail st) \<longrightarrow> st_closing st)
     \<and> st_peerConsumed st \<le> 4294967295 \<and> st_peerWindow st \<le> 4294967295
     \<and> st_numWritten st \<le> 8589934590"

definition smux_ok :: "smux \<Rightarrow> bool" where
  "smux_ok s \<longleftrightarrow> (\<forall>r < length (sx_objs s). stream_ok (obj s r))
     \<and> (\<forall>sid r. jget (sx_streams s) sid = Some r \<longrightarrow> r < length (sx_objs s) \<and> st_id (obj s r) = sid)"

lemma upd_obj_ok:
  assumes "smux_ok s"
    and "r < length (sx_objs s) \<Longrightarrow> stream_ok (obj s r) \<Longrightarrow>
      stream_ok (f (obj s r)) \<and> st_id (f (obj s r)) = st_id (obj s r)"
  shows "smux_ok (upd_obj r f s)"
  using assms unfolding smux_ok_def by (cases "r < length (sx_objs s)") (auto simp: nth_list_update list_update_beyond)

lemma smux_ok_irrelevant [simp]:
  "smux_ok (s\<lparr>sx_buffer := b\<rparr>) = smux_ok s" "smux_ok (s\<lparr>sx_closed := c\<rparr>) = smux_ok s"
  "smux_ok (s\<lparr>sx_output := c\<rparr>) = smux_ok s" "smux_ok (s\<lparr>sx_nopTimer := c\<rparr>) = smux_ok s"
  "smux_ok (s\<lparr>sx_timeoutTimer := c\<rparr>) = smux_ok s" "smux_ok (s\<lparr>sx_lastRecvAt := t\<rparr>) = smux_ok s"
  by (simp_all add: smux_ok_def)

lemma stream_ok_resolveRead: "stream_ok st \<Longrightarrow> stream_ok (resolveRead v st)"
  by (auto simp: resolveRead_def stream_ok_def write_blocked_def writeWin_def)

lemma st_resolveRead [simp]:
  "st_id (resolveRead v st) = st_id st" "st_closed (resolveRead v st) = st_closed st"
  "st_tail (resolveRead v st) = st_tail st" "st_closing (resolveRead v st) = st_closing st"
  "st_remoteClosed (resolveRead v st) = st_remoteClosed st" "writeWin (resolveRead v st) = writeWin st"
  "st_numRead (resolveRead v st) = st_numRead st" "st_updIncr (resolveRead v st) = st_updIncr st"
  "st_readQueue (resolveRead v st) = st_readQueue st" "\<not> st_readWaiting (resolveRead v st)"
  "st_numWritten (resolveRead v st) = st_numWritten st"
  "st_peerConsumed (resolveRead v st) = st_peerConsumed st"
  "st_peerWindow (resolveRead v st) = st_peerWindow st"
  "st_writeWaiting (resolveRead v st) = st_writeWaiting st"
  by (simp_all add: resolveRead_def writeWin_def)

lemma st_resolveWrite [simp]:
  "st_id (resolveWrite st) = st_id st" "st_closed (resolveWrite st) = st_closed st"
  "st_tail (resolveWrite st) = st_tail st" "st_closing (resolveWrite st) = st_closing st"
  "st_remoteClosed (resolveWrite st) = st_remoteClosed st" "writeWin (resolveWrite st) = writeWin st"
  "st_numRead (resolveWrite st) = st_numRead st" "st_updIncr (resolveWrite st) = st_updIncr st"
  "st_readQueue (resolveWrite st) = st_readQueue st" "\<not> st_writeWaiting (resolveWrite st)"
  "st_readWaiting (resolveWrite st) = st_readWaiting st"
  "st_numWritten (resolveWrite st) = st_numWritten st"
  "st_peerConsumed (resolveWrite st) = st_peerConsumed st"
  "st_peerWindow (resolveWrite st) = st_peerWindow st"
  by (simp_all add: resolveWrite_def writeWin_def)

lemma stream_ok_pushData: "stream_ok st \<Longrightarrow> stream_ok (pushData d st)"
  by (auto simp: pushData_def stream_ok_def write_blocked_def writeWin_def)

lemma st_pushData [simp]:
  "st_id (pushData d st) = st_id st" "st_tail (pushData d st) = st_tail st"
  "st_closed (pushData d st) = st_closed st" "st_remoteClosed (pushData d st) = st_remoteClosed st"
  by (simp_all add: pushData_def)

lemma stream_ok_new: "sid < 4294967296 \<Longrightarrow> stream_ok (new_stream_state sid)"
  by (simp add: stream_ok_def new_stream_state_def UPD_THRESHOLD_def INITIAL_PEER_WINDOW_def)

lemma stream_ok_updateWindow:
  "stream_ok st \<Longrightarrow> c \<le> 4294967295 \<Longrightarrow> w \<le> 4294967295 \<Longrightarrow> stream_ok (updateWindow c w st)"
  by (auto simp: updateWindow_def stream_ok_def write_blocked_def writeWin_def Let_def)

lemma st_updateWindow [simp]:
  "st_id (updateWindow c w st) = st_id st" "st_tail (updateWindow c w st) = st_tail st"
  "st_closed (updateWindow c w st) = st_closed st"
  "st_remoteClosed (updateWindow c w st) = st_remoteClosed st"
  by (simp_all add: updateWindow_def Let_def)

lemma dispatch_ok:
  assumes ok: "smux_ok s" and sid: "sid < 4294967296" and d: "dispatch ver cmd sid data s = (s', ev)"
  shows "smux_ok s'"
proof -
  have syn: "smux_ok (fst (handleSyn sid data s))"
  proof -
    define st where "st = (if data = [] then new_stream_state sid else pushData data (new_stream_state sid))"
    have "stream_ok st" "st_id st = sid"
      using stream_ok_new [OF sid] stream_ok_pushData by (simp_all add: st_def) (simp_all add: new_stream_state_def)
    then show ?thesis
      using ok unfolding smux_ok_def handleSyn_def Let_def st_def [symmetric]
      by (auto simp: nth_append update_conv less_Suc_eq split: if_splits)
  qed
  have psh: "smux_ok (handlePsh sid data s)"
    using ok by (auto simp: handlePsh_def stream_ok_pushData intro!: upd_obj_ok split: option.split)
  have fin: "smux_ok (handleFin sid s)"
  proof -
    have "stream_ok (resolveWrite (resolveRead None (st\<lparr>st_remoteClosed := True\<rparr>)))" if "stream_ok st" for st
      using that by (auto simp: stream_ok_def)
    with ok show ?thesis
      by (auto simp: handleFin_def intro!: upd_obj_ok split: option.split)
  qed
  have upd: "smux_ok (handleUpd sid data s)"
    using ok get_u32_bound [of data 0] get_u32_bound [of data 4]
    by (auto simp: handleUpd_def stream_ok_updateWindow intro!: upd_obj_ok split: option.split
        simp del: get_u32_bound)
  show ?thesis
    using d ok syn psh fin upd by (auto simp: dispatch_def split: if_splits)
qed

text \<open>The session-level operations.\<close>

lemma stream_ok_closeStream: "stream_ok st \<Longrightarrow> stream_ok (closeStream st) \<and> st_id (closeStream st) = st_id st"
  by (auto simp: closeStream_def stream_ok_def)

lemma closeStream_all_ok: "smux_ok s \<Longrightarrow> smux_ok (fold (\<lambda>r. upd_obj r closeStream) rs s)"
  by (induction rs arbitrary: s) (simp_all add: upd_obj_ok stream_ok_closeStream)

lemma close_session_ok: "smux_ok s \<Longrightarrow> smux_ok (fst (close_session s))"
proof -
  assume ok: "smux_ok s"
  let ?s1 = "s\<lparr>sx_closed := True, sx_nopTimer := False, sx_timeoutTimer := False\<rparr>"
  have "smux_ok ?s1" using ok by (simp add: smux_ok_def)
  then have "smux_ok (fold (\<lambda>r. upd_obj r closeStream) (map snd (sx_streams ?s1)) ?s1)"
    by (rule closeStream_all_ok)
  with ok show ?thesis by (simp add: close_session_def smux_ok_def Let_def)
qed

lemma feed_ok: "smux_ok s \<Longrightarrow> smux_ok (fst (feed now d s))"
proof (cases "sx_closed s")
  case False
  assume ok: "smux_ok s"
  obtain s' ev r dr where whole:
    "drain (smux_step now) (s\<lparr>sx_buffer := []\<rparr>) (sx_buffer s @ d) = (s', ev, r, dr)"
    by (metis prod_cases4)
  have "smux_ok s' \<and> (\<forall>e \<in> set ev. True)"
  proof (rule smux.drain_preserves [OF _ _ _ whole, where P = smux_ok])
    fix t b t' evt q
    assume "smux_ok t" "smux_step now t b = Frame t' evt q"
    then obtain ver cmd sid data where "dispatch ver cmd sid data (t\<lparr>sx_lastRecvAt := now\<rparr>) = (t', evt)"
      "sid < 4294967296"
      by (auto simp: smux_step_def Let_def split: if_splits prod.splits)
    then show "smux_ok t' \<and> (\<forall>e \<in> set evt. True)"
      using dispatch_ok [of "t\<lparr>sx_lastRecvAt := now\<rparr>"] \<open>smux_ok t\<close> by simp
  qed (auto simp: smux_no_resync ok)
  then show ?thesis using whole False by (simp add: feed_eq)
qed (simp add: feed_def)

section \<open>Writing\<close>

fun psh_payload :: "smux_event \<Rightarrow> bytes" where
  "psh_payload (Output b) = (if b ! 1 = CMD_PSH then drop 8 b else [])"
| "psh_payload _ = []"

definition payloads :: "smux_event list \<Rightarrow> bytes" where
  "payloads ev = concat (map psh_payload ev)"

lemma payloads_simps [simp]:
  "payloads [] = []" "payloads (e # ev) = psh_payload e @ payloads ev"
  "payloads (ev @ ev') = payloads ev @ payloads ev'"
  by (simp_all add: payloads_def)

lemma psh_payload_frame [simp]:
  "psh_payload (Output (smux_frame cmd sid data)) = (if cmd = CMD_PSH then data else [])"
  by (simp add: smux_frame_def)

declare psh_payload.simps(1) [simp del]

lemma payloads_sendFrame:
  "payloads (sendFrame s cmd sid data) =
     (if sx_output s \<and> \<not> sx_closed s \<and> cmd = CMD_PSH then data else [])"
  by (simp add: sendFrame_def)

abbreviation add_written :: "nat \<Rightarrow> stream_state \<Rightarrow> stream_state" where
  "add_written k st \<equiv> st\<lparr>st_numWritten := st_numWritten st + k\<rparr>"

lemma upd_obj_twice:
  "r < length (sx_objs s) \<Longrightarrow> upd_obj r f (upd_obj r g s) = upd_obj r (\<lambda>st. f (g st)) s"
  by (simp add: upd_obj_def)

lemma upd_obj_id: "(f (obj s r) = obj s r) \<Longrightarrow> upd_obj r f s = s"
  by (cases s) (simp add: upd_obj_def)

lemma chunk_len_bounds:
  assumes "off < length data" "0 < writeWin st"
  shows "0 < chunk_len st data off" "off + chunk_len st data off \<le> length data"
    "int (chunk_len st data off) \<le> writeWin st" "chunk_len st data off \<le> MAX_FRAME_SIZE"
  using assms by (auto simp: chunk_len_def MAX_FRAME_SIZE_def)

definition wrote :: "stream_ref \<Rightarrow> bytes \<Rightarrow> nat \<Rightarrow> smux \<Rightarrow> smux \<Rightarrow> smux_event list \<Rightarrow> nat \<Rightarrow> bool" where
  "wrote r data off s s' ev k \<longleftrightarrow>
     s' = upd_obj r (add_written k) s \<and> off + k \<le> length data
     \<and> (0 < k \<longrightarrow> int k \<le> writeWin (obj s r))
     \<and> payloads ev = (if sx_output s \<and> \<not> sx_closed s then slice data off (off + k) else [])
     \<and> (\<forall>e \<in> set ev. \<exists>d. e = Output (smux_frame CMD_PSH (st_id (obj s r)) d)
          \<and> 0 < length d \<and> length d \<le> MAX_FRAME_SIZE)"

definition write_end :: "stream_ref \<Rightarrow> bytes \<Rightarrow> nat \<Rightarrow> smux \<Rightarrow> write_outcome \<Rightarrow> bool" where
  "write_end r data pos s out \<longleftrightarrow>
     (case out of
        WDone \<Rightarrow> pos = length data \<and> \<not> st_closed (obj s r) \<and> \<not> st_remoteClosed (obj s r)
      | WBlocked off \<Rightarrow> off = pos \<and> pos < length data \<and> writeWin (obj s r) \<le> 0
          \<and> \<not> st_closed (obj s r) \<and> \<not> st_remoteClosed (obj s r)
      | WFailed \<Rightarrow> st_closed (obj s r) \<or> st_remoteClosed (obj s r))"

lemma wrote_nothing: "off \<le> length data \<Longrightarrow> wrote r data off s s [] 0"
  by (simp add: wrote_def upd_obj_id slice_def)

lemma writeSync_spec:
  assumes "writeSync r data off s = (s', ev, out)" "off \<le> length data" "r < length (sx_objs s)"
  shows "\<exists>k. wrote r data off s s' ev k \<and> write_end r data (off + k) s' out"
  using assms
proof (induction r data off s arbitrary: s' ev rule: writeSync.induct)
  case (1 r data off s)
  let ?st = "obj s r" and ?n = "chunk_len (obj s r) data off"
  consider "st_closed ?st \<or> st_remoteClosed ?st"
    | "\<not> (st_closed ?st \<or> st_remoteClosed ?st)" "\<not> off < length data"
    | "\<not> (st_closed ?st \<or> st_remoteClosed ?st)" "off < length data" "writeWin ?st \<le> 0"
    | "\<not> (st_closed ?st \<or> st_remoteClosed ?st)" "off < length data" "0 < writeWin ?st"
    by linarith
  then show ?case
  proof cases
    case 4
    let ?s1 = "upd_obj r (add_written ?n) s"
    obtain ev2 where rest: "writeSync r data (off + ?n) ?s1 = (s', ev2, out)"
      and ev: "ev = sendPSH s (st_id ?st) (slice data off (off + ?n)) @ ev2"
      using "1.prems"(1) 4 by (subst (asm) writeSync.simps) (auto simp: Let_def split: prod.splits)
    note b = chunk_len_bounds [OF 4(2,3)]
    obtain k where k: "wrote r data (off + ?n) ?s1 s' ev2 k" "write_end r data (off + ?n + k) s' out"
      using "1.IH" [OF refl 4(1) _ _ refl refl refl rest] 4 b "1.prems"(3) by force
    let ?d = "slice data off (off + ?n)"
    have "payloads (sendPSH s (st_id ?st) ?d) = (if sx_output s \<and> \<not> sx_closed s then ?d else [])"
      by (simp add: sendPSH_def payloads_sendFrame)
    moreover have "?d \<noteq> []" using b by (simp add: slice_def)
    then have "\<forall>e \<in> set (sendPSH s (st_id ?st) ?d).
        \<exists>d. e = Output (smux_frame CMD_PSH (st_id ?st) d) \<and> 0 < length d \<and> length d \<le> MAX_FRAME_SIZE"
      using b by (auto simp: sendPSH_def sendFrame_def intro!: exI [of _ ?d])
    ultimately have "wrote r data off s s' ev (?n + k)"
      using k(1) b "1.prems"(3) 4
      by (auto simp: wrote_def upd_obj_twice ev slice_join writeWin_def add.assoc)
    then show ?thesis using k(2) by (auto simp: add.assoc)
  next
    case 1
    then have "s' = s" "ev = []" "out = WFailed"
      using "1.prems"(1) by (simp_all add: writeSync.simps [of r data off s])
    with 1 show ?thesis using wrote_nothing "1.prems"(2) by (force simp: write_end_def)
  next
    case 2
    then have "s' = s" "ev = []" "out = WDone"
      using "1.prems"(1) by (simp_all add: writeSync.simps [of r data off s])
    with 2 show ?thesis using wrote_nothing "1.prems"(2) by (force simp: write_end_def)
  next
    case 3
    then have "s' = s" "ev = []" "out = WBlocked off"
      using "1.prems"(1) by (simp_all add: writeSync.simps [of r data off s])
    with 3 show ?thesis using wrote_nothing "1.prems"(2) by (force simp: write_end_def)
  qed
qed

section \<open>The operations keep the invariant\<close>

lemma accountRead_ok:
  assumes "smux_ok s" "accountRead r chunk s = (s', ev)"
  shows "smux_ok s'"
  using assms
  by (auto simp: accountRead_def Let_def stream_ok_def write_blocked_def writeWin_def UPD_THRESHOLD_def
      split: if_splits intro!: upd_obj_ok)

lemma read_stream_ok: "smux_ok s \<Longrightarrow> smux_ok (fst (read_stream r s))"
proof -
  assume ok: "smux_ok s"
  have q: "smux_ok (upd_obj r (\<lambda>st. st\<lparr>st_readQueue := rest\<rparr>) s)"
    if "st_readQueue (obj s r) = chunk # rest" for chunk rest
    using ok that by (intro upd_obj_ok) (auto simp: stream_ok_def write_blocked_def writeWin_def)
  have w: "smux_ok (upd_obj r (\<lambda>st. st\<lparr>st_readWaiting := True\<rparr>) s)"
    if "st_readQueue (obj s r) = []" "\<not> st_remoteClosed (obj s r)"
    using ok that by (intro upd_obj_ok) (auto simp: stream_ok_def write_blocked_def writeWin_def)
  show ?thesis
    using ok w accountRead_ok [OF q]
    by (auto simp: read_stream_def Let_def split: list.split prod.split)
qed

lemma read_resume_ok: "smux_ok s \<Longrightarrow> smux_ok (fst (read_resume r s))"
proof -
  assume ok: "smux_ok s"
  have q: "smux_ok (upd_obj r (\<lambda>st. st\<lparr>st_readDone := rest\<rparr>) s)" for rest
    using ok by (intro upd_obj_ok) (auto simp: stream_ok_def write_blocked_def writeWin_def)
  show ?thesis
    using ok q accountRead_ok [OF q]
    by (auto simp: read_resume_def Let_def split: list.split prod.split option.split)
qed

lemma tail_ok_snoc:
  "tail_ok js \<Longrightarrow> JClose \<notin> set js \<Longrightarrow> tail_ok (js @ [JWrite d 0])"
  "tail_ok js \<Longrightarrow> tail_ok (js @ [JClose])"
  by (induction js rule: tail_ok.induct) auto

lemma write_stream_ok: "smux_ok s \<Longrightarrow> smux_ok (fst (write_stream r d s))"
  by (auto simp: write_stream_def stream_closed_def stream_ok_def write_blocked_def writeWin_def tail_ok_snoc
      intro!: upd_obj_ok)

lemma removeStream_ok: "smux_ok s \<Longrightarrow> smux_ok (removeStream sid s)"
  by (auto simp: smux_ok_def removeStream_def delete_conv split: if_splits)

lemma close_stream_ok: "smux_ok s \<Longrightarrow> smux_ok (fst (close_stream r f s))"
proof -
  assume ok: "smux_ok s"
  have "smux_ok (upd_obj r (\<lambda>st. resolveWrite (resolveRead None (st\<lparr>st_closed := True\<rparr>))) s)"
    using ok by (intro upd_obj_ok) (auto simp: stream_ok_def)
  moreover have "smux_ok (upd_obj r (\<lambda>st. (resolveWrite (resolveRead None (st\<lparr>st_closing := True\<rparr>)))
           \<lparr>st_tail := st_tail st @ [JClose]\<rparr>) s)"
    using ok by (intro upd_obj_ok) (auto simp: stream_ok_def tail_ok_snoc resolveRead_def resolveWrite_def)
  ultimately show ?thesis
    using ok by (auto simp: close_stream_def Let_def removeStream_ok)
qed

lemma tail_ok_JClose: "tail_ok (j # js) \<Longrightarrow> tail_ok js"
proof (induction js)
  case (Cons k js)
  then show ?case by (cases j; cases k) auto
qed simp

lemma run_tail_ok:
  assumes ok: "smux_ok s" and r: "r < length (sx_objs s)"
  shows "smux_ok (fst (run_tail r s))"
proof (cases "st_writeWaiting (obj s r) \<or> st_tail (obj s r) = []")
  case True
  with ok show ?thesis by (auto simp: run_tail_def Let_def)
next
  case False
  then obtain j rest where tl: "st_tail (obj s r) = j # rest" by (cases "st_tail (obj s r)") auto
  have st: "stream_ok (obj s r)" using ok r by (simp add: smux_ok_def)
  then have rest: "tail_ok rest" "JClose \<in> set rest \<longrightarrow> st_closing (obj s r)"
    using tl tail_ok_JClose by (auto simp: stream_ok_def)
  show ?thesis
  proof (cases j)
    case JClose
    have "smux_ok (upd_obj r (\<lambda>st. st\<lparr>st_closed := True, st_tail := rest\<rparr>) s)"
      using ok rest False by (intro upd_obj_ok) (auto simp: stream_ok_def)
    then show ?thesis using False by (auto simp: run_tail_def Let_def tl JClose removeStream_ok)
  next
    case (JWrite data off)
    have off: "off \<le> length data" using st tl JWrite by (simp add: stream_ok_def)
    obtain s1 ev out where w: "writeSync r data off s = (s1, ev, out)" by (metis prod_cases3)
    obtain k where k: "wrote r data off s s1 ev k" "write_end r data (off + k) s1 out"
      using writeSync_spec [OF w off r] by blast
    have s1: "s1 = upd_obj r (add_written k) s" using k(1) by (simp add: wrote_def)
    have bound: "st_numWritten (obj s r) + k \<le> 8589934590"
      using k(1) st by (cases k) (auto simp: wrote_def writeWin_def stream_ok_def)
    have done': "smux_ok (upd_obj r (\<lambda>st. st\<lparr>st_tail := rest\<rparr>) s1)"
      unfolding s1 upd_obj_twice [OF r]
      using ok rest False bound by (intro upd_obj_ok) (auto simp: stream_ok_def)
    have blocked: "smux_ok (upd_obj r (\<lambda>st. st\<lparr>st_writeWaiting := True, st_tail := JWrite data off' # rest\<rparr>) s1)"
      if "out = WBlocked off'" for off'
      using k(2) that unfolding s1 upd_obj_twice [OF r]
      using ok r rest False bound by (intro upd_obj_ok)
        (auto simp: stream_ok_def write_end_def write_blocked_def writeWin_def)
    show ?thesis
      using False w done' blocked
      by (auto simp: run_tail_def Let_def tl JWrite split: write_outcome.split)
  qed
qed

lemma exec_ok: "smux_ok s \<Longrightarrow> smux_ok (fst (exec op s))"
proof -
  assume ok: "smux_ok s"
  have "smux_ok (fst (timeout_tick now s))" for now
    using ok close_session_ok [OF ok] by (auto simp: timeout_tick_def split: prod.split)
  then show ?thesis
    using ok
    by (cases op) (auto simp: exec_def feed_ok setOutput_def close_session_ok startKeepalive_def nop_tick_def
        read_stream_ok read_resume_ok write_stream_ok run_tail_ok close_stream_ok)
qed

lemma run_ok: "smux_ok s \<Longrightarrow> smux_ok (fst (run ops s))"
proof (induction ops arbitrary: s)
  case (Cons op ops)
  obtain s1 ev where e: "exec op s = (s1, ev)" by fastforce
  then have "smux_ok s1" using exec_ok [OF Cons.prems, of op] by simp
  then have "smux_ok (fst (run ops s1))" by (rule Cons.IH)
  then show ?case using e by (simp split: prod.split) (metis fst_conv)
qed simp

lemma new_smux_ok: "smux_ok (new_smux now)"
  by (simp add: smux_ok_def new_smux_def)

section \<open>What an operation leaves alone\<close>

text \<open>The write side of a stream does not move; its flags only rise.\<close>

definition flags_rise :: "stream_state \<Rightarrow> stream_state \<Rightarrow> bool" where
  "flags_rise st st' \<longleftrightarrow> st_id st' = st_id st \<and> (st_closed st \<longrightarrow> st_closed st')
     \<and> (st_remoteClosed st \<longrightarrow> st_remoteClosed st') \<and> (st_closing st \<longrightarrow> st_closing st')"

definition quiet :: "stream_state \<Rightarrow> stream_state \<Rightarrow> bool" where
  "quiet st st' \<longleftrightarrow> flags_rise st st' \<and> st_tail st' = st_tail st \<and> st_numWritten st' = st_numWritten st"

definition session_rises :: "smux \<Rightarrow> smux \<Rightarrow> bool" where
  "session_rises s s' \<longleftrightarrow> length (sx_objs s) \<le> length (sx_objs s')
     \<and> (sx_closed s \<longrightarrow> sx_closed s') \<and> (sx_output s \<longrightarrow> sx_output s')"

definition all_quiet :: "smux \<Rightarrow> smux \<Rightarrow> bool" where
  "all_quiet s s' \<longleftrightarrow> session_rises s s' \<and> (\<forall>r < length (sx_objs s). quiet (obj s r) (obj s' r))"

lemma quiet_refl [simp]: "quiet st st" "flags_rise st st"
  by (simp_all add: quiet_def flags_rise_def)

lemma quiet_trans: "quiet a b \<Longrightarrow> quiet b c \<Longrightarrow> quiet a c"
  by (auto simp: quiet_def flags_rise_def)

lemma all_quiet_refl [simp]: "all_quiet s s"
  by (simp add: all_quiet_def session_rises_def)

lemma all_quiet_trans:
  assumes "all_quiet a b" "all_quiet b c"
  shows "all_quiet a c"
proof -
  have "quiet (obj a r) (obj c r)" if "r < length (sx_objs a)" for r
    using assms that quiet_trans [of "obj a r" "obj b r" "obj c r"]
    by (auto simp: all_quiet_def session_rises_def)
  then show ?thesis using assms by (auto simp: all_quiet_def session_rises_def)
qed

lemma all_quiet_upd_obj: "(\<And>st. st = obj s r \<Longrightarrow> quiet st (f st)) \<Longrightarrow> all_quiet s (upd_obj r f s)"
  by (cases "r < length (sx_objs s)")
    (auto simp: all_quiet_def session_rises_def nth_list_update list_update_beyond)

lemma quiet_helpers:
  "quiet st (pushData d st)" "quiet st (closeStream st)" "quiet st (updateWindow c w st)"
  "quiet st (resolveWrite (resolveRead v (st\<lparr>st_remoteClosed := True\<rparr>)))"
  by (simp_all add: quiet_def flags_rise_def pushData_def closeStream_def updateWindow_def Let_def)

lemma dispatch_quiet:
  assumes "dispatch ver cmd sid data s = (s', ev)"
  shows "all_quiet s s'"
proof -
  have "all_quiet s (fst (handleSyn sid data s))"
    by (simp add: all_quiet_def session_rises_def handleSyn_def Let_def nth_append)
  moreover have "all_quiet s (handlePsh sid data s)" "all_quiet s (handleFin sid s)"
    "all_quiet s (handleUpd sid data s)"
    by (auto simp: handlePsh_def handleFin_def handleUpd_def quiet_helpers split: option.split
        intro!: all_quiet_upd_obj)
  ultimately show ?thesis
    using assms by (auto simp: dispatch_def split: if_splits)
qed

lemma all_quiet_same_objs:
  "sx_objs s' = sx_objs s \<Longrightarrow> (sx_closed s \<longrightarrow> sx_closed s') \<Longrightarrow> (sx_output s \<longrightarrow> sx_output s') \<Longrightarrow>
   all_quiet s s'"
  by (simp add: all_quiet_def session_rises_def)

lemma feed_quiet: "all_quiet s (fst (feed now d s))"
proof (cases "sx_closed s")
  case False
  obtain s' ev r dr where whole:
    "drain (smux_step now) (s\<lparr>sx_buffer := []\<rparr>) (sx_buffer s @ d) = (s', ev, r, dr)"
    by (metis prod_cases4)
  have "all_quiet s s' \<and> (\<forall>e \<in> set ev. True)"
  proof (rule smux.drain_preserves [OF _ _ _ whole, where P = "all_quiet s"])
    fix t b t' evt q
    assume t: "all_quiet s t" and "smux_step now t b = Frame t' evt q"
    then obtain ver cmd sid data where "dispatch ver cmd sid data (t\<lparr>sx_lastRecvAt := now\<rparr>) = (t', evt)"
      by (auto simp: smux_step_def Let_def split: if_splits prod.splits)
    then have "all_quiet (t\<lparr>sx_lastRecvAt := now\<rparr>) t'" by (rule dispatch_quiet)
    moreover have "all_quiet t (t\<lparr>sx_lastRecvAt := now\<rparr>)" by (rule all_quiet_same_objs) simp_all
    ultimately show "all_quiet s t' \<and> (\<forall>e \<in> set evt. True)"
      using t all_quiet_trans by blast
  qed (auto simp: smux_no_resync intro!: all_quiet_same_objs)
  moreover have "all_quiet s' (s'\<lparr>sx_buffer := r\<rparr>)" by (rule all_quiet_same_objs) simp_all
  ultimately show ?thesis using whole False all_quiet_trans by (auto simp: feed_eq)
qed (simp add: feed_def)

lemma close_session_quiet: "all_quiet s (fst (close_session s))"
proof -
  have f: "all_quiet s' (fold (\<lambda>r. upd_obj r closeStream) rs s')" for rs s'
  proof (induction rs arbitrary: s')
    case (Cons r rs)
    have "all_quiet s' (upd_obj r closeStream s')"
      by (intro all_quiet_upd_obj quiet_helpers)
    then show ?case
      unfolding fold_Cons o_apply using Cons all_quiet_trans by blast
  qed simp
  let ?s1 = "s\<lparr>sx_closed := True, sx_nopTimer := False, sx_timeoutTimer := False\<rparr>"
  have "all_quiet s ?s1" by (rule all_quiet_same_objs) simp_all
  moreover note f [of ?s1 "map snd (sx_streams ?s1)"]
  moreover have "all_quiet t (t\<lparr>sx_streams := []\<rparr>)" for t by (rule all_quiet_same_objs) simp_all
  ultimately show ?thesis
    by (simp add: close_session_def Let_def) (blast intro: all_quiet_trans)
qed

lemma accountRead_quiet: "accountRead r c s = (s', ev) \<Longrightarrow> all_quiet s s'"
  by (auto simp: accountRead_def Let_def quiet_def flags_rise_def split: if_splits intro!: all_quiet_upd_obj)

lemma read_quiet: "all_quiet s (fst (read_stream r s))" "all_quiet s (fst (read_resume r s))"
proof -
  have q: "all_quiet s (upd_obj r (\<lambda>st. st\<lparr>st_readQueue := rest\<rparr>) s)"
    "all_quiet s (upd_obj r (\<lambda>st. st\<lparr>st_readWaiting := True\<rparr>) s)" for rest
    by (auto intro!: all_quiet_upd_obj simp: quiet_def flags_rise_def)
  have d: "all_quiet s (upd_obj r (\<lambda>st. st\<lparr>st_readDone := rest\<rparr>) s)" for rest
    by (auto intro!: all_quiet_upd_obj simp: quiet_def flags_rise_def)
  show "all_quiet s (fst (read_stream r s))"
    using q all_quiet_trans [OF q(1) accountRead_quiet]
    by (auto simp: read_stream_def Let_def split: list.split prod.split)
  show "all_quiet s (fst (read_resume r s))"
    using d all_quiet_trans [OF d accountRead_quiet]
    by (auto simp: read_resume_def Let_def split: list.split prod.split option.split)
qed

fun writes :: "smux_op \<Rightarrow> stream_ref \<Rightarrow> bool" where
  "writes (Write r d) q = (r = q)"
| "writes (RunTail r) q = (r = q)"
| "writes (CloseStream r f) q = (r = q)"
| "writes _ q = False"

text \<open>The three ways a turn of the write tail goes.\<close>

lemma run_tail_cases:
  assumes ok: "smux_ok s" and r: "r < length (sx_objs s)" and run: "run_tail r s = (s', ev)"
  obtains (idle) "s' = s" "ev = []" "st_writeWaiting (obj s r) \<or> st_tail (obj s r) = []"
  | (fin) rest where "\<not> st_writeWaiting (obj s r)" "st_tail (obj s r) = JClose # rest"
      "s' = removeStream (st_id (obj s r)) (upd_obj r (\<lambda>st. st\<lparr>st_closed := True, st_tail := rest\<rparr>) s)"
      "ev = sendFIN s (st_id (obj s r))"
  | (push) data off rest k wev out where "\<not> st_writeWaiting (obj s r)"
      "st_tail (obj s r) = JWrite data off # rest"
      "wrote r data off s (upd_obj r (add_written k) s) wev k"
      "write_end r data (off + k) (upd_obj r (add_written k) s) out"
      "s' = upd_obj r (\<lambda>st. case out of
          WBlocked off' \<Rightarrow> add_written k st\<lparr>st_writeWaiting := True, st_tail := JWrite data (off + k) # rest\<rparr>
        | _ \<Rightarrow> add_written k st\<lparr>st_tail := rest\<rparr>) s"
      "ev = wev @ (case out of WBlocked off' \<Rightarrow> [] | _ \<Rightarrow> [WriteEnds r (out = WDone)])"
proof -
  consider "st_writeWaiting (obj s r) \<or> st_tail (obj s r) = []"
    | rest where "\<not> st_writeWaiting (obj s r)" "st_tail (obj s r) = JClose # rest"
    | data off rest where "\<not> st_writeWaiting (obj s r)" "st_tail (obj s r) = JWrite data off # rest"
    by (cases "st_tail (obj s r)" rule: tail_ok.cases) auto
  then show thesis
  proof cases
    case 1
    then show thesis using run by (intro idle) (auto simp: run_tail_def Let_def split: if_splits)
  next
    case (2 rest)
    then show thesis using run by (intro fin) (auto simp: run_tail_def Let_def sendFIN_def sendFrame_def)
  next
    case (3 data off rest)
    have off: "off \<le> length data" using ok r 3 by (auto simp: smux_ok_def stream_ok_def)
    obtain s1 wev out where w: "writeSync r data off s = (s1, wev, out)" by (metis prod_cases3)
    obtain k where k: "wrote r data off s s1 wev k" "write_end r data (off + k) s1 out"
      using writeSync_spec [OF w off r] by blast
    have s1: "s1 = upd_obj r (add_written k) s" using k(1) by (simp add: wrote_def)
    show thesis
      using run w 3 k(2)
      by (intro push [OF 3 k [unfolded s1]])
        (auto simp: run_tail_def Let_def s1 upd_obj_twice [OF r] write_end_def split: write_outcome.splits)
  qed
qed

lemma run_tail_other:
  assumes "q \<noteq> r" "r < length (sx_objs s)" "smux_ok s" "run_tail r s = (s', ev)"
  shows "obj s' q = obj s q \<and> session_rises s s'"
  using assms(3,2,4)
proof (cases rule: run_tail_cases)
  case idle
  then show ?thesis by (simp add: session_rises_def)
qed (use assms(1) in \<open>auto simp: session_rises_def removeStream_def\<close>)

lemma exec_quiet:
  assumes "smux_ok s" "q < length (sx_objs s)" "\<not> writes op q"
  shows "session_rises s (fst (exec op s)) \<and> quiet (obj s q) (obj (fst (exec op s)) q)"
proof -
  have aq: "session_rises s s' \<and> quiet (obj s q) (obj s' q)" if "all_quiet s s'" for s'
    using that assms(2) by (auto simp: all_quiet_def)
  have tick: "all_quiet s (fst (timeout_tick now s))" for now
    using close_session_quiet [of s] by (auto simp: timeout_tick_def split: prod.split)
  have keep: "all_quiet s (startKeepalive now s)" "all_quiet s (setOutput s)" for now
    by (auto intro!: all_quiet_same_objs simp: startKeepalive_def setOutput_def)
  have w: "session_rises s (fst (write_stream r d s)) \<and> quiet (obj s q) (obj (fst (write_stream r d s)) q)"
    "session_rises s (fst (close_stream r f s)) \<and> quiet (obj s q) (obj (fst (close_stream r f s)) q)"
    if "r \<noteq> q" for r d f
    using that by (auto simp: write_stream_def close_stream_def Let_def session_rises_def removeStream_def)
  have t: "session_rises s (fst (run_tail r s)) \<and> quiet (obj s q) (obj (fst (run_tail r s)) q)"
    if "r \<noteq> q" "r < length (sx_objs s)" for r
    using run_tail_other [of q r s] that assms(1) by (cases "run_tail r s") simp
  show ?thesis
  proof (cases op)
    case (Write r d)
    then show ?thesis using w assms(3) by (simp add: exec_def session_rises_def)
  next
    case (RunTail r)
    then show ?thesis using t assms(3) by (simp add: exec_def session_rises_def)
  next
    case (CloseStream r f)
    then show ?thesis using w assms(3) by (simp add: exec_def session_rises_def)
  qed (simp_all add: exec_def aq feed_quiet keep nop_tick_def close_session_quiet tick read_quiet)
qed
end
