(* ===== verification/SmuxRuns.thy ===== *)
theory SmuxRuns
  imports SmuxCorrect
begin

text \<open>
  Runs of a SMUX session and the properties that hold of all of them: reachable states
  satisfy the invariant of \<open>SmuxCorrect\<close>, the bytes a stream sends are the bytes its writes
  gave, in order, the FIN comes last, and the flow-control window is never exceeded.
\<close>

section \<open>Runs of one stream\<close>

inductive smux_reachable :: "smux \<Rightarrow> bool" where
  init: "smux_reachable (new_smux now)"
| step: "smux_reachable s \<Longrightarrow> smux_reachable (fst (exec op s))"

lemma reachable_ok: "smux_reachable s \<Longrightarrow> smux_ok s"
  by (induction rule: smux_reachable.induct) (simp_all add: new_smux_ok exec_ok)

lemma reachable_run: "smux_reachable s \<Longrightarrow> smux_reachable (fst (run ops s))"
proof (induction ops arbitrary: s)
  case (Cons op ops)
  obtain s1 ev where e: "exec op s = (s1, ev)" by fastforce
  then have "smux_reachable (fst (run ops s1))"
    using smux_reachable.step [OF Cons.prems, of op] by (intro Cons.IH) simp
  then show ?case using e by (simp split: prod.split) (metis fst_conv)
qed simp

text \<open>What a stream still has to send, what was accepted for it, and what it sent.\<close>

fun job_rest :: "job \<Rightarrow> bytes" where
  "job_rest (JWrite d off) = drop off d"
| "job_rest JClose = []"

definition unsent :: "stream_state \<Rightarrow> bytes" where
  "unsent st = concat (map job_rest (st_tail st))"

fun accepted1 :: "stream_ref \<Rightarrow> smux_op \<times> smux_event list \<Rightarrow> bytes" where
  "accepted1 q (Write r d, ev) = (if r = q \<and> ev = [] then d else [])"
| "accepted1 q _ = []"

fun sent1 :: "stream_ref \<Rightarrow> smux_op \<times> smux_event list \<Rightarrow> bytes" where
  "sent1 q (RunTail r, ev) = (if r = q then payloads ev else [])"
| "sent1 q _ = []"

definition accepted :: "stream_ref \<Rightarrow> (smux_op \<times> smux_event list) list \<Rightarrow> bytes" where
  "accepted q tr = concat (map (accepted1 q) tr)"

definition sent :: "stream_ref \<Rightarrow> (smux_op \<times> smux_event list) list \<Rightarrow> bytes" where
  "sent q tr = concat (map (sent1 q) tr)"

definition live :: "stream_ref \<Rightarrow> smux \<Rightarrow> bool" where
  "live q s \<longleftrightarrow> \<not> sx_closed s \<and> \<not> st_closed (obj s q) \<and> \<not> st_remoteClosed (obj s q)"

lemma run_tail_self:
  assumes "smux_ok s" "r < length (sx_objs s)" "run_tail r s = (s', ev)" "sx_output s" "live r s'"
  shows "unsent (obj s r) = payloads ev @ unsent (obj s' r)"
  using assms(1-3)
proof (cases rule: run_tail_cases)
  case idle
  then show ?thesis by simp
next
  case (fin rest)
  then show ?thesis using assms(2,5) by (simp add: live_def removeStream_def)
next
  case (push data off rest k wev out)
  have open': "\<not> sx_closed s" "\<not> st_closed (obj s r)" "\<not> st_remoteClosed (obj s r)"
    using push(5) assms(2,5) by (cases out; auto simp: live_def)+
  then have "payloads ev = slice data off (off + k)"
    using push(3,6) assms(4) by (auto simp: wrote_def split: write_outcome.split)
  moreover have "off + k \<le> length data" using push(3) by (simp add: wrote_def)
  moreover have "slice data off (off + k) @ drop (off + k) data = drop off data"
    by (simp add: slice_def) (metis append_take_drop_id drop_drop add.commute)
  ultimately show ?thesis
    using push(2,4,5) assms(2) open'
    by (cases out) (auto simp: unsent_def write_end_def)
qed

lemma write_step:
  assumes ok: "smux_ok s" and r: "r < length (sx_objs s)" and ex: "exec op s = (s1, ev)"
    and out: "sx_output s" and live: "live r s1"
  shows "unsent (obj s r) @ accepted1 r (op, ev) = sent1 r (op, ev) @ unsent (obj s1 r)"
proof (cases "writes op r")
  case False
  then have "quiet (obj s r) (obj s1 r)" using exec_quiet [OF ok r False] ex by simp
  moreover have "accepted1 r (op, ev) = []" "sent1 r (op, ev) = []"
    using False by (cases op; auto)+
  ultimately show ?thesis by (simp add: quiet_def unsent_def)
next
  case True
  then consider d where "op = Write r d" | "op = RunTail r" | f where "op = CloseStream r f"
    by (cases op) auto
  then show ?thesis
  proof cases
    case 1
    then show ?thesis using ex r by (auto simp: exec_def write_stream_def unsent_def split: if_splits)
  next
    case 2
    then show ?thesis using run_tail_self [OF ok r _ out live] ex r by (simp add: exec_def)
  next
    case 3
    then show ?thesis
      using ex r live
      by (auto simp: exec_def close_stream_def unsent_def live_def removeStream_def Let_def split: if_splits)
  qed
qed

lemma live_before:
  assumes ok: "smux_ok s" and r: "r < length (sx_objs s)" and ex: "exec op s = (s1, ev)"
  shows "live r s1 \<Longrightarrow> live r s" "sx_output s \<Longrightarrow> sx_output s1"
    "length (sx_objs s) \<le> length (sx_objs s1)"
proof -
  have "session_rises s s1 \<and> flags_rise (obj s r) (obj s1 r)"
  proof (cases "writes op r")
    case False
    then show ?thesis using exec_quiet [OF ok r False] ex by (simp add: quiet_def)
  next
    case True
    then consider d where "op = Write r d" | "op = RunTail r" | f where "op = CloseStream r f"
      by (cases op) auto
    then show ?thesis
    proof cases
      case 1
      then show ?thesis using ex r
        by (auto simp: exec_def write_stream_def session_rises_def flags_rise_def split: if_splits)
    next
      case 2
      then have "run_tail r s = (s1, ev)" using ex r by (simp add: exec_def)
      with ok r show ?thesis
        by (cases rule: run_tail_cases)
          (use r in \<open>auto simp: session_rises_def flags_rise_def removeStream_def split: write_outcome.splits\<close>)
    next
      case 3
      then show ?thesis using ex r
        by (auto simp: exec_def close_stream_def session_rises_def flags_rise_def removeStream_def Let_def
            split: if_splits)
    qed
  qed
  then show "live r s1 \<Longrightarrow> live r s" "sx_output s \<Longrightarrow> sx_output s1" "length (sx_objs s) \<le> length (sx_objs s1)"
    by (auto simp: live_def session_rises_def flags_rise_def)
qed

lemma live_before_run:
  "smux_ok s \<Longrightarrow> r < length (sx_objs s) \<Longrightarrow> run ops s = (s', tr) \<Longrightarrow> live r s' \<Longrightarrow> live r s"
proof (induction ops arbitrary: s tr)
  case (Cons op ops)
  obtain s1 ev where e: "exec op s = (s1, ev)" by fastforce
  then obtain tr1 where t: "run ops s1 = (s', tr1)" using Cons.prems by (auto split: prod.splits)
  have "smux_ok s1" using exec_ok [OF Cons.prems(1), of op] e by simp
  then have "live r s1"
    using live_before [OF Cons.prems(1,2) e] Cons.prems t by (intro Cons.IH [OF _ _ t]) auto
  then show ?case using live_before [OF Cons.prems(1,2) e] by blast
qed simp

lemma write_order:
  "smux_ok s \<Longrightarrow> r < length (sx_objs s) \<Longrightarrow> sx_output s \<Longrightarrow> run ops s = (s', tr) \<Longrightarrow> live r s' \<Longrightarrow>
   unsent (obj s r) @ accepted r tr = sent r tr @ unsent (obj s' r)"
proof (induction ops arbitrary: s tr)
  case (Cons op ops)
  obtain s1 ev where e: "exec op s = (s1, ev)" by fastforce
  then obtain tr1 where t: "run ops s1 = (s', tr1)" "tr = (op, ev) # tr1"
    using Cons.prems by (auto split: prod.splits)
  note b = live_before [OF Cons.prems(1,2) e]
  have ok1: "smux_ok s1" using exec_ok [OF Cons.prems(1), of op] e by simp
  have r1: "r < length (sx_objs s1)" using b Cons.prems by simp
  have "live r s1" by (rule live_before_run [OF ok1 r1 t(1) Cons.prems(5)])
  then have "unsent (obj s r) @ accepted1 r (op, ev) = sent1 r (op, ev) @ unsent (obj s1 r)"
    using write_step [OF Cons.prems(1,2) e Cons.prems(3)] by blast
  moreover have "unsent (obj s1 r) @ accepted r tr1 = sent r tr1 @ unsent (obj s' r)"
    using ok1 r1 b(2) [OF Cons.prems(3)] t(1) Cons.prems(5) by (rule Cons.IH)
  ultimately show ?case by (simp add: t(2) accepted_def sent_def) (metis append.assoc)
qed (simp add: accepted_def sent_def)

lemma run_rises:
  "smux_ok s \<Longrightarrow> r < length (sx_objs s) \<Longrightarrow> run ops s = (s', tr) \<Longrightarrow>
   length (sx_objs s) \<le> length (sx_objs s') \<and> (sx_output s \<longrightarrow> sx_output s')"
proof (induction ops arbitrary: s tr)
  case (Cons op ops)
  obtain s1 ev where e: "exec op s = (s1, ev)" by fastforce
  then obtain tr1 where t: "run ops s1 = (s', tr1)" using Cons.prems by (auto split: prod.splits)
  have "smux_ok s1" using exec_ok [OF Cons.prems(1), of op] e by simp
  moreover note b = live_before(2,3) [OF Cons.prems(1,2) e]
  ultimately have "length (sx_objs s1) \<le> length (sx_objs s') \<and> (sx_output s1 \<longrightarrow> sx_output s')"
    using Cons.prems(2) t by (intro Cons.IH) auto
  then show ?case using b by auto
qed simp

text \<open>
  Without a live stream nothing is sent, so what a stream sent is always a first part of what it
  had to send.
\<close>

lemma payloads_fin [simp]: "payloads (sendFIN s sid) = []"
  by (simp add: sendFIN_def payloads_sendFrame smux_cmds)

lemma run_tail_dead:
  assumes "smux_ok s" "r < length (sx_objs s)" "run_tail r s = (s', ev)" "\<not> live r s"
  shows "payloads ev = []"
  using assms(1-3)
proof (cases rule: run_tail_cases)
  case (push data off rest k wev out)
  show ?thesis
  proof (cases "sx_closed s")
    case True
    then have "payloads wev = []" using push(3) by (simp add: wrote_def)
    then show ?thesis using push(6) by (cases out) simp_all
  next
    case False
    then have "st_closed (obj s r) \<or> st_remoteClosed (obj s r)" using assms(4) by (simp add: live_def)
    then have "writeSync r data off s = (s, [], WFailed)" by (subst writeSync.simps) (simp add: Let_def)
    then show ?thesis using assms(3) push(1,2) by (auto simp: run_tail_def)
  qed
qed simp_all

lemma run_tail_prefix:
  assumes "smux_ok s" "r < length (sx_objs s)" "run_tail r s = (s', ev)"
  shows "\<exists>lost. unsent (obj s r) = payloads ev @ lost"
  using assms
proof (cases rule: run_tail_cases)
  case (push data off rest k wev out)
  have p: "payloads ev = payloads wev" using push(6) by (cases out) simp_all
  have u: "unsent (obj s r) = drop off data @ concat (map job_rest rest)" by (simp add: unsent_def push(2))
  have "drop off data = slice data off (off + k) @ drop (off + k) data" if "off + k \<le> length data"
    using that by (simp add: slice_def) (metis append_take_drop_id drop_drop add.commute)
  then show ?thesis using push(3) unfolding p u by (auto simp: wrote_def)
qed simp_all

lemma dead_silent:
  "smux_ok s \<Longrightarrow> r < length (sx_objs s) \<Longrightarrow> run ops s = (s', tr) \<Longrightarrow> \<not> live r s \<Longrightarrow> sent r tr = []"
proof (induction ops arbitrary: s tr)
  case (Cons op ops)
  obtain s1 ev where e: "exec op s = (s1, ev)" by fastforce
  then obtain tr1 where t: "run ops s1 = (s', tr1)" "tr = (op, ev) # tr1"
    using Cons.prems by (auto split: prod.splits)
  have "smux_ok s1" using exec_ok [OF Cons.prems(1), of op] e by simp
  moreover have "r < length (sx_objs s1)" "\<not> live r s1" using live_before [OF Cons.prems(1,2) e] Cons.prems(2,4) by auto
  ultimately have "sent r tr1 = []" using t(1) by (intro Cons.IH)
  moreover have "sent1 r (op, ev) = []"
    using run_tail_dead [OF Cons.prems(1,2)] Cons.prems(2,4) e by (cases op) (auto simp: exec_def)
  ultimately show ?case by (simp add: t(2) sent_def)
qed (simp add: sent_def)

lemma sent_prefix:
  "smux_ok s \<Longrightarrow> r < length (sx_objs s) \<Longrightarrow> sx_output s \<Longrightarrow> run ops s = (s', tr) \<Longrightarrow>
   \<exists>lost. unsent (obj s r) @ accepted r tr = sent r tr @ lost"
proof (induction ops arbitrary: s tr)
  case (Cons op ops)
  obtain s1 ev where e: "exec op s = (s1, ev)" by fastforce
  then obtain tr1 where t: "run ops s1 = (s', tr1)" "tr = (op, ev) # tr1"
    using Cons.prems by (auto split: prod.splits)
  note b = live_before [OF Cons.prems(1,2) e]
  have ok1: "smux_ok s1" using exec_ok [OF Cons.prems(1), of op] e by simp
  have r1: "r < length (sx_objs s1)" using b Cons.prems by simp
  show ?case
  proof (cases "live r s1")
    case True
    have "unsent (obj s r) @ accepted1 r (op, ev) = sent1 r (op, ev) @ unsent (obj s1 r)"
      using write_step [OF Cons.prems(1,2) e Cons.prems(3) True] .
    moreover obtain lost where "unsent (obj s1 r) @ accepted r tr1 = sent r tr1 @ lost"
      using Cons.IH [OF ok1 r1 b(2) [OF Cons.prems(3)] t(1)] by blast
    ultimately have "unsent (obj s r) @ accepted r tr = sent r tr @ lost"
      by (simp add: t(2) accepted_def sent_def) (metis append.assoc)
    then show ?thesis ..
  next
    case False
    have "sent r tr = sent1 r (op, ev)" using dead_silent [OF ok1 r1 t(1) False] by (simp add: t(2) sent_def)
    moreover have "\<exists>lost. unsent (obj s r) = sent1 r (op, ev) @ lost"
      using run_tail_prefix [OF Cons.prems(1,2)] Cons.prems(2) e by (cases op) (auto simp: exec_def)
    ultimately show ?thesis by auto
  qed
qed (simp add: sent_def)

section \<open>Properties\<close>

text \<open>A session with one stream, opened by the peer under the identifier 1.\<close>

definition demo_smux :: smux where
  "demo_smux = fst (run [SetOutput, Feed 0 (smux_frame CMD_SYN 1 [])] (new_smux 0))"

lemma demo_smux_eq:
  "demo_smux = \<lparr>sx_streams = [(1, 0)], sx_objs = [new_stream_state 1], sx_buffer = [], sx_closed = False,
     sx_output = True, sx_nopTimer = False, sx_timeoutTimer = False, sx_lastRecvAt = 0\<rparr>"
  using drain_frames [of "[(CMD_SYN, 1, [])]" 0 "setOutput (new_smux 0)"]
  by (simp add: demo_smux_def exec_def feed_eq setOutput_def new_smux_def frame_fits_def dispatch_def
      handleSyn_def Let_def)

lemma demo_smux_reachable: "smux_reachable demo_smux"
  unfolding demo_smux_def by (rule reachable_run) (rule smux_reachable.init)

text \<open>The same stream with a write and a graceful close queued.\<close>

definition demo_written :: smux where
  "demo_written = fst (run [Write 0 [65, 66], CloseStream 0 False] demo_smux)"

lemma demo_written_eq:
  "run [Write 0 [65, 66], CloseStream 0 False] demo_smux =
     (demo_smux\<lparr>sx_objs := [new_stream_state 1\<lparr>st_closing := True, st_tail := [JWrite [65, 66] 0, JClose]\<rparr>]\<rparr>,
      [(Write 0 [65, 66], []), (CloseStream 0 False, [])])"
  by (simp add: demo_smux_eq exec_def write_stream_def stream_closed_def new_stream_state_def upd_obj_def
      close_stream_def resolveRead_def resolveWrite_def)

lemma demo_written_facts:
  "smux_reachable demo_written" "sx_objs demo_written =
     [new_stream_state 1\<lparr>st_closing := True, st_tail := [JWrite [65, 66] 0, JClose]\<rparr>]"
  "sx_output demo_written" "\<not> sx_closed demo_written"
proof -
  show "smux_reachable demo_written"
    unfolding demo_written_def by (rule reachable_run) (rule demo_smux_reachable)
qed (simp_all only: demo_written_def demo_written_eq fst_conv, simp_all add: demo_smux_eq)

lemma demo_tail:
  "run_tail 0 demo_written =
     (demo_written\<lparr>sx_objs := [new_stream_state 1\<lparr>st_closing := True, st_numWritten := 2, st_tail := [JClose]\<rparr>]\<rparr>,
      [Output [2, 2, 2, 0, 1, 0, 0, 0, 65, 66], WriteEnds 0 True])"
proof -
  have "sx_objs demo_written =
     [new_stream_state 1\<lparr>st_closing := True, st_tail := [JWrite [65, 66] 0, JClose]\<rparr>]"
     "sx_output demo_written" "\<not> sx_closed demo_written" by (fact demo_written_facts)+
  then have w: "writeSync 0 [65, 66] 0 demo_written =
     (upd_obj 0 (add_written 2) demo_written, [Output [2, 2, 2, 0, 1, 0, 0, 0, 65, 66]], WDone)"
    by (subst writeSync.simps, subst writeSync.simps)
      (simp add: new_stream_state_def writeWin_def chunk_len_def INITIAL_PEER_WINDOW_def MAX_FRAME_SIZE_def
        upd_obj_def sendPSH_def sendFrame_def smux_frame_def slice_def put_u16_le_def put_u32_le_def
        SMUX_VERSION_def smux_cmds)
  then show ?thesis
    by (simp add: run_tail_def demo_written_facts new_stream_state_def upd_obj_def)
qed

lemma demo_full_run:
  "run [Write 0 [65, 66], CloseStream 0 False, RunTail 0] demo_smux =
     (demo_written\<lparr>sx_objs := [new_stream_state 1\<lparr>st_closing := True, st_numWritten := 2, st_tail := [JClose]\<rparr>]\<rparr>,
      [(Write 0 [65, 66], []), (CloseStream 0 False, []),
       (RunTail 0, [Output [2, 2, 2, 0, 1, 0, 0, 0, 65, 66], WriteEnds 0 True])])"
proof -
  have app: "run (xs @ ys) s = (let (s1, t1) = run xs s; (s2, t2) = run ys s1 in (s2, t1 @ t2))" for xs ys s
    by (induction xs arbitrary: s) (auto split: prod.splits)
  have "exec (RunTail 0) demo_written = run_tail 0 demo_written"
    by (simp add: exec_def demo_written_facts)
  moreover have "run [Write 0 [65, 66], CloseStream 0 False] demo_smux
      = (demo_written, [(Write 0 [65, 66], []), (CloseStream 0 False, [])])"
    unfolding demo_written_def demo_written_eq by simp
  ultimately show ?thesis
    using app [of "[Write 0 [65, 66], CloseStream 0 False]" "[RunTail 0]" demo_smux] demo_tail by simp
qed

text \<open>
  C30. The cut of the incoming bytes into transport messages does not matter: feeding the
  pieces one by one leaves the session in the same state, with the same events in the same
  order, as feeding them at once.
\<close>

theorem smux_chunk_independence:
  assumes "cs \<noteq> []"
  shows "feed_all now cs s = feed now (concat cs) s"
  using assms by (rule feed_all_concat)

theorem smux_chunk_independence_witness:
  "feed_all 5 [[2], [3, 0, 0, 0], [0, 0, 0]] demo_smux
     = (demo_smux\<lparr>sx_lastRecvAt := 5\<rparr>, [Output [2, 3, 0, 0, 0, 0, 0, 0]])"
proof -
  have "smux_frame CMD_NOP 0 [] = [2, 3, 0, 0, 0, 0, 0, 0]"
    by (simp add: smux_frame_def smux_cmds SMUX_VERSION_def put_u16_le_def put_u32_le_def)
  then have "feed 5 (concat [[2], [3, 0, 0, 0], [0, 0, 0]]) demo_smux
     = (demo_smux\<lparr>sx_lastRecvAt := 5\<rparr>, [Output [2, 3, 0, 0, 0, 0, 0, 0]])"
    using drain_frames [of "[(CMD_NOP, 0, [])]" 5 demo_smux]
    by (simp add: demo_smux_eq feed_eq frame_fits_def dispatch_def sendFrame_def smux_cmds)
  then show ?thesis
    using smux_chunk_independence [of "[[2], [3, 0, 0, 0], [0, 0, 0]]" 5 demo_smux] by simp
qed

text \<open>
  C32. Frames survive the wire: a session that is fed the encodings of a list of frames, one
  after another, dispatches exactly these frames in order and keeps no byte back.
\<close>

theorem smux_frames_roundtrip:
  assumes "\<forall>f \<in> set fs. frame_fits f" "\<not> sx_closed s" "sx_buffer s = []"
  shows "feed now (concat (map (\<lambda>(c, i, d). smux_frame c i d) fs)) s = dispatch_all now fs s"
proof -
  have eq: "s\<lparr>sx_buffer := []\<rparr> = s" using assms(3) by (cases s) simp
  obtain s' ev where d: "dispatch_all now fs s = (s', ev)" by fastforce
  then have drain: "drain (smux_step now) s (concat (map (\<lambda>(c, i, d). smux_frame c i d) fs))
      = (s', ev, [], False)"
    using drain_frames [OF assms(1), of now s] by simp
  have eq': "s'\<lparr>sx_buffer := []\<rparr> = s'"
    using smux_drain_frame(1) [OF drain] assms(3) by (cases s') simp
  show ?thesis unfolding feed_eq [OF assms(2)] by (simp add: assms(3) eq drain eq' d)
qed

theorem smux_frames_roundtrip_witness:
  "feed 3 (smux_frame CMD_PSH 1 [7, 8] @ smux_frame CMD_FIN 1 []) demo_smux
     = dispatch_all 3 [(CMD_PSH, 1, [7, 8]), (CMD_FIN, 1, [])] demo_smux"
  using smux_frames_roundtrip [of "[(CMD_PSH, 1, [7, 8]), (CMD_FIN, 1, [])]" demo_smux 3]
  by (simp add: frame_fits_def demo_smux_eq)

text \<open>
  C6. Flow control: whenever a stream sends data, every data frame carries between 1 and
  32768 bytes, and what is sent and not yet reported as consumed stays within the window the
  peer granted.
\<close>

theorem smux_flow_control:
  assumes "smux_reachable s" "r < length (sx_objs s)" "run_tail r s = (s', ev)"
    and "Output b \<in> set ev" "b ! 1 = CMD_PSH"
  shows "int (st_numWritten (obj s' r)) - int (st_peerConsumed (obj s' r)) \<le> int (st_peerWindow (obj s' r))
    \<and> st_numWritten (obj s' r) = st_numWritten (obj s r) + length (payloads ev)
    \<and> 8 < length b \<and> length b \<le> 8 + MAX_FRAME_SIZE"
  using reachable_ok [OF assms(1)] assms(2,3)
proof (cases rule: run_tail_cases)
  case (fin rest)
  then have "b ! 1 = CMD_FIN"
    using assms(4) by (auto simp: sendFIN_def sendFrame_def smux_frame_def split: if_splits)
  with assms(5) show ?thesis by (simp add: smux_cmds)
next
  case (push data off rest k wev out)
  have "Output b \<in> set wev"
    using assms(4) push(6) by (auto split: write_outcome.splits)
  then obtain d where d: "b = smux_frame CMD_PSH (st_id (obj s r)) d" "0 < length d" "length d \<le> MAX_FRAME_SIZE"
    using push(3) by (force simp: wrote_def)
  have pay: "payloads ev = payloads wev" using push(6) by (simp split: write_outcome.split)
  have "payloads wev \<noteq> []"
    using \<open>Output b \<in> set wev\<close> d by (force simp: payloads_def)
  then have "payloads wev = slice data off (off + k)" "off + k \<le> length data" "0 < k" "int k \<le> writeWin (obj s r)"
    using push(3) by (auto simp: wrote_def slice_def split: if_splits)
  then show ?thesis
    using d pay push(5) assms(2) by (auto simp: writeWin_def split: write_outcome.split)
qed (use assms(4) in simp)

theorem smux_flow_control_witness:
  "\<exists>s. smux_reachable s \<and> int (st_numWritten (obj (fst (run_tail 0 s)) 0)) \<le> 262144
     \<and> st_numWritten (obj (fst (run_tail 0 s)) 0) = 2"
  using smux_flow_control [OF demo_written_facts(1) _ demo_tail, of "[2, 2, 2, 0, 1, 0, 0, 0, 65, 66]"]
    demo_written_facts
  by (auto intro!: exI [of _ demo_written] simp: demo_tail smux_cmds new_stream_state_def INITIAL_PEER_WINDOW_def)

text \<open>
  C26. No lost wake-up: a write waits for the window only while the stream is open, some of
  its bytes are unsent and the window is exhausted. Whenever the window is open and jobs are
  queued, the next turn of the write tail ends a job or sends at least one byte.
\<close>

theorem smux_write_progress:
  assumes "smux_reachable s" "r < length (sx_objs s)" "run_tail r s = (s', ev)"
    and "st_tail (obj s r) \<noteq> []" "0 < writeWin (obj s r)"
  shows "length (st_tail (obj s' r)) < length (st_tail (obj s r))
    \<or> length (unsent (obj s' r)) < length (unsent (obj s r))"
proof -
  have nw: "\<not> st_writeWaiting (obj s r)"
    using reachable_ok [OF assms(1)] assms(2,5) by (auto simp: smux_ok_def stream_ok_def write_blocked_def)
  from reachable_ok [OF assms(1)] assms(2,3) show ?thesis
  proof (cases rule: run_tail_cases)
    case idle
    with assms(4) nw show ?thesis by simp
  next
    case (fin rest)
    then show ?thesis using assms(2) by (simp add: removeStream_def)
  next
    case (push data off rest k wev out)
    show ?thesis
    proof (cases out)
      case (WBlocked o')
      then have "0 < k"
        using push(4) assms(2,5) by (cases k) (auto simp: write_end_def writeWin_def)
      then show ?thesis
        using push(2,4,5) assms(2) WBlocked by (auto simp: unsent_def write_end_def)
    qed (use push assms(2) in auto)
  qed
qed

theorem smux_write_progress_witness:
  "length (st_tail (obj (fst (run_tail 0 demo_written)) 0)) < length (st_tail (obj demo_written 0))
   \<or> length (unsent (obj (fst (run_tail 0 demo_written)) 0)) < length (unsent (obj demo_written 0))"
  using smux_write_progress [OF demo_written_facts(1) _ demo_tail] demo_written_facts
  by (simp add: demo_tail new_stream_state_def writeWin_def INITIAL_PEER_WINDOW_def)

text \<open>
  C1. Writes arrive whole and in order: over any run of a live stream, however reads, other
  streams, window updates and the turns of the tail interleave, the data frames sent,
  followed by what is still queued, are exactly the bytes the accepted writes gave, in the
  order of the calls.
\<close>

theorem smux_write_order:
  assumes "smux_reachable s" "r < length (sx_objs s)" "sx_output s" "st_tail (obj s r) = []"
    and "run ops s = (s', tr)" "live r s'"
  shows "accepted r tr = sent r tr @ unsent (obj s' r)"
  using write_order [OF reachable_ok [OF assms(1)] assms(2,3,5,6)] assms(4) by (simp add: unsent_def)

theorem smux_write_order_witness:
  "accepted 0 (snd (run [Write 0 [65, 66], CloseStream 0 False, RunTail 0] demo_smux)) = [65, 66]
   \<and> sent 0 (snd (run [Write 0 [65, 66], CloseStream 0 False, RunTail 0] demo_smux)) = [65, 66]"
proof -
  have "live 0 (fst (run [Write 0 [65, 66], CloseStream 0 False, RunTail 0] demo_smux))"
    by (simp add: demo_full_run live_def demo_written_facts new_stream_state_def del: run.simps)
  moreover have "0 < length (sx_objs demo_smux)" "sx_output demo_smux" "st_tail (obj demo_smux 0) = []"
    by (simp_all add: demo_smux_eq new_stream_state_def)
  ultimately have "accepted 0 (snd (run [Write 0 [65, 66], CloseStream 0 False, RunTail 0] demo_smux))
      = sent 0 (snd (run [Write 0 [65, 66], CloseStream 0 False, RunTail 0] demo_smux)) @ []"
    using smux_write_order [OF demo_smux_reachable, of 0 "[Write 0 [65, 66], CloseStream 0 False, RunTail 0]"]
    by (simp add: demo_full_run unsent_def new_stream_state_def del: run.simps)
  then show ?thesis by (simp add: demo_full_run accepted_def del: run.simps)
qed

text \<open>
  C10. The FIN of a graceful close comes after all data: when the close reaches the head of the
  write tail of an open stream, its turn sends the FIN frame, closes the stream and removes it
  from the session; no write is queued any more, and the stream never sends data after it. What
  was sent by then is every accepted byte in order, unless the peer had sent its own FIN: then
  the writes that were still queued have failed and what was sent is a first part of the bytes.
\<close>

theorem smux_fin_after_data:
  assumes "smux_reachable s" "r < length (sx_objs s)" "sx_output s" "st_tail (obj s r) = []"
    and "run ops s = (s', tr)" "\<not> sx_closed s'" "\<not> st_closed (obj s' r)" "st_tail (obj s' r) = JClose # rest"
    and "run_tail r s' = (s'', ev)" "run later s'' = (t, tr_later)"
  shows "ev = [Output (smux_frame CMD_FIN (st_id (obj s' r)) [])]
    \<and> st_closed (obj s'' r) \<and> jget (sx_streams s'') (st_id (obj s' r)) = None
    \<and> unsent (obj s' r) = [] \<and> sent r tr_later = []
    \<and> (\<exists>lost. accepted r tr = sent r tr @ lost \<and> (st_remoteClosed (obj s' r) \<or> lost = []))"
proof -
  have oks: "smux_ok s" by (rule reachable_ok [OF assms(1)])
  have ok: "smux_ok s'" using run_ok [OF oks, of ops] assms(5) by simp
  have rise: "r < length (sx_objs s')" "sx_output s'" using run_rises [OF oks assms(2,5)] assms(2,3) by auto
  have st: "stream_ok (obj s' r)" using ok rise by (simp add: smux_ok_def)
  then have "\<forall>j \<in> set rest. j = JClose" using assms(8) by (simp add: stream_ok_def)
  then have u: "unsent (obj s' r) = []" by (auto simp: unsent_def assms(8))
  have "\<not> st_writeWaiting (obj s' r)" using st by (auto simp: stream_ok_def write_blocked_def assms(8))
  then have turn: "ev = [Output (smux_frame CMD_FIN (st_id (obj s' r)) [])] \<and> st_closed (obj s'' r)
    \<and> jget (sx_streams s'') (st_id (obj s' r)) = None \<and> length (sx_objs s'') = length (sx_objs s')"
    using assms(6-9) rise by (auto simp: run_tail_def Let_def sendFIN_def sendFrame_def removeStream_def delete_conv)
  have "exec (RunTail r) s' = (s'', ev)" using assms(9) rise(1) by (simp add: exec_def)
  then have "smux_ok s''" using exec_ok [OF ok, of "RunTail r"] by simp
  moreover have "\<not> live r s''" using turn by (simp add: live_def)
  ultimately have later: "sent r tr_later = []" using dead_silent assms(10) turn rise(1) by metis
  have e: "unsent (obj s r) = []" by (simp add: unsent_def assms(4))
  have "\<exists>lost. accepted r tr = sent r tr @ lost" using sent_prefix [OF oks assms(2,3,5)] by (simp add: e)
  moreover have "accepted r tr = sent r tr" if "\<not> st_remoteClosed (obj s' r)"
    using write_order [OF oks assms(2,3,5)] assms(6,7) that by (simp add: live_def e u)
  ultimately show ?thesis using turn u later by (metis append_Nil2)
qed

theorem smux_fin_after_data_witness:
  "snd (run_tail 0 (fst (run [Write 0 [65, 66], CloseStream 0 False, RunTail 0] demo_smux)))
     = [Output (smux_frame CMD_FIN 1 [])]"
proof -
  let ?s = "fst (run [Write 0 [65, 66], CloseStream 0 False, RunTail 0] demo_smux)"
  have "\<not> sx_closed ?s" "\<not> st_closed (obj ?s 0)" "st_tail (obj ?s 0) = [JClose]" "st_id (obj ?s 0) = 1"
    by (simp_all add: demo_full_run demo_written_facts new_stream_state_def del: run.simps)
  moreover have "0 < length (sx_objs demo_smux)" "sx_output demo_smux" "st_tail (obj demo_smux 0) = []"
    by (simp_all add: demo_smux_eq new_stream_state_def)
  ultimately show ?thesis
    using smux_fin_after_data [OF demo_smux_reachable, of 0 "[Write 0 [65, 66], CloseStream 0 False, RunTail 0]"
        ?s "snd (run [Write 0 [65, 66], CloseStream 0 False, RunTail 0] demo_smux)" "[]" "fst (run_tail 0 ?s)" "snd (run_tail 0 ?s)"
        "[]" "fst (run_tail 0 ?s)" "[]"] by (simp del: run.simps add: run.simps(1))
qed

text \<open>
  The life of a stream is bounded: the sender counts the bytes of a stream without bound,
  but the peer's report of what it has consumed is a 32-bit field. In every reachable state a
  stream has sent at most 8589934590 bytes, so a longer transfer never completes.
\<close>

theorem smux_lifetime_bound:
  assumes "smux_reachable s" "r < length (sx_objs s)"
  shows "st_numWritten (obj s r) \<le> 8589934590"
  using reachable_ok [OF assms(1)] assms(2) by (simp add: smux_ok_def stream_ok_def)

theorem smux_lifetime_bound_witness: "st_numWritten (obj demo_smux 0) \<le> 8589934590"
  by (rule smux_lifetime_bound [OF demo_smux_reachable]) (simp add: demo_smux_eq)

text \<open>
  Credit is never withheld for long: in every reachable state a stream has reported all
  but less than half of its receive buffer of what its reader took.
\<close>

theorem smux_credit_bound:
  assumes "smux_reachable s" "r < length (sx_objs s)"
  shows "st_updIncr (obj s r) < MAX_STREAM_BUFFER div 2 \<and> st_updIncr (obj s r) \<le> st_numRead (obj s r)"
  using reachable_ok [OF assms(1)] assms(2)
  by (simp add: smux_ok_def stream_ok_def UPD_THRESHOLD_def MAX_STREAM_BUFFER_def)

theorem smux_credit_bound_witness:
  "st_updIncr (obj demo_smux 0) < MAX_STREAM_BUFFER div 2 \<and> st_updIncr (obj demo_smux 0) \<le> st_numRead (obj demo_smux 0)"
  by (rule smux_credit_bound [OF demo_smux_reachable]) (simp add: demo_smux_eq)

text \<open>
  A closed session is silent and stays closed: no operation, late timer tick or
  unfinished write puts a frame on the transport.
\<close>

theorem smux_closed_silent:
  assumes "smux_reachable s" "sx_closed s" "exec op s = (s', ev)"
  shows "sx_closed s' \<and> (\<forall>b. Output b \<notin> set ev)"
proof -
  have tail: "sx_closed s' \<and> (\<forall>b. Output b \<notin> set ev)"
    if "r < length (sx_objs s)" "run_tail r s = (s', ev)" for r
    using reachable_ok [OF assms(1)] that
  proof (cases rule: run_tail_cases)
    case (push data off rest k wev out)
    then have "payloads wev = []" using assms(2) by (simp add: wrote_def)
    moreover have "\<forall>e \<in> set wev. psh_payload e \<noteq> []"
      using push(3) by (auto simp: wrote_def)
    ultimately have "wev = []" by (cases wev) auto
    then show ?thesis using push(5,6) assms(2) by (auto split: write_outcome.split)
  qed (use assms(2) in \<open>auto simp: sendFIN_def sendFrame_def removeStream_def\<close>)
  have acc: "sx_closed t' \<and> evs = []" if "accountRead r c t = (t', evs)" "sx_closed t" for r c t t' evs
    using that by (auto simp: accountRead_def sendUPD_def sendFrame_def Let_def split: if_splits)
  show ?thesis
  proof (cases op)
    case (RunTail r)
    then show ?thesis using tail assms by (auto simp: exec_def split: if_splits)
  next
    case (Read r)
    then show ?thesis using assms
      by (auto simp: exec_def read_stream_def Let_def split: if_splits list.splits prod.splits dest!: acc)
  next
    case (ReadResume r)
    then show ?thesis using assms
      by (auto simp: exec_def read_resume_def Let_def split: if_splits list.splits prod.splits option.splits dest!: acc)
  next
    case (CloseStream r f)
    then show ?thesis using assms
      by (auto simp: exec_def close_stream_def Let_def sendFIN_def sendFrame_def removeStream_def split: if_splits)
  qed (use assms in \<open>auto simp: exec_def feed_def setOutput_def close_session_def startKeepalive_def
      nop_tick_def sendFrame_def timeout_tick_def write_stream_def split: if_splits\<close>)
qed

theorem smux_closed_silent_witness:
  "Output (smux_frame CMD_NOP 0 []) \<notin> set (snd (exec NopTick (fst (exec CloseSession (fst (exec (StartKeepalive 0) demo_smux))))))"
proof -
  let ?s = "fst (exec CloseSession (fst (exec (StartKeepalive 0) demo_smux)))"
  have "smux_reachable ?s" by (intro smux_reachable.step demo_smux_reachable)
  moreover have "sx_closed ?s" by (simp add: exec_def close_session_def startKeepalive_def demo_smux_eq Let_def)
  ultimately show ?thesis using smux_closed_silent [of ?s NopTick "fst (exec NopTick ?s)" "snd (exec NopTick ?s)"] by simp
qed

end
