(* ===== verification/WsCodec.thy ===== *)
theory WsCodec
  imports Framing Utf8
begin

text \<open>
  The WebSocket frame codec, \<open>extension/lib/ws-codec.js\<close>: base64 and the handshake token,
  the decoder of masked or plain frames with reassembly of fragmented messages, and the
  frame encoder. SHA-1 is the browser's (\<open>crypto.subtle\<close>), a parameter of \<open>wsAccept\<close>; the
  mask is drawn from \<open>crypto.getRandomValues\<close>, an argument of the encoder.
\<close>

section \<open>Constants\<close>

definition OP_CONT :: byte where "OP_CONT = 0"
definition OP_TEXT :: byte where "OP_TEXT = 1"
definition OP_BINARY :: byte where "OP_BINARY = 2"
definition OP_CLOSE :: byte where "OP_CLOSE = 8"
definition OP_PING :: byte where "OP_PING = 9"
definition OP_PONG :: byte where "OP_PONG = 10"

lemmas ws_ops = OP_CONT_def OP_TEXT_def OP_BINARY_def OP_CLOSE_def OP_PING_def OP_PONG_def

definition WS_GUID :: jstr where
  "WS_GUID = js ''258EAFA5-E914-47DA-95CA-C5AB0DC85B11''"

definition B64 :: jstr where
  "B64 = js ''ABCDEFGHIJKLMNOPQRSTUVWXYZabcdefghijklmnopqrstuvwxyz0123456789+/''"

section \<open>Base64\<close>

fun base64 :: "bytes \<Rightarrow> jstr" where
  "base64 [] = []"
| "base64 [b0] =
     [B64 ! unat (drop_bit 2 b0), B64 ! unat (push_bit 4 (b0 AND 3)), cu CHR ''='', cu CHR ''='']"
| "base64 [b0, b1] =
     [B64 ! unat (drop_bit 2 b0), B64 ! unat (push_bit 4 (b0 AND 3) OR drop_bit 4 b1),
      B64 ! unat (push_bit 2 (b1 AND 15)), cu CHR ''='']"
| "base64 (b0 # b1 # b2 # bs) =
     [B64 ! unat (drop_bit 2 b0), B64 ! unat (push_bit 4 (b0 AND 3) OR drop_bit 4 b1),
      B64 ! unat (push_bit 2 (b1 AND 15) OR drop_bit 6 b2), B64 ! unat (b2 AND 63)] @ base64 bs"

definition wsAccept :: "(bytes \<Rightarrow> bytes) \<Rightarrow> jstr \<Rightarrow> jstr" where
  "wsAccept sha1 key = base64 (sha1 (text_encode (key @ WS_GUID)))"

section \<open>Decoder\<close>

datatype ws_event =
    WsData byte bytes
  | WsClose bytes
  | WsPing bytes
  | WsPong bytes

text \<open>The message being reassembled: its opcode and the payload so far (\<open>_frag\<close>).\<close>

type_synonym ws_frag = "(byte \<times> bytes) option"

text \<open>Payload length and header length; the length field may need more bytes, or be too big.\<close>

datatype ws_length = NeedMore | TooLong | Len nat nat

definition ws_length_of :: "bytes \<Rightarrow> ws_length" where
  "ws_length_of b =
     (let len7 = unat (b ! 1 AND 127) in
      if len7 < 126 then Len len7 2
      else if len7 = 126 then (if length b < 4 then NeedMore else Len (get_u16_be b 2) 4)
      else if length b < 10 then NeedMore
      else if b ! 2 \<noteq> 0 \<or> b ! 3 \<noteq> 0 \<or> b ! 4 \<noteq> 0 \<or> b ! 5 \<noteq> 0 then TooLong
      else Len (get_u16_be b 6 * 65536 + get_u16_be b 8) 10)"

definition demask :: "bytes \<Rightarrow> bytes \<Rightarrow> bytes" where
  "demask key payload = map (\<lambda>i. payload ! i XOR key ! (i mod 4)) [0..<length payload]"

text \<open>A frame's meaning: the fragment state after it, and its event if it completes one.\<close>

definition ws_frame_event :: "bool \<Rightarrow> byte \<Rightarrow> bytes \<Rightarrow> ws_frag \<Rightarrow> ws_frag \<times> ws_event list" where
  "ws_frame_event fin opcode payload frag =
     (if opcode = OP_TEXT \<or> opcode = OP_BINARY then
        (if fin then (frag, [WsData opcode payload]) else (Some (opcode, payload), []))
      else if opcode = OP_CONT then
        (case frag of
           None \<Rightarrow> (None, [WsClose []])
         | Some (op, sofar) \<Rightarrow>
             if fin then (None, [WsData op (sofar @ payload)])
             else (Some (op, sofar @ payload), []))
      else if opcode = OP_CLOSE then (frag, [WsClose payload])
      else if opcode = OP_PING then (frag, [WsPing payload])
      else if opcode = OP_PONG then (frag, [WsPong payload])
      else (frag, [WsClose []]))"

definition parseOne :: "ws_frag \<Rightarrow> bytes \<Rightarrow> (ws_frag, ws_event) outcome" where
  "parseOne frag b =
     (if length b < 2 then Wait
      else let b0 = b ! 0; b1 = b ! 1;
               fin = (b0 AND 128 \<noteq> 0); opcode = b0 AND 15; masked = (b1 AND 128 \<noteq> 0) in
        case ws_length_of b of
          NeedMore \<Rightarrow> Wait
        | TooLong \<Rightarrow> Resync frag [WsClose []]
        | Len len off0 \<Rightarrow>
            if masked \<and> length b < off0 + 4 then Wait
            else let off = (if masked then off0 + 4 else off0) in
              if length b < off + len then Wait
              else let raw = slice b off (off + len);
                       payload = (if masked then demask (slice b off0 (off0 + 4)) raw else raw);
                       (frag', ev) = ws_frame_event fin opcode payload frag
                in Frame frag' ev (drop (off + len) b))"

record ws_decoder =
  wd_buf :: bytes
  wd_frag :: ws_frag

definition new_WsDecoder :: ws_decoder where
  "new_WsDecoder = \<lparr>wd_buf = [], wd_frag = None\<rparr>"

definition ws_push :: "bytes \<Rightarrow> ws_decoder \<Rightarrow> ws_decoder" where
  "ws_push data d = d\<lparr>wd_buf := wd_buf d @ data\<rparr>"

definition ws_parse :: "ws_decoder \<Rightarrow> ws_decoder \<times> ws_event list" where
  "ws_parse d =
     (let (frag, ev, rest, _) = drain parseOne (wd_frag d) (wd_buf d)
      in (\<lparr>wd_buf = rest, wd_frag = frag\<rparr>, ev))"

section \<open>Encoder\<close>

definition ws_length_bytes :: "nat \<Rightarrow> bool \<Rightarrow> bytes" where
  "ws_length_bytes len masked =
     (let m = (if masked then 128 else 0) in
      if len < 126 then [m OR of_nat len]
      else if len < 65536 then [m OR 126] @ put_u16_be len
      else [m OR 127, 0, 0, 0, 0] @ put_u16_be (len div 65536) @ put_u16_be len)"

definition ws_header :: "byte \<Rightarrow> nat \<Rightarrow> bool \<Rightarrow> bytes" where
  "ws_header opcode len masked = (128 OR opcode) # ws_length_bytes len masked"

text \<open>\<open>None\<close> sends the payload as it is; \<open>Some\<close> carries the four random bytes of the mask.\<close>

definition encodeWsFrame :: "byte \<Rightarrow> bytes \<Rightarrow> bytes option \<Rightarrow> bytes" where
  "encodeWsFrame opcode payload key_opt =
     (case key_opt of
        None \<Rightarrow> ws_header opcode (length payload) False @ payload
      | Some key \<Rightarrow> ws_header opcode (length payload) True @ key @ demask key payload)"

section \<open>Parsing is independent of the chunks\<close>

lemma ws_length_of_extend:
  "length b \<ge> 2 \<Longrightarrow> ws_length_of b \<noteq> NeedMore \<Longrightarrow> ws_length_of (b @ x) = ws_length_of b"
  by (auto simp: ws_length_of_def Let_def nth_append split: if_splits)

lemma parseOne_extend:
  "parseOne fr b = Frame fr' ev r \<Longrightarrow> parseOne fr (b @ x) = Frame fr' ev (r @ x)"
  using ws_length_of_extend [of b x]
  by (auto simp: parseOne_def Let_def nth_append slice_append_left
      split: if_splits ws_length.splits prod.splits)

interpretation ws: frame_parser parseOne
proof unfold_locales
  fix fr fr' :: ws_frag and b r x and ev :: "ws_event list"
  show "parseOne fr b = Frame fr' ev r \<Longrightarrow> parseOne fr (b @ x) = Frame fr' ev (r @ x)"
    by (rule parseOne_extend)
  have "2 \<le> off" if "ws_length_of b = Len len off" for len off
    using that by (auto simp: ws_length_of_def Let_def split: if_splits)
  then show "parseOne fr b = Frame fr' ev r \<Longrightarrow> length r < length b"
    by (force simp: parseOne_def Let_def split: if_splits ws_length.splits prod.splits)
  show "parseOne fr b = Resync fr' ev \<Longrightarrow> parseOne fr (b @ x) = Resync fr' ev"
    using ws_length_of_extend [of b x]
    by (auto simp: parseOne_def Let_def nth_append split: if_splits ws_length.splits prod.splits)
qed

end
