(* ===== verification/WsCorrect.thy ===== *)
theory WsCorrect
  imports WsCodec
begin

text \<open>
  What the WebSocket codec guarantees: messages of any length, masked or not, come out of
  the decoder as they went into the encoder whatever the chunks, fragments are put together
  around interleaved control frames, and base64 loses nothing.
\<close>

section \<open>Header bits\<close>

lemma byte_low7:
  assumes "unat (b :: byte) < 128"
  shows "b AND 128 = 0" "b AND 127 = b" "(128 OR b) AND 128 = 128" "(128 OR b) AND 127 = b"
proof -
  have t: "take_bit 7 b = b"
    using assms by (simp add: word_unat_eq_iff unsigned_take_bit_eq take_bit_nat_eq_self)
  have b127: "bit (127 :: byte) n \<longleftrightarrow> n < 7" for n
  proof -
    have "127 = (mask 7 :: byte)" by (simp add: mask_eq_exp_minus_1)
    then show ?thesis by (simp only: bit_mask_iff) auto
  qed
  have b128: "bit (128 :: byte) n \<longleftrightarrow> n = 7" for n
  proof -
    have "128 = (2 ^ 7 :: byte)" by simp
    then show ?thesis by (simp only: bit_exp_iff) auto
  qed
  have low: "bit b n \<Longrightarrow> n < 7" for n
    using t by (metis bit_take_bit_iff)
  note bits = bit_and_iff bit_or_iff b127 b128
  show "b AND 128 = 0" "b AND 127 = b" "(128 OR b) AND 128 = 128" "(128 OR b) AND 127 = b"
    by (rule bit_word_eqI, auto simp: bits dest: low simp del: bit_numeral_word_iff)+
qed

section \<open>Round trip of frames\<close>

definition ws_op_ok :: "byte \<Rightarrow> bool" where
  "ws_op_ok op \<longleftrightarrow> op \<in> {OP_TEXT, OP_BINARY, OP_CLOSE, OP_PING, OP_PONG}"

fun mask_ok :: "bytes option \<Rightarrow> bool" where
  "mask_ok None \<longleftrightarrow> True"
| "mask_ok (Some key) \<longleftrightarrow> length key = 4"

lemma demask_twice: "length key = 4 \<Longrightarrow> demask key (demask key p) = p"
  by (rule nth_equalityI) (simp_all add: demask_def xor.assoc)

lemma length_demask [simp]: "length (demask key p) = length p"
  by (simp add: demask_def)

lemma get_u16_be_at: "i = length xs \<Longrightarrow> n < 65536 \<Longrightarrow> get_u16_be (xs @ put_u16_be n @ ys) i = n"
  using get_put_u16_be [of xs n ys] by simp

definition header_len :: "nat \<Rightarrow> nat" where
  "header_len len = (if len < 126 then 2 else if len < 65536 then 4 else 10)"

lemma length_ws_length_bytes [simp]: "length (ws_length_bytes len m) = header_len len - 1"
  by (simp add: ws_length_bytes_def header_len_def Let_def)

lemma header_len_ge [simp]: "2 \<le> header_len len" "0 < header_len len" "Suc (header_len len - Suc 0) = header_len len"
  by (simp_all add: header_len_def)

lemma mask_bit:
  assumes "unat (b :: byte) < 128"
  shows "((if m then 128 else 0) OR b) AND 127 = b"
    "(((if m then 128 else 0) OR b) AND 128 \<noteq> 0) = m"
  using byte_low7 [OF assms] by (cases m; simp)+

lemma ws_header_fields:
  assumes "len < 4294967296" and b: "b = b0 # ws_length_bytes len m @ rest"
  shows "ws_length_of b = Len len (header_len len)" "(b ! 1 AND 128 \<noteq> 0) = m"
proof -
  define l7 where "l7 = (if len < 126 then len else if len < 65536 then 126 else 127)"
  have l7: "l7 < 128" by (simp add: l7_def)
  then have "unat (of_nat l7 :: byte) < 128" by simp
  note bit = mask_bit [OF this, of m]
  have b1: "b ! 1 = (if m then 128 else 0) OR of_nat l7"
    by (simp add: b ws_length_bytes_def Let_def l7_def)
  show "(b ! 1 AND 128 \<noteq> 0) = m" unfolding b1 by (rule bit(2))
  have len7: "unat (b ! 1 AND 127) = l7" unfolding b1 bit(1) using l7 by simp
  consider "len < 126" | "126 \<le> len" "len < 65536" | "65536 \<le> len" by linarith
  then show "ws_length_of b = Len len (header_len len)"
  proof cases
    case 1
    with len7 show ?thesis by (simp add: ws_length_of_def header_len_def Let_def l7_def)
  next
    case 2
    then have e: "b = [b0, (if m then 128 else 0) OR 126] @ put_u16_be len @ rest"
      by (simp add: b ws_length_bytes_def)
    have "get_u16_be b 2 = len" unfolding e using 2 by (intro get_u16_be_at) simp_all
    moreover have "4 \<le> length b" by (simp add: e)
    ultimately show ?thesis
      using len7 2 by (simp add: ws_length_of_def header_len_def Let_def l7_def)
  next
    case 3
    have hi: "len div 65536 < 65536" using assms by simp
    let ?h = "[b0, (if m then 128 else 0) OR 127, 0, 0, 0, 0 :: byte]"
    have e: "b = ?h @ put_u16_be (len div 65536) @ put_u16_be len @ rest"
      using 3 by (simp add: b ws_length_bytes_def)
    have "get_u16_be b 6 = len div 65536"
      unfolding e using hi by (intro get_u16_be_at) simp_all
    moreover have "get_u16_be b 8 = len mod 65536"
      using get_put_u16_be [of "?h @ put_u16_be (len div 65536)" len rest] by (simp add: e)
    moreover have "b ! 2 = 0" "b ! 3 = 0" "b ! 4 = 0" "b ! 5 = 0" unfolding e by simp_all
    moreover have "10 \<le> length b" by (simp add: e)
    ultimately show ?thesis
      using len7 3 by (simp add: ws_length_of_def header_len_def Let_def l7_def)
  qed
qed

text \<open>One frame at the front of the buffer, masked or not, with any first byte.\<close>

definition raw_frame :: "byte \<Rightarrow> bytes \<Rightarrow> bytes option \<Rightarrow> bytes" where
  "raw_frame b0 payload key_opt = b0 # tl (encodeWsFrame 0 payload key_opt)"

lemma encodeWsFrame_raw: "encodeWsFrame op payload k = raw_frame (128 OR op) payload k"
  by (cases k) (simp_all add: raw_frame_def encodeWsFrame_def ws_header_def)

lemma parseOne_raw:
  assumes "length payload < 4294967296" "mask_ok k"
  shows "parseOne frag (raw_frame b0 payload k @ rest) =
    (let (frag', ev) = ws_frame_event (b0 AND 128 \<noteq> 0) (b0 AND 15) payload frag in Frame frag' ev rest)"
proof (cases k)
  case None
  let ?n = "length payload" and ?h = "b0 # ws_length_bytes (length payload) False"
  define b where "b = ?h @ payload @ rest"
  have h: "length ?h = header_len ?n" by simp
  note f = ws_header_fields [OF assms(1), of b b0 False "payload @ rest"]
  have "slice b (header_len ?n) (header_len ?n + ?n) = payload"
    using slice_prefix [of ?h payload rest] by (simp only: h b_def)
  moreover have "drop (header_len ?n + ?n) b = rest"
    using drop_prefix [of ?h payload rest] by (simp only: h b_def)
  moreover have "length b = header_len ?n + ?n + length rest" "b ! 0 = b0" by (simp_all add: b_def)
  moreover from this(1) have "2 \<le> length b"
    using header_len_ge(1) [of ?n] by linarith
  moreover have "raw_frame b0 payload k @ rest = b"
    by (simp add: None raw_frame_def encodeWsFrame_def ws_header_def b_def)
  moreover have "ws_length_of b = Len ?n (header_len ?n)" "\<not> (b ! 1 AND 128 \<noteq> 0)"
    using f by (simp_all add: b_def)
  ultimately show ?thesis by (simp add: parseOne_def not_less add.assoc)
next
  case (Some key)
  let ?n = "length payload" and ?h = "b0 # ws_length_bytes (length payload) True"
    and ?d = "demask key payload"
  define b where "b = ?h @ key @ ?d @ rest"
  have h: "length ?h = header_len ?n" by simp
  have key: "length key = 4" using assms(2) Some by simp
  note f = ws_header_fields [OF assms(1), of b b0 True "key @ ?d @ rest"]
  have "slice b (header_len ?n) (header_len ?n + 4) = key"
    using slice_prefix [of ?h key "?d @ rest"] by (simp only: h key b_def)
  moreover have "slice b (header_len ?n + 4) (header_len ?n + 4 + ?n) = ?d"
    using slice_prefix [of "?h @ key" ?d rest]
    by (simp only: h key append_assoc length_append length_demask b_def)
  moreover have "drop (header_len ?n + 4 + ?n) b = rest"
    using drop_prefix [of "?h @ key" ?d rest]
    by (simp only: h key append_assoc length_append length_demask b_def)
  moreover have "length b = header_len ?n + 4 + ?n + length rest" "b ! 0 = b0"
    using key by (simp_all add: b_def)
  moreover from this(1) have "2 \<le> length b"
    using header_len_ge(1) [of ?n] by linarith
  moreover have "raw_frame b0 payload k @ rest = b"
    by (simp add: Some raw_frame_def encodeWsFrame_def ws_header_def b_def)
  moreover have "ws_length_of b = Len ?n (header_len ?n)" "b ! 1 AND 128 \<noteq> 0"
    using f by (simp_all add: b_def)
  ultimately show ?thesis by (simp add: parseOne_def not_less add.assoc demask_twice key)
qed


text \<open>Frames back to back: the loop takes them one by one and keeps nothing.\<close>

type_synonym ws_raw = "byte \<times> bytes \<times> bytes option"

definition raw_ok :: "ws_raw \<Rightarrow> bool" where
  "raw_ok f \<longleftrightarrow> length (fst (snd f)) < 4294967296 \<and> mask_ok (snd (snd f))"

fun frame_events :: "ws_raw list \<Rightarrow> ws_frag \<Rightarrow> ws_frag \<times> ws_event list" where
  "frame_events [] frag = (frag, [])"
| "frame_events ((b0, p, k) # fs) frag =
     (let (frag1, ev1) = ws_frame_event (b0 AND 128 \<noteq> 0) (b0 AND 15) p frag;
          (frag2, ev2) = frame_events fs frag1
      in (frag2, ev1 @ ev2))"

definition ws_wire :: "ws_raw list \<Rightarrow> bytes" where
  "ws_wire fs = concat (map (\<lambda>(b0, p, k). raw_frame b0 p k) fs)"

lemma drain_ws_wire:
  "\<forall>f \<in> set fs. raw_ok f \<Longrightarrow>
   drain parseOne frag (ws_wire fs) = (let (frag', ev) = frame_events fs frag in (frag', ev, [], False))"
proof (induction fs arbitrary: frag)
  case Nil
  then show ?case by (simp add: ws_wire_def drain_def parseOne_def)
next
  case (Cons f fs)
  obtain b0 p k where f: "f = (b0, p, k)" by (cases f)
  have w: "ws_wire (f # fs) = raw_frame b0 p k @ ws_wire fs" by (simp add: ws_wire_def f)
  have "length p < 4294967296" "mask_ok k" using Cons.prems by (auto simp: raw_ok_def f)
  then have "parseOne frag (ws_wire (f # fs)) =
    (let (frag', ev) = ws_frame_event (b0 AND 128 \<noteq> 0) (b0 AND 15) p frag in Frame frag' ev (ws_wire fs))"
    unfolding w by (rule parseOne_raw)
  then show ?case using Cons by (simp add: ws.drain_unfold [of frag] f split: prod.splits)
qed

text \<open>Receiving chunk by chunk, parsing after each.\<close>

fun ws_receive :: "bytes list \<Rightarrow> ws_decoder \<Rightarrow> ws_decoder \<times> ws_event list" where
  "ws_receive [] d = (d, [])"
| "ws_receive (c # cs) d =
     (let (d1, ev1) = ws_parse (ws_push c d); (d2, ev2) = ws_receive cs d1 in (d2, ev1 @ ev2))"

lemma ws_receive_chunks:
  "feed_chunks parseOne (wd_frag d) (wd_buf d) cs = (frag, ev, r) \<Longrightarrow>
   ws_receive cs d = (\<lparr>wd_buf = r, wd_frag = frag\<rparr>, ev)"
  by (induction cs arbitrary: d ev) (auto simp: ws_parse_def ws_push_def Let_def split: prod.splits)

lemma ws_receive_wire:
  assumes "\<forall>f \<in> set fs. raw_ok f" "concat cs = ws_wire fs"
  shows "ws_receive cs new_WsDecoder =
    (let (frag, ev) = frame_events fs None in (\<lparr>wd_buf = [], wd_frag = frag\<rparr>, ev))"
proof (cases "cs = []")
  case True
  then have "fs = []" using assms(2) by (cases fs) (auto simp: ws_wire_def raw_frame_def)
  with True show ?thesis by (simp add: new_WsDecoder_def)
next
  case False
  obtain frag ev where fe: "frame_events fs None = (frag, ev)" by fastforce
  then have "drain parseOne None ([] @ concat cs) = (frag, ev, [], False)"
    using drain_ws_wire [OF assms(1), of None] by (simp add: assms(2))
  then have "feed_chunks parseOne None [] cs = (frag, ev, [])"
    using False by (intro ws.feed_chunks_concat)
  then show ?thesis
    using ws_receive_chunks [of new_WsDecoder cs] fe by (simp add: new_WsDecoder_def)
qed

section \<open>Base64 inverts\<close>

lemma push_or_nat: "y < 2 ^ n \<Longrightarrow> push_bit n x OR y = x * 2 ^ n + (y :: nat)"
proof -
  assume "y < 2 ^ n"
  then have t: "take_bit n y = y" by (simp add: take_bit_nat_eq_self)
  have low: "bit y k \<Longrightarrow> k < n" for k
    by (subst (asm) t [symmetric]) (simp add: bit_take_bit_iff)
  have "push_bit n x AND y = 0"
    by (intro bit_eqI) (auto simp: bit_and_iff bit_push_bit_iff dest: low)
  then have "push_bit n x OR y = push_bit n x + y" by (simp add: disjunctive_add_eq_or)
  then show ?thesis by (simp add: push_bit_eq_mult)
qed

lemma and_low_nat: "(x :: nat) AND (2 ^ n - 1) = x mod 2 ^ n"
  using take_bit_eq_mask [of n x] by (simp add: mask_eq_exp_minus_1 take_bit_eq_mod)

lemma base64_digit_values:
  fixes b0 b1 b2 :: byte
  shows "unat (drop_bit 2 b0) = unat b0 div 4"
    "unat (push_bit 4 (b0 AND 3)) = unat b0 mod 4 * 16"
    "unat (push_bit 4 (b0 AND 3) OR drop_bit 4 b1) = unat b0 mod 4 * 16 + unat b1 div 16"
    "unat (push_bit 2 (b1 AND 15)) = unat b1 mod 16 * 4"
    "unat (push_bit 2 (b1 AND 15) OR drop_bit 6 b2) = unat b1 mod 16 * 4 + unat b2 div 64"
    "unat (b2 AND 63) = unat b2 mod 64"
proof -
  have a: "unat (x AND 3) = unat x mod 4" "unat (x AND 15) = unat x mod 16" "unat (x AND 63) = unat x mod 64"
    for x :: byte
    using and_low_nat [of "unat x" 2] and_low_nat [of "unat x" 4] and_low_nat [of "unat x" 6]
    by (simp_all add: unsigned_and_eq)
  have p: "unat (push_bit 4 (x AND 3)) = unat x mod 4 * 16" "unat (push_bit 2 (x AND 15)) = unat x mod 16 * 4"
    for x :: byte
  proof -
    have "unat x mod 4 * 16 < 256" "unat x mod 16 * 4 < 256"
      using mod_less_divisor [of 4 "unat x"] mod_less_divisor [of 16 "unat x"] by linarith+
    moreover have "unat (push_bit 4 (x AND 3)) = (unat (x AND 3) * 2 ^ 4) mod 256"
      "unat (push_bit 2 (x AND 15)) = (unat (x AND 15) * 2 ^ 2) mod 256"
      by (simp_all only: unsigned_push_bit_eq) (simp_all add: push_bit_eq_mult take_bit_eq_mod)
    ultimately show "unat (push_bit 4 (x AND 3)) = unat x mod 4 * 16"
      "unat (push_bit 2 (x AND 15)) = unat x mod 16 * 4"
      by (simp_all only: a) simp_all
  qed
  have d: "unat (drop_bit n x) = unat x div 2 ^ n" for n and x :: byte
  proof -
    have "unat x div 2 ^ n < 256"
      using div_le_dividend [of "unat x" "2 ^ n"] unat_byte_less [of x] by linarith
    then show ?thesis
      by (simp only: unsigned_drop_bit_eq) (simp add: drop_bit_eq_div take_bit_eq_mod)
  qed
  show "unat (drop_bit 2 b0) = unat b0 div 4" "unat (b2 AND 63) = unat b2 mod 64"
    "unat (push_bit 4 (b0 AND 3)) = unat b0 mod 4 * 16" "unat (push_bit 2 (b1 AND 15)) = unat b1 mod 16 * 4"
    using d [of 2 b0] by (simp_all only: a p) simp
  have "unat b1 div 16 < 2 ^ 4" "unat b2 div 64 < 2 ^ 2"
    using unat_byte_less [of b1] unat_byte_less [of b2] by (simp_all add: less_mult_imp_div_less)
  then have o: "push_bit 4 (unat b0 mod 4) OR (unat b1 div 16) = unat b0 mod 4 * 16 + unat b1 div 16"
    "push_bit 2 (unat b1 mod 16) OR (unat b2 div 64) = unat b1 mod 16 * 4 + unat b2 div 64"
    using push_or_nat [of "unat b1 div 16" 4 "unat b0 mod 4"] push_or_nat [of "unat b2 div 64" 2 "unat b1 mod 16"]
    by simp_all
  have e: "unat b0 mod 4 * 16 = push_bit 4 (unat b0 mod 4)" "unat b1 mod 16 * 4 = push_bit 2 (unat b1 mod 16)"
    by (simp_all add: push_bit_eq_mult)
  show "unat (push_bit 4 (b0 AND 3) OR drop_bit 4 b1) = unat b0 mod 4 * 16 + unat b1 div 16"
    using o(1) d [of 4 b1] by (simp only: unsigned_or_eq p(1) e(1)) simp
  show "unat (push_bit 2 (b1 AND 15) OR drop_bit 6 b2) = unat b1 mod 16 * 4 + unat b2 div 64"
    using o(2) d [of 6 b2] by (simp only: unsigned_or_eq p(2) e(2)) simp
qed

fun b64_val :: "jstr \<Rightarrow> unit16 \<Rightarrow> nat" where
  "b64_val [] c = 0"
| "b64_val (x # xs) c = (if x = c then 0 else Suc (b64_val xs c))"

lemma b64_val_nth: "distinct xs \<Longrightarrow> i < length xs \<Longrightarrow> b64_val xs (xs ! i) = i"
  by (induction xs arbitrary: i) (auto simp: nth_Cons split: nat.splits)

lemma distinct_B64: "distinct B64" "length B64 = 64" "cu CHR ''='' \<notin> set B64"
proof -
  have "cu c = cu d \<longleftrightarrow> c = d" for c d
  proof -
    have "unat (cu x) = of_char x" for x
    proof -
      have "(of_char x :: nat) < 65536" using nat_of_char_less_256 [of x] by (simp del: nat_of_char_less_256)
      then show ?thesis unfolding cu_def by (subst of_nat_of_char [symmetric]) simp
    qed
    then show ?thesis by (simp add: word_unat_eq_iff)
  qed
  then have inj: "inj cu" by (simp add: inj_def)
  show "distinct B64"
  proof -
    have "distinct ''ABCDEFGHIJKLMNOPQRSTUVWXYZabcdefghijklmnopqrstuvwxyz0123456789+/''"
      by code_simp
    moreover have "inj_on cu A" for A using inj by (rule inj_on_subset) simp
    ultimately show ?thesis unfolding B64_def js_def distinct_map by blast
  qed
  show "cu CHR ''='' \<notin> set B64"
    unfolding B64_def js_def set_map inj_image_mem_iff [OF inj] by simp
  show "length B64 = 64" unfolding B64_def length_js by simp
qed


fun unbase64 :: "jstr \<Rightarrow> bytes" where
  "unbase64 (c0 # c1 # c2 # c3 # cs) =
     (let v = b64_val B64; x = of_nat (v c0 * 4 + v c1 div 16);
          y = of_nat (v c1 mod 16 * 16 + v c2 div 4); z = of_nat (v c2 mod 4 * 64 + v c3) in
      if c2 = cu CHR ''='' then [x] else if c3 = cu CHR ''='' then [x, y] else x # y # z # unbase64 cs)"
| "unbase64 _ = []"

lemma b64_digit: "n < 64 \<Longrightarrow> b64_val B64 (B64 ! n) = n" "n < 64 \<Longrightarrow> B64 ! n \<noteq> cu CHR ''=''"
  using distinct_B64 b64_val_nth [of B64 n] by (auto simp: in_set_conv_nth)

lemma byte_split:
  "of_nat (unat b div 4 * 4 + unat b mod 4) = (b :: byte)"
  "of_nat (unat b div 16 * 16 + unat b mod 16) = b" "of_nat (unat b div 64 * 64 + unat b mod 64) = b"
  by (simp_all only: div_mult_mod_eq) simp_all

lemma base64_digit_bounds:
  fixes b0 b1 :: byte
  shows "unat b0 div 4 < 64" "unat b0 mod 4 * 16 < 64" "unat b0 mod 4 * 16 + unat b1 div 16 < 64"
    "unat b0 mod 16 * 4 < 64" "unat b0 mod 16 * 4 + unat b1 div 64 < 64" "unat b0 mod 64 < 64"
proof -
  have d: "unat b div 4 < 64" "unat b div 16 < 16" "unat b div 64 < 4" for b :: byte
    using unat_byte_less [of b] by (simp_all add: less_mult_imp_div_less)
  have m: "unat b mod 4 < 4" "unat b mod 16 < 16" "unat b mod 64 < 64" for b :: byte by simp_all
  show "unat b0 div 4 < 64" "unat b0 mod 64 < 64" by (fact d m)+
  show "unat b0 mod 4 * 16 < 64" "unat b0 mod 4 * 16 + unat b1 div 16 < 64"
    using m(1) [of b0] d(2) [of b1] by linarith+
  show "unat b0 mod 16 * 4 < 64" "unat b0 mod 16 * 4 + unat b1 div 64 < 64"
    using m(2) [of b0] d(3) [of b1] by linarith+
qed

lemma base64_digit_parts:
  fixes b0 b1 :: byte
  shows "(unat b0 mod 4 * 16 + unat b1 div 16) div 16 = unat b0 mod 4"
    "(unat b0 mod 4 * 16 + unat b1 div 16) mod 16 = unat b1 div 16"
    "(unat b0 mod 16 * 4 + unat b1 div 64) div 4 = unat b0 mod 16"
    "(unat b0 mod 16 * 4 + unat b1 div 64) mod 4 = unat b1 div 64"
    "unat b1 div 16 mod 16 = unat b1 div 16" "unat b1 div 64 mod 4 = unat b1 div 64"
proof -
  have "unat b1 div 16 < 16" "unat b1 div 64 < 4"
    using unat_byte_less [of b1] by (simp_all add: less_mult_imp_div_less)
  then show "(unat b0 mod 4 * 16 + unat b1 div 16) div 16 = unat b0 mod 4"
    "(unat b0 mod 4 * 16 + unat b1 div 16) mod 16 = unat b1 div 16"
    "(unat b0 mod 16 * 4 + unat b1 div 64) div 4 = unat b0 mod 16"
    "(unat b0 mod 16 * 4 + unat b1 div 64) mod 4 = unat b1 div 64"
    "unat b1 div 16 mod 16 = unat b1 div 16" "unat b1 div 64 mod 4 = unat b1 div 64"
    by simp_all
qed

text \<open>Decoding undoes encoding, so base64 is injective.\<close>

lemma unbase64_group:
  assumes "n0 < 64" "n1 < 64" "n2 < 64" "n3 < 64"
  shows "unbase64 (B64 ! n0 # B64 ! n1 # B64 ! n2 # B64 ! n3 # cs) =
      of_nat (n0 * 4 + n1 div 16) # of_nat (n1 mod 16 * 16 + n2 div 4) # of_nat (n2 mod 4 * 64 + n3)
        # unbase64 cs"
    "unbase64 [B64 ! n0, B64 ! n1, B64 ! n2, cu CHR ''=''] =
      [of_nat (n0 * 4 + n1 div 16), of_nat (n1 mod 16 * 16 + n2 div 4)]"
    "unbase64 [B64 ! n0, B64 ! n1, cu CHR ''='', cu CHR ''=''] = [of_nat (n0 * 4 + n1 div 16)]"
  using assms b64_digit by (simp_all only: unbase64.simps Let_def if_False if_True refl)

lemma unbase64_base64: "unbase64 (base64 bs) = bs"
proof (induction bs rule: base64.induct)
  case (2 b0)
  have "unat b0 mod 4 * 16 div 16 = unat b0 mod 4" by simp
  then show ?case
    unfolding base64.simps base64_digit_values
    by (simp only: unbase64_group [OF base64_digit_bounds(1,2,1,1)] byte_split)
next
  case (3 b0 b1)
  have "unat b1 mod 16 * 4 div 4 = unat b1 mod 16" "unat b1 mod 16 * 4 < 64"
    using base64_digit_bounds by simp_all
  then show ?case
    unfolding base64.simps base64_digit_values
    by (simp only: unbase64_group [OF base64_digit_bounds(1,3,4,4)] base64_digit_parts byte_split)
next
  case (4 b0 b1 b2 bs)
  then show ?case
    unfolding base64.simps base64_digit_values append_Cons append_Nil
    by (simp only: unbase64_group [OF base64_digit_bounds(1,3,5,6)] base64_digit_parts byte_split)
qed simp

lemma length_base64: "length (base64 bs) = 4 * ((length bs + 2) div 3)"
proof (induction bs rule: base64.induct)
  case (4 b0 b1 b2 bs)
  have "(length (b0 # b1 # b2 # bs) + 2) div 3 = Suc ((length bs + 2) div 3)"
    using div_add_self2 [of 3 "length bs + 2"] by simp
  then show ?case using 4 unfolding base64.simps by (simp only: length_append) simp
qed (simp_all only: base64.simps list.size, simp_all)

section \<open>Properties\<close>

definition ws_message :: "byte \<Rightarrow> bytes \<Rightarrow> ws_event" where
  "ws_message op p =
     (if op = OP_CLOSE then WsClose p else if op = OP_PING then WsPing p
      else if op = OP_PONG then WsPong p else WsData op p)"

lemma ws_op_bits:
  "ws_op_ok op \<Longrightarrow> (128 OR op) AND 15 = op \<and> (128 OR op) AND 128 \<noteq> 0"
  by (auto simp: ws_op_ok_def ws_ops)

lemma frame_events_messages:
  assumes "\<forall>(op, p, k) \<in> set msgs. ws_op_ok op"
  shows "frame_events (map (\<lambda>(op, p, k). (128 OR op, p, k)) msgs) frag
    = (frag, map (\<lambda>(op, p, k). ws_message op p) msgs)"
  using assms
proof (induction msgs)
  case (Cons msg msgs)
  obtain op p k where m: "msg = (op, p, k)" by (cases msg)
  then have "ws_op_ok op" using Cons.prems by simp
  then have "ws_frame_event True op p frag = (frag, [ws_message op p])"
    by (auto simp: ws_op_ok_def ws_frame_event_def ws_message_def ws_ops)
  then show ?case using Cons ws_op_bits [OF \<open>ws_op_ok op\<close>] by (simp add: m)
qed simp

lemma ws_receive_messages:
  assumes "\<forall>(op, p, k) \<in> set msgs. ws_op_ok op \<and> length p < 4294967296 \<and> mask_ok k"
    and "concat cs = concat (map (\<lambda>(op, p, k). encodeWsFrame op p k) msgs)"
  shows "ws_receive cs new_WsDecoder = (new_WsDecoder, map (\<lambda>(op, p, k). ws_message op p) msgs)"
proof -
  let ?fs = "map (\<lambda>(op, p, k). (128 OR op, p, k)) msgs"
  have e: "concat cs = ws_wire ?fs"
    by (simp add: assms(2) ws_wire_def encodeWsFrame_raw comp_def case_prod_unfold)
  have raw: "\<forall>f \<in> set ?fs. raw_ok f" using assms(1) by (auto simp: raw_ok_def)
  have fe: "frame_events ?fs None = (None, map (\<lambda>(op, p, k). ws_message op p) msgs)"
    using assms(1) by (intro frame_events_messages) auto
  show ?thesis
    unfolding ws_receive_wire [OF raw e] fe by (simp add: new_WsDecoder_def)
qed

text \<open>
  C35. Messages cross the socket whole: text, binary, close, ping and pong frames of any
  length below 2^32, masked or not, come out of the decoder as the events of the messages
  that went into the encoder, in order, however the transport cuts their bytes.
\<close>

theorem ws_messages_roundtrip:
  assumes "\<forall>(op, p, k) \<in> set msgs. ws_op_ok op \<and> length p < 4294967296 \<and> mask_ok k"
    and "concat cs = concat (map (\<lambda>(op, p, k). encodeWsFrame op p k) msgs)"
  shows "ws_receive cs new_WsDecoder = (new_WsDecoder, map (\<lambda>(op, p, k). ws_message op p) msgs)"
  using assms by (rule ws_receive_messages)

theorem ws_messages_roundtrip_witness:
  "ws_receive [[129, 130, 1, 2], [3, 4, 73, 107, 137], [0]] new_WsDecoder
     = (new_WsDecoder, [WsData 1 [72, 105], WsPing []])"
proof -
  let ?msgs = "[(OP_TEXT, [72, 105], Some [1, 2, 3, 4]), (OP_PING, [], None)] :: (byte \<times> bytes \<times> bytes option) list"
  have "concat [[129, 130, 1, 2], [3, 4, 73, 107, 137], [0]]
      = concat (map (\<lambda>(op, p, k). encodeWsFrame op p k) ?msgs)"
    by (simp add: encodeWsFrame_def ws_header_def ws_length_bytes_def demask_def ws_ops upt_rec)
  from ws_messages_roundtrip [OF _ this] show ?thesis
    by (simp add: ws_op_ok_def ws_message_def ws_ops)
qed

lemma frame_events_append:
  "frame_events (xs @ ys) fr =
     (let (fr1, ev1) = frame_events xs fr; (fr2, ev2) = frame_events ys fr1 in (fr2, ev1 @ ev2))"
  by (induction xs fr rule: frame_events.induct) (auto split: prod.splits)

text \<open>What stands between the first and the last fragment, by the first byte of each frame.\<close>

lemma frame_events_between:
  "\<forall>(h, p, k) \<in> set mids. h = 0x00 \<or> h = 0x89 \<or> h = 0x8A \<Longrightarrow>
   frame_events mids (Some (op, q)) =
     (Some (op, q @ concat (map (\<lambda>(h, p, k). if h = 0x00 then p else []) mids)),
      concat (map (\<lambda>(h, p, k). if h = 0x89 then [WsPing p] else if h = 0x8A then [WsPong p] else []) mids))"
proof (induction mids arbitrary: q)
  case (Cons f mids)
  obtain h p k where f: "f = (h, p, k)" by (cases f)
  then consider "h = 0x00" | "h = 0x89" | "h = 0x8A" using Cons.prems by auto
  then show ?case using Cons.IH Cons.prems by cases (simp_all add: f ws_frame_event_def ws_ops)
qed simp

text \<open>
  C36. Reassembly: a text or binary message sent as a first fragment, continuations and a last
  continuation, each with a mask of its own or none, with pings and pongs anywhere between
  them, is delivered once, as one message with the fragments' payloads joined; the pings and
  pongs are delivered on the way and no fragment state is left, however the bytes are cut.
\<close>

theorem ws_reassembly:
  assumes "op = OP_TEXT \<or> op = OP_BINARY"
    and "\<forall>(h, p, k) \<in> set mids. h = 0x00 \<or> h = 0x89 \<or> h = 0x8A"
    and "\<forall>(h, p, k) \<in> {(op, p0, k0), (0x80, pn, kn)} \<union> set mids. length p < 4294967296 \<and> mask_ok k"
    and "concat cs = raw_frame op p0 k0 @ concat (map (\<lambda>(h, p, k). raw_frame h p k) mids) @ raw_frame 0x80 pn kn"
  shows "ws_receive cs new_WsDecoder =
    (new_WsDecoder,
     concat (map (\<lambda>(h, p, k). if h = 0x89 then [WsPing p] else if h = 0x8A then [WsPong p] else []) mids)
     @ [WsData op (p0 @ concat (map (\<lambda>(h, p, k). if h = 0x00 then p else []) mids) @ pn)])"
proof -
  let ?fs = "(op, p0, k0) # mids @ [(0x80, pn, kn)]"
  let ?ctl = "concat (map (\<lambda>(h, p, k). if h = 0x89 then [WsPing p] else if h = 0x8A then [WsPong p] else []) mids)"
  let ?body = "concat (map (\<lambda>(h, p, k). if h = 0x00 then p else []) mids)"
  have first: "ws_frame_event (op AND 128 \<noteq> 0) (op AND 15) p0 None = (Some (op, p0), [])"
    using assms(1) by (auto simp: ws_frame_event_def ws_ops)
  have last: "frame_events [(0x80, pn, kn)] (Some (op, q)) = (None, [WsData op (q @ pn)])" for q
    using assms(1) by (auto simp: ws_frame_event_def ws_ops)
  have fe: "frame_events ?fs None = (None, ?ctl @ [WsData op (p0 @ ?body @ pn)])"
    unfolding frame_events.simps first frame_events_append frame_events_between [OF assms(2)] Let_def prod.case
    using last by simp
  have raw: "\<forall>f \<in> set ?fs. raw_ok f" using assms(3) by (auto simp: raw_ok_def)
  have e: "concat cs = ws_wire ?fs" by (simp add: assms(4) ws_wire_def)
  show ?thesis unfolding ws_receive_wire [OF raw e] fe by (simp add: new_WsDecoder_def)
qed

theorem ws_reassembly_witness:
  "ws_receive [[1, 130, 1, 2], [3, 4, 73, 103, 137, 1, 9], [0, 1, 108, 138, 0, 137, 1, 7, 128, 1, 121]] new_WsDecoder
     = (new_WsDecoder, [WsPing [9], WsPong [], WsPing [7], WsData 1 [72, 101, 108, 121]])"
proof -
  have "concat [[1, 130, 1, 2], [3, 4, 73, 103, 137, 1, 9], [0, 1, 108, 138, 0, 137, 1, 7, 128, 1, 121]]
      = raw_frame OP_TEXT [72, 101] (Some [1, 2, 3, 4])
      @ concat (map (\<lambda>(h, p, k). raw_frame h p k) [(0x89, [9], None), (0x00, [108], None), (0x8A, [], None), (0x89, [7], None)])
      @ raw_frame 0x80 [121] None"
    by (simp add: raw_frame_def encodeWsFrame_def ws_header_def ws_length_bytes_def demask_def ws_ops upt_rec)
  from ws_reassembly [OF _ _ _ this] show ?thesis by (simp add: ws_ops)
qed

text \<open>
  The handshake token has one group of four characters for every three bytes of the digest
  or part of three, and decodes back to the digest: tokens of different digests differ.
\<close>

theorem wsAccept_token:
  "length (wsAccept sha1 key) = 4 * ((length (sha1 (text_encode (key @ WS_GUID))) + 2) div 3)
   \<and> unbase64 (wsAccept sha1 key) = sha1 (text_encode (key @ WS_GUID))"
  by (simp add: wsAccept_def length_base64 unbase64_base64)

end
