(* ===== verification/Md5.thy ===== *)
theory Md5
  imports Utf8
begin

text \<open>
  MD5 and HMAC-MD5, \<open>extension/lib/md5.js\<close>. The signed 32-bit integers of the source are
  32-bit words: \<open>>>\<close> is the arithmetic shift \<open>signed_drop_bit\<close>, \<open>>>>\<close> the logical one, and
  \<open>msw << 16\<close> drops the carries that a double still holds. An array read past its end gives
  \<open>undefined\<close>, which every use turns into 0. Bit lengths stay below \<open>2^31\<close>.
\<close>

type_synonym w32 = "32 word"

section \<open>Step functions\<close>

definition safeAdd :: "w32 \<Rightarrow> w32 \<Rightarrow> w32" where
  "safeAdd x y =
     (let lsw = (x AND 0xffff) + (y AND 0xffff);
          msw = signed_drop_bit 16 x + signed_drop_bit 16 y + signed_drop_bit 16 lsw
      in push_bit 16 msw OR (lsw AND 0xffff))"

definition bitRotateLeft :: "w32 \<Rightarrow> nat \<Rightarrow> w32" where
  "bitRotateLeft num cnt = push_bit cnt num OR drop_bit (32 - cnt) num"

definition md5cmn :: "w32 \<Rightarrow> w32 \<Rightarrow> w32 \<Rightarrow> w32 \<Rightarrow> nat \<Rightarrow> w32 \<Rightarrow> w32" where
  "md5cmn q a b x s t =
     safeAdd (bitRotateLeft (safeAdd (safeAdd a q) (safeAdd x t)) s) b"

definition md5ff :: "w32 \<Rightarrow> w32 \<Rightarrow> w32 \<Rightarrow> w32 \<Rightarrow> w32 \<Rightarrow> nat \<Rightarrow> w32 \<Rightarrow> w32" where
  "md5ff a b c d x s t = md5cmn ((b AND c) OR (NOT b AND d)) a b x s t"

definition md5gg :: "w32 \<Rightarrow> w32 \<Rightarrow> w32 \<Rightarrow> w32 \<Rightarrow> w32 \<Rightarrow> nat \<Rightarrow> w32 \<Rightarrow> w32" where
  "md5gg a b c d x s t = md5cmn ((b AND d) OR (c AND NOT d)) a b x s t"

definition md5hh :: "w32 \<Rightarrow> w32 \<Rightarrow> w32 \<Rightarrow> w32 \<Rightarrow> w32 \<Rightarrow> nat \<Rightarrow> w32 \<Rightarrow> w32" where
  "md5hh a b c d x s t = md5cmn (b XOR c XOR d) a b x s t"

definition md5ii :: "w32 \<Rightarrow> w32 \<Rightarrow> w32 \<Rightarrow> w32 \<Rightarrow> w32 \<Rightarrow> nat \<Rightarrow> w32 \<Rightarrow> w32" where
  "md5ii a b c d x s t = md5cmn (c XOR (b OR NOT d)) a b x s t"

section \<open>The 64 steps of a block\<close>

type_synonym md5_state = "w32 \<times> w32 \<times> w32 \<times> w32"

definition md5_round1 :: "(nat \<Rightarrow> w32) \<Rightarrow> md5_state \<Rightarrow> md5_state" where
  "md5_round1 x = (\<lambda>(a, b, c, d).
     let a = md5ff a b c d (x 0) 7 (- 680876936);
      d = md5ff d a b c (x 1) 12 (- 389564586);
      c = md5ff c d a b (x 2) 17 (606105819);
      b = md5ff b c d a (x 3) 22 (- 1044525330);
      a = md5ff a b c d (x 4) 7 (- 176418897);
      d = md5ff d a b c (x 5) 12 (1200080426);
      c = md5ff c d a b (x 6) 17 (- 1473231341);
      b = md5ff b c d a (x 7) 22 (- 45705983);
      a = md5ff a b c d (x 8) 7 (1770035416);
      d = md5ff d a b c (x 9) 12 (- 1958414417);
      c = md5ff c d a b (x 10) 17 (- 42063);
      b = md5ff b c d a (x 11) 22 (- 1990404162);
      a = md5ff a b c d (x 12) 7 (1804603682);
      d = md5ff d a b c (x 13) 12 (- 40341101);
      c = md5ff c d a b (x 14) 17 (- 1502002290);
      b = md5ff b c d a (x 15) 22 (1236535329)
     in (a, b, c, d))"

definition md5_round2 :: "(nat \<Rightarrow> w32) \<Rightarrow> md5_state \<Rightarrow> md5_state" where
  "md5_round2 x = (\<lambda>(a, b, c, d).
     let a = md5gg a b c d (x 1) 5 (- 165796510);
      d = md5gg d a b c (x 6) 9 (- 1069501632);
      c = md5gg c d a b (x 11) 14 (643717713);
      b = md5gg b c d a (x 0) 20 (- 373897302);
      a = md5gg a b c d (x 5) 5 (- 701558691);
      d = md5gg d a b c (x 10) 9 (38016083);
      c = md5gg c d a b (x 15) 14 (- 660478335);
      b = md5gg b c d a (x 4) 20 (- 405537848);
      a = md5gg a b c d (x 9) 5 (568446438);
      d = md5gg d a b c (x 14) 9 (- 1019803690);
      c = md5gg c d a b (x 3) 14 (- 187363961);
      b = md5gg b c d a (x 8) 20 (1163531501);
      a = md5gg a b c d (x 13) 5 (- 1444681467);
      d = md5gg d a b c (x 2) 9 (- 51403784);
      c = md5gg c d a b (x 7) 14 (1735328473);
      b = md5gg b c d a (x 12) 20 (- 1926607734)
     in (a, b, c, d))"

definition md5_round3 :: "(nat \<Rightarrow> w32) \<Rightarrow> md5_state \<Rightarrow> md5_state" where
  "md5_round3 x = (\<lambda>(a, b, c, d).
     let a = md5hh a b c d (x 5) 4 (- 378558);
      d = md5hh d a b c (x 8) 11 (- 2022574463);
      c = md5hh c d a b (x 11) 16 (1839030562);
      b = md5hh b c d a (x 14) 23 (- 35309556);
      a = md5hh a b c d (x 1) 4 (- 1530992060);
      d = md5hh d a b c (x 4) 11 (1272893353);
      c = md5hh c d a b (x 7) 16 (- 155497632);
      b = md5hh b c d a (x 10) 23 (- 1094730640);
      a = md5hh a b c d (x 13) 4 (681279174);
      d = md5hh d a b c (x 0) 11 (- 358537222);
      c = md5hh c d a b (x 3) 16 (- 722521979);
      b = md5hh b c d a (x 6) 23 (76029189);
      a = md5hh a b c d (x 9) 4 (- 640364487);
      d = md5hh d a b c (x 12) 11 (- 421815835);
      c = md5hh c d a b (x 15) 16 (530742520);
      b = md5hh b c d a (x 2) 23 (- 995338651)
     in (a, b, c, d))"

definition md5_round4 :: "(nat \<Rightarrow> w32) \<Rightarrow> md5_state \<Rightarrow> md5_state" where
  "md5_round4 x = (\<lambda>(a, b, c, d).
     let a = md5ii a b c d (x 0) 6 (- 198630844);
      d = md5ii d a b c (x 7) 10 (1126891415);
      c = md5ii c d a b (x 14) 15 (- 1416354905);
      b = md5ii b c d a (x 5) 21 (- 57434055);
      a = md5ii a b c d (x 12) 6 (1700485571);
      d = md5ii d a b c (x 3) 10 (- 1894986606);
      c = md5ii c d a b (x 10) 15 (- 1051523);
      b = md5ii b c d a (x 1) 21 (- 2054922799);
      a = md5ii a b c d (x 8) 6 (1873313359);
      d = md5ii d a b c (x 15) 10 (- 30611744);
      c = md5ii c d a b (x 6) 15 (- 1560198380);
      b = md5ii b c d a (x 13) 21 (1309151649);
      a = md5ii a b c d (x 4) 6 (- 145523070);
      d = md5ii d a b c (x 11) 10 (- 1120210379);
      c = md5ii c d a b (x 2) 15 (718787259);
      b = md5ii b c d a (x 9) 21 (- 343485551)
     in (a, b, c, d))"

definition md5_block :: "(nat \<Rightarrow> w32) \<Rightarrow> md5_state \<Rightarrow> md5_state" where
  "md5_block x = (\<lambda>(olda, oldb, oldc, oldd).
     let (a, b, c, d) =
       md5_round4 x (md5_round3 x (md5_round2 x (md5_round1 x (olda, oldb, oldc, oldd))))
     in (safeAdd a olda, safeAdd b oldb, safeAdd c oldc, safeAdd d oldd))"

section \<open>Arrays of words\<close>

text \<open>\<open>arr[i]\<close>, \<open>arr[i] |= w\<close> and \<open>arr[i] = w\<close>; a hole reads as 0.\<close>

definition arr_get :: "w32 list \<Rightarrow> nat \<Rightarrow> w32" where
  "arr_get xs i = (if i < length xs then xs ! i else 0)"

definition arr_set :: "nat \<Rightarrow> w32 \<Rightarrow> w32 list \<Rightarrow> w32 list" where
  "arr_set i w xs =
     (if i < length xs then xs[i := w] else xs @ replicate (i - length xs) 0 @ [w])"

definition arr_or :: "nat \<Rightarrow> w32 \<Rightarrow> w32 list \<Rightarrow> w32 list" where
  "arr_or i w xs = arr_set i (arr_get xs i OR w) xs"

definition md5_pad :: "w32 list \<Rightarrow> nat \<Rightarrow> w32 list" where
  "md5_pad x len =
     arr_set ((len + 64) div 512 * 16 + 14) (of_nat len)
       (arr_or (len div 32) (push_bit (len mod 32) 0x80) x)"

definition md5_init :: md5_state where
  "md5_init = (1732584193, - 271733879, - 1732584194, 271733878)"

text \<open>The loop over the blocks, \<open>i\<close> stepping by 16 while it is below the array's length.\<close>

function md5_blocks :: "w32 list \<Rightarrow> nat \<Rightarrow> md5_state \<Rightarrow> md5_state" where
  "md5_blocks x i st =
     (if i < length x then md5_blocks x (i + 16) (md5_block (\<lambda>k. arr_get x (i + k)) st) else st)"
  by pat_completeness auto
termination by (relation "measure (\<lambda>(x, i, st). length x - i)") auto

declare md5_blocks.simps [simp del]

definition binlMD5 :: "w32 list \<Rightarrow> nat \<Rightarrow> w32 list" where
  "binlMD5 x len =
     (let (a, b, c, d) = md5_blocks (md5_pad x len) 0 md5_init in [a, b, c, d])"

section \<open>Strings of bytes\<close>

definition binl2rstr :: "w32 list \<Rightarrow> jstr" where
  "binl2rstr input =
     map (\<lambda>j. ucast (drop_bit (8 * j mod 32) (arr_get input (8 * j div 32)) AND 0xff))
       [0..<length input * 4]"

definition rstr2binl :: "jstr \<Rightarrow> w32 list" where
  "rstr2binl input =
     fold (\<lambda>j. arr_or (8 * j div 32) (push_bit (8 * j mod 32) (ucast (input ! j) AND 0xff)))
       [0..<length input] (replicate (length input div 4) 0)"

definition rstrMD5 :: "jstr \<Rightarrow> jstr" where
  "rstrMD5 s = binl2rstr (binlMD5 (rstr2binl s) (length s * 8))"

definition rstrHMACMD5 :: "jstr \<Rightarrow> jstr \<Rightarrow> jstr" where
  "rstrHMACMD5 key data =
     (let bkey0 = rstr2binl key;
          bkey = (if length bkey0 > 16 then binlMD5 bkey0 (length key * 8) else bkey0);
          ipad = map (\<lambda>i. arr_get bkey i XOR 0x36363636) [0..<16];
          opad = map (\<lambda>i. arr_get bkey i XOR 0x5c5c5c5c) [0..<16];
          hash = binlMD5 (ipad @ rstr2binl data) (512 + length data * 8)
      in binl2rstr (binlMD5 (opad @ hash) (512 + 128)))"

definition hexTab :: jstr where
  "hexTab = js ''0123456789abcdef''"

definition rstr2hex :: "jstr \<Rightarrow> jstr" where
  "rstr2hex input =
     concat (map (\<lambda>x. [hexTab ! unat (drop_bit 4 x AND 15), hexTab ! unat (x AND 15)]) input)"

text \<open>
  \<open>unescape(encodeURIComponent(s))\<close>: the UTF-8 bytes as code units; a lone surrogate makes
  \<open>encodeURIComponent\<close> throw a \<open>URIError\<close>.
\<close>

definition str2rstrUTF8 :: "jstr \<Rightarrow> jstr option" where
  "str2rstrUTF8 input =
     (if well_formed input then Some (map (\<lambda>b. of_nat (unat b)) (text_encode input)) else None)"

definition rawMD5 :: "jstr \<Rightarrow> jstr option" where
  "rawMD5 s = map_option rstrMD5 (str2rstrUTF8 s)"

definition hexMD5 :: "jstr \<Rightarrow> jstr option" where
  "hexMD5 s = map_option rstr2hex (rawMD5 s)"

definition rawHMACMD5 :: "jstr \<Rightarrow> jstr \<Rightarrow> jstr option" where
  "rawHMACMD5 k d =
     (case (str2rstrUTF8 k, str2rstrUTF8 d) of
        (Some k', Some d') \<Rightarrow> Some (rstrHMACMD5 k' d')
      | _ \<Rightarrow> None)"

definition hexHMACMD5 :: "jstr \<Rightarrow> jstr \<Rightarrow> jstr option" where
  "hexHMACMD5 k d = map_option rstr2hex (rawHMACMD5 k d)"

text \<open>The exported function; an empty key counts as none.\<close>

definition md5 :: "jstr \<Rightarrow> jstr \<Rightarrow> bool \<Rightarrow> jstr option" where
  "md5 s key raw =
     (if key = [] then (if raw then rawMD5 s else hexMD5 s)
      else if raw then rawHMACMD5 key s else hexHMACMD5 key s)"

end
