(* ===== verification/Md5Correct.thy ===== *)
theory Md5Correct
  imports Md5
begin

text \<open>
  What \<open>md5.js\<close> computes: its 32-bit addition in 16-bit halves is addition modulo \<open>2^32\<close>, and
  its 64 unrolled steps are the table-driven loop of RFC 1321; digests have a fixed shape.
\<close>

section \<open>Addition\<close>

lemma split_halves: "push_bit 16 (signed_drop_bit 16 x) + (x AND 0xffff) = (x :: w32)"
proof -
  have m: "(0xffff :: w32) = mask 16" by (simp add: mask_eq_exp_minus_1)
  have "push_bit 16 (signed_drop_bit 16 x) AND (x AND mask 16) = 0"
    by (rule bit_word_eqI) (auto simp: bit_and_iff bit_push_bit_iff bit_mask_iff)
  then have "push_bit 16 (signed_drop_bit 16 x) + (x AND mask 16)
      = push_bit 16 (signed_drop_bit 16 x) OR (x AND mask 16)"
    by (simp add: disjunctive_add_eq_or)
  also have "\<dots> = x"
    by (rule bit_word_eqI)
      (auto simp: bit_or_iff bit_and_iff bit_push_bit_iff bit_mask_iff bit_signed_drop_bit_iff)
  finally show ?thesis by (simp only: m)
qed

lemma push_or_low: "push_bit 16 m OR (x AND 0xffff) = push_bit 16 m + (x AND (0xffff :: w32))"
proof -
  have m: "(0xffff :: w32) = mask 16" by (simp add: mask_eq_exp_minus_1)
  have "push_bit 16 m AND (x AND mask 16) = 0"
    by (rule bit_word_eqI) (auto simp: bit_and_iff bit_push_bit_iff bit_mask_iff)
  then show ?thesis by (simp add: disjunctive_add_eq_or m)
qed

lemma safeAdd_plus: "safeAdd x y = x + y"
proof -
  let ?lsw = "(x AND 0xffff) + (y AND 0xffff)"
  let ?h = "\<lambda>z :: w32. push_bit 16 (signed_drop_bit 16 z)"
  have "safeAdd x y = ?h x + ?h y + (?h ?lsw + (?lsw AND 0xffff))"
    unfolding safeAdd_def Let_def push_or_low by (simp only: push_bit_add add.assoc)
  also have "\<dots> = ?h x + ?h y + ?lsw" by (simp only: split_halves)
  also have "\<dots> = (?h x + (x AND 0xffff)) + (?h y + (y AND 0xffff))"
    by (simp only: add.assoc add.commute add.left_commute)
  also have "\<dots> = x + y" by (simp only: split_halves)
  finally show ?thesis .
qed

section \<open>RFC 1321\<close>

definition rfc_K :: "w32 list" where
  "rfc_K =
     [0xd76aa478, 0xe8c7b756, 0x242070db, 0xc1bdceee,
      0xf57c0faf, 0x4787c62a, 0xa8304613, 0xfd469501,
      0x698098d8, 0x8b44f7af, 0xffff5bb1, 0x895cd7be,
      0x6b901122, 0xfd987193, 0xa679438e, 0x49b40821,
      0xf61e2562, 0xc040b340, 0x265e5a51, 0xe9b6c7aa,
      0xd62f105d, 0x02441453, 0xd8a1e681, 0xe7d3fbc8,
      0x21e1cde6, 0xc33707d6, 0xf4d50d87, 0x455a14ed,
      0xa9e3e905, 0xfcefa3f8, 0x676f02d9, 0x8d2a4c8a,
      0xfffa3942, 0x8771f681, 0x6d9d6122, 0xfde5380c,
      0xa4beea44, 0x4bdecfa9, 0xf6bb4b60, 0xbebfbc70,
      0x289b7ec6, 0xeaa127fa, 0xd4ef3085, 0x04881d05,
      0xd9d4d039, 0xe6db99e5, 0x1fa27cf8, 0xc4ac5665,
      0xf4292244, 0x432aff97, 0xab9423a7, 0xfc93a039,
      0x655b59c3, 0x8f0ccc92, 0xffeff47d, 0x85845dd1,
      0x6fa87e4f, 0xfe2ce6e0, 0xa3014314, 0x4e0811a1,
      0xf7537e82, 0xbd3af235, 0x2ad7d2bb, 0xeb86d391]"

definition rfc_s :: "nat list" where
  "rfc_s = concat (map (\<lambda>r. concat (replicate 4 r)) [[7, 12, 17, 22], [5, 9, 14, 20], [4, 11, 16, 23], [6, 10, 15, 21]])"

definition rfc_f :: "nat \<Rightarrow> w32 \<Rightarrow> w32 \<Rightarrow> w32 \<Rightarrow> w32" where
  "rfc_f i b c d =
     (if i < 16 then (b AND c) OR (NOT b AND d)
      else if i < 32 then (d AND b) OR (NOT d AND c)
      else if i < 48 then b XOR c XOR d
      else c XOR (b OR NOT d))"

definition rfc_index :: "nat \<Rightarrow> nat" where
  "rfc_index i =
     (if i < 16 then i else if i < 32 then (5 * i + 1) mod 16
      else if i < 48 then (3 * i + 5) mod 16 else (7 * i) mod 16)"

definition rotl :: "w32 \<Rightarrow> nat \<Rightarrow> w32" where
  "rotl w n = word_rotl n w"

definition rfc_step :: "(nat \<Rightarrow> w32) \<Rightarrow> nat \<Rightarrow> md5_state \<Rightarrow> md5_state" where
  "rfc_step x i = (\<lambda>(a, b, c, d).
     (d, b + rotl (a + rfc_f i b c d + rfc_K ! i + x (rfc_index i)) (rfc_s ! i), b, c))"

definition rfc_block :: "(nat \<Rightarrow> w32) \<Rightarrow> md5_state \<Rightarrow> md5_state" where
  "rfc_block x = (\<lambda>(a0, b0, c0, d0).
     let (a, b, c, d) = fold (rfc_step x) [0..<64] (a0, b0, c0, d0)
     in (a0 + a, b0 + b, c0 + c, d0 + d))"

lemma bitRotateLeft_rotl: "0 < n \<Longrightarrow> n < 32 \<Longrightarrow> bitRotateLeft w n = rotl w n"
proof -
  assume n: "0 < n" "n < 32"
  show ?thesis
    unfolding bitRotateLeft_def rotl_def
  proof (rule bit_word_eqI)
    fix k assume "k < LENGTH(32)"
    then have k: "k < 32" by simp
    show "bit (push_bit n w OR drop_bit (32 - n) w) k = bit (word_rotl n w) k"
    proof (cases "n \<le> k")
      case True
      then have "(k + (32 - n)) mod 32 = k - n" using k n by (simp add: mod_if)
      moreover have "\<not> bit w (32 - n + k)" using True n by (auto dest: bit_imp_le_length)
      ultimately show ?thesis
        using True k n by (simp add: bit_or_iff bit_push_bit_iff bit_drop_bit_eq bit_word_rotl_iff)
    next
      case False
      then have "(k + (32 - n)) mod 32 = 32 - n + k" using k n by (auto simp: mod_if)
      then show ?thesis
        using False k n by (simp add: bit_or_iff bit_push_bit_iff bit_drop_bit_eq bit_word_rotl_iff)
    qed
  qed
qed

text \<open>Four unrolled steps, each assigning one of the four variables, are four steps of the loop.\<close>

type_synonym md5_fun = "w32 \<Rightarrow> w32 \<Rightarrow> w32 \<Rightarrow> w32 \<Rightarrow> w32 \<Rightarrow> nat \<Rightarrow> w32 \<Rightarrow> w32"

definition quad ::
  "md5_fun \<Rightarrow> w32 \<times> nat \<times> w32 \<Rightarrow> w32 \<times> nat \<times> w32 \<Rightarrow> w32 \<times> nat \<times> w32 \<Rightarrow> w32 \<times> nat \<times> w32 \<Rightarrow>
   md5_state \<Rightarrow> md5_state"
where
  "quad h = (\<lambda>(x0, s0, t0) (x1, s1, t1) (x2, s2, t2) (x3, s3, t3) (a, b, c, d).
     let a = h a b c d x0 s0 t0;
         d = h d a b c x1 s1 t1;
         c = h c d a b x2 s2 t2;
         b = h b c d a x3 s3 t3
     in (a, b, c, d))"

lemma case_Let: "(case Let v f of (p, q) \<Rightarrow> g p q) = Let v (\<lambda>x. case f x of (p, q) \<Rightarrow> g p q)"
  by (simp add: Let_def)

lemma quad_case:
  "quad h (x0, s0, t0) (x1, s1, t1) (x2, s2, t2) (x3, s3, t3) (Let v f) =
     Let v (\<lambda>x. quad h (x0, s0, t0) (x1, s1, t1) (x2, s2, t2) (x3, s3, t3) (f x))"
  by (simp add: Let_def)

lemma md5_round1_quads:
  "md5_round1 x (a, b, c, d) =
     quad md5ff (x 12, 7, 1804603682) (x 13, 12, (- 40341101)) (x 14, 17, (- 1502002290)) (x 15, 22, 1236535329)
      (quad md5ff (x 8, 7, 1770035416) (x 9, 12, (- 1958414417)) (x 10, 17, (- 42063)) (x 11, 22, (- 1990404162))
      (quad md5ff (x 4, 7, (- 176418897)) (x 5, 12, 1200080426) (x 6, 17, (- 1473231341)) (x 7, 22, (- 45705983))
      (quad md5ff (x 0, 7, (- 680876936)) (x 1, 12, (- 389564586)) (x 2, 17, 606105819) (x 3, 22, (- 1044525330)) (a, b, c, d))))"
  unfolding md5_round1_def by (simp only: quad_def prod.case case_Let)

lemma md5_round2_quads:
  "md5_round2 x (a, b, c, d) =
     quad md5gg (x 13, 5, (- 1444681467)) (x 2, 9, (- 51403784)) (x 7, 14, 1735328473) (x 12, 20, (- 1926607734))
      (quad md5gg (x 9, 5, 568446438) (x 14, 9, (- 1019803690)) (x 3, 14, (- 187363961)) (x 8, 20, 1163531501)
      (quad md5gg (x 5, 5, (- 701558691)) (x 10, 9, 38016083) (x 15, 14, (- 660478335)) (x 4, 20, (- 405537848))
      (quad md5gg (x 1, 5, (- 165796510)) (x 6, 9, (- 1069501632)) (x 11, 14, 643717713) (x 0, 20, (- 373897302)) (a, b, c, d))))"
  unfolding md5_round2_def by (simp only: quad_def prod.case case_Let)

lemma md5_round3_quads:
  "md5_round3 x (a, b, c, d) =
     quad md5hh (x 9, 4, (- 640364487)) (x 12, 11, (- 421815835)) (x 15, 16, 530742520) (x 2, 23, (- 995338651))
      (quad md5hh (x 13, 4, 681279174) (x 0, 11, (- 358537222)) (x 3, 16, (- 722521979)) (x 6, 23, 76029189)
      (quad md5hh (x 1, 4, (- 1530992060)) (x 4, 11, 1272893353) (x 7, 16, (- 155497632)) (x 10, 23, (- 1094730640))
      (quad md5hh (x 5, 4, (- 378558)) (x 8, 11, (- 2022574463)) (x 11, 16, 1839030562) (x 14, 23, (- 35309556)) (a, b, c, d))))"
  unfolding md5_round3_def by (simp only: quad_def prod.case case_Let)

lemma md5_round4_quads:
  "md5_round4 x (a, b, c, d) =
     quad md5ii (x 4, 6, (- 145523070)) (x 11, 10, (- 1120210379)) (x 2, 15, 718787259) (x 9, 21, (- 343485551))
      (quad md5ii (x 8, 6, 1873313359) (x 15, 10, (- 30611744)) (x 6, 15, (- 1560198380)) (x 13, 21, 1309151649)
      (quad md5ii (x 12, 6, 1700485571) (x 3, 10, (- 1894986606)) (x 10, 15, (- 1051523)) (x 1, 21, (- 2054922799))
      (quad md5ii (x 0, 6, (- 198630844)) (x 7, 10, 1126891415) (x 14, 15, (- 1416354905)) (x 5, 21, (- 57434055)) (a, b, c, d))))"
  unfolding md5_round4_def by (simp only: quad_def prod.case case_Let)

lemma rfc_steps:
  "fold (rfc_step x) [0..<64] st =
     fold (rfc_step x) [48..<64] (fold (rfc_step x) [32..<48] (fold (rfc_step x) [16..<32] (fold (rfc_step x) [0..<16] st)))"
proof -
  have "[0..<64] = [0..<16] @ [16..<32] @ [32..<48] @ [48..<(64 :: nat)]"
    by (simp add: upt_conv_Cons)
  then show ?thesis by (simp only: fold_append o_apply)
qed

text \<open>One step of the loop in terms of the step functions of the source.\<close>

definition step_fun :: "nat \<Rightarrow> md5_fun" where
  "step_fun i = (if i < 16 then md5ff else if i < 32 then md5gg else if i < 48 then md5hh else md5ii)"

lemma rfc_s_bounds: "i < 64 \<Longrightarrow> 0 < rfc_s ! i \<and> rfc_s ! i < 32"
proof -
  have "\<forall>n \<in> set rfc_s. 0 < n \<and> n < 32" "length rfc_s = 64"
    by (simp_all add: rfc_s_def numeral_eq_Suc)
  then show "i < 64 \<Longrightarrow> 0 < rfc_s ! i \<and> rfc_s ! i < 32" by simp
qed

lemma rfc_step_fun:
  assumes "i < 64"
  shows "rfc_step x i (a, b, c, d) = (d, step_fun i a b c d (x (rfc_index i)) (rfc_s ! i) (rfc_K ! i), b, c)"
proof -
  have "step_fun i a b c d y s t = md5cmn (rfc_f i b c d) a b y s t" for y s t
    by (auto simp: step_fun_def rfc_f_def md5ff_def md5gg_def md5hh_def md5ii_def and.commute)
  then show ?thesis
    using rfc_s_bounds [OF assms]
    by (simp add: rfc_step_def md5cmn_def safeAdd_plus bitRotateLeft_rotl add.assoc add.commute add.left_commute)
qed

lemma rfc_quad:
  assumes "h = step_fun i" "h = step_fun (i + 1)" "h = step_fun (i + 2)" "h = step_fun (i + 3)" "i + 3 < 64" "i + 4 \<le> n"
  shows "fold (rfc_step x) [i..<n] st = fold (rfc_step x) [i + 4..<n]
    (quad h (x (rfc_index i), rfc_s ! i, rfc_K ! i) (x (rfc_index (i + 1)), rfc_s ! (i + 1), rfc_K ! (i + 1))
      (x (rfc_index (i + 2)), rfc_s ! (i + 2), rfc_K ! (i + 2))
      (x (rfc_index (i + 3)), rfc_s ! (i + 3), rfc_K ! (i + 3)) st)"
proof -
  obtain a b c d where st: "st = (a, b, c, d)" by (cases st)
  have "[i..<n] = i # (i + 1) # (i + 2) # (i + 3) # [i + 4..<n]"
    using assms(6) by (simp add: upt_conv_Cons eval_nat_numeral)
  then show ?thesis
    using assms(1-5) by (simp add: st rfc_step_fun quad_def Let_def)
qed

lemma rfc_K_signed:
  "rfc_K =
     [- 680876936, - 389564586, 606105819, - 1044525330,
      - 176418897, 1200080426, - 1473231341, - 45705983,
      1770035416, - 1958414417, - 42063, - 1990404162,
      1804603682, - 40341101, - 1502002290, 1236535329,
      - 165796510, - 1069501632, 643717713, - 373897302,
      - 701558691, 38016083, - 660478335, - 405537848,
      568446438, - 1019803690, - 187363961, 1163531501,
      - 1444681467, - 51403784, 1735328473, - 1926607734,
      - 378558, - 2022574463, 1839030562, - 35309556,
      - 1530992060, 1272893353, - 155497632, - 1094730640,
      681279174, - 358537222, - 722521979, 76029189,
      - 640364487, - 421815835, 530742520, - 995338651,
      - 198630844, 1126891415, - 1416354905, - 57434055,
      1700485571, - 1894986606, - 1051523, - 2054922799,
      1873313359, - 30611744, - 1560198380, 1309151649,
      - 145523070, - 1120210379, 718787259, - 343485551]"
  by (simp add: rfc_K_def)

lemma rfc_s_list:
  "rfc_s =
     [7, 12, 17, 22, 7, 12, 17, 22, 7, 12, 17, 22, 7, 12, 17, 22,
      5, 9, 14, 20, 5, 9, 14, 20, 5, 9, 14, 20, 5, 9, 14, 20,
      4, 11, 16, 23, 4, 11, 16, 23, 4, 11, 16, 23, 4, 11, 16, 23,
      6, 10, 15, 21, 6, 10, 15, 21, 6, 10, 15, 21, 6, 10, 15, 21]"
  by (simp add: rfc_s_def numeral_eq_Suc)

lemma rfc_index_list:
  assumes "i < 64"
  shows "rfc_index i =
     [0, 1, 2, 3, 4, 5, 6, 7, 8, 9, 10, 11, 12, 13, 14, 15,
      1, 6, 11, 0, 5, 10, 15, 4, 9, 14, 3, 8, 13, 2, 7, 12,
      5, 8, 11, 14, 1, 4, 7, 10, 13, 0, 3, 6, 9, 12, 15, 2,
      0, 7, 14, 5, 12, 3, 10, 1, 8, 15, 6, 13, 4, 11, 2, 9] ! i"
proof -
  have "map rfc_index [0..<64] =
     [0, 1, 2, 3, 4, 5, 6, 7, 8, 9, 10, 11, 12, 13, 14, 15,
      1, 6, 11, 0, 5, 10, 15, 4, 9, 14, 3, 8, 13, 2, 7, 12,
      5, 8, 11, 14, 1, 4, 7, 10, 13, 0, 3, 6, 9, 12, 15, 2,
      0, 7, 14, 5, 12, 3, 10, 1, 8, 15, 6, 13, 4, 11, 2, 9]"
    by code_simp
  then show ?thesis using nth_map [of i "[0..<64]" rfc_index] assms by simp
qed

lemmas rfc_tables = step_fun_def rfc_index_list rfc_K_signed rfc_s_list

lemma rfc_round1: "fold (rfc_step x) [0..<16] st = md5_round1 x st"
proof -
  have "fold (rfc_step x) [0..<16] u = fold (rfc_step x) [4..<16]
      (quad md5ff (x 0, 7, - 680876936) (x 1, 12, - 389564586) (x 2, 17, 606105819) (x 3, 22, - 1044525330) u)" for u
    using rfc_quad [of md5ff 0 16 x u] by (simp add: rfc_tables numeral_2_eq_2 del: upt_rec_numeral)
  moreover
  have "fold (rfc_step x) [4..<16] u = fold (rfc_step x) [8..<16]
      (quad md5ff (x 4, 7, - 176418897) (x 5, 12, 1200080426) (x 6, 17, - 1473231341) (x 7, 22, - 45705983) u)" for u
    using rfc_quad [of md5ff 4 16 x u] by (simp add: rfc_tables numeral_2_eq_2 del: upt_rec_numeral)
  moreover
  have "fold (rfc_step x) [8..<16] u = fold (rfc_step x) [12..<16]
      (quad md5ff (x 8, 7, 1770035416) (x 9, 12, - 1958414417) (x 10, 17, - 42063) (x 11, 22, - 1990404162) u)" for u
    using rfc_quad [of md5ff 8 16 x u] by (simp add: rfc_tables numeral_2_eq_2 del: upt_rec_numeral)
  moreover
  have "fold (rfc_step x) [12..<16] u = fold (rfc_step x) [16..<16]
      (quad md5ff (x 12, 7, 1804603682) (x 13, 12, - 40341101) (x 14, 17, - 1502002290) (x 15, 22, 1236535329) u)" for u
    using rfc_quad [of md5ff 12 16 x u] by (simp add: rfc_tables numeral_2_eq_2 del: upt_rec_numeral)
  ultimately show ?thesis by (cases st) (simp add: md5_round1_quads)
qed

lemma rfc_round2: "fold (rfc_step x) [16..<32] st = md5_round2 x st"
proof -
  have "fold (rfc_step x) [16..<32] u = fold (rfc_step x) [20..<32]
      (quad md5gg (x 1, 5, - 165796510) (x 6, 9, - 1069501632) (x 11, 14, 643717713) (x 0, 20, - 373897302) u)" for u
    using rfc_quad [of md5gg 16 32 x u] by (simp add: rfc_tables numeral_2_eq_2 del: upt_rec_numeral)
  moreover
  have "fold (rfc_step x) [20..<32] u = fold (rfc_step x) [24..<32]
      (quad md5gg (x 5, 5, - 701558691) (x 10, 9, 38016083) (x 15, 14, - 660478335) (x 4, 20, - 405537848) u)" for u
    using rfc_quad [of md5gg 20 32 x u] by (simp add: rfc_tables numeral_2_eq_2 del: upt_rec_numeral)
  moreover
  have "fold (rfc_step x) [24..<32] u = fold (rfc_step x) [28..<32]
      (quad md5gg (x 9, 5, 568446438) (x 14, 9, - 1019803690) (x 3, 14, - 187363961) (x 8, 20, 1163531501) u)" for u
    using rfc_quad [of md5gg 24 32 x u] by (simp add: rfc_tables numeral_2_eq_2 del: upt_rec_numeral)
  moreover
  have "fold (rfc_step x) [28..<32] u = fold (rfc_step x) [32..<32]
      (quad md5gg (x 13, 5, - 1444681467) (x 2, 9, - 51403784) (x 7, 14, 1735328473) (x 12, 20, - 1926607734) u)" for u
    using rfc_quad [of md5gg 28 32 x u] by (simp add: rfc_tables numeral_2_eq_2 del: upt_rec_numeral)
  ultimately show ?thesis by (cases st) (simp add: md5_round2_quads)
qed

lemma rfc_round3: "fold (rfc_step x) [32..<48] st = md5_round3 x st"
proof -
  have "fold (rfc_step x) [32..<48] u = fold (rfc_step x) [36..<48]
      (quad md5hh (x 5, 4, - 378558) (x 8, 11, - 2022574463) (x 11, 16, 1839030562) (x 14, 23, - 35309556) u)" for u
    using rfc_quad [of md5hh 32 48 x u] by (simp add: rfc_tables numeral_2_eq_2 del: upt_rec_numeral)
  moreover
  have "fold (rfc_step x) [36..<48] u = fold (rfc_step x) [40..<48]
      (quad md5hh (x 1, 4, - 1530992060) (x 4, 11, 1272893353) (x 7, 16, - 155497632) (x 10, 23, - 1094730640) u)" for u
    using rfc_quad [of md5hh 36 48 x u] by (simp add: rfc_tables numeral_2_eq_2 del: upt_rec_numeral)
  moreover
  have "fold (rfc_step x) [40..<48] u = fold (rfc_step x) [44..<48]
      (quad md5hh (x 13, 4, 681279174) (x 0, 11, - 358537222) (x 3, 16, - 722521979) (x 6, 23, 76029189) u)" for u
    using rfc_quad [of md5hh 40 48 x u] by (simp add: rfc_tables numeral_2_eq_2 del: upt_rec_numeral)
  moreover
  have "fold (rfc_step x) [44..<48] u = fold (rfc_step x) [48..<48]
      (quad md5hh (x 9, 4, - 640364487) (x 12, 11, - 421815835) (x 15, 16, 530742520) (x 2, 23, - 995338651) u)" for u
    using rfc_quad [of md5hh 44 48 x u] by (simp add: rfc_tables numeral_2_eq_2 del: upt_rec_numeral)
  ultimately show ?thesis by (cases st) (simp add: md5_round3_quads)
qed

lemma rfc_round4: "fold (rfc_step x) [48..<64] st = md5_round4 x st"
proof -
  have "fold (rfc_step x) [48..<64] u = fold (rfc_step x) [52..<64]
      (quad md5ii (x 0, 6, - 198630844) (x 7, 10, 1126891415) (x 14, 15, - 1416354905) (x 5, 21, - 57434055) u)" for u
    using rfc_quad [of md5ii 48 64 x u] by (simp add: rfc_tables numeral_2_eq_2 del: upt_rec_numeral)
  moreover
  have "fold (rfc_step x) [52..<64] u = fold (rfc_step x) [56..<64]
      (quad md5ii (x 12, 6, 1700485571) (x 3, 10, - 1894986606) (x 10, 15, - 1051523) (x 1, 21, - 2054922799) u)" for u
    using rfc_quad [of md5ii 52 64 x u] by (simp add: rfc_tables numeral_2_eq_2 del: upt_rec_numeral)
  moreover
  have "fold (rfc_step x) [56..<64] u = fold (rfc_step x) [60..<64]
      (quad md5ii (x 8, 6, 1873313359) (x 15, 10, - 30611744) (x 6, 15, - 1560198380) (x 13, 21, 1309151649) u)" for u
    using rfc_quad [of md5ii 56 64 x u] by (simp add: rfc_tables numeral_2_eq_2 del: upt_rec_numeral)
  moreover
  have "fold (rfc_step x) [60..<64] u = fold (rfc_step x) [64..<64]
      (quad md5ii (x 4, 6, - 145523070) (x 11, 10, - 1120210379) (x 2, 15, 718787259) (x 9, 21, - 343485551) u)" for u
    using rfc_quad [of md5ii 60 64 x u] by (simp add: rfc_tables numeral_2_eq_2 del: upt_rec_numeral)
  ultimately show ?thesis by (cases st) (simp add: md5_round4_quads)
qed

lemma md5_block_rfc: "md5_block x st = rfc_block x st"
  by (cases st) (simp only: md5_block_def rfc_block_def prod.case rfc_steps rfc_round1 rfc_round2 rfc_round3
      rfc_round4 safeAdd_plus Let_def add.commute)

section \<open>The whole digest\<close>

lemma length_arr_set: "length (arr_set i w xs) = max (length xs) (Suc i)"
  by (simp add: arr_set_def)

lemma length_md5_pad:
  assumes "length x \<le> (len + 64) div 512 * 16 + 14"
  shows "length (md5_pad x len) = (len + 64) div 512 * 16 + 15"
proof -
  define q where "q = (len + 64) div 512"
  obtain r where "r < 512" "len + 64 = q * 512 + r"
    using mod_less_divisor [of 512 "len + 64"] by (metis q_def div_mult_mod_eq zero_less_numeral)
  then have "len < (q * 16 + 14) * 32" by simp
  then have "len div 32 < q * 16 + 14" by (rule less_mult_imp_div_less)
  then have "len div 32 \<le> (len + 64) div 512 * 16 + 14" by (simp add: q_def)
  with assms show ?thesis by (simp add: md5_pad_def length_arr_set arr_or_def)
qed

lemma md5_blocks_fold:
  "length p = 16 * n + 15 \<Longrightarrow> k \<le> Suc n \<Longrightarrow>
   md5_blocks p (16 * k) st = fold (\<lambda>k. md5_block (\<lambda>j. arr_get p (16 * k + j))) [k..<Suc n] st"
proof (induction "Suc n - k" arbitrary: k st)
  case 0
  then have "k = Suc n" by simp
  with 0 show ?case by (subst md5_blocks.simps) simp
next
  case (Suc m)
  then have k: "k < Suc n" by simp
  have "md5_blocks p (16 * k) st = md5_blocks p (16 * Suc k) (md5_block (\<lambda>j. arr_get p (16 * k + j)) st)"
    using k Suc.prems by (subst md5_blocks.simps) (simp add: add.commute)
  also have "\<dots> = fold (\<lambda>k. md5_block (\<lambda>j. arr_get p (16 * k + j))) [Suc k..<Suc n]
      (md5_block (\<lambda>j. arr_get p (16 * k + j)) st)"
    using Suc k by (intro Suc.hyps) auto
  finally show ?case using k by (simp add: upt_conv_Cons del: upt_Suc)
qed

lemma length_binlMD5 [simp]: "length (binlMD5 x len) = 4"
  by (simp add: binlMD5_def split: prod.split)

lemma rstr2hex_shape: "length (rstr2hex s) = 2 * length s \<and> set (rstr2hex s) \<subseteq> set hexTab"
proof -
  have "length hexTab = 16" by (simp add: hexTab_def)
  moreover have "unat (x AND 15) < 16" for x :: unit16
  proof -
    have "x AND 15 = take_bit 4 x" by (simp add: take_bit_eq_mask mask_eq_exp_minus_1)
    then have "unat (x AND 15) = take_bit 4 (unat x)" by (simp only: unsigned_take_bit_eq)
    then show ?thesis using take_bit_nat_less_exp [of 4 "unat x"] by simp
  qed
  ultimately have hex: "hexTab ! unat (x AND 15) \<in> set hexTab" for x :: unit16
    by (intro nth_mem) (simp only:)
  show ?thesis by (induction s) (auto simp: rstr2hex_def hex)
qed

lemma length_rstrMD5: "length (rstrMD5 s) = 16"
  by (simp add: rstrMD5_def binl2rstr_def)

section \<open>Properties\<close>

text \<open>
  C37. The unrolled code computes MD5's compression: the digest of a word array is the RFC 1321
  loop, 64 table-driven steps a block and additions modulo 2^32, over all blocks of the padded
  array, from the standard initial state.
\<close>

theorem md5_rfc1321:
  assumes "length x \<le> (len + 64) div 512 * 16 + 14"
  shows "binlMD5 x len =
    (let (a, b, c, d) = fold (\<lambda>k. rfc_block (\<lambda>j. arr_get (md5_pad x len) (16 * k + j)))
           [0..<Suc ((len + 64) div 512)] md5_init
     in [a, b, c, d])"
proof -
  have "md5_block = rfc_block" by (intro ext md5_block_rfc)
  moreover have "length (md5_pad x len) = 16 * ((len + 64) div 512) + 15"
    using length_md5_pad [OF assms] by simp
  ultimately show ?thesis
    using md5_blocks_fold [of "md5_pad x len" "(len + 64) div 512" 0 md5_init]
    by (simp add: binlMD5_def del: upt_Suc)
qed

theorem md5_rfc1321_witness:
  "binlMD5 [0x00636261] 24 =
    (let (a, b, c, d) = rfc_block (\<lambda>j. arr_get (md5_pad [0x00636261] 24) j) md5_init in [a, b, c, d])"
  using md5_rfc1321 [of "[0x00636261]" 24] by simp

text \<open>
  A hex digest is defined for every string without lone surrogates, and is 32 lower-case
  hex digits long; a string with one raises.
\<close>

theorem hexMD5_shape:
  "(case hexMD5 s of None \<Rightarrow> \<not> well_formed s
    | Some h \<Rightarrow> well_formed s \<and> length h = 32 \<and> set h \<subseteq> set hexTab)"
  using rstr2hex_shape length_rstrMD5
  by (simp add: hexMD5_def rawMD5_def str2rstrUTF8_def)

end
