(* ===== verification/TunnelId.thy ===== *)
theory TunnelId
  imports Md5Correct RelayCorrect
begin

text \<open>
  Tunnel identity, \<open>extension/lib/tunnel-id.js\<close>: the 20-byte relay identifier of a UUID and
  the public entry point derived from its MD5.
\<close>

definition strip_dashes :: "jstr \<Rightarrow> jstr" where
  "strip_dashes s = filter (\<lambda>c. c \<noteq> cu CHR ''-'') s"

text \<open>\<open>id[i] = parseInt(...)\<close>: NaN is stored as 0, every number modulo 256.\<close>

definition to_uint8 :: "int option \<Rightarrow> byte" where
  "to_uint8 n = (case n of None \<Rightarrow> 0 | Some k \<Rightarrow> of_int k)"

text \<open>\<open>None\<close> is the thrown \<open>invalid UUID\<close>.\<close>

definition uuidToTunnelIdBytes :: "jstr \<Rightarrow> bytes option" where
  "uuidToTunnelIdBytes uuid =
     (let hex = strip_dashes uuid in
      if length hex \<noteq> 32 then None
      else Some (map (\<lambda>i. to_uint8 (parse_int (slice hex (i * 2) (i * 2 + 2)) 16)) [0..<16]
                   @ replicate 4 0))"

definition DEFAULT_DOMAIN :: jstr where
  "DEFAULT_DOMAIN = js ''gost.run''"

definition entrypointFromUuid :: "jstr \<Rightarrow> jstr \<Rightarrow> jstr option" where
  "entrypointFromUuid uuid domain =
     map_option (\<lambda>h. js ''https://'' @ slice h 0 16 @ js ''.'' @ domain) (md5 uuid [] False)"

section \<open>Canonical UUIDs\<close>

text \<open>Two lower-case hex digits a byte, as \<open>crypto.randomUUID()\<close> prints them.\<close>

definition hex2 :: "byte \<Rightarrow> jstr" where
  "hex2 b = [digit_unit (unat b div 16), digit_unit (unat b mod 16)]"

definition uuid_text :: "bytes \<Rightarrow> jstr" where
  "uuid_text bs =
     (let h = concat (map hex2 bs); d = [cu CHR ''-''] in
      slice h 0 8 @ d @ slice h 8 12 @ d @ slice h 12 16 @ d @ slice h 16 20 @ d @ slice h 20 32)"

lemma byte_digits: "unat (b :: byte) div 16 < 16" "unat b mod 16 < 16"
  using unat_byte_less [of b] by (simp_all add: less_mult_imp_div_less)

lemma parse_hex2: "to_uint8 (parse_int (hex2 b) 16) = b"
proof -
  note d = byte_digits [of b]
  have "is_digit 16 (digit_unit (unat b div 16))" "is_digit 16 (digit_unit (unat b mod 16))"
    using d by simp_all
  moreover have "lower_unit (digit_unit (unat b mod 16)) \<noteq> cu CHR ''x''"
    using d by (auto simp: lower_unit_def cu_def word_unat_eq_iff word_le_nat_alt unat_digit_unit split: if_splits)
  ultimately have "parse_int (hex2 b) 16 = Some (int (digits_value 16 (hex2 b)))"
    using d by (intro parse_int_plain) (auto simp: hex2_def to_lower_def)
  moreover have "digits_value 16 (hex2 b) = unat b"
    using d by (simp add: hex2_def digits_value_def)
  ultimately show ?thesis by (simp add: to_uint8_def)
qed

lemma length_concat_hex2: "length (concat (map hex2 bs)) = 2 * length bs"
  by (induction bs) (simp_all add: hex2_def)

lemma slice_concat_hex2:
  "i < length bs \<Longrightarrow> slice (concat (map hex2 bs)) (i * 2) (i * 2 + 2) = hex2 (bs ! i)"
proof (induction bs arbitrary: i)
  case (Cons b bs)
  then show ?case by (cases i) (simp_all add: slice_def hex2_def)
qed simp

lemma strip_dashes_hex2: "strip_dashes (concat (map hex2 bs)) = concat (map hex2 bs)"
proof -
  have "unat b div 16 < 36" "unat b mod 16 < 36" for b :: byte
    using byte_digits [of b] by linarith+
  then show ?thesis by (induction bs) (simp_all add: strip_dashes_def hex2_def)
qed

lemma strip_uuid_text: "length bs = 16 \<Longrightarrow> strip_dashes (uuid_text bs) = concat (map hex2 bs)"
proof -
  assume len: "length bs = 16"
  let ?h = "concat (map hex2 bs)"
  have h: "length ?h = 32" using len by (simp add: length_concat_hex2)
  have app: "strip_dashes (xs @ ys) = strip_dashes xs @ strip_dashes ys" for xs ys
    by (simp add: strip_dashes_def)
  have "set (slice ?h i j) \<subseteq> set ?h" for i j
    unfolding slice_def by (meson set_drop_subset set_take_subset subset_trans)
  moreover have "cu CHR ''-'' \<notin> set ?h"
    using strip_dashes_hex2 [of bs] unfolding strip_dashes_def filter_id_conv by blast
  ultimately have "strip_dashes (slice ?h i j) = slice ?h i j" for i j
    unfolding strip_dashes_def filter_id_conv by blast
  moreover have "strip_dashes (cu CHR ''-'' # xs) = strip_dashes xs" for xs by (simp add: strip_dashes_def)
  ultimately have "strip_dashes (uuid_text bs)
      = slice ?h 0 8 @ slice ?h 8 12 @ slice ?h 12 16 @ slice ?h 16 20 @ slice ?h 20 32"
    by (simp add: uuid_text_def Let_def app)
  also have "\<dots> = ?h"
    using h slice_all [of ?h] by (simp add: slice_join)
  finally show ?thesis .
qed

section \<open>Properties\<close>

text \<open>
  The relay identifier of a canonical UUID is its sixteen bytes and four zero bytes, it is
  the size the relay's tunnel feature takes, and different UUIDs have different identifiers.
\<close>

theorem tunnel_id_of_uuid:
  assumes "length bs = 16" "length cs = 16"
  shows "uuidToTunnelIdBytes (uuid_text bs) = Some (bs @ [0, 0, 0, 0])
    \<and> encodeTunnel (bs @ [0, 0, 0, 0]) = Inr (bs @ [0, 0, 0, 0])
    \<and> (uuidToTunnelIdBytes (uuid_text bs) = uuidToTunnelIdBytes (uuid_text cs) \<longleftrightarrow> bs = cs)"
proof -
  have id: "uuidToTunnelIdBytes (uuid_text xs) = Some (xs @ [0, 0, 0, 0])" if "length xs = 16" for xs
  proof -
    let ?h = "concat (map hex2 xs)"
    have "map (\<lambda>i. to_uint8 (parse_int (slice ?h (i * 2) (i * 2 + 2)) 16)) [0..<16] = xs"
      using that by (intro nth_equalityI) (simp_all only: length_map length_upt nth_map_upt diff_zero
          add_0 slice_concat_hex2 parse_hex2)
    then show ?thesis
      using that
      by (simp add: uuidToTunnelIdBytes_def strip_uuid_text length_concat_hex2 numeral_eq_Suc del: upt_Suc)
  qed
  show ?thesis using id [OF assms(1)] id [OF assms(2)] assms by (simp add: encodeTunnel_def)
qed

theorem tunnel_id_of_uuid_witness:
  "uuidToTunnelIdBytes (uuid_text (map of_nat [0..<16])) = Some (map of_nat [0..<16] @ [0, 0, 0, 0])"
  using tunnel_id_of_uuid [of "map of_nat [0..<16]" "map of_nat [0..<16]"] by simp

lemma uuid_text_ascii: "ascii (uuid_text bs)"
proof -
  have "ascii (hex2 b)" for b
  proof -
    have "unat b div 16 < 36" "unat b mod 16 < 36" using byte_digits [of b] by linarith+
    then show ?thesis by (simp add: hex2_def)
  qed
  then have "ascii (concat (map hex2 bs))" by (induction bs) simp_all
  then have "ascii (slice (concat (map hex2 bs)) i j)" for i j
    unfolding ascii_def slice_def by (meson in_set_dropD in_set_takeD)
  then show ?thesis by (simp add: uuid_text_def Let_def cu_def)
qed

text \<open>
  Every UUID has an entry point, and its host label is sixteen lower-case hex digits under
  the domain.
\<close>

theorem entrypoint_shape:
  "\<exists>label. entrypointFromUuid (uuid_text bs) domain = Some (js ''https://'' @ label @ js ''.'' @ domain)
     \<and> length label = 16 \<and> set label \<subseteq> set hexTab"
proof -
  have "well_formed (uuid_text bs)" by (rule ascii_well_formed [OF uuid_text_ascii])
  then obtain h where h: "hexMD5 (uuid_text bs) = Some h" "h = rstr2hex (rstrMD5 (map (\<lambda>b. of_nat (unat b)) (text_encode (uuid_text bs))))"
    by (simp add: hexMD5_def rawMD5_def str2rstrUTF8_def)
  have "length h = 32" "set h \<subseteq> set hexTab"
    using rstr2hex_shape length_rstrMD5 h(2) by simp_all
  then have "length (slice h 0 16) = 16" "set (slice h 0 16) \<subseteq> set hexTab"
    by (auto simp: slice_def dest: in_set_takeD)
  then show ?thesis using h by (auto simp: entrypointFromUuid_def md5_def)
qed

end
