(* ===== verification/TunnelStats.thy ===== *)
theory TunnelStats
  imports Complex_Main JsPrelude
begin

text \<open>
  Traffic counters, \<open>extension/lib/tunnel-stats.js\<close>: the counters of a tunnel, the stream
  wrapper that feeds them (each wrapped call is an event), and the rate samples. Rates are
  exact rationals where the source has doubles, and the interval is positive.
\<close>

record stats =
  inputBytes :: nat
  outputBytes :: nat
  totalConns :: nat
  currentConns :: nat
  requestCount :: nat
  baseline :: "(nat \<times> nat \<times> nat) option"
  lastSampleTime :: "int option"

definition new_stats :: stats where
  "new_stats = \<lparr>inputBytes = 0, outputBytes = 0, totalConns = 0, currentConns = 0, requestCount = 0,
     baseline = None, lastSampleTime = None\<rparr>"

definition markRequest :: "stats \<Rightarrow> stats" where
  "markRequest s = s\<lparr>requestCount := requestCount s + 1, totalConns := totalConns s + 1,
     currentConns := currentConns s + 1\<rparr>"

text \<open>The three calls of a wrapped stream: what \<open>read\<close> returned, what \<open>write\<close> is given, \<open>close\<close>.\<close>

definition wrapped_read :: "bytes option \<Rightarrow> stats \<Rightarrow> stats" where
  "wrapped_read chunk s =
     (case chunk of None \<Rightarrow> s | Some c \<Rightarrow> s\<lparr>inputBytes := inputBytes s + length c\<rparr>)"

definition wrapped_write :: "bytes \<Rightarrow> stats \<Rightarrow> stats" where
  "wrapped_write data s = s\<lparr>outputBytes := outputBytes s + length data\<rparr>"

definition wrapped_close :: "stats \<Rightarrow> stats" where
  "wrapped_close s = s\<lparr>currentConns := currentConns s - 1\<rparr>"

record snapshot =
  snap_input :: nat
  snap_output :: nat
  snap_total :: nat
  snap_current :: nat
  snap_requests :: nat
  inputRate :: rat
  outputRate :: rat
  connsRate :: rat

definition rate :: "nat \<Rightarrow> nat \<Rightarrow> rat \<Rightarrow> rat" where
  "rate now_val last_val interval = (of_nat now_val - of_nat last_val) / interval"

definition sample :: "int \<Rightarrow> rat \<Rightarrow> stats \<Rightarrow> stats \<times> snapshot" where
  "sample now interval s =
     (let s' = s\<lparr>baseline := Some (inputBytes s, outputBytes s, requestCount s), lastSampleTime := Some now\<rparr>;
          snap = (\<lambda>i out c. \<lparr>snap_input = inputBytes s, snap_output = outputBytes s,
            snap_total = totalConns s, snap_current = currentConns s, snap_requests = requestCount s,
            inputRate = i, outputRate = out, connsRate = c\<rparr>)
      in case baseline s of
           None \<Rightarrow> (s', snap 0 0 0)
         | Some (li, lo, lr) \<Rightarrow>
             (s', snap (rate (inputBytes s) li interval) (rate (outputBytes s) lo interval)
                    (rate (requestCount s) lr interval)))"

definition reset_stats :: "stats \<Rightarrow> stats" where
  "reset_stats s = new_stats"

section \<open>Runs\<close>

datatype stats_event =
    Request
  | ReadChunk "bytes option"
  | WriteData bytes
  | CloseConn
  | Sample int rat

fun stats_step :: "stats_event \<Rightarrow> stats \<Rightarrow> stats \<times> snapshot option" where
  "stats_step Request s = (markRequest s, None)"
| "stats_step (ReadChunk c) s = (wrapped_read c s, None)"
| "stats_step (WriteData d) s = (wrapped_write d s, None)"
| "stats_step CloseConn s = (wrapped_close s, None)"
| "stats_step (Sample now i) s = (let (s', snap) = sample now i s in (s', Some snap))"

fun stats_run :: "stats_event list \<Rightarrow> stats \<Rightarrow> stats" where
  "stats_run [] s = s"
| "stats_run (e # es) s = stats_run es (fst (stats_step e s))"

text \<open>What the samples of a run report as bytes received: each rate times its interval.\<close>

fun reported_input :: "stats_event list \<Rightarrow> stats \<Rightarrow> rat" where
  "reported_input [] s = 0"
| "reported_input (e # es) s =
     (case (e, snd (stats_step e s)) of (Sample now i, Some snap) \<Rightarrow> inputRate snap * i | _ \<Rightarrow> 0)
       + reported_input es (fst (stats_step e s))"

fun bytes_read :: "stats_event \<Rightarrow> nat" where
  "bytes_read (ReadChunk (Some c)) = length c"
| "bytes_read _ = 0"

fun interval_ok :: "stats_event \<Rightarrow> bool" where
  "interval_ok (Sample now i) \<longleftrightarrow> 0 < i"
| "interval_ok _ \<longleftrightarrow> True"

definition unreported :: "stats \<Rightarrow> rat" where
  "unreported s = (case baseline s of None \<Rightarrow> 0 | Some (li, lo, lr) \<Rightarrow> of_nat (inputBytes s) - of_nat li)"

lemma reported_input_telescopes:
  "list_all interval_ok es \<Longrightarrow> baseline s \<noteq> None \<Longrightarrow>
   reported_input es s + unreported (stats_run es s) = unreported s + of_nat (sum_list (map bytes_read es))"
proof (induction es arbitrary: s)
  case (Cons e es)
  obtain li lo lr where b: "baseline s = Some (li, lo, lr)" using Cons.prems(2) by auto
  show ?case
  proof (cases e)
    case Request
    then show ?thesis using Cons b by (simp add: markRequest_def unreported_def)
  next
    case (ReadChunk c)
    then show ?thesis using Cons b by (cases c) (auto simp: wrapped_read_def unreported_def)
  next
    case (WriteData d)
    then show ?thesis using Cons b by (simp add: wrapped_write_def unreported_def)
  next
    case CloseConn
    then show ?thesis using Cons b by (simp add: wrapped_close_def unreported_def)
  next
    case (Sample now i)
    then show ?thesis using Cons b by (simp add: sample_def unreported_def rate_def Let_def)
  qed
qed simp

text \<open>
  No traffic is lost between samples: once the baseline is set, the bytes that the samples
  of a run report (rate times interval) and the bytes not yet sampled are together exactly the
  bytes read in the run and those unreported before it.
\<close>

theorem stats_rates_account:
  assumes "list_all interval_ok es" "baseline s \<noteq> None"
  shows "reported_input es s + unreported (stats_run es s)
    = unreported s + of_nat (sum_list (map bytes_read es))"
  using assms by (rule reported_input_telescopes)

theorem stats_rates_account_witness:
  "reported_input [ReadChunk (Some [1, 2, 3]), Sample 7 2, ReadChunk (Some [4])]
      (fst (sample 0 1 new_stats)) = 3"
proof -
  let ?es = "[ReadChunk (Some [1, 2, 3]), Sample 7 2, ReadChunk (Some [4])]" and ?s = "fst (sample 0 1 new_stats)"
  have "baseline ?s \<noteq> None" by (simp add: sample_def new_stats_def)
  from stats_rates_account [OF _ this, of ?es] show ?thesis
    by (simp add: sample_def new_stats_def unreported_def wrapped_read_def Let_def)
qed

end
