(* ===== verification/TunnelConnection.thy ===== *)
theory TunnelConnection
  imports RelayCorrect SmuxRuns
begin

text \<open>
  The tunnel connection, \<open>extension/lib/tunnel-connection.js\<close>: reading the relay response, the
  HTTP request and its body off a stream, and the connection's life from the WebSocket to the
  bound SMUX session. What the reads of a stream return is a list of chunks, \<open>null\<close> after its
  end; a function that reads returns the chunks it left.
\<close>

type_synonym reads = "bytes list"

definition CRLF :: bytes where "CRLF = [13, 10]"
definition CRLF2 :: bytes where "CRLF2 = [13, 10, 13, 10]"

datatype stream_error =
    StreamClosed
  | BadChunkSize
  | HeaderTypeError
  | BadRelayVersion byte
  | RelayFailed byte
  | RelayDecode relay_error

section \<open>Reading\<close>

text \<open>Read until a byte sequence has arrived; the index is that of its first occurrence.\<close>

fun read_until :: "bytes \<Rightarrow> bytes \<Rightarrow> reads \<Rightarrow> (nat \<times> bytes \<times> reads) option" where
  "read_until pat buf [] = map_option (\<lambda>i. (i, buf, [])) (index_of pat buf)"
| "read_until pat buf (c # cs) =
     (case index_of pat buf of
        Some i \<Rightarrow> Some (i, buf, c # cs)
      | None \<Rightarrow> read_until pat (buf @ c) cs)"

text \<open>Read until there are at least \<open>n\<close> bytes; the second form is content with the end.\<close>

fun read_at_least :: "int \<Rightarrow> bytes \<Rightarrow> reads \<Rightarrow> (bytes \<times> reads) option" where
  "read_at_least n buf [] = (if int (length buf) < n then None else Some (buf, []))"
| "read_at_least n buf (c # cs) =
     (if int (length buf) < n then read_at_least n (buf @ c) cs else Some (buf, c # cs))"

fun read_up_to :: "int \<Rightarrow> bytes \<Rightarrow> reads \<Rightarrow> bytes \<times> reads" where
  "read_up_to n buf [] = (buf, [])"
| "read_up_to n buf (c # cs) =
     (if int (length buf) < n then read_up_to n (buf @ c) cs else (buf, c # cs))"

lemma read_until_Some:
  "read_until pat buf rs = Some (i, buf', rs') \<Longrightarrow>
   index_of pat buf' = Some i \<and> buf' @ concat rs' = buf @ concat rs"
  by (induction pat buf rs rule: read_until.induct) (auto split: option.splits)

lemma read_at_least_Some:
  "read_at_least n buf rs = Some (buf', rs') \<Longrightarrow>
   n \<le> int (length buf') \<and> buf' @ concat rs' = buf @ concat rs"
  by (induction n buf rs rule: read_at_least.induct) (auto split: if_splits)

text \<open>\<open>subarray\<close> takes a negative index from the end.\<close>

definition js_index :: "nat \<Rightarrow> int \<Rightarrow> nat" where
  "js_index len k = (if k < 0 then nat (max 0 (int len + k)) else min (nat k) len)"

definition subarray :: "bytes \<Rightarrow> int \<Rightarrow> int \<Rightarrow> bytes" where
  "subarray xs i j = slice xs (js_index (length xs) i) (js_index (length xs) j)"

section \<open>Chunked bodies\<close>

text \<open>The lines after the last chunk, up to an empty one or the end of the stream.\<close>

function skip_trailers :: "bytes \<Rightarrow> reads \<Rightarrow> reads" where
  "skip_trailers buf rs =
     (case index_of CRLF buf of
        Some e \<Rightarrow> if e = 0 then rs else skip_trailers (drop (e + 2) buf) rs
      | None \<Rightarrow> (case rs of [] \<Rightarrow> [] | c # cs \<Rightarrow> skip_trailers (buf @ c) cs))"
  by pat_completeness auto
termination
  by (relation "measures [\<lambda>(buf, rs). length rs, \<lambda>(buf, rs). length buf]")
    (auto dest!: index_of_length simp: CRLF_def)

declare skip_trailers.simps [simp del]

definition chunk_size :: "bytes \<Rightarrow> int option" where
  "chunk_size line = parse_int (trim (hd (split_on [cu CHR '';''] (text_decode line)))) 16"

text \<open>
  One size line and its data at a time. The loop stops because every turn takes at least a
  line end off what is buffered and still to be read.
\<close>

function readChunkedBody :: "bytes \<Rightarrow> reads \<Rightarrow> stream_error + (bytes \<times> reads)" where
  "readChunkedBody buf rs =
     (case read_until CRLF buf rs of
        None \<Rightarrow> Inl StreamClosed
      | Some (crlf, buf1, rs1) \<Rightarrow>
          (case chunk_size (take crlf buf1) of
             None \<Rightarrow> Inl BadChunkSize
           | Some csize \<Rightarrow>
               let buf2 = drop (crlf + 2) buf1 in
               if csize = 0 then Inr ([], skip_trailers buf2 rs1)
               else case read_at_least (csize + 2) buf2 rs1 of
                   None \<Rightarrow> Inl StreamClosed
                 | Some (buf3, rs3) \<Rightarrow>
                     rbind (readChunkedBody (subarray buf3 (csize + 2) (int (length buf3))) rs3)
                       (\<lambda>(body, rs4). Inr (subarray buf3 0 csize @ body, rs4))))"
  by pat_completeness auto
termination
proof (relation "measure (\<lambda>(buf, rs). length (buf @ concat rs))")
  fix buf rs x crlf q buf1 rs1 csize buf2 y buf3 rs3
  assume u: "read_until CRLF buf rs = Some x" "(crlf, q) = x" "(buf1, rs1) = q"
    and buf2: "buf2 = drop (crlf + 2) buf1"
    and l: "read_at_least (csize + 2) buf2 rs1 = Some y" "(buf3, rs3) = y"
  have i: "index_of CRLF buf1 = Some crlf" "buf1 @ concat rs1 = buf @ concat rs"
    using u read_until_Some [of CRLF buf rs crlf buf1 rs1] by auto
  have t: "buf3 @ concat rs3 = buf2 @ concat rs1"
    using l read_at_least_Some [of "csize + 2" buf2 rs1 buf3 rs3] by auto
  have "crlf + 2 \<le> length buf1" using index_of_length [OF i(1)] by (simp add: CRLF_def)
  then have "length (buf2 @ concat rs1) < length (buf @ concat rs)"
    using arg_cong [OF i(2), of length] by (simp add: buf2)
  moreover have "length (subarray buf3 (csize + 2) (int (length buf3))) \<le> length buf3"
    by (simp add: subarray_def)
  ultimately show "((subarray buf3 (csize + 2) (int (length buf3)), rs3), buf, rs)
      \<in> measure (\<lambda>(buf, rs). length (buf @ concat rs))"
    using arg_cong [OF t, of length] by simp
qed auto

declare readChunkedBody.simps [simp del]

section \<open>HTTP requests\<close>

type_synonym headers = "(jstr, jstr list) jsmap"

record http_request =
  hr_method :: jstr
  hr_path :: jstr
  hr_headers :: headers
  hr_body :: "bytes option"
  hr_peerAddr :: "fvalue option"

text \<open>
  \<open>headers\<close> is a plain object: the two inherited names that are all lower-case look defined
  before they are set, and pushing to what they hold is a \<open>TypeError\<close>.
\<close>

definition add_header :: "jstr \<Rightarrow> jstr \<Rightarrow> headers \<Rightarrow> stream_error + headers" where
  "add_header name value hs =
     (case jget hs name of
        Some vs \<Rightarrow> Inr (jset name (vs @ [value]) hs)
      | None \<Rightarrow>
          if name = js ''constructor'' \<or> name = js ''__proto__'' then Inl HeaderTypeError
          else Inr (jset name [value] hs))"

fun parse_header_lines :: "jstr list \<Rightarrow> headers \<Rightarrow> stream_error + headers" where
  "parse_header_lines [] hs = Inr hs"
| "parse_header_lines (line # lines) hs =
     (case index_of [cu CHR '':''] line of
        None \<Rightarrow> parse_header_lines lines hs
      | Some colonPos \<Rightarrow>
          rbind (add_header (to_lower (trim (take colonPos line))) (trim (drop (colonPos + 1) line)) hs)
            (parse_header_lines lines))"

definition parseHTTPRequest :: "jstr \<Rightarrow> stream_error + (jstr \<times> jstr \<times> headers)" where
  "parseHTTPRequest raw =
     (let lines = split_on [13, 10] raw;
          reqLine = split_on [cu CHR '' ''] (hd lines);
          method = (if hd reqLine = [] then js ''GET'' else hd reqLine);
          path = (if length reqLine < 2 \<or> reqLine ! 1 = [] then js ''/'' else reqLine ! 1)
      in rbind (parse_header_lines (tl lines) []) (\<lambda>headers. Inr (method, path, headers)))"

definition headerValue :: "headers \<Rightarrow> jstr \<Rightarrow> jstr option" where
  "headerValue headers name = map_option hd (jget headers name)"

definition content_length :: "headers \<Rightarrow> int option" where
  "content_length headers =
     (case headerValue headers (js ''content-length'') of None \<Rightarrow> None | Some v \<Rightarrow> parse_int v 10)"

definition is_chunked :: "headers \<Rightarrow> bool" where
  "is_chunked headers =
     (case headerValue headers (js ''transfer-encoding'') of
        None \<Rightarrow> False
      | Some v \<Rightarrow> index_of (js ''chunked'') (to_lower v) \<noteq> None)"

definition make_request :: "jstr \<Rightarrow> jstr \<Rightarrow> headers \<Rightarrow> bytes \<Rightarrow> fvalue option \<Rightarrow> http_request" where
  "make_request method path headers body peer =
     \<lparr>hr_method = method, hr_path = path, hr_headers = headers,
      hr_body = (if body = [] then None else Some body), hr_peerAddr = peer\<rparr>"

text \<open>\<open>Inr (None, _)\<close> is the \<open>null\<close> for a stream that ends inside the head.\<close>

definition readHTTP ::
  "fvalue option \<Rightarrow> bytes \<Rightarrow> reads \<Rightarrow> stream_error + (http_request option \<times> reads)" where
  "readHTTP peer carry rs =
     (case read_until CRLF2 carry rs of
        None \<Rightarrow> Inr (None, [])
      | Some (headerEnd, buf, rs1) \<Rightarrow>
          let body0 = drop (headerEnd + 4) buf in
          rbind (parseHTTPRequest (text_decode (take headerEnd buf))) (\<lambda>(method, path, headers).
            if is_chunked headers then
              rbind (readChunkedBody body0 rs1) (\<lambda>(body, rs2).
                Inr (Some (make_request method path
                       (jset (js ''content-length'') [dec_str (length body)]
                         (jdelete (js ''transfer-encoding'') headers)) body peer), rs2))
            else case content_length headers of
                None \<Rightarrow> Inr (Some (make_request method path headers body0 peer), rs1)
              | Some n \<Rightarrow>
                  if n > 0 then
                    (let (body, rs2) = read_up_to n body0 rs1
                     in Inr (Some (make_request method path headers (take (nat n) body) peer), rs2))
                  else Inr (Some (make_request method path headers body0 peer), rs1)))"

section \<open>The relay response of a stream\<close>

definition readRelayResponse :: "reads \<Rightarrow> stream_error + (fvalue option \<times> bytes \<times> reads)" where
  "readRelayResponse rs =
     (case read_at_least 4 [] rs of
        None \<Rightarrow> Inl StreamClosed
      | Some (headerBuf, rs1) \<Rightarrow>
          if headerBuf ! 0 \<noteq> 1 then Inl (BadRelayVersion (headerBuf ! 0))
          else let flen = get_u16_be headerBuf 2 in
            case read_at_least (int flen) (drop 4 headerBuf) rs1 of
              None \<Rightarrow> Inl StreamClosed
            | Some (dataBuf, rs2) \<Rightarrow>
                (case relayResponseFromWire (take 4 headerBuf @ take flen dataBuf) of
                   Inl e \<Rightarrow> Inl (RelayDecode e)
                 | Inr resp \<Rightarrow>
                     if rs_status resp \<noteq> StatusOK then Inl (RelayFailed (rs_status resp))
                     else Inr (findFeature (rs_features resp) FeatureAddr, drop flen dataBuf, rs2)))"

text \<open>
  A new stream: its relay response, then its request. Every failure closes the stream; the
  request goes to the owner's callback with what is left of the stream.
\<close>

datatype stream_outcome = Deliver http_request reads | CloseIt

definition handleStream :: "bool \<Rightarrow> reads \<Rightarrow> stream_outcome" where
  "handleStream has_onStream rs =
     (case readRelayResponse rs of
        Inl e \<Rightarrow> CloseIt
      | Inr (peer, carry, rs1) \<Rightarrow>
          if \<not> has_onStream then CloseIt
          else case readHTTP peer carry rs1 of
              Inl e \<Rightarrow> CloseIt
            | Inr (None, rs2) \<Rightarrow> CloseIt
            | Inr (Some req, rs2) \<Rightarrow> Deliver req rs2)"

end
