(* ===== verification/HttpRead.thy ===== *)
theory HttpRead
  imports TunnelConnection
begin

text \<open>
  Reading off a stream does not depend on how the stream's bytes are cut: the relay response,
  the head and a sized body are found where they are in the concatenation of the chunks, and
  no byte of one leaks into the next.
\<close>

section \<open>Reads see only the concatenation\<close>

lemma read_until_total:
  assumes "index_of pat (buf @ concat rs) = Some i"
  shows "\<exists>buf' rs'. read_until pat buf rs = Some (i, buf', rs') \<and> buf' @ concat rs' = buf @ concat rs"
  using assms
proof (induction pat buf rs rule: read_until.induct)
  case (2 pat buf c cs)
  show ?case
  proof (cases "index_of pat buf")
    case None
    then show ?thesis using 2 by simp
  next
    case (Some j)
    then have "index_of pat (buf @ concat (c # cs)) = Some j" by (rule index_of_append)
    then show ?thesis using 2 Some by simp
  qed
qed simp

lemma read_at_least_total:
  "n \<le> int (length (buf @ concat rs)) \<Longrightarrow>
   \<exists>buf' rs'. read_at_least n buf rs = Some (buf', rs') \<and> n \<le> int (length buf')
     \<and> buf' @ concat rs' = buf @ concat rs"
proof (induction n buf rs rule: read_at_least.induct)
  case (2 n buf c cs)
  then show ?case by (cases "int (length buf) < n") auto
qed simp

lemma read_up_to_total:
  "\<exists>buf' rs'. read_up_to n buf rs = (buf', rs') \<and> buf' @ concat rs' = buf @ concat rs
     \<and> (n \<le> int (length (buf @ concat rs)) \<longrightarrow> n \<le> int (length buf'))"
proof (induction n buf rs rule: read_up_to.induct)
  case (2 n buf c cs)
  then show ?case by (cases "int (length buf) < n") auto
qed simp

lemma split_at:
  "xs @ ys = as @ bs \<Longrightarrow> length as \<le> length xs \<Longrightarrow> take (length as) xs = as \<and> drop (length as) xs @ ys = bs"
  by (metis append_eq_append_conv_if append_take_drop_id append_assoc same_append_eq)

section \<open>The relay response\<close>

lemma readRelayResponse_total:
  assumes total: "concat rs = wire @ rest"
    and len: "length wire = 4 + get_u16_be wire 2"
    and dec: "relayResponseFromWire wire = Inr resp" and ok: "rs_status resp = StatusOK"
  shows "\<exists>carry rs'. readRelayResponse rs = Inr (findFeature (rs_features resp) FeatureAddr, carry, rs')
    \<and> carry @ concat rs' = rest"
proof -
  have "4 \<le> int (length ([] @ concat rs))" using total len by simp
  then obtain hdr rs1 where h: "read_at_least 4 [] rs = Some (hdr, rs1)" "4 \<le> int (length hdr)"
    "hdr @ concat rs1 = wire @ rest"
    using read_at_least_total [of 4 "[]" rs] total by auto
  have hd4: "take 4 hdr = take 4 wire"
  proof -
    have "take 4 (hdr @ concat rs1) = take 4 (wire @ rest)" by (simp add: h(3))
    then show ?thesis using h(2) len by simp
  qed
  have nth: "hdr ! i = wire ! i" if "i < 4" for i
    using arg_cong [OF hd4, of "\<lambda>xs. xs ! i"] that by simp
  have flen: "get_u16_be hdr 2 = get_u16_be wire 2"
    using nth [of 2] nth [of 3] by (simp add: get_u16_be_def eval_nat_numeral)
  let ?n = "get_u16_be wire 2"
  have ver: "hdr ! 0 = 1"
    using nth [of 0] dec by (auto simp: relayResponseFromWire_def Version1_def split: if_splits)
  have body: "drop 4 hdr @ concat rs1 = drop 4 wire @ rest"
  proof -
    have "drop 4 (hdr @ concat rs1) = drop 4 (wire @ rest)" by (simp add: h(3))
    then show ?thesis using h(2) len by simp
  qed
  have lw: "length (drop 4 wire) = ?n" using len by simp
  have "int ?n \<le> int (length (drop 4 hdr @ concat rs1))" unfolding body using lw by simp
  then obtain d rs2 where d: "read_at_least (int ?n) (drop 4 hdr) rs1 = Some (d, rs2)"
    "int ?n \<le> int (length d)" "d @ concat rs2 = drop 4 wire @ rest"
    using read_at_least_total [of "int ?n" "drop 4 hdr" rs1] body by auto
  have s: "take ?n d = drop 4 wire" "drop ?n d @ concat rs2 = rest"
    using split_at [OF d(3)] d(2) lw by simp_all
  have "take 4 hdr @ take ?n d = wire" by (simp add: s hd4)
  then show ?thesis
    using h(1) ver flen d(1) dec ok s(2) by (simp add: readRelayResponse_def Let_def)
qed

section \<open>Requests with a sized body\<close>

lemma length_CRLF [simp]: "length CRLF = 2" "length CRLF2 = 4"
  by (simp_all add: CRLF_def CRLF2_def)

lemma readHTTP_head:
  assumes total: "carry @ concat rs = text_encode head @ CRLF2 @ rest"
    and no: "index_of CRLF2 (text_encode head @ CRLF2 @ rest) = Some (length (text_encode head))"
    and enc: "encodable head"
  shows "\<exists>buf rs1. read_until CRLF2 carry rs = Some (length (text_encode head), buf, rs1)
    \<and> text_decode (take (length (text_encode head)) buf) = head
    \<and> drop (length (text_encode head) + 4) buf @ concat rs1 = rest"
proof -
  let ?h = "text_encode head"
  obtain buf rs1 where r: "read_until CRLF2 carry rs = Some (length ?h, buf, rs1)"
    "buf @ concat rs1 = (?h @ CRLF2) @ rest"
    using read_until_total [of CRLF2 carry rs] total no by auto
  have "length (?h @ CRLF2) \<le> length buf"
    using read_until_Some [OF r(1)] index_of_length by (fastforce simp: CRLF2_def)
  then have s: "take (length (?h @ CRLF2)) buf = ?h @ CRLF2" "drop (length (?h @ CRLF2)) buf @ concat rs1 = rest"
    using split_at [OF r(2)] by blast+
  have "take (length ?h) buf = take (length ?h) (take (length (?h @ CRLF2)) buf)" by (simp add: min_def)
  also have "\<dots> = ?h" by (simp only: s(1)) simp
  finally have "text_decode (take (length ?h) buf) = head" by (simp add: text_decode_encode enc)
  then show ?thesis using r(1) s(2) by simp
qed

lemma readHTTP_sized:
  assumes total: "carry @ concat rs = text_encode head @ CRLF2 @ body @ extra"
    and no: "index_of CRLF2 (text_encode head @ CRLF2 @ body @ extra) = Some (length (text_encode head))"
    and enc: "encodable head" and parse: "parseHTTPRequest head = Inr (m, p, hs)"
    and len: "\<not> is_chunked hs" "content_length hs = Some (int (length body))" "body \<noteq> []"
  shows "\<exists>rs'. readHTTP peer carry rs = Inr (Some (make_request m p hs body peer), rs')"
proof -
  obtain buf rs1 where h: "read_until CRLF2 carry rs = Some (length (text_encode head), buf, rs1)"
    "text_decode (take (length (text_encode head)) buf) = head"
    "drop (length (text_encode head) + 4) buf @ concat rs1 = body @ extra"
    using readHTTP_head [OF total no enc] by blast
  let ?b0 = "drop (length (text_encode head) + 4) buf"
  obtain b rs2 where b: "read_up_to (int (length body)) ?b0 rs1 = (b, rs2)"
    "b @ concat rs2 = body @ extra" "length body \<le> length b"
    using read_up_to_total [of "int (length body)" ?b0 rs1] unfolding h(3) by auto
  have "take (length body) b = body" using split_at [OF b(2)] b(3) by blast
  then show ?thesis
    using h(1,2) b(1) parse len by (simp add: readHTTP_def Let_def)
qed


section \<open>Headers\<close>

text \<open>A header block whose names and values are as a client may send them.\<close>

definition name_ok :: "jstr \<Rightarrow> bool" where
  "name_ok n \<longleftrightarrow> n \<noteq> [] \<and> cu CHR '':'' \<notin> set n \<and> trim n = n
     \<and> to_lower n \<noteq> js ''constructor'' \<and> to_lower n \<noteq> js ''__proto__''"

definition header_line :: "jstr \<times> jstr \<Rightarrow> jstr" where
  "header_line nv = fst nv @ js '': '' @ snd nv"

fun collect :: "(jstr \<times> jstr) list \<Rightarrow> headers \<Rightarrow> headers" where
  "collect [] hs = hs"
| "collect ((n, v) # nvs) hs =
     collect nvs (jset (to_lower n) ((case jget hs (to_lower n) of None \<Rightarrow> [] | Some vs \<Rightarrow> vs) @ [v]) hs)"

lemma trim_space: "trim v = v \<Longrightarrow> trim (cu CHR '' '' # v) = v"
proof -
  have "is_ws (cu CHR '' '')" by (simp add: is_ws_def cu_def)
  then show "trim v = v \<Longrightarrow> trim (cu CHR '' '' # v) = v" by (simp add: trim_def)
qed

lemma parse_header_lines_collect:
  assumes "\<forall>(n, v) \<in> set nvs. name_ok n \<and> trim v = v"
  shows "parse_header_lines (map header_line nvs) hs = Inr (collect nvs hs)"
  using assms
proof (induction nvs arbitrary: hs)
  case (Cons nv nvs)
  obtain n v where nv: "nv = (n, v)" by (cases nv)
  have ok: "name_ok n" "trim v = v" using Cons.prems by (auto simp: nv)
  have "index_of [cu CHR '':''] (n @ cu CHR '':'' # cu CHR '' '' # v) = Some (length n)"
    using ok by (intro index_of_single_append) (simp add: name_ok_def)
  then show ?case
    using Cons ok
    by (simp add: header_line_def nv name_ok_def trim_space add_header_def split: option.split)
qed simp

lemma collect_values:
  "jget (collect nvs hs) name =
     (let new = map snd (filter (\<lambda>nv. to_lower (fst nv) = name) nvs) in
      case jget hs name of
        Some vs \<Rightarrow> Some (vs @ new)
      | None \<Rightarrow> if new = [] then None else Some new)"
  by (induction nvs hs rule: collect.induct) (auto simp: Let_def update_conv split: option.splits)


section \<open>The request line and the head\<close>

lemma index_of_at: "c \<notin> set xs \<Longrightarrow> index_of (c # pat) (xs @ (c # pat) @ ys) = Some (length xs)"
  by (induction xs) auto

lemma index_of_absent: "c \<notin> set xs \<Longrightarrow> index_of (c # pat) xs = None"
  by (induction xs) auto

lemma split_on_join_sep:
  "xss \<noteq> [] \<Longrightarrow> (\<And>xs. xs \<in> set xss \<Longrightarrow> c \<notin> set xs) \<Longrightarrow>
   split_on (c # pat) (join (c # pat) xss) = xss"
proof (induction "c # pat" xss rule: join.induct)
  case (2 x)
  then show ?case by (subst split_on.simps) (simp add: index_of_absent)
next
  case (3 x y ys)
  have "index_of (c # pat) (x @ (c # pat) @ join (c # pat) (y # ys)) = Some (length x)"
    using 3 by (intro index_of_at) simp
  then show ?case using 3 by (subst split_on.simps) simp
qed simp

definition print_head :: "jstr \<Rightarrow> jstr \<Rightarrow> (jstr \<times> jstr) list \<Rightarrow> jstr" where
  "print_head m p nvs = join [13, 10] ((m @ js '' '' @ p @ js '' HTTP/1.1'') # map header_line nvs)"

definition head_ok :: "jstr \<Rightarrow> jstr \<Rightarrow> (jstr \<times> jstr) list \<Rightarrow> bool" where
  "head_ok m p nvs \<longleftrightarrow> m \<noteq> [] \<and> p \<noteq> [] \<and> cu CHR '' '' \<notin> set m \<and> cu CHR '' '' \<notin> set p
     \<and> 13 \<notin> set m \<and> 13 \<notin> set p \<and> ascii m \<and> ascii p
     \<and> (\<forall>(n, v) \<in> set nvs. name_ok n \<and> trim v = v \<and> 13 \<notin> set n \<and> 13 \<notin> set v \<and> ascii n \<and> ascii v)"

lemma parse_print_head:
  assumes "head_ok m p nvs"
  shows "parseHTTPRequest (print_head m p nvs) = Inr (m, p, collect nvs [])"
proof -
  let ?l = "m @ js '' '' @ p @ js '' HTTP/1.1''"
  have "13 \<notin> set (js '' HTTP/1.1'')" "13 \<notin> set (js '': '')" "13 \<notin> set (js '' '')" by (simp_all add: cu_def)
  then have "split_on [13, 10] (print_head m p nvs) = ?l # map header_line nvs"
    unfolding print_head_def using assms
    by (intro split_on_join_sep) (auto simp: head_ok_def header_line_def simp del: js_simps)
  moreover have "split_on [cu CHR '' ''] ?l = [m, p, js ''HTTP/1.1'']"
  proof -
    have "split_on [cu CHR '' ''] (join [cu CHR '' ''] [m, p, js ''HTTP/1.1'']) = [m, p, js ''HTTP/1.1'']"
      using assms by (intro split_on_join) (auto simp: head_ok_def cu_def)
    then show ?thesis by simp
  qed
  moreover have "parse_header_lines (map header_line nvs) [] = Inr (collect nvs [])"
    using assms by (intro parse_header_lines_collect) (auto simp: head_ok_def)
  ultimately show ?thesis
    using assms by (simp add: parseHTTPRequest_def Let_def head_ok_def)
qed

lemma index_of_blank_line:
  assumes "ls \<noteq> []" "\<forall>l \<in> set ls. l \<noteq> [] \<and> (13 :: byte) \<notin> set l"
  shows "index_of CRLF2 (join CRLF ls @ CRLF2 @ rest) = Some (length (join CRLF ls))"
  using assms
proof (induction CRLF ls rule: join.induct)
  case (2 x)
  then show ?case using index_of_at [of 13 x "[10, 13, 10]" rest] by (simp add: CRLF2_def)
next
  case (3 x y ys)
  let ?r = "join CRLF (y # ys) @ CRLF2 @ rest"
  have IH: "index_of CRLF2 ?r = Some (length (join CRLF (y # ys)))" using 3 by simp
  obtain z zs where z: "?r = z # zs" "z \<noteq> 13"
    using 3(3) by (cases y; cases ys) auto
  have "index_of CRLF2 (x @ CRLF @ ?r) = Some (length x + 2 + length (join CRLF (y # ys)))"
    if "13 \<notin> set x"
    using that
  proof (induction x)
    case Nil
    have "index_of CRLF2 (10 # ?r) = Some (Suc (length (join CRLF (y # ys))))"
      using IH by (simp add: CRLF2_def)
    then show ?case using z by (simp add: CRLF_def CRLF2_def)
  qed (auto simp: CRLF2_def)
  then show ?case using 3(3) by simp
qed simp

lemma text_encode_join:
  "(\<And>l. l \<in> set ls \<Longrightarrow> ascii l) \<Longrightarrow> text_encode (join [13, 10] ls) = join CRLF (map text_encode ls)"
proof (induction "[13, 10] :: jstr" ls rule: join.induct)
  case (3 x y ys)
  have "text_encode [13, 10] = CRLF" by (simp add: text_encode_ascii CRLF_def)
  moreover have "ascii ([13, 10] :: jstr)" by simp
  ultimately have "text_encode ([13, 10] @ s) = CRLF @ text_encode s" for s
    by (metis text_encode_append_ascii)
  then show ?case using 3 by (simp add: text_encode_append_ascii)
qed simp_all

lemma print_head_end:
  assumes "head_ok m p nvs"
  shows "index_of CRLF2 (text_encode (print_head m p nvs) @ CRLF2 @ rest)
      = Some (length (text_encode (print_head m p nvs)))" "ascii (print_head m p nvs)"
proof -
  let ?ls = "(m @ js '' '' @ p @ js '' HTTP/1.1'') # map header_line nvs"
  have k: "ascii (js '' HTTP/1.1'')" "ascii (js '': '')" "ascii (js '' '')" by (simp_all add: cu_def)
  have a: "\<And>l. l \<in> set ?ls \<Longrightarrow> ascii l"
    using assms k by (auto simp: head_ok_def header_line_def simp del: js_simps)
  have "13 \<notin> set (js '' HTTP/1.1'')" "13 \<notin> set (js '': '')" "13 \<notin> set (js '' '')" by (simp_all add: cu_def)
  then have no13: "13 \<notin> set l \<and> l \<noteq> []" if "l \<in> set ?ls" for l
    using assms that by (auto simp: head_ok_def header_line_def simp del: js_simps)
  have "text_encode l \<noteq> [] \<and> (13 :: byte) \<notin> set (text_encode l)" if "l \<in> set ?ls" for l
  proof -
    have e: "text_encode l = map (\<lambda>u. of_nat (unat u)) l" using a [OF that] by (rule text_encode_ascii)
    have "of_nat (unat u) \<noteq> (13 :: byte)" if u: "u \<in> set l" for u
    proof
      assume "of_nat (unat u) = (13 :: byte)"
      moreover have "unat u < 128" using a [OF \<open>l \<in> set ?ls\<close>] u by (simp add: ascii_def)
      moreover from this have "unat (of_nat (unat u) :: byte) = unat u"
        by (intro unat_of_nat_byte_small) linarith
      moreover have "unat (13 :: byte) = 13" by simp
      ultimately have "unat u = 13" by metis
      then have "u = 13" by (simp add: word_unat_eq_iff)
      then show False using no13 [OF \<open>l \<in> set ?ls\<close>] u by simp
    qed
    then show ?thesis using no13 [OF that] by (auto simp: e)
  qed
  then have lines: "\<forall>l \<in> set (map text_encode ?ls). l \<noteq> [] \<and> (13 :: byte) \<notin> set l" by auto
  have e: "text_encode (join [13, 10] ?ls) = join CRLF (map text_encode ?ls)"
    by (rule text_encode_join) (rule a)
  show "index_of CRLF2 (text_encode (print_head m p nvs) @ CRLF2 @ rest)
      = Some (length (text_encode (print_head m p nvs)))"
    unfolding print_head_def e using lines by (intro index_of_blank_line) (simp_all del: list.set)
  have "ascii (join [13, 10] ls)" if "\<And>l. l \<in> set ls \<Longrightarrow> ascii l" for ls
    using that by (induction "[13, 10] :: jstr" ls rule: join.induct) auto
  then show "ascii (print_head m p nvs)" unfolding print_head_def using a by blast
qed


section \<open>Properties\<close>

text \<open>
  C9. A stream delivers its request whole: whatever the chunks, a stream that carries the
  relay's response, a request head and a body of the announced length hands the owner exactly
  that request and the peer's address; what follows the body does not get into it. The head is
  any well-formed ASCII head, except that no header is named \<open>constructor\<close> or \<open>__proto__\<close>: for
  these the plain object of the source finds an inherited value and the push throws.
\<close>

theorem stream_delivers_request:
  assumes "concat rs = wire @ text_encode (print_head m p nvs) @ CRLF2 @ body @ extra"
    and "relayResponseFromWire wire = Inr resp" "rs_status resp = StatusOK"
    and "length wire = 4 + get_u16_be wire 2"
    and "head_ok m p nvs" "\<not> is_chunked (collect nvs [])"
    and "content_length (collect nvs []) = Some (int (length body))" "body \<noteq> []"
  shows "\<exists>rs'. handleStream True rs = Deliver
    (make_request m p (collect nvs []) body (findFeature (rs_features resp) FeatureAddr)) rs'"
proof -
  let ?peer = "findFeature (rs_features resp) FeatureAddr"
  obtain carry rs1 where r: "readRelayResponse rs = Inr (?peer, carry, rs1)"
    "carry @ concat rs1 = text_encode (print_head m p nvs) @ CRLF2 @ body @ extra"
    using readRelayResponse_total [OF assms(1,4,2,3)] by blast
  obtain rs' where "readHTTP ?peer carry rs1 = Inr (Some (make_request m p (collect nvs []) body ?peer), rs')"
    using readHTTP_sized [OF r(2) print_head_end(1) [OF assms(5)] ascii_encodable [OF print_head_end(2) [OF assms(5)]]
        parse_print_head [OF assms(5)] assms(6-8)] by blast
  then show ?thesis using r(1) by (simp add: handleStream_def)
qed

text \<open>A tunnelled request for the witness: a response without features, a \<open>PUT\<close> with two bytes.\<close>

definition demo_headers :: "(jstr \<times> jstr) list" where
  "demo_headers = [(js ''Content-Length'', js ''2'')]"

lemma demo_head:
  "head_ok (js ''PUT'') (js ''/'') demo_headers"
  "collect demo_headers [] = [(js ''content-length'', [js ''2''])]"
  "\<not> is_chunked (collect demo_headers [])"
  "content_length (collect demo_headers []) = Some (int (length [9, 8 :: byte]))"
proof -
  show "head_ok (js ''PUT'') (js ''/'') demo_headers"
    by (simp add: demo_headers_def head_ok_def name_ok_def cu_def trim_def is_ws_def to_lower_def
        lower_unit_def Let_def)
  show c: "collect demo_headers [] = [(js ''content-length'', [js ''2''])]"
    by (simp add: demo_headers_def to_lower_def lower_unit_def cu_def)
  show "\<not> is_chunked (collect demo_headers [])"
    by (simp add: c is_chunked_def headerValue_def cu_def)
  show "content_length (collect demo_headers []) = Some (int (length [9, 8 :: byte]))"
    by (simp add: c content_length_def headerValue_def cu_def parse_int_def is_ws_def is_digit_def
        digit_val_def digits_value_def Let_def)
qed

lemma stream_delivers_request_witness:
  "\<exists>rs'. handleStream True [[1, 0], [0, 0] @ text_encode (print_head (js ''PUT'') (js ''/'') demo_headers),
      CRLF2 @ [9], [8, 7]]
    = Deliver (make_request (js ''PUT'') (js ''/'') [(js ''content-length'', [js ''2''])] [9, 8] None) rs'"
proof -
  have "relayResponseFromWire [1, 0, 0, 0] = Inr \<lparr>rs_version = 1, rs_status = 0, rs_features = []\<rparr>"
    by (simp add: relayResponseFromWire_def get_u16_be_def Version1_def Let_def decode_features.simps)
  from stream_delivers_request [OF _ this _ _ demo_head(1,3,4), of _ "[7]"]
  show ?thesis
    unfolding demo_head(2) by (simp add: StatusOK_def get_u16_be_def findFeature_def del: js_simps)
qed

text \<open>
  Parsing a printed request gives back its method and path, and for every name, in any
  case, the values of its headers in the order they were sent.
\<close>

theorem parse_http_request:
  assumes "head_ok m p nvs"
  shows "\<exists>hs. parseHTTPRequest (print_head m p nvs) = Inr (m, p, hs)
    \<and> (\<forall>name. jget hs name =
         (let vs = map snd (filter (\<lambda>nv. to_lower (fst nv) = name) nvs) in if vs = [] then None else Some vs))"
  using parse_print_head [OF assms] by (auto simp: collect_values Let_def)

lemma parse_http_request_witness:
  "\<exists>hs. parseHTTPRequest (print_head (js ''PUT'') (js ''/a'') [(js ''X-A'', js ''1''), (js ''x-a'', js ''2'')])
     = Inr (js ''PUT'', js ''/a'', hs)
    \<and> (\<forall>name. jget hs name =
         (let vs = map snd (filter (\<lambda>nv. to_lower (fst nv) = name) [(js ''X-A'', js ''1''), (js ''x-a'', js ''2'')])
          in if vs = [] then None else Some vs))"
proof (rule parse_http_request)
  show "head_ok (js ''PUT'') (js ''/a'') [(js ''X-A'', js ''1''), (js ''x-a'', js ''2'')]"
    by (simp add: head_ok_def name_ok_def cu_def trim_def is_ws_def to_lower_def lower_unit_def Let_def)
qed

end
