(* ===== verification/Forwarder.thy ===== *)
theory Forwarder
  imports TunnelConnection WsCodec
begin

text \<open>
  The request forwarder, \<open>extension/lib/forwarder.js\<close>, without its WebSocket bridge: header
  helpers, basic authentication, the upstream request, the response writer. The browser is
  outside: \<open>fetch\<close> is an argument that says what the backend answers, \<open>new URL\<close> one that
  says what a URL consists of. What the browser's \<open>Headers\<close> object does with a pair it is
  given is the Fetch standard's rule.
\<close>

section \<open>Header helpers\<close>

definition firstHeader :: "headers \<Rightarrow> jstr \<Rightarrow> jstr option" where
  "firstHeader headers name =
     (case jget headers name of None \<Rightarrow> None | Some [] \<Rightarrow> None | Some (v # vs) \<Rightarrow> Some v)"

definition headerHasToken :: "headers \<Rightarrow> jstr \<Rightarrow> jstr \<Rightarrow> bool" where
  "headerHasToken headers name token =
     (case jget headers name of
        None \<Rightarrow> False
      | Some vals \<Rightarrow>
          (\<exists>v \<in> set vals. \<exists>part \<in> set (split_on [cu CHR '',''] v). to_lower (trim part) = to_lower token))"

definition isWebSocketUpgrade :: "headers \<Rightarrow> bool" where
  "isWebSocketUpgrade headers \<longleftrightarrow>
     headerHasToken headers (js ''connection'') (js ''upgrade'')
     \<and> to_lower (case firstHeader headers (js ''upgrade'') of None \<Rightarrow> [] | Some v \<Rightarrow> v) = js ''websocket''"

definition HOP :: "jstr list" where
  "HOP = [js ''connection'', js ''keep-alive'', js ''proxy-authorization'', js ''proxy-authenticate'',
          js ''te'', js ''trailer'', js ''transfer-encoding'', js ''upgrade'']"

definition isHopByHopHeader :: "jstr \<Rightarrow> bool" where
  "isHopByHopHeader name \<longleftrightarrow> to_lower name \<in> set HOP"

section \<open>Basic authentication\<close>

text \<open>
  \<open>atob\<close> by the HTML standard's forgiving decoding: ASCII white space is dropped, up to two
  \<open>=\<close> at the end of a string whose length is a multiple of four, then every character must
  be in the alphabet and the length must not be one more than a multiple of four.
\<close>

definition b64_index :: "unit16 \<Rightarrow> nat option" where
  "b64_index c = index_of [c] B64"

fun sextet_bytes :: "nat list \<Rightarrow> bytes" where
  "sextet_bytes (a # b # c # d # vs) =
     of_nat (a * 4 + b div 16) # of_nat (b mod 16 * 16 + c div 4) # of_nat (c mod 4 * 64 + d) # sextet_bytes vs"
| "sextet_bytes [a, b, c] = [of_nat (a * 4 + b div 16), of_nat (b mod 16 * 16 + c div 4)]"
| "sextet_bytes [a, b] = [of_nat (a * 4 + b div 16)]"
| "sextet_bytes [a] = []"
| "sextet_bytes [] = []"

definition strip_padding :: "jstr \<Rightarrow> jstr" where
  "strip_padding s =
     (if length s mod 4 = 0 \<and> s \<noteq> [] \<and> last s = cu CHR ''='' then
        (let t = butlast s in if t \<noteq> [] \<and> last t = cu CHR ''='' then butlast t else t)
      else s)"

definition ascii_ws :: "unit16 \<Rightarrow> bool" where
  "ascii_ws c \<longleftrightarrow> unat c \<in> {9, 10, 12, 13, 32}"

definition atob :: "jstr \<Rightarrow> bytes option" where
  "atob data =
     (let s = strip_padding (filter (\<lambda>c. \<not> ascii_ws c) data) in
      if length s mod 4 = 1 then None
      else if \<exists>c \<in> set s. b64_index c = None then None
      else Some (sextet_bytes (map (\<lambda>c. the (b64_index c)) s)))"

definition decodeBase64Utf8 :: "jstr \<Rightarrow> jstr option" where
  "decodeBase64Utf8 b64 = map_option text_decode (atob b64)"

text \<open>The match of \<open>/^basic\s+(\S+)$/i\<close>: its group, if the text has this shape.\<close>

definition basic_token :: "jstr \<Rightarrow> jstr option" where
  "basic_token h =
     (if to_lower (take 5 h) = js ''basic'' \<and> drop 5 h \<noteq> [] \<and> is_ws (hd (drop 5 h)) then
        (let tok = dropWhile is_ws (drop 5 h) in
         if tok \<noteq> [] \<and> (\<forall>c \<in> set tok. \<not> is_ws c) then Some tok else None)
      else None)"

record auth_config =
  au_username :: jstr
  au_password :: jstr

text \<open>A missing user name or password is the empty string, which the code treats alike.\<close>

definition isAuthorized :: "headers \<Rightarrow> auth_config option \<Rightarrow> bool" where
  "isAuthorized headers auth =
     (case auth of
        None \<Rightarrow> True
      | Some a \<Rightarrow>
          if au_username a = [] then True
          else case firstHeader headers (js ''authorization'') of
              None \<Rightarrow> False
            | Some header \<Rightarrow>
                if header = [] then False
                else case basic_token (trim header) of
                    None \<Rightarrow> False
                  | Some tok \<Rightarrow>
                      (case decodeBase64Utf8 tok of
                         None \<Rightarrow> False
                       | Some decoded \<Rightarrow>
                           (let (user, pass) =
                              (case index_of [cu CHR '':''] decoded of
                                 None \<Rightarrow> (decoded, [])
                               | Some idx \<Rightarrow> (take idx decoded, drop (idx + 1) decoded))
                            in user = au_username a \<and> pass = au_password a)))"

section \<open>Writing to a stream\<close>

text \<open>
  A stream as its user sees it: what has been written, whether it was closed, and how many
  more writes it accepts before it rejects them because the tunnel closed it under its user.
\<close>

datatype stream_act = SWrite bytes | SClose

record sink =
  sk_acts :: "stream_act list"
  sk_left :: nat
  sk_closed :: bool

datatype fwd_error = StreamError | InvalidHeader | FetchRejected jstr | BodyFailed | InvalidUrl | SocketSyntax

text \<open>Async code that may throw: the sink it leaves, and its error or value.\<close>

type_synonym 'a task = "sink \<Rightarrow> sink \<times> (fwd_error + 'a)"

definition tbind :: "'a task \<Rightarrow> ('a \<Rightarrow> 'b task) \<Rightarrow> 'b task" where
  "tbind m f s = (case m s of (s', Inl e) \<Rightarrow> (s', Inl e) | (s', Inr x) \<Rightarrow> f x s')"

definition treturn :: "'a \<Rightarrow> 'a task" where
  "treturn x s = (s, Inr x)"

definition tthrow :: "fwd_error \<Rightarrow> 'a task" where
  "tthrow e s = (s, Inl e)"

definition tcatch :: "'a task \<Rightarrow> (fwd_error \<Rightarrow> 'a task) \<Rightarrow> 'a task" where
  "tcatch m h s = (case m s of (s', Inl e) \<Rightarrow> h e s' | (s', Inr x) \<Rightarrow> (s', Inr x))"

definition swrite :: "bytes \<Rightarrow> unit task" where
  "swrite b s =
     (if sk_closed s \<or> sk_left s = 0 then (s, Inl StreamError)
      else (s\<lparr>sk_acts := sk_acts s @ [SWrite b], sk_left := sk_left s - 1\<rparr>, Inr ()))"

definition sclose :: "unit task" where
  "sclose s =
     (s\<lparr>sk_acts := sk_acts s @ (if sk_closed s then [] else [SClose]), sk_closed := True\<rparr>, Inr ())"

definition new_sink :: "nat \<Rightarrow> sink" where
  "new_sink n = \<lparr>sk_acts = [], sk_left = n, sk_closed = False\<rparr>"

definition crlf :: jstr where "crlf = [13, 10]"

text \<open>Response heads are built from lines; every one ends in a line end, then the empty line.\<close>

definition unauthorized_text :: jstr where
  "unauthorized_text =
     js ''HTTP/1.1 401 Unauthorized'' @ crlf @ js ''WWW-Authenticate: Basic'' @ crlf
     @ js ''Content-Type: text/plain'' @ crlf
     @ js ''Content-Length: '' @ dec_str (length ''Unauthorized'') @ crlf @ crlf @ js ''Unauthorized''"

definition writeUnauthorized :: "unit task" where
  "writeUnauthorized =
     tcatch (tbind (swrite (text_encode unauthorized_text)) (\<lambda>_. sclose))
       (\<lambda>e. tbind sclose (\<lambda>_. tthrow e))"

section \<open>The upstream request\<close>

definition urlAuthority :: "jstr \<Rightarrow> jstr \<Rightarrow> jstr \<Rightarrow> jstr" where
  "urlAuthority localEndpoint hostname scheme =
     (let colon = last_index_of (cu CHR '':'') localEndpoint;
          bracket = last_index_of (cu CHR '']'') localEndpoint;
          (host, port) =
            (case colon of
               None \<Rightarrow> (localEndpoint, [])
             | Some c \<Rightarrow>
                 if (case bracket of None \<Rightarrow> True | Some b \<Rightarrow> c > b)
                 then (take c localEndpoint, drop (c + 1) localEndpoint) else (localEndpoint, []));
          targetHost = (if hostname \<noteq> [] then hostname else host);
          defaultPort = (if scheme = js ''https'' \<or> scheme = js ''wss'' then js ''443'' else js ''80'')
      in if port = [] \<or> port = defaultPort then targetHost else targetHost @ js '':'' @ port)"

record fwd_config =
  fc_localEndpoint :: jstr
  fc_hostname :: jstr
  fc_enableTLS :: bool
  fc_auth :: "auth_config option"

text \<open>
  What \<open>Headers.append\<close> accepts: a name that is an HTTP token; a value, trimmed of HTTP white
  space, without NUL, CR and LF, all of whose code units are bytes. It lower-cases nothing it
  stores; the order of the appends is kept.
\<close>

definition token_unit :: "unit16 \<Rightarrow> bool" where
  "token_unit c \<longleftrightarrow>
     (let n = unat c in (48 \<le> n \<and> n \<le> 57) \<or> (65 \<le> n \<and> n \<le> 90) \<or> (97 \<le> n \<and> n \<le> 122))
     \<or> c \<in> set (js ''!#$%&*+-.^_`|~'') \<or> unat c = 39"

definition http_token :: "jstr \<Rightarrow> bool" where
  "http_token s \<longleftrightarrow> s \<noteq> [] \<and> (\<forall>c \<in> set s. token_unit c)"

definition http_ws :: "unit16 \<Rightarrow> bool" where
  "http_ws c \<longleftrightarrow> unat c \<in> {9, 10, 13, 32}"

definition http_trim :: "jstr \<Rightarrow> jstr" where
  "http_trim s = rev (dropWhile http_ws (rev (dropWhile http_ws s)))"

definition header_value_ok :: "jstr \<Rightarrow> bool" where
  "header_value_ok s \<longleftrightarrow> (\<forall>c \<in> set s. unat c \<notin> {0, 10, 13} \<and> unat c < 256)"

type_synonym header_list = "(jstr \<times> jstr) list"

definition headers_append :: "jstr \<Rightarrow> jstr \<Rightarrow> header_list \<Rightarrow> fwd_error + header_list" where
  "headers_append name v hs =
     (if http_token name \<and> header_value_ok (http_trim v) then Inr (hs @ [(name, http_trim v)])
      else Inl InvalidHeader)"

fun append_values :: "jstr \<Rightarrow> jstr list \<Rightarrow> header_list \<Rightarrow> fwd_error + header_list" where
  "append_values name [] hs = Inr hs"
| "append_values name (v # vs) hs = rbind (headers_append name v hs) (append_values name vs)"

definition dropped_header :: "jstr \<Rightarrow> bool" where
  "dropped_header name \<longleftrightarrow> (let lname = to_lower name in
     isHopByHopHeader lname \<or> lname = js ''content-length'' \<or> lname = js ''host'')"

text \<open>The headers in the order of the map; a plain object lists integer-like names first.\<close>

fun forward_headers :: "headers \<Rightarrow> header_list \<Rightarrow> fwd_error + header_list" where
  "forward_headers [] hs = Inr hs"
| "forward_headers ((name, values) # rest) hs =
     (if dropped_header name then forward_headers rest hs
      else rbind (append_values name values hs) (forward_headers rest))"

record fetch_request =
  fq_url :: jstr
  fq_method :: jstr
  fq_headers :: header_list
  fq_body :: "bytes option"

definition forward_url :: "jstr \<Rightarrow> http_request \<Rightarrow> fwd_config \<Rightarrow> jstr" where
  "forward_url scheme req config =
     scheme @ js ''://'' @ urlAuthority (fc_localEndpoint config) (fc_hostname config) scheme @ hr_path req"

definition http_scheme :: "fwd_config \<Rightarrow> jstr" where
  "http_scheme config = (if fc_enableTLS config then js ''https'' else js ''http'')"

definition request_method :: "http_request \<Rightarrow> jstr" where
  "request_method req = (if hr_method req = [] then js ''GET'' else hr_method req)"

definition safe_method :: "jstr \<Rightarrow> bool" where
  "safe_method m \<longleftrightarrow> m = js ''GET'' \<or> m = js ''HEAD''"

definition build_fetch :: "http_request \<Rightarrow> fwd_config \<Rightarrow> fwd_error + fetch_request" where
  "build_fetch req config =
     rbind (forward_headers (hr_headers req) []) (\<lambda>hs.
       Inr \<lparr>fq_url = forward_url (http_scheme config) req config, fq_method = request_method req,
            fq_headers = hs,
            fq_body = (case hr_body req of
                         None \<Rightarrow> None
                       | Some b \<Rightarrow> if \<not> safe_method (request_method req) \<and> b \<noteq> [] then Some b else None)\<rparr>)"

section \<open>The response writer\<close>

text \<open>
  A response as \<open>fetch\<close> gives it: the entries the header iterator yields (names in lower case,
  duplicates joined, except cookies), the cookies when the browser has \<open>getSetCookie\<close>, and
  the chunks of the body, which may break off.
\<close>

record fetch_response =
  fr_status :: nat
  fr_statusText :: jstr
  fr_entries :: header_list
  fr_setCookie :: "jstr list option"
  fr_redirected :: bool
  fr_url :: jstr
  fr_body :: "(bytes list \<times> bool) option"

definition h_get :: "header_list \<Rightarrow> jstr \<Rightarrow> jstr option" where
  "h_get es name =
     (let vs = map snd (filter (\<lambda>e. to_lower (fst e) = name) es)
      in if vs = [] then None else Some (join (js '', '') vs))"

definition keep_clen :: "fetch_response \<Rightarrow> jstr option" where
  "keep_clen r =
     (if h_get (fr_entries r) (js ''content-encoding'') = None
      then h_get (fr_entries r) (js ''content-length'') else None)"

definition cookie_lines :: "fetch_response \<Rightarrow> jstr list" where
  "cookie_lines r =
     (case fr_setCookie r of None \<Rightarrow> [] | Some cs \<Rightarrow> map (\<lambda>c. js ''Set-Cookie: '' @ c) cs)"

definition skipped_response :: "jstr \<Rightarrow> bool" where
  "skipped_response lname \<longleftrightarrow> isHopByHopHeader lname
     \<or> lname = js ''content-encoding'' \<or> lname = js ''content-length'' \<or> lname = js ''transfer-encoding''"

fun entry_lines :: "header_list \<Rightarrow> jstr set \<Rightarrow> jstr list" where
  "entry_lines [] seen = []"
| "entry_lines ((name, value) # es) seen =
     (let lname = to_lower name in
      if skipped_response lname \<or> lname \<in> seen then entry_lines es seen
      else (name @ js '': '' @ value) # entry_lines es (insert lname seen))"

definition response_lines :: "fetch_response \<Rightarrow> jstr list" where
  "response_lines r =
     cookie_lines r
     @ entry_lines (fr_entries r) (if cookie_lines r = [] then {} else {js ''set-cookie''})
     @ [case keep_clen r of
          Some n \<Rightarrow> js ''Content-Length: '' @ n
        | None \<Rightarrow> js ''Transfer-Encoding: chunked'']"

definition response_head :: "fetch_response \<Rightarrow> jstr" where
  "response_head r =
     js ''HTTP/1.1 '' @ dec_str (fr_status r) @ js '' '' @ fr_statusText r @ crlf
     @ join crlf (response_lines r) @ crlf @ crlf"

definition writeHead :: "fetch_response \<Rightarrow> unit task" where
  "writeHead r = swrite (text_encode (response_head r))"

definition CHUNKED_TERMINATOR :: bytes where
  "CHUNKED_TERMINATOR = text_encode (js ''0'' @ crlf @ crlf)"

definition chunkedWrap :: "bytes \<Rightarrow> bytes" where
  "chunkedWrap data =
     map (\<lambda>u. of_nat (unat u)) (hex_str (length data)) @ [13, 10] @ data @ [13, 10]"

fun pipe_chunks :: "bool \<Rightarrow> bytes list \<Rightarrow> unit task" where
  "pipe_chunks chunked [] = treturn ()"
| "pipe_chunks chunked (c # cs) =
     (if chunked then
        (if c = [] then pipe_chunks chunked cs
         else tbind (swrite (chunkedWrap c)) (\<lambda>_. pipe_chunks chunked cs))
      else tbind (swrite c) (\<lambda>_. pipe_chunks chunked cs))"

definition write_terminator :: "bool \<Rightarrow> unit task" where
  "write_terminator chunked = (if chunked then swrite CHUNKED_TERMINATOR else treturn ())"

definition pipeBody :: "bool \<Rightarrow> (bytes list \<times> bool) option \<Rightarrow> unit task" where
  "pipeBody chunked body =
     (case body of
        None \<Rightarrow> write_terminator chunked
      | Some (cs, complete) \<Rightarrow>
          tbind (pipe_chunks chunked cs)
            (\<lambda>_. if complete then write_terminator chunked else tthrow BodyFailed))"

section \<open>Forwarding a request\<close>

record url_parts =
  up_origin :: jstr
  up_pathname :: jstr
  up_search :: jstr
  up_href :: jstr

definition bad_gateway_body :: "fwd_config \<Rightarrow> jstr \<Rightarrow> jstr" where
  "bad_gateway_body config msg =
     js ''backend unreachable: '' @ fc_localEndpoint config @ js '' '' @ [8212] @ js '' '' @ msg"

definition text_head :: "jstr \<Rightarrow> jstr list \<Rightarrow> nat \<Rightarrow> jstr" where
  "text_head status extra n =
     join crlf (status # extra @ [js ''Content-Type: text/plain'', js ''Content-Length: '' @ dec_str n]) @ crlf @ crlf"

definition redirect_location :: "url_parts \<Rightarrow> url_parts \<Rightarrow> jstr" where
  "redirect_location final orig =
     (if up_origin final = up_origin orig
      then (if up_pathname final = [] then js ''/'' else up_pathname final) @ up_search final
      else up_href final)"

definition redirect_reply :: "jstr \<Rightarrow> bytes" where
  "redirect_reply loc =
     (let body = text_encode (js ''redirected to '' @ loc)
      in text_encode (text_head (js ''HTTP/1.1 302 Found'') [js ''Location: '' @ loc] (length body)) @ body)"

definition forwardHTTP ::
  "(fetch_request \<Rightarrow> jstr + fetch_response) \<Rightarrow> (jstr \<Rightarrow> url_parts option) \<Rightarrow>
   http_request \<Rightarrow> fwd_config \<Rightarrow> unit task" where
  "forwardHTTP fetch parse_url req config =
     (case build_fetch req config of
        Inl e \<Rightarrow> tthrow e
      | Inr fq \<Rightarrow>
          (case fetch fq of
             Inl msg \<Rightarrow>
               (let body = text_encode (bad_gateway_body config msg)
                in tbind (swrite (text_encode (text_head (js ''HTTP/1.1 502 Bad Gateway'') [] (length body))))
                     (\<lambda>_. tbind (swrite body) (\<lambda>_. sclose)))
           | Inr resp \<Rightarrow>
               if fr_redirected resp \<and> safe_method (fq_method fq) then
                 (case (parse_url (fr_url resp), parse_url (fq_url fq)) of
                    (Some final, Some orig) \<Rightarrow>
                      tbind (swrite (redirect_reply (redirect_location final orig))) (\<lambda>_. sclose)
                  | _ \<Rightarrow> tthrow InvalidUrl)
               else
                 tbind (writeHead resp)
                   (\<lambda>_. tbind (pipeBody (keep_clen resp = None) (fr_body resp)) (\<lambda>_. sclose))))"

text \<open>
  The entry point: authentication, then one of the two forwarders; whatever they throw closes
  the stream. The WebSocket forwarder is passed in: the bridge has its own theory.
\<close>

definition handleRequest ::
  "(http_request \<Rightarrow> fwd_config \<Rightarrow> unit task) \<Rightarrow> (http_request \<Rightarrow> fwd_config \<Rightarrow> unit task) \<Rightarrow>
   http_request \<Rightarrow> fwd_config \<Rightarrow> unit task" where
  "handleRequest forwardWs forwardPlain req config =
     tcatch
       (if \<not> isAuthorized (hr_headers req) (fc_auth config) then writeUnauthorized
        else if isWebSocketUpgrade (hr_headers req) then forwardWs req config
        else forwardPlain req config)
       (\<lambda>e. sclose)"

end
