(* ===== verification/ChunkedCoding.thy ===== *)
theory ChunkedCoding
  imports Forwarder HttpRead
begin

text \<open>
  The chunked transfer coding: the frames the response writer emits are read back by the body
  reader of the tunnel, however the stream cuts them.
\<close>

definition hex_bytes :: "nat \<Rightarrow> bytes" where
  "hex_bytes n = map (\<lambda>u. of_nat (unat u)) (hex_str n)"

lemma ascii_hex: "ascii (hex_str n)"
  by (rule ascii_to_radix) simp_all

lemma hex_bytes_encode: "hex_bytes n = text_encode (hex_str n)"
  by (simp add: hex_bytes_def text_encode_ascii ascii_hex)

lemma hex_units:
  assumes "c \<in> set (hex_str n)"
  shows "c \<noteq> cu CHR '';''" "\<not> is_ws c" "of_nat (unat c) \<noteq> (13 :: byte)"
proof -
  obtain d where d: "d < 16" "c = digit_unit d"
    using to_radix_digits [of 16 c n] assms by auto
  have u: "unat c = (if d < 10 then 48 + d else 87 + d)" using d by (simp add: unat_digit_unit)
  show "c \<noteq> cu CHR '';''" using u d by (auto simp: cu_def word_unat_eq_iff split: if_splits)
  show "\<not> is_ws c" using d by simp
  have "unat (of_nat (unat c) :: byte) = unat c" using u d by (intro unat_of_nat_byte_small) (auto split: if_splits)
  moreover have "unat c \<noteq> 13" using u d by (auto split: if_splits)
  ultimately show "of_nat (unat c) \<noteq> (13 :: byte)" by fastforce
qed

lemma chunk_size_hex: "chunk_size (hex_bytes n) = Some (int n)"
proof -
  have "text_decode (hex_bytes n) = hex_str n"
    by (simp add: hex_bytes_encode text_decode_encode ascii_encodable ascii_hex)
  moreover have "split_on [cu CHR '';''] (hex_str n) = [hex_str n]"
    using hex_units(1) by (intro split_on_single_notin) blast
  moreover have "trim (hex_str n) = hex_str n"
    by (intro trim_id hex_units(2) [where n = n]) simp_all
  moreover have "parse_int (hex_str n) 16 = Some (int n)"
    using parse_int_to_radix [of 16 "[]" n] by simp
  ultimately show ?thesis by (simp add: chunk_size_def)
qed

lemma hex_line_end: "index_of CRLF (hex_bytes n @ CRLF @ rest) = Some (length (hex_bytes n))"
  unfolding CRLF_def using hex_units(3) by (intro index_of_at) (auto simp: hex_bytes_def)

lemma read_hex_line:
  assumes "carry @ concat rs = hex_bytes n @ CRLF @ rest"
  shows "\<exists>buf rs1. read_until CRLF carry rs = Some (length (hex_bytes n), buf, rs1)
    \<and> chunk_size (take (length (hex_bytes n)) buf) = Some (int n)
    \<and> drop (length (hex_bytes n) + 2) buf @ concat rs1 = rest"
proof -
  obtain buf rs1 where r: "read_until CRLF carry rs = Some (length (hex_bytes n), buf, rs1)"
    "buf @ concat rs1 = (hex_bytes n @ CRLF) @ rest"
    using read_until_total [of CRLF carry rs] assms hex_line_end by auto
  have len: "length (hex_bytes n @ CRLF) \<le> length buf"
    using read_until_Some [OF r(1)] index_of_length by fastforce
  have s: "take (length (hex_bytes n @ CRLF)) buf = hex_bytes n @ CRLF"
    "drop (length (hex_bytes n @ CRLF)) buf @ concat rs1 = rest"
    using split_at [OF r(2) len] by blast+
  have "take (length (hex_bytes n)) buf = take (length (hex_bytes n)) (take (length (hex_bytes n @ CRLF)) buf)"
    by (simp add: min_def)
  also have "\<dots> = hex_bytes n" by (simp only: s(1)) simp
  finally show ?thesis using r(1) s(2) by (simp add: chunk_size_hex)
qed

lemma subarray_tail: "0 \<le> k \<Longrightarrow> nat k \<le> length b \<Longrightarrow> subarray b k (int (length b)) = drop (nat k) b"
  by (simp add: subarray_def js_index_def slice_def)

lemma subarray_head: "n \<le> length b \<Longrightarrow> subarray b 0 (int n) = take n b"
  by (simp add: subarray_def js_index_def slice_def)

lemma chunkedWrap_eq: "chunkedWrap d = hex_bytes (length d) @ CRLF @ d @ CRLF"
  by (simp add: chunkedWrap_def hex_bytes_def CRLF_def)

lemma chunked_terminator_eq: "CHUNKED_TERMINATOR = hex_bytes 0 @ CRLF @ CRLF"
proof -
  have "hex_str 0 = js ''0''" by (simp add: to_radix.simps digit_unit_def cu_def)
  moreover have "hex_bytes 0 = text_encode (js ''0'')" by (simp add: hex_bytes_encode calculation)
  ultimately show ?thesis
    by (simp add: CHUNKED_TERMINATOR_def crlf_def text_encode_ascii cu_def CRLF_def)
qed

text \<open>One frame is taken off, whatever follows it.\<close>

lemma read_chunk:
  assumes "carry @ concat rs = chunkedWrap d @ rest" "d \<noteq> []"
  shows "\<exists>carry' rs'. carry' @ concat rs' = rest
    \<and> readChunkedBody carry rs = rbind (readChunkedBody carry' rs') (\<lambda>(body, rs4). Inr (d @ body, rs4))"
proof -
  let ?k = "length (hex_bytes (length d))"
  obtain buf rs1 where l: "read_until CRLF carry rs = Some (?k, buf, rs1)"
    "chunk_size (take ?k buf) = Some (int (length d))" "drop (?k + 2) buf @ concat rs1 = (d @ CRLF) @ rest"
    using read_hex_line [of carry rs "length d" "d @ CRLF @ rest"] assms(1) by (auto simp: chunkedWrap_eq)
  let ?b = "drop (?k + 2) buf"
  obtain b3 rs3 where r: "read_at_least (int (length d) + 2) ?b rs1 = Some (b3, rs3)"
    "int (length d) + 2 \<le> int (length b3)" "b3 @ concat rs3 = (d @ CRLF) @ rest"
  proof -
    have "int (length d) + 2 \<le> int (length (?b @ concat rs1))" unfolding l(3) by simp
    from read_at_least_total [OF this] show thesis using that unfolding l(3) by blast
  qed
  have len: "length (d @ CRLF) \<le> length b3" using r(2) by simp
  have s: "take (length (d @ CRLF)) b3 = d @ CRLF" "drop (length (d @ CRLF)) b3 @ concat rs3 = rest"
    using split_at [OF r(3) len] by blast+
  have n: "nat (int (length d) + 2) = length (d @ CRLF)" by simp
  have "subarray b3 (int (length d) + 2) (int (length b3)) = drop (length (d @ CRLF)) b3"
    using subarray_tail [of "int (length d) + 2" b3] len unfolding n by simp
  moreover have "subarray b3 0 (int (length d)) = d"
  proof -
    have "subarray b3 0 (int (length d)) = take (length d) b3" using len by (intro subarray_head) simp
    also have "\<dots> = take (length d) (take (length (d @ CRLF)) b3)" by (simp add: min_def)
    also have "\<dots> = d" by (simp only: s(1)) simp
    finally show ?thesis .
  qed
  ultimately have "readChunkedBody carry rs =
      rbind (readChunkedBody (drop (length (d @ CRLF)) b3) rs3) (\<lambda>(body, rs4). Inr (d @ body, rs4))"
    using assms(2) l(1,2) r(1)
    by (subst readChunkedBody.simps) (simp add: Let_def del: length_append)
  then show ?thesis using s(2) by blast
qed

text \<open>The terminator ends the body and consumes at most the line end after it.\<close>

lemma read_terminator:
  assumes "carry @ concat rs = CHUNKED_TERMINATOR @ extra"
  shows "\<exists>rs'. readChunkedBody carry rs = Inr ([], rs')"
proof -
  let ?k = "length (hex_bytes 0)"
  obtain buf rs1 where l: "read_until CRLF carry rs = Some (?k, buf, rs1)"
    "chunk_size (take ?k buf) = Some (int 0)"
    using read_hex_line [of carry rs 0 "CRLF @ extra"] assms by (auto simp: chunked_terminator_eq)
  then show ?thesis by (subst readChunkedBody.simps) (simp add: Let_def)
qed

definition chunked_body :: "bytes list \<Rightarrow> bytes" where
  "chunked_body ds = concat (map chunkedWrap (filter (\<lambda>d. d \<noteq> []) ds)) @ CHUNKED_TERMINATOR"

lemma read_chunked_body:
  "carry @ concat rs = chunked_body ds @ extra \<Longrightarrow> \<exists>rs'. readChunkedBody carry rs = Inr (concat ds, rs')"
proof (induction ds arbitrary: carry rs)
  case Nil
  then show ?case by (simp add: chunked_body_def read_terminator)
next
  case (Cons d ds)
  show ?case
  proof (cases "d = []")
    case True
    then show ?thesis using Cons by (simp add: chunked_body_def)
  next
    case False
    then have "carry @ concat rs = chunkedWrap d @ chunked_body ds @ extra"
      using Cons.prems by (simp add: chunked_body_def)
    from read_chunk [OF this False] obtain carry' rs'
      where r: "carry' @ concat rs' = chunked_body ds @ extra"
        "readChunkedBody carry rs = rbind (readChunkedBody carry' rs') (\<lambda>(body, rs4). Inr (d @ body, rs4))"
      by blast
    from Cons.IH [OF r(1)] show ?thesis using r(2) by auto
  qed
qed

end
