(* ===== verification/ForwarderCorrect.thy ===== *)
theory ForwarderCorrect
  imports ChunkedCoding WsCorrect
begin

text \<open>
  The forwarder: base64 credentials are decoded to what was encoded, only the configured pair
  passes, the backend sees the visitor's end-to-end headers, and every response is delimited.
\<close>

section \<open>Base64 in and out\<close>

fun sextets :: "bytes \<Rightarrow> nat list" where
  "sextets [] = []"
| "sextets [b0] = [unat b0 div 4, unat b0 mod 4 * 16]"
| "sextets [b0, b1] = [unat b0 div 4, unat b0 mod 4 * 16 + unat b1 div 16, unat b1 mod 16 * 4]"
| "sextets (b0 # b1 # b2 # bs) =
     unat b0 div 4 # (unat b0 mod 4 * 16 + unat b1 div 16) # (unat b1 mod 16 * 4 + unat b2 div 64)
       # (unat b2 mod 64) # sextets bs"

definition padding :: "bytes \<Rightarrow> jstr" where
  "padding bs = (if length bs mod 3 = 1 then [cu CHR ''='', cu CHR ''='']
                 else if length bs mod 3 = 2 then [cu CHR ''=''] else [])"

lemma base64_sextets: "base64 bs = map (\<lambda>n. B64 ! n) (sextets bs) @ padding bs"
proof (induction bs rule: sextets.induct)
  case 1
  show ?case by (simp add: padding_def)
next
  case (2 b0)
  have "padding [b0] = [cu CHR ''='', cu CHR ''='']" by (simp add: padding_def)
  then show ?case unfolding base64.simps base64_digit_values sextets.simps by simp
next
  case (3 b0 b1)
  have "padding [b0, b1] = [cu CHR ''='']" by (simp add: padding_def)
  then show ?case unfolding base64.simps base64_digit_values sextets.simps by simp
next
  case (4 b0 b1 b2 bs)
  have "length (b0 # b1 # b2 # bs) mod 3 = length bs mod 3" by simp
  then have "padding (b0 # b1 # b2 # bs) = padding bs" unfolding padding_def by presburger
  then show ?case using 4 unfolding base64.simps base64_digit_values sextets.simps by simp
qed

lemma sextets_bound: "n \<in> set (sextets bs) \<Longrightarrow> n < 64"
  using base64_digit_bounds
  by (induction bs rule: sextets.induct) (auto simp: less_imp_le_nat)

lemma sextet_bytes_sextets: "sextet_bytes (sextets bs) = bs"
proof (induction bs rule: sextets.induct)
  case (2 b0)
  have "unat b0 mod 4 * 16 div 16 = unat b0 mod 4" by simp
  then show ?case by (simp only: sextets.simps sextet_bytes.simps byte_split)
next
  case (3 b0 b1)
  have "unat b1 mod 16 * 4 div 4 = unat b1 mod 16" by simp
  then show ?case by (simp only: sextets.simps sextet_bytes.simps base64_digit_parts byte_split)
next
  case (4 b0 b1 b2 bs)
  then show ?case by (simp only: sextets.simps sextet_bytes.simps base64_digit_parts byte_split)
qed simp

lemma sextets_length: "length (sextets bs) = (4 * length bs + 2) div 3"
  by (induction bs rule: sextets.induct) simp_all

lemma index_of_nth: "distinct xs \<Longrightarrow> i < length xs \<Longrightarrow> index_of [xs ! i] xs = Some i"
  by (induction xs arbitrary: i) (auto simp: nth_Cons split: nat.splits)

lemma b64_index_nth: "n < 64 \<Longrightarrow> b64_index (B64 ! n) = Some n"
  unfolding b64_index_def using distinct_B64(1,2) by (intro index_of_nth) auto

lemma b64_units:
  assumes "c \<in> set B64 \<or> c = cu CHR ''=''"
  shows "\<not> is_ws c" "\<not> ascii_ws c"
proof -
  have "list_all (\<lambda>c. \<not> is_ws c \<and> \<not> ascii_ws c) (cu CHR ''='' # B64)"
    unfolding B64_def by (simp add: is_ws_def ascii_ws_def cu_def Let_def)
  then show "\<not> is_ws c" "\<not> ascii_ws c" using assms by (auto simp: list_all_iff)
qed

lemma base64_units: "c \<in> set (base64 bs) \<Longrightarrow> c \<in> set B64 \<or> c = cu CHR ''=''"
proof -
  have "B64 ! n \<in> set B64" if "n \<in> set (sextets bs)" for n
    using sextets_bound [OF that] distinct_B64(2) by (intro nth_mem) simp
  moreover have "set (padding bs) \<subseteq> {cu CHR ''=''}" by (auto simp: padding_def split: if_splits)
  ultimately show "c \<in> set (base64 bs) \<Longrightarrow> c \<in> set B64 \<or> c = cu CHR ''=''"
    unfolding base64_sextets by auto
qed

lemma strip_padding_base64: "strip_padding (base64 bs) = map (\<lambda>n. B64 ! n) (sextets bs)"
proof -
  let ?m = "map (\<lambda>n. B64 ! n) (sextets bs)"
  have len: "length (base64 bs) mod 4 = 0" by (simp add: length_base64)
  have last: "last ?m \<noteq> cu CHR ''=''" if "bs \<noteq> []"
  proof -
    have "sextets bs \<noteq> []" using that by (cases bs rule: sextets.cases) simp_all
    then have "last ?m = B64 ! last (sextets bs)" "last (sextets bs) < 64"
      by (simp_all add: last_map sextets_bound [of _ bs])
    then show ?thesis using b64_digit(2) by simp
  qed
  have ne: "?m \<noteq> []" if "bs \<noteq> []" using that by (cases bs rule: sextets.cases) simp_all
  show ?thesis
  proof (cases "bs = []")
    case True
    then show ?thesis by (simp add: strip_padding_def)
  next
    case False
    then show ?thesis
      using len last [OF False] ne [OF False]
      by (auto simp: strip_padding_def base64_sextets padding_def Let_def butlast_append)
  qed
qed

lemma atob_base64: "atob (base64 bs) = Some bs"
proof -
  have "filter (\<lambda>c. \<not> ascii_ws c) (base64 bs) = base64 bs"
    using base64_units b64_units(2) by (simp add: filter_id_conv)
  moreover have "map (\<lambda>c. the (b64_index c)) (map (\<lambda>n. B64 ! n) (sextets bs)) = sextets bs"
  proof -
    have "\<forall>n \<in> set (sextets bs). the (b64_index (B64 ! n)) = n"
      using sextets_bound [of _ bs] by (simp add: b64_index_nth)
    then show ?thesis by (simp add: map_idI)
  qed
  moreover have "length (sextets bs) mod 4 \<noteq> 1"
    unfolding sextets_length by presburger
  ultimately show ?thesis
    using sextets_bound b64_index_nth
    by (simp add: atob_def Let_def strip_padding_base64 sextet_bytes_sextets del: map_map)
qed

lemma decode_credentials: "encodable s \<Longrightarrow> decodeBase64Utf8 (base64 (text_encode s)) = Some s"
  by (simp add: decodeBase64Utf8_def atob_base64 text_decode_encode)

section \<open>Authentication\<close>

lemma basic_token_encoded:
  assumes "s \<noteq> []"
  shows "basic_token (trim (js ''Basic '' @ base64 (text_encode s))) = Some (base64 (text_encode s))"
proof -
  let ?b = "base64 (text_encode s)"
  have units: "\<not> is_ws c" if "c \<in> set ?b" for c using that base64_units b64_units(1) by blast
  obtain c r where b: "?b = c # r"
  proof -
    have "text_encode s \<noteq> []"
    proof -
      have "code_points s \<noteq> []" using assms by (cases s rule: code_points.cases) auto
      then obtain x xs where "code_points s = x # xs" by (cases "code_points s") auto
      moreover have "utf8_of x \<noteq> []" by (simp add: utf8_of_def)
      ultimately show ?thesis by (simp add: text_encode_def)
    qed
    then have "0 < length ?b" unfolding length_base64 by (cases "text_encode s") auto
    then show ?thesis using that by (cases ?b) auto
  qed
  have "\<not> is_ws (cu CHR ''B'')" by (simp add: is_ws_def cu_def)
  moreover have "\<not> is_ws (last ?b)" using units [of "last ?b"] b by simp
  ultimately have t: "trim (js ''Basic '' @ ?b) = js ''Basic '' @ ?b"
    using b by (intro trim_id) (simp_all add: last_append)
  have f: "take 5 (js ''Basic '' @ ?b) = js ''Basic''" "drop 5 (js ''Basic '' @ ?b) = cu CHR '' '' # ?b"
    "to_lower (js ''Basic'') = js ''basic''" "is_ws (cu CHR '' '')"
    by (simp_all add: to_lower_def lower_unit_def cu_def is_ws_def)
  have "dropWhile is_ws (cu CHR '' '' # ?b) = ?b" using f(4) units b by simp
  then show ?thesis
    unfolding t basic_token_def f(1-3) Let_def using f(4) units b by simp
qed

text \<open>
  C12. With credentials configured, a visitor who sends the pair \<open>u:p\<close> passes exactly if it is
  the configured one: the name ends at the first colon, the password may contain more.
\<close>

theorem auth_exact:
  assumes "au_username a \<noteq> []" "cu CHR '':'' \<notin> set u" "encodable (u @ cu CHR '':'' # p)"
    and "jget headers (js ''authorization'') = Some ((js ''Basic '' @ base64 (text_encode (u @ cu CHR '':'' # p))) # vs)"
  shows "isAuthorized headers (Some a) \<longleftrightarrow> u = au_username a \<and> p = au_password a"
proof -
  have "firstHeader headers (js ''authorization'') = Some (js ''Basic '' @ base64 (text_encode (u @ cu CHR '':'' # p)))"
    using assms(4) by (simp add: firstHeader_def)
  moreover have "basic_token (trim (js ''Basic '' @ base64 (text_encode (u @ cu CHR '':'' # p))))
      = Some (base64 (text_encode (u @ cu CHR '':'' # p)))" by (rule basic_token_encoded) simp
  moreover have "index_of [cu CHR '':''] (u @ cu CHR '':'' # p) = Some (length u)"
    using assms(2) by (rule index_of_single_append)
  ultimately show ?thesis
    unfolding isAuthorized_def using assms(1,3) by (simp add: decode_credentials Let_def del: js_simps)
qed

lemma auth_exact_witness:
  "isAuthorized [(js ''authorization'', [js ''Basic '' @ base64 (text_encode (js ''bob:a:b''))])]
     (Some \<lparr>au_username = js ''bob'', au_password = js ''a:b''\<rparr>)"
proof -
  have "encodable (js ''bob'' @ cu CHR '':'' # js ''a:b'')"
    by (rule ascii_encodable) (simp add: cu_def)
  moreover have "cu CHR '':'' \<notin> set (js ''bob'')" by (simp add: cu_def)
  ultimately show ?thesis
    using auth_exact [of "\<lparr>au_username = js ''bob'', au_password = js ''a:b''\<rparr>" "js ''bob''" "js ''a:b''"
        "[(js ''authorization'', [js ''Basic '' @ base64 (text_encode (js ''bob:a:b''))])]" "[]"]
    by simp
qed

lemma username_with_colon_locks_out:
  assumes "cu CHR '':'' \<in> set (au_username a)"
  shows "\<not> isAuthorized headers (Some a)"
proof -
  have "cu CHR '':'' \<notin> set (take i d)" if "index_of [cu CHR '':''] d = Some i" for d i
    using that
  proof (induction d arbitrary: i)
    case (Cons x d)
    then show ?case by (cases i) (auto split: if_splits)
  qed simp
  then show ?thesis
    using assms unfolding isAuthorized_def
    by (auto simp: Let_def split: option.splits if_splits) (metis index_of_single_None)+
qed

text \<open>A request, a configuration and a streamed response, for the witnesses.\<close>

definition demo_get :: http_request where
  "demo_get = make_request (js ''GET'') (js ''/'') [(js ''host'', [js ''a'']), (js ''x-b'', [js ''1''])] [] None"

definition demo_config :: fwd_config where
  "demo_config = \<lparr>fc_localEndpoint = js ''localhost:80'', fc_hostname = [], fc_enableTLS = False,
     fc_auth = Some \<lparr>au_username = js ''bob'', au_password = js ''a:b''\<rparr>\<rparr>"

definition demo_response :: fetch_response where
  "demo_response = \<lparr>fr_status = 200, fr_statusText = js ''OK'', fr_entries = [(js ''x-c'', js ''1'')],
     fr_setCookie = None, fr_redirected = False, fr_url = [], fr_body = Some ([[1, 2], []], True)\<rparr>"

text \<open>
  C33. A request without the right credentials gets the 401 answer and nothing else: the stream
  is closed and neither forwarder runs, whatever they would do.
\<close>

theorem unauthorized_never_forwarded:
  assumes "\<not> isAuthorized (hr_headers req) (fc_auth config)" "0 < n"
  shows "handleRequest forwardWs forwardPlain req config (new_sink n) =
    (\<lparr>sk_acts = [SWrite (text_encode unauthorized_text), SClose], sk_left = n - 1, sk_closed = True\<rparr>, Inr ())"
  using assms
  by (simp add: handleRequest_def writeUnauthorized_def tcatch_def tbind_def swrite_def sclose_def new_sink_def)

lemma unauthorized_never_forwarded_witness:
  "handleRequest (\<lambda>_ _. treturn ()) (\<lambda>_ _. treturn ()) demo_get demo_config (new_sink 3) =
    (\<lparr>sk_acts = [SWrite (text_encode unauthorized_text), SClose], sk_left = 3 - 1, sk_closed = True\<rparr>, Inr ())"
proof (rule unauthorized_never_forwarded)
  have "firstHeader (hr_headers demo_get) (js ''authorization'') = None"
    by (simp add: demo_get_def make_request_def firstHeader_def cu_def)
  then show "\<not> isAuthorized (hr_headers demo_get) (fc_auth demo_config)"
    by (simp add: isAuthorized_def demo_config_def del: js_simps)
qed simp

section \<open>What the backend sees\<close>

definition end_to_end :: "headers \<Rightarrow> header_list" where
  "end_to_end hs =
     concat (map (\<lambda>(n, vs). if dropped_header n then [] else map (\<lambda>v. (n, http_trim v)) vs) hs)"

definition sendable :: "headers \<Rightarrow> bool" where
  "sendable hs \<longleftrightarrow> (\<forall>(n, v) \<in> set (end_to_end hs). http_token n \<and> header_value_ok v)"

lemma append_values_eq:
  "append_values name vs hs =
     (if \<forall>v \<in> set vs. http_token name \<and> header_value_ok (http_trim v)
      then Inr (hs @ map (\<lambda>v. (name, http_trim v)) vs) else Inl InvalidHeader)"
  by (induction vs arbitrary: hs) (auto simp: headers_append_def)

lemma forward_headers_eq:
  "forward_headers hs acc =
     (if sendable hs then Inr (acc @ end_to_end hs) else Inl InvalidHeader)"
proof (induction hs arbitrary: acc)
  case (Cons x hs)
  obtain n vs where x: "x = (n, vs)" by (cases x)
  have e: "end_to_end (x # hs) =
      (if dropped_header n then [] else map (\<lambda>v. (n, http_trim v)) vs) @ end_to_end hs"
    by (simp add: end_to_end_def x)
  moreover have "sendable (x # hs) \<longleftrightarrow> sendable hs
      \<and> (dropped_header n \<or> (\<forall>v \<in> set vs. http_token n \<and> header_value_ok (http_trim v)))"
    unfolding sendable_def e by auto
  ultimately show ?case using Cons.IH by (simp add: x append_values_eq)
qed (simp add: sendable_def end_to_end_def)

lemma dropped_names:
  "dropped_header n \<longleftrightarrow> to_lower n \<in> set [js ''connection'', js ''keep-alive'', js ''proxy-authorization'',
     js ''proxy-authenticate'', js ''te'', js ''trailer'', js ''transfer-encoding'', js ''upgrade'',
     js ''content-length'', js ''host'']"
  by (auto simp: dropped_header_def isHopByHopHeader_def HOP_def Let_def simp del: js_simps)

text \<open>
  C34. The request handed to \<open>fetch\<close> has the visitor's headers, every value of each in order
  and trimmed, less exactly the hop-by-hop headers of RFC 7230 (connection, keep-alive,
  proxy-authorization, proxy-authenticate, te, trailer, transfer-encoding, upgrade) and the
  visitor's own host and content-length; a header the browser would not take fails the request
  before anything is fetched, and a body goes along unless the method is GET or HEAD.
\<close>

theorem backend_headers:
  "build_fetch req config =
     (let kept = concat (map (\<lambda>(n, vs).
            if to_lower n \<in> set [js ''connection'', js ''keep-alive'', js ''proxy-authorization'',
                 js ''proxy-authenticate'', js ''te'', js ''trailer'', js ''transfer-encoding'', js ''upgrade'',
                 js ''content-length'', js ''host'']
            then [] else map (\<lambda>v. (n, http_trim v)) vs) (hr_headers req));
          meth = (if hr_method req = [] then js ''GET'' else hr_method req)
      in if list_all (\<lambda>(n, v). http_token n \<and> header_value_ok v) kept
         then Inr \<lparr>fq_url = forward_url (http_scheme config) req config, fq_method = meth, fq_headers = kept,
                fq_body = (case hr_body req of
                   None \<Rightarrow> None
                 | Some b \<Rightarrow> if meth \<noteq> js ''GET'' \<and> meth \<noteq> js ''HEAD'' \<and> b \<noteq> [] then Some b else None)\<rparr>
         else Inl InvalidHeader)"
proof -
  let ?kept = "end_to_end (hr_headers req)"
  have k: "?kept = concat (map (\<lambda>(n, vs).
            if to_lower n \<in> set [js ''connection'', js ''keep-alive'', js ''proxy-authorization'',
                 js ''proxy-authenticate'', js ''te'', js ''trailer'', js ''transfer-encoding'', js ''upgrade'',
                 js ''content-length'', js ''host'']
            then [] else map (\<lambda>v. (n, http_trim v)) vs) (hr_headers req))"
    unfolding end_to_end_def dropped_names ..
  have s: "sendable (hr_headers req) = list_all (\<lambda>(n, v). http_token n \<and> header_value_ok v) ?kept"
    by (simp add: sendable_def list_all_iff)
  show ?thesis
    unfolding Let_def k [symmetric] s [symmetric]
    by (auto simp: build_fetch_def forward_headers_eq request_method_def safe_method_def split: option.splits
        simp del: js_simps)
qed

section \<open>Responses\<close>

definition line_name :: "jstr \<Rightarrow> jstr" where
  "line_name l = to_lower (case index_of [cu CHR '':''] l of None \<Rightarrow> l | Some i \<Rightarrow> take i l)"

lemma line_name_header: "cu CHR '':'' \<notin> set n \<Longrightarrow> line_name (n @ js '': '' @ v) = to_lower n"
  by (simp add: line_name_def index_of_single_append)

lemma entry_lines_names:
  assumes "\<forall>(n, v) \<in> set es. cu CHR '':'' \<notin> set n"
  shows "l \<in> set (entry_lines es seen) \<Longrightarrow> \<not> skipped_response (line_name l)"
  using assms by (induction es seen rule: entry_lines.induct)
    (auto simp: Let_def line_name_header simp del: js_simps split: if_splits)

text \<open>
  A response head says once how its body ends: among its lines exactly the last one is a
  framing, encoding or hop-by-hop header, the backend's length if the body is passed on as it
  came, chunked otherwise.
\<close>

theorem response_framing:
  assumes "\<forall>(n, v) \<in> set (fr_entries r). cu CHR '':'' \<notin> set n"
  shows "filter (\<lambda>l. skipped_response (line_name l)) (response_lines r) =
    [case keep_clen r of Some n \<Rightarrow> js ''Content-Length: '' @ n | None \<Rightarrow> js ''Transfer-Encoding: chunked'']"
proof -
  have n: "cu CHR '':'' \<notin> set (js ''Set-Cookie'')" "cu CHR '':'' \<notin> set (js ''Content-Length'')"
    "cu CHR '':'' \<notin> set (js ''Transfer-Encoding'')" by (simp_all add: cu_def)
  have cookie: "\<not> skipped_response (line_name l)" if l: "l \<in> set (cookie_lines r)" for l
  proof -
    obtain c where "l = js ''Set-Cookie: '' @ c"
      using l by (auto simp: cookie_lines_def simp del: js_simps split: option.splits)
    then have "l = js ''Set-Cookie'' @ js '': '' @ c" by simp
    then have "line_name l = to_lower (js ''Set-Cookie'')" by (simp only: line_name_header [OF n(1)])
    then show ?thesis
      by (simp add: skipped_response_def isHopByHopHeader_def HOP_def to_lower_def lower_unit_def cu_def)
  qed
  have "filter (\<lambda>l. skipped_response (line_name l)) (cookie_lines r) = []"
    using cookie by (simp add: filter_empty_conv)
  moreover have "filter (\<lambda>l. skipped_response (line_name l)) (entry_lines (fr_entries r) s) = []" for s
    using entry_lines_names [OF assms] by (simp add: filter_empty_conv)
  moreover have "skipped_response (line_name (js ''Content-Length: '' @ v))" for v
  proof -
    have "js ''Content-Length: '' @ v = js ''Content-Length'' @ js '': '' @ v" by simp
    then have "line_name (js ''Content-Length: '' @ v) = to_lower (js ''Content-Length'')"
      by (simp only: line_name_header [OF n(2)])
    then show ?thesis by (simp add: skipped_response_def to_lower_def lower_unit_def cu_def)
  qed
  moreover have "skipped_response (line_name (js ''Transfer-Encoding: chunked''))"
  proof -
    have "js ''Transfer-Encoding: chunked'' = js ''Transfer-Encoding'' @ js '': '' @ js ''chunked''" by simp
    then have "line_name (js ''Transfer-Encoding: chunked'') = to_lower (js ''Transfer-Encoding'')"
      by (simp only: line_name_header [OF n(3)])
    then show ?thesis by (simp add: skipped_response_def to_lower_def lower_unit_def cu_def)
  qed
  ultimately show ?thesis by (simp add: response_lines_def split: option.split del: js_simps)
qed

lemma response_framing_witness:
  "filter (\<lambda>l. skipped_response (line_name l)) (response_lines demo_response) = [js ''Transfer-Encoding: chunked'']"
proof -
  have "\<forall>(n, v) \<in> set (fr_entries demo_response). cu CHR '':'' \<notin> set n"
    by (simp add: demo_response_def cu_def)
  moreover have "keep_clen demo_response = None" by (simp add: keep_clen_def h_get_def demo_response_def
        to_lower_def lower_unit_def cu_def)
  ultimately show ?thesis using response_framing [of demo_response] by (simp del: js_simps)
qed

definition body_writes :: "bool \<Rightarrow> bytes list \<Rightarrow> bytes list" where
  "body_writes chunked cs = (if chunked then map chunkedWrap (filter (\<lambda>d. d \<noteq> []) cs) else cs)"

lemma body_writes_Cons:
  "c \<noteq> [] \<Longrightarrow> body_writes True (c # cs) = chunkedWrap c # body_writes True cs"
  "body_writes False (c # cs) = c # body_writes False cs"
  by (simp_all add: body_writes_def)

lemma pipe_chunks_run:
  "\<not> sk_closed s \<Longrightarrow> length (body_writes ch cs) \<le> sk_left s \<Longrightarrow>
   pipe_chunks ch cs s = (s\<lparr>sk_acts := sk_acts s @ map SWrite (body_writes ch cs),
     sk_left := sk_left s - length (body_writes ch cs)\<rparr>, Inr ())"
proof (induction ch cs arbitrary: s rule: pipe_chunks.induct)
  case (2 ch c cs)
  show ?case
  proof (cases "ch \<and> c = []")
    case True
    then show ?thesis using 2 by (simp add: body_writes_def)
  next
    case False
    then have w: "body_writes ch (c # cs) = (if ch then chunkedWrap c else c) # body_writes ch cs"
      by (simp add: body_writes_Cons)
    have "swrite (if ch then chunkedWrap c else c) s =
        (s\<lparr>sk_acts := sk_acts s @ [SWrite (if ch then chunkedWrap c else c)], sk_left := sk_left s - 1\<rparr>, Inr ())"
      using "2.prems" by (simp add: swrite_def w)
    then show ?thesis using "2.IH" "2.prems" False by (cases ch) (auto simp: tbind_def body_writes_Cons)
  qed
qed (simp add: treturn_def body_writes_def)

text \<open>
  C5. A response that streams to its end is delimited: the head, the body and the close are
  all that is written, and what the head announced lets the peer read exactly the backend's
  bytes; for a chunked body that is the tunnel's own chunk reader, over any cut of the stream.
\<close>

theorem response_body_delimited:
  assumes "build_fetch req config = Inr fq" "fetch fq = Inr r"
    and "\<not> (fr_redirected r \<and> safe_method (fq_method fq))"
    and "fr_body r = Some (cs, True)" "length cs + 2 \<le> n"
  shows "\<exists>ws left. forwardHTTP fetch parse_url req config (new_sink n) =
      (\<lparr>sk_acts = SWrite (text_encode (response_head r)) # map SWrite ws @ [SClose],
        sk_left = left, sk_closed = True\<rparr>, Inr ())
    \<and> (if keep_clen r \<noteq> None then concat ws = concat cs
       else \<forall>carry rs extra. carry @ concat rs = concat ws @ extra \<longrightarrow>
              (\<exists>rs'. readChunkedBody carry rs = Inr (concat cs, rs')))"
proof -
  let ?ch = "keep_clen r = None"
  let ?ws = "body_writes ?ch cs @ (if ?ch then [CHUNKED_TERMINATOR] else [])"
  have "length (body_writes ?ch cs) \<le> length cs" by (simp add: body_writes_def)
  then have len: "length (body_writes ?ch cs) < n - 1" using assms(5) by simp
  have pipe: "pipe_chunks ?ch cs t = (t\<lparr>sk_acts := sk_acts t @ map SWrite (body_writes ?ch cs),
      sk_left := sk_left t - length (body_writes ?ch cs)\<rparr>, Inr ())" if "\<not> sk_closed t" "sk_left t = n - 1" for t
    using len that by (intro pipe_chunks_run) simp_all
  have piped: "\<exists>left. pipeBody ?ch (fr_body r) t =
      (\<lparr>sk_acts = sk_acts t @ map SWrite ?ws, sk_left = left, sk_closed = False\<rparr>, Inr ())"
    if "\<not> sk_closed t" "sk_left t = n - 1" for t
    using pipe [OF that] that len
    by (cases t; cases "keep_clen r")
      (simp_all add: assms(4) pipeBody_def tbind_def write_terminator_def swrite_def treturn_def)
  let ?t = "\<lparr>sk_acts = [SWrite (text_encode (response_head r))], sk_left = n - 1, sk_closed = False\<rparr>"
  have "writeHead r (new_sink n) = (?t, Inr ())"
    using assms(5) by (simp add: writeHead_def swrite_def new_sink_def)
  moreover obtain left where "pipeBody ?ch (fr_body r) ?t =
      (\<lparr>sk_acts = sk_acts ?t @ map SWrite ?ws, sk_left = left, sk_closed = False\<rparr>, Inr ())"
    using piped [of ?t] by auto
  ultimately have "\<exists>left. forwardHTTP fetch parse_url req config (new_sink n) =
      (\<lparr>sk_acts = SWrite (text_encode (response_head r)) # map SWrite ?ws @ [SClose],
        sk_left = left, sk_closed = True\<rparr>, Inr ())"
    using assms(1-3) by (auto simp: forwardHTTP_def tbind_def sclose_def)
  then obtain left where run: "forwardHTTP fetch parse_url req config (new_sink n) =
      (\<lparr>sk_acts = SWrite (text_encode (response_head r)) # map SWrite ?ws @ [SClose],
        sk_left = left, sk_closed = True\<rparr>, Inr ())" by blast
  show ?thesis
  proof (intro exI [of _ ?ws] exI [of _ left] conjI run)
    show "if keep_clen r \<noteq> None then concat ?ws = concat cs
       else \<forall>carry rs extra. carry @ concat rs = concat ?ws @ extra \<longrightarrow>
              (\<exists>rs'. readChunkedBody carry rs = Inr (concat cs, rs'))"
    proof (cases "keep_clen r")
      case None
      then have "concat ?ws = chunked_body cs" by (simp add: body_writes_def chunked_body_def)
      then show ?thesis using None by (simp add: read_chunked_body)
    qed (simp add: body_writes_def)
  qed
qed

lemma response_body_delimited_witness:
  "\<exists>ws left. forwardHTTP (\<lambda>_. Inr demo_response) (\<lambda>_. None) demo_get demo_config (new_sink 9) =
      (\<lparr>sk_acts = SWrite (text_encode (response_head demo_response)) # map SWrite ws @ [SClose],
        sk_left = left, sk_closed = True\<rparr>, Inr ())
    \<and> (\<exists>rs'. readChunkedBody [] [concat ws] = Inr ([1, 2], rs'))"
proof -
  have "\<exists>fq. build_fetch demo_get demo_config = Inr fq"
    by (simp add: build_fetch_def demo_get_def make_request_def dropped_header_def isHopByHopHeader_def HOP_def
        headers_append_def http_token_def token_unit_def header_value_ok_def http_trim_def http_ws_def
        to_lower_def lower_unit_def cu_def Let_def)
  then obtain fq where fq: "build_fetch demo_get demo_config = Inr fq" by blast
  have k: "keep_clen demo_response = None"
    by (simp add: keep_clen_def h_get_def demo_response_def to_lower_def lower_unit_def cu_def)
  have b: "fr_body demo_response = Some ([[1, 2], []], True)" "\<not> fr_redirected demo_response"
    by (simp_all add: demo_response_def)
  show ?thesis
    using response_body_delimited [OF fq, of "\<lambda>_. Inr demo_response" demo_response "[[1, 2], []]" 9 "\<lambda>_. None"]
    by (simp add: k b) (metis append_Nil append_Nil2 concat.simps)
qed

text \<open>
  C39. No request leaves its stream open: however the fetch, the body, the headers or the
  writes fail, handling an HTTP request returns with the stream closed.
\<close>

theorem http_request_closes:
  assumes "\<not> isWebSocketUpgrade (hr_headers req)"
  shows "\<exists>s'. handleRequest forwardWs (forwardHTTP fetch parse_url) req config s = (s', Inr ()) \<and> sk_closed s'"
proof -
  have close: "sclose t = (t', x) \<Longrightarrow> sk_closed t' \<and> x = Inr ()" for t t' x by (auto simp: sclose_def)
  have bind: "tbind m (\<lambda>_. sclose) t = (t', Inr x) \<Longrightarrow> sk_closed t'" for m :: "unit task" and t t' x
    by (auto simp: tbind_def split: prod.splits sum.splits dest: close)
  have plain: "forwardHTTP fetch parse_url req config s = (t', Inr x) \<Longrightarrow> sk_closed t'" for t' x
    by (auto simp: forwardHTTP_def tthrow_def Let_def split: sum.splits if_splits option.splits dest: bind)
      (auto simp: tbind_def split: prod.splits sum.splits dest: close)
  have un: "writeUnauthorized s = (t', Inr x) \<Longrightarrow> sk_closed t'" for t' x
    by (auto simp: writeUnauthorized_def tcatch_def tbind_def tthrow_def split: prod.splits sum.splits dest: close)
  show ?thesis
    using assms close plain un
    by (auto simp: handleRequest_def tcatch_def split: prod.splits sum.splits) (metis surj_pair)+
qed

lemma http_request_closes_witness:
  "\<exists>s'. handleRequest (\<lambda>_ _. treturn ()) (forwardHTTP (\<lambda>_. Inl (js ''refused'')) (\<lambda>_. None)) demo_get demo_config
      (new_sink 0) = (s', Inr ()) \<and> sk_closed s'"
proof (rule http_request_closes)
  have "headerHasToken (hr_headers demo_get) (js ''connection'') t = False" for t
    by (simp add: headerHasToken_def demo_get_def make_request_def cu_def)
  then show "\<not> isWebSocketUpgrade (hr_headers demo_get)" by (simp add: isWebSocketUpgrade_def del: js_simps)
qed

end
