(* ===== verification/WsBridge.thy ===== *)
theory WsBridge
  imports Forwarder
begin

text \<open>
  The WebSocket bridge of \<open>extension/lib/forwarder.js\<close>: every upgrade request opens a socket to
  the backend and a bridge between the two. All bridges share one map from stream ids to
  backend sockets, as \<open>activeWebSockets\<close> does. A bridge is driven by events: those of its
  socket and what the visitor's stream reads. An asynchronous handler is cut at its awaits.
\<close>

datatype ready_state = Connecting | Open | Closing | Closed

datatype backend_act =
    SendText jstr
  | SendBinary bytes
  | CloseSocket "nat option"

record bridge =
  br_streamId :: nat
  br_key :: jstr
  br_protocol :: "jstr option"
  br_extensions :: "jstr option"
  br_blocked :: bool
  br_url :: jstr
  br_responded :: bool
  br_ready :: ready_state
  br_decoder :: ws_decoder
  br_reading :: bool
  br_sink :: sink
  br_sent :: "backend_act list"

record ws_world =
  ww_active :: "(nat, nat) jsmap"
  ww_bridges :: "bridge list"

definition upd_bridge :: "nat \<Rightarrow> (bridge \<Rightarrow> bridge) \<Rightarrow> ws_world \<Rightarrow> ws_world" where
  "upd_bridge i f w = w\<lparr>ww_bridges := (ww_bridges w)[i := f (ww_bridges w ! i)]\<rparr>"

abbreviation br :: "ws_world \<Rightarrow> nat \<Rightarrow> bridge" where
  "br w i \<equiv> ww_bridges w ! i"

text \<open>A write or a close of the visitor's stream whose outcome nobody looks at.\<close>

definition visitor_do :: "unit task \<Rightarrow> bridge \<Rightarrow> bridge" where
  "visitor_do t b = b\<lparr>br_sink := fst (t (br_sink b))\<rparr>"

definition visitor_write :: "bytes \<Rightarrow> bridge \<Rightarrow> bridge" where
  "visitor_write d b = visitor_do (swrite d) b"

definition visitor_close :: "bridge \<Rightarrow> bridge" where
  "visitor_close b = visitor_do sclose b"

definition set_active :: "nat \<Rightarrow> nat \<Rightarrow> ws_world \<Rightarrow> ws_world" where
  "set_active sid i w = w\<lparr>ww_active := jset sid i (ww_active w)\<rparr>"

definition delete_active :: "nat \<Rightarrow> ws_world \<Rightarrow> ws_world" where
  "delete_active sid w = w\<lparr>ww_active := jdelete sid (ww_active w)\<rparr>"

section \<open>Small parts\<close>

definition close_frame :: "nat \<Rightarrow> bytes" where
  "close_frame code = encodeWsFrame OP_CLOSE (put_u16_be code) None"

definition sendVisitorClose :: "nat \<Rightarrow> bridge \<Rightarrow> bridge" where
  "sendVisitorClose code b = visitor_write (close_frame code) b"

definition parseCloseCode :: "bytes \<Rightarrow> nat option" where
  "parseCloseCode payload = (if length payload \<ge> 2 then Some (get_u16_be payload 0) else None)"

definition stripPermessageDeflate :: "jstr option \<Rightarrow> jstr" where
  "stripPermessageDeflate extensions =
     (case extensions of
        None \<Rightarrow> []
      | Some e \<Rightarrow>
          if e = [] then []
          else join (js '', '')
            (filter (\<lambda>s. take (length ''permessage-deflate'') (to_lower s) \<noteq> js ''permessage-deflate'')
              (map trim (split_on [cu CHR '',''] e))))"

text \<open>
  \<open>close\<close> of a socket: with a code it throws unless the code is 1000 or from 3000 to 4999, and
  the handler then closes without one; a missing code arrives as 0.
\<close>

definition close_socket :: "nat option \<Rightarrow> bridge \<Rightarrow> bridge" where
  "close_socket code b =
     (if br_ready b = Connecting \<or> br_ready b = Open
      then b\<lparr>br_ready := Closing, br_sent := br_sent b @ [CloseSocket code]\<rparr> else b)"

definition close_with_code :: "nat option \<Rightarrow> bridge \<Rightarrow> bridge" where
  "close_with_code code b =
     (case code of
        None \<Rightarrow> close_socket None b
      | Some c \<Rightarrow>
          if c = 1000 \<or> (3000 \<le> c \<and> c \<le> 4999) then close_socket (Some c) b else close_socket None b)"

section \<open>Opening\<close>

definition ws_scheme :: "fwd_config \<Rightarrow> jstr" where
  "ws_scheme config = (if fc_enableTLS config then js ''wss'' else js ''ws'')"

text \<open>
  \<open>new WebSocket\<close> throws a syntax error for a URL it cannot parse (an argument) and for a
  subprotocol that is not a single HTTP token.
\<close>

definition offered_protocol :: "http_request \<Rightarrow> jstr option" where
  "offered_protocol req = firstHeader (hr_headers req) (js ''sec-websocket-protocol'')"

definition socket_ok :: "bool \<Rightarrow> http_request \<Rightarrow> bool" where
  "socket_ok url_ok req \<longleftrightarrow> url_ok \<and>
     (case offered_protocol req of None \<Rightarrow> True | Some p \<Rightarrow> p = [] \<or> http_token p)"

definition new_bridge :: "bool \<Rightarrow> nat \<Rightarrow> http_request \<Rightarrow> fwd_config \<Rightarrow> sink \<Rightarrow> bridge" where
  "new_bridge secure sid req config s =
     \<lparr>br_streamId = sid,
      br_key = (case firstHeader (hr_headers req) (js ''sec-websocket-key'') of None \<Rightarrow> [] | Some k \<Rightarrow> k),
      br_protocol = offered_protocol req,
      br_extensions = firstHeader (hr_headers req) (js ''sec-websocket-extensions''),
      br_blocked = (secure \<and> ws_scheme config = js ''ws''),
      br_url = forward_url (ws_scheme config) req config,
      br_responded = False, br_ready = Connecting, br_decoder = new_WsDecoder, br_reading = False,
      br_sink = s, br_sent = []\<rparr>"

definition forwardWebSocket ::
  "bool \<Rightarrow> bool \<Rightarrow> nat \<Rightarrow> http_request \<Rightarrow> fwd_config \<Rightarrow> sink \<Rightarrow> ws_world \<Rightarrow> fwd_error + ws_world" where
  "forwardWebSocket url_ok secure sid req config s w =
     (if socket_ok url_ok req
      then Inr (w\<lparr>ww_bridges := ww_bridges w @ [new_bridge secure sid req config s]\<rparr>)
      else Inl SocketSyntax)"

text \<open>The same as the request handler sees it: it throws or it returns.\<close>

definition ws_task :: "bool \<Rightarrow> http_request \<Rightarrow> fwd_config \<Rightarrow> unit task" where
  "ws_task url_ok req config = (if socket_ok url_ok req then treturn () else tthrow SocketSyntax)"

section \<open>The socket's events\<close>

text \<open>
  \<open>failVisitor\<close>: once per bridge, an HTTP answer in one write, then the close that follows
  when the write has settled.
\<close>

definition failVisitor :: "jstr \<Rightarrow> jstr \<Rightarrow> bridge \<Rightarrow> bridge" where
  "failVisitor status reason b =
     (if br_responded b then b
      else let body = (if reason = [] then js ''WebSocket backend unreachable'' else reason);
               line = js ''HTTP/1.1 '' @ status @ js '' '' @ (if reason = [] then js ''Error'' else reason);
               bytes = text_encode body;
               out = text_encode (text_head line [] (length bytes)) @ bytes
           in visitor_close (visitor_write out (b\<lparr>br_responded := True\<rparr>)))"

definition error_reason :: "bridge \<Rightarrow> jstr" where
  "error_reason b =
     (if br_blocked b
      then js ''Chrome blocks ws:// from extension pages (secure context). Enable TLS on this tunnel to use wss:// instead. Backend: '' @ br_url b
      else js ''backend unreachable: '' @ br_url b)"

definition after_socket :: "nat \<Rightarrow> jstr \<Rightarrow> nat \<Rightarrow> ws_world \<Rightarrow> ws_world" where
  "after_socket i reason code w =
     (let sid = br_streamId (br w i);
          w1 = (if jget (ww_active w) sid \<noteq> None then upd_bridge i (sendVisitorClose code) w else w)
      in upd_bridge i (\<lambda>b. if br_responded b then visitor_close b else failVisitor (js ''502'') reason b)
           (delete_active sid w1))"

definition onerror :: "nat \<Rightarrow> ws_world \<Rightarrow> ws_world" where
  "onerror i w =
     after_socket i (error_reason (br w i)) 1011 (upd_bridge i (\<lambda>b. b\<lparr>br_ready := Closed\<rparr>) w)"

definition onclose :: "nat \<Rightarrow> nat \<Rightarrow> ws_world \<Rightarrow> ws_world" where
  "onclose i code w =
     (let w1 = upd_bridge i (\<lambda>b. b\<lparr>br_ready := Closed\<rparr>) w
      in after_socket i (js ''backend closed before handshake: '' @ br_url (br w i) @ js '' (code='' @ dec_str code @ js '')'')
           (if code = 0 then 1000 else code) w1)"

text \<open>
  \<open>onopen\<close> up to its first await, after it (the 101 is written), and after the write has
  settled. \<open>sha1\<close> is the browser's digest.
\<close>

definition onopen :: "nat \<Rightarrow> ws_world \<Rightarrow> ws_world" where
  "onopen i w = set_active (br_streamId (br w i)) i (upd_bridge i (\<lambda>b. b\<lparr>br_ready := Open\<rparr>) w)"

definition switching_lines :: "(bytes \<Rightarrow> bytes) \<Rightarrow> bridge \<Rightarrow> jstr list" where
  "switching_lines sha1 b =
     [js ''HTTP/1.1 101 Switching Protocols'', js ''Upgrade: websocket'', js ''Connection: Upgrade'',
      js ''Sec-WebSocket-Accept: '' @ wsAccept sha1 (br_key b)]
     @ (case br_protocol b of None \<Rightarrow> [] | Some p \<Rightarrow> if p = [] then [] else [js ''Sec-WebSocket-Protocol: '' @ p])
     @ (let kept = stripPermessageDeflate (br_extensions b)
        in if kept = [] then [] else [js ''Sec-WebSocket-Extensions: '' @ kept])
     @ [[], []]"

definition switching_reply :: "(bytes \<Rightarrow> bytes) \<Rightarrow> bridge \<Rightarrow> bytes" where
  "switching_reply sha1 b = text_encode (join crlf (switching_lines sha1 b))"

definition onopen_accepted :: "(bytes \<Rightarrow> bytes) \<Rightarrow> nat \<Rightarrow> ws_world \<Rightarrow> ws_world" where
  "onopen_accepted sha1 i w =
     upd_bridge i (\<lambda>b.
       (case swrite (switching_reply sha1 b) (br_sink b) of
          (s, Inl e) \<Rightarrow> close_socket None (b\<lparr>br_sink := s\<rparr>)
        | (s, Inr _) \<Rightarrow> b\<lparr>br_sink := s\<rparr>)) w"

definition onopen_written :: "nat \<Rightarrow> ws_world \<Rightarrow> ws_world" where
  "onopen_written i w = upd_bridge i (\<lambda>b. b\<lparr>br_responded := True, br_reading := True\<rparr>) w"

datatype ws_payload = TextPayload jstr | BinaryPayload bytes

definition message_frame :: "ws_payload \<Rightarrow> bytes" where
  "message_frame m =
     (case m of
        TextPayload t \<Rightarrow> encodeWsFrame OP_TEXT (text_encode t) None
      | BinaryPayload d \<Rightarrow> encodeWsFrame OP_BINARY d None)"

definition onmessage :: "nat \<Rightarrow> ws_payload \<Rightarrow> ws_world \<Rightarrow> ws_world" where
  "onmessage i m w =
     (if jget (ww_active w) (br_streamId (br w i)) = None then w
      else upd_bridge i (visitor_write (message_frame m)) w)"

section \<open>The visitor's frames\<close>

definition payload_act :: "byte \<Rightarrow> bytes \<Rightarrow> backend_act" where
  "payload_act opcode payload =
     (if opcode = OP_TEXT then SendText (text_decode payload) else SendBinary payload)"

definition send_act :: "backend_act \<Rightarrow> bridge \<Rightarrow> bridge" where
  "send_act a b = b\<lparr>br_sent := br_sent b @ [a]\<rparr>"

text \<open>The events of one parse; the flag says that the loop returned.\<close>

fun relay_events :: "nat \<Rightarrow> ws_event list \<Rightarrow> ws_world \<Rightarrow> ws_world \<times> bool" where
  "relay_events i [] w = (w, False)"
| "relay_events i (ev # evs) w =
     (let sid = br_streamId (br w i) in
      case jget (ww_active w) sid of
        None \<Rightarrow> (w, True)
      | Some j \<Rightarrow>
          if br_ready (br w j) \<noteq> Open then (w, True)
          else (case ev of
              WsData opcode payload \<Rightarrow> relay_events i evs (upd_bridge j (send_act (payload_act opcode payload)) w)
            | WsPing payload \<Rightarrow>
                relay_events i evs (upd_bridge i (visitor_write (encodeWsFrame OP_PONG payload None)) w)
            | WsPong payload \<Rightarrow> relay_events i evs w
            | WsClose payload \<Rightarrow>
                (let code = parseCloseCode payload;
                     w1 = upd_bridge i (close_with_code code) w;
                     w2 = upd_bridge i (sendVisitorClose (case code of None \<Rightarrow> 1000 | Some c \<Rightarrow> if c = 0 then 1000 else c)) w1
                 in (delete_active sid w2, True))))"

definition end_relay :: "nat \<Rightarrow> ws_world \<Rightarrow> ws_world" where
  "end_relay i w =
     (let sid = br_streamId (br w i); w0 = upd_bridge i (\<lambda>b. b\<lparr>br_reading := False\<rparr>) w in
      case jget (ww_active w) sid of
        None \<Rightarrow> w0
      | Some j \<Rightarrow> delete_active sid (upd_bridge j (close_socket None) w0))"

text \<open>One turn of the read loop: a chunk, the end of the stream, or a read that failed (both \<open>None\<close>).\<close>

definition relay_read :: "nat \<Rightarrow> bytes option \<Rightarrow> ws_world \<Rightarrow> ws_world" where
  "relay_read i chunk w =
     (if \<not> br_reading (br w i) then w
      else case chunk of
          None \<Rightarrow> end_relay i w
        | Some c \<Rightarrow>
            (let (d, evs) = ws_parse (ws_push c (br_decoder (br w i)));
                 (w1, returned) = relay_events i evs (upd_bridge i (\<lambda>b. b\<lparr>br_decoder := d\<rparr>) w)
             in if returned then upd_bridge i (\<lambda>b. b\<lparr>br_reading := False\<rparr>) w1 else w1))"

section \<open>Runs\<close>

datatype bridge_event =
    OnOpen
  | OnAccept
  | OnWritten
  | OnSocketError
  | OnSocketClose nat
  | OnMessage ws_payload
  | OnRead "bytes option"

fun bridge_step :: "(bytes \<Rightarrow> bytes) \<Rightarrow> nat \<Rightarrow> bridge_event \<Rightarrow> ws_world \<Rightarrow> ws_world" where
  "bridge_step sha1 i OnOpen w = onopen i w"
| "bridge_step sha1 i OnAccept w = onopen_accepted sha1 i w"
| "bridge_step sha1 i OnWritten w = onopen_written i w"
| "bridge_step sha1 i OnSocketError w = onerror i w"
| "bridge_step sha1 i (OnSocketClose c) w = onclose i c w"
| "bridge_step sha1 i (OnMessage m) w = onmessage i m w"
| "bridge_step sha1 i (OnRead c) w = relay_read i c w"

fun bridge_run :: "(bytes \<Rightarrow> bytes) \<Rightarrow> (nat \<times> bridge_event) list \<Rightarrow> ws_world \<Rightarrow> ws_world" where
  "bridge_run sha1 [] w = w"
| "bridge_run sha1 ((i, e) # es) w = bridge_run sha1 es (bridge_step sha1 i e w)"

end
