(* ===== verification/WsBridgeCorrect.thy ===== *)
theory WsBridgeCorrect
  imports WsBridge WsCorrect ForwarderCorrect TextTransit
begin

text \<open>
  The bridge: what a visitor sends reaches the backend, bridges with different stream ids do
  not touch each other, and where the ids collide or a socket closes early the bytes go astray.
\<close>

section \<open>Worlds\<close>

lemma upd_bridge_simps [simp]:
  "length (ww_bridges (upd_bridge i f w)) = length (ww_bridges w)"
  "ww_active (upd_bridge i f w) = ww_active w"
  "i < length (ww_bridges w) \<Longrightarrow> br (upd_bridge i f w) i = f (br w i)"
  "k \<noteq> i \<Longrightarrow> br (upd_bridge i f w) k = br w k"
  by (simp_all add: upd_bridge_def)

lemma active_simps [simp]:
  "ww_bridges (set_active sid i w) = ww_bridges w" "ww_bridges (delete_active sid w) = ww_bridges w"
  "jget (ww_active (set_active sid i w)) s = (if s = sid then Some i else jget (ww_active w) s)"
  "jget (ww_active (delete_active sid w)) s = (if s = sid then None else jget (ww_active w) s)"
  by (simp_all add: set_active_def delete_active_def jm.get_put jm.get_del)

lemma upd_bridge_compose: "upd_bridge i f (upd_bridge i g w) = upd_bridge i (\<lambda>b. f (g b)) w"
  by (cases "i < length (ww_bridges w)") (simp_all add: upd_bridge_def list_update_beyond)

lemma visitor_id [simp]:
  "br_streamId (visitor_do t b) = br_streamId b" "br_streamId (visitor_write d b) = br_streamId b"
  "br_streamId (visitor_close b) = br_streamId b" "br_streamId (sendVisitorClose c b) = br_streamId b"
  "br_streamId (close_socket k b) = br_streamId b" "br_streamId (close_with_code k b) = br_streamId b"
  "br_streamId (send_act a b) = br_streamId b" "br_streamId (failVisitor st r b) = br_streamId b"
  by (simp_all add: visitor_do_def visitor_write_def visitor_close_def sendVisitorClose_def close_socket_def
      close_with_code_def send_act_def failVisitor_def Let_def split: option.split)

section \<open>Isolation\<close>

text \<open>Every entry of the map names a bridge with that stream id.\<close>

definition world_ok :: "ws_world \<Rightarrow> bool" where
  "world_ok w \<longleftrightarrow>
     (\<forall>sid j. jget (ww_active w) sid = Some j \<longrightarrow> j < length (ww_bridges w) \<and> br_streamId (br w j) = sid)"

definition ids_distinct :: "ws_world \<Rightarrow> bool" where
  "ids_distinct w \<longleftrightarrow> distinct (map br_streamId (ww_bridges w))"

text \<open>A step that stays on its own bridge and its own entry of the map.\<close>

definition local_step :: "nat \<Rightarrow> ws_world \<Rightarrow> ws_world \<Rightarrow> bool" where
  "local_step i w w' \<longleftrightarrow>
     map br_streamId (ww_bridges w') = map br_streamId (ww_bridges w)
     \<and> (\<forall>k. k \<noteq> i \<longrightarrow> br w' k = br w k)
     \<and> (\<forall>s. jget (ww_active w') s \<noteq> jget (ww_active w) s \<longrightarrow> s = br_streamId (br w i))
     \<and> (\<forall>s j. jget (ww_active w') s = Some j \<longrightarrow> jget (ww_active w) s = Some j \<or> j = i)"

lemma local_step_refl [simp]: "local_step i w w"
  by (simp add: local_step_def)

lemma ids_nth:
  "map br_streamId (ww_bridges w') = map br_streamId (ww_bridges w) \<Longrightarrow> i < length (ww_bridges w) \<Longrightarrow>
   br_streamId (br w' i) = br_streamId (br w i) \<and> length (ww_bridges w') = length (ww_bridges w)"
  by (metis length_map nth_map)

lemma local_step_props:
  assumes "local_step i w w'" "i < length (ww_bridges w)"
  shows "length (ww_bridges w') = length (ww_bridges w)" "br_streamId (br w' i) = br_streamId (br w i)"
proof -
  have "map br_streamId (ww_bridges w') = map br_streamId (ww_bridges w)"
    using assms(1) unfolding local_step_def by blast
  from ids_nth [OF this assms(2)]
  show "length (ww_bridges w') = length (ww_bridges w)" "br_streamId (br w' i) = br_streamId (br w i)" by simp_all
qed

lemma local_step_trans:
  assumes "local_step i w w'" "local_step i w' w''" "i < length (ww_bridges w)"
  shows "local_step i w w''"
proof -
  have id: "br_streamId (br w' i) = br_streamId (br w i)" by (rule local_step_props [OF assms(1,3)])
  show ?thesis
    unfolding local_step_def
  proof (intro conjI allI impI)
    show "map br_streamId (ww_bridges w'') = map br_streamId (ww_bridges w)"
      using assms(1,2) by (simp add: local_step_def)
    show "br w'' k = br w k" if "k \<noteq> i" for k using assms(1,2) that by (simp add: local_step_def)
    show "s = br_streamId (br w i)" if "jget (ww_active w'') s \<noteq> jget (ww_active w) s" for s
      using assms(1,2) that unfolding local_step_def id by (cases "jget (ww_active w') s = jget (ww_active w) s") simp_all
    show "jget (ww_active w) s = Some j \<or> j = i" if "jget (ww_active w'') s = Some j" for s j
      using assms(1,2) that unfolding local_step_def by blast
  qed
qed

lemma local_upd:
  assumes "i < length (ww_bridges w)" "br_streamId (f (br w i)) = br_streamId (br w i)"
  shows "local_step i w (upd_bridge i f w)"
proof -
  have "map br_streamId (ww_bridges (upd_bridge i f w)) = map br_streamId (ww_bridges w)"
    using assms by (intro nth_equalityI) (auto simp: upd_bridge_def nth_list_update)
  then show ?thesis by (simp add: local_step_def)
qed

lemma local_delete: "local_step i w (delete_active (br_streamId (br w i)) w)"
  by (auto simp: local_step_def split: if_splits)

lemma local_set: "local_step i w (set_active (br_streamId (br w i)) i w)"
  by (auto simp: local_step_def split: if_splits)

lemma local_then_upd:
  assumes "local_step i w w'" "i < length (ww_bridges w)" "br_streamId (f (br w' i)) = br_streamId (br w' i)"
  shows "local_step i w (upd_bridge i f w')"
  using assms local_step_props [OF assms(1,2)] by (intro local_step_trans [OF assms(1)] local_upd) simp_all

lemma local_then_delete:
  assumes "local_step i w w'" "i < length (ww_bridges w)" "s = br_streamId (br w i)"
  shows "local_step i w (delete_active s w')"
proof -
  have "s = br_streamId (br w' i)" using local_step_props(2) [OF assms(1,2)] assms(3) by simp
  then have "local_step i w' (delete_active s w')" by (simp add: local_delete)
  from local_step_trans [OF assms(1) this assms(2)] show ?thesis .
qed

lemma local_step_world_ok:
  assumes "local_step i w w'" "world_ok w" "i < length (ww_bridges w)"
  shows "world_ok w'"
  unfolding world_ok_def
proof (intro allI impI)
  fix s j assume a: "jget (ww_active w') s = Some j"
  have ids: "map br_streamId (ww_bridges w') = map br_streamId (ww_bridges w)"
    using assms(1) by (simp add: local_step_def)
  then have len: "length (ww_bridges w') = length (ww_bridges w)" by (metis length_map)
  show "j < length (ww_bridges w') \<and> br_streamId (br w' j) = s"
  proof (cases "jget (ww_active w) s = Some j")
    case True
    then have "j < length (ww_bridges w)" "br_streamId (br w j) = s" using assms(2) by (auto simp: world_ok_def)
    then show ?thesis using ids_nth [OF ids] len by auto
  next
    case False
    then have "j = i" "s = br_streamId (br w i)" using assms(1) a unfolding local_step_def by metis+
    then show ?thesis using ids_nth [OF ids assms(3)] assms(3) len by auto
  qed
qed

text \<open>With distinct ids the map leads from a bridge to itself.\<close>

lemma active_self:
  assumes "world_ok w" "ids_distinct w" "i < length (ww_bridges w)"
    and "jget (ww_active w) (br_streamId (br w i)) = Some j"
  shows "j = i"
proof -
  have "j < length (ww_bridges w)" "br_streamId (br w j) = br_streamId (br w i)"
    using assms by (auto simp: world_ok_def)
  then show ?thesis
    using assms(2,3) nth_eq_iff_index_eq [of "map br_streamId (ww_bridges w)" j i]
    by (simp add: ids_distinct_def)
qed

lemma local_distinct: "local_step i w w' \<Longrightarrow> ids_distinct w \<Longrightarrow> ids_distinct w'"
  by (simp add: local_step_def ids_distinct_def)

lemma relay_events_local:
  "world_ok w \<Longrightarrow> ids_distinct w \<Longrightarrow> i < length (ww_bridges w) \<Longrightarrow>
   local_step i w (fst (relay_events i evs w))"
proof (induction i evs w rule: relay_events.induct)
  case (2 i ev evs w)
  show ?case
  proof (cases "jget (ww_active w) (br_streamId (br w i))")
    case (Some j)
    then have j: "j = i" using active_self [OF 2(4,5,6)] by blast
    have step: "local_step i w v \<Longrightarrow> local_step i v v' \<Longrightarrow> local_step i w v'" for v v'
      using local_step_trans 2 by blast
    show ?thesis
    proof (cases "br_ready (br w j) = Open")
      case True
      have u: "local_step i w (upd_bridge i f w)" "world_ok (upd_bridge i f w)"
        "ids_distinct (upd_bridge i f w)" "i < length (ww_bridges (upd_bridge i f w))"
        if "br_streamId (f (br w i)) = br_streamId (br w i)" for f
      proof -
        show l: "local_step i w (upd_bridge i f w)" using 2(6) that by (rule local_upd)
        show "world_ok (upd_bridge i f w)" using l 2(4,6) by (rule local_step_world_ok)
        show "ids_distinct (upd_bridge i f w)" using l 2(5) by (rule local_distinct)
        show "i < length (ww_bridges (upd_bridge i f w))" using 2(6) by simp
      qed
      show ?thesis
      proof (cases ev)
        case (WsData op p)
        then show ?thesis
          using Some True j u [of "send_act (payload_act op p)"] 2(1) step by (simp add: Let_def)
      next
        case (WsPing p)
        then show ?thesis
          using Some True j u [of "visitor_write (encodeWsFrame OP_PONG p None)"] 2(2) step by (simp add: Let_def)
      next
        case (WsPong p)
        then show ?thesis using Some True j 2(3) 2(4-6) by (simp add: Let_def)
      next
        case (WsClose p)
        then show ?thesis
          using Some True j 2(6)
          by (auto simp: Let_def upd_bridge_compose intro!: local_then_delete local_upd)
      qed
    qed (use Some in simp)
  qed simp
qed simp

lemma bridge_step_local:
  assumes "world_ok w" "ids_distinct w" "i < length (ww_bridges w)"
  shows "local_step i w (bridge_step sha1 i e w)"
proof -
  have after: "local_step i w (after_socket i r c w)" if "i < length (ww_bridges w)" for r c w
  proof -
    let ?w1 = "if jget (ww_active w) (br_streamId (br w i)) \<noteq> None then upd_bridge i (sendVisitorClose c) w else w"
    have "local_step i w ?w1" using that by (simp add: local_upd)
    then have "local_step i w (delete_active (br_streamId (br w i)) ?w1)" using that by (intro local_then_delete) simp_all
    then show ?thesis using that unfolding after_socket_def Let_def by (intro local_then_upd) simp_all
  qed
  show ?thesis
  proof (cases e)
    case OnOpen
    let ?w = "upd_bridge i (\<lambda>b. b\<lparr>br_ready := Open\<rparr>) w"
    have l: "local_step i w ?w" using assms(3) by (simp add: local_upd)
    have "local_step i ?w (set_active (br_streamId (br w i)) i ?w)"
      using local_set [of i ?w] assms(3) by simp
    from local_step_trans [OF l this assms(3)] show ?thesis using OnOpen by (simp add: onopen_def)
  next
    case OnAccept
    then show ?thesis
      using assms(3) by (auto simp: onopen_accepted_def intro!: local_upd split: prod.splits sum.splits)
  next
    case OnSocketError
    have "local_step i w (upd_bridge i (\<lambda>b. b\<lparr>br_ready := Closed\<rparr>) w)" using assms(3) by (simp add: local_upd)
    from local_step_trans [OF this after] show ?thesis using OnSocketError assms(3) by (simp add: onerror_def)
  next
    case (OnSocketClose c)
    have "local_step i w (upd_bridge i (\<lambda>b. b\<lparr>br_ready := Closed\<rparr>) w)" using assms(3) by (simp add: local_upd)
    from local_step_trans [OF this after] show ?thesis
      using OnSocketClose assms(3) by (simp add: onclose_def Let_def)
  next
    case (OnRead c)
    show ?thesis
    proof (cases c)
      case None
      then show ?thesis
        using OnRead assms active_self [OF assms(1,2,3)]
        by (auto simp: relay_read_def end_relay_def Let_def upd_bridge_compose split: option.splits
            intro!: local_then_delete local_upd)
    next
      case (Some d)
      obtain dec evs where p: "ws_parse (ws_push d (br_decoder (br w i))) = (dec, evs)" by fastforce
      let ?w = "upd_bridge i (\<lambda>b. b\<lparr>br_decoder := dec\<rparr>) w"
      have l: "local_step i w ?w" using assms(3) by (simp add: local_upd)
      obtain w1 ret where r: "relay_events i evs ?w = (w1, ret)" by fastforce
      have "local_step i ?w w1"
        using relay_events_local [of ?w i evs] local_step_world_ok [OF l assms(1,3)] local_distinct [OF l assms(2)]
          assms(3) r by simp
      then have "local_step i w w1" using local_step_trans [OF l] assms(3) by blast
      then show ?thesis
        using OnRead Some p r assms(3) by (auto simp: relay_read_def Let_def intro!: local_then_upd)
    qed
  qed (use assms(3) in \<open>auto simp: onopen_written_def onmessage_def intro!: local_upd split: option.splits\<close>)
qed

lemma bridge_run_local:
  assumes "world_ok w" "ids_distinct w" "k < length (ww_bridges w)"
    and "\<forall>(i, e) \<in> set es. i < length (ww_bridges w) \<and> i \<noteq> k"
  shows "br (bridge_run sha1 es w) k = br w k
    \<and> jget (ww_active (bridge_run sha1 es w)) (br_streamId (br w k)) = jget (ww_active w) (br_streamId (br w k))"
  using assms
proof (induction es arbitrary: w)
  case (Cons x es)
  obtain i e where x: "x = (i, e)" by (cases x)
  let ?v = "bridge_step sha1 i e w" and ?s = "br_streamId (br w k)"
  have i: "i < length (ww_bridges w)" "i \<noteq> k" using Cons.prems(4) by (auto simp: x)
  have l: "local_step i w ?v" using bridge_step_local [OF Cons.prems(1,2) i(1)] .
  have k: "br ?v k = br w k" using l i by (simp add: local_step_def)
  have "?s \<noteq> br_streamId (br w i)"
    using Cons.prems(2,3) i nth_eq_iff_index_eq [of "map br_streamId (ww_bridges w)" k i]
    by (auto simp: ids_distinct_def)
  then have a: "jget (ww_active ?v) ?s = jget (ww_active w) ?s" using l unfolding local_step_def by blast
  have "br (bridge_run sha1 es ?v) k = br ?v k
      \<and> jget (ww_active (bridge_run sha1 es ?v)) (br_streamId (br ?v k)) = jget (ww_active ?v) (br_streamId (br ?v k))"
    using Cons.prems local_step_world_ok [OF l] local_distinct [OF l] local_step_props(1) [OF l] i
    by (intro Cons.IH) simp_all
  then show ?case using k a by (simp add: x)
qed simp

text \<open>
  C27. Bridges of one tunnel do not touch each other: where all stream ids differ, whatever
  happens on other bridges leaves a bridge's state, its socket, the bytes on its stream and its
  entry in the shared map \<open>activeWebSockets\<close> as they were.
\<close>

theorem bridges_isolated:
  assumes "world_ok w" "ids_distinct w" "k < length (ww_bridges w)"
    and "\<forall>(i, e) \<in> set es. i < length (ww_bridges w) \<and> i \<noteq> k"
  shows "br (bridge_run sha1 es w) k = br w k
    \<and> jget (ww_active (bridge_run sha1 es w)) (br_streamId (br w k)) = jget (ww_active w) (br_streamId (br w k))"
  using assms by (rule bridge_run_local)

text \<open>Two open bridges of one tunnel, for the witnesses.\<close>

abbreviation demo_sha1 :: "bytes \<Rightarrow> bytes" where
  "demo_sha1 \<equiv> \<lambda>_. replicate 20 0"

definition demo_bridge :: "nat \<Rightarrow> bridge" where
  "demo_bridge sid = (new_bridge False sid demo_get demo_config (new_sink 9))\<lparr>br_ready := Open, br_reading := True\<rparr>"

lemma demo_bridge_simps [simp]:
  "br_streamId (demo_bridge sid) = sid" "br_ready (demo_bridge sid) = Open" "br_reading (demo_bridge sid)"
  "br_decoder (demo_bridge sid) = new_WsDecoder" "br_sent (demo_bridge sid) = []"
  "\<not> br_responded (demo_bridge sid)" "br_sink (demo_bridge sid) = new_sink 9"
  by (simp_all add: demo_bridge_def new_bridge_def)

lemma bridges_isolated_witness:
  "let w' = bridge_run demo_sha1 [(0, OnSocketClose 1006), (0, OnMessage (TextPayload []))]
     \<lparr>ww_active = [(1, 0), (3, 1)], ww_bridges = [demo_bridge 1, demo_bridge 3]\<rparr>
   in br w' 1 = demo_bridge 3 \<and> jget (ww_active w') 3 = Some 1"
proof -
  let ?w = "\<lparr>ww_active = [(1, 0), (3, 1)], ww_bridges = [demo_bridge 1, demo_bridge 3]\<rparr>"
  let ?v = "bridge_run demo_sha1 [(0, OnSocketClose 1006), (0, OnMessage (TextPayload []))] ?w"
  have "br ?v 1 = br ?w 1 \<and> jget (ww_active ?v) (br_streamId (br ?w 1)) = jget (ww_active ?w) (br_streamId (br ?w 1))"
    by (rule bridges_isolated) (auto simp: world_ok_def ids_distinct_def split: if_splits)
  then show ?thesis by (simp add: Let_def)
qed

section \<open>Where a visitor's messages go\<close>

fun event_act :: "ws_event \<Rightarrow> backend_act list" where
  "event_act (WsData opcode payload) = [payload_act opcode payload]"
| "event_act _ = []"

fun is_data :: "ws_event \<Rightarrow> bool" where
  "is_data (WsData opcode payload) = True"
| "is_data _ = False"

definition append_sent :: "backend_act list \<Rightarrow> bridge \<Rightarrow> bridge" where
  "append_sent as b = b\<lparr>br_sent := br_sent b @ as\<rparr>"

lemma append_sent_simps [simp]:
  "br_streamId (append_sent as b) = br_streamId b" "br_ready (append_sent as b) = br_ready b"
  "br_reading (append_sent as b) = br_reading b" "br_decoder (append_sent as b) = br_decoder b"
  "br_sent (append_sent as b) = br_sent b @ as"
  by (simp_all add: append_sent_def)

lemma upd_bridge_id: "upd_bridge j (append_sent []) w = w"
  by (cases w) (simp add: upd_bridge_def append_sent_def)

lemma relay_events_data:
  assumes "i < length (ww_bridges w)" "j < length (ww_bridges w)"
    and "jget (ww_active w) (br_streamId (br w i)) = Some j" "br_ready (br w j) = Open" "list_all is_data evs"
  shows "relay_events i evs w = (upd_bridge j (append_sent (concat (map event_act evs))) w, False)"
  using assms
proof (induction evs arbitrary: w)
  case Nil
  then show ?case by (simp add: upd_bridge_id)
next
  case (Cons ev evs)
  obtain op p where ev: "ev = WsData op p" using Cons.prems(5) by (cases ev) simp_all
  let ?w = "upd_bridge j (send_act (payload_act op p)) w"
  have id: "br_streamId (br ?w i) = br_streamId (br w i)" using Cons.prems(2) by (cases "i = j") simp_all
  have "br_ready (br ?w j) = Open" using Cons.prems by (simp add: send_act_def)
  then have "relay_events i evs ?w = (upd_bridge j (append_sent (concat (map event_act evs))) ?w, False)"
    using Cons.prems id by (intro Cons.IH) simp_all
  then show ?case
    using Cons.prems by (simp add: ev Let_def upd_bridge_compose append_sent_def send_act_def)
qed

lemma relay_chunks:
  assumes "i < length (ww_bridges w)" "j < length (ww_bridges w)" "br_reading (br w i)"
    and "jget (ww_active w) (br_streamId (br w i)) = Some j" "br_ready (br w j) = Open"
    and "ws_receive cs (br_decoder (br w i)) = (d, evs)" "list_all is_data evs"
  shows "br_sent (br (bridge_run sha1 (map (\<lambda>c. (i, OnRead (Some c))) cs) w) k)
    = br_sent (br w k) @ (if k = j then concat (map event_act evs) else [])"
  using assms
proof (induction cs arbitrary: w evs)
  case (Cons c cs)
  obtain d1 ev1 where p: "ws_parse (ws_push c (br_decoder (br w i))) = (d1, ev1)" by fastforce
  obtain ev2 where r: "ws_receive cs d1 = (d, ev2)" "evs = ev1 @ ev2"
    using Cons.prems(6) p by (auto split: prod.splits)
  let ?w = "upd_bridge i (\<lambda>b. b\<lparr>br_decoder := d1\<rparr>) w"
  let ?w1 = "upd_bridge j (append_sent (concat (map event_act ev1))) ?w"
  have same: "br_streamId (br ?w i) = br_streamId (br w i)" "br_ready (br ?w j) = Open"
    using Cons.prems(1,5) by (simp, cases "i = j", simp_all)
  have "relay_events i ev1 ?w = (?w1, False)"
    using Cons.prems same r(2) by (intro relay_events_data) simp_all
  then have step: "bridge_step sha1 i (OnRead (Some c)) w = ?w1"
    using p Cons.prems(3) by (simp add: relay_read_def)
  have w1: "br_reading (br ?w1 i)" "br_streamId (br ?w1 i) = br_streamId (br w i)" "br_ready (br ?w1 j) = Open"
    "br_decoder (br ?w1 i) = d1"
    using Cons.prems(1-3) same by (cases "i = j"; simp)+
  have sent: "br_sent (br ?w1 k) = br_sent (br w k) @ (if k = j then concat (map event_act ev1) else [])"
    using Cons.prems(1,2) by (cases "k = j"; cases "k = i"; simp)
  have "br_sent (br (bridge_run sha1 (map (\<lambda>c. (i, OnRead (Some c))) cs) ?w1) k)
      = br_sent (br ?w1 k) @ (if k = j then concat (map event_act ev2) else [])"
    using Cons.prems w1 r by (intro Cons.IH) simp_all
  then show ?case by (simp only: list.map bridge_run.simps step sent r(2)) simp
qed simp

lemma relay_messages:
  assumes "i < length (ww_bridges w)" "j < length (ww_bridges w)" "br_reading (br w i)"
    and "jget (ww_active w) (br_streamId (br w i)) = Some j" "br_ready (br w j) = Open"
    and "br_decoder (br w i) = new_WsDecoder"
    and "\<forall>(op, p, m) \<in> set msgs. (op = OP_TEXT \<or> op = OP_BINARY) \<and> length p < 4294967296 \<and> mask_ok m"
    and "concat cs = concat (map (\<lambda>(op, p, m). encodeWsFrame op p m) msgs)"
  shows "br_sent (br (bridge_run sha1 (map (\<lambda>c. (i, OnRead (Some c))) cs) w) k)
    = br_sent (br w k) @ (if k = j then map (\<lambda>(op, p, m). payload_act op p) msgs else [])"
proof -
  let ?evs = "map (\<lambda>(op, p, m). ws_message op p) msgs"
  have msgs: "\<forall>(op, p, m) \<in> set msgs. ws_op_ok op \<and> length p < 4294967296 \<and> mask_ok m"
    using assms(7) by (auto simp: ws_op_ok_def)
  have ev: "ws_message op p = WsData op p" if "op = OP_TEXT \<or> op = OP_BINARY" for op p
    using that by (auto simp: ws_message_def ws_ops)
  have "list_all is_data ?evs" "concat (map event_act ?evs) = map (\<lambda>(op, p, m). payload_act op p) msgs"
    using assms(7) by (induction msgs) (auto simp: ev)
  then show ?thesis
    using relay_chunks [OF assms(1-5), of cs new_WsDecoder ?evs sha1 k] ws_receive_messages [OF msgs assms(8)]
    by (simp only: assms(6))
qed

text \<open>A message as the visitor's WebSocket layer frames it, by the opcodes of RFC 6455.\<close>

definition visitor_frame :: "ws_payload \<Rightarrow> bytes option \<Rightarrow> bytes" where
  "visitor_frame m k =
     (case m of TextPayload t \<Rightarrow> encodeWsFrame 1 (text_encode t) k | BinaryPayload d \<Rightarrow> encodeWsFrame 2 d k)"

definition frame_size :: "ws_payload \<Rightarrow> nat" where
  "frame_size m = (case m of TextPayload t \<Rightarrow> length (text_encode t) | BinaryPayload d \<Rightarrow> length d)"

definition frame_parts :: "ws_payload \<times> bytes option \<Rightarrow> byte \<times> bytes \<times> bytes option" where
  "frame_parts x =
     (case x of (TextPayload t, k) \<Rightarrow> (OP_TEXT, text_encode t, k) | (BinaryPayload d, k) \<Rightarrow> (OP_BINARY, d, k))"

lemma frame_parts_frame: "(\<lambda>(op, p, k). encodeWsFrame op p k) (frame_parts (m, k)) = visitor_frame m k"
  by (cases m) (simp_all add: frame_parts_def visitor_frame_def ws_ops)

lemma frame_parts_ok:
  "(case x of (m, k) \<Rightarrow> frame_size m < 4294967296 \<and> mask_ok k) \<Longrightarrow>
   (case frame_parts x of (op, p, k') \<Rightarrow> (op = OP_TEXT \<or> op = OP_BINARY) \<and> length p < 4294967296 \<and> mask_ok k')"
  by (auto simp: frame_parts_def frame_size_def split: prod.splits ws_payload.splits)

lemma frame_parts_act:
  "(\<lambda>(op, p, k). payload_act op p) (frame_parts (m, k))
     = (case m of TextPayload t \<Rightarrow> SendText (received t) | BinaryPayload d \<Rightarrow> SendBinary d)"
  by (cases m) (simp_all add: frame_parts_def payload_act_def received_encode ws_ops)

text \<open>
  C11. What a visitor sends arrives: the text and binary messages on an open bridge's stream,
  however masked and cut, are sent on the backend's socket whole, in order and with their
  kind: a text message as a text (as it reads after UTF-8, where a lone surrogate is U+FFFD and
  a leading byte-order mark is gone), a binary message as bytes.
\<close>

theorem visitor_messages_arrive:
  assumes "i < length (ww_bridges w)" "br_reading (br w i)" "br_ready (br w i) = Open"
    and "jget (ww_active w) (br_streamId (br w i)) = Some i" "br_decoder (br w i) = new_WsDecoder"
    and "\<forall>(m, k) \<in> set msgs. frame_size m < 4294967296 \<and> mask_ok k"
    and "concat cs = concat (map (\<lambda>(m, k). visitor_frame m k) msgs)"
  shows "br_sent (br (bridge_run sha1 (map (\<lambda>c. (i, OnRead (Some c))) cs) w) i)
    = br_sent (br w i) @ map (\<lambda>(m, k).
        case m of TextPayload t \<Rightarrow> SendText (received t) | BinaryPayload d \<Rightarrow> SendBinary d) msgs"
proof -
  have parts: "map f (map frame_parts msgs) = map (\<lambda>(m, k). g m k) msgs"
    if "\<And>m k. f (frame_parts (m, k)) = g m k" for f :: "byte \<times> bytes \<times> bytes option \<Rightarrow> 'x" and g
    using that by (auto simp: case_prod_unfold)
  have "\<forall>(op, p, k) \<in> set (map frame_parts msgs). (op = OP_TEXT \<or> op = OP_BINARY) \<and> length p < 4294967296 \<and> mask_ok k"
    using assms(6) frame_parts_ok by auto
  moreover have "concat cs = concat (map (\<lambda>(op, p, k). encodeWsFrame op p k) (map frame_parts msgs))"
    using assms(7) parts [of "\<lambda>(op, p, k). encodeWsFrame op p k" visitor_frame, OF frame_parts_frame] by (simp only:)
  ultimately show ?thesis
    using relay_messages [OF assms(1,1,2,4,3,5), of "map frame_parts msgs" cs sha1 i]
      parts [of "\<lambda>(op, p, k). payload_act op p" "\<lambda>m k. case m of TextPayload t \<Rightarrow> SendText (received t) | BinaryPayload d \<Rightarrow> SendBinary d",
        OF frame_parts_act]
    by simp
qed

lemma demo_visitor:
  "concat [[129, 130, 1, 2], [3, 4, 73, 107, 130], [1, 255]] =
     concat (map (\<lambda>(m, k). visitor_frame m k) [(TextPayload (js ''Hi''), Some [1, 2, 3, 4]), (BinaryPayload [255], None)])"
  by (simp add: visitor_frame_def encodeWsFrame_def ws_header_def ws_length_bytes_def demask_def ws_ops upt_rec
      text_encode_ascii cu_def)

lemma visitor_messages_arrive_witness:
  "br_sent (br (bridge_run demo_sha1
      [(0, OnRead (Some [129, 130, 1, 2])), (0, OnRead (Some [3, 4, 73, 107, 130])), (0, OnRead (Some [1, 255]))]
     \<lparr>ww_active = [(1, 0)], ww_bridges = [demo_bridge 1]\<rparr>) 0) = [SendText (js ''Hi''), SendBinary [255]]"
proof -
  have a: "ascii (js ''Hi'')" by (simp add: ascii_def cu_def)
  then have "frame_size (TextPayload (js ''Hi'')) < 4294967296" "received (js ''Hi'') = js ''Hi''"
    by (simp_all add: frame_size_def text_encode_ascii received_ascii del: js_simps)
  then show ?thesis
    using visitor_messages_arrive [OF _ _ _ _ _ _ demo_visitor, of 0 "\<lparr>ww_active = [(1, 0)], ww_bridges = [demo_bridge 1]\<rparr>" demo_sha1]
    by (simp add: frame_size_def del: js_simps)
qed

lemma demo_message:
  "concat [[129, 130, 1, 2], [3, 4, 73, 107]] =
     concat (map (\<lambda>(op, p, m). encodeWsFrame op p m) [(OP_TEXT, [72, 105], Some [1, 2, 3, 4])])"
  by (simp add: encodeWsFrame_def ws_header_def ws_length_bytes_def demask_def ws_ops upt_rec)

text \<open>
  Stream ids are only unique inside a session, but the map is shared by all tunnels: once
  a second bridge with the same id has opened, everything the first visitor sends goes to the
  second one's backend and nothing to its own.
\<close>

theorem same_id_misdirects:
  assumes "i < length (ww_bridges w)" "j < length (ww_bridges w)" "i \<noteq> j"
    and "br_streamId (br w i) = br_streamId (br w j)"
    and "br_reading (br w i)" "br_decoder (br w i) = new_WsDecoder"
    and "\<forall>(op, p, m) \<in> set msgs. (op = OP_TEXT \<or> op = OP_BINARY) \<and> length p < 4294967296 \<and> mask_ok m"
    and "concat cs = concat (map (\<lambda>(op, p, m). encodeWsFrame op p m) msgs)"
  shows "let w' = bridge_run sha1 ((j, OnOpen) # map (\<lambda>c. (i, OnRead (Some c))) cs) w in
    br_sent (br w' j) = br_sent (br w j) @ map (\<lambda>(op, p, m). payload_act op p) msgs
    \<and> br_sent (br w' i) = br_sent (br w i)"
proof -
  have o: "br (onopen j w) i = br w i" "br_sent (br (onopen j w) j) = br_sent (br w j)"
    "jget (ww_active (onopen j w)) (br_streamId (br w i)) = Some j" "br_ready (br (onopen j w) j) = Open"
    "length (ww_bridges (onopen j w)) = length (ww_bridges w)"
    using assms(2-4) by (simp_all add: onopen_def)
  from relay_messages [of i "onopen j w" j msgs cs sha1] show ?thesis
    using assms o by (simp add: Let_def)
qed

lemma same_id_misdirects_witness:
  "let w' = bridge_run demo_sha1 [(1, OnOpen), (0, OnRead (Some [129, 130, 1, 2])), (0, OnRead (Some [3, 4, 73, 107]))]
     \<lparr>ww_active = [(1, 0)], ww_bridges = [demo_bridge 1, demo_bridge 1]\<rparr> in
   br_sent (br w' 1) = [payload_act OP_TEXT [72, 105]] \<and> br_sent (br w' 0) = []"
  using same_id_misdirects [OF _ _ _ _ _ _ _ demo_message, of 0 "\<lparr>ww_active = [(1, 0)], ww_bridges = [demo_bridge 1, demo_bridge 1]\<rparr>" 1 demo_sha1]
  by (simp add: ws_op_ok_def)

section \<open>Sockets that fail\<close>

text \<open>
  A socket that closes while the handshake token is being computed corrupts the answer: the
  visitor's stream gets a WebSocket close frame in front of the HTTP error, then it is closed.
\<close>

theorem close_before_answer:
  assumes "i < length (ww_bridges w)" "\<not> br_responded (br w i)"
    and "\<not> sk_closed (br_sink (br w i))" "sk_acts (br_sink (br w i)) = []" "2 \<le> sk_left (br_sink (br w i))"
  shows "\<exists>reply. sk_acts (br_sink (br (bridge_run sha1 [(i, OnOpen), (i, OnSocketClose code)] w) i))
    = [SWrite (close_frame (if code = 0 then 1000 else code)), SWrite reply, SClose]"
  using assms
  by (simp add: onopen_def onclose_def after_socket_def Let_def upd_bridge_compose sendVisitorClose_def
      failVisitor_def visitor_write_def visitor_close_def visitor_do_def swrite_def sclose_def)

lemma close_before_answer_witness:
  "\<exists>reply. sk_acts (br_sink (br (bridge_run demo_sha1 [(0, OnOpen), (0, OnSocketClose 1006)]
     \<lparr>ww_active = [], ww_bridges = [demo_bridge 1]\<rparr>) 0)) = [SWrite (close_frame 1006), SWrite reply, SClose]"
  using close_before_answer [of 0 "\<lparr>ww_active = [], ww_bridges = [demo_bridge 1]\<rparr>" demo_sha1 1006]
  by (simp add: new_sink_def)

text \<open>
  A visitor that offers several subprotocols is never connected: the whole list is passed
  as one protocol name, which the socket constructor refuses, and the stream is closed without
  any answer.
\<close>

theorem protocol_list_refused:
  assumes "isAuthorized (hr_headers req) (fc_auth config)" "isWebSocketUpgrade (hr_headers req)"
    and "offered_protocol req = Some p" "cu CHR '','' \<in> set p" "\<not> sk_closed s"
  shows "handleRequest (ws_task url_ok) forwardPlain req config s =
    (s\<lparr>sk_acts := sk_acts s @ [SClose], sk_closed := True\<rparr>, Inr ())"
proof -
  have "\<not> token_unit (cu CHR '','')" by (simp add: token_unit_def cu_def)
  then have "\<not> http_token p" using assms(4) by (auto simp: http_token_def)
  moreover have "p \<noteq> []" using assms(4) by auto
  ultimately have "\<not> socket_ok url_ok req" by (simp add: socket_ok_def assms(3))
  then show ?thesis using assms(1,2,5) by (simp add: handleRequest_def ws_task_def tthrow_def tcatch_def sclose_def)
qed

lemma protocol_list_refused_witness:
  "handleRequest (ws_task True) (\<lambda>_ _. treturn ())
     (make_request (js ''GET'') (js ''/'') [(js ''upgrade'', [js ''websocket'']), (js ''connection'', [js ''Upgrade'']),
        (js ''sec-websocket-protocol'', [js ''a, b''])] [] None)
     (demo_config\<lparr>fc_auth := None\<rparr>) (new_sink 1)
   = (\<lparr>sk_acts = [SClose], sk_left = 1, sk_closed = True\<rparr>, Inr ())"
proof -
  let ?r = "make_request (js ''GET'') (js ''/'') [(js ''upgrade'', [js ''websocket'']), (js ''connection'', [js ''Upgrade'']),
        (js ''sec-websocket-protocol'', [js ''a, b''])] [] None"
  have "isWebSocketUpgrade (hr_headers ?r)"
    by (simp add: isWebSocketUpgrade_def headerHasToken_def firstHeader_def make_request_def split_on.simps
        trim_def is_ws_def to_lower_def lower_unit_def cu_def Let_def)
  moreover have "offered_protocol ?r = Some (js ''a, b'')"
    by (simp add: offered_protocol_def firstHeader_def make_request_def cu_def)
  ultimately show ?thesis
    using protocol_list_refused [of ?r "demo_config\<lparr>fc_auth := None\<rparr>" "js ''a, b''" "new_sink 1" True]
    by (simp add: isAuthorized_def new_sink_def)
qed

end
