(* ===== verification/Connection.thy ===== *)
theory Connection
  imports TunnelConnection WsBridge
begin

text \<open>
  The life of a tunnel connection, the class of \<open>extension/lib/tunnel-connection.js\<close>: the
  socket to the relay, the bind request, its response, then the SMUX session on the same
  socket. The browser's socket events, the session's timers and the calls of the owner are
  events; the promise of \<open>connect\<close> is part of the state, callbacks are outputs.
\<close>

record tunnel_config =
  tc_tunnelId :: bytes
  tc_localEndpoint :: jstr
  tc_entrypointUrl :: "jstr option"
  tc_recordMode :: "jstr option"
  tc_prefix :: jstr

datatype conn_error =
    AlreadyClosed
  | ConstructFailed
  | EncodeFailed relay_error
  | DecodeFailed relay_error
  | BindFailed byte
  | ClosedBeforeBind nat
  | SocketFailed

datatype promise = NotCalled | Pending | Resolved | Rejected conn_error

text \<open>
  \<open>cn_socket\<close> is the state of the socket itself, \<open>cn_ws\<close> whether \<open>this._ws\<close> still refers to
  it; \<open>cn_session\<close> the SMUX object, \<open>cn_smux\<close> whether \<open>this._smux\<close> does.
\<close>

record conn =
  cn_config :: tunnel_config
  cn_socket :: ready_state
  cn_ws :: bool
  cn_session :: "smux option"
  cn_smux :: bool
  cn_closed :: bool
  cn_bound :: bool
  cn_bindAddr :: "jstr option"
  cn_connectorId :: "fvalue option"
  cn_closeCode :: nat
  cn_promise :: promise
  cn_sent :: "bytes list"

datatype conn_out =
    CloseCallback
  | NewStream stream_ref
  | LogError
  | StreamEvent smux_event

definition new_conn :: "tunnel_config \<Rightarrow> conn" where
  "new_conn config =
     \<lparr>cn_config = config, cn_socket = Closed, cn_ws = False, cn_session = None, cn_smux = False,
      cn_closed = False, cn_bound = False, cn_bindAddr = tc_entrypointUrl config,
      cn_connectorId = None, cn_closeCode = 0, cn_promise = NotCalled, cn_sent = []\<rparr>"

definition settle :: "promise \<Rightarrow> conn \<Rightarrow> conn" where
  "settle p c = (if cn_promise c = Pending then c\<lparr>cn_promise := p\<rparr> else c)"

definition conn_connected :: "conn \<Rightarrow> bool" where
  "conn_connected c \<longleftrightarrow> cn_bound c \<and> \<not> cn_closed c"

definition entrypoint :: "conn \<Rightarrow> jstr option" where
  "entrypoint c = cn_bindAddr c"

section \<open>The bind request\<close>

definition endpoint_host_port :: "jstr \<Rightarrow> jstr \<times> int" where
  "endpoint_host_port localEndpoint =
     (case last_index_of (cu CHR '':'') localEndpoint of
        None \<Rightarrow> (localEndpoint, 80)
      | Some colonIdx \<Rightarrow>
          (take colonIdx localEndpoint,
           (case parse_int (drop (colonIdx + 1) localEndpoint) 10 of
              None \<Rightarrow> 80
            | Some p \<Rightarrow> if p = 0 then 80 else p)))"

definition bind_host :: "jstr \<Rightarrow> jstr" where
  "bind_host prefix = (let p = to_lower (trim prefix) in if p = [] then js ''0.0.0.0'' else p)"

definition record_mode :: "jstr option \<Rightarrow> jstr" where
  "record_mode mode =
     (case mode of
        None \<Rightarrow> js ''off''
      | Some m \<Rightarrow>
          if m = [] \<or> m = js ''full'' then []
          else if m = js ''headers'' \<or> m = js ''off'' then m
          else js ''off'')"

definition bind_request :: "tunnel_config \<Rightarrow> relay_request" where
  "bind_request config =
     (let (host, port) = endpoint_host_port (tc_localEndpoint config) in
      addFeature (FMetadata [(js ''record.mode'', record_mode (tc_recordMode config))])
        (addFeature (FNetwork NetworkTCP)
          (addFeature (FAddr (bind_host (tc_prefix config)) port)
            (addFeature (FAddr host port)
              (addFeature (FUserAuth [] [])
                (addFeature (FTunnel (tc_tunnelId config)) (new_request CmdBind)))))))"

definition sendBind :: "conn \<Rightarrow> conn" where
  "sendBind c =
     (case encodeRequest (bind_request (cn_config c)) of
        Inl e \<Rightarrow> settle (Rejected (EncodeFailed e)) c
      | Inr bytes \<Rightarrow> c\<lparr>cn_sent := cn_sent c @ [bytes]\<rparr>)"

section \<open>What the session does to its owner\<close>

definition onSmuxClose :: "conn \<Rightarrow> conn \<times> conn_out list" where
  "onSmuxClose c = (c\<lparr>cn_bound := False\<rparr>, [CloseCallback])"

text \<open>One event of the session: a frame for the socket, a stream, an error, its end.\<close>

fun smux_out :: "smux_event \<Rightarrow> conn \<Rightarrow> conn \<times> conn_out list" where
  "smux_out (Output frame) c =
     (if cn_ws c \<and> cn_socket c = Open then (c\<lparr>cn_sent := cn_sent c @ [frame]\<rparr>, []) else (c, []))"
| "smux_out (OnStream r) c = (c, [NewStream r])"
| "smux_out (OnError e) c = (c, [LogError])"
| "smux_out OnClose c = onSmuxClose c"
| "smux_out ev c = (c, [StreamEvent ev])"

fun smux_outs :: "smux_event list \<Rightarrow> conn \<Rightarrow> conn \<times> conn_out list" where
  "smux_outs [] c = (c, [])"
| "smux_outs (ev # evs) c =
     (let (c1, o1) = smux_out ev c; (c2, o2) = smux_outs evs c1 in (c2, o1 @ o2))"

text \<open>An operation of the session: its state, then what its events do.\<close>

definition session_op :: "smux_op \<Rightarrow> conn \<Rightarrow> conn \<times> conn_out list" where
  "session_op op c =
     (case cn_session c of
        None \<Rightarrow> (c, [])
      | Some s \<Rightarrow> (let (s', evs) = exec op s in smux_outs evs (c\<lparr>cn_session := Some s'\<rparr>)))"

section \<open>The socket's events\<close>

definition connect :: "bool \<Rightarrow> conn \<Rightarrow> conn" where
  "connect constructs c =
     (if cn_closed c then c\<lparr>cn_promise := Rejected AlreadyClosed\<rparr>
      else if constructs then c\<lparr>cn_socket := Connecting, cn_ws := True, cn_promise := Pending\<rparr>
      else c\<lparr>cn_promise := Rejected ConstructFailed\<rparr>)"

definition ws_onopen :: "conn \<Rightarrow> conn" where
  "ws_onopen c =
     (let c1 = c\<lparr>cn_socket := Open\<rparr> in if cn_ws c then sendBind c1 else settle (Rejected SocketFailed) c1)"

definition negotiated_addr :: "relay_response \<Rightarrow> jstr option \<Rightarrow> jstr option" where
  "negotiated_addr resp bindAddr =
     (case findFeature (rs_features resp) FeatureAddr of
        Some (VAddr host port atype) \<Rightarrow>
          if host = [] \<or> host = js ''0.0.0.0'' \<or> host = js ''::'' then bindAddr
          else (case bindAddr of
              None \<Rightarrow> None
            | Some a \<Rightarrow>
                (case index_of [cu CHR ''.''] a of
                   None \<Rightarrow> Some a
                 | Some dot \<Rightarrow> Some (js ''https://'' @ host @ drop dot a)))
      | _ \<Rightarrow> bindAddr)"

definition bind_session :: "int \<Rightarrow> smux" where
  "bind_session now = startKeepalive now (setOutput (new_smux now))"

definition ws_onmessage :: "int \<Rightarrow> bytes \<Rightarrow> conn \<Rightarrow> conn \<times> conn_out list" where
  "ws_onmessage now data c =
     (if cn_closed c then (c, [])
      else if \<not> cn_bound c then
        (case relayResponseFromWire data of
           Inl e \<Rightarrow> (settle (Rejected (DecodeFailed e)) c, [])
         | Inr resp \<Rightarrow>
             if rs_status resp \<noteq> StatusOK then (settle (Rejected (BindFailed (rs_status resp))) c, [])
             else (settle Resolved
               (c\<lparr>cn_connectorId := findFeature (rs_features resp) FeatureTunnel,
                  cn_bindAddr := negotiated_addr resp (cn_bindAddr c),
                  cn_session := Some (bind_session now), cn_smux := True, cn_bound := True\<rparr>), []))
      else session_op (Feed now data) c)"

definition ws_onclose :: "nat \<Rightarrow> conn \<Rightarrow> conn \<times> conn_out list" where
  "ws_onclose code c =
     (let c1 = c\<lparr>cn_socket := Closed\<rparr>;
          c2 = (if \<not> cn_bound c \<and> \<not> cn_closed c then settle (Rejected (ClosedBeforeBind code)) c1 else c1)
      in onSmuxClose (c2\<lparr>cn_closeCode := code\<rparr>))"

definition ws_onerror :: "conn \<Rightarrow> conn \<times> conn_out list" where
  "ws_onerror c = (if \<not> cn_bound c then settle (Rejected SocketFailed) c else c, [LogError])"

definition close_conn :: "conn \<Rightarrow> conn \<times> conn_out list" where
  "close_conn c =
     (let c1 = c\<lparr>cn_closed := True\<rparr>;
          (c2, o2) = (if cn_smux c then session_op CloseSession c1 else (c1, []));
          c3 = c2\<lparr>cn_smux := False\<rparr>;
          c4 = (if cn_ws c3
                then c3\<lparr>cn_ws := False, cn_socket := (if cn_socket c3 = Closed then Closed else Closing)\<rparr>
                else c3)
      in (c4\<lparr>cn_bound := False\<rparr>, o2))"

section \<open>Runs\<close>

datatype conn_event =
    SocketOpen
  | SocketMessage int bytes
  | SocketClose nat
  | SocketError
  | CloseCall
  | SessionOp smux_op

fun conn_step :: "conn_event \<Rightarrow> conn \<Rightarrow> conn \<times> conn_out list" where
  "conn_step SocketOpen c = (ws_onopen c, [])"
| "conn_step (SocketMessage now d) c = ws_onmessage now d c"
| "conn_step (SocketClose code) c = ws_onclose code c"
| "conn_step SocketError c = ws_onerror c"
| "conn_step CloseCall c = close_conn c"
| "conn_step (SessionOp op) c = session_op op c"

text \<open>
  What can happen when: a socket that is connecting opens, an open one delivers
  messages, one that is not closed yet closes or fails; the session's owner does not feed it
  or close it behind the connection's back.
\<close>

definition enabled :: "conn_event \<Rightarrow> conn \<Rightarrow> bool" where
  "enabled e c \<longleftrightarrow>
     (case e of
        SocketOpen \<Rightarrow> cn_socket c = Connecting
      | SocketMessage now d \<Rightarrow> cn_socket c = Open
      | SocketClose code \<Rightarrow> cn_socket c \<noteq> Closed
      | SocketError \<Rightarrow> cn_socket c \<noteq> Closed
      | CloseCall \<Rightarrow> True
      | SessionOp op \<Rightarrow> (case op of Feed now d \<Rightarrow> False | CloseSession \<Rightarrow> False | SetOutput \<Rightarrow> False
          | StartKeepalive now \<Rightarrow> False | _ \<Rightarrow> True))"

inductive reaches :: "conn \<Rightarrow> conn_event list \<Rightarrow> conn \<Rightarrow> bool" where
  start: "reaches c [] c"
| step: "reaches c es c1 \<Longrightarrow> enabled e c1 \<Longrightarrow> fst (conn_step e c1) = c2 \<Longrightarrow> reaches c (es @ [e]) c2"

inductive_cases reaches_snocE: "reaches c (es @ [e]) c2"
inductive_simps reaches_Nil: "reaches c [] c2"

end
