(* ===== verification/ConnectionCorrect.thy ===== *)
theory ConnectionCorrect
  imports Connection WsBridgeCorrect
begin

text \<open>
  The connection: bound means the relay accepted, the bind request is the first thing sent,
  a closed connection is silent, and what becomes of the promise of \<open>connect\<close>.
\<close>

section \<open>What a session can change\<close>

text \<open>The session's events touch the bound flag and append to what was sent, nothing else.\<close>

definition session_effect :: "conn \<Rightarrow> conn \<Rightarrow> bool" where
  "session_effect c c' \<longleftrightarrow>
     (cn_config c' = cn_config c \<and> cn_socket c' = cn_socket c \<and> cn_ws c' = cn_ws c \<and> cn_smux c' = cn_smux c
      \<and> cn_closed c' = cn_closed c \<and> cn_bindAddr c' = cn_bindAddr c \<and> cn_promise c' = cn_promise c)
     \<and> (cn_bound c' \<longrightarrow> cn_bound c) \<and> (cn_session c' = None \<longleftrightarrow> cn_session c = None)
     \<and> (\<exists>fs. cn_sent c' = cn_sent c @ fs \<and> (fs \<noteq> [] \<longrightarrow> cn_ws c \<and> cn_socket c = Open \<and> cn_session c \<noteq> None))"

lemma session_effect_refl [simp]: "session_effect c c"
  by (simp add: session_effect_def)

lemma smux_out_effect: "cn_session c \<noteq> None \<Longrightarrow> session_effect c (fst (smux_out ev c))"
  by (cases ev) (simp_all add: session_effect_def onSmuxClose_def)

lemma session_effect_trans: "session_effect c c1 \<Longrightarrow> session_effect c1 c2 \<Longrightarrow> session_effect c c2"
  unfolding session_effect_def by (elim conjE exE) auto

lemma smux_outs_effect: "cn_session c \<noteq> None \<Longrightarrow> session_effect c (fst (smux_outs evs c))"
proof (induction evs arbitrary: c)
  case (Cons ev evs)
  let ?c1 = "fst (smux_out ev c)"
  have e: "session_effect c ?c1" using Cons.prems by (rule smux_out_effect)
  then have "cn_session ?c1 \<noteq> None" using Cons.prems by (auto simp: session_effect_def)
  from session_effect_trans [OF e Cons.IH [OF this]] show ?case by (simp add: case_prod_unfold Let_def)
qed simp

lemma session_op_effect: "session_effect c (fst (session_op op c))"
proof (cases "cn_session c")
  case None
  then show ?thesis by (simp add: session_op_def)
next
  case (Some s)
  obtain s' evs where x: "exec op s = (s', evs)" by fastforce
  have "session_effect c (c\<lparr>cn_session := Some s'\<rparr>)" using Some by (simp add: session_effect_def)
  then show ?thesis
    using session_effect_trans smux_outs_effect [of "c\<lparr>cn_session := Some s'\<rparr>" evs]
    by (simp add: session_op_def Some x)
qed

lemma session_op_fields [simp]:
  "cn_config (fst (session_op op c)) = cn_config c" "cn_socket (fst (session_op op c)) = cn_socket c"
  "cn_ws (fst (session_op op c)) = cn_ws c" "cn_smux (fst (session_op op c)) = cn_smux c"
  "cn_closed (fst (session_op op c)) = cn_closed c" "cn_bindAddr (fst (session_op op c)) = cn_bindAddr c"
  "cn_promise (fst (session_op op c)) = cn_promise c"
  "cn_session (fst (session_op op c)) = None \<longleftrightarrow> cn_session c = None"
  using session_op_effect [of c op] unfolding session_effect_def by blast+

lemma session_op_bound: "cn_bound (fst (session_op op c)) \<Longrightarrow> cn_bound c"
  using session_op_effect [of c op] unfolding session_effect_def by blast

lemma session_op_sent:
  "\<exists>fs. cn_sent (fst (session_op op c)) = cn_sent c @ fs
     \<and> (fs \<noteq> [] \<longrightarrow> cn_ws c \<and> cn_socket c = Open \<and> cn_session c \<noteq> None)"
  using session_op_effect [of c op] unfolding session_effect_def by blast

lemma settle_fields [simp]:
  "cn_config (settle p c) = cn_config c" "cn_socket (settle p c) = cn_socket c" "cn_ws (settle p c) = cn_ws c"
  "cn_smux (settle p c) = cn_smux c" "cn_closed (settle p c) = cn_closed c" "cn_bound (settle p c) = cn_bound c"
  "cn_session (settle p c) = cn_session c" "cn_sent (settle p c) = cn_sent c" "cn_bindAddr (settle p c) = cn_bindAddr c"
  "cn_promise (settle p c) = (if cn_promise c = Pending then p else cn_promise c)"
  by (simp_all add: settle_def)

text \<open>Closing sends nothing: a closed session puts no frame out.\<close>

lemma close_session_events: "snd (close_session s) = [] \<or> snd (close_session s) = [OnClose]"
  by (simp add: close_session_def Let_def)

lemma session_close_sent: "cn_sent (fst (session_op CloseSession c)) = cn_sent c"
proof (cases "cn_session c")
  case (Some s)
  obtain s' evs where x: "close_session s = (s', evs)" by fastforce
  then have "evs = [] \<or> evs = [OnClose]" using close_session_events [of s] by simp
  then show ?thesis by (auto simp: session_op_def Some exec_def x onSmuxClose_def)
qed (simp add: session_op_def)

lemma close_conn_fields [simp]:
  "cn_closed (fst (close_conn c))" "\<not> cn_bound (fst (close_conn c))" "\<not> cn_ws (fst (close_conn c))"
  "\<not> cn_smux (fst (close_conn c))"
  "cn_socket (fst (close_conn c)) = (if cn_ws c \<and> cn_socket c \<noteq> Closed then Closing else cn_socket c)"
  "cn_promise (fst (close_conn c)) = cn_promise c" "cn_config (fst (close_conn c)) = cn_config c"
  "cn_sent (fst (close_conn c)) = cn_sent c" "cn_bindAddr (fst (close_conn c)) = cn_bindAddr c"
  by (simp_all add: close_conn_def Let_def case_prod_unfold session_close_sent)

section \<open>Bound means accepted\<close>

definition accepted_by :: "conn_event list \<Rightarrow> bool" where
  "accepted_by es \<longleftrightarrow> (\<exists>now d r. SocketMessage now d \<in> set es \<and> relayResponseFromWire d = Inr r \<and> rs_status r = StatusOK)"

definition conn_inv :: "conn_event list \<Rightarrow> conn \<Rightarrow> bool" where
  "conn_inv es c \<longleftrightarrow>
     (cn_bound c \<longrightarrow> \<not> cn_closed c \<and> cn_smux c \<and> cn_promise c \<noteq> Pending \<and> accepted_by es)
     \<and> (cn_smux c \<longrightarrow> cn_session c \<noteq> None)
     \<and> (cn_promise c = Resolved \<longrightarrow> accepted_by es)"

lemma accepted_by_snoc: "accepted_by es \<Longrightarrow> accepted_by (es @ [e])"
  by (auto simp: accepted_by_def)

lemma conn_inv_session:
  assumes "conn_inv es c"
  shows "conn_inv (es @ [e]) (fst (session_op op c))"
  using assms session_op_bound [of op c] accepted_by_snoc by (auto simp: conn_inv_def)

lemma conn_inv_step:
  assumes "conn_inv es c"
  shows "conn_inv (es @ [e]) (fst (conn_step e c))"
proof (cases e)
  case SocketOpen
  then show ?thesis
    using assms accepted_by_snoc
    by (auto simp: conn_inv_def ws_onopen_def Let_def sendBind_def split: sum.split)
next
  case (SocketMessage now d)
  show ?thesis
  proof (cases "cn_closed c \<or> cn_bound c")
    case True
    then have "conn_step e c = (c, []) \<or> conn_step e c = session_op (Feed now d) c"
      by (auto simp: SocketMessage ws_onmessage_def)
    moreover have "conn_inv (es @ [e]) c" using assms accepted_by_snoc by (auto simp: conn_inv_def)
    ultimately show ?thesis using conn_inv_session [OF assms] by (metis fst_conv)
  next
    case False
    have "accepted_by (es @ [SocketMessage now d])"
      if "relayResponseFromWire d = Inr r" "rs_status r = StatusOK" for r
      using that by (auto simp: accepted_by_def)
    then show ?thesis
      using False assms accepted_by_snoc
      by (auto simp: SocketMessage ws_onmessage_def conn_inv_def split: sum.split)
  qed
next
  case (SocketClose code)
  then show ?thesis
    using assms accepted_by_snoc by (auto simp: conn_inv_def ws_onclose_def onSmuxClose_def Let_def)
next
  case SocketError
  then show ?thesis using assms accepted_by_snoc by (auto simp: conn_inv_def ws_onerror_def)
next
  case CloseCall
  then show ?thesis using assms accepted_by_snoc by (auto simp: conn_inv_def)
next
  case (SessionOp op)
  then show ?thesis using conn_inv_session [OF assms] by simp
qed

lemma reaches_inv: "reaches c es c' \<Longrightarrow> conn_inv [] c \<Longrightarrow> conn_inv es c'"
  by (induction rule: reaches.induct) (use conn_inv_step in auto)

text \<open>
  C7. A tunnel counts as connected only when the relay accepted it: in every reachable state a
  bound connection has received a response that decodes with status OK, has a session, is not
  closed, and its promise is settled; and the promise of \<open>connect\<close> resolves only on such a
  response.
\<close>

theorem bound_means_accepted:
  assumes "reaches (connect True (new_conn config)) es c"
  shows "(cn_bound c \<longrightarrow> conn_connected c \<and> cn_smux c \<and> cn_session c \<noteq> None \<and> cn_promise c \<noteq> Pending \<and> accepted_by es)
    \<and> (cn_promise c = Resolved \<longrightarrow> accepted_by es)"
proof -
  have "conn_inv [] (connect True (new_conn config))" by (simp add: conn_inv_def connect_def new_conn_def)
  from reaches_inv [OF assms this] show ?thesis by (auto simp: conn_inv_def conn_connected_def)
qed

text \<open>A response that accepts without features, and a configuration, for the witnesses.\<close>

definition demo_tunnel :: tunnel_config where
  "demo_tunnel = \<lparr>tc_tunnelId = replicate 20 7, tc_localEndpoint = dotted [10, 0, 0, 7] @ js '':80'',
     tc_entrypointUrl = Some (js ''https://ab.gost.run''), tc_recordMode = None, tc_prefix = []\<rparr>"

lemma demo_accept: "relayResponseFromWire [1, 0, 0, 0] = Inr \<lparr>rs_version = 1, rs_status = 0, rs_features = []\<rparr>"
  by (simp add: relayResponseFromWire_def get_u16_be_def Version1_def Let_def decode_features.simps)

lemma bound_means_accepted_witness:
  "\<exists>c. reaches (connect True (new_conn demo_tunnel)) [SocketOpen, SocketMessage 0 [1, 0, 0, 0]] c
     \<and> cn_bound c \<and> conn_connected c \<and> accepted_by [SocketOpen, SocketMessage 0 [1, 0, 0, 0]]"
proof -
  let ?c0 = "connect True (new_conn demo_tunnel)"
  let ?c1 = "ws_onopen ?c0"
  let ?c2 = "fst (ws_onmessage 0 [1, 0, 0, 0] ?c1)"
  have c1: "cn_socket ?c1 = Open" "\<not> cn_closed ?c1" "\<not> cn_bound ?c1"
    by (auto simp: ws_onopen_def connect_def new_conn_def sendBind_def Let_def split: sum.split)
  have 1: "reaches ?c0 ([] @ [SocketOpen]) ?c1"
    by (rule reaches.step [OF reaches.start]) (simp_all add: enabled_def connect_def new_conn_def)
  have 2: "reaches ?c0 (([] @ [SocketOpen]) @ [SocketMessage 0 [1, 0, 0, 0]]) ?c2"
    using c1 by (intro reaches.step [OF 1]) (simp_all add: enabled_def)
  moreover have "cn_bound ?c2" using c1 by (simp add: ws_onmessage_def demo_accept StatusOK_def)
  ultimately show ?thesis using bound_means_accepted [of demo_tunnel _ ?c2] by auto
qed

section \<open>What is sent\<close>

text \<open>While the socket connects nothing is out; on an open socket the bind request came first.\<close>

definition sent_inv :: "bytes \<Rightarrow> conn \<Rightarrow> bool" where
  "sent_inv b c \<longleftrightarrow>
     encodeRequest (bind_request (cn_config c)) = Inr b
     \<and> (cn_socket c = Connecting \<longrightarrow> cn_sent c = [] \<and> cn_ws c)
     \<and> (cn_socket c = Open \<longrightarrow> cn_sent c \<noteq> [])
     \<and> (cn_sent c = [] \<or> hd (cn_sent c) = b)"

lemma sent_inv_session: "sent_inv b c \<Longrightarrow> sent_inv b (fst (session_op op c))"
proof -
  assume inv: "sent_inv b c"
  obtain fs where fs: "cn_sent (fst (session_op op c)) = cn_sent c @ fs"
    "fs \<noteq> [] \<longrightarrow> cn_ws c \<and> cn_socket c = Open \<and> cn_session c \<noteq> None"
    using session_op_sent [of op c] by blast
  then show "sent_inv b (fst (session_op op c))"
    using inv by (cases "fs = []") (auto simp: sent_inv_def)
qed

lemma sent_inv_step:
  assumes "sent_inv b c" "enabled e c"
  shows "sent_inv b (fst (conn_step e c))"
proof (cases e)
  case SocketOpen
  then show ?thesis using assms by (auto simp: enabled_def sent_inv_def ws_onopen_def Let_def sendBind_def)
next
  case (SocketMessage now d)
  then show ?thesis
    using assms(1) sent_inv_session [OF assms(1)] by (auto simp: ws_onmessage_def sent_inv_def split: sum.split)
next
  case (SocketClose code)
  then show ?thesis using assms(1) by (auto simp: sent_inv_def ws_onclose_def onSmuxClose_def Let_def)
next
  case SocketError
  then show ?thesis using assms(1) by (auto simp: sent_inv_def ws_onerror_def)
next
  case CloseCall
  then show ?thesis using assms(1) by (auto simp: sent_inv_def)
next
  case (SessionOp op)
  then show ?thesis using sent_inv_session [OF assms(1)] by simp
qed

text \<open>Closed for good: no reference to the socket is left, so nothing can be put on it.\<close>

lemma closed_silent_step:
  assumes "cn_closed c" "\<not> cn_ws c" "\<not> cn_bound c" "cn_socket c \<noteq> Connecting" "enabled e c"
  shows "let c' = fst (conn_step e c) in
    cn_sent c' = cn_sent c \<and> cn_closed c' \<and> \<not> cn_ws c' \<and> \<not> cn_bound c' \<and> cn_socket c' \<noteq> Connecting"
proof -
  have s: "cn_sent (fst (session_op op c)) = cn_sent c" "\<not> cn_bound (fst (session_op op c))" for op
    using session_op_sent [of op c] session_op_bound [of op c] assms(2,3) by auto
  show ?thesis
    using assms s
    by (cases e) (auto simp: enabled_def ws_onmessage_def ws_onclose_def onSmuxClose_def ws_onerror_def Let_def)
qed

lemma closed_silent_run:
  "reaches c es c' \<Longrightarrow> cn_closed c \<Longrightarrow> \<not> cn_ws c \<Longrightarrow> \<not> cn_bound c \<Longrightarrow> cn_socket c \<noteq> Connecting \<Longrightarrow>
   cn_sent c' = cn_sent c \<and> cn_closed c' \<and> \<not> cn_ws c' \<and> \<not> cn_bound c' \<and> cn_socket c' \<noteq> Connecting"
  by (induction rule: reaches.induct) (use closed_silent_step in \<open>auto simp: Let_def\<close>)

lemma reaches_sent_inv: "reaches c es c' \<Longrightarrow> sent_inv b c \<Longrightarrow> sent_inv b c'"
  by (induction rule: reaches.induct) (use sent_inv_step in auto)

text \<open>
  The first thing on the socket is the bind request, and \<open>close\<close> is final: after it nothing
  is sent, whatever the socket, the timers and the holders of streams still do, and the tunnel
  is never connected again.
\<close>

theorem bind_first_close_last:
  assumes "encodeRequest (bind_request config) = Inr b"
    and "reaches (connect True (new_conn config)) es c" "reaches (fst (close_conn c)) es' c'"
  shows "(cn_sent c = [] \<or> hd (cn_sent c) = b) \<and> cn_sent c' = cn_sent c \<and> \<not> conn_connected c'"
proof -
  have "sent_inv b (connect True (new_conn config))"
    using assms(1) by (simp add: sent_inv_def connect_def new_conn_def)
  from reaches_sent_inv [OF assms(2) this] have inv: "sent_inv b c" .
  then have "cn_socket (fst (close_conn c)) \<noteq> Connecting" by (auto simp: sent_inv_def)
  from closed_silent_run [OF assms(3) _ _ _ this] inv show ?thesis by (auto simp: sent_inv_def conn_connected_def)
qed

section \<open>The bind request on the wire\<close>

lemma record_mode_cases: "record_mode m \<in> {[], js ''headers'', js ''off''}"
  by (auto simp: record_mode_def split: option.split)

lemma bind_features:
  "rq_features (bind_request config) =
     (let (host, port) = endpoint_host_port (tc_localEndpoint config) in
      [FTunnel (tc_tunnelId config), FUserAuth [] [], FAddr host port, FAddr (bind_host (tc_prefix config)) port,
       FNetwork NetworkTCP, FMetadata [(js ''record.mode'', record_mode (tc_recordMode config))]])"
  "rq_version (bind_request config) = Version1" "rq_cmd (bind_request config) = CmdBind"
  by (simp_all add: bind_request_def addFeature_def new_request_def case_prod_unfold Let_def)

text \<open>
  What the relay reads off the bind request: the bind command, the tunnel's id, no
  credentials, the local address, the requested host with the same port, TCP, and a record
  mode that is never anything but off, headers only or the empty string for full recording.
\<close>

theorem bind_request_wire:
  assumes "encodeRequest (bind_request config) = Inr wire"
    and "endpoint_host_port (tc_localEndpoint config) = (host, port)"
  shows "relayResponseFromWire (wire @ trailing) = Inr \<lparr>rs_version = Version1, rs_status = CmdBind, rs_features =
      [(FeatureTunnel, VTunnel (tc_tunnelId config)), (FeatureUserAuth, VUserAuth [] []),
       (FeatureAddr, addr_view host port), (FeatureAddr, addr_view (bind_host (tc_prefix config)) port),
       (FeatureNetwork, VNetwork (NetworkTCP mod 65536)),
       (FeatureMetadata, VMetadata [(js ''record.mode'', record_mode (tc_recordMode config))])]\<rparr>
    \<and> record_mode (tc_recordMode config) \<in> {[], js ''headers'', js ''off''}"
proof -
  have m: "received_metadata [(js ''record.mode'', v)] = [(js ''record.mode'', v)]" if "v \<in> {[], js ''headers'', js ''off''}" for v
    using that by (auto simp: received_metadata_def cu_def received_ascii)
  have e: "received [] = []" by (rule received_ascii) simp
  have "\<forall>f \<in> set (rq_features (bind_request config)). raw_type_ok f"
    by (simp add: bind_features case_prod_unfold Let_def del: js_simps)
  from request_decodes [OF bind_features(2) this assms(1)] show ?thesis
    using record_mode_cases assms(2) m [OF record_mode_cases] by (simp add: bind_features e del: js_simps)
qed

lemma demo_bind:
  "endpoint_host_port (tc_localEndpoint demo_tunnel) = (dotted [10, 0, 0, 7], 80)"
  "bind_host (tc_prefix demo_tunnel) = dotted [0, 0, 0, 0]"
  "ascii (dotted [10, 0, 0, 7])" "ascii (dotted [0, 0, 0, 0])"
  "\<exists>b. encodeRequest (bind_request demo_tunnel) = Inr b"
proof -
  have "last_index_of (cu CHR '':'') (dotted [10, 0, 0, 7] @ cu CHR '':'' # js ''80'') = Some (length (dotted [10, 0, 0, 7]))"
    by (rule last_index_of_append) (simp add: cu_def)
  moreover have "parse_int (js ''80'') 10 = Some 80"
    by (simp add: parse_int_def is_ws_def is_digit_def digit_val_def digits_value_def cu_def Let_def)
  ultimately show e: "endpoint_host_port (tc_localEndpoint demo_tunnel) = (dotted [10, 0, 0, 7], 80)"
    by (simp add: endpoint_host_port_def demo_tunnel_def)
  have "dec_str 0 = [cu CHR ''0'']" by (simp add: to_radix.simps digit_unit_def cu_def)
  then show h: "bind_host (tc_prefix demo_tunnel) = dotted [0, 0, 0, 0]"
    by (simp add: bind_host_def demo_tunnel_def trim_def to_lower_def dotted_def)
  show "ascii (dotted [10, 0, 0, 7])" "ascii (dotted [0, 0, 0, 0])"
    using ascii_to_radix [of 10] by (simp_all add: dotted_def cu_def)
  have t: "length (tc_tunnelId demo_tunnel) = 20" "tc_recordMode demo_tunnel = None" by (simp_all add: demo_tunnel_def)
  have "rq_features (bind_request demo_tunnel) =
      [FTunnel (tc_tunnelId demo_tunnel), FUserAuth [] [], FAddr (dotted [10, 0, 0, 7]) 80, FAddr (dotted [0, 0, 0, 0]) 80,
       FNetwork NetworkTCP, FMetadata [(js ''record.mode'', js ''off'')]]"
    by (simp add: bind_features e h t record_mode_def)
  then show "\<exists>b. encodeRequest (bind_request demo_tunnel) = Inr b"
    by (simp add: encodeRequest_def t encodeAddr_def parseIPv4_dotted encodeUserAuth_def
        encodeTLV_def encodeTunnel_def encodeNetwork_def encodeMetadata_def encode_entry_def
        text_encode_ascii cu_def Let_def)
qed

lemma bind_request_wire_witness:
  "\<exists>wire r. encodeRequest (bind_request demo_tunnel) = Inr wire \<and> relayResponseFromWire (wire @ [9]) = Inr r
     \<and> rs_status r = CmdBind"
proof -
  obtain wire where "encodeRequest (bind_request demo_tunnel) = Inr wire" using demo_bind(5) by blast
  from bind_request_wire [OF this demo_bind(1), of "[9]"] this show ?thesis
    by (simp add: demo_bind(2-4) ascii_encodable)
qed

lemma bind_first_close_last_witness:
  "\<not> conn_connected (fst (close_conn (connect True (new_conn demo_tunnel))))
   \<and> cn_sent (fst (close_conn (connect True (new_conn demo_tunnel)))) = []"
proof -
  obtain wire where "encodeRequest (bind_request demo_tunnel) = Inr wire" using demo_bind(5) by blast
  from bind_first_close_last [OF this reaches.start reaches.start] show ?thesis
    by (simp add: connect_def new_conn_def)
qed

section \<open>The public address\<close>

text \<open>
  The relay decides the public host: binding replaces the host part of the entry point, up
  to its first dot, by the host of the response's address, unless that is a wildcard, and keeps
  the domain.
\<close>

theorem negotiated_entrypoint:
  assumes "relayResponseFromWire d = Inr r" "rs_status r = StatusOK" "\<not> cn_closed c" "\<not> cn_bound c"
    and "findFeature (rs_features r) FeatureAddr = Some (VAddr host port atype)"
    and "entrypoint c = Some (old @ cu CHR ''.'' # domain)" "cu CHR ''.'' \<notin> set old"
  shows "entrypoint (fst (conn_step (SocketMessage now d) c)) =
    Some (if host = [] \<or> host = js ''0.0.0.0'' \<or> host = js ''::'' then old @ cu CHR ''.'' # domain
          else js ''https://'' @ host @ js ''.'' @ domain)"
proof -
  have "index_of [cu CHR ''.''] (old @ cu CHR ''.'' # domain) = Some (length old)"
    using assms(7) by (rule index_of_single_append)
  then have "negotiated_addr r (cn_bindAddr c) =
      Some (if host = [] \<or> host = js ''0.0.0.0'' \<or> host = js ''::'' then old @ cu CHR ''.'' # domain
          else js ''https://'' @ host @ js ''.'' @ domain)"
    using assms(5,6) by (simp add: negotiated_addr_def entrypoint_def)
  then show ?thesis using assms(1-4) by (simp add: ws_onmessage_def entrypoint_def del: js_simps)
qed

lemma negotiated_entrypoint_witness:
  "entrypoint (fst (conn_step (SocketMessage 0 [1, 0, 0, 10, 2, 0, 7, 3, 3, 119, 101, 98, 0, 80])
     (ws_onopen (connect True (new_conn demo_tunnel))))) = Some (js ''https://web.gost.run'')"
proof -
  let ?c = "ws_onopen (connect True (new_conn demo_tunnel))"
  have d: "relayResponseFromWire [1, 0, 0, 10, 2, 0, 7, 3, 3, 119, 101, 98, 0, 80] =
      Inr \<lparr>rs_version = 1, rs_status = 0, rs_features = [(2, VAddr (text_decode [119, 101, 98]) 80 3)]\<rparr>"
    by (simp add: relayResponseFromWire_def get_u16_be_def Version1_def Let_def decode_features.simps
        decodeFeature_def decode_value_def decodeAddr_def addr_types feature_types slice_def FEATURE_HEADER_LEN_def)
  have t: "text_decode [119, 101, 98] = js ''web''"
  proof -
    have "text_encode (js ''web'') = [119, 101, 98]" by (simp add: text_encode_ascii cu_def)
    moreover have "encodable (js ''web'')" by (rule ascii_encodable) (simp add: cu_def)
    ultimately show ?thesis using text_decode_encode by metis
  qed
  have c: "\<not> cn_closed ?c" "\<not> cn_bound ?c" "entrypoint ?c = Some (js ''https://ab'' @ cu CHR ''.'' # js ''gost.run'')"
    by (auto simp: ws_onopen_def connect_def new_conn_def sendBind_def entrypoint_def demo_tunnel_def Let_def
        split: sum.split)
  have n: "cu CHR ''.'' \<notin> set (js ''https://ab'')" by (simp add: cu_def)
  from negotiated_entrypoint [OF d _ c(1,2) _ c(3) n, of "js ''web''" 80 3 0] show ?thesis
    by (simp add: StatusOK_def findFeature_def feature_types t cu_def)
qed

section \<open>Promises and sockets left behind\<close>

text \<open>
  Closing a connection that waits for the relay's answer leaves the promise of \<open>connect\<close>
  pending for ever: no later message or close of the socket settles it, only an error of the
  socket would.
\<close>

theorem close_leaves_pending:
  assumes "cn_promise c = Pending" "cn_socket c = Open" "cn_ws c"
    and "reaches (fst (close_conn c)) es c'" "SocketError \<notin> set es"
  shows "cn_promise c' = Pending"
proof -
  have "cn_promise c' = Pending \<and> cn_closed c' \<and> cn_socket c' \<noteq> Connecting"
    using assms(4,1,5)
  proof (induction "fst (close_conn c)" es c' rule: reaches.induct)
    case start
    then show ?case using assms(2,3) by simp
  next
    case (step es c1 e c2)
    then have "cn_promise c1 = Pending" "cn_closed c1" "cn_socket c1 \<noteq> Connecting" "e \<noteq> SocketError" by auto
    then show ?case
      using step.hyps(3,4)
      by (cases e) (auto simp: enabled_def ws_onmessage_def ws_onclose_def onSmuxClose_def Let_def split: if_splits)
  qed
  then show ?thesis by blast
qed

lemma close_leaves_pending_witness:
  "let c = ws_onopen (connect True (new_conn demo_tunnel)) in
   \<exists>c'. reaches (fst (close_conn c)) [SocketClose 1000] c' \<and> cn_promise c' = Pending \<and> cn_socket c' = Closed"
proof -
  let ?c = "ws_onopen (connect True (new_conn demo_tunnel))"
  obtain b where "encodeRequest (bind_request demo_tunnel) = Inr b" using demo_bind(5) by blast
  then have c: "cn_promise ?c = Pending" "cn_socket ?c = Open" "cn_ws ?c"
    by (simp_all add: ws_onopen_def connect_def new_conn_def sendBind_def Let_def)
  let ?c' = "fst (ws_onclose 1000 (fst (close_conn ?c)))"
  have "reaches (fst (close_conn ?c)) ([] @ [SocketClose 1000]) ?c'"
    by (rule reaches.step [OF reaches.start]) (simp_all add: enabled_def c)
  moreover have "cn_socket ?c' = Closed" by (simp add: ws_onclose_def onSmuxClose_def Let_def)
  ultimately show ?thesis using close_leaves_pending [OF c, of "[SocketClose 1000]" ?c'] by auto
qed

text \<open>
  A tunnel found dead by the keepalive is given up without closing its socket: the owner is
  told that the connection closed, the connection is no longer bound, but the socket stays open
  and nothing has been asked of it.
\<close>

theorem dead_link_keeps_socket:
  assumes "cn_session c = Some s" "sx_timeoutTimer s" "\<not> sx_closed s"
    and "now - sx_lastRecvAt s > int KEEPALIVE_TIMEOUT"
  shows "let (c', out) = conn_step (SessionOp (TimeoutTick now)) c in
    out = [LogError, CloseCallback] \<and> \<not> conn_connected c' \<and> cn_socket c' = cn_socket c
    \<and> cn_ws c' = cn_ws c \<and> cn_sent c' = cn_sent c"
  using assms
  by (simp add: session_op_def exec_def timeout_tick_def close_session_def Let_def onSmuxClose_def conn_connected_def)

lemma dead_link_keeps_socket_witness:
  "let c = fst (ws_onmessage 0 [1, 0, 0, 0] (ws_onopen (connect True (new_conn demo_tunnel))));
       c' = fst (conn_step (SessionOp (TimeoutTick 40000)) c) in
   conn_connected c \<and> \<not> conn_connected c' \<and> cn_socket c' = Open"
proof -
  let ?c1 = "ws_onopen (connect True (new_conn demo_tunnel))"
  let ?c = "fst (ws_onmessage 0 [1, 0, 0, 0] ?c1)"
  have c1: "cn_socket ?c1 = Open" "\<not> cn_closed ?c1" "\<not> cn_bound ?c1"
    by (auto simp: ws_onopen_def connect_def new_conn_def sendBind_def Let_def split: sum.split)
  then have c: "cn_session ?c = Some (bind_session 0)" "cn_socket ?c = Open" "conn_connected ?c"
    by (simp_all add: ws_onmessage_def demo_accept StatusOK_def conn_connected_def)
  have s: "sx_timeoutTimer (bind_session 0)" "\<not> sx_closed (bind_session 0)" "sx_lastRecvAt (bind_session 0) = 0"
    by (simp_all add: bind_session_def startKeepalive_def setOutput_def new_smux_def)
  have "40000 - sx_lastRecvAt (bind_session 0) > int KEEPALIVE_TIMEOUT" by (simp add: s KEEPALIVE_TIMEOUT_def)
  from dead_link_keeps_socket [OF c(1) s(1,2) this] show ?thesis using c(2,3) by (simp add: Let_def case_prod_unfold)
qed

end
