(* ===== verification/Offscreen.thy ===== *)
theory Offscreen
  imports Connection TunnelId TunnelStats
begin

text \<open>
  The tunnel host, \<open>extension/offscreen.js\<close>: the map from tunnel ids to entries, the
  connections the entries own, reconnecting, the set of starts in flight and the statistics
  sampler. Connections are the model of \<open>Connection\<close>; a step is one message, one event of a
  connection, or one timer, with the microtasks it queues run at its end. The messages sent
  to the service worker are the output.
\<close>

record tunnel_entry_config =
  tg_id :: jstr
  tg_idBytes :: "bytes option"
  tg_localEndpoint :: jstr
  tg_entrypointDomain :: jstr
  tg_recordMode :: "jstr option"
  tg_prefix :: jstr

datatype tunnel_status = StConnecting | StRunning | StError | StStopped

datatype status_note = NoNote | ReconnectIn nat | Failed conn_error

datatype off_msg =
    StatusMsg jstr tunnel_status status_note "jstr option"
  | StatsMsg jstr snapshot

record off_entry =
  oe_config :: tunnel_entry_config
  oe_connection :: "nat option"
  oe_timer :: "nat option"
  oe_attempts :: nat
  oe_stats :: stats

record off_conn =
  oc_conn :: conn
  oc_entry :: nat
  oc_initial :: bool

record offscreen =
  of_tunnels :: "(jstr, nat) jsmap"
  of_entries :: "off_entry list"
  of_conns :: "off_conn list"
  of_pending :: "jstr list"
  of_statsTimer :: bool
  of_out :: "off_msg list"

definition new_offscreen :: offscreen where
  "new_offscreen = \<lparr>of_tunnels = [], of_entries = [], of_conns = [], of_pending = [],
     of_statsTimer = False, of_out = []\<rparr>"

definition upd_entry :: "nat \<Rightarrow> (off_entry \<Rightarrow> off_entry) \<Rightarrow> offscreen \<Rightarrow> offscreen" where
  "upd_entry e f s = s\<lparr>of_entries := (of_entries s)[e := f (of_entries s ! e)]\<rparr>"

definition set_conn :: "nat \<Rightarrow> conn \<Rightarrow> offscreen \<Rightarrow> offscreen" where
  "set_conn k c s = s\<lparr>of_conns := (of_conns s)[k := (of_conns s ! k)\<lparr>oc_conn := c\<rparr>]\<rparr>"

abbreviation ent :: "offscreen \<Rightarrow> nat \<Rightarrow> off_entry" where
  "ent s e \<equiv> of_entries s ! e"

abbreviation cnn :: "offscreen \<Rightarrow> nat \<Rightarrow> off_conn" where
  "cnn s k \<equiv> of_conns s ! k"

abbreviation ent_id :: "offscreen \<Rightarrow> nat \<Rightarrow> jstr" where
  "ent_id s e \<equiv> tg_id (oe_config (ent s e))"

definition notifyStatus :: "jstr \<Rightarrow> tunnel_status \<Rightarrow> status_note \<Rightarrow> jstr option \<Rightarrow> offscreen \<Rightarrow> offscreen" where
  "notifyStatus tid st note ep s = s\<lparr>of_out := of_out s @ [StatusMsg tid st note ep]\<rparr>"

definition notifyStats :: "jstr \<Rightarrow> snapshot \<Rightarrow> offscreen \<Rightarrow> offscreen" where
  "notifyStats tid snap s = s\<lparr>of_out := of_out s @ [StatsMsg tid snap]\<rparr>"

definition remove_pending :: "jstr \<Rightarrow> offscreen \<Rightarrow> offscreen" where
  "remove_pending tid s = s\<lparr>of_pending := removeAll tid (of_pending s)\<rparr>"

section \<open>Connecting\<close>

text \<open>After the await in \<open>connect\<close>, and the \<open>finally\<close> of the start that called it.\<close>

definition connect_settled :: "nat \<Rightarrow> offscreen \<Rightarrow> offscreen" where
  "connect_settled k s =
     (let c = oc_conn (cnn s k); tid = ent_id s (oc_entry (cnn s k));
          s1 = (case cn_promise c of
                  Resolved \<Rightarrow> notifyStatus tid StRunning NoNote (entrypoint c) s
                | Rejected e \<Rightarrow> notifyStatus tid StError (Failed e) None s
                | _ \<Rightarrow> s)
      in if oc_initial (cnn s k) then remove_pending tid s1 else s1)"

definition entry_domain :: "tunnel_entry_config \<Rightarrow> jstr" where
  "entry_domain config =
     (if tg_entrypointDomain config = [] then js ''gost.run'' else tg_entrypointDomain config)"

definition connection_config :: "tunnel_entry_config \<Rightarrow> tunnel_config option" where
  "connection_config config =
     (case entrypointFromUuid (tg_id config) (entry_domain config) of
        None \<Rightarrow> None
      | Some url \<Rightarrow>
          (case (case tg_idBytes config of Some b \<Rightarrow> Some b | None \<Rightarrow> uuidToTunnelIdBytes (tg_id config)) of
             None \<Rightarrow> None
           | Some idb \<Rightarrow> Some \<lparr>tc_tunnelId = idb, tc_localEndpoint = tg_localEndpoint config,
               tc_entrypointUrl = Some url, tc_recordMode = tg_recordMode config, tc_prefix = tg_prefix config\<rparr>))"

text \<open>An id that is no UUID makes \<open>connect\<close> throw after the first status message.\<close>

definition connect_entry :: "bool \<Rightarrow> bool \<Rightarrow> nat \<Rightarrow> offscreen \<Rightarrow> offscreen" where
  "connect_entry initial constructs e s =
     (let config = oe_config (ent s e); tid = tg_id config;
          s1 = notifyStatus tid StConnecting NoNote None s in
      case connection_config config of
        None \<Rightarrow> if initial then remove_pending tid s1 else s1
      | Some tc \<Rightarrow>
          (let c = connect constructs (new_conn tc); k = length (of_conns s1);
               s2 = s1\<lparr>of_conns := of_conns s1 @ [\<lparr>oc_conn = c, oc_entry = e, oc_initial = initial\<rparr>]\<rparr>;
               s3 = upd_entry e (\<lambda>en. en\<lparr>oe_connection := Some k, oe_attempts := 0\<rparr>) s2
           in if cn_promise c = Pending then s3 else connect_settled k s3))"

definition reconnect_delay :: "nat \<Rightarrow> nat" where
  "reconnect_delay attempts = min (1000 * 2 ^ attempts) 30000"

text \<open>\<open>conn.onClose\<close>.\<close>

definition conn_onClose :: "nat \<Rightarrow> offscreen \<Rightarrow> offscreen" where
  "conn_onClose k s =
     (let e = oc_entry (cnn s k); tid = ent_id s e in
      if oe_connection (ent s e) = Some k \<and> jget (of_tunnels s) tid \<noteq> None then
        (let delay = reconnect_delay (oe_attempts (ent s e));
             s1 = upd_entry e (\<lambda>en. en\<lparr>oe_connection := None, oe_attempts := oe_attempts en + 1\<rparr>) s;
             s2 = notifyStatus tid StConnecting (ReconnectIn delay) None s1
         in upd_entry e (\<lambda>en. en\<lparr>oe_timer := Some delay\<rparr>) s2)
      else s)"

fun handle_outs :: "nat \<Rightarrow> conn_out list \<Rightarrow> offscreen \<Rightarrow> offscreen" where
  "handle_outs k [] s = s"
| "handle_outs k (CloseCallback # outs) s = handle_outs k outs (conn_onClose k s)"
| "handle_outs k (_ # outs) s = handle_outs k outs s"

text \<open>A step of a connection: its handlers run first, then what awaited its promise.\<close>

definition conn_apply :: "nat \<Rightarrow> (conn \<Rightarrow> conn \<times> conn_out list) \<Rightarrow> offscreen \<Rightarrow> offscreen" where
  "conn_apply k f s =
     (let c = oc_conn (cnn s k); (c', outs) = f c; s1 = handle_outs k outs (set_conn k c' s)
      in if cn_promise c = Pending \<and> cn_promise c' \<noteq> Pending then connect_settled k s1 else s1)"

section \<open>Starting and stopping\<close>

definition startStatsSampler :: "offscreen \<Rightarrow> offscreen" where
  "startStatsSampler s = s\<lparr>of_statsTimer := True\<rparr>"

definition stopStatsSampler :: "offscreen \<Rightarrow> offscreen" where
  "stopStatsSampler s = s\<lparr>of_statsTimer := False\<rparr>"

text \<open>The entry leaves the map before its connection is closed.\<close>

definition forget_tunnel :: "jstr \<Rightarrow> nat \<Rightarrow> offscreen \<Rightarrow> offscreen" where
  "forget_tunnel tid e s =
     (let s1 = upd_entry e (\<lambda>en. en\<lparr>oe_timer := None, oe_stats := reset_stats (oe_stats en)\<rparr>) s;
          s2 = s1\<lparr>of_tunnels := jdelete tid (of_tunnels s1)\<rparr>
      in if of_tunnels s2 = [] then stopStatsSampler s2 else s2)"

definition stopTunnel :: "jstr \<Rightarrow> offscreen \<Rightarrow> offscreen" where
  "stopTunnel tid s =
     (case jget (of_tunnels s) tid of
        None \<Rightarrow> s
      | Some e \<Rightarrow>
          (let s3 = forget_tunnel tid e s;
               s4 = (case oe_connection (ent s3 e) of
                       None \<Rightarrow> s3
                     | Some k \<Rightarrow> upd_entry e (\<lambda>en. en\<lparr>oe_connection := None\<rparr>) (conn_apply k close_conn s3))
           in notifyStatus tid StStopped NoNote None s4))"

definition startTunnel :: "tunnel_entry_config \<Rightarrow> bool \<Rightarrow> offscreen \<Rightarrow> offscreen" where
  "startTunnel config constructs s =
     (let tid = tg_id config in
      if tid \<in> set (of_pending s) then s
      else
        (let s1 = s\<lparr>of_pending := tid # of_pending s\<rparr>;
             s2 = (if jget (of_tunnels s1) tid \<noteq> None then stopTunnel tid s1 else s1);
             e = length (of_entries s2);
             s3 = s2\<lparr>of_entries := of_entries s2 @ [\<lparr>oe_config = config, oe_connection = None,
                        oe_timer = None, oe_attempts = 0, oe_stats = new_stats\<rparr>],
                     of_tunnels := jset tid e (of_tunnels s2)\<rparr>
         in connect_entry True constructs e (startStatsSampler s3)))"

section \<open>Statistics and queries\<close>

definition entry_connected :: "offscreen \<Rightarrow> nat \<Rightarrow> bool" where
  "entry_connected s e =
     (case oe_connection (ent s e) of None \<Rightarrow> False | Some k \<Rightarrow> conn_connected (oc_conn (cnn s k)))"

definition sample_entry :: "int \<Rightarrow> jstr \<times> nat \<Rightarrow> offscreen \<Rightarrow> offscreen" where
  "sample_entry now x s =
     (let (tid, e) = x; (st, snap) = sample now 1 (oe_stats (ent s e));
          s1 = upd_entry e (\<lambda>en. en\<lparr>oe_stats := st\<rparr>) s
      in if entry_connected s e then notifyStats tid snap s1 else s1)"

definition sampleAllStats :: "int \<Rightarrow> offscreen \<Rightarrow> offscreen" where
  "sampleAllStats now s = (if of_statsTimer s then fold (sample_entry now) (of_tunnels s) s else s)"

definition resetStats :: "int \<Rightarrow> jstr \<Rightarrow> offscreen \<Rightarrow> offscreen" where
  "resetStats now tid s =
     (case jget (of_tunnels s) tid of
        None \<Rightarrow> s
      | Some e \<Rightarrow>
          (let (st, snap) = sample now 1 (reset_stats (oe_stats (ent s e)))
           in notifyStats tid snap (upd_entry e (\<lambda>en. en\<lparr>oe_stats := st\<rparr>) s)))"

definition getTunnelStatuses :: "offscreen \<Rightarrow> (jstr \<times> jstr \<times> tunnel_status \<times> jstr option) list" where
  "getTunnelStatuses s =
     map (\<lambda>(tid, e). (tid, tg_localEndpoint (oe_config (ent s e)),
            (case oe_connection (ent s e) of None \<Rightarrow> StConnecting | Some k \<Rightarrow> StRunning),
            (case oe_connection (ent s e) of None \<Rightarrow> None | Some k \<Rightarrow> entrypoint (oc_conn (cnn s k)))))
       (of_tunnels s)"

section \<open>Runs\<close>

datatype off_event =
    StartMsg tunnel_entry_config bool
  | StopMsg jstr
  | ResetMsg int jstr
  | ConnEvent nat conn_event
  | TimerFires nat bool
  | SampleTick int
  | StatsActivity nat stats_event

text \<open>
  An event of a connection happens only when its socket can have it, and \<open>close\<close> is called by
  \<open>stopTunnel\<close> alone. \<open>oe_timer\<close> is the armed timer: it fires once (the handle the code keeps
  afterwards has no effect).
\<close>

fun off_step :: "off_event \<Rightarrow> offscreen \<Rightarrow> offscreen" where
  "off_step (StartMsg config constructs) s = startTunnel config constructs s"
| "off_step (StopMsg tid) s = stopTunnel tid s"
| "off_step (ResetMsg now tid) s = resetStats now tid s"
| "off_step (ConnEvent k ev) s =
     (if k < length (of_conns s) \<and> ev \<noteq> CloseCall \<and> enabled ev (oc_conn (cnn s k))
      then conn_apply k (conn_step ev) s else s)"
| "off_step (TimerFires e constructs) s =
     (if e < length (of_entries s) \<and> oe_timer (ent s e) \<noteq> None
      then connect_entry False constructs e (upd_entry e (\<lambda>en. en\<lparr>oe_timer := None\<rparr>) s) else s)"
| "off_step (SampleTick now) s = sampleAllStats now s"
| "off_step (StatsActivity e ev) s =
     (if e < length (of_entries s)
      then upd_entry e (\<lambda>en. en\<lparr>oe_stats := fst (stats_step ev (oe_stats en))\<rparr>) s else s)"

fun off_run :: "off_event list \<Rightarrow> offscreen \<Rightarrow> offscreen" where
  "off_run [] s = s"
| "off_run (ev # evs) s = off_run evs (off_step ev s)"

end
