(* ===== verification/OffscreenCorrect.thy ===== *)
theory OffscreenCorrect
  imports Offscreen ConnectionCorrect
begin

text \<open>
  The tunnel host: its invariant over every run, what the back-off comes to, and the start
  that is blocked for ever.
\<close>

section \<open>Fields\<close>

lemma upd_entry_simps [simp]:
  "length (of_entries (upd_entry e f s)) = length (of_entries s)"
  "of_tunnels (upd_entry e f s) = of_tunnels s" "of_conns (upd_entry e f s) = of_conns s"
  "of_pending (upd_entry e f s) = of_pending s" "of_statsTimer (upd_entry e f s) = of_statsTimer s"
  "of_out (upd_entry e f s) = of_out s"
  "e < length (of_entries s) \<Longrightarrow> ent (upd_entry e f s) e = f (ent s e)"
  "e' \<noteq> e \<Longrightarrow> ent (upd_entry e f s) e' = ent s e'"
  by (simp_all add: upd_entry_def)

lemma set_conn_simps [simp]:
  "length (of_conns (set_conn k c s)) = length (of_conns s)" "of_entries (set_conn k c s) = of_entries s"
  "of_tunnels (set_conn k c s) = of_tunnels s" "of_pending (set_conn k c s) = of_pending s"
  "of_statsTimer (set_conn k c s) = of_statsTimer s" "of_out (set_conn k c s) = of_out s"
  "k < length (of_conns s) \<Longrightarrow> oc_conn (cnn (set_conn k c s) k) = c"
  "k' \<noteq> k \<Longrightarrow> cnn (set_conn k c s) k' = cnn s k'"
  by (simp_all add: set_conn_def)

lemma set_conn_entry [simp]:
  "oc_entry (cnn (set_conn k c s) k') = oc_entry (cnn s k')"
  "oc_initial (cnn (set_conn k c s) k') = oc_initial (cnn s k')"
  by (cases "k' < length (of_conns s)"; cases "k' = k"; simp add: set_conn_def list_update_beyond)+

lemma notify_simps [simp]:
  "of_entries (notifyStatus t st n ep s) = of_entries s" "of_tunnels (notifyStatus t st n ep s) = of_tunnels s"
  "of_conns (notifyStatus t st n ep s) = of_conns s" "of_pending (notifyStatus t st n ep s) = of_pending s"
  "of_statsTimer (notifyStatus t st n ep s) = of_statsTimer s"
  "of_out (notifyStatus t st n ep s) = of_out s @ [StatusMsg t st n ep]"
  "of_entries (notifyStats t x s) = of_entries s" "of_tunnels (notifyStats t x s) = of_tunnels s"
  "of_conns (notifyStats t x s) = of_conns s" "of_pending (notifyStats t x s) = of_pending s"
  "of_statsTimer (notifyStats t x s) = of_statsTimer s" "of_out (notifyStats t x s) = of_out s @ [StatsMsg t x]"
  by (simp_all add: notifyStatus_def notifyStats_def)

lemma remove_pending_simps [simp]:
  "of_entries (remove_pending t s) = of_entries s" "of_tunnels (remove_pending t s) = of_tunnels s"
  "of_conns (remove_pending t s) = of_conns s" "of_pending (remove_pending t s) = removeAll t (of_pending s)"
  "of_statsTimer (remove_pending t s) = of_statsTimer s" "of_out (remove_pending t s) = of_out s"
  by (simp_all add: remove_pending_def)

text \<open>What a settled connection changes: messages, and the set of pending starts.\<close>

lemma connect_settled_simps [simp]:
  "of_entries (connect_settled k s) = of_entries s" "of_tunnels (connect_settled k s) = of_tunnels s"
  "of_conns (connect_settled k s) = of_conns s" "of_statsTimer (connect_settled k s) = of_statsTimer s"
  "of_pending (connect_settled k s) =
     (if oc_initial (cnn s k) then removeAll (ent_id s (oc_entry (cnn s k))) (of_pending s) else of_pending s)"
  by (simp_all add: connect_settled_def Let_def split: promise.split)

section \<open>The invariant\<close>

text \<open>An entry with a connection or an armed timer is the one the map has for its id.\<close>

definition entry_ok :: "offscreen \<Rightarrow> nat \<Rightarrow> bool" where
  "entry_ok s e \<longleftrightarrow>
     (\<forall>k. oe_connection (ent s e) = Some k \<longrightarrow>
        k < length (of_conns s) \<and> oc_entry (cnn s k) = e \<and> oe_attempts (ent s e) = 0
        \<and> jget (of_tunnels s) (ent_id s e) = Some e)
     \<and> (\<forall>d. oe_timer (ent s e) = Some d \<longrightarrow> d = 1000 \<and> jget (of_tunnels s) (ent_id s e) = Some e)"

definition map_ok :: "offscreen \<Rightarrow> bool" where
  "map_ok s \<longleftrightarrow> jok (of_tunnels s) \<and> (of_statsTimer s \<longleftrightarrow> of_tunnels s \<noteq> [])
     \<and> (\<forall>tid e. jget (of_tunnels s) tid = Some e \<longrightarrow> e < length (of_entries s) \<and> ent_id s e = tid)
     \<and> (\<forall>k < length (of_conns s). oc_entry (cnn s k) < length (of_entries s))"

fun msg_ok :: "off_msg \<Rightarrow> bool" where
  "msg_ok (StatusMsg t st (ReconnectIn d) ep) \<longleftrightarrow> d = 1000"
| "msg_ok _ \<longleftrightarrow> True"

definition off_inv :: "offscreen \<Rightarrow> bool" where
  "off_inv s \<longleftrightarrow> map_ok s \<and> (\<forall>e < length (of_entries s). entry_ok s e) \<and> list_all msg_ok (of_out s)"

lemma off_inv_cong:
  assumes "of_entries s' = of_entries s" "of_tunnels s' = of_tunnels s" "of_conns s' = of_conns s"
    and "of_statsTimer s' = of_statsTimer s" "off_inv s" "list_all msg_ok (of_out s')"
  shows "off_inv s'"
  using assms by (simp add: off_inv_def map_ok_def entry_ok_def)

lemma off_inv_notify: "off_inv s \<Longrightarrow> msg_ok (StatusMsg t st n ep) \<Longrightarrow> off_inv (notifyStatus t st n ep s)"
  by (rule off_inv_cong [of _ s]) (simp_all add: off_inv_def)

lemma off_inv_settled: "off_inv s \<Longrightarrow> off_inv (connect_settled k s)"
proof (rule off_inv_cong [of _ s])
  assume "off_inv s"
  then show "list_all msg_ok (of_out (connect_settled k s))"
    by (auto simp: off_inv_def connect_settled_def Let_def split: promise.split)
qed simp_all

lemma off_inv_set_conn: "off_inv s \<Longrightarrow> off_inv (set_conn k c s)"
  by (simp add: off_inv_def map_ok_def entry_ok_def)

text \<open>Changing one entry.\<close>

lemma off_inv_upd_entry:
  assumes "off_inv s" "oe_config (f (ent s e)) = oe_config (ent s e)"
    and "\<And>k. oe_connection (f (ent s e)) = Some k \<Longrightarrow>
      k < length (of_conns s) \<and> oc_entry (cnn s k) = e \<and> oe_attempts (f (ent s e)) = 0
      \<and> jget (of_tunnels s) (ent_id s e) = Some e"
    and "\<And>d. oe_timer (f (ent s e)) = Some d \<Longrightarrow> d = 1000 \<and> jget (of_tunnels s) (ent_id s e) = Some e"
  shows "off_inv (upd_entry e f s)"
proof -
  have cfg: "oe_config (ent (upd_entry e f s) e') = oe_config (ent s e')" for e'
    using assms(2) by (cases "e < length (of_entries s)"; cases "e' = e"; simp add: upd_entry_def list_update_beyond)
  have "map_ok (upd_entry e f s)" using assms(1) by (simp add: off_inv_def map_ok_def cfg)
  moreover have "entry_ok (upd_entry e f s) e'" if "e' < length (of_entries s)" for e'
    using assms that by (cases "e' = e") (simp_all add: off_inv_def entry_ok_def cfg)
  ultimately show ?thesis using assms(1) by (simp add: off_inv_def)
qed

lemma entry_facts:
  assumes "off_inv s" "e < length (of_entries s)"
  shows "oe_connection (ent s e) = Some k \<Longrightarrow>
      k < length (of_conns s) \<and> oc_entry (cnn s k) = e \<and> oe_attempts (ent s e) = 0
      \<and> jget (of_tunnels s) (ent_id s e) = Some e"
    "oe_timer (ent s e) = Some d \<Longrightarrow> d = 1000 \<and> jget (of_tunnels s) (ent_id s e) = Some e"
  using assms by (auto simp: off_inv_def entry_ok_def)

lemma off_inv_frame_entry:
  assumes "off_inv s" "e < length (of_entries s)"
    and "oe_config (f (ent s e)) = oe_config (ent s e)" "oe_connection (f (ent s e)) = oe_connection (ent s e)"
    and "oe_attempts (f (ent s e)) = oe_attempts (ent s e)"
    and "oe_timer (f (ent s e)) = oe_timer (ent s e) \<or> oe_timer (f (ent s e)) = None"
  shows "off_inv (upd_entry e f s)"
proof (rule off_inv_upd_entry)
  show "off_inv s" "oe_config (f (ent s e)) = oe_config (ent s e)" by (fact assms)+
  show "k < length (of_conns s) \<and> oc_entry (cnn s k) = e \<and> oe_attempts (f (ent s e)) = 0
      \<and> jget (of_tunnels s) (ent_id s e) = Some e" if "oe_connection (f (ent s e)) = Some k" for k
    using entry_facts(1) [OF assms(1,2), of k] that assms(4,5) by simp
  show "d = 1000 \<and> jget (of_tunnels s) (ent_id s e) = Some e" if "oe_timer (f (ent s e)) = Some d" for d
    using entry_facts(2) [OF assms(1,2), of d] that assms(6) by auto
qed

lemma off_inv_onClose: "off_inv s \<Longrightarrow> k < length (of_conns s) \<Longrightarrow> off_inv (conn_onClose k s)"
proof -
  assume inv: "off_inv s" and k: "k < length (of_conns s)"
  let ?e = "oc_entry (cnn s k)"
  show "off_inv (conn_onClose k s)"
  proof (cases "oe_connection (ent s ?e) = Some k \<and> jget (of_tunnels s) (ent_id s ?e) \<noteq> None")
    case True
    have e: "?e < length (of_entries s)" using inv k by (simp add: off_inv_def map_ok_def)
    note f = entry_facts(1) [OF inv e]
    have delay: "reconnect_delay (oe_attempts (ent s ?e)) = 1000" using f True by (simp add: reconnect_delay_def)
    let ?s1 = "upd_entry ?e (\<lambda>en. en\<lparr>oe_connection := None, oe_attempts := oe_attempts en + 1\<rparr>) s"
    have i1: "off_inv ?s1" using inv entry_facts(2) [OF inv e] by (intro off_inv_upd_entry) auto
    let ?s2 = "notifyStatus (ent_id s ?e) StConnecting (ReconnectIn 1000) None ?s1"
    have i2: "off_inv ?s2" using i1 by (intro off_inv_notify) simp_all
    have "off_inv (upd_entry ?e (\<lambda>en. en\<lparr>oe_timer := Some 1000\<rparr>) ?s2)"
      using f True e by (intro off_inv_upd_entry [OF i2]) auto
    then show ?thesis unfolding conn_onClose_def Let_def delay using True by simp
  next
    case False
    then have "conn_onClose k s = s" by (auto simp: conn_onClose_def Let_def)
    then show ?thesis using inv by simp
  qed
qed

lemma handle_outs_conns [simp]:
  "of_conns (handle_outs k outs s) = of_conns s"
  by (induction k outs s rule: handle_outs.induct) (simp_all add: conn_onClose_def Let_def)

lemma off_inv_handle_outs: "off_inv s \<Longrightarrow> k < length (of_conns s) \<Longrightarrow> off_inv (handle_outs k outs s)"
proof (induction k outs s rule: handle_outs.induct)
  case (2 k outs s)
  then show ?case using off_inv_onClose [of s k] handle_outs_conns [of k "[CloseCallback]" s] by simp
qed simp_all

lemma off_inv_conn_apply: "off_inv s \<Longrightarrow> k < length (of_conns s) \<Longrightarrow> off_inv (conn_apply k f s)"
  by (auto simp: conn_apply_def Let_def case_prod_unfold
      intro!: off_inv_settled off_inv_handle_outs off_inv_set_conn)

section \<open>Starting and stopping keep it\<close>

lemma off_inv_add_conn:
  assumes "off_inv s" "e < length (of_entries s)"
  shows "off_inv (s\<lparr>of_conns := of_conns s @ [\<lparr>oc_conn = c, oc_entry = e, oc_initial = i\<rparr>]\<rparr>)"
  using assms by (auto simp: off_inv_def map_ok_def entry_ok_def nth_append less_Suc_eq)

lemma off_inv_remove_pending: "off_inv s \<Longrightarrow> off_inv (remove_pending t s)"
  by (rule off_inv_cong [of _ s]) (simp_all add: off_inv_def)

lemma off_inv_connect:
  assumes "off_inv s" "e < length (of_entries s)" "jget (of_tunnels s) (ent_id s e) = Some e"
  shows "off_inv (connect_entry i cs e s)"
proof -
  let ?s1 = "notifyStatus (ent_id s e) StConnecting NoNote None s"
  have i1: "off_inv ?s1" using assms(1) by (intro off_inv_notify) simp_all
  show ?thesis
  proof (cases "connection_config (oe_config (ent s e))")
    case None
    then show ?thesis using i1 off_inv_remove_pending [OF i1] by (simp add: connect_entry_def Let_def)
  next
    case (Some tc)
    let ?c = "connect cs (new_conn tc)"
    let ?s2 = "?s1\<lparr>of_conns := of_conns ?s1 @ [\<lparr>oc_conn = ?c, oc_entry = e, oc_initial = i\<rparr>]\<rparr>"
    let ?s3 = "upd_entry e (\<lambda>en. en\<lparr>oe_connection := Some (length (of_conns s)), oe_attempts := 0\<rparr>) ?s2"
    have i2: "off_inv ?s2" using off_inv_add_conn [OF i1] assms(2) by simp
    have "off_inv ?s3"
      using entry_facts(2) [OF assms(1,2)] assms(2,3) by (intro off_inv_upd_entry [OF i2]) auto
    then show ?thesis using Some off_inv_settled by (simp add: connect_entry_def Let_def)
  qed
qed

text \<open>
  Closing the connection of an entry that is no longer in the map: its close callback finds
  nothing to reconnect, so only the connection changes.
\<close>

lemma handle_outs_idle: "conn_onClose k s = s \<Longrightarrow> handle_outs k outs s = s"
  by (induction k outs s rule: handle_outs.induct) simp_all

lemma conn_apply_close:
  assumes "jget (of_tunnels s) (ent_id s (oc_entry (cnn s k))) = None"
  shows "conn_apply k close_conn s = set_conn k (fst (close_conn (oc_conn (cnn s k)))) s"
proof -
  let ?c = "fst (close_conn (oc_conn (cnn s k)))"
  have "conn_onClose k (set_conn k ?c s) = set_conn k ?c s" using assms by (simp add: conn_onClose_def Let_def)
  then show ?thesis by (simp add: conn_apply_def Let_def case_prod_unfold handle_outs_idle)
qed

definition stopped_entry :: "off_entry \<Rightarrow> off_entry" where
  "stopped_entry en = en\<lparr>oe_timer := None, oe_stats := reset_stats (oe_stats en), oe_connection := None\<rparr>"

definition close_opt :: "nat option \<Rightarrow> offscreen \<Rightarrow> offscreen" where
  "close_opt k s = (case k of None \<Rightarrow> s | Some k \<Rightarrow> set_conn k (fst (close_conn (oc_conn (cnn s k)))) s)"

lemma close_opt_simps [simp]:
  "length (of_conns (close_opt k s)) = length (of_conns s)" "of_entries (close_opt k s) = of_entries s"
  "of_tunnels (close_opt k s) = of_tunnels s" "of_pending (close_opt k s) = of_pending s"
  "of_statsTimer (close_opt k s) = of_statsTimer s" "of_out (close_opt k s) = of_out s"
  "oc_entry (cnn (close_opt k s) j) = oc_entry (cnn s j)"
  by (simp_all add: close_opt_def split: option.split)

lemma upd_entry_twice: "upd_entry e f (upd_entry e g s) = upd_entry e (\<lambda>x. f (g x)) s"
  by (cases "e < length (of_entries s)") (simp_all add: upd_entry_def list_update_beyond)

lemma stopTunnel_eq:
  assumes "off_inv s" "jget (of_tunnels s) tid = Some e"
  shows "stopTunnel tid s = notifyStatus tid StStopped NoNote None
    (close_opt (oe_connection (ent s e)) (upd_entry e stopped_entry
      (s\<lparr>of_tunnels := jdelete tid (of_tunnels s),
         of_statsTimer := (of_statsTimer s \<and> jdelete tid (of_tunnels s) \<noteq> [])\<rparr>)))"
proof -
  have e: "e < length (of_entries s)" "ent_id s e = tid" using assms by (auto simp: off_inv_def map_ok_def)
  let ?f = "\<lambda>en. en\<lparr>oe_timer := None, oe_stats := reset_stats (oe_stats en)\<rparr>"
  let ?t = "s\<lparr>of_tunnels := jdelete tid (of_tunnels s),
      of_statsTimer := (of_statsTimer s \<and> jdelete tid (of_tunnels s) \<noteq> [])\<rparr>"
  let ?s3 = "upd_entry e ?f ?t"
  have s3: "forget_tunnel tid e s = ?s3"
    by (simp add: forget_tunnel_def Let_def upd_entry_def stopStatsSampler_def)
  have c: "oe_connection (ent ?s3 e) = oe_connection (ent s e)" using e by simp
  have f: "upd_entry e (\<lambda>en. en\<lparr>oe_connection := None\<rparr>) ?s3 = upd_entry e stopped_entry ?t"
    unfolding upd_entry_twice by (simp add: upd_entry_def stopped_entry_def)
  show ?thesis
  proof (cases "oe_connection (ent s e)")
    case None
    have "stopped_entry (ent s e) = ?f (ent s e)"
      using None by (cases "ent s e") (simp add: stopped_entry_def)
    then have "upd_entry e stopped_entry ?t = ?s3" by (simp add: upd_entry_def)
    then show ?thesis
      using c None by (simp add: stopTunnel_def Let_def close_opt_def assms(2) s3 del: upd_entry_simps)
  next
    case (Some k)
    have k: "k < length (of_conns s)" "oc_entry (cnn s k) = e" using entry_facts(1) [OF assms(1) e(1) Some] by auto
    have del: "jget (of_tunnels ?s3) (ent_id ?s3 (oc_entry (cnn ?s3 k))) = None"
      using k e by (simp add: jm.get_del)
    have cl: "conn_apply k close_conn ?s3 = set_conn k (fst (close_conn (oc_conn (cnn s k)))) ?s3"
      by (subst conn_apply_close [OF del]) (simp add: upd_entry_def)
    have comm: "upd_entry e g (set_conn k x ?s3) = set_conn k x (upd_entry e g ?s3)" for g x
      by (simp add: upd_entry_def set_conn_def)
    show ?thesis
      using c Some cl
      by (simp add: stopTunnel_def Let_def close_opt_def assms(2) s3 comm f del: upd_entry_simps)
        (simp add: upd_entry_def)
  qed
qed

lemma off_inv_stop: "off_inv s \<Longrightarrow> off_inv (stopTunnel tid s)"
proof (cases "jget (of_tunnels s) tid")
  case None
  then show "off_inv s \<Longrightarrow> off_inv (stopTunnel tid s)" by (simp add: stopTunnel_def)
next
  case (Some e)
  assume inv: "off_inv s"
  have e: "e < length (of_entries s)" "ent_id s e = tid" using inv Some by (auto simp: off_inv_def map_ok_def)
  let ?t = "s\<lparr>of_tunnels := jdelete tid (of_tunnels s),
      of_statsTimer := (of_statsTimer s \<and> jdelete tid (of_tunnels s) \<noteq> [])\<rparr>"
  let ?s = "close_opt (oe_connection (ent s e)) (upd_entry e stopped_entry ?t)"
  have "map_ok ?s"
    using inv e unfolding off_inv_def map_ok_def
    by (auto simp: jm.get_del upd_entry_def nth_list_update stopped_entry_def distinct_delete split: if_splits)
  moreover have "entry_ok ?s e'" if e': "e' < length (of_entries s)" for e'
  proof (cases "e' = e")
    case True
    then show ?thesis using e by (simp add: entry_ok_def stopped_entry_def)
  next
    case False
    have ok: "entry_ok s e'" using inv e' by (simp add: off_inv_def)
    have "jget (jdelete tid (of_tunnels s)) (ent_id s e') = Some e'"
      if "jget (of_tunnels s) (ent_id s e') = Some e'"
      using that Some False by (auto simp: jm.get_del)
    then show ?thesis using ok False unfolding entry_ok_def by simp
  qed
  ultimately have "off_inv ?s" using inv by (simp add: off_inv_def)
  then show "off_inv (stopTunnel tid s)" unfolding stopTunnel_eq [OF inv Some] by (intro off_inv_notify) simp_all
qed

lemma off_inv_start:
  assumes "off_inv s"
  shows "off_inv (startTunnel config cs s)"
proof (cases "tg_id config \<in> set (of_pending s)")
  case False
  let ?tid = "tg_id config"
  let ?s1 = "s\<lparr>of_pending := ?tid # of_pending s\<rparr>"
  define s2 where "s2 = (if jget (of_tunnels ?s1) ?tid \<noteq> None then stopTunnel ?tid ?s1 else ?s1)"
  have i1: "off_inv ?s1" by (rule off_inv_cong [of _ s]) (use assms in \<open>simp_all add: off_inv_def\<close>)
  then have i2: "off_inv s2" using off_inv_stop [OF i1] by (simp add: s2_def)
  have gone: "jget (of_tunnels s2) ?tid = None"
  proof (cases "jget (of_tunnels ?s1) ?tid")
    case (Some e)
    then show ?thesis unfolding s2_def using stopTunnel_eq [OF i1 Some] by (simp add: jm.get_del)
  qed (simp add: s2_def)
  let ?e = "length (of_entries s2)"
  let ?en = "\<lparr>oe_config = config, oe_connection = None, oe_timer = None, oe_attempts = 0, oe_stats = new_stats\<rparr>"
  let ?s3 = "s2\<lparr>of_entries := of_entries s2 @ [?en], of_tunnels := jset ?tid ?e (of_tunnels s2)\<rparr>"
  let ?s4 = "startStatsSampler ?s3"
  have "map_ok ?s4"
    using i2 by (auto simp: off_inv_def map_ok_def startStatsSampler_def jm.get_put nth_append distinct_update
        intro: less_SucI split: if_splits)
  moreover have "entry_ok ?s4 e" if e: "e < length (of_entries ?s4)" for e
  proof (cases "e = ?e")
    case True
    then show ?thesis by (simp add: entry_ok_def startStatsSampler_def)
  next
    case F: False
    then have "entry_ok s2 e" "e < length (of_entries s2)" using i2 e by (auto simp: off_inv_def startStatsSampler_def)
    then show ?thesis using gone by (auto simp: entry_ok_def startStatsSampler_def nth_append jm.get_put)
  qed
  ultimately have "off_inv ?s4" using i2 by (simp add: off_inv_def startStatsSampler_def)
  then have "off_inv (connect_entry True cs ?e ?s4)"
    by (rule off_inv_connect) (simp_all add: startStatsSampler_def jm.get_put)
  then show ?thesis using False by (simp add: startTunnel_def Let_def s2_def)
qed (simp add: startTunnel_def Let_def assms)

lemma off_inv_sample: "off_inv s \<Longrightarrow> snd x < length (of_entries s) \<Longrightarrow> off_inv (sample_entry now x s)"
proof -
  assume inv: "off_inv s" and e: "snd x < length (of_entries s)"
  obtain tid i where x: "x = (tid, i)" by (cases x)
  obtain st snap where sm: "sample now 1 (oe_stats (ent s i)) = (st, snap)" by fastforce
  let ?s1 = "upd_entry i (\<lambda>en. en\<lparr>oe_stats := st\<rparr>) s"
  have i1: "off_inv ?s1" using e by (intro off_inv_frame_entry [OF inv]) (simp_all add: x)
  have "off_inv (notifyStats tid snap ?s1)"
    by (rule off_inv_cong [of _ ?s1]) (use i1 in \<open>simp_all add: off_inv_def\<close>)
  then show "off_inv (sample_entry now x s)" using i1 by (simp add: sample_entry_def x sm Let_def)
qed

lemma off_inv_sample_fold:
  "off_inv s \<Longrightarrow> \<forall>x \<in> set xs. snd x < length (of_entries s) \<Longrightarrow> off_inv (fold (sample_entry now) xs s)"
proof (induction xs arbitrary: s)
  case (Cons x xs)
  have "length (of_entries (sample_entry now x s)) = length (of_entries s)"
    by (simp add: sample_entry_def Let_def case_prod_unfold)
  then show ?case using Cons off_inv_sample [of s x now] by simp
qed simp

lemma off_inv_step: "off_inv s \<Longrightarrow> off_inv (off_step ev s)"
proof (cases ev)
  case (TimerFires e cs)
  assume inv: "off_inv s"
  show "off_inv (off_step ev s)"
  proof (cases "e < length (of_entries s) \<and> oe_timer (ent s e) \<noteq> None")
    case True
    then obtain d where d: "oe_timer (ent s e) = Some d" by auto
    have "jget (of_tunnels s) (ent_id s e) = Some e" using entry_facts(2) [OF inv _ d] True by simp
    moreover have "off_inv (upd_entry e (\<lambda>en. en\<lparr>oe_timer := None\<rparr>) s)"
      using True by (intro off_inv_frame_entry [OF inv]) simp_all
    ultimately show ?thesis using True by (simp add: TimerFires off_inv_connect)
  next
    case False
    then have "off_step ev s = s" unfolding TimerFires off_step.simps by (rule if_not_P)
    then show ?thesis using inv by simp
  qed
next
  case (SampleTick now)
  assume inv: "off_inv s"
  then have "\<forall>x \<in> set (of_tunnels s). snd x < length (of_entries s)"
    by (auto simp: off_inv_def map_ok_def)
  then show "off_inv (off_step ev s)" using inv by (simp add: SampleTick sampleAllStats_def off_inv_sample_fold)
next
  case (ResetMsg now tid)
  assume inv: "off_inv s"
  show "off_inv (off_step ev s)"
  proof (cases "jget (of_tunnels s) tid")
    case (Some e)
    obtain st snap where sm: "sample now 1 (reset_stats (oe_stats (ent s e))) = (st, snap)" by fastforce
    let ?s1 = "upd_entry e (\<lambda>en. en\<lparr>oe_stats := st\<rparr>) s"
    have i1: "off_inv ?s1" using inv Some by (intro off_inv_frame_entry [OF inv]) (auto simp: off_inv_def map_ok_def)
    have "off_inv (notifyStats tid snap ?s1)"
      by (rule off_inv_cong [of _ ?s1]) (use i1 in \<open>simp_all add: off_inv_def\<close>)
    then show ?thesis using Some sm by (simp add: ResetMsg resetStats_def)
  qed (use inv in \<open>simp add: ResetMsg resetStats_def\<close>)
next
  case (StatsActivity e x)
  then show "off_inv s \<Longrightarrow> off_inv (off_step ev s)" by (simp add: off_inv_frame_entry)
qed (simp_all add: off_inv_start off_inv_stop off_inv_conn_apply)

lemma off_inv_run: "off_inv s \<Longrightarrow> off_inv (off_run evs s)"
  by (induction evs arbitrary: s) (simp_all add: off_inv_step)

lemma off_inv_new: "off_inv new_offscreen"
  by (simp add: off_inv_def map_ok_def new_offscreen_def)

text \<open>
  C14. In every state the host can reach, an entry that holds a connection or an armed timer is
  the running one for its id: a stopped or replaced tunnel never comes back by itself; and the
  statistics timer runs exactly while there are tunnels.
\<close>

theorem host_invariant:
  assumes "s = off_run evs new_offscreen" "e < length (of_entries s)"
    and "oe_connection (ent s e) \<noteq> None \<or> oe_timer (ent s e) \<noteq> None"
  shows "jget (of_tunnels s) (ent_id s e) = Some e \<and> of_statsTimer s"
proof -
  have inv: "off_inv s" unfolding assms(1) by (intro off_inv_run off_inv_new)
  have "jget (of_tunnels s) (ent_id s e) = Some e"
    using assms(3) entry_facts [OF inv assms(2)] by blast
  moreover from this have "of_tunnels s \<noteq> []" by auto
  then have "of_statsTimer s" using inv by (simp add: off_inv_def map_ok_def)
  ultimately show ?thesis by blast
qed

text \<open>
  The announced exponential back-off never grows: every delay the host ever reports before
  reconnecting is one second, because each attempt resets the counter when it begins.
\<close>

theorem backoff_never_grows:
  assumes "StatusMsg tid st (ReconnectIn d) ep \<in> set (of_out (off_run evs new_offscreen))"
  shows "d = 1000"
proof -
  have "list_all msg_ok (of_out (off_run evs new_offscreen))"
    using off_inv_run [OF off_inv_new] by (simp add: off_inv_def)
  then have "msg_ok (StatusMsg tid st (ReconnectIn d) ep)" using assms by (auto simp: list_all_iff)
  then show ?thesis by simp
qed

section \<open>A start that is blocked for ever\<close>

text \<open>
  A connection that was closed while it waited: its promise stays pending. \<open>stuck\<close>: the start
  of this tunnel still counts as in flight because of connection \<open>k0\<close>, and no other
  connection of the tunnel can end that.
\<close>

definition stalled :: "conn \<Rightarrow> bool" where
  "stalled c \<longleftrightarrow> cn_promise c = Pending \<and> cn_closed c \<and> cn_socket c \<noteq> Connecting"

definition stuck :: "nat \<Rightarrow> jstr \<Rightarrow> offscreen \<Rightarrow> bool" where
  "stuck k0 tid s \<longleftrightarrow>
     tid \<in> set (of_pending s) \<and> jget (of_tunnels s) tid = None
     \<and> k0 < length (of_conns s) \<and> stalled (oc_conn (cnn s k0))
     \<and> ent_id s (oc_entry (cnn s k0)) = tid
     \<and> (\<forall>k < length (of_conns s). oc_entry (cnn s k) < length (of_entries s)
          \<and> (k \<noteq> k0 \<longrightarrow> ent_id s (oc_entry (cnn s k)) = tid \<longrightarrow> cn_promise (oc_conn (cnn s k)) \<noteq> Pending))"

lemma stuck_cong:
  assumes "stuck k0 tid s" "of_tunnels s' = of_tunnels s" "of_conns s' = of_conns s"
    and "length (of_entries s') = length (of_entries s)" "\<And>e. oe_config (ent s' e) = oe_config (ent s e)"
    and "tid \<in> set (of_pending s')"
  shows "stuck k0 tid s'"
  using assms by (simp add: stuck_def)

lemma upd_entry_config:
  "(\<And>x. oe_config (f x) = oe_config x) \<Longrightarrow> oe_config (ent (upd_entry e f s) e') = oe_config (ent s e')"
  by (cases "e < length (of_entries s)"; cases "e' = e"; simp add: upd_entry_def list_update_beyond)

lemma stuck_onClose: "stuck k0 tid s \<Longrightarrow> stuck k0 tid (conn_onClose k s)"
proof -
  assume st: "stuck k0 tid s"
  then have "tid \<in> set (of_pending (conn_onClose k s))" by (simp add: stuck_def conn_onClose_def Let_def)
  moreover have "oe_config (ent (conn_onClose k s) e) = oe_config (ent s e)" for e
    by (simp add: conn_onClose_def Let_def upd_entry_config)
  ultimately show ?thesis using st by (intro stuck_cong [OF st]) (simp_all add: conn_onClose_def Let_def)
qed

lemma stuck_handle_outs: "stuck k0 tid s \<Longrightarrow> stuck k0 tid (handle_outs k outs s)"
  by (induction k outs s rule: handle_outs.induct) (simp_all add: stuck_onClose)

lemma stuck_settled:
  assumes "stuck k0 tid s" "ent_id s (oc_entry (cnn s k)) \<noteq> tid"
  shows "stuck k0 tid (connect_settled k s)"
  using assms by (intro stuck_cong [OF assms(1)]) (auto simp: stuck_def)

lemma stuck_set_conn:
  assumes "stuck k0 tid s" "k < length (of_conns s)"
    and "k = k0 \<Longrightarrow> stalled c" "k \<noteq> k0 \<Longrightarrow> ent_id s (oc_entry (cnn s k)) = tid \<Longrightarrow> cn_promise c \<noteq> Pending"
  shows "stuck k0 tid (set_conn k c s)"
proof -
  have "stalled (oc_conn (cnn (set_conn k c s) k0))"
    using assms by (cases "k = k0") (simp_all add: stuck_def)
  moreover have "cn_promise (oc_conn (cnn (set_conn k c s) j)) \<noteq> Pending"
    if "j < length (of_conns s)" "j \<noteq> k0" "ent_id s (oc_entry (cnn s j)) = tid" for j
    using assms that by (cases "j = k") (auto simp: stuck_def)
  ultimately show ?thesis using assms(1) by (simp add: stuck_def)
qed

lemma handle_outs_config: "oe_config (ent (handle_outs k outs s) e) = oe_config (ent s e)"
proof (induction k outs s rule: handle_outs.induct)
  case (2 k outs s)
  have "oe_config (ent (conn_onClose k s) e) = oe_config (ent s e)"
    by (simp add: conn_onClose_def Let_def upd_entry_config)
  then show ?case using 2 by simp
qed simp_all

lemma stuck_conn_apply:
  assumes "stuck k0 tid s" "k < length (of_conns s)"
    and "k = k0 \<Longrightarrow> stalled (fst (f (oc_conn (cnn s k))))"
    and "cn_promise (oc_conn (cnn s k)) \<noteq> Pending \<Longrightarrow> cn_promise (fst (f (oc_conn (cnn s k)))) \<noteq> Pending"
  shows "stuck k0 tid (conn_apply k f s)"
proof -
  let ?c = "oc_conn (cnn s k)" and ?c' = "fst (f (oc_conn (cnn s k)))"
  let ?outs = "snd (f (oc_conn (cnn s k)))"
  have "stuck k0 tid (set_conn k ?c' s)"
    using assms by (intro stuck_set_conn) (auto simp: stuck_def)
  then have s1: "stuck k0 tid (handle_outs k ?outs (set_conn k ?c' s))" by (rule stuck_handle_outs)
  show ?thesis
  proof (cases "cn_promise ?c = Pending \<and> cn_promise ?c' \<noteq> Pending")
    case True
    then have "k \<noteq> k0" using assms(3) by (auto simp: stalled_def)
    then have "ent_id s (oc_entry (cnn s k)) \<noteq> tid" using assms(1,2) True by (auto simp: stuck_def)
    then show ?thesis
      using True stuck_settled [OF s1, of k] by (simp add: conn_apply_def Let_def case_prod_unfold handle_outs_config)
  next
    case False
    then show ?thesis using s1 by (auto simp: conn_apply_def Let_def case_prod_unfold)
  qed
qed

text \<open>A connection steps without settling if it is stalled, and never unsettles.\<close>

lemma stalled_step: "stalled c \<Longrightarrow> enabled ev c \<Longrightarrow> ev \<noteq> SocketError \<Longrightarrow> stalled (fst (conn_step ev c))"
  by (cases ev) (auto simp: stalled_def enabled_def ws_onmessage_def ws_onclose_def onSmuxClose_def Let_def split: if_splits)

lemma promise_settled_step: "cn_promise c \<noteq> Pending \<Longrightarrow> cn_promise (fst (conn_step ev c)) \<noteq> Pending"
  by (cases ev)
    (auto simp: ws_onopen_def sendBind_def ws_onmessage_def ws_onclose_def ws_onerror_def onSmuxClose_def Let_def
      split: sum.split)

lemma stuck_connect:
  assumes "stuck k0 tid s" "e < length (of_entries s)" "ent_id s e \<noteq> tid"
  shows "stuck k0 tid (connect_entry i cs e s)"
proof -
  let ?s1 = "notifyStatus (ent_id s e) StConnecting NoNote None s"
  have s1: "stuck k0 tid ?s1" using assms(1) by (intro stuck_cong [OF assms(1)]) (auto simp: stuck_def)
  show ?thesis
  proof (cases "connection_config (oe_config (ent s e))")
    case None
    have "stuck k0 tid (remove_pending (ent_id s e) ?s1)"
      using assms s1 by (intro stuck_cong [OF s1]) (auto simp: stuck_def)
    then show ?thesis using s1 None by (simp add: connect_entry_def Let_def)
  next
    case (Some tc)
    let ?k = "length (of_conns s)"
    let ?s2 = "?s1\<lparr>of_conns := of_conns ?s1 @ [\<lparr>oc_conn = connect cs (new_conn tc), oc_entry = e, oc_initial = i\<rparr>]\<rparr>"
    let ?s3 = "upd_entry e (\<lambda>en. en\<lparr>oe_connection := Some ?k, oe_attempts := 0\<rparr>) ?s2"
    have s2: "stuck k0 tid ?s2" using s1 assms(2,3) by (auto simp: stuck_def nth_append less_Suc_eq)
    have s3: "stuck k0 tid ?s3"
      using s2 by (intro stuck_cong [OF s2]) (auto simp: stuck_def upd_entry_config)
    have "ent_id ?s3 (oc_entry (cnn ?s3 ?k)) \<noteq> tid" using assms(2,3) by (simp add: upd_entry_config)
    then show ?thesis using Some s3 stuck_settled [OF s3] by (simp add: connect_entry_def Let_def)
  qed
qed

lemma stuck_stop:
  assumes "stuck k0 tid s" "off_inv s"
  shows "stuck k0 tid (stopTunnel t s)"
proof (cases "jget (of_tunnels s) t")
  case (Some e)
  have t: "t \<noteq> tid" using assms(1) Some by (auto simp: stuck_def)
  have e: "e < length (of_entries s)" "ent_id s e = t" using assms(2) Some by (auto simp: off_inv_def map_ok_def)
  let ?t = "s\<lparr>of_tunnels := jdelete t (of_tunnels s),
      of_statsTimer := (of_statsTimer s \<and> jdelete t (of_tunnels s) \<noteq> [])\<rparr>"
  let ?u = "upd_entry e stopped_entry ?t"
  have cfg: "oe_config (ent ?u e') = oe_config (ent s e')" for e'
    using upd_entry_config [of stopped_entry e ?t e'] by (simp add: stopped_entry_def)
  have u: "stuck k0 tid ?u" using assms(1) t by (simp add: stuck_def cfg jm.get_del)
  have "stuck k0 tid (close_opt (oe_connection (ent s e)) ?u)"
  proof (cases "oe_connection (ent s e)")
    case (Some k)
    have k: "k < length (of_conns s)" "oc_entry (cnn s k) = e" using entry_facts(1) [OF assms(2) e(1) Some] by auto
    then have "k \<noteq> k0" using assms(1) e(2) t by (auto simp: stuck_def)
    then have "stuck k0 tid (set_conn k (fst (close_conn (oc_conn (cnn ?u k)))) ?u)"
      using k e(2) t by (intro stuck_set_conn [OF u]) (simp_all add: cfg)
    then show ?thesis by (simp add: close_opt_def Some)
  qed (simp add: close_opt_def u)
  then show ?thesis unfolding stopTunnel_eq [OF assms(2) Some] by (rule stuck_cong) (simp_all add: stuck_def assms(1) [unfolded stuck_def])
qed (use assms in \<open>simp add: stopTunnel_def\<close>)

lemma stuck_start:
  assumes "stuck k0 tid s" "off_inv s"
  shows "stuck k0 tid (startTunnel config cs s)"
proof (cases "tg_id config \<in> set (of_pending s)")
  case False
  let ?t = "tg_id config"
  have t: "?t \<noteq> tid" using False assms(1) by (auto simp: stuck_def)
  let ?s1 = "s\<lparr>of_pending := ?t # of_pending s\<rparr>"
  define s2 where "s2 = (if jget (of_tunnels ?s1) ?t \<noteq> None then stopTunnel ?t ?s1 else ?s1)"
  have i1: "off_inv ?s1" by (rule off_inv_cong [of _ s]) (use assms(2) in \<open>simp_all add: off_inv_def\<close>)
  have "stuck k0 tid ?s1" using assms(1) by (intro stuck_cong [OF assms(1)]) (auto simp: stuck_def)
  then have st2: "stuck k0 tid s2" using stuck_stop [OF _ i1] by (simp add: s2_def)
  let ?e = "length (of_entries s2)"
  let ?en = "\<lparr>oe_config = config, oe_connection = None, oe_timer = None, oe_attempts = 0, oe_stats = new_stats\<rparr>"
  let ?s4 = "startStatsSampler (s2\<lparr>of_entries := of_entries s2 @ [?en], of_tunnels := jset ?t ?e (of_tunnels s2)\<rparr>)"
  have "stuck k0 tid ?s4"
    using st2 t by (auto simp: stuck_def startStatsSampler_def jm.get_put nth_append intro: less_SucI)
  then have "stuck k0 tid (connect_entry True cs ?e ?s4)"
    by (rule stuck_connect) (simp_all add: startStatsSampler_def t)
  then show ?thesis using False by (simp add: startTunnel_def Let_def s2_def)
qed (simp add: startTunnel_def Let_def assms)

lemma stuck_sample_fold: "stuck k0 tid s \<Longrightarrow> stuck k0 tid (fold (sample_entry now) xs s)"
proof (induction xs arbitrary: s)
  case (Cons x xs)
  have "stuck k0 tid (sample_entry now x s)"
    using Cons.prems by (intro stuck_cong [OF Cons.prems])
      (auto simp: sample_entry_def Let_def case_prod_unfold upd_entry_config stuck_def)
  then show ?case using Cons.IH by simp
qed simp

lemma stuck_step:
  assumes "stuck k0 tid s" "off_inv s" "ev \<noteq> ConnEvent k0 SocketError"
  shows "stuck k0 tid (off_step ev s)"
proof (cases ev)
  case (ConnEvent k x)
  show ?thesis
  proof (cases "k < length (of_conns s) \<and> x \<noteq> CloseCall \<and> enabled x (oc_conn (cnn s k))")
    case True
    then have "stuck k0 tid (conn_apply k (conn_step x) s)"
      using assms ConnEvent
      by (intro stuck_conn_apply) (auto simp: stuck_def intro: stalled_step dest: promise_settled_step)
    then show ?thesis using True ConnEvent by simp
  next
    case False
    then have "off_step ev s = s" unfolding ConnEvent off_step.simps by (rule if_not_P)
    then show ?thesis using assms(1) by simp
  qed
next
  case (TimerFires e cs)
  show ?thesis
  proof (cases "e < length (of_entries s) \<and> oe_timer (ent s e) \<noteq> None")
    case True
    then obtain d where d: "oe_timer (ent s e) = Some d" by auto
    have "jget (of_tunnels s) (ent_id s e) = Some e" using entry_facts(2) [OF assms(2) _ d] True by simp
    then have "ent_id s e \<noteq> tid" using assms(1) by (auto simp: stuck_def)
    moreover have "stuck k0 tid (upd_entry e (\<lambda>en. en\<lparr>oe_timer := None\<rparr>) s)"
      using assms(1) by (intro stuck_cong [OF assms(1)]) (auto simp: upd_entry_config stuck_def)
    ultimately show ?thesis using True by (simp add: TimerFires stuck_connect)
  next
    case False
    then have "off_step ev s = s" unfolding TimerFires off_step.simps by (rule if_not_P)
    then show ?thesis using assms(1) by simp
  qed
next
  case (ResetMsg now t)
  then show ?thesis
    using assms(1) by (auto simp: resetStats_def Let_def case_prod_unfold upd_entry_config stuck_def
        intro!: stuck_cong [OF assms(1)] split: option.split)
next
  case (StatsActivity e x)
  then show ?thesis
    using assms(1) by (auto simp: upd_entry_config stuck_def intro!: stuck_cong [OF assms(1)])
qed (use assms(1,2) in \<open>auto simp: stuck_start stuck_stop sampleAllStats_def stuck_sample_fold\<close>)

lemma stuck_run:
  "stuck k0 tid s \<Longrightarrow> off_inv s \<Longrightarrow> ConnEvent k0 SocketError \<notin> set evs \<Longrightarrow> stuck k0 tid (off_run evs s)"
  by (induction evs arbitrary: s) (auto simp: stuck_step off_inv_step)

text \<open>
  Stopping a tunnel while it waits for the relay's answer locks its id: the start still
  counts as in flight, so every later start of that tunnel is ignored, whatever happens in
  between, unless the closed socket reports an error.
\<close>

theorem stop_while_binding_locks:
  assumes "connection_config config = Some tc" "encodeRequest (bind_request tc) = Inr b"
    and "ConnEvent 0 SocketError \<notin> set evs" "tg_id config' = tg_id config"
    and "s = off_run ([StartMsg config True, ConnEvent 0 SocketOpen, StopMsg (tg_id config)] @ evs) new_offscreen"
  shows "startTunnel config' cs s = s"
proof -
  let ?s1 = "startTunnel config True new_offscreen"
  let ?c1 = "connect True (new_conn tc)"
  have e1: "of_tunnels ?s1 = [(tg_id config, 0)]" "of_pending ?s1 = [tg_id config]"
    "of_conns ?s1 = [\<lparr>oc_conn = ?c1, oc_entry = 0, oc_initial = True\<rparr>]"
    "length (of_entries ?s1) = 1" "oe_config (ent ?s1 0) = config" "oe_connection (ent ?s1 0) = Some 0"
    using assms(1)
    by (simp_all add: startTunnel_def new_offscreen_def connect_entry_def startStatsSampler_def Let_def
        connect_def new_conn_def notifyStatus_def upd_entry_def)
  let ?c2 = "ws_onopen ?c1"
  have c2: "cn_promise ?c2 = Pending" "cn_ws ?c2" "cn_socket ?c2 = Open"
    using assms(2) by (simp_all add: ws_onopen_def sendBind_def connect_def new_conn_def Let_def)
  have en: "enabled SocketOpen ?c1" "cn_promise ?c1 = Pending" by (simp_all add: enabled_def connect_def new_conn_def)
  let ?s2 = "set_conn 0 ?c2 ?s1"
  have step: "off_step (ConnEvent 0 SocketOpen) ?s1 = ?s2"
    using en c2 e1 by (simp add: conn_apply_def)
  have run: "off_run ([StartMsg config True, ConnEvent 0 SocketOpen, StopMsg (tg_id config)] @ evs) new_offscreen
      = off_run evs (stopTunnel (tg_id config) ?s2)" using step by simp
  have i2: "off_inv ?s2" by (intro off_inv_set_conn off_inv_start off_inv_new)
  have g: "jget (of_tunnels ?s2) (tg_id config) = Some 0" by (simp add: e1)
  have "stuck 0 (tg_id config) (stopTunnel (tg_id config) ?s2)"
    unfolding stopTunnel_eq [OF i2 g]
    using c2 e1 by (simp add: stuck_def stalled_def close_opt_def upd_entry_config stopped_entry_def)
  then have "stuck 0 (tg_id config) s" unfolding assms(5) run by (intro stuck_run off_inv_stop i2 assms(3))
  then show ?thesis using assms(4) by (simp add: startTunnel_def stuck_def)
qed

text \<open>A tunnel's configuration and its connection, for the witnesses.\<close>

definition demo_entry :: tunnel_entry_config where
  "demo_entry = \<lparr>tg_id = js ''a'', tg_idBytes = Some (replicate 20 7),
     tg_localEndpoint = dotted [10, 0, 0, 7] @ js '':80'', tg_entrypointDomain = [], tg_recordMode = None, tg_prefix = []\<rparr>"

lemma demo_entry_config:
  "\<exists>tc b. connection_config demo_entry = Some tc \<and> encodeRequest (bind_request tc) = Inr b"
proof -
  have "well_formed (js ''a'')" by (rule ascii_well_formed) (simp add: cu_def)
  then have "\<exists>url. entrypointFromUuid (js ''a'') d = Some url" for d
    by (simp add: entrypointFromUuid_def md5_def hexMD5_def rawMD5_def str2rstrUTF8_def)
  then obtain url where "entrypointFromUuid (tg_id demo_entry) (entry_domain demo_entry) = Some url"
    by (auto simp: demo_entry_def simp del: js_simps)
  then have c: "connection_config demo_entry = Some (demo_tunnel\<lparr>tc_entrypointUrl := Some url\<rparr>)"
    by (simp add: connection_config_def demo_entry_def demo_tunnel_def del: js_simps)
  have "bind_request (demo_tunnel\<lparr>tc_entrypointUrl := Some url\<rparr>) = bind_request demo_tunnel"
    by (simp add: bind_request_def)
  then show ?thesis using c demo_bind(5) by simp
qed

lemma demo_started:
  "let s = off_run [StartMsg demo_entry True] new_offscreen in
   length (of_entries s) = 1 \<and> oe_connection (ent s 0) = Some 0 \<and> ent_id s 0 = tg_id demo_entry"
proof -
  obtain tc where "connection_config demo_entry = Some tc" using demo_entry_config by blast
  then show ?thesis
    by (simp add: startTunnel_def new_offscreen_def connect_entry_def startStatsSampler_def Let_def
        connect_def new_conn_def notifyStatus_def upd_entry_def)
qed

lemma host_invariant_witness:
  "let s = off_run [StartMsg demo_entry True] new_offscreen in
   jget (of_tunnels s) (tg_id demo_entry) = Some 0 \<and> of_statsTimer s"
proof -
  have d: "0 < length (of_entries (off_run [StartMsg demo_entry True] new_offscreen))"
    "oe_connection (ent (off_run [StartMsg demo_entry True] new_offscreen) 0) \<noteq> None"
    "ent_id (off_run [StartMsg demo_entry True] new_offscreen) 0 = tg_id demo_entry"
    using demo_started by (simp_all add: Let_def)
  from host_invariant [OF refl d(1) disjI1 [OF d(2)]] show ?thesis unfolding d(3) Let_def .
qed

lemma backoff_never_grows_witness:
  "\<exists>d. StatusMsg (tg_id demo_entry) StConnecting (ReconnectIn d) None \<in>
      set (of_out (off_run [StartMsg demo_entry True, ConnEvent 0 (SocketClose 1006)] new_offscreen)) \<and> d = 1000"
proof -
  obtain tc where tc: "connection_config demo_entry = Some tc" using demo_entry_config by blast
  have "StatusMsg (tg_id demo_entry) StConnecting (ReconnectIn (reconnect_delay 0)) None \<in>
      set (of_out (off_run [StartMsg demo_entry True, ConnEvent 0 (SocketClose 1006)] new_offscreen))"
    using tc
    by (simp add: startTunnel_def new_offscreen_def connect_entry_def startStatsSampler_def Let_def
        connect_def new_conn_def notifyStatus_def upd_entry_def enabled_def conn_apply_def ws_onclose_def
        onSmuxClose_def conn_onClose_def set_conn_def settle_def connect_settled_def remove_pending_def)
  then show ?thesis using backoff_never_grows by blast
qed

lemma stop_while_binding_locks_witness:
  "let s = off_run [StartMsg demo_entry True, ConnEvent 0 SocketOpen, StopMsg (tg_id demo_entry),
      ConnEvent 0 (SocketClose 1000)] new_offscreen
   in startTunnel demo_entry True s = s"
proof -
  obtain tc b where "connection_config demo_entry = Some tc" "encodeRequest (bind_request tc) = Inr b"
    using demo_entry_config by blast
  from stop_while_binding_locks [OF this, of "[ConnEvent 0 (SocketClose 1000)]" demo_entry _ True]
  show ?thesis by simp
qed

end
