(* ===== verification/Background.thy ===== *)
theory Background
  imports Offscreen Forwarder
begin

text \<open>
  The service worker, \<open>extension/background.js\<close>: the list of tunnels in
  \<open>chrome.storage.local\<close> and the handlers that rewrite it, the rule ids of the old host
  rewrite, the badge, restarting. Storage is read and written asynchronously: every rewriting
  handler is a task that first reads and later writes, and tasks interleave.
\<close>

section \<open>Stored tunnels\<close>

text \<open>
  A stored tunnel is a plain object; an absent field reads as undefined. \<open>JAuth\<close> is the object
  with a user name and a password.
\<close>

datatype jsval = JNull | JText jstr | JBool bool | JStats snapshot | JBytes bytes | JAuth jstr jstr

type_synonym js_object = "(jstr, jsval) jsmap"

definition spread :: "js_object \<Rightarrow> js_object \<Rightarrow> js_object" where
  "spread base over = fold (\<lambda>(k, v). jset k v) over base"

text \<open>The fields of the second count; a JavaScript object has each key once.\<close>

lemma jset_object: "jok t \<Longrightarrow> jok (jset k v t)"
  by (rule distinct_update)

lemma spread_object: "jok t \<Longrightarrow> jok (spread t c)"
  unfolding spread_def by (induction c arbitrary: t) (auto simp: jset_object)

lemma spread_get: "jok c \<Longrightarrow> jget (spread t c) k = (case jget c k of None \<Rightarrow> jget t k | Some v \<Rightarrow> Some v)"
  unfolding spread_def
proof (induction c arbitrary: t)
  case (Cons a c)
  obtain k' v where a: "a = (k', v)" by fastforce
  have "map_of c k' = None" using Cons.prems a by (simp add: map_of_eq_None_iff)
  then show ?case using Cons a by (auto simp: update_conv' split: option.splits)
qed simp

abbreviation field :: "js_object \<Rightarrow> string \<Rightarrow> jsval option" where
  "field t name \<equiv> jget t (js name)"

definition has_id :: "jstr \<Rightarrow> js_object \<Rightarrow> bool" where
  "has_id tid t \<longleftrightarrow> field t ''tunnelId'' = Some (JText tid)"

definition has_status :: "string \<Rightarrow> js_object \<Rightarrow> bool" where
  "has_status st t \<longleftrightarrow> field t ''status'' = Some (JText (js st))"

definition truthy :: "jsval option \<Rightarrow> bool" where
  "truthy v = (case v of
     None \<Rightarrow> False | Some JNull \<Rightarrow> False | Some (JText s) \<Rightarrow> s \<noteq> [] | Some (JBool b) \<Rightarrow> b | _ \<Rightarrow> True)"

definition or_null :: "jsval option \<Rightarrow> jsval" where
  "or_null v = (if truthy v then the v else JNull)"

section \<open>What the handlers write\<close>

definition update_where :: "jstr \<Rightarrow> js_object \<Rightarrow> js_object list \<Rightarrow> js_object list" where
  "update_where tid upds saved = map (\<lambda>t. if has_id tid t then spread t upds else t) saved"

text \<open>\<open>findIndex\<close> and the replacement of that one element, or a push.\<close>

fun upsert :: "jstr \<Rightarrow> js_object \<Rightarrow> js_object list \<Rightarrow> js_object list" where
  "upsert tid config [] = [config]"
| "upsert tid config (t # saved) =
     (if has_id tid t then spread t config # saved else t # upsert tid config saved)"

datatype bg_task =
    PersistStart jstr js_object
  | PersistStop jstr
  | PersistStatus jstr jsval "jsval option" "jsval option"
  | PersistStats jstr snapshot

definition stop_write :: "jstr \<Rightarrow> js_object list \<Rightarrow> js_object list" where
  [simp]: "stop_write tid = update_where tid
     [(js ''status'', JText (js ''stopped'')), (js ''entrypoint'', JNull), (js ''error'', JNull)]"

definition status_write :: "jstr \<Rightarrow> jsval \<Rightarrow> jsval option \<Rightarrow> jsval option \<Rightarrow> js_object list \<Rightarrow> js_object list" where
  [simp]: "status_write tid status err ep = update_where tid
     [(js ''status'', status), (js ''error'', or_null err), (js ''entrypoint'', or_null ep)]"

definition stats_write :: "jstr \<Rightarrow> snapshot \<Rightarrow> js_object list \<Rightarrow> js_object list" where
  [simp]: "stats_write tid stats = update_where tid [(js ''stats'', JStats stats)]"

fun task_write :: "bg_task \<Rightarrow> js_object list \<Rightarrow> js_object list" where
  "task_write (PersistStart tid config) saved = upsert tid config saved"
| "task_write (PersistStop tid) saved = stop_write tid saved"
| "task_write (PersistStatus tid status err ep) saved = status_write tid status err ep saved"
| "task_write (PersistStats tid stats) saved = stats_write tid stats saved"

section \<open>Host rewrite rules\<close>

definition dnr_hash :: "jstr \<Rightarrow> 32 word" where
  "dnr_hash tunnelId = foldl (\<lambda>h c. 31 * h + ucast c) 0 tunnelId"

definition dnrRuleId :: "jstr \<Rightarrow> nat" where
  "dnrRuleId tunnelId = 10000 + unat (dnr_hash tunnelId) mod 10000"

definition dnrFallbackRuleId :: "jstr \<Rightarrow> nat" where
  "dnrFallbackRuleId tunnelId = 20000 + unat (dnr_hash tunnelId) mod 10000"

definition fallbackUrlFilter :: "jstr \<Rightarrow> bool \<Rightarrow> jstr" where
  "fallbackUrlFilter localEndpoint enableTLS =
     (let colon = last_index_of (cu CHR '':'') localEndpoint;
          bracket = last_index_of (cu CHR '']'') localEndpoint;
          (host, port) =
            (case colon of
               None \<Rightarrow> (localEndpoint, [])
             | Some c \<Rightarrow>
                 if (case bracket of None \<Rightarrow> True | Some b \<Rightarrow> c > b)
                 then (take c localEndpoint, drop (c + 1) localEndpoint) else (localEndpoint, []));
          defaultPort = (if enableTLS then js ''443'' else js ''80'')
      in if port = [] \<or> port = defaultPort then js ''://'' @ host @ js ''/''
         else js ''://'' @ host @ js '':'' @ port)"

definition dnrMarker :: "jstr \<Rightarrow> jstr" where
  "dnrMarker tunnelId = strip_dashes tunnelId"

text \<open>The dynamic rules are a list of ids; what a handler and the clean-up take out of it.\<close>

definition removeHostnameDNR :: "jstr \<Rightarrow> nat list \<Rightarrow> nat list" where
  "removeHostnameDNR tid rules = filter (\<lambda>r. r \<notin> {dnrRuleId tid, dnrFallbackRuleId tid}) rules"

definition setHostnameDNR :: "jstr \<Rightarrow> jsval option \<Rightarrow> nat list \<Rightarrow> nat list" where
  "setHostnameDNR tid hostname rules = (if truthy hostname then removeHostnameDNR tid rules else rules)"

text \<open>\<open>handleStartTunnel\<close> gives every stored tunnel a textual id.\<close>

definition id_text :: "js_object \<Rightarrow> jstr" where
  "id_text t = (case field t ''tunnelId'' of Some (JText s) \<Rightarrow> s | _ \<Rightarrow> [])"

definition syncHostnameDNR :: "js_object list \<Rightarrow> nat list \<Rightarrow> nat list" where
  "syncHostnameDNR store rules =
     (let active = filter (\<lambda>t. truthy (field t ''hostname'')
                      \<and> (has_status ''running'' t \<or> has_status ''connecting'' t)) store;
          markers = map (\<lambda>t. dnrRuleId (id_text t)) active;
          fallbacks = map (\<lambda>t. dnrFallbackRuleId (id_text t)) active;
          kept = filter (\<lambda>r. \<not> ((10000 \<le> r \<and> r < 20000 \<and> r \<notin> set markers)
                                  \<or> (20000 \<le> r \<and> r < 30000 \<and> r \<notin> set fallbacks))) rules
      in fold (\<lambda>t. setHostnameDNR (id_text t) (field t ''hostname'')) active kept)"

section \<open>The worker's state\<close>

text \<open>What a task sends once its write is done.\<close>

datatype bg_out =
    ToOffscreenStart js_object
  | ToOffscreenStop jstr
  | CloseOffscreen
  | ForwardStatus jstr
  | ForwardStats jstr

text \<open>A task waits for its read, or holds what it read until its write takes effect.\<close>

datatype task_phase = Waiting | HasRead "js_object list"

record worker =
  bg_store :: "js_object list"
  bg_tasks :: "(bg_task \<times> task_phase) list"
  bg_lastStatsPersist :: int
  bg_offscreen :: bool
  bg_rules :: "nat list"
  bg_out :: "bg_out list"

definition new_worker :: "js_object list \<Rightarrow> nat list \<Rightarrow> worker" where
  "new_worker store rules = \<lparr>bg_store = store, bg_tasks = [], bg_lastStatsPersist = 0, bg_offscreen = False,
     bg_rules = rules, bg_out = []\<rparr>"

definition begin_task :: "bg_task \<Rightarrow> worker \<Rightarrow> worker" where
  "begin_task t w = w\<lparr>bg_tasks := bg_tasks w @ [(t, Waiting)]\<rparr>"

definition send_out :: "bg_out list \<Rightarrow> worker \<Rightarrow> worker" where
  "send_out os w = w\<lparr>bg_out := bg_out w @ os\<rparr>"

section \<open>Message handlers\<close>

definition handleStartTunnel :: "jstr \<Rightarrow> js_object \<Rightarrow> worker \<Rightarrow> worker" where
  "handleStartTunnel fresh_uuid config w =
     (let tid = (case field config ''tunnelId'' of Some (JText t) \<Rightarrow> if t = [] then fresh_uuid else t | _ \<Rightarrow> fresh_uuid)
      in begin_task (PersistStart tid (jset (js ''tunnelId'') (JText tid) config)) w)"

definition handleStopTunnel :: "jstr \<Rightarrow> worker \<Rightarrow> worker" where
  "handleStopTunnel tid w = begin_task (PersistStop tid) (w\<lparr>bg_rules := removeHostnameDNR tid (bg_rules w)\<rparr>)"

definition handleTunnelStatus :: "jstr \<Rightarrow> jsval \<Rightarrow> jsval option \<Rightarrow> jsval option \<Rightarrow> worker \<Rightarrow> worker" where
  "handleTunnelStatus tid status err ep w =
     send_out [ForwardStatus tid] (begin_task (PersistStatus tid status err ep) w)"

definition handleTunnelStats :: "int \<Rightarrow> jstr \<Rightarrow> snapshot \<Rightarrow> worker \<Rightarrow> worker" where
  "handleTunnelStats now tid stats w =
     (let w1 = send_out [ForwardStats tid] w in
      if now - bg_lastStatsPersist w1 < 3000 then w1
      else begin_task (PersistStats tid stats) (w1\<lparr>bg_lastStatsPersist := now\<rparr>))"

text \<open>
  What follows the write: a start makes sure the tunnel host exists and passes the config on,
  a stop passes it on and closes the host when no tunnel is left that is not stopped.
\<close>

definition after_start :: "jstr \<Rightarrow> js_object \<Rightarrow> worker \<Rightarrow> worker" where
  "after_start tid config w = send_out [ToOffscreenStart config]
     (w\<lparr>bg_rules := setHostnameDNR tid (field config ''hostname'') (bg_rules w), bg_offscreen := True\<rparr>)"

definition after_stop :: "jstr \<Rightarrow> js_object list \<Rightarrow> worker \<Rightarrow> worker" where
  "after_stop tid saved w =
     (let w1 = send_out [ToOffscreenStop tid] w in
      if filter (\<lambda>t. \<not> has_status ''stopped'' t) saved = []
      then send_out [CloseOffscreen] (w1\<lparr>bg_offscreen := False\<rparr>) else w1)"

fun task_after :: "bg_task \<Rightarrow> js_object list \<Rightarrow> worker \<Rightarrow> worker" where
  "task_after (PersistStart tid config) saved w = after_start tid config w"
| "task_after (PersistStop tid) saved w = after_stop tid saved w"
| "task_after _ saved w = w"

definition task_read :: "nat \<Rightarrow> worker \<Rightarrow> worker" where
  "task_read i w =
     (if i < length (bg_tasks w) \<and> snd (bg_tasks w ! i) = Waiting
      then w\<lparr>bg_tasks := (bg_tasks w)[i := (fst (bg_tasks w ! i), HasRead (bg_store w))]\<rparr> else w)"

definition task_commit :: "nat \<Rightarrow> worker \<Rightarrow> worker" where
  "task_commit i w =
     (if i < length (bg_tasks w) then
        (case bg_tasks w ! i of
           (t, Waiting) \<Rightarrow> w
         | (t, HasRead saved) \<Rightarrow>
             (let new = task_write t saved
              in task_after t new (w\<lparr>bg_store := new, bg_tasks := take i (bg_tasks w) @ drop (Suc i) (bg_tasks w)\<rparr>)))
      else w)"

section \<open>Restarting and the badge\<close>

definition restartable :: "js_object list \<Rightarrow> js_object list" where
  "restartable store = filter (\<lambda>t. \<not> has_status ''stopped'' t) store"

text \<open>
  The alarm when the host is gone, and a start of the browser: every tunnel not stopped is
  started; the ids are those drawn for tunnels stored without one.
\<close>

fun start_all :: "jstr list \<Rightarrow> js_object list \<Rightarrow> worker \<Rightarrow> worker" where
  "start_all uuids [] w = w"
| "start_all uuids (t # ts) w =
     start_all (drop 1 uuids) ts (handleStartTunnel (case uuids of [] \<Rightarrow> [] | u # us \<Rightarrow> u) t w)"

definition alarm_keepalive :: "jstr list \<Rightarrow> worker \<Rightarrow> worker" where
  "alarm_keepalive uuids w = (if bg_offscreen w then w else start_all uuids (restartable (bg_store w)) w)"

definition on_startup :: "jstr list \<Rightarrow> worker \<Rightarrow> worker" where
  "on_startup uuids w =
     start_all uuids (restartable (bg_store w)) (w\<lparr>bg_rules := syncHostnameDNR (bg_store w) (bg_rules w)\<rparr>)"

definition badge_text :: "js_object list \<Rightarrow> jstr" where
  "badge_text store =
     (let running = length (filter (has_status ''running'') store)
      in if running > 0 then dec_str running else [])"

section \<open>Runs\<close>

datatype bg_event =
    BgStart jstr js_object
  | BgStop jstr
  | BgStatus jstr jsval "jsval option" "jsval option"
  | BgStats int jstr snapshot
  | BgRead nat
  | BgWrite nat
  | BgAlarm "jstr list"
  | BgStartup "jstr list"

fun bg_step :: "bg_event \<Rightarrow> worker \<Rightarrow> worker" where
  "bg_step (BgStart fresh config) w = handleStartTunnel fresh config w"
| "bg_step (BgStop tid) w = handleStopTunnel tid w"
| "bg_step (BgStatus tid st e ep) w = handleTunnelStatus tid st e ep w"
| "bg_step (BgStats now tid stats) w = handleTunnelStats now tid stats w"
| "bg_step (BgRead i) w = task_read i w"
| "bg_step (BgWrite i) w = task_commit i w"
| "bg_step (BgAlarm uuids) w = alarm_keepalive uuids w"
| "bg_step (BgStartup uuids) w = on_startup uuids w"

fun bg_run :: "bg_event list \<Rightarrow> worker \<Rightarrow> worker" where
  "bg_run [] w = w"
| "bg_run (e # es) w = bg_run es (bg_step e w)"

end
