(* ===== verification/BackgroundCorrect.thy ===== *)
theory BackgroundCorrect
  imports Background
begin

text \<open>
  The service worker: messages handled one after the other do what they mean, tasks
  that overlap lose one, and the throttle of the statistics starves all tunnels but one.
\<close>

section \<open>Updates\<close>

text \<open>
  What the messages mean, apart from how the handlers do it: the list of stored tunnels, each a map
  from its fields to their values, when statistics were last stored, and whether the tunnel host
  runs.
\<close>

type_synonym tunnel_view = "jstr \<rightharpoonup> jsval"

record tunnel_db =
  db_tunnels :: "tunnel_view list"
  db_last :: int
  db_host :: bool

definition db_of :: "worker \<Rightarrow> tunnel_db" where
  "db_of w = \<lparr>db_tunnels = map map_of (bg_store w), db_last = bg_lastStatsPersist w, db_host = bg_offscreen w\<rparr>"

definition of_id :: "jstr \<Rightarrow> tunnel_view \<Rightarrow> bool" where
  "of_id tid t \<longleftrightarrow> t (js ''tunnelId'') = Some (JText tid)"

text \<open>An error or an address that is absent, empty or false is stored as null.\<close>

definition told :: "jsval option \<Rightarrow> jsval" where
  "told v = (case v of None \<Rightarrow> JNull | Some x \<Rightarrow> if x \<in> {JText [], JBool False} then JNull else x)"

text \<open>The first tunnel with the id takes over the fields of the config, which are added as a new one when there is none.\<close>

definition started :: "jstr \<Rightarrow> tunnel_view \<Rightarrow> tunnel_view list \<Rightarrow> tunnel_view list" where
  "started tid config ts =
     (let before = takeWhile (\<lambda>t. \<not> of_id tid t) ts
      in case drop (length before) ts of [] \<Rightarrow> ts @ [config] | t # rest \<Rightarrow> before @ [t ++ config] @ rest)"

definition config_id :: "jstr \<Rightarrow> js_object \<Rightarrow> jstr" where
  "config_id fresh config = (case field config ''tunnelId'' of Some (JText (c # cs)) \<Rightarrow> c # cs | _ \<Rightarrow> fresh)"

fun meant :: "bg_event \<Rightarrow> tunnel_db \<Rightarrow> tunnel_db" where
  "meant (BgStart fresh config) d =
     d\<lparr>db_tunnels := started (config_id fresh config)
          ((map_of config)(js ''tunnelId'' \<mapsto> JText (config_id fresh config))) (db_tunnels d), db_host := True\<rparr>"
| "meant (BgStop tid) d =
     (let ts = map (\<lambda>t. if of_id tid t
                 then t(js ''status'' \<mapsto> JText (js ''stopped''), js ''entrypoint'' \<mapsto> JNull, js ''error'' \<mapsto> JNull) else t) (db_tunnels d)
      in d\<lparr>db_tunnels := ts, db_host := db_host d \<and> list_ex (\<lambda>t. t (js ''status'') \<noteq> Some (JText (js ''stopped''))) ts\<rparr>)"
| "meant (BgStatus tid st e ep) d =
     d\<lparr>db_tunnels := map (\<lambda>t. if of_id tid t
          then t(js ''status'' \<mapsto> st, js ''error'' \<mapsto> told e, js ''entrypoint'' \<mapsto> told ep) else t) (db_tunnels d)\<rparr>"
| "meant (BgStats now tid stats) d =
     (if now < db_last d + 3000 then d
      else d\<lparr>db_tunnels := map (\<lambda>t. if of_id tid t then t(js ''stats'' \<mapsto> JStats stats) else t) (db_tunnels d), db_last := now\<rparr>)"
| "meant _ d = d"

text \<open>A message, and a schedule that finishes what each message begins before it takes the next.\<close>

fun is_message :: "bg_event \<Rightarrow> bool" where
  "is_message (BgStart fresh config) \<longleftrightarrow> jok config"
| "is_message (BgStop tid) \<longleftrightarrow> True"
| "is_message (BgStatus tid st e ep) \<longleftrightarrow> True"
| "is_message (BgStats now tid stats) \<longleftrightarrow> True"
| "is_message _ \<longleftrightarrow> False"

definition serial_schedule :: "bg_event list \<Rightarrow> bg_event list" where
  "serial_schedule msgs = concat (map (\<lambda>m. [m, BgRead 0, BgWrite 0]) msgs)"

fun event_task :: "bg_event \<Rightarrow> bg_task option" where
  "event_task (BgStop tid) = Some (PersistStop tid)"
| "event_task (BgStatus tid st e ep) = Some (PersistStatus tid st e ep)"
| "event_task _ = None"

lemma task_after_keeps [simp]:
  "bg_store (task_after t saved w) = bg_store w" "bg_tasks (task_after t saved w) = bg_tasks w"
  by (cases t; simp add: after_start_def after_stop_def send_out_def Let_def)+

lemma serial_turn:
  assumes "bg_tasks w = [(t, Waiting)]"
  shows "bg_run [BgRead 0, BgWrite 0] w
    = task_after t (task_write t (bg_store w)) (w\<lparr>bg_store := task_write t (bg_store w), bg_tasks := []\<rparr>)"
  using assms by (simp add: task_read_def task_commit_def Let_def)

lemma has_id_view: "has_id tid t \<longleftrightarrow> of_id tid (map_of t)"
  by (simp add: has_id_def of_id_def)

lemma view_update:
  "map map_of (update_where tid upds saved) = map (\<lambda>t. if of_id tid t then fold (\<lambda>(k, v) t. t(k \<mapsto> v)) upds t else t) (map map_of saved)"
proof -
  have "map_of (spread t upds) = fold (\<lambda>(k, v) t. t(k \<mapsto> v)) upds (map_of t)" for t
    unfolding spread_def by (induction upds arbitrary: t) (auto simp: update_conv')
  then show ?thesis by (simp add: update_where_def has_id_view)
qed

lemma view_upsert: "jok config \<Longrightarrow> map map_of (upsert tid config saved) = started tid (map_of config) (map map_of saved)"
proof (induction saved)
  case (Cons t saved)
  have "map_of (spread t config) = map_of t ++ map_of config"
    using Cons.prems by (auto simp: spread_get map_add_def split: option.splits)
  then show ?case using Cons by (auto simp: started_def has_id_view Let_def split: list.splits)
qed (simp add: started_def)

lemma told_or_null: "or_null v = told v"
  by (auto simp: or_null_def told_def truthy_def split: option.splits jsval.splits)

lemma serial_message:
  assumes "bg_tasks w = []" "is_message m"
  shows "db_of (bg_run [m, BgRead 0, BgWrite 0] w) = meant m (db_of w) \<and> bg_tasks (bg_run [m, BgRead 0, BgWrite 0] w) = []"
proof (cases m)
  case (BgStart fresh config)
  let ?tid = "config_id fresh config"
  let ?c = "jset (js ''tunnelId'') (JText ?tid) config"
  have "bg_step m w = w\<lparr>bg_tasks := [(PersistStart ?tid ?c, Waiting)]\<rparr>"
    using assms BgStart by (auto simp: handleStartTunnel_def config_id_def begin_task_def Let_def split: option.splits jsval.splits list.splits)
  moreover have "map_of ?c = (map_of config)(js ''tunnelId'' \<mapsto> JText ?tid)" by (simp add: update_conv')
  moreover have "jok ?c" using assms(2) BgStart by (simp add: distinct_update)
  ultimately show ?thesis
    using serial_turn [of "bg_step m w"] BgStart view_upsert [of ?c ?tid "bg_store w"]
    by (simp add: db_of_def after_start_def send_out_def)
next
  case (BgStop tid)
  let ?new = "stop_write tid (bg_store w)"
  have n: "map map_of ?new = db_tunnels (meant m (db_of w))"
    unfolding stop_write_def view_update BgStop by (simp add: db_of_def Let_def)
  have "filter (\<lambda>t. \<not> has_status ''stopped'' t) ?new = []
      \<longleftrightarrow> \<not> list_ex (\<lambda>t. t (js ''status'') \<noteq> Some (JText (js ''stopped''))) (map map_of ?new)"
    by (auto simp: filter_empty_conv list_ex_iff has_status_def)
  moreover have "bg_step m w = w\<lparr>bg_rules := removeHostnameDNR tid (bg_rules w), bg_tasks := [(PersistStop tid, Waiting)]\<rparr>"
    using assms BgStop by (simp add: handleStopTunnel_def begin_task_def)
  ultimately show ?thesis
    using serial_turn [of "bg_step m w"] BgStop n
    by (simp add: db_of_def after_stop_def send_out_def Let_def del: stop_write_def)
next
  case (BgStatus tid st e ep)
  then show ?thesis
    using assms serial_turn [of "bg_step m w" "PersistStatus tid st e ep"]
    by (simp add: handleTunnelStatus_def begin_task_def send_out_def db_of_def view_update told_or_null)
next
  case (BgStats now tid stats)
  show ?thesis
  proof (cases "now - bg_lastStatsPersist w < 3000")
    case True
    then show ?thesis using assms BgStats by (simp add: handleTunnelStats_def send_out_def task_read_def task_commit_def db_of_def)
  next
    case False
    then show ?thesis
      using assms BgStats serial_turn [of "bg_step m w" "PersistStats tid stats"]
      by (simp add: handleTunnelStats_def begin_task_def send_out_def db_of_def view_update)
  qed
qed (use assms in simp_all)

lemma bg_run_append: "bg_run (es @ fs) w = bg_run fs (bg_run es w)"
  by (induction es arbitrary: w) simp_all

text \<open>
  C25. Start, stop, status and statistics messages handled one at a time do what they say: the stored tunnels,
  the time of the last statistics and whether the host runs are those of the messages' updates in
  their order. A start gives the tunnel its config or adds it; a stop marks it stopped with no
  address and no error, and ends the host when no other tunnel is left running; a status
  replaces the three fields; statistics replace one, at most every three seconds. All other fields and
  tunnels stay.
\<close>

theorem serial_tasks_refine:
  assumes "bg_tasks w = []" "list_all is_message msgs"
  shows "db_of (bg_run (serial_schedule msgs) w) = fold meant msgs (db_of w) \<and> bg_tasks (bg_run (serial_schedule msgs) w) = []"
  using assms
proof (induction msgs arbitrary: w)
  case (Cons m msgs)
  have "bg_run (serial_schedule (m # msgs)) w = bg_run (serial_schedule msgs) (bg_run [m, BgRead 0, BgWrite 0] w)"
    by (simp add: serial_schedule_def bg_run_append)
  then show ?case using Cons serial_message [of w m] by simp
qed (simp add: serial_schedule_def)

lemma serial_tasks_refine_witness:
  "let w = bg_run (serial_schedule [BgStart (js ''a'') [(js ''name'', JText (js ''n''))], BgStatus (js ''a'') (JText (js ''error'')) (Some (JText (js ''e''))) None,
         BgStop (js ''a'')]) (new_worker [] [])
   in \<exists>t. map map_of (bg_store w) = [t] \<and> t (js ''tunnelId'') = Some (JText (js ''a'')) \<and> t (js ''name'') = Some (JText (js ''n''))
      \<and> t (js ''status'') = Some (JText (js ''stopped'')) \<and> t (js ''error'') = Some JNull \<and> \<not> bg_offscreen w"
proof -
  let ?ms = "[BgStart (js ''a'') [(js ''name'', JText (js ''n''))], BgStatus (js ''a'') (JText (js ''error'')) (Some (JText (js ''e''))) None,
         BgStop (js ''a'')]"
  have "db_of (bg_run (serial_schedule ?ms) (new_worker [] [])) = fold meant ?ms (db_of (new_worker [] []))"
    using serial_tasks_refine [of "new_worker [] []" ?ms] by (simp add: new_worker_def)
  then show ?thesis
    by (simp add: Let_def db_of_def new_worker_def started_def config_id_def of_id_def cu_def)
qed

text \<open>
  Two updates whose reads both come before the writes: the later write restores what it had
  read, so the earlier update is lost from the store.
\<close>

theorem overlapping_tasks_lose:
  assumes "bg_tasks w = []" "event_task m1 = Some t1" "event_task m2 = Some t2"
  shows "bg_store (bg_run [m1, m2, BgRead 0, BgRead 1, BgWrite 0, BgWrite 0] w) = task_write t2 (bg_store w)"
proof -
  have "bg_tasks (bg_step m2 (bg_step m1 w)) = [(t1, Waiting), (t2, Waiting)]
      \<and> bg_store (bg_step m2 (bg_step m1 w)) = bg_store w"
    using assms by (cases m1; cases m2) (auto simp: handleStopTunnel_def handleTunnelStatus_def begin_task_def send_out_def)
  then show ?thesis by (simp add: task_read_def task_commit_def Let_def)
qed

lemma overlapping_tasks_lose_witness:
  "bg_store (bg_run [BgStatus (js ''a'') (JText (js ''running'')) None None, BgStop (js ''b''),
      BgRead 0, BgRead 1, BgWrite 0, BgWrite 0] (new_worker [[(js ''tunnelId'', JText (js ''a''))]] []))
   = [[(js ''tunnelId'', JText (js ''a''))]]"
  using overlapping_tasks_lose [of "new_worker [[(js ''tunnelId'', JText (js ''a''))]] []"
      "BgStatus (js ''a'') (JText (js ''running'')) None None" _ "BgStop (js ''b'')"]
  by (simp add: new_worker_def update_where_def has_id_def cu_def)

section \<open>Statistics\<close>

definition persisted :: "worker \<Rightarrow> jstr list" where
  "persisted w = concat (map (\<lambda>(t, p). case t of PersistStats tid s \<Rightarrow> [tid] | _ \<Rightarrow> []) (bg_tasks w))"

text \<open>The messages of \<open>n\<close> turns of the sampler with two tunnels; the second comes \<open>d\<close> ms later.\<close>

fun sampler_messages :: "int \<Rightarrow> jstr \<Rightarrow> jstr \<Rightarrow> (nat \<Rightarrow> int) \<Rightarrow> (nat \<Rightarrow> snapshot \<times> snapshot) \<Rightarrow> nat \<Rightarrow> bg_event list" where
  "sampler_messages t0 a b d snaps 0 = []"
| "sampler_messages t0 a b d snaps (Suc n) =
     sampler_messages t0 a b d snaps n
     @ [BgStats (t0 + 1000 * int n) a (fst (snaps n)), BgStats (t0 + 1000 * int n + d n) b (snd (snaps n))]"

text \<open>
  With two tunnels only one's statistics are ever stored: the throttle is shared, the first
  tunnel's message takes every slot, and the second one's, which follows within a second, is
  always dropped.
\<close>

theorem stats_starvation:
  assumes "3000 \<le> t0" "\<And>k. 0 \<le> d k \<and> d k < 1000" "bg_tasks w = []" "bg_lastStatsPersist w = 0"
  shows "\<exists>m. persisted (bg_run (sampler_messages t0 a b d snaps n) w) = replicate m a \<and> n \<le> 3 * m"
proof -
  let ?w = "\<lambda>n. bg_run (sampler_messages t0 a b d snaps n) w"
  have "\<exists>m. persisted (?w n) = replicate m a \<and> n \<le> 3 * m
      \<and> (if n = 0 then bg_lastStatsPersist (?w n) = 0
         else \<exists>r < 3. bg_lastStatsPersist (?w n) = t0 + 1000 * (int n - 1 - int r) \<and> n + 2 - r \<le> 3 * m)"
  proof (induction n)
    case 0
    then show ?case using assms(3,4) by (auto simp: persisted_def)
  next
    case (Suc n)
    let ?now = "t0 + 1000 * int n"
    let ?v = "handleTunnelStats ?now a (fst (snaps n)) (?w n)"
    obtain m where m: "persisted (?w n) = replicate m a" "n \<le> 3 * m"
      "if n = 0 then bg_lastStatsPersist (?w n) = 0
       else \<exists>r < 3. bg_lastStatsPersist (?w n) = t0 + 1000 * (int n - 1 - int r) \<and> n + 2 - r \<le> 3 * m"
      using Suc by blast
    have w: "?w (Suc n) = handleTunnelStats (?now + d n) b (snd (snaps n)) ?v" by (simp add: bg_run_append)
    show ?case
    proof (cases "?now - bg_lastStatsPersist (?w n) < 3000")
      case True
      then have n: "n \<noteq> 0" using assms(1) m(3) by (cases n) simp_all
      then obtain r where r: "r < 3" "bg_lastStatsPersist (?w n) = t0 + 1000 * (int n - 1 - int r)" "n + 2 - r \<le> 3 * m"
        using m(3) by auto
      then have r2: "Suc r < 3" using True by simp
      have v: "?v = send_out [ForwardStats a] (?w n)" using True by (simp add: handleTunnelStats_def send_out_def)
      have "?now + d n - bg_lastStatsPersist (?w n) < 3000" unfolding r(2) using r2 assms(2) [of n] by (simp add: algebra_simps)
      then have "?w (Suc n) = send_out [ForwardStats b] ?v" unfolding w v by (simp add: handleTunnelStats_def send_out_def)
      then have p: "persisted (?w (Suc n)) = replicate m a" "bg_lastStatsPersist (?w (Suc n)) = t0 + 1000 * (int (Suc n) - 1 - int (Suc r))"
        using m(1) v r(2) by (simp_all add: persisted_def send_out_def)
      have "Suc n \<le> 3 * m" "Suc n + 2 - Suc r \<le> 3 * m" using r(1,3) r2 by linarith+
      then show ?thesis unfolding p using r2 by (intro exI [of _ m] conjI) (auto intro!: exI [of _ "Suc r"])
    next
      case False
      have v: "persisted ?v = replicate (Suc m) a" "bg_lastStatsPersist ?v = ?now"
        using False m(1) by (simp_all add: handleTunnelStats_def persisted_def send_out_def begin_task_def replicate_append_same)
      have "?now + d n - bg_lastStatsPersist ?v < 3000" using assms(2) [of n] v(2) by simp
      then have "?w (Suc n) = send_out [ForwardStats b] ?v" unfolding w by (simp add: handleTunnelStats_def send_out_def)
      then have "persisted (?w (Suc n)) = replicate (Suc m) a" "bg_lastStatsPersist (?w (Suc n)) = ?now"
        using v by (simp_all add: persisted_def send_out_def)
      moreover have "Suc n + 2 - 0 \<le> 3 * Suc m" using m(2) by simp
      ultimately show ?thesis using m(2) by (intro exI [of _ "Suc m"]) (auto intro!: exI [of _ 0])
    qed
  qed
  then show ?thesis by blast
qed

lemma stats_starvation_witness:
  "\<exists>m. persisted (bg_run (sampler_messages 5000 (js ''a'') (js ''b'') (\<lambda>_. 1)
      (\<lambda>_. (snd (sample 0 1 new_stats), snd (sample 0 1 new_stats))) 4) (new_worker [] [])) = replicate m (js ''a'') \<and> 4 \<le> 3 * m"
  by (rule stats_starvation) (simp_all add: new_worker_def)

section \<open>Rule ids\<close>

lemma dnr_rule_ranges:
  "10000 \<le> dnrRuleId tid \<and> dnrRuleId tid < 20000 \<and> dnrFallbackRuleId tid = dnrRuleId tid + 10000"
  by (simp add: dnrRuleId_def dnrFallbackRuleId_def)

lemma in_fold_setHostname:
  "r \<in> set (fold (\<lambda>t. setHostnameDNR (id_text t) (field t ''hostname'')) ts rs)
   \<longleftrightarrow> r \<in> set rs \<and> (\<forall>t \<in> set ts. truthy (field t ''hostname'')
        \<longrightarrow> r \<noteq> dnrRuleId (id_text t) \<and> r \<noteq> dnrFallbackRuleId (id_text t))"
  by (induction ts arbitrary: rs) (auto simp: setHostnameDNR_def removeHostnameDNR_def)

text \<open>
  The clean-up leaves no rule of the extension: after it none of the ids reserved for host
  rewriting is installed, and every other rule is untouched.
\<close>

theorem sync_removes_rules:
  "r \<in> set (syncHostnameDNR store rules) \<longleftrightarrow> r \<in> set rules \<and> \<not> (10000 \<le> r \<and> r < 30000)"
proof -
  define active where "active = filter (\<lambda>t. truthy (field t ''hostname'')
      \<and> (has_status ''running'' t \<or> has_status ''connecting'' t)) store"
  define kept where "kept = filter (\<lambda>r. \<not> ((10000 \<le> r \<and> r < 20000 \<and> r \<notin> dnrRuleId ` id_text ` set active)
      \<or> (20000 \<le> r \<and> r < 30000 \<and> r \<notin> dnrFallbackRuleId ` id_text ` set active))) rules"
  have "syncHostnameDNR store rules = fold (\<lambda>t. setHostnameDNR (id_text t) (field t ''hostname'')) active kept"
    by (simp add: syncHostnameDNR_def active_def kept_def image_image)
  moreover have "\<forall>t \<in> set active. truthy (field t ''hostname'')" by (simp add: active_def)
  ultimately have "r \<in> set (syncHostnameDNR store rules) \<longleftrightarrow> r \<in> set kept
      \<and> r \<notin> dnrRuleId ` id_text ` set active \<and> r \<notin> dnrFallbackRuleId ` id_text ` set active"
    by (simp only: in_fold_setHostname) blast
  moreover have "x \<in> dnrRuleId ` id_text ` set active \<Longrightarrow> 10000 \<le> x \<and> x < 20000"
    "x \<in> dnrFallbackRuleId ` id_text ` set active \<Longrightarrow> 20000 \<le> x \<and> x < 30000" for x
    using dnr_rule_ranges by fastforce+
  ultimately show ?thesis unfolding kept_def by (cases "r < 20000") fastforce+
qed

end
