(* ===== verification/QrMath.thy ===== *)
theory QrMath
  imports JsPrelude
begin

text \<open>
  The arithmetic of the QR encoder, \<open>extension/lib/qrcode.js\<close>: the exponent and logarithm tables
  of \<open>QRMath\<close>, polynomials (\<open>qrPolynomial\<close>) and the generator polynomial. Arrays created by
  \<open>new Array(n)\<close> have holes: a cell is \<open>byte option\<close>, and \<open>None\<close> is undefined (or NaN once it
  went through an addition).
\<close>

unbundle bit_operations_syntax

datatype qr_error =
    GlogError byte
  | ArrayLength
  | StackOverflow
  | LengthOverflow nat nat
  | BadLengthMode nat
  | BadLengthType nat
  | IllegalChar
  | BadRsBlock nat nat
  | BadMode
  | SjisUnsupported
  | BadMaskPattern nat
  | OutOfRange int int
  | BadBase64
  | LengthOver
  | BadArray

type_synonym cell = "byte option"

section \<open>QRMath\<close>

definition exp_step :: "byte list \<Rightarrow> nat \<Rightarrow> byte list" where
  "exp_step t i = t @ [t ! (i - 4) XOR t ! (i - 5) XOR t ! (i - 6) XOR t ! (i - 8)]"

definition EXP_TABLE :: "byte list" where
  "EXP_TABLE = foldl exp_step (map (\<lambda>i. push_bit i 1) [0..<8]) [8..<256]"

definition log_step :: "nat option list \<Rightarrow> nat \<Rightarrow> nat option list" where
  "log_step t i = t[unat (EXP_TABLE ! i) := Some i]"

definition LOG_TABLE :: "nat option list" where
  "LOG_TABLE = foldl log_step (replicate 256 None) [0..<255]"

text \<open>The comparison with 1 is false for undefined, which then indexes the table to undefined.\<close>

fun glog :: "cell \<Rightarrow> qr_error + int option" where
  "glog None = Inr None"
| "glog (Some n) = (if n < 1 then Inl (GlogError n) else Inr (map_option int (LOG_TABLE ! unat n)))"

function raise_index :: "int \<Rightarrow> int" where
  "raise_index n = (if n < 0 then raise_index (n + 255) else n)"
  by pat_completeness auto
termination by (relation "measure (\<lambda>n. nat (- n))") auto

function lower_index :: "int \<Rightarrow> int" where
  "lower_index n = (if n \<ge> 256 then lower_index (n - 255) else n)"
  by pat_completeness auto
termination by (relation "measure nat") auto

declare raise_index.simps [simp del] lower_index.simps [simp del]

fun gexp :: "int option \<Rightarrow> cell" where
  "gexp None = None"
| "gexp (Some n) = Some (EXP_TABLE ! nat (lower_index (raise_index n)))"

text \<open>The operators on numbers that may be undefined: \<open>^\<close> reads it as 0, \<open>+\<close> and \<open>-\<close> give NaN.\<close>

definition cell_byte :: "cell \<Rightarrow> byte" where
  "cell_byte c = (case c of None \<Rightarrow> 0 | Some b \<Rightarrow> b)"

definition xor_cell :: "cell \<Rightarrow> cell \<Rightarrow> cell" where
  "xor_cell a b = Some (cell_byte a XOR cell_byte b)"

definition num_add :: "int option \<Rightarrow> int option \<Rightarrow> int option" where
  "num_add a b = (case (a, b) of (Some x, Some y) \<Rightarrow> Some (x + y) | _ \<Rightarrow> None)"

definition num_sub :: "int option \<Rightarrow> int option \<Rightarrow> int option" where
  "num_sub a b = (case (a, b) of (Some x, Some y) \<Rightarrow> Some (x - y) | _ \<Rightarrow> None)"

section \<open>qrPolynomial\<close>

type_synonym poly = "cell list"

definition qrPolynomial :: "cell list \<Rightarrow> nat \<Rightarrow> poly" where
  "qrPolynomial num shift = dropWhile (\<lambda>c. c = Some 0) num @ replicate shift None"

definition getAt :: "poly \<Rightarrow> nat \<Rightarrow> cell" where
  "getAt p i = (if i < length p then p ! i else None)"

fun mul_loop :: "poly \<Rightarrow> poly \<Rightarrow> (nat \<times> nat) list \<Rightarrow> cell list \<Rightarrow> qr_error + cell list" where
  "mul_loop p e [] num = Inr num"
| "mul_loop p e ((i, j) # ijs) num =
     rbind (glog (getAt p i)) (\<lambda>a. rbind (glog (getAt e j)) (\<lambda>b.
       mul_loop p e ijs (num[i + j := xor_cell (num ! (i + j)) (gexp (num_add a b))])))"

definition multiply :: "poly \<Rightarrow> poly \<Rightarrow> qr_error + poly" where
  "multiply p e =
     (if length p + length e = 0 then Inl ArrayLength
      else rbind (mul_loop p e (List.product [0..<length p] [0..<length e])
                    (replicate (length p + length e - 1) None))
             (\<lambda>num. Inr (qrPolynomial num 0)))"

fun sub_loop :: "poly \<Rightarrow> int option \<Rightarrow> nat list \<Rightarrow> cell list \<Rightarrow> qr_error + cell list" where
  "sub_loop e ratio [] num = Inr num"
| "sub_loop e ratio (i # is) num =
     rbind (glog (getAt e i)) (\<lambda>b. sub_loop e ratio is (num[i := xor_cell (num ! i) (gexp (num_add b ratio))]))"

text \<open>The recursion of \<open>mod\<close>; a recursion that does not come to an end is the stack overflow.\<close>

fun mod_fuel :: "nat \<Rightarrow> poly \<Rightarrow> poly \<Rightarrow> qr_error + poly" where
  "mod_fuel 0 p e = Inl StackOverflow"
| "mod_fuel (Suc fuel) p e =
     (if length p < length e then Inr p
      else rbind (glog (getAt p 0)) (\<lambda>a. rbind (glog (getAt e 0)) (\<lambda>b.
        rbind (sub_loop e (num_sub a b) [0..<length e] p) (\<lambda>num. mod_fuel fuel (qrPolynomial num 0) e))))"

definition poly_mod :: "poly \<Rightarrow> poly \<Rightarrow> qr_error + poly" where
  "poly_mod p e = mod_fuel (length p + 2) p e"

section \<open>Error correction of one block\<close>

fun generator_loop :: "nat list \<Rightarrow> poly \<Rightarrow> qr_error + poly" where
  "generator_loop [] a = Inr a"
| "generator_loop (i # is) a =
     rbind (multiply a (qrPolynomial [Some 1, gexp (Some (int i))] 0)) (generator_loop is)"

definition getErrorCorrectPolynomial :: "nat \<Rightarrow> qr_error + poly" where
  "getErrorCorrectPolynomial n = generator_loop [0..<n] (qrPolynomial [Some 1] 0)"

text \<open>The remainder, aligned to the right; a cell that \<open>mod\<close> left undefined stays undefined.\<close>

definition align_remainder :: "poly \<Rightarrow> nat \<Rightarrow> cell list" where
  "align_remainder modPoly len =
     map (\<lambda>i. let modIndex = int i + int (length modPoly) - int len
               in if modIndex \<ge> 0 then getAt modPoly (nat modIndex) else Some 0) [0..<len]"

definition block_ec :: "byte list \<Rightarrow> nat \<Rightarrow> qr_error + cell list" where
  "block_ec dcdata ecCount =
     rbind (getErrorCorrectPolynomial ecCount) (\<lambda>rsPoly.
       rbind (poly_mod (qrPolynomial (map Some dcdata) (length rsPoly - 1)) rsPoly) (\<lambda>modPoly.
         Inr (align_remainder modPoly (length rsPoly - 1))))"

end
