(* ===== verification/QrTablesCorrect.thy ===== *)
theory QrTablesCorrect
  imports QrTables
begin

text \<open>
  What the constants satisfy, checked row by row: for every type number and level the blocks
  fill exactly the number of codewords of the symbol, no block has more than 30 error correction
  bytes, and the alignment positions fit in the symbol.
\<close>

fun row_sums :: "nat list \<Rightarrow> nat \<times> nat" where
  "row_sums (n # t # d # rest) = (let (a, b) = row_sums rest in (n * t + a, n * d + b))"
| "row_sums _ = (0, 0)"

fun row_fits :: "nat list \<Rightarrow> bool" where
  "row_fits (n # t # d # rest) \<longleftrightarrow> 0 < n \<and> 0 < d \<and> d < t \<and> t \<le> d + 30 \<and> row_fits rest"
| "row_fits rest \<longleftrightarrow> rest = []"

text \<open>The number of codewords of a symbol, from the standard's module count.\<close>

definition alignment_count :: "nat \<Rightarrow> nat" where
  "alignment_count t = (if t = 1 then 0 else t div 7 + 2)"

definition raw_modules :: "nat \<Rightarrow> nat" where
  "raw_modules t = (16 * t + 128) * t + 64
     - (if t = 1 then 0 else (25 * alignment_count t - 10) * alignment_count t - 55) - (if t \<ge> 7 then 36 else 0)"

definition data_cap :: "nat \<Rightarrow> nat" where
  "data_cap t = (if t < 10 then 232 else if t < 27 then 1370 else 2956)"

definition row_ok :: "nat \<Rightarrow> nat list \<Rightarrow> bool" where
  "row_ok t row \<longleftrightarrow> row_fits row \<and> fst (row_sums row) = raw_modules t div 8 \<and> snd (row_sums row) \<le> data_cap t \<and> row \<noteq> []"

fun rows_ok :: "nat \<Rightarrow> nat list list \<Rightarrow> bool" where
  "rows_ok t (l # m # q # h # rest) \<longleftrightarrow> row_ok t l \<and> row_ok t m \<and> row_ok t q \<and> row_ok t h \<and> rows_ok (Suc t) rest"
| "rows_ok t rest \<longleftrightarrow> rest = []"

lemma rows_ok_low: "rows_ok 1 RS_BLOCK_TABLE_1_18"
  unfolding RS_BLOCK_TABLE_1_18_def
  by (simp add: row_ok_def raw_modules_def alignment_count_def data_cap_def)

lemma rows_ok_high: "rows_ok 19 RS_BLOCK_TABLE_19_40"
  unfolding RS_BLOCK_TABLE_19_40_def
  by (simp add: row_ok_def raw_modules_def alignment_count_def data_cap_def)

lemma rows_ok_nth: "rows_ok t rows \<Longrightarrow> i < length rows \<Longrightarrow> row_ok (t + i div 4) (rows ! i)"
proof (induction t rows arbitrary: i rule: rows_ok.induct)
  case (1 t l m q h rest)
  show ?case
  proof (cases "i < 4")
    case True
    then have "i = 0 \<or> i = 1 \<or> i = 2 \<or> i = 3" by auto
    then show ?thesis using 1(2) by auto
  next
    case False
    then obtain j where j: "i = j + 4" by (metis add.commute le_Suc_ex not_less)
    moreover have "(j + 4) div 4 = Suc (j div 4)" by simp
    ultimately show ?thesis using 1(1) [of j] 1(2,3) by simp
  qed
qed auto

lemma length_tables [simp]: "length RS_BLOCK_TABLE_1_18 = 72" "length RS_BLOCK_TABLE_19_40 = 88"
  by (simp_all add: RS_BLOCK_TABLE_1_18_def RS_BLOCK_TABLE_19_40_def)

lemma level_row_less [simp]: "level_row level < 4"
  by (cases level) simp_all

lemma table_row:
  assumes "getRsBlockTable t level = Some row"
  shows "1 \<le> t \<and> t \<le> 40 \<and> row_ok t row"
proof -
  let ?i = "(int t - 1) * 4 + int (level_row level)"
  have i: "0 \<le> ?i" "?i < 160" "row = RS_BLOCK_TABLE ! nat ?i"
    using assms by (auto simp: getRsBlockTable_def RS_BLOCK_TABLE_def Let_def split: if_splits)
  have lr: "level_row level < 4" by simp
  have t: "1 \<le> t" "t \<le> 40" using i(1,2) lr by presburger+
  have n: "nat ?i = (t - 1) * 4 + level_row level" using t by (simp add: of_nat_diff nat_add_distrib nat_mult_distrib flip: of_nat_diff)
  define k where "k = (t - 1) * 4 + level_row level"
  have "k div 4 = t - 1" using lr by (simp add: k_def)
  moreover have "k < 160" using t lr unfolding k_def by linarith
  ultimately have k: "k div 4 = t - 1" "k < 160" by simp_all
  have row: "row = RS_BLOCK_TABLE ! k" using i(3) n by (simp only: k_def)
  have "row_ok t row"
  proof (cases "k < 72")
    case True
    then show ?thesis using rows_ok_nth [OF rows_ok_low, of k] row k t by (simp add: RS_BLOCK_TABLE_def nth_append)
  next
    case False
    then have "19 + (k - 72) div 4 = t" using k t by linarith
    then show ?thesis using rows_ok_nth [OF rows_ok_high, of "k - 72"] row k False by (simp add: RS_BLOCK_TABLE_def nth_append)
  qed
  then show ?thesis using t by simp
qed

lemma table_exists: "1 \<le> t \<Longrightarrow> t \<le> 40 \<Longrightarrow> \<exists>row. getRsBlockTable t level = Some row"
  by (cases level) (auto simp: getRsBlockTable_def RS_BLOCK_TABLE_def Let_def)

lemma expand_sums:
  "row_fits row \<Longrightarrow> sum_list (map totalCount (expand_blocks row)) = fst (row_sums row)
     \<and> sum_list (map dataCount (expand_blocks row)) = snd (row_sums row)
     \<and> list_all (\<lambda>b. 0 < dataCount b \<and> dataCount b < totalCount b \<and> totalCount b \<le> dataCount b + 30) (expand_blocks row)"
  by (induction row rule: expand_blocks.induct)
    (auto simp: case_prod_unfold Let_def sum_list_replicate list_all_iff split: if_splits)

text \<open>
  The block table is consistent: for every type number and level the blocks together have
  the number of codewords that fits in the symbol (its data modules divided by eight), and
  every block has data and between 1 and 30 error correction bytes.
\<close>

theorem block_table_consistent:
  assumes "getRSBlocks t level = Inr blocks"
  shows "1 \<le> t \<and> t \<le> 40 \<and> sum_list (map totalCount blocks) = raw_modules t div 8
    \<and> list_all (\<lambda>b. 0 < dataCount b \<and> dataCount b < totalCount b \<and> totalCount b \<le> dataCount b + 30) blocks"
proof -
  obtain row where row: "getRsBlockTable t level = Some row" "blocks = expand_blocks row"
    using assms by (auto simp: getRSBlocks_def split: option.splits)
  then show ?thesis using table_row [OF row(1)] expand_sums [of row] by (simp add: row_ok_def)
qed

lemma block_table_consistent_witness:
  "sum_list (map totalCount [\<lparr>totalCount = 26, dataCount = 19\<rparr>]) = raw_modules 1 div 8"
proof -
  have "getRSBlocks 1 LevelL = Inr [\<lparr>totalCount = 26, dataCount = 19\<rparr>]"
    by (simp add: getRSBlocks_def getRsBlockTable_def RS_BLOCK_TABLE_def RS_BLOCK_TABLE_1_18_def)
  from block_table_consistent [OF this] show ?thesis by simp
qed

end
