(* ===== verification/QrData.thy ===== *)
theory QrData
  imports QrTables JsText
begin

text \<open>
  From text to codewords: the bit buffer, the four kinds of data, padding, and the blocks with
  their error correction interleaved.
\<close>

section \<open>qrBitBuffer\<close>

record bit_buffer =
  bb_buffer :: bytes
  bb_length :: nat

definition qrBitBuffer :: bit_buffer where
  "qrBitBuffer = \<lparr>bb_buffer = [], bb_length = 0\<rparr>"

definition bufferAt :: "bit_buffer \<Rightarrow> nat \<Rightarrow> bool" where
  "bufferAt b index = bit (bb_buffer b ! (index div 8)) (7 - index mod 8)"

definition putBit :: "bool \<Rightarrow> bit_buffer \<Rightarrow> bit_buffer" where
  "putBit dark b =
     (let bufIndex = bb_length b div 8;
          buffer = (if length (bb_buffer b) \<le> bufIndex then bb_buffer b @ [0] else bb_buffer b);
          buffer = (if dark then buffer[bufIndex := buffer ! bufIndex OR drop_bit (bb_length b mod 8) 0x80] else buffer)
      in \<lparr>bb_buffer = buffer, bb_length = bb_length b + 1\<rparr>)"

text \<open>The number is read as 32 unsigned bits, the shift count modulo 32.\<close>

definition put_bits :: "nat \<Rightarrow> nat \<Rightarrow> bool list" where
  "put_bits num len = map (\<lambda>i. bit (word_of_nat num :: 32 word) ((len - i - 1) mod 32)) [0..<len]"

definition put_num :: "nat \<Rightarrow> nat \<Rightarrow> bit_buffer \<Rightarrow> bit_buffer" where
  "put_num num len b = fold putBit (put_bits num len) b"

lemma length_put_bits [simp]: "length (put_bits num len) = len"
  by (simp add: put_bits_def)

lemma length_putBit [simp]: "bb_length (putBit dark b) = Suc (bb_length b)"
  by (simp add: putBit_def Let_def)

lemma length_fold_putBit [simp]: "bb_length (fold putBit bits b) = bb_length b + length bits"
  by (induction bits arbitrary: b) simp_all

lemma length_put_num [simp]: "bb_length (put_num num len b) = bb_length b + len"
  by (simp add: put_num_def)

section \<open>Kinds of data\<close>

definition digit_of :: "unit16 \<Rightarrow> qr_error + nat" where
  "digit_of c = (if cu CHR ''0'' \<le> c \<and> c \<le> cu CHR ''9'' then Inr (unat c - unat (cu CHR ''0'')) else Inl IllegalChar)"

fun strToNum :: "nat \<Rightarrow> jstr \<Rightarrow> qr_error + nat" where
  "strToNum num [] = Inr num"
| "strToNum num (c # s) = rbind (digit_of c) (\<lambda>d. strToNum (num * 10 + d) s)"

fun write_number :: "jstr \<Rightarrow> bit_buffer \<Rightarrow> qr_error + bit_buffer" where
  "write_number (a # b # c # rest) buf = rbind (strToNum 0 [a, b, c]) (\<lambda>n. write_number rest (put_num n 10 buf))"
| "write_number [a, b] buf = rbind (strToNum 0 [a, b]) (\<lambda>n. Inr (put_num n 7 buf))"
| "write_number [a] buf = rbind (strToNum 0 [a]) (\<lambda>n. Inr (put_num n 4 buf))"
| "write_number [] buf = Inr buf"

definition getCode :: "unit16 \<Rightarrow> qr_error + nat" where
  "getCode c =
     (if cu CHR ''0'' \<le> c \<and> c \<le> cu CHR ''9'' then Inr (unat c - unat (cu CHR ''0''))
      else if cu CHR ''A'' \<le> c \<and> c \<le> cu CHR ''Z'' then Inr (unat c - unat (cu CHR ''A'') + 10)
      else if c = cu CHR '' '' then Inr 36
      else if c = cu CHR ''$'' then Inr 37
      else if c = cu CHR ''%'' then Inr 38
      else if c = cu CHR ''*'' then Inr 39
      else if c = cu CHR ''+'' then Inr 40
      else if c = cu CHR ''-'' then Inr 41
      else if c = cu CHR ''.'' then Inr 42
      else if c = cu CHR ''/'' then Inr 43
      else if c = cu CHR '':'' then Inr 44
      else Inl IllegalChar)"

fun write_alpha :: "jstr \<Rightarrow> bit_buffer \<Rightarrow> qr_error + bit_buffer" where
  "write_alpha (a # b # rest) buf =
     rbind (getCode a) (\<lambda>x. rbind (getCode b) (\<lambda>y. write_alpha rest (put_num (x * 45 + y) 11 buf)))"
| "write_alpha [a] buf = rbind (getCode a) (\<lambda>x. Inr (put_num x 6 buf))"
| "write_alpha [] buf = Inr buf"

definition write_bytes :: "bytes \<Rightarrow> bit_buffer \<Rightarrow> bit_buffer" where
  "write_bytes bs buf = fold (\<lambda>b. put_num (unat b) 8) bs buf"

fun write_kanji :: "bytes \<Rightarrow> bit_buffer \<Rightarrow> qr_error + bit_buffer" where
  "write_kanji (a # b # rest) buf =
     (let c = unat a * 256 + unat b in
      if 0x8140 \<le> c \<and> c \<le> 0x9FFC then write_kanji rest (put_num ((c - 0x8140) div 256 * 0xC0 + (c - 0x8140) mod 256) 13 buf)
      else if 0xE040 \<le> c \<and> c \<le> 0xEBBF then write_kanji rest (put_num ((c - 0xC140) div 256 * 0xC0 + (c - 0xC140) mod 256) 13 buf)
      else Inl IllegalChar)"
| "write_kanji [a] buf = Inl IllegalChar"
| "write_kanji [] buf = Inr buf"

datatype qr_data = QrNumber jstr | QrAlphaNum jstr | Qr8BitByte bytes | QrKanji bytes

fun getMode :: "qr_data \<Rightarrow> nat" where
  "getMode (QrNumber s) = MODE_NUMBER"
| "getMode (QrAlphaNum s) = MODE_ALPHA_NUM"
| "getMode (Qr8BitByte bs) = MODE_8BIT_BYTE"
| "getMode (QrKanji bs) = MODE_KANJI"

fun getLength :: "qr_data \<Rightarrow> nat" where
  "getLength (QrNumber s) = length s"
| "getLength (QrAlphaNum s) = length s"
| "getLength (Qr8BitByte bs) = length bs"
| "getLength (QrKanji bs) = length bs div 2"

fun write_data :: "qr_data \<Rightarrow> bit_buffer \<Rightarrow> qr_error + bit_buffer" where
  "write_data (QrNumber s) buf = write_number s buf"
| "write_data (QrAlphaNum s) buf = write_alpha s buf"
| "write_data (Qr8BitByte bs) buf = Inr (write_bytes bs buf)"
| "write_data (QrKanji bs) buf = write_kanji bs buf"

section \<open>Text to bytes\<close>

definition default_bytes :: "jstr \<Rightarrow> bytes" where
  "default_bytes s = map ucast s"

text \<open>A unit past the end reads as NaN, whose bits are zero.\<close>

fun toUTF8Array :: "jstr \<Rightarrow> bytes" where
  "toUTF8Array [] = []"
| "toUTF8Array (c # s) =
     (let u = unat c in
      if u < 0x80 then of_nat u # toUTF8Array s
      else if u < 0x800 then of_nat (0xC0 + u div 64) # of_nat (0x80 + u mod 64) # toUTF8Array s
      else if u < 0xD800 \<or> u \<ge> 0xE000 then
        of_nat (0xE0 + u div 4096) # of_nat (0x80 + u div 64 mod 64) # of_nat (0x80 + u mod 64) # toUTF8Array s
      else
        (let low = (case s of [] \<Rightarrow> 0 | d # _ \<Rightarrow> unat d mod 1024);
             v = 0x10000 + (u mod 1024 * 1024 + low)
         in of_nat (0xF0 + v div 262144) # of_nat (0x80 + v div 4096 mod 64) # of_nat (0x80 + v div 64 mod 64)
              # of_nat (0x80 + v mod 64) # toUTF8Array (drop 1 s)))"

definition sjis_ok :: "(jstr \<Rightarrow> bytes) \<Rightarrow> bool" where
  "sjis_ok f \<longleftrightarrow> f [0x53CB] = [0x97, 0x46]"

definition qrKanji :: "(jstr \<Rightarrow> bytes) option \<Rightarrow> jstr \<Rightarrow> qr_error + qr_data" where
  "qrKanji sjis s =
     (case sjis of
        None \<Rightarrow> Inl SjisUnsupported
      | Some f \<Rightarrow> if sjis_ok f then Inr (QrKanji (f s)) else Inl SjisUnsupported)"

text \<open>\<open>toBytes\<close> and \<open>sjis\<close> are the entries of \<open>stringToBytes\<close> in force; an absent mode is 'Byte'.\<close>

definition make_data :: "(jstr \<Rightarrow> bytes) \<Rightarrow> (jstr \<Rightarrow> bytes) option \<Rightarrow> jstr \<Rightarrow> jstr \<Rightarrow> qr_error + qr_data" where
  "make_data toBytes sjis s mode0 =
     (let mode = (if mode0 = [] then js ''Byte'' else mode0) in
      if mode = js ''Numeric'' then Inr (QrNumber s)
      else if mode = js ''Alphanumeric'' then Inr (QrAlphaNum s)
      else if mode = js ''Byte'' then Inr (Qr8BitByte (toBytes s))
      else if mode = js ''Kanji'' then qrKanji sjis s
      else Inl BadMode)"

section \<open>createData\<close>

fun write_segments :: "nat \<Rightarrow> qr_data list \<Rightarrow> bit_buffer \<Rightarrow> qr_error + bit_buffer" where
  "write_segments typeNumber [] buf = Inr buf"
| "write_segments typeNumber (d # ds) buf =
     rbind (getLengthInBits (getMode d) typeNumber) (\<lambda>n.
       rbind (write_data d (put_num (getLength d) n (put_num (getMode d) 4 buf))) (write_segments typeNumber ds))"

definition total_data :: "rs_block list \<Rightarrow> nat" where
  "total_data rsBlocks = sum_list (map dataCount rsBlocks)"

definition end_code :: "nat \<Rightarrow> bit_buffer \<Rightarrow> bit_buffer" where
  "end_code cap buf = (if bb_length buf + 4 \<le> cap * 8 then put_num 0 4 buf else buf)"

function pad_bits :: "bit_buffer \<Rightarrow> bit_buffer" where
  "pad_bits buf = (if bb_length buf mod 8 \<noteq> 0 then pad_bits (putBit False buf) else buf)"
  by pat_completeness auto
termination
  by (relation "measure (\<lambda>b. (8 - bb_length b mod 8) mod 8)") (auto simp: putBit_def Let_def mod_Suc)

function pad_bytes :: "nat \<Rightarrow> bit_buffer \<Rightarrow> bit_buffer" where
  "pad_bytes cap buf =
     (if bb_length buf \<ge> cap * 8 then buf
      else let buf1 = put_num 0xEC 8 buf in
        if bb_length buf1 \<ge> cap * 8 then buf1 else pad_bytes cap (put_num 0x11 8 buf1))"
  by pat_completeness auto
termination by (relation "measure (\<lambda>(cap, b). cap * 8 - bb_length b)") auto

declare pad_bits.simps [simp del] pad_bytes.simps [simp del]

definition data_buffer :: "rs_block list \<Rightarrow> nat \<Rightarrow> qr_data list \<Rightarrow> qr_error + bit_buffer" where
  "data_buffer rsBlocks typeNumber dataList =
     rbind (write_segments typeNumber dataList qrBitBuffer) (\<lambda>buf.
       let cap = total_data rsBlocks in
       if bb_length buf > cap * 8 then Inl (LengthOverflow (bb_length buf) (cap * 8))
       else Inr (pad_bytes cap (pad_bits (end_code cap buf))))"

section \<open>createBytes\<close>

definition buffer_byte :: "bytes \<Rightarrow> nat \<Rightarrow> byte" where
  "buffer_byte buf i = (if i < length buf then buf ! i else 0)"

fun split_blocks :: "bytes \<Rightarrow> nat \<Rightarrow> rs_block list \<Rightarrow> qr_error + (bytes \<times> cell list) list" where
  "split_blocks buf offset [] = Inr []"
| "split_blocks buf offset (r # rs) =
     (let dcdata = map (\<lambda>i. buffer_byte buf (i + offset)) [0..<dataCount r] in
      rbind (block_ec dcdata (totalCount r - dataCount r)) (\<lambda>ec.
        rbind (split_blocks buf (offset + dataCount r) rs) (\<lambda>rest. Inr ((dcdata, ec) # rest))))"

definition column :: "nat \<Rightarrow> 'a list list \<Rightarrow> 'a list" where
  "column i rows = concat (map (\<lambda>row. if i < length row then [row ! i] else []) rows)"

definition interleave :: "nat \<Rightarrow> 'a list list \<Rightarrow> 'a list" where
  "interleave n rows = concat (map (\<lambda>i. column i rows) [0..<n])"

definition createBytes :: "bytes \<Rightarrow> rs_block list \<Rightarrow> qr_error + cell list" where
  "createBytes buf rsBlocks =
     rbind (split_blocks buf 0 rsBlocks) (\<lambda>blocks.
       let maxDcCount = fold max (map dataCount rsBlocks) 0;
           maxEcCount = fold max (map (\<lambda>r. totalCount r - dataCount r) rsBlocks) 0;
           totalCodeCount = sum_list (map totalCount rsBlocks);
           written = interleave maxDcCount (map (map Some \<circ> fst) blocks) @ interleave maxEcCount (map snd blocks)
       in Inr (written @ replicate (totalCodeCount - length written) None))"

definition createData :: "nat \<Rightarrow> qr_level \<Rightarrow> qr_data list \<Rightarrow> qr_error + cell list" where
  "createData typeNumber level dataList =
     rbind (getRSBlocks typeNumber level) (\<lambda>rsBlocks.
       rbind (data_buffer rsBlocks typeNumber dataList) (\<lambda>buf. createBytes (bb_buffer buf) rsBlocks))"

end
