(* ===== verification/QrDataCorrect.thy ===== *)
theory QrDataCorrect
  imports QrData QrTablesCorrect Utf8
begin

text \<open>
  What a reader gets out of the bit buffer: the buffer holds the bits put into it, a reader of
  segments recovers the data, and the codewords fill the capacity.
\<close>

section \<open>The bits of a buffer\<close>

definition buf_ok :: "bit_buffer \<Rightarrow> bool" where
  "buf_ok b \<longleftrightarrow> length (bb_buffer b) = (bb_length b + 7) div 8
     \<and> (\<forall>i. bb_length b \<le> i \<longrightarrow> i < 8 * length (bb_buffer b) \<longrightarrow> \<not> bufferAt b i)"

definition bit_list :: "bit_buffer \<Rightarrow> bool list" where
  "bit_list b = map (bufferAt b) [0..<bb_length b]"

definition byte_bits :: "byte \<Rightarrow> bool list" where
  "byte_bits b = map (\<lambda>i. bit b (7 - i)) [0..<8]"

definition bytes_bits :: "bytes \<Rightarrow> bool list" where
  "bytes_bits bs = concat (map byte_bits bs)"

lemma bit_128: "bit (0x80 :: byte) i \<longleftrightarrow> i = 7"
  by (cases "i < 8") (auto simp: less_Suc_eq numeral_eq_Suc dest: bit_imp_le_length)

lemma bit_top: "k < 8 \<Longrightarrow> bit (drop_bit k (0x80 :: byte)) j \<longleftrightarrow> j = 7 - k"
  unfolding bit_drop_bit_eq o_apply bit_128 by auto

lemma qrBitBuffer_ok [simp]: "buf_ok qrBitBuffer" "bit_list qrBitBuffer = []"
  by (simp_all add: qrBitBuffer_def buf_ok_def bit_list_def)

lemma putBit_at:
  assumes "buf_ok b" "i < 8 * length (bb_buffer (putBit d b))"
  shows "bufferAt (putBit d b) i = (if i = bb_length b then d else bufferAt b i \<and> i < bb_length b)"
proof -
  let ?n = "bb_length b"
  define buf where "buf = (if length (bb_buffer b) \<le> ?n div 8 then bb_buffer b @ [0] else bb_buffer b)"
  have len: "length (bb_buffer b) = (?n + 7) div 8" using assms(1) by (simp add: buf_ok_def)
  have k: "?n div 8 < length buf" using len by (auto simp: buf_def)
  have b: "bb_buffer (putBit d b) = (if d then buf[?n div 8 := buf ! (?n div 8) OR drop_bit (?n mod 8) 0x80] else buf)"
    by (simp add: putBit_def buf_def Let_def)
  have old: "bit (buf ! (i div 8)) (7 - i mod 8) \<longleftrightarrow> bufferAt b i \<and> i < ?n"
  proof (cases "i div 8 < length (bb_buffer b)")
    case True
    then have "i < 8 * length (bb_buffer b)" by (simp add: div_less_iff_less_mult mult.commute)
    moreover from this have "bufferAt b i \<Longrightarrow> i < ?n" using assms(1) unfolding buf_ok_def by (meson not_less)
    ultimately show ?thesis using True by (auto simp: bufferAt_def buf_def nth_append)
  next
    case False
    then have "i div 8 = length (bb_buffer b)" "length (bb_buffer b) \<le> ?n div 8" using assms(2) b by (auto simp: buf_def split: if_splits)
    then show ?thesis using len by (auto simp: buf_def nth_append)
  qed
  have "7 - i mod 8 = 7 - ?n mod 8 \<longleftrightarrow> i mod 8 = ?n mod 8"
  proof -
    have "i mod 8 < 8" "?n mod 8 < 8" by simp_all
    then show ?thesis by linarith
  qed
  then have "bit (buf ! (i div 8) OR drop_bit (?n mod 8) 0x80) (7 - i mod 8) \<longleftrightarrow> (bufferAt b i \<and> i < ?n) \<or> i mod 8 = ?n mod 8"
    using old by (simp add: bit_or_iff bit_top)
  moreover have n: "i = ?n \<longleftrightarrow> i div 8 = ?n div 8 \<and> i mod 8 = ?n mod 8" by (metis div_mult_mod_eq)
  moreover have "bufferAt (putBit d b) i = bit ((if d \<and> i div 8 = ?n div 8
      then buf ! (?n div 8) OR drop_bit (?n mod 8) 0x80 else buf ! (i div 8))) (7 - i mod 8)"
    unfolding bufferAt_def b using k by (cases d) (auto simp: nth_list_update)
  ultimately show ?thesis using old by (cases d; cases "i div 8 = ?n div 8") (simp_all only: if_True if_False simp_thms, auto)
qed

lemma putBit_ok:
  assumes "buf_ok b"
  shows "buf_ok (putBit d b)" "bit_list (putBit d b) = bit_list b @ [d]"
proof -
  have len: "length (bb_buffer b) = (bb_length b + 7) div 8" using assms by (simp add: buf_ok_def)
  have len': "length (bb_buffer (putBit d b)) = (Suc (bb_length b) + 7) div 8"
    using len by (auto simp: putBit_def Let_def)
  then show "buf_ok (putBit d b)" by (auto simp: buf_ok_def putBit_at [OF assms])
  have "bufferAt (putBit d b) i = (if i = bb_length b then d else bufferAt b i)" if "i \<le> bb_length b" for i
    using putBit_at [OF assms, of i d] that len' by auto
  then show "bit_list (putBit d b) = bit_list b @ [d]" by (simp add: bit_list_def)
qed

lemma fold_putBit_ok:
  "buf_ok b \<Longrightarrow> buf_ok (fold putBit bits b) \<and> bit_list (fold putBit bits b) = bit_list b @ bits"
  by (induction bits arbitrary: b) (simp_all add: putBit_ok)

lemma put_num_ok [simp]:
  assumes "buf_ok b"
  shows "buf_ok (put_num n len b)" "bit_list (put_num n len b) = bit_list b @ put_bits n len"
  using fold_putBit_ok [OF assms] by (simp_all add: put_num_def)

lemma length_bit_list [simp]: "length (bit_list b) = bb_length b"
  by (simp add: bit_list_def)

lemma length_byte_bits [simp]: "length (byte_bits b) = 8"
  by (simp add: byte_bits_def)

lemma length_bytes_bits [simp]: "length (bytes_bits bs) = 8 * length bs"
  by (induction bs) (simp_all add: bytes_bits_def)

lemma nth_bytes_bits: "i < 8 * length bs \<Longrightarrow> bytes_bits bs ! i = bit (bs ! (i div 8)) (7 - i mod 8)"
proof (induction bs arbitrary: i)
  case (Cons b bs)
  show ?case
  proof (cases "i < 8")
    case True
    then show ?thesis by (simp add: bytes_bits_def nth_append byte_bits_def)
  next
    case False
    then have "i div 8 = Suc ((i - 8) div 8)" "i mod 8 = (i - 8) mod 8" by (simp_all add: le_div_geq le_mod_geq)
    then show ?thesis using Cons.IH [of "i - 8"] Cons.prems False by (simp add: bytes_bits_def nth_append)
  qed
qed simp

lemma bytes_bits_buffer: "buf_ok b \<Longrightarrow> bb_length b mod 8 = 0 \<Longrightarrow> bytes_bits (bb_buffer b) = bit_list b"
  by (intro nth_equalityI) (auto simp: buf_ok_def bit_list_def nth_bytes_bits bufferAt_def)

section \<open>Numbers\<close>

definition nat_of_bits :: "bool list \<Rightarrow> nat" where
  "nat_of_bits bs = foldl (\<lambda>n b. 2 * n + of_bool b) 0 bs"

lemma nat_of_bits_snoc: "nat_of_bits (bs @ [b]) = 2 * nat_of_bits bs + of_bool b"
  by (simp add: nat_of_bits_def)

lemma nat_of_bits_horner: "nat_of_bits (rev bs) = horner_sum of_bool 2 bs"
proof (induction bs)
  case (Cons b bs)
  then show ?case by (simp add: nat_of_bits_snoc)
qed (simp add: nat_of_bits_def)

lemma put_bits_rev: "len \<le> 32 \<Longrightarrow> put_bits n len = rev (map (bit (word_of_nat n :: 32 word)) [0..<len])"
  by (intro nth_equalityI) (auto simp: put_bits_def rev_nth)

lemma nat_of_put_bits [simp]:
  assumes "len < 32" "n < 2 ^ len"
  shows "nat_of_bits (put_bits n len) = n"
proof -
  have "n < 2 ^ 32" using assms power_strict_increasing [of len 32 "2 :: nat"] by linarith
  have "nat_of_bits (put_bits n len) = horner_sum of_bool 2 (map (bit (word_of_nat n :: 32 word)) [0..<len])"
    using assms(1) by (simp add: put_bits_rev nat_of_bits_horner)
  also have "\<dots> = horner_sum of_bool 2 (map (bit (unat (word_of_nat n :: 32 word))) [0..<len])"
    using assms(1) by (intro arg_cong [where f = "horner_sum of_bool 2"] map_cong refl) (simp add: bit_unsigned_iff)
  also have "\<dots> = take_bit len (unat (word_of_nat n :: 32 word))" by (rule horner_sum_bit_eq_take_bit)
  also have "unat (word_of_nat n :: 32 word) = n" using \<open>n < 2 ^ 32\<close> by (simp add: unat_of_nat)
  finally show ?thesis using assms(2) by (simp add: take_bit_nat_eq_self_iff)
qed

section \<open>A reader of segments\<close>

definition take_num :: "nat \<Rightarrow> bool list \<Rightarrow> (nat \<times> bool list) option" where
  "take_num len bs = (if length bs < len then None else Some (nat_of_bits (take len bs), drop len bs))"

lemma take_num_put [simp]: "len < 32 \<Longrightarrow> n < 2 ^ len \<Longrightarrow> take_num len (put_bits n len @ rest) = Some (n, rest)"
  by (simp add: take_num_def)

definition digit_char :: "nat \<Rightarrow> unit16" where
  "digit_char d = cu CHR ''0'' + of_nat d"

definition alpha_char :: "nat \<Rightarrow> unit16" where
  "alpha_char v = (if v < 10 then digit_char v else if v < 36 then cu CHR ''A'' + of_nat (v - 10)
     else js '' $%*+-./:'' ! (v - 36))"

fun read_digits :: "nat \<Rightarrow> bool list \<Rightarrow> (jstr \<times> bool list) option" where
  "read_digits (Suc (Suc (Suc n))) bs =
     (case take_num 10 bs of None \<Rightarrow> None | Some (v, bs) \<Rightarrow>
        map_option (\<lambda>(s, r). (digit_char (v div 100) # digit_char (v div 10 mod 10) # digit_char (v mod 10) # s, r)) (read_digits n bs))"
| "read_digits (Suc (Suc 0)) bs =
     map_option (\<lambda>(v, r). ([digit_char (v div 10), digit_char (v mod 10)], r)) (take_num 7 bs)"
| "read_digits (Suc 0) bs = map_option (\<lambda>(v, r). ([digit_char v], r)) (take_num 4 bs)"
| "read_digits 0 bs = Some ([], bs)"

fun read_alpha :: "nat \<Rightarrow> bool list \<Rightarrow> (jstr \<times> bool list) option" where
  "read_alpha (Suc (Suc n)) bs =
     (case take_num 11 bs of None \<Rightarrow> None | Some (v, bs) \<Rightarrow>
        map_option (\<lambda>(s, r). (alpha_char (v div 45) # alpha_char (v mod 45) # s, r)) (read_alpha n bs))"
| "read_alpha (Suc 0) bs = map_option (\<lambda>(v, r). ([alpha_char v], r)) (take_num 6 bs)"
| "read_alpha 0 bs = Some ([], bs)"

fun read_bytes :: "nat \<Rightarrow> bool list \<Rightarrow> (bytes \<times> bool list) option" where
  "read_bytes (Suc n) bs =
     (case take_num 8 bs of None \<Rightarrow> None | Some (v, bs) \<Rightarrow> map_option (\<lambda>(s, r). (of_nat v # s, r)) (read_bytes n bs))"
| "read_bytes 0 bs = Some ([], bs)"

definition read_content :: "nat \<Rightarrow> nat \<Rightarrow> bool list \<Rightarrow> (qr_data \<times> bool list) option" where
  "read_content mode n bs =
     (if mode = MODE_NUMBER then map_option (\<lambda>(s, r). (QrNumber s, r)) (read_digits n bs)
      else if mode = MODE_ALPHA_NUM then map_option (\<lambda>(s, r). (QrAlphaNum s, r)) (read_alpha n bs)
      else if mode = MODE_8BIT_BYTE then map_option (\<lambda>(s, r). (Qr8BitByte s, r)) (read_bytes n bs)
      else None)"

text \<open>A mode of 0, or fewer bits than a mode has, ends the symbol.\<close>

fun read_segments :: "nat \<Rightarrow> nat \<Rightarrow> bool list \<Rightarrow> qr_data list option" where
  "read_segments 0 typeNumber bs = None"
| "read_segments (Suc fuel) typeNumber bs =
     (case take_num 4 bs of
        None \<Rightarrow> Some []
      | Some (mode, bs1) \<Rightarrow>
          if mode = 0 then Some []
          else (case getLengthInBits mode typeNumber of
                  Inl e \<Rightarrow> None
                | Inr len \<Rightarrow>
                    (case take_num len bs1 of
                       None \<Rightarrow> None
                     | Some (n, bs2) \<Rightarrow>
                         (case read_content mode n bs2 of
                            None \<Rightarrow> None
                          | Some (d, rest) \<Rightarrow> map_option ((#) d) (read_segments fuel typeNumber rest)))))"

section \<open>Reading what was written\<close>

lemma digit_of_char: "digit_of c = Inr d \<Longrightarrow> d < 10 \<and> digit_char d = c"
  by (auto simp: digit_of_def digit_char_def cu_def word_le_nat_alt split: if_splits)

lemma getCode_char: "getCode c = Inr v \<Longrightarrow> v < 45 \<and> alpha_char v = c"
  by (auto simp: getCode_def alpha_char_def digit_char_def cu_def word_le_nat_alt split: if_splits)

text \<open>What one writer adds to the buffer: \<open>read\<close> gets the content back, whatever follows.\<close>

definition adds :: "bit_buffer \<Rightarrow> bit_buffer \<Rightarrow> bool list \<Rightarrow> bool" where
  "adds b b' bits \<longleftrightarrow> buf_ok b' \<and> bit_list b' = bit_list b @ bits"

lemma adds_refl: "buf_ok b \<Longrightarrow> adds b b []"
  by (simp add: adds_def)

lemma adds_put: "buf_ok b \<Longrightarrow> adds b (put_num n len b) (put_bits n len)"
  by (simp add: adds_def)

lemma adds_trans: "adds a b xs \<Longrightarrow> adds b c ys \<Longrightarrow> adds a c (xs @ ys)"
  by (simp add: adds_def)

lemma adds_ok: "adds a b xs \<Longrightarrow> buf_ok b"
  by (simp add: adds_def)

lemma adds_length: "adds a b xs \<Longrightarrow> bb_length b = bb_length a + length xs"
  unfolding adds_def by (metis length_append length_bit_list)

lemma three_digits:
  assumes "d < 10" "e < 10" "f < (10 :: nat)"
  shows "((d * 10 + e) * 10 + f) div 100 = d" "((d * 10 + e) * 10 + f) div 10 mod 10 = e"
    "((d * 10 + e) * 10 + f) mod 10 = f" "(d * 10 + e) * 10 + f < 1000"
proof -
  have ten: "((d * 10 + e) * 10 + f) div 10 = d * 10 + e" by (rule div_nat_eqI) (use assms in auto)
  then show "((d * 10 + e) * 10 + f) div 10 mod 10 = e" by (simp only:) (use assms in simp)
  show "((d * 10 + e) * 10 + f) div 100 = d" by (rule div_nat_eqI) (use assms in auto)
  show "((d * 10 + e) * 10 + f) mod 10 = f" by (subst mod_mult_self3) (use assms in simp)
qed (use assms in auto)

lemma write_number_reads:
  "write_number s b = Inr b' \<Longrightarrow> buf_ok b \<Longrightarrow>
   \<exists>bits. adds b b' bits \<and> 10 * length s \<le> 3 * length bits \<and> (\<forall>rest. read_digits (length s) (bits @ rest) = Some (s, rest))"
proof (induction s b rule: write_number.induct)
  case (1 x y z s b)
  obtain n where n: "strToNum 0 [x, y, z] = Inr n" and w: "write_number s (put_num n 10 b) = Inr b'"
    using 1(2) by (auto simp: rbind_eq_Inr_iff)
  then obtain d e f where d: "digit_of x = Inr d" "digit_of y = Inr e" "digit_of z = Inr f" "n = (d * 10 + e) * 10 + f"
    by (auto simp: rbind_eq_Inr_iff)
  then have lt: "d < 10" "e < 10" "f < 10" and c: "digit_char d = x" "digit_char e = y" "digit_char f = z"
    using digit_of_char by blast+
  have v: "n < 1000" "n div 100 = d" "n div 10 mod 10 = e" "n mod 10 = f"
    unfolding d(4) using three_digits [OF lt] by auto
  obtain bits where bits: "adds (put_num n 10 b) b' bits" "10 * length s \<le> 3 * length bits"
    "\<forall>rest. read_digits (length s) (bits @ rest) = Some (s, rest)"
    using 1(1) [OF n w] 1(3) by auto
  show ?case
  proof (intro exI conjI allI)
    show "adds b b' (put_bits n 10 @ bits)" by (rule adds_trans [OF adds_put [OF 1(3)] bits(1)])
  qed (use bits v c in auto)
next
  case (2 x y b)
  then obtain d e where d: "digit_of x = Inr d" "digit_of y = Inr e" "b' = put_num (d * 10 + e) 7 b"
    by (auto simp: rbind_eq_Inr_iff)
  then have "d < 10" "e < 10" "digit_char d = x" "digit_char e = y" using digit_of_char by blast+
  then show ?case using d(3) adds_put [OF 2(2)] by (intro exI [of _ "put_bits (d * 10 + e) 7"]) auto
next
  case (3 x b)
  then obtain d where d: "digit_of x = Inr d" "b' = put_num d 4 b" by (auto simp: rbind_eq_Inr_iff)
  then have "d < 10" "digit_char d = x" using digit_of_char by blast+
  then show ?case using d(2) adds_put [OF 3(2)] by (intro exI [of _ "put_bits d 4"]) auto
qed (use adds_refl in auto)

lemma write_alpha_reads:
  "write_alpha s b = Inr b' \<Longrightarrow> buf_ok b \<Longrightarrow>
   \<exists>bits. adds b b' bits \<and> 11 * length s \<le> 2 * length bits \<and> (\<forall>rest. read_alpha (length s) (bits @ rest) = Some (s, rest))"
proof (induction s b rule: write_alpha.induct)
  case (1 x y s b)
  obtain d e where d: "getCode x = Inr d" "getCode y = Inr e" and w: "write_alpha s (put_num (d * 45 + e) 11 b) = Inr b'"
    using 1(2) by (auto simp: rbind_eq_Inr_iff)
  then have lt: "d < 45" "e < 45" and c: "alpha_char d = x" "alpha_char e = y" using getCode_char by blast+
  obtain bits where bits: "adds (put_num (d * 45 + e) 11 b) b' bits" "11 * length s \<le> 2 * length bits"
    "\<forall>rest. read_alpha (length s) (bits @ rest) = Some (s, rest)"
    using 1(1) [OF d w] 1(3) by auto
  show ?case
  proof (intro exI conjI allI)
    show "adds b b' (put_bits (d * 45 + e) 11 @ bits)" by (rule adds_trans [OF adds_put [OF 1(3)] bits(1)])
  qed (use bits lt c in auto)
next
  case (2 x b)
  then obtain d where d: "getCode x = Inr d" "b' = put_num d 6 b" by (auto simp: rbind_eq_Inr_iff)
  then have "d < 45" "alpha_char d = x" using getCode_char by blast+
  then show ?case using d(2) adds_put [OF 2(2)] by (intro exI [of _ "put_bits d 6"]) auto
qed (use adds_refl in auto)

lemma write_bytes_reads:
  "buf_ok b \<Longrightarrow> \<exists>bits. adds b (write_bytes bs b) bits \<and> length bits = 8 * length bs
     \<and> (\<forall>rest. read_bytes (length bs) (bits @ rest) = Some (bs, rest))"
proof (induction bs arbitrary: b)
  case (Cons x bs)
  let ?b = "put_num (unat x) 8 b"
  obtain bits where bits: "adds ?b (write_bytes bs ?b) bits" "length bits = 8 * length bs"
    "\<forall>rest. read_bytes (length bs) (bits @ rest) = Some (bs, rest)"
    using Cons.IH [of ?b] Cons.prems by auto
  show ?case
  proof (intro exI conjI allI)
    show "adds b (write_bytes (x # bs) b) (put_bits (unat x) 8 @ bits)"
      using adds_trans [OF adds_put [OF Cons.prems] bits(1)] by (simp add: write_bytes_def)
  qed (use bits in auto)
qed (use adds_refl in \<open>auto simp: write_bytes_def\<close>)

fun readable :: "qr_data \<Rightarrow> bool" where
  "readable (QrKanji bs) \<longleftrightarrow> False"
| "readable _ \<longleftrightarrow> True"

lemma mode_simps [simp]: "MODE_NUMBER = 1" "MODE_ALPHA_NUM = 2" "MODE_8BIT_BYTE = 4" "MODE_KANJI = 8"
  by (simp_all add: MODE_NUMBER_def MODE_ALPHA_NUM_def MODE_8BIT_BYTE_def MODE_KANJI_def)

lemma write_data_reads:
  assumes "write_data d b = Inr b'" "buf_ok b" "readable d"
  shows "\<exists>bits. adds b b' bits \<and> 10 * getLength d \<le> 3 * length bits
    \<and> (getMode d \<noteq> MODE_NUMBER \<longrightarrow> 11 * getLength d \<le> 2 * length bits)
    \<and> (getMode d = MODE_8BIT_BYTE \<longrightarrow> 8 * getLength d \<le> length bits)
    \<and> (\<forall>rest. read_content (getMode d) (getLength d) (bits @ rest) = Some (d, rest))"
proof (cases d)
  case (QrNumber s)
  then show ?thesis using write_number_reads [of s b b'] assms by (auto simp: read_content_def)
next
  case (QrAlphaNum s)
  then obtain bits where "adds b b' bits" "11 * length s \<le> 2 * length bits"
    "\<forall>rest. read_alpha (length s) (bits @ rest) = Some (s, rest)"
    using write_alpha_reads [of s b b'] assms by auto
  then show ?thesis using QrAlphaNum by (intro exI [of _ bits]) (auto simp: read_content_def)
next
  case (Qr8BitByte bs)
  then obtain bits where "adds b b' bits" "length bits = 8 * length bs"
    "\<forall>rest. read_bytes (length bs) (bits @ rest) = Some (bs, rest)"
    using write_bytes_reads [of b bs] assms by auto
  then show ?thesis using Qr8BitByte by (intro exI [of _ bits]) (auto simp: read_content_def)
qed (use assms in simp)

text \<open>The capacity in bits up to which no length field can overflow.\<close>

definition field_cap :: "nat \<Rightarrow> nat" where
  "field_cap t = (if t < 10 then 1856 else if t < 27 then 10960 else 23648)"

lemma length_field:
  assumes "getLengthInBits (getMode d) t = Inr len" "readable d" "length bits \<le> field_cap t"
    and "10 * getLength d \<le> 3 * length bits" "getMode d \<noteq> MODE_NUMBER \<longrightarrow> 11 * getLength d \<le> 2 * length bits"
    and "getMode d = MODE_8BIT_BYTE \<longrightarrow> 8 * getLength d \<le> length bits"
  shows "len < 32 \<and> getLength d < 2 ^ len"
  using assms by (cases d) (auto simp: getLengthInBits_def field_cap_def split: if_splits)

lemma write_segments_reads:
  "write_segments t ds b = Inr b' \<Longrightarrow> buf_ok b \<Longrightarrow> list_all readable ds \<Longrightarrow> bb_length b' \<le> field_cap t \<Longrightarrow>
   \<exists>bits. adds b b' bits \<and> (\<forall>fuel rest. read_segments (length ds + fuel) t (bits @ rest)
      = map_option ((@) ds) (read_segments fuel t rest))"
proof (induction ds arbitrary: b)
  case Nil
  then show ?case using adds_refl by (intro exI [of _ "[]"]) (auto simp: option.map_id0 [unfolded id_def])
next
  case (Cons d ds)
  let ?m = "put_num (getMode d) 4 b"
  obtain len b1 where len: "getLengthInBits (getMode d) t = Inr len"
    and d: "write_data d (put_num (getLength d) len ?m) = Inr b1" and w: "write_segments t ds b1 = Inr b'"
    using Cons.prems(1) by (auto simp: rbind_eq_Inr_iff)
  have ok: "buf_ok (put_num (getLength d) len ?m)" using Cons.prems(2) by simp
  obtain bits where bits: "adds (put_num (getLength d) len ?m) b1 bits" "10 * getLength d \<le> 3 * length bits"
    "getMode d \<noteq> MODE_NUMBER \<longrightarrow> 11 * getLength d \<le> 2 * length bits"
    "getMode d = MODE_8BIT_BYTE \<longrightarrow> 8 * getLength d \<le> length bits"
    "\<forall>rest. read_content (getMode d) (getLength d) (bits @ rest) = Some (d, rest)"
    using write_data_reads [OF d ok] Cons.prems(3) by auto
  obtain more_bits where mb: "adds b1 b' more_bits"
    "\<forall>fuel rest. read_segments (length ds + fuel) t (more_bits @ rest) = map_option ((@) ds) (read_segments fuel t rest)"
    using Cons.IH [OF w adds_ok [OF bits(1)]] Cons.prems(3,4) by auto
  have "length bits \<le> field_cap t" using adds_length [OF bits(1)] adds_length [OF mb(1)] Cons.prems(4) by simp
  then have fit: "len < 32" "getLength d < 2 ^ len" using length_field [OF len _ _ bits(2-4)] Cons.prems(3) by auto
  have mode: "getMode d < 2 ^ 4" "getMode d \<noteq> 0" using Cons.prems(3) by (cases d; simp)+
  let ?all = "put_bits (getMode d) 4 @ put_bits (getLength d) len @ bits @ more_bits"
  have "adds b b' ?all"
    using adds_trans [OF adds_put [OF Cons.prems(2)] adds_trans [OF adds_put adds_trans [OF bits(1) mb(1)]]] Cons.prems(2) by simp
  moreover have "read_segments (length (d # ds) + fuel) t (?all @ rest) = map_option ((@) (d # ds)) (read_segments fuel t rest)"
    for fuel rest
    using bits(5) mb(2) len fit mode by (simp add: option.map_comp o_def append_Cons [abs_def])
  ultimately show ?case by blast
qed

section \<open>Padding\<close>

lemma put_bits_0: "put_bits 0 n = replicate n False"
  by (intro nth_equalityI) (simp_all add: put_bits_def)

lemma round_up_Suc: "n mod 8 \<noteq> 0 \<Longrightarrow> (Suc n + 7) div 8 = (n + 7) div (8 :: nat)"
proof -
  assume "n mod 8 \<noteq> 0"
  then obtain q m where "n = 8 * q + m" "m < 8" "0 < m"
    by (metis mod_less_divisor mult_div_mod_eq neq0_conv zero_less_numeral)
  then have "(Suc n + 7) div 8 = q + 1" "(n + 7) div 8 = q + 1" by (auto intro!: div_nat_eqI)
  then show ?thesis by simp
qed

lemma pad_bits_adds:
  "buf_ok b \<Longrightarrow> \<exists>k. adds b (pad_bits b) (replicate k False) \<and> bb_length (pad_bits b) = (bb_length b + 7) div 8 * 8"
proof (induction b rule: pad_bits.induct)
  case (1 b)
  show ?case
  proof (cases "bb_length b mod 8 = 0")
    case True
    then have "pad_bits b = b" by (simp add: pad_bits.simps)
    then show ?thesis using True 1(2) by (intro exI [of _ 0]) (auto simp: adds_def)
  next
    case False
    then have p: "pad_bits b = pad_bits (putBit False b)" by (simp add: pad_bits.simps [of b])
    obtain k where k: "adds (putBit False b) (pad_bits b) (replicate k False)"
      "bb_length (pad_bits b) = (Suc (bb_length b) + 7) div 8 * 8"
      using 1(1) [OF False] putBit_ok(1) [OF 1(2)] p by auto
    have "(Suc (bb_length b) + 7) div 8 = (bb_length b + 7) div 8" by (rule round_up_Suc [OF False])
    moreover have "adds b (pad_bits b) (replicate (Suc k) False)"
      using k(1) putBit_ok [OF 1(2)] by (simp add: adds_def)
    ultimately show ?thesis using k(2) by (intro exI [of _ "Suc k"]) simp
  qed
qed

lemma pad_bytes_adds:
  "buf_ok b \<Longrightarrow> bb_length b mod 8 = 0 \<Longrightarrow> bb_length b \<le> cap * 8 \<Longrightarrow>
   \<exists>bits. adds b (pad_bytes cap b) bits \<and> bb_length (pad_bytes cap b) = cap * 8"
proof (induction cap b rule: pad_bytes.induct)
  case (1 cap b)
  let ?b1 = "put_num 0xEC 8 b" and ?b2 = "put_num 0x11 8 (put_num 0xEC 8 b)"
  obtain q where q: "bb_length b = 8 * q" using 1(3) by (metis dvd_def mod_0_imp_dvd)
  have room: "bb_length b + 8 \<le> cap * 8" if "\<not> bb_length b \<ge> cap * 8"
    using that by (simp add: q)
  consider "bb_length b \<ge> cap * 8" | "\<not> bb_length b \<ge> cap * 8" "bb_length ?b1 \<ge> cap * 8"
    | "\<not> bb_length b \<ge> cap * 8" "\<not> bb_length ?b1 \<ge> cap * 8" by blast
  then show ?case
  proof cases
    case 1
    then have "pad_bytes cap b = b" by (simp add: pad_bytes.simps)
    then show ?thesis using 1 \<open>bb_length b \<le> cap * 8\<close> adds_refl [OF \<open>buf_ok b\<close>] by auto
  next
    case 2
    then have "pad_bytes cap b = ?b1" by (simp add: pad_bytes.simps Let_def)
    then show ?thesis using 2 room adds_put [OF \<open>buf_ok b\<close>] by auto
  next
    case 3
    then have p: "pad_bytes cap b = pad_bytes cap ?b2" by (simp add: pad_bytes.simps [of cap b] Let_def)
    have "8 * (q + 1) < 8 * cap" using 3(2) by (simp add: q)
    then have "q + 1 < cap" by (simp only: mult_less_cancel1)
    then have "bb_length ?b2 \<le> cap * 8" by (simp add: q)
    then obtain bits where "adds ?b2 (pad_bytes cap ?b2) bits" "bb_length (pad_bytes cap ?b2) = cap * 8"
      using 1(1) [OF 3(1) refl 3(2)] 1(2,3) by auto
    then show ?thesis using p adds_trans [OF adds_put [OF 1(2)] adds_trans [OF adds_put]] 1(2) by fastforce
  qed
qed

lemma end_code_adds:
  "buf_ok b \<Longrightarrow> bb_length b \<le> cap * 8 \<Longrightarrow> \<exists>bits. adds b (end_code cap b) bits
     \<and> (bits = replicate 4 False \<or> bits = [] \<and> cap * 8 < bb_length b + 4) \<and> bb_length (end_code cap b) \<le> cap * 8"
  using adds_put [of b 0 4] adds_refl [of b] by (auto simp: end_code_def put_bits_0)

lemma data_cap_field: "8 * data_cap t = field_cap t"
  by (simp add: data_cap_def field_cap_def)

lemma total_data_cap:
  assumes "getRSBlocks t level = Inr blocks"
  shows "total_data blocks * 8 \<le> field_cap t"
proof -
  obtain row where row: "getRsBlockTable t level = Some row" "blocks = expand_blocks row"
    using assms by (auto simp: getRSBlocks_def split: option.splits)
  then show ?thesis using table_row [OF row(1)] expand_sums [of row] data_cap_field [of t]
    by (simp add: row_ok_def total_data_def)
qed

lemma read_end: "length bs < 4 \<or> take 4 bs = replicate 4 False \<Longrightarrow> read_segments (Suc fuel) t bs = Some []"
proof -
  assume "length bs < 4 \<or> take 4 bs = replicate 4 False"
  moreover have "nat_of_bits (replicate 4 False) = 0" by (simp add: nat_of_bits_def eval_nat_numeral)
  ultimately show ?thesis by (auto simp: take_num_def)
qed

lemma data_buffer_reads:
  assumes "getRSBlocks t level = Inr blocks" "data_buffer blocks t ds = Inr buf" "list_all readable ds"
  shows "length (bb_buffer buf) = total_data blocks
    \<and> (\<forall>fuel > length ds. read_segments fuel t (bytes_bits (bb_buffer buf)) = Some ds)"
proof -
  let ?cap = "total_data blocks"
  obtain b where b: "write_segments t ds qrBitBuffer = Inr b" "bb_length b \<le> ?cap * 8"
    and buf: "buf = pad_bytes ?cap (pad_bits (end_code ?cap b))"
    using assms(2) by (auto simp: data_buffer_def rbind_eq_Inr_iff Let_def split: if_splits)
  have "bb_length b \<le> field_cap t" using b(2) total_data_cap [OF assms(1)] by linarith
  then obtain bits where bits: "adds qrBitBuffer b bits"
    "\<forall>fuel rest. read_segments (length ds + fuel) t (bits @ rest) = map_option ((@) ds) (read_segments fuel t rest)"
    using write_segments_reads [OF b(1) _ assms(3)] by auto
  obtain ends where ends: "adds b (end_code ?cap b) ends"
    "ends = replicate 4 False \<or> ends = [] \<and> ?cap * 8 < bb_length b + 4" "bb_length (end_code ?cap b) \<le> ?cap * 8"
    using end_code_adds [OF adds_ok [OF bits(1)] b(2)] by blast
  let ?e = "pad_bits (end_code ?cap b)"
  obtain k where k: "adds (end_code ?cap b) ?e (replicate k False)" "bb_length ?e = (bb_length (end_code ?cap b) + 7) div 8 * 8"
    using pad_bits_adds [OF adds_ok [OF ends(1)]] by blast
  have "bb_length ?e \<le> ?cap * 8" using k(2) ends(3) by simp
  then obtain pad where pad: "adds ?e buf pad" "bb_length buf = ?cap * 8"
    using pad_bytes_adds [OF adds_ok [OF k(1)]] k(2) buf by auto
  have "adds qrBitBuffer buf (bits @ ends @ replicate k False @ pad)"
    by (rule adds_trans [OF bits(1) adds_trans [OF ends(1) adds_trans [OF k(1) pad(1)]]])
  then have all: "bytes_bits (bb_buffer buf) = bits @ ends @ replicate k False @ pad" "length (bb_buffer buf) = ?cap"
    using bytes_bits_buffer [of buf] pad(2) by (auto simp: adds_def buf_ok_def)
  have "length (bits @ ends @ replicate k False @ pad) = ?cap * 8"
    using length_bytes_bits [of "bb_buffer buf"] unfolding all by simp
  moreover have "length bits = bb_length b" using adds_length [OF bits(1)] by (simp add: qrBitBuffer_def)
  ultimately have e: "read_segments (Suc fuel) t (ends @ replicate k False @ pad) = Some []" for fuel
    using ends(2) read_end [of "ends @ replicate k False @ pad" fuel t] by auto
  have "read_segments fuel t (bytes_bits (bb_buffer buf)) = Some ds" if fuel: "fuel > length ds" for fuel
  proof -
    obtain d where "fuel = length ds + Suc d" using fuel by (metis add_Suc_right less_imp_Suc_add)
    then show ?thesis using bits(2) [rule_format, of "Suc d" "ends @ replicate k False @ pad"] all(1) e by simp
  qed
  then show ?thesis using all(2) by simp
qed

end
