(* ===== verification/QrField.thy ===== *)
theory QrField
  imports QrMath
begin

text \<open>
  The field the tables of \<open>QRMath\<close> implement: bytes as polynomials over GF(2) modulo
  \<open>x^8 + x^4 + x^3 + x^2 + 1\<close>, defined by shift and add, with the type \<open>gf\<close> as a ring, and the
  facts that the tables are the powers of \<open>x\<close> and their inverse.
\<close>

section \<open>The reference multiplication\<close>

definition xtime :: "byte \<Rightarrow> byte" where
  "xtime a = push_bit 1 a XOR (if bit a 7 then 0x1D else 0)"

definition gf_mul :: "byte \<Rightarrow> byte \<Rightarrow> byte" where
  "gf_mul a b = foldr (\<lambda>i acc. (if bit b i then (xtime ^^ i) a else 0) XOR acc) [0..<8] 0"

abbreviation xpow :: "nat \<Rightarrow> byte" where
  "xpow n \<equiv> (xtime ^^ n) 1"

lemma xtime_xor: "xtime (a XOR b) = xtime a XOR xtime b"
  by (simp add: xtime_def push_bit_xor bit_xor_iff xor.assoc xor.left_commute)

lemma xtime_0 [simp]: "xtime 0 = 0"
  by (simp add: xtime_def)

lemma xtime_pow_xor: "(xtime ^^ n) (a XOR b) = (xtime ^^ n) a XOR (xtime ^^ n) b"
  by (induction n) (simp_all add: xtime_xor)

lemma xtime_pow_0 [simp]: "(xtime ^^ n) 0 = 0"
  by (induction n) simp_all

lemma gf_mul_0 [simp]: "gf_mul 0 b = 0" "gf_mul a 0 = 0"
  by (simp_all add: gf_mul_def upt_rec)

lemma gf_mul_xor_right: "gf_mul a (b XOR c) = gf_mul a b XOR gf_mul a c"
proof -
  have "foldr (\<lambda>i acc. (if bit (b XOR c) i then f i else 0) XOR acc) is 0
      = foldr (\<lambda>i acc. (if bit b i then f i else 0) XOR acc) is 0
        XOR foldr (\<lambda>i acc. (if bit c i then f i else 0) XOR acc) is (0 :: byte)" for f "is"
    by (induction "is") (auto simp: bit_xor_iff xor.assoc xor.left_commute)
  then show ?thesis by (simp add: gf_mul_def)
qed

section \<open>Powers of \<open>x\<close>\<close>

lemma xpow_add: "xpow (m + n) = (xtime ^^ m) (xpow n)"
  by (simp add: funpow_add)

lemma funpow_numeral_rec: "(f ^^ numeral k) x = f ((f ^^ pred_numeral k) x)"
  by (simp add: numeral_eq_Suc)

lemma xpow_small: "xpow 1 = 2" "xpow 2 = 4" "xpow 3 = 8" "xpow 4 = 16" "xpow 5 = 32" "xpow 6 = 64" "xpow 7 = 128"
  by (simp_all add: xtime_def funpow_numeral_rec)

lemma xpow_push_bit: "n < 8 \<Longrightarrow> xpow n = push_bit n 1"
  by (cases n rule: nat.exhaust) (auto simp: less_Suc_eq eval_nat_numeral xtime_def)

lemma xpow_8: "xpow 8 = xpow 4 XOR xpow 3 XOR xpow 2 XOR 1"
  by (simp add: xtime_def funpow_numeral_rec)

lemma xtime_pow_8: "xpow (n + 8) = xpow (n + 4) XOR xpow (n + 3) XOR xpow (n + 2) XOR xpow n"
  by (simp only: xpow_add [of n] xpow_8 xtime_pow_xor)

lemma xpow_values: "xpow 15 = 38" "xpow 51 = 10" "xpow 85 = 214" "xpow 255 = 1"
  by (simp_all add: xtime_def funpow_numeral_rec)

text \<open>The order of \<open>x\<close> is 255: the exponents with power 1 are closed under remainders.\<close>

lemma xpow_mult: "xpow n = 1 \<Longrightarrow> xpow (n * k) = 1"
  by (induction k) (simp_all add: xpow_add)

lemma xpow_mod: "xpow n = 1 \<Longrightarrow> xpow (m mod n) = xpow m"
proof -
  assume n: "xpow n = 1"
  have "xpow m = (xtime ^^ (m mod n)) (xpow (n * (m div n)))"
    by (simp only: xpow_add [symmetric] mod_mult_div_eq)
  then show ?thesis using xpow_mult [OF n] by simp
qed

lemma xpow_gcd: "xpow m = 1 \<Longrightarrow> xpow n = 1 \<Longrightarrow> xpow (gcd m n) = 1"
proof (induction m n rule: gcd_nat_induct)
  case (step m n)
  then have "xpow (m mod n) = 1" by (simp add: xpow_mod)
  then have "xpow (gcd n (m mod n)) = 1" using step by blast
  then show ?case by (simp add: gcd_red_nat [of m n])
qed simp

lemma divisor_of_255: "d dvd 255 \<Longrightarrow> d < 255 \<Longrightarrow> d dvd 15 \<or> d dvd 51 \<or> d dvd (85 :: nat)"
proof -
  have "\<forall>d < 255. d dvd (255 :: nat) \<longrightarrow> d dvd 15 \<or> d dvd 51 \<or> d dvd 85" by code_simp
  then show "d dvd 255 \<Longrightarrow> d < 255 \<Longrightarrow> d dvd 15 \<or> d dvd 51 \<or> d dvd 85" by blast
qed

lemma xpow_order: "xpow d = 1 \<Longrightarrow> d < 255 \<Longrightarrow> d = 0"
proof (rule ccontr)
  assume d: "xpow d = 1" "d < 255" "d \<noteq> 0"
  have g: "xpow (gcd d 255) = 1" by (rule xpow_gcd [OF d(1) xpow_values(4)])
  have "gcd d 255 < 255" using d(2,3) by (meson gcd_le1_nat le_less_trans)
  then have "gcd d 255 dvd 15 \<or> gcd d 255 dvd 51 \<or> gcd d 255 dvd 85"
    using divisor_of_255 [of "gcd d 255"] by simp
  then have "xpow 15 = 1 \<or> xpow 51 = 1 \<or> xpow 85 = 1" using xpow_mult [OF g] by (metis dvdE)
  then show False by (simp add: xpow_values)
qed

lemma xpow_nonzero [simp]: "xpow n \<noteq> 0"
proof
  assume "xpow n = 0"
  then have "xpow (255 * n) = 0" using xpow_add [of "254 * n" n] by simp
  then show False using xpow_mult [OF xpow_values(4)] by simp
qed

lemma xpow_inj: "inj_on xpow {..<255}"
proof (rule linorder_inj_onI')
  fix i j :: nat
  assume ij: "i \<in> {..<255}" "j \<in> {..<255}" "i < j"
  show "xpow i \<noteq> xpow j"
  proof
    assume "xpow i = xpow j"
    then have "xpow (255 - i + j) = xpow (255 - i + i)" by (simp only: xpow_add)
    then have "xpow (j - i + 255) = 1" using ij xpow_values(4) by (simp add: add.commute)
    moreover have "(j - i + 255) mod 255 = j - i" using ij by (simp only: mod_add_self2) simp
    ultimately have "xpow (j - i) = 1" using xpow_mod [OF xpow_values(4), of "j - i + 255"] by (simp only:)
    then show False using xpow_order [of "j - i"] ij by fastforce
  qed
qed

lemma xpow_surj: "a \<noteq> 0 \<Longrightarrow> \<exists>i < 255. a = xpow i"
proof -
  have "xpow ` {..<255} = UNIV - {0}"
  proof (rule card_subset_eq)
    show "card (xpow ` {..<255}) = card (UNIV - {0 :: byte})" by (simp add: card_image [OF xpow_inj] card_Diff_singleton card_word)
  qed auto
  moreover assume "a \<noteq> 0"
  ultimately have "a \<in> xpow ` {..<255}" by blast
  then show ?thesis by auto
qed

section \<open>The tables\<close>

lemma length_exp_fold: "length (foldl exp_step t is) = length t + length is"
  by (induction "is" arbitrary: t) (simp_all add: exp_step_def)

lemma length_EXP_TABLE [simp]: "length EXP_TABLE = 256"
  by (simp only: EXP_TABLE_def length_exp_fold length_map length_upt)

lemma exp_step_powers: "8 \<le> n \<Longrightarrow> exp_step (map xpow [0..<n]) n = map xpow [0..<Suc n]"
proof -
  assume n: "8 \<le> n"
  then have "n - 8 + 8 = n" "n - 8 + 4 = n - 4" "n - 8 + 3 = n - 5" "n - 8 + 2 = n - 6" by auto
  then have "xpow n = xpow (n - 4) XOR xpow (n - 5) XOR xpow (n - 6) XOR xpow (n - 8)"
    using xtime_pow_8 [of "n - 8"] by (simp only:)
  then show ?thesis using n by (simp add: exp_step_def)
qed

lemma exp_fold_powers: "8 \<le> n \<Longrightarrow> foldl exp_step (map xpow [0..<n]) [n..<n + k] = map xpow [0..<n + k]"
proof (induction k)
  case (Suc k)
  then show ?case using exp_step_powers [of "n + k"] by simp
qed simp

lemma EXP_TABLE_powers: "EXP_TABLE = map xpow [0..<256]"
proof -
  have "map (\<lambda>i. push_bit i 1) [0..<8] = map xpow [0..<8]"
    by (intro map_cong refl) (simp only: set_upt atLeastLessThan_iff xpow_push_bit)
  then show ?thesis using exp_fold_powers [of 8 248] by (simp only: EXP_TABLE_def) simp
qed

lemma EXP_TABLE_nth: "i < 256 \<Longrightarrow> EXP_TABLE ! i = xpow i"
  by (simp add: EXP_TABLE_powers)

lemma log_fold_other: "k \<notin> f ` set is \<Longrightarrow> foldl (\<lambda>t i. t[f i := Some i]) t is ! k = t ! k"
  by (induction "is" arbitrary: t) auto

lemma log_fold:
  assumes "i \<in> set is" "inj_on f (set is)" "distinct is" "\<forall>i \<in> set is. f i < length t"
  shows "foldl (\<lambda>t i. t[f i := Some i]) t is ! f i = Some i"
  using assms
proof (induction "is" arbitrary: t)
  case (Cons j js)
  show ?case
  proof (cases "i = j")
    case True
    have "f j \<notin> f ` set js" using Cons.prems(2,3) by auto
    then show ?thesis using log_fold_other [of "f j" f js "t[f j := Some j]"] Cons.prems(4) True by simp
  next
    case False
    then show ?thesis using Cons.IH [of "t[f j := Some j]"] Cons.prems by simp
  qed
qed simp

lemma unat_xpow_inj: "inj_on (\<lambda>i. unat (xpow i)) {..<255}"
  using xpow_inj by (simp add: inj_on_def word_unat_eq_iff)

lemma LOG_TABLE_nth: "i < 255 \<Longrightarrow> LOG_TABLE ! unat (xpow i) = Some i"
proof -
  assume i: "i < 255"
  have "LOG_TABLE = foldl (\<lambda>t i. t[unat (xpow i) := Some i]) (replicate 256 None) [0..<255]"
    unfolding LOG_TABLE_def by (rule foldl_cong) (simp_all add: log_step_def EXP_TABLE_nth)
  moreover have "inj_on (\<lambda>i. unat (xpow i)) (set [0..<255])" using unat_xpow_inj by (simp add: lessThan_atLeast0)
  ultimately show ?thesis using log_fold [of i "[0..<255]" "\<lambda>i. unat (xpow i)" "replicate 256 None"] i by (simp del: upt_rec_numeral)
qed

lemma glog_xpow [simp]: "i < 255 \<Longrightarrow> glog (Some (xpow i)) = Inr (Some (int i))"
proof -
  have "\<not> xpow i < 1" using xpow_nonzero [of i] by (simp add: word_less_1)
  then show "i < 255 \<Longrightarrow> ?thesis" by (simp add: LOG_TABLE_nth)
qed

lemma raise_index_small [simp]: "0 \<le> n \<Longrightarrow> raise_index n = n"
  by (simp add: raise_index.simps)

lemma raise_index_neg [simp]: "- 255 \<le> n \<Longrightarrow> n < 0 \<Longrightarrow> raise_index n = n + 255"
  by (simp add: raise_index.simps)

lemma lower_index_small: "n < 256 \<Longrightarrow> lower_index n = n"
  by (simp add: lower_index.simps)

lemma lower_index_exists: "0 \<le> n \<Longrightarrow> \<exists>m. lower_index n = int m \<and> m < 256 \<and> xpow m = xpow (nat n)"
proof (induction n rule: lower_index.induct)
  case (1 n)
  show ?case
  proof (cases "256 \<le> n")
    case True
    then obtain m where m: "lower_index (n - 255) = int m" "m < 256" "xpow m = xpow (nat (n - 255))" using 1 by auto
    have "nat n = nat (n - 255) + 255" using True by simp
    then have "xpow (nat n) = xpow (nat (n - 255))" by (simp only: xpow_add xpow_values)
    then show ?thesis using m True by (metis lower_index.simps)
  next
    case False
    then show ?thesis using 1 by (intro exI [of _ "nat n"]) (auto simp: lower_index_small)
  qed
qed

lemma gexp_nat: "0 \<le> n \<Longrightarrow> gexp (Some n) = Some (xpow (nat n))"
  using lower_index_exists [of n] by (auto simp: EXP_TABLE_nth)

lemma gexp_neg: "- 255 \<le> n \<Longrightarrow> n < 0 \<Longrightarrow> gexp (Some n) = Some (xpow (nat (n + 255)))"
  using lower_index_exists [of "n + 255"] by (auto simp: EXP_TABLE_nth)

section \<open>The product\<close>

lemma xtime_pow_8_any: "(xtime ^^ 8) a = (xtime ^^ 4) a XOR (xtime ^^ 3) a XOR (xtime ^^ 2) a XOR a"
proof (cases "a = 0")
  case False
  then obtain i where "a = xpow i" using xpow_surj by blast
  then show ?thesis using xtime_pow_8 [of i] by (simp only: xpow_add [symmetric] add.commute)
qed simp

lemma foldr_single:
  "distinct is \<Longrightarrow> foldr (\<lambda>i acc. (if i = n then f i else 0) XOR acc) is 0 = (if n \<in> set is then f n else (0 :: byte))"
  by (induction "is") auto

lemma gf_mul_xpow_small:
  assumes "n < 8"
  shows "gf_mul a (xpow n) = (xtime ^^ n) a"
proof -
  have "xpow n = push_bit n 1" using assms by (rule xpow_push_bit)
  then have "bit (xpow n) i \<longleftrightarrow> i = n" if "i < 8" for i
    using that assms by (simp add: bit_push_bit_iff bit_1_iff del: push_bit_of_1) auto
  then have "gf_mul a (xpow n) = foldr (\<lambda>i acc. (if i = n then (xtime ^^ i) a else 0) XOR acc) [0..<8] 0"
    unfolding gf_mul_def by (intro foldr_cong) auto
  then show ?thesis using assms foldr_single [of "[0..<8]" n] by (simp del: upt_rec_numeral)
qed

lemma gf_mul_xpow: "gf_mul a (xpow n) = (xtime ^^ n) a"
proof (induction n rule: less_induct)
  case (less n)
  show ?case
  proof (cases "n < 8")
    case True
    then show ?thesis by (rule gf_mul_xpow_small)
  next
    case False
    then obtain m where m: "n = m + 8" by (metis add.commute le_Suc_ex not_less)
    have "gf_mul a (xpow n) = (xtime ^^ (m + 4)) a XOR (xtime ^^ (m + 3)) a XOR (xtime ^^ (m + 2)) a XOR (xtime ^^ m) a"
      unfolding m xtime_pow_8 gf_mul_xor_right using less [unfolded m, of "m + 4"] less [unfolded m, of "m + 3"]
        less [unfolded m, of "m + 2"] less [unfolded m, of m] by (simp only:)
    also have "\<dots> = (xtime ^^ m) ((xtime ^^ 8) a)"
      by (simp only: xtime_pow_8_any xtime_pow_xor funpow_add o_apply)
    finally show ?thesis unfolding m by (simp only: funpow_add o_apply)
  qed
qed

lemma gf_mul_xpows: "gf_mul (xpow i) (xpow j) = xpow (i + j)"
  by (simp only: gf_mul_xpow xpow_add [symmetric] add.commute)

end
