(* ===== verification/QrReedSolomon.thy ===== *)
theory QrReedSolomon
  imports QrField
begin

text \<open>
  The ring \<open>gf\<close> of bytes under exclusive or and the reference product, the value of a polynomial
  at a point, and what the operations of \<open>qrPolynomial\<close> do to it: the data and the error
  correction of a block form a word of the Reed-Solomon code.
\<close>

section \<open>Bytes as a ring\<close>

typedef gf = "UNIV :: byte set" morphisms gf_byte Gf
  by simp

lemmas gf_simps [simp] = Gf_inject [simplified] Gf_inverse [simplified] gf_byte_inverse

lemma gf_eqI: "gf_byte a = gf_byte b \<Longrightarrow> a = b"
  by (simp add: gf_byte_inject)

lemma gf_mul_commute: "gf_mul a b = gf_mul b a"
proof (cases "a = 0 \<or> b = 0")
  case False
  then obtain i j where "a = xpow i" "b = xpow j" using xpow_surj by metis
  then show ?thesis by (simp only: gf_mul_xpows add.commute)
qed auto

lemma gf_mul_assoc: "gf_mul (gf_mul a b) c = gf_mul a (gf_mul b c)"
proof (cases "a = 0 \<or> b = 0 \<or> c = 0")
  case False
  then obtain i j k where "a = xpow i" "b = xpow j" "c = xpow k" using xpow_surj by metis
  then show ?thesis by (simp only: gf_mul_xpows add.assoc)
qed auto

lemma gf_mul_1: "gf_mul 1 a = a"
  using gf_mul_xpow [of a 0] gf_mul_commute [of a 1] by simp

instantiation gf :: comm_ring_1
begin

definition zero_gf :: gf where "zero_gf = Gf 0"
definition one_gf :: gf where "one_gf = Gf 1"
definition plus_gf :: "gf \<Rightarrow> gf \<Rightarrow> gf" where "plus_gf a b = Gf (gf_byte a XOR gf_byte b)"
definition minus_gf :: "gf \<Rightarrow> gf \<Rightarrow> gf" where "minus_gf a b = Gf (gf_byte a XOR gf_byte b)"
definition uminus_gf :: "gf \<Rightarrow> gf" where "uminus_gf a = a"
definition times_gf :: "gf \<Rightarrow> gf \<Rightarrow> gf" where "times_gf a b = Gf (gf_mul (gf_byte a) (gf_byte b))"

lemmas gf_defs = zero_gf_def one_gf_def plus_gf_def minus_gf_def uminus_gf_def times_gf_def

instance
proof
  fix a b c :: gf
  show "a + b + c = a + (b + c)" by (simp add: gf_defs xor.assoc)
  show "a + b = b + a" by (simp add: gf_defs xor.commute)
  show "0 + a = a" by (simp add: gf_defs)
  show "- a + a = 0" by (simp add: gf_defs)
  show "a - b = a + - b" by (simp add: gf_defs)
  show "a * b * c = a * (b * c)" by (simp add: gf_defs gf_mul_assoc)
  show "a * b = b * a" by (simp add: gf_defs gf_mul_commute)
  show "1 * a = a" by (simp add: gf_defs gf_mul_1)
  show "(a + b) * c = a * c + b * c"
    using gf_mul_xor_right [of "gf_byte c" "gf_byte a" "gf_byte b"]
    by (simp add: gf_defs gf_mul_commute [of _ "gf_byte c"])
  show "(0 :: gf) \<noteq> 1" by (simp add: gf_defs)
qed

end

abbreviation alpha :: gf where
  "alpha \<equiv> Gf 2"

lemma alpha_power: "alpha ^ n = Gf (xpow n)"
proof (induction n)
  case (Suc n)
  have "Gf (xpow 1) * Gf (xpow n) = Gf (xpow (1 + n))" by (simp only: times_gf_def gf_simps gf_mul_xpows)
  then show ?case using Suc xpow_small(1) by (simp only: power_Suc plus_1_eq_Suc)
qed (simp add: one_gf_def)

lemma gf_double [simp]: "(a :: gf) + a = 0"
  by (simp add: gf_defs)

section \<open>Values of polynomials\<close>

definition coef :: "cell \<Rightarrow> gf" where
  "coef c = Gf (cell_byte c)"

definition horner :: "gf \<Rightarrow> gf list \<Rightarrow> gf" where
  "horner x cs = foldl (\<lambda>s c. s * x + c) 0 cs"

abbreviation value_at :: "gf \<Rightarrow> cell list \<Rightarrow> gf" where
  "value_at x p \<equiv> horner x (map coef p)"

lemma coef_simps [simp]: "coef None = 0" "coef (Some 0) = 0" "coef (Some 1) = 1" "coef (xor_cell a b) = coef a + coef b"
  by (simp_all add: coef_def cell_byte_def xor_cell_def gf_defs)

lemma coef_gexp: "coef (Some (xpow n)) = alpha ^ n"
  by (simp add: coef_def cell_byte_def alpha_power)

lemma horner_Nil [simp]: "horner x [] = 0"
  by (simp add: horner_def)

lemma horner_snoc [simp]: "horner x (cs @ [c]) = horner x cs * x + c"
  by (simp add: horner_def)

lemma horner_append: "horner x (as @ bs) = horner x as * x ^ length bs + horner x bs"
  by (induction bs rule: rev_induct) (simp_all add: algebra_simps flip: append_assoc)

lemma horner_Cons: "horner x (c # cs) = c * x ^ length cs + horner x cs"
  using horner_append [of x "[c]" cs] horner_snoc [of x "[]" c] by simp

lemma horner_zeros [simp]: "horner x (replicate n 0) = 0"
  by (induction n) (simp_all add: horner_Cons)

lemma horner_update:
  "k < length cs \<Longrightarrow> horner x (cs[k := cs ! k + c]) = horner x cs + c * x ^ (length cs - 1 - k)"
proof (induction cs arbitrary: k)
  case (Cons d cs)
  then show ?case by (cases k) (simp_all add: horner_Cons algebra_simps)
qed simp

lemma value_strip: "value_at x (dropWhile (\<lambda>c. c = Some 0) num) = value_at x num"
  by (induction num) (simp_all add: horner_Cons)

lemma value_qrPolynomial: "value_at x (qrPolynomial num shift) = value_at x num * x ^ shift"
  by (simp add: qrPolynomial_def horner_append value_strip)

lemma value_xor:
  "k < length num \<Longrightarrow> value_at x (num[k := xor_cell (num ! k) c]) = value_at x num + coef c * x ^ (length num - 1 - k)"
  using horner_update [of k "map coef num" x "coef c"] by (simp add: map_update)

section \<open>Logarithms of cells\<close>

lemma glog_cases:
  assumes "glog c = Inr r"
  obtains "c = None" "r = None" | i where "i < 255" "c = Some (xpow i)" "r = Some (int i)"
proof (cases c)
  case (Some n)
  then have "n \<noteq> 0" using assms by auto
  then obtain i where "i < 255" "n = xpow i" using xpow_surj by blast
  then show thesis using that(2) [of i] assms Some by (simp del: glog.simps)
qed (use assms that in auto)

lemma coef_gexp_add:
  assumes "glog c = Inr a" "glog d = Inr b"
  shows "coef (gexp (num_add a b)) = coef c * coef d"
  using assms(1)
proof (cases rule: glog_cases)
  case (2 i)
  show ?thesis using assms(2)
  proof (cases rule: glog_cases)
    fix j
    assume j: "j < 255" "d = Some (xpow j)" "b = Some (int j)"
    have "gexp (num_add a b) = Some (xpow (i + j))" using 2 j by (simp add: num_add_def gexp_nat nat_add_distrib del: gexp.simps)
    then show ?thesis using 2 j by (simp only: coef_gexp power_add)
  qed (use 2 in \<open>simp add: num_add_def\<close>)
qed (simp add: num_add_def)

lemma coef_gexp_ratio:
  assumes "glog c = Inr a" "glog d = Inr b"
  obtains q where "\<And>e l. glog e = Inr l \<Longrightarrow> coef (gexp (num_add l (num_sub a b))) = q * coef e"
proof (cases "\<exists>i j. i < 255 \<and> j < 255 \<and> a = Some (int i) \<and> b = Some (int j)")
  case True
  then obtain i j where ij: "i < 255" "j < 255" "a = Some (int i)" "b = Some (int j)" by blast
  show thesis
  proof (rule that [of "alpha ^ (i + (255 - j))"])
    fix e l
    assume "glog e = Inr l"
    then show "coef (gexp (num_add l (num_sub a b))) = alpha ^ (i + (255 - j)) * coef e"
    proof (cases rule: glog_cases)
      case (2 k)
      have g: "gexp (Some (int k + (int i - int j))) = Some (xpow (k + (i + (255 - j))))"
      proof (cases "int k + (int i - int j) < 0")
        case True
        then have "gexp (Some (int k + (int i - int j))) = Some (xpow (nat (int k + (int i - int j) + 255)))"
          using ij by (intro gexp_neg) auto
        moreover have "nat (int k + (int i - int j) + 255) = k + (i + (255 - j))" using ij True by auto
        ultimately show ?thesis by simp
      next
        case False
        have "k + (i + (255 - j)) = nat (int k + (int i - int j)) + 255" using ij False by auto
        then show ?thesis using False gexp_nat [of "int k + (int i - int j)"] by (simp only: xpow_add xpow_values)
      qed
      have n: "num_add l (num_sub a b) = Some (int k + (int i - int j))"
        using 2 ij by (simp add: num_add_def num_sub_def)
      show ?thesis unfolding n g 2(2) coef_gexp by (simp only: power_add mult.commute)
    qed (simp add: num_add_def)
  qed
next
  case False
  have "a = None \<or> b = None"
    using assms(1)
  proof (cases rule: glog_cases)
    case (2 i)
    show ?thesis using assms(2) False 2 by (cases rule: glog_cases) auto
  qed simp
  then have "num_sub a b = None" by (auto simp: num_sub_def split: option.split)
  then show thesis using that [of 0] by (simp add: num_add_def split: option.split)
qed

section \<open>Products and remainders\<close>

lemma getAt_nth [simp]: "i < length p \<Longrightarrow> getAt p i = p ! i"
  by (simp add: getAt_def)

lemma mul_loop_value:
  assumes "mul_loop p e ijs num = Inr num'" "\<forall>(i, j) \<in> set ijs. i < length p \<and> j < length e \<and> i + j < length num"
  shows "length num' = length num
    \<and> value_at x num' = value_at x num
        + (\<Sum>(i, j) \<leftarrow> ijs. coef (p ! i) * coef (e ! j) * x ^ (length num - 1 - (i + j)))"
  using assms
proof (induction p e ijs num rule: mul_loop.induct)
  case (2 p e i j ijs num)
  obtain a b where ab: "glog (p ! i) = Inr a" "glog (e ! j) = Inr b"
    and rest: "mul_loop p e ijs (num[i + j := xor_cell (num ! (i + j)) (gexp (num_add a b))]) = Inr num'"
    using 2(2,3) by (auto simp: rbind_eq_Inr_iff)
  show ?case using 2(1) [of a b] ab rest 2(3) by (simp add: value_xor coef_gexp_add [OF ab] algebra_simps)
qed simp

lemma sum_list_product:
  "(\<Sum>(i, j) \<leftarrow> List.product xs ys. f i * g j) = (\<Sum>i \<leftarrow> xs. f i) * (\<Sum>j \<leftarrow> ys. g j :: gf)"
  by (induction xs) (simp_all add: sum_list_const_mult o_def distrib_right case_prod_unfold)

lemma horner_sum_list: "horner x cs = (\<Sum>i \<leftarrow> [0..<length cs]. cs ! i * x ^ (length cs - 1 - i))"
proof (induction cs)
  case (Cons c cs)
  have "(\<Sum>i \<leftarrow> [0..<length (c # cs)]. (c # cs) ! i * x ^ (length (c # cs) - 1 - i))
      = c * x ^ length cs + (\<Sum>i \<leftarrow> map Suc [0..<length cs]. (c # cs) ! i * x ^ (length (c # cs) - 1 - i))"
    by (simp add: upt_conv_Cons map_Suc_upt del: upt_Suc)
  also have "\<dots> = c * x ^ length cs + (\<Sum>i \<leftarrow> [0..<length cs]. cs ! i * x ^ (length cs - 1 - i))"
    by (simp add: o_def del: map_Suc_upt)
  finally show ?case using Cons by (simp only: horner_Cons)
qed simp

lemma value_sum: "value_at x p = (\<Sum>i \<leftarrow> [0..<length p]. coef (p ! i) * x ^ (length p - 1 - i))"
  unfolding horner_sum_list length_map by (rule arg_cong [where f = sum_list], rule map_cong) simp_all

lemma multiply_value:
  assumes "multiply p e = Inr r" "p \<noteq> []" "e \<noteq> []"
  shows "value_at x r = value_at x p * value_at x e"
proof -
  let ?ijs = "List.product [0..<length p] [0..<length e]" and ?n = "length p + length e - 1"
  obtain num where num: "mul_loop p e ?ijs (replicate ?n None) = Inr num" and r: "r = qrPolynomial num 0"
    using assms by (auto simp: multiply_def rbind_eq_Inr_iff)
  have b: "\<forall>(i, j) \<in> set ?ijs. i < length p \<and> j < length e \<and> i + j < length (replicate ?n (None :: cell))"
    by auto
  have "value_at x num = (\<Sum>(i, j) \<leftarrow> ?ijs. coef (p ! i) * coef (e ! j) * x ^ (?n - 1 - (i + j)))"
    using mul_loop_value [OF num b, of x] by simp
  also have "\<dots> = (\<Sum>(i, j) \<leftarrow> ?ijs. (coef (p ! i) * x ^ (length p - 1 - i)) * (coef (e ! j) * x ^ (length e - 1 - j)))"
  proof (rule arg_cong [where f = sum_list], rule map_cong [OF refl], clarsimp)
    fix i j assume "i < length p" "j < length e"
    then have "length p + length e - Suc (Suc (i + j)) = (length p - Suc i) + (length e - Suc j)" by simp
    then show "coef (p ! i) * coef (e ! j) * x ^ (length p + length e - Suc (Suc (i + j)))
        = coef (p ! i) * x ^ (length p - Suc i) * (coef (e ! j) * x ^ (length e - Suc j))"
      by (simp only: power_add mult.assoc mult.left_commute)
  qed
  also have "\<dots> = value_at x p * value_at x e" by (simp only: sum_list_product value_sum)
  finally show ?thesis using r by (simp add: value_qrPolynomial)
qed

lemma sub_loop_value:
  assumes "sub_loop e ratio is num = Inr num'" "\<forall>i \<in> set is. i < length e \<and> i < length num"
    and "\<And>c l. glog c = Inr l \<Longrightarrow> coef (gexp (num_add l ratio)) = q * coef c"
  shows "length num' = length num
    \<and> value_at x num' = value_at x num + q * (\<Sum>i \<leftarrow> is. coef (e ! i) * x ^ (length num - 1 - i))"
  using assms(1,2)
proof (induction "is" arbitrary: num)
  case (Cons i "is")
  obtain b where b: "glog (e ! i) = Inr b"
    and rest: "sub_loop e ratio is (num[i := xor_cell (num ! i) (gexp (num_add b ratio))]) = Inr num'"
    using Cons.prems by (auto simp: rbind_eq_Inr_iff)
  show ?case using Cons.IH [OF rest] Cons.prems(2) by (simp add: value_xor assms(3) [OF b] algebra_simps)
qed simp

lemma sub_value:
  assumes "sub_loop e ratio [0..<length e] p = Inr num" "length e \<le> length p"
    and "\<And>c l. glog c = Inr l \<Longrightarrow> coef (gexp (num_add l ratio)) = q * coef c"
  shows "value_at x num = value_at x p + q * value_at x e * x ^ (length p - length e)"
proof -
  have "(\<Sum>i \<leftarrow> [0..<length e]. coef (e ! i) * x ^ (length p - 1 - i))
      = (\<Sum>i \<leftarrow> [0..<length e]. (coef (e ! i) * x ^ (length e - 1 - i)) * x ^ (length p - length e))"
  proof (rule arg_cong [where f = sum_list], rule map_cong [OF refl])
    fix i assume "i \<in> set [0..<length e]"
    then have "length p - 1 - i = (length e - 1 - i) + (length p - length e)" using assms(2) by auto
    then show "coef (e ! i) * x ^ (length p - 1 - i) = (coef (e ! i) * x ^ (length e - 1 - i)) * x ^ (length p - length e)"
      by (simp only: power_add mult.assoc)
  qed
  also have "\<dots> = value_at x e * x ^ (length p - length e)"
    by (simp only: value_sum sum_list_mult_const)
  finally show ?thesis using sub_loop_value [OF assms(1) _ assms(3), of x] assms(2) by (simp add: mult.assoc)
qed

lemma mod_fuel_value:
  "mod_fuel fuel p e = Inr r \<Longrightarrow> value_at x e = 0 \<Longrightarrow> value_at x r = value_at x p"
proof (induction fuel arbitrary: p)
  case (Suc fuel)
  show ?case
  proof (cases "length p < length e")
    case False
    then obtain a b num where ab: "glog (getAt p 0) = Inr a" "glog (getAt e 0) = Inr b"
      and num: "sub_loop e (num_sub a b) [0..<length e] p = Inr num" "mod_fuel fuel (qrPolynomial num 0) e = Inr r"
      using Suc.prems(1) by (auto simp: rbind_eq_Inr_iff)
    obtain q where "\<And>c l. glog c = Inr l \<Longrightarrow> coef (gexp (num_add l (num_sub a b))) = q * coef c"
      using coef_gexp_ratio [OF ab] by blast
    from sub_value [OF num(1) _ this, of x] False have "value_at x num = value_at x p" by (simp add: Suc.prems(2))
    then show ?thesis using Suc.IH [OF num(2) Suc.prems(2)] by (simp add: value_qrPolynomial)
  qed (use Suc.prems(1) in auto)
qed simp

lemma mod_fuel_length: "mod_fuel fuel p e = Inr r \<Longrightarrow> length r < length e"
  by (induction fuel arbitrary: p) (auto simp: rbind_eq_Inr_iff split: if_splits)

end
