(* ===== verification/QrRsCorrect.thy ===== *)
theory QrRsCorrect
  imports QrReedSolomon
begin

text \<open>
  The generator polynomials up to 30 error correction bytes, the remainder, and the theorems on
  the tables and on the error correction of a block.
\<close>

section \<open>Generators\<close>

definition filled :: "cell list \<Rightarrow> bool" where
  "filled p \<longleftrightarrow> list_all (\<lambda>c. c \<noteq> None \<and> c \<noteq> Some 0) p"

lemma glog_filled:
  assumes "filled p" "i < length p"
  obtains r where "glog (p ! i) = Inr r"
proof -
  have "p ! i \<noteq> None \<and> p ! i \<noteq> Some 0" using assms by (auto simp: filled_def list_all_length)
  then obtain n where "p ! i = Some n" "n \<noteq> 0" by (cases "p ! i") auto
  then show thesis using that by (simp add: word_less_1)
qed

lemma mul_loop_cells:
  assumes "filled p" "filled e" "\<forall>(i, j) \<in> set ijs. i < length p \<and> j < length e \<and> i + j < length num"
  shows "\<exists>num'. mul_loop p e ijs num = Inr num' \<and> length num' = length num
    \<and> (\<forall>k < length num. coef (num' ! k) = coef (num ! k)
          + (\<Sum>(i, j) \<leftarrow> ijs. if i + j = k then coef (p ! i) * coef (e ! j) else 0)
        \<and> (num' ! k = None \<longrightarrow> num ! k = None \<and> (\<forall>(i, j) \<in> set ijs. i + j \<noteq> k)))"
  using assms(3)
proof (induction ijs arbitrary: num)
  case (Cons ij ijs)
  obtain i j where ij: "ij = (i, j)" by fastforce
  then have lt: "i < length p" "j < length e" "i + j < length num" using Cons.prems by auto
  obtain a b where ab: "glog (p ! i) = Inr a" "glog (e ! j) = Inr b"
    using glog_filled [OF assms(1) lt(1)] glog_filled [OF assms(2) lt(2)] by metis
  let ?num = "num[i + j := xor_cell (num ! (i + j)) (gexp (num_add a b))]"
  have l: "mul_loop p e (ij # ijs) num = mul_loop p e ijs ?num" using ij ab lt by simp
  have c: "coef (?num ! k) = coef (num ! k) + (if i + j = k then coef (p ! i) * coef (e ! j) else 0)
      \<and> (?num ! k = None \<longrightarrow> num ! k = None \<and> i + j \<noteq> k)" if "k < length num" for k
    using lt that by (cases "i + j = k") (auto simp: nth_list_update coef_gexp_add [OF ab], simp add: xor_cell_def)
  obtain num' where num': "mul_loop p e ijs ?num = Inr num'" "length num' = length ?num"
    "\<forall>k < length ?num. coef (num' ! k) = coef (?num ! k)
          + (\<Sum>(i, j) \<leftarrow> ijs. if i + j = k then coef (p ! i) * coef (e ! j) else 0)
        \<and> (num' ! k = None \<longrightarrow> ?num ! k = None \<and> (\<forall>(i, j) \<in> set ijs. i + j \<noteq> k))"
    using Cons.IH [of ?num] Cons.prems by auto
  show ?case unfolding l
  proof (intro exI [of _ num'] conjI num'(1) allI impI)
    fix k
    assume k: "k < length num"
    show "coef (num' ! k) = coef (num ! k) + (\<Sum>(i, j) \<leftarrow> ij # ijs. if i + j = k then coef (p ! i) * coef (e ! j) else 0)"
      using num'(3) c [OF k] k ij by (simp add: add.assoc)
    assume "num' ! k = None"
    then show "num ! k = None" "\<forall>(i, j) \<in> set (ij # ijs). i + j \<noteq> k" using num'(3) c [OF k] k ij by auto
  qed (use num'(2) in simp)
qed simp

lemma sum_list_single:
  "(\<Sum>i \<leftarrow> [0..<n]. if i = k then f i else 0) = (if k < n then f k else (0 :: gf))"
  "(\<Sum>i \<leftarrow> [0..<n]. if Suc i = k then f i else 0) = (if 0 < k \<and> k \<le> n then f (k - 1) else (0 :: gf))"
  by (induction n) auto

lemma sum_list_pairs: "(\<Sum>(i, j) \<leftarrow> List.product xs [0, 1]. f i j) = (\<Sum>i \<leftarrow> xs. f i 0 + f i (1 :: nat) :: gf)"
  by (induction xs) (simp_all add: add.assoc)

text \<open>One more factor \<open>X + x^i\<close>: every coefficient is its own plus the multiple of its left neighbour.\<close>

definition next_gen :: "nat \<Rightarrow> byte list \<Rightarrow> byte list" where
  "next_gen i p = map2 (XOR) (p @ [0]) (0 # map (xtime ^^ i) p)"

lemma length_next_gen [simp]: "length (next_gen i p) = Suc (length p)"
  by (simp add: next_gen_def)

lemma next_gen_nth:
  "k \<le> length p \<Longrightarrow> next_gen i p ! k = (if k < length p then p ! k else 0) XOR (if 0 < k then (xtime ^^ i) (p ! (k - 1)) else 0)"
  by (auto simp: next_gen_def nth_append nth_Cons split: nat.split)

lemma coef_inject: "coef (Some a) = coef (Some b) \<longleftrightarrow> a = b"
  by (simp add: coef_def cell_byte_def)

lemma coef_xtime:
  "coef (Some (a XOR b)) = coef (Some a) + coef (Some b)"
  "coef (Some ((xtime ^^ n) a)) = coef (Some a) * coef (Some (xpow n))"
  using gf_mul_xpow [of a n] by (simp_all add: coef_def cell_byte_def gf_defs)

lemma multiply_factor:
  assumes "0 \<notin> set p" "p \<noteq> []" "hd p = 1"
  shows "multiply (map Some p) [Some 1, Some (xpow n)] = Inr (map Some (next_gen n p))"
proof -
  let ?p = "map Some p" and ?e = "[Some 1, Some (xpow n)]"
  let ?ijs = "List.product [0..<length ?p] [0..<length ?e]"
  let ?num = "replicate (length ?p + length ?e - 1) (None :: cell)"
  have "filled ?p" "filled ?e" using assms(1) by (auto simp: filled_def list_all_iff)
  moreover have "\<forall>(i, j) \<in> set ?ijs. i < length ?p \<and> j < length ?e \<and> i + j < length ?num" by auto
  ultimately obtain num where num: "mul_loop ?p ?e ?ijs ?num = Inr num" "length num = length ?num"
    and cells: "\<forall>k < length ?num. coef (num ! k) = coef (?num ! k)
          + (\<Sum>(i, j) \<leftarrow> ?ijs. if i + j = k then coef (?p ! i) * coef (?e ! j) else 0)
        \<and> (num ! k = None \<longrightarrow> ?num ! k = None \<and> (\<forall>(i, j) \<in> set ?ijs. i + j \<noteq> k))"
    using mul_loop_cells by blast
  have two: "[0..<length ?e] = [0, 1]" by (simp add: upt_rec)
  have "num ! k = Some (next_gen n p ! k)" if k: "k < Suc (length p)" for k
  proof -
    have lt: "k < length ?num" using k by simp
    have z: "?num ! k = None" by (rule nth_replicate) (use k in simp)
    note cell = mp [OF spec [OF cells] lt]
    have "(\<Sum>(i, j) \<leftarrow> ?ijs. if i + j = k then coef (?p ! i) * coef (?e ! j) else 0)
        = (\<Sum>i \<leftarrow> [0..<length p]. (if i = k then coef (?p ! i) else 0)
             + (if Suc i = k then coef (?p ! i) * coef (Some (xpow n)) else 0))"
      unfolding two sum_list_pairs by (rule arg_cong [where f = sum_list], rule map_cong) simp_all
    also have "\<dots> = (\<Sum>i \<leftarrow> [0..<length p]. if i = k then coef (?p ! i) else 0)
          + (\<Sum>i \<leftarrow> [0..<length p]. if Suc i = k then coef (?p ! i) * coef (Some (xpow n)) else 0)"
      by (rule sum_list_addf)
    also have "\<dots> = coef (Some (next_gen n p ! k))"
      using k by (auto simp: sum_list_single next_gen_nth coef_xtime(1) coef_xtime(2) [of n "p ! (k - Suc 0)"])
    finally have "coef (num ! k) = coef (Some (next_gen n p ! k))" unfolding conjunct1 [OF cell] z by simp
    moreover have "num ! k \<noteq> None"
    proof
      assume "num ! k = None"
      then have "\<forall>(i, j) \<in> set ?ijs. i + j \<noteq> k" using cell by blast
      then show False using two k assms(2) by (cases "k < length p") (auto simp: less_Suc_eq dest: bspec [of "{0..<length p}" _ "length p - 1"])
    qed
    ultimately show ?thesis by (cases "num ! k") (simp_all add: coef_inject)
  qed
  then have "num = map Some (next_gen n p)" using num(2) by (intro nth_equalityI) simp_all
  moreover have "next_gen n p ! 0 = 1" using assms(2,3) by (cases p) (simp_all add: next_gen_nth)
  then have "qrPolynomial (map Some (next_gen n p)) 0 = map Some (next_gen n p)"
    by (cases "next_gen n p") (simp_all add: qrPolynomial_def)
  ultimately show ?thesis using num(1) by (simp add: multiply_def)
qed

text \<open>All generators up to 30 factors have no zero coefficient.\<close>

fun gen_run :: "nat list \<Rightarrow> byte list \<Rightarrow> byte list option" where
  "gen_run [] p = Some p"
| "gen_run (i # is) p = (if 0 \<in> set p then None else gen_run is (next_gen i p))"

lemma generators_12: "gen_run [0, 1, 2, 3, 4, 5, 6, 7, 8, 9, 10, 11] [1] = Some [1, 68, 119, 67, 118, 220, 31, 7, 84, 92, 127, 213, 97]"
  by (simp add: next_gen_def xtime_def funpow_numeral_rec)

lemma generators_16: "gen_run [12, 13, 14, 15] [1, 68, 119, 67, 118, 220, 31, 7, 84, 92, 127, 213, 97] = Some [1, 59, 13, 104, 189, 68, 209, 30, 8, 163, 65, 41, 229, 98, 50, 36, 59]"
  by (simp add: next_gen_def xtime_def funpow_numeral_rec)

lemma generators_20: "gen_run [16, 17, 18, 19] [1, 59, 13, 104, 189, 68, 209, 30, 8, 163, 65, 41, 229, 98, 50, 36, 59] = Some [1, 152, 185, 240, 5, 111, 99, 6, 220, 112, 150, 69, 36, 187, 22, 228, 198, 121, 121, 165, 174]"
  by (simp add: next_gen_def xtime_def funpow_numeral_rec)

lemma generators_22: "gen_run [20, 21] [1, 152, 185, 240, 5, 111, 99, 6, 220, 112, 150, 69, 36, 187, 22, 228, 198, 121, 121, 165, 174] = Some [1, 89, 179, 131, 176, 182, 244, 19, 189, 69, 40, 28, 137, 29, 123, 67, 253, 86, 218, 230, 26, 145, 245]"
  by (simp add: next_gen_def xtime_def funpow_numeral_rec)

lemma generators_24: "gen_run [22, 23] [1, 89, 179, 131, 176, 182, 244, 19, 189, 69, 40, 28, 137, 29, 123, 67, 253, 86, 218, 230, 26, 145, 245] = Some [1, 122, 118, 169, 70, 178, 237, 216, 102, 115, 150, 229, 73, 130, 72, 61, 43, 206, 1, 237, 247, 127, 217, 144, 117]"
  by (simp add: next_gen_def xtime_def funpow_numeral_rec)

lemma generators_26: "gen_run [24, 25] [1, 122, 118, 169, 70, 178, 237, 216, 102, 115, 150, 229, 73, 130, 72, 61, 43, 206, 1, 237, 247, 127, 217, 144, 117] = Some [1, 246, 51, 183, 4, 136, 98, 199, 152, 77, 56, 206, 24, 145, 40, 209, 117, 233, 42, 135, 68, 70, 144, 146, 77, 43, 94]"
  by (simp add: next_gen_def xtime_def funpow_numeral_rec)

lemma generators_28: "gen_run [26, 27] [1, 246, 51, 183, 4, 136, 98, 199, 152, 77, 56, 206, 24, 145, 40, 209, 117, 233, 42, 135, 68, 70, 144, 146, 77, 43, 94] = Some [1, 252, 9, 28, 13, 18, 251, 208, 150, 103, 174, 100, 41, 167, 12, 247, 56, 117, 119, 233, 127, 181, 100, 121, 147, 176, 74, 58, 197]"
  by (simp add: next_gen_def xtime_def funpow_numeral_rec)

lemma generators_30: "gen_run [28, 29] [1, 252, 9, 28, 13, 18, 251, 208, 150, 103, 174, 100, 41, 167, 12, 247, 56, 117, 119, 233, 127, 181, 100, 121, 147, 176, 74, 58, 197] = Some [1, 212, 246, 77, 73, 195, 192, 75, 98, 5, 70, 103, 177, 22, 217, 138, 51, 181, 246, 72, 25, 18, 46, 228, 74, 216, 195, 11, 106, 130, 150]"
  by (simp add: next_gen_def xtime_def funpow_numeral_rec)

lemma gen_run_append: "gen_run (is @ js) p = (case gen_run is p of None \<Rightarrow> None | Some q \<Rightarrow> gen_run js q)"
  by (induction "is" arbitrary: p) simp_all

lemma gen_run_generator:
  assumes "gen_run is p = Some q" "p \<noteq> []" "hd p = 1"
  shows "generator_loop is (map Some p) = Inr (map Some q) \<and> length q = length p + length is \<and> hd q = 1 \<and> q \<noteq> []
    \<and> value_at x (map Some q) = value_at x (map Some p) * (\<Prod>i \<leftarrow> is. x + alpha ^ i)"
  using assms
proof (induction "is" arbitrary: p)
  case (Cons i "is")
  let ?f = "[Some 1, Some (xpow i)]"
  have p: "0 \<notin> set p" "gen_run is (next_gen i p) = Some q" using Cons.prems(1) by (auto split: if_splits)
  have m: "multiply (map Some p) ?f = Inr (map Some (next_gen i p))" by (rule multiply_factor [OF p(1) Cons.prems(2,3)])
  have "next_gen i p \<noteq> []" by (simp flip: length_greater_0_conv)
  moreover have "next_gen i p ! 0 = 1" using Cons.prems(2,3) by (cases p) (simp_all add: next_gen_nth)
  ultimately have n: "next_gen i p \<noteq> []" "hd (next_gen i p) = 1" by (simp_all add: hd_conv_nth)
  have f: "qrPolynomial [Some 1, gexp (Some (int i))] 0 = ?f" by (simp add: qrPolynomial_def gexp_nat del: gexp.simps)
  have "value_at x ?f = x + alpha ^ i" by (simp add: horner_Cons coef_gexp)
  then have "value_at x (map Some (next_gen i p)) = value_at x (map Some p) * (x + alpha ^ i)"
    using multiply_value [OF m, of x] Cons.prems(2) by simp
  then show ?case using Cons.IH [OF p(2) n] m f by (simp add: mult.assoc del: gexp.simps)
qed simp

lemma generator_exists:
  assumes "n \<le> 30"
  shows "\<exists>g. gen_run [0..<n] [1] = Some g \<and> 0 \<notin> set g"
proof -
  have "[0..<30] = [0, 1, 2, 3, 4, 5, 6, 7, 8, 9, 10, 11] @ [12, 13, 14, 15] @ [16, 17, 18, 19] @ [20, 21] @ [22, 23] @ [24, 25] @ [26, 27] @ [28, 29]"
    by (simp add: upt_rec)
  then have all: "gen_run [0..<30] [1] = Some [1, 212, 246, 77, 73, 195, 192, 75, 98, 5, 70, 103, 177, 22, 217, 138, 51, 181, 246, 72, 25, 18, 46, 228, 74, 216, 195, 11, 106, 130, 150]"
    by (simp only: gen_run_append generators_12 generators_16 generators_20 generators_22 generators_24 generators_26
        generators_28 generators_30 option.case)
  show ?thesis
  proof (cases "n = 30")
    case False
    then have "[0..<30] = [0..<n] @ n # [Suc n..<30]"
      using assms upt_add_eq_append [of 0 n "30 - n"] by (simp add: upt_conv_Cons)
    then have "gen_run ([0..<n] @ n # [Suc n..<30]) [1] \<noteq> None" using all by simp
    then show ?thesis by (auto simp: gen_run_append split: option.splits if_splits)
  qed (use all in simp)
qed

section \<open>The remainder always exists\<close>

text \<open>Bytes with a nonzero first one, then fewer holes than the divisor is long.\<close>

definition dividend :: "nat \<Rightarrow> cell list \<Rightarrow> bool" where
  "dividend k p \<longleftrightarrow> (\<exists>bs j. p = map Some bs @ replicate j None \<and> j \<le> k \<and> (bs \<noteq> [] \<longrightarrow> hd bs \<noteq> 0))"

lemma dividend_qrPolynomial:
  "j \<le> k \<Longrightarrow> dividend k (qrPolynomial (map Some bs @ replicate j None) 0)"
proof -
  have "dropWhile (\<lambda>c. c = Some 0) (map Some bs @ replicate j None) = map Some (dropWhile ((=) 0) bs) @ replicate j None"
    by (induction bs) (auto simp: dropWhile_eq_self_iff)
  moreover assume "j \<le> k"
  ultimately show ?thesis unfolding dividend_def qrPolynomial_def
    by (intro exI [of _ "dropWhile ((=) 0) bs"] exI [of _ j]) (use hd_dropWhile [of "(=) 0" bs] in auto)
qed

lemma sub_loop_total:
  assumes "filled e" "\<forall>i \<in> set is. i < length e \<and> i < length num" "distinct is"
  shows "\<exists>num'. sub_loop e ratio is num = Inr num' \<and> length num' = length num
    \<and> (\<forall>k < length num. if k \<in> set is
          then (\<exists>b. glog (e ! k) = Inr b \<and> num' ! k = xor_cell (num ! k) (gexp (num_add b ratio))) else num' ! k = num ! k)"
  using assms(2,3)
proof (induction "is" arbitrary: num)
  case (Cons i "is")
  then obtain b where b: "glog (e ! i) = Inr b" using glog_filled [OF assms(1), of i] by auto
  let ?num = "num[i := xor_cell (num ! i) (gexp (num_add b ratio))]"
  obtain num' where n: "sub_loop e ratio is ?num = Inr num'" "length num' = length num"
    "\<forall>k < length num. if k \<in> set is
          then (\<exists>b. glog (e ! k) = Inr b \<and> num' ! k = xor_cell (?num ! k) (gexp (num_add b ratio))) else num' ! k = ?num ! k"
    using Cons.IH [of ?num] Cons.prems by auto
  have "sub_loop e ratio (i # is) num = Inr num'" using n(1) b Cons.prems by simp
  moreover have "if k \<in> set (i # is)
          then (\<exists>b. glog (e ! k) = Inr b \<and> num' ! k = xor_cell (num ! k) (gexp (num_add b ratio))) else num' ! k = num ! k"
    if "k < length num" for k
    using n(3) [rule_format, OF that] that b Cons.prems by (cases "k = i") (auto split: if_splits)
  ultimately show ?case using n(2) by blast
qed simp

lemma gexp_cancel:
  assumes "glog c = Inr a" "glog e = Inr b" "e \<noteq> None" "c = Some n"
  shows "xor_cell c (gexp (num_add b (num_sub a b))) = Some 0"
proof -
  obtain i j where ij: "a = Some (int i)" "b = Some (int j)" "c = Some (xpow i)"
    using glog_cases [OF assms(1)] glog_cases [OF assms(2)] assms(3,4) by (metis option.distinct(1))
  then have "gexp (num_add b (num_sub a b)) = c" by (simp add: num_add_def num_sub_def gexp_nat del: gexp.simps)
  then show ?thesis by (simp add: xor_cell_def)
qed

lemma sub_step:
  assumes "filled e" "e \<noteq> []" "dividend k p" "k < length e" "length e \<le> length p"
  shows "\<exists>a b num. glog (getAt p 0) = Inr a \<and> glog (getAt e 0) = Inr b
    \<and> sub_loop e (num_sub a b) [0..<length e] p = Inr num
    \<and> dividend k (qrPolynomial num 0) \<and> length (qrPolynomial num 0) < length p"
proof -
  obtain bs j where p: "p = map Some bs @ replicate j None" "j \<le> k" "bs \<noteq> [] \<longrightarrow> hd bs \<noteq> 0"
    using assms(3) by (auto simp: dividend_def)
  have bs: "bs \<noteq> []" using p assms(4,5) by auto
  then have p0: "p ! 0 = Some (hd bs)" "hd bs \<noteq> 0" using p by (simp_all add: nth_append hd_conv_nth)
  have e0: "e ! 0 \<noteq> None" using assms(1,2) by (auto simp: filled_def list_all_length)
  obtain a where a: "glog (p ! 0) = Inr a" using p0 by (simp add: word_less_1)
  obtain b where b: "glog (e ! 0) = Inr b" using glog_filled [OF assms(1), of 0] assms(2) by auto
  obtain num where num: "sub_loop e (num_sub a b) [0..<length e] p = Inr num" "length num = length p"
    and cells: "\<forall>k < length p. if k \<in> set [0..<length e]
          then (\<exists>b'. glog (e ! k) = Inr b' \<and> num ! k = xor_cell (p ! k) (gexp (num_add b' (num_sub a b)))) else num ! k = p ! k"
    using sub_loop_total [OF assms(1), of "[0..<length e]" p "num_sub a b"] assms(5) by auto
  have pos: "0 < length p" "0 < length e" using assms(2,5) by auto
  have num0: "num ! 0 = Some 0" using cells [rule_format, OF pos(1)] pos(2) gexp_cancel [OF a b e0 p0(1)] b by auto
  let ?m = "max (length bs) (length e)"
  have "num ! i \<noteq> None" if "i < ?m" "i < length p" for i
    using cells [rule_format, OF that(2)] that p(1) by (auto simp: xor_cell_def nth_append split: if_splits)
  then have cs: "num ! i = Some (the (num ! i))" if "i < ?m" "i < length p" for i using that by auto
  have holes: "num ! i = None" if "?m \<le> i" "i < length p" for i
    using cells [rule_format, OF that(2)] that p(1) by (auto simp: nth_append)
  have m: "?m \<le> length p" using assms(5) p(1) by simp
  have "num = map Some (map the (take ?m num)) @ replicate (length p - ?m) None"
    using m num(2) cs holes by (intro nth_equalityI) (auto simp: nth_append not_less)
  moreover have "length p - ?m \<le> k" using p by auto
  ultimately have "dividend k (qrPolynomial num 0)" by (metis dividend_qrPolynomial)
  moreover have "length (qrPolynomial num 0) < length p"
  proof -
    obtain rest where "num = Some 0 # rest" using num0 num(2) pos by (cases num) auto
    then show ?thesis using num(2) length_dropWhile_le [of "\<lambda>c. c = Some 0" rest]
      by (simp add: qrPolynomial_def)
  qed
  ultimately show ?thesis using a b num(1) pos by auto
qed

lemma mod_fuel_total:
  assumes "filled e" "e \<noteq> []" "k < length e"
  shows "dividend k p \<Longrightarrow> length p < fuel \<Longrightarrow> \<exists>r. mod_fuel fuel p e = Inr r"
proof (induction fuel arbitrary: p)
  case (Suc fuel)
  show ?case
  proof (cases "length p < length e")
    case False
    then obtain a b num where "glog (getAt p 0) = Inr a" "glog (getAt e 0) = Inr b"
      "sub_loop e (num_sub a b) [0..<length e] p = Inr num"
      and n: "dividend k (qrPolynomial num 0)" "length (qrPolynomial num 0) < length p"
      using sub_step [OF assms(1,2) Suc.prems(1) assms(3)] by auto
    moreover obtain r where "mod_fuel fuel (qrPolynomial num 0) e = Inr r"
      using Suc.IH [OF n(1)] n(2) Suc.prems(2) by auto
    ultimately show ?thesis using False by auto
  qed simp
qed simp

section \<open>Theorems\<close>

lemma prod_list_zero: "x \<in> set xs \<Longrightarrow> x = 0 \<Longrightarrow> prod_list xs = (0 :: gf)"
  by (induction xs) auto

lemma qrPolynomial_shift: "qrPolynomial (map Some bs) n = qrPolynomial (map Some bs @ replicate n None) 0"
  by (induction bs) (auto simp: qrPolynomial_def dropWhile_eq_self_iff)

lemma align_remainder_eq: "length r \<le> n \<Longrightarrow> align_remainder r n = replicate (n - length r) (Some 0) @ r"
  by (intro nth_equalityI) (auto simp: align_remainder_def nth_append nat_diff_distrib' nat_add_distrib Let_def)

lemma generator_props:
  assumes "n \<le> 30"
  obtains g where "getErrorCorrectPolynomial n = Inr (map Some g)" "0 \<notin> set g" "length g = Suc n"
    "\<And>i. i < n \<Longrightarrow> value_at (alpha ^ i) (map Some g) = 0"
proof -
  obtain g where g: "gen_run [0..<n] [1] = Some g" "0 \<notin> set g" using generator_exists [OF assms] by blast
  note run = gen_run_generator [OF g(1)]
  have "getErrorCorrectPolynomial n = Inr (map Some g)"
    using run by (simp add: getErrorCorrectPolynomial_def qrPolynomial_def)
  moreover have "value_at (alpha ^ i) (map Some g) = 0" if "i < n" for i
  proof -
    have "alpha ^ i + alpha ^ i \<in> set (map (\<lambda>j. alpha ^ i + alpha ^ j) [0..<n])" using that by (force intro: imageI)
    then have "(\<Prod>j \<leftarrow> [0..<n]. alpha ^ i + alpha ^ j) = 0" by (rule prod_list_zero [OF _ gf_double])
    then show ?thesis using run [of "alpha ^ i"] by simp
  qed
  ultimately show thesis using that g(2) run by simp
qed

text \<open>
  C38. The tables multiply in the field: adding the logarithms of two nonzero bytes and taking
  the exponential gives their carry-less product modulo \<open>x^8 + x^4 + x^3 + x^2 + 1\<close>.
\<close>

theorem tables_multiply:
  assumes "a \<noteq> 0" "b \<noteq> 0"
  shows "\<exists>la lb. glog (Some a) = Inr (Some la) \<and> glog (Some b) = Inr (Some lb) \<and> gexp (Some (la + lb)) = Some (gf_mul a b)"
proof -
  obtain i j where "i < 255" "j < 255" "a = xpow i" "b = xpow j" using assms xpow_surj by metis
  then show ?thesis
    by (intro exI [of _ "int i"] exI [of _ "int j"])
      (simp add: gf_mul_xpows gexp_nat nat_add_distrib del: glog.simps gexp.simps)
qed

lemma tables_multiply_witness:
  "\<exists>la lb. glog (Some 2) = Inr (Some la) \<and> glog (Some 128) = Inr (Some lb) \<and> gexp (Some (la + lb)) = Some 29"
proof -
  have "gf_mul 2 128 = 29" by (simp add: gf_mul_def upt_rec xtime_def funpow_numeral_rec)
  then show ?thesis using tables_multiply [of 2 128] by (simp del: glog.simps gexp.simps)
qed

lemma block_codeword:
  assumes "ecCount \<le> 30"
  shows "\<exists>ec. block_ec dcdata ecCount = Inr ec \<and> length ec = ecCount
    \<and> (\<forall>i < ecCount. value_at (alpha ^ i) (map Some dcdata @ ec) = 0)"
proof -
  obtain g where g: "getErrorCorrectPolynomial ecCount = Inr (map Some g)" "0 \<notin> set g" "length g = Suc ecCount"
    "\<And>i. i < ecCount \<Longrightarrow> value_at (alpha ^ i) (map Some g) = 0"
    using generator_props [OF assms] by metis
  let ?raw = "qrPolynomial (map Some dcdata) ecCount"
  have "filled (map Some g)" using g(2) by (auto simp: filled_def list_all_iff)
  moreover have "dividend ecCount ?raw" unfolding qrPolynomial_shift by (rule dividend_qrPolynomial) simp
  moreover have "map Some g \<noteq> []" "ecCount < length (map Some g)" using g(3) by auto
  ultimately obtain r where r: "poly_mod ?raw (map Some g) = Inr r"
    using mod_fuel_total [of "map Some g" ecCount ?raw "length ?raw + 2"] unfolding poly_mod_def by fastforce
  let ?ec = "align_remainder r ecCount"
  have len: "length r \<le> ecCount" using mod_fuel_length [OF r [unfolded poly_mod_def]] g(3) by simp
  have "value_at (alpha ^ i) (map Some dcdata @ ?ec) = 0" if "i < ecCount" for i
  proof -
    have "value_at (alpha ^ i) r = value_at (alpha ^ i) (map Some dcdata) * (alpha ^ i) ^ ecCount"
      using mod_fuel_value [OF r [unfolded poly_mod_def] g(4) [OF that]] by (simp add: value_qrPolynomial)
    moreover have "value_at (alpha ^ i) ?ec = value_at (alpha ^ i) r"
      by (simp add: align_remainder_eq [OF len] horner_append)
    moreover have "length ?ec = ecCount" by (simp add: align_remainder_def)
    ultimately show ?thesis by (simp only: map_append horner_append length_map gf_double)
  qed
  moreover have "block_ec dcdata ecCount = Inr ?ec" using g(1,3) r by (simp add: block_ec_def)
  ultimately show ?thesis by (intro exI [of _ ?ec]) (simp add: align_remainder_def)
qed

text \<open>
  Error correction of a block always succeeds for the lengths the standard uses, has the
  length asked for, and makes the block a word of the Reed-Solomon code: the polynomial of the
  data followed by the error correction bytes vanishes at the first powers of \<open>alpha\<close>.
\<close>

theorem block_is_codeword:
  assumes "ecCount \<le> 30"
  shows "\<exists>ec. block_ec dcdata ecCount = Inr ec \<and> length ec = ecCount
    \<and> (\<forall>i < ecCount. value_at (alpha ^ i) (map Some dcdata @ ec) = 0)"
  by (rule block_codeword [OF assms])

lemma block_is_codeword_witness:
  "\<exists>ec. block_ec [64, 12, 7] 10 = Inr ec \<and> length ec = 10 \<and> (\<forall>i < 10. value_at (alpha ^ i) (map Some [64, 12, 7] @ ec) = 0)"
  using block_is_codeword [of 10 "[64, 12, 7]"] by simp

end
