(* ===== verification/QrBlocksCorrect.thy ===== *)
theory QrBlocksCorrect
  imports QrDataCorrect QrRsCorrect
begin

text \<open>
  Interleaving: a reader that knows the lengths of the blocks undoes it, so the codewords of a
  symbol give back every block with its error correction.
\<close>

section \<open>Undoing the interleaving\<close>

definition longer :: "nat \<Rightarrow> nat list \<Rightarrow> nat" where
  "longer i lens = length (filter (\<lambda>l. i < l) lens)"

text \<open>Where element \<open>i\<close> of block \<open>r\<close> stands.\<close>

definition position :: "nat list \<Rightarrow> nat \<Rightarrow> nat \<Rightarrow> nat" where
  "position lens r i = sum_list (map (\<lambda>j. longer j lens) [0..<i]) + longer i (take r lens)"

definition deinterleave :: "nat list \<Rightarrow> 'a list \<Rightarrow> 'a list list" where
  "deinterleave lens xs = map (\<lambda>r. map (\<lambda>i. xs ! position lens r i) [0..<lens ! r]) [0..<length lens]"

lemma concat_nth:
  "i < length xss \<Longrightarrow> k < length (xss ! i) \<Longrightarrow> concat xss ! (sum_list (map length (take i xss)) + k) = xss ! i ! k"
proof (induction xss arbitrary: i)
  case (Cons xs xss)
  then show ?case by (cases i) (auto simp: nth_append)
qed simp

lemma concat_nth_less:
  "i < length xss \<Longrightarrow> k < length (xss ! i) \<Longrightarrow> sum_list (map length (take i xss)) + k < length (concat xss)"
proof (induction xss arbitrary: i)
  case (Cons xs xss)
  then show ?case by (cases i) (auto simp: length_concat)
qed simp

lemma length_column: "length (column i rows) = longer i (map length rows)"
  by (induction rows) (auto simp: column_def longer_def)

lemma column_nth:
  assumes "r < length rows" "i < length (rows ! r)"
  shows "longer i (take r (map length rows)) < length (column i rows)
    \<and> column i rows ! longer i (take r (map length rows)) = rows ! r ! i"
proof -
  let ?f = "\<lambda>row. if i < length row then [row ! i] else []"
  have "longer i (take r (map length rows)) = sum_list (map length (take r (map ?f rows)))"
    by (induction rows arbitrary: r) (auto simp: longer_def take_Cons split: nat.split)
  then show ?thesis
    using concat_nth [of r "map ?f rows" 0] concat_nth_less [of r "map ?f rows" 0] assms by (simp add: column_def)
qed

lemma interleave_nth:
  assumes "r < length rows" "i < length (rows ! r)" "length (rows ! r) \<le> n"
  shows "position (map length rows) r i < length (interleave n rows)
    \<and> interleave n rows ! position (map length rows) r i = rows ! r ! i"
proof -
  let ?cols = "map (\<lambda>i. column i rows) [0..<n]"
  have "take i ?cols = map (\<lambda>i. column i rows) [0..<i]" using assms by (simp add: take_map)
  then have "sum_list (map length (take i ?cols)) = sum_list (map (\<lambda>j. longer j (map length rows)) [0..<i])"
    by (simp add: o_def length_column)
  then have p: "position (map length rows) r i = sum_list (map length (take i ?cols)) + longer i (take r (map length rows))"
    by (simp add: position_def)
  have "i < length ?cols" "?cols ! i = column i rows" using assms by auto
  then show ?thesis unfolding p interleave_def
    using column_nth [OF assms(1,2)] concat_nth [of i ?cols] concat_nth_less [of i ?cols] by metis
qed

lemma deinterleave_interleave:
  assumes "\<forall>row \<in> set rows. length row \<le> n"
  shows "deinterleave (map length rows) (interleave n rows @ ys) = rows"
proof (rule nth_equalityI)
  show "length (deinterleave (map length rows) (interleave n rows @ ys)) = length rows" by (simp add: deinterleave_def)
  fix r
  assume "r < length (deinterleave (map length rows) (interleave n rows @ ys))"
  then have r: "r < length rows" by (simp add: deinterleave_def)
  then have "length (rows ! r) \<le> n" using assms by simp
  then show "deinterleave (map length rows) (interleave n rows @ ys) ! r = rows ! r"
    using r interleave_nth [OF r] by (intro nth_equalityI) (auto simp: deinterleave_def nth_append)
qed

lemma interleave_map: "interleave n (map (map g) rows) = map g (interleave n rows)"
proof -
  have "column i (map (map g) rows) = map g (column i rows)" for i
    by (induction rows) (auto simp: column_def)
  then show ?thesis by (simp add: interleave_def map_concat o_def)
qed

lemma length_interleave:
  "\<forall>row \<in> set rows. length row \<le> n \<Longrightarrow> length (interleave n rows) = sum_list (map length rows)"
proof (induction rows)
  case (Cons row rows)
  have "length (interleave n (row # rows)) = (\<Sum>i \<leftarrow> [0..<n]. (if i < length row then 1 else 0) + length (column i rows))"
    by (auto simp: interleave_def length_concat o_def column_def intro!: arg_cong [where f = sum_list])
  also have "\<dots> = (\<Sum>i \<leftarrow> [0..<n]. if i < length row then 1 else 0) + length (interleave n rows)"
    by (simp add: sum_list_addf interleave_def length_concat o_def)
  also have "(\<Sum>i \<leftarrow> [0..<n]. if i < length row then 1 else 0) = min n (length row)"
    by (induction n) (auto simp: min_def)
  finally show ?case using Cons by simp
qed (simp add: interleave_def column_def)

lemma fold_max_start: "a \<le> fold max xs (a :: nat)"
proof (induction xs arbitrary: a)
  case (Cons x xs)
  then show ?case using le_trans [OF max.cobounded2 Cons.IH] by simp
qed simp

lemma fold_max_ge: "x \<in> set xs \<Longrightarrow> x \<le> fold max xs (a :: nat)"
proof (induction xs arbitrary: a)
  case (Cons y ys)
  then show ?case using le_trans [OF max.cobounded1 fold_max_start [of "max y a" ys]] by auto
qed simp

section \<open>Blocks\<close>

definition good_blocks :: "rs_block list \<Rightarrow> bool" where
  "good_blocks blocks \<longleftrightarrow> list_all (\<lambda>b. dataCount b < totalCount b \<and> totalCount b \<le> dataCount b + 30) blocks"

definition ec_counts :: "rs_block list \<Rightarrow> nat list" where
  "ec_counts blocks = map (\<lambda>b. totalCount b - dataCount b) blocks"

lemma split_blocks_exist:
  "good_blocks blocks \<Longrightarrow> \<exists>parts. split_blocks buf off blocks = Inr parts
     \<and> map (length \<circ> fst) parts = map dataCount blocks \<and> map (length \<circ> snd) parts = ec_counts blocks
     \<and> concat (map fst parts) = map (buffer_byte buf) [off..<off + total_data blocks]
     \<and> list_all (\<lambda>(dc, ec). \<forall>i < length ec. value_at (alpha ^ i) (map Some dc @ ec) = 0) parts"
proof (induction blocks arbitrary: off)
  case (Cons b blocks)
  let ?dc = "map (\<lambda>i. buffer_byte buf (i + off)) [0..<dataCount b]"
  have good: "good_blocks blocks" using Cons.prems by (simp add: good_blocks_def)
  have le: "totalCount b - dataCount b \<le> 30" using Cons.prems by (auto simp: good_blocks_def)
  obtain ec where ec: "block_ec ?dc (totalCount b - dataCount b) = Inr ec" "length ec = totalCount b - dataCount b"
    "\<forall>i < totalCount b - dataCount b. value_at (alpha ^ i) (map Some ?dc @ ec) = 0"
    using block_codeword [OF le] by blast
  obtain parts where parts: "split_blocks buf (off + dataCount b) blocks = Inr parts"
    "map (length \<circ> fst) parts = map dataCount blocks" "map (length \<circ> snd) parts = ec_counts blocks"
    "concat (map fst parts) = map (buffer_byte buf) [off + dataCount b..<off + dataCount b + total_data blocks]"
    "list_all (\<lambda>(dc, ec). \<forall>i < length ec. value_at (alpha ^ i) (map Some dc @ ec) = 0) parts"
    using Cons.IH [OF good, of "off + dataCount b"] by blast
  have "?dc = map (buffer_byte buf) [off..<off + dataCount b]"
    by (intro nth_equalityI) (simp_all add: add.commute)
  then have "?dc @ concat (map fst parts) = map (buffer_byte buf) [off..<off + total_data (b # blocks)]"
    unfolding parts(4) using upt_add_eq_append [of off "off + dataCount b" "total_data blocks"]
    by (simp add: total_data_def add.assoc)
  moreover have "split_blocks buf off (b # blocks) = Inr ((?dc, ec) # parts)" using ec(1) parts(1) by (simp add: Let_def)
  ultimately show ?case using ec parts by (intro exI [of _ "(?dc, ec) # parts"]) (simp add: ec_counts_def comp_def)
qed (simp add: total_data_def ec_counts_def)

lemma buffer_bytes: "length buf = n \<Longrightarrow> map (buffer_byte buf) [0..<n] = buf"
  by (intro nth_equalityI) (simp_all add: buffer_byte_def)

lemma createBytes_exists:
  assumes "good_blocks blocks" "length buf = total_data blocks"
  shows "\<exists>dat parts. createBytes buf blocks = Inr dat \<and> length dat = sum_list (map totalCount blocks)
    \<and> concat (map fst parts) = buf
    \<and> (\<forall>g. deinterleave (map dataCount blocks) (map g dat) = map (map (g \<circ> Some) \<circ> fst) parts)
    \<and> deinterleave (ec_counts blocks) (drop (total_data blocks) dat) = map snd parts
    \<and> list_all (\<lambda>(dc, ec). \<forall>i < length ec. value_at (alpha ^ i) (map Some dc @ ec) = 0) parts"
proof -
  obtain parts where parts: "split_blocks buf 0 blocks = Inr parts"
    "map (length \<circ> fst) parts = map dataCount blocks" "map (length \<circ> snd) parts = ec_counts blocks"
    "concat (map fst parts) = map (buffer_byte buf) [0..<total_data blocks]"
    "list_all (\<lambda>(dc, ec). \<forall>i < length ec. value_at (alpha ^ i) (map Some dc @ ec) = 0) parts"
    using split_blocks_exist [OF assms(1), of buf 0] by auto
  let ?dc = "map (map Some \<circ> fst) parts" and ?ec = "map snd parts"
  let ?n = "fold max (map dataCount blocks) 0" and ?m = "fold max (ec_counts blocks) 0"
  have dlen: "map length ?dc = map dataCount blocks" using parts(2) by (simp add: o_def)
  have elen: "map length ?ec = ec_counts blocks" using parts(3) by (simp add: o_def)
  have dmax: "\<forall>row \<in> set ?dc. length row \<le> ?n"
    using fold_max_ge [of _ "map dataCount blocks" 0] unfolding dlen [symmetric] by auto
  have emax: "\<forall>row \<in> set ?ec. length row \<le> ?m"
    using fold_max_ge [of _ "ec_counts blocks" 0] unfolding elen [symmetric] by auto
  have ld: "length (interleave ?n ?dc) = total_data blocks"
    using length_interleave [OF dmax] by (simp only: dlen total_data_def)
  have le: "length (interleave ?m ?ec) = sum_list (ec_counts blocks)"
    using length_interleave [OF emax] by (simp only: elen)
  have sums: "total_data blocks + sum_list (ec_counts blocks) = sum_list (map totalCount blocks)"
    using assms(1) by (induction blocks) (auto simp: total_data_def ec_counts_def good_blocks_def)
  let ?dat = "interleave ?n ?dc @ interleave ?m ?ec"
  have "createBytes buf blocks = Inr ?dat"
    using parts(1) ld le sums by (simp add: createBytes_def Let_def flip: ec_counts_def)
  moreover have "deinterleave (map dataCount blocks) (map g ?dat) = map (map (g \<circ> Some) \<circ> fst) parts" for g :: "cell \<Rightarrow> 'a"
  proof -
    let ?rows = "map (map g) ?dc"
    have "map length ?rows = map dataCount blocks" using dlen by (simp add: o_def)
    moreover have "\<forall>row \<in> set ?rows. length row \<le> ?n" using dmax by simp
    ultimately have "deinterleave (map dataCount blocks) (interleave ?n ?rows @ map g (interleave ?m ?ec)) = ?rows"
      using deinterleave_interleave [of ?rows ?n "map g (interleave ?m ?ec)"] by simp
    moreover have "map g ?dat = interleave ?n ?rows @ map g (interleave ?m ?ec)"
      by (simp only: map_append interleave_map)
    ultimately show ?thesis by (simp add: o_def)
  qed
  moreover have "deinterleave (ec_counts blocks) (drop (total_data blocks) ?dat) = ?ec"
  proof -
    have "drop (total_data blocks) ?dat = interleave ?m ?ec" using ld by simp
    then show ?thesis using deinterleave_interleave [OF emax, of "[]"] by (simp only: elen append_Nil2)
  qed
  moreover have "concat (map fst parts) = buf" using parts(4) buffer_bytes [OF assms(2)] by simp
  ultimately show ?thesis using parts(5) ld le sums by (intro exI [of _ ?dat] exI [of _ parts]) simp
qed

end
