(* ===== verification/JsNumber.thy ===== *)
theory JsNumber
  imports Complex_Main
begin

text \<open>
  Numbers that are not integers: a double is the rational it stands for, and every operation is
  the exact one followed by rounding to 53 significant bits, ties to even, and no finer than
  \<open>2^-1074\<close>. Where a result may be too large, \<open>js_double\<close> adds the infinity.
\<close>

fun bit_length :: "nat \<Rightarrow> nat" where
  "bit_length n = (if n = 0 then 0 else Suc (bit_length (n div 2)))"

declare bit_length.simps [simp del]

definition round_even :: "rat \<Rightarrow> int" where
  "round_even y =
     (let f = floor y; r = y - of_int f in
      if r < 1 / 2 then f else if r > 1 / 2 then f + 1 else if even f then f else f + 1)"

definition pow2 :: "int \<Rightarrow> rat" where
  "pow2 e = (if e < 0 then 1 / 2 ^ nat (- e) else 2 ^ nat e)"

definition double_exp :: "rat \<Rightarrow> int" where
  "double_exp x =
     (let (p, q) = quotient_of x; e = int (bit_length (nat p)) - int (bit_length (nat q)) - 53
      in if x \<ge> pow2 (e + 53) then e + 1 else e)"

definition fl :: "rat \<Rightarrow> rat" where
  "fl x =
     (if x = 0 then 0
      else let a = \<bar>x\<bar>; e = max (double_exp a) (- 1074); y = of_int (round_even (a / pow2 e)) * pow2 e
           in if x < 0 then - y else y)"

lemma fl_0 [simp]: "fl 0 = 0"
  by (simp add: fl_def)

lemma fl_minus: "fl (- x) = - fl x"
  by (simp add: fl_def Let_def)

lemma round_even_of_int [simp]: "round_even (of_int n) = n"
  by (simp add: round_even_def)

lemma round_even_near: "\<bar>of_int (round_even y) - y\<bar> \<le> 1 / 2"
proof -
  have "of_int \<lfloor>y\<rfloor> \<le> y" "y < of_int \<lfloor>y\<rfloor> + 1" by linarith+
  then show ?thesis by (auto simp: round_even_def Let_def abs_le_iff algebra_simps)
qed

text \<open>Integers below \<open>2^53\<close> are represented exactly.\<close>

lemma bit_length_lower: "0 < n \<Longrightarrow> 0 < bit_length n \<and> 2 ^ (bit_length n - 1) \<le> n"
proof (induction n rule: bit_length.induct)
  case (1 n)
  have bl: "bit_length n = Suc (bit_length (n div 2))" using 1(2) by (subst bit_length.simps) simp
  show ?case
  proof (cases "n div 2 = 0")
    case True
    then show ?thesis using 1(2) unfolding bl by (simp add: bit_length.simps)
  next
    case False
    then have "0 < bit_length (n div 2)" "2 ^ (bit_length (n div 2) - 1) \<le> n div 2" using 1 by auto
    then have "2 * 2 ^ (bit_length (n div 2) - 1) \<le> n" by linarith
    then have "2 ^ bit_length (n div 2) \<le> n"
      using \<open>0 < bit_length (n div 2)\<close> by (cases "bit_length (n div 2)") simp_all
    then show ?thesis unfolding bl by simp
  qed
qed

lemma fl_of_nat:
  assumes "n < 2 ^ 53"
  shows "fl (of_nat n) = of_nat n"
proof (cases "n = 0")
  case False
  let ?b = "bit_length n"
  have b: "0 < ?b" "2 ^ (?b - 1) \<le> n" using bit_length_lower [of n] False by auto
  have "(2::nat) ^ (?b - 1) < 2 ^ 53" using b(2) assms by linarith
  then have b53: "?b - 1 < 53" by (rule power_less_imp_less_exp [rotated]) simp
  have quot: "quotient_of (of_nat n) = (int n, 1)" by (simp add: of_nat_rat quotient_of_Fract normalize_def)
  have one: "bit_length 1 = 1" by (simp add: bit_length.simps)
  have "pow2 (int ?b - 1) = 2 ^ (?b - 1)"
    using b(1) by (simp add: pow2_def nat_diff_distrib)
  also have "\<dots> \<le> of_nat n" using b(2) by (metis of_nat_le_iff of_nat_numeral of_nat_power)
  finally have e: "double_exp (of_nat n) = int ?b - 53"
    using quot one by (simp add: double_exp_def Let_def)
  have "pow2 (int ?b - 53) = 1 / 2 ^ (53 - ?b)"
  proof (cases "?b = 53")
    case False
    then have "nat (53 - int ?b) = 53 - ?b" "int ?b < 53" using b53 by auto
    then show ?thesis by (simp add: pow2_def)
  qed (simp add: pow2_def)
  moreover have "round_even (of_nat n * 2 ^ (53 - ?b)) = int (n * 2 ^ (53 - ?b))"
    by (metis of_int_of_nat_eq of_nat_mult of_nat_numeral of_nat_power round_even_of_int)
  ultimately show ?thesis
    using False by (simp add: fl_def e Let_def)
qed simp

lemma fl_nonneg: "0 \<le> x \<Longrightarrow> 0 \<le> fl x"
proof (cases "x = 0")
  case False
  assume "0 \<le> x"
  let ?y = "\<bar>x\<bar> / pow2 (max (double_exp \<bar>x\<bar>) (- 1074))"
  have "0 \<le> pow2 e" for e by (simp add: pow2_def)
  moreover have "0 \<le> round_even y" if "0 \<le> y" for y
  proof -
    have "0 \<le> \<lfloor>y\<rfloor>" using that by simp
    then show ?thesis by (simp add: round_even_def Let_def)
  qed
  ultimately show ?thesis using False \<open>0 \<le> x\<close> by (simp add: fl_def Let_def)
qed simp

text \<open>A number of a computation without negative numbers and NaN: finite, or the infinity.\<close>

datatype js_double = Finite rat | Infinity

definition dbl :: "rat \<Rightarrow> js_double" where
  "dbl x = (let y = fl x in if y < 2 ^ 1024 then Finite y else Infinity)"

fun dbl_add :: "js_double \<Rightarrow> js_double \<Rightarrow> js_double" where
  "dbl_add (Finite x) (Finite y) = dbl (x + y)"
| "dbl_add _ _ = Infinity"

text \<open>A product with a positive constant.\<close>

fun dbl_times :: "js_double \<Rightarrow> rat \<Rightarrow> js_double" where
  "dbl_times (Finite x) k = dbl (x * k)"
| "dbl_times Infinity k = Infinity"

fun dbl_less :: "js_double \<Rightarrow> js_double \<Rightarrow> bool" where
  "dbl_less (Finite x) (Finite y) \<longleftrightarrow> x < y"
| "dbl_less (Finite x) Infinity \<longleftrightarrow> True"
| "dbl_less Infinity _ \<longleftrightarrow> False"

fun dbl_nonneg :: "js_double \<Rightarrow> bool" where
  "dbl_nonneg (Finite x) \<longleftrightarrow> 0 \<le> x"
| "dbl_nonneg Infinity \<longleftrightarrow> True"

lemma dbl_nonneg_ops:
  "0 \<le> x \<Longrightarrow> dbl_nonneg (dbl x)"
  "dbl_nonneg a \<Longrightarrow> dbl_nonneg b \<Longrightarrow> dbl_nonneg (dbl_add a b)"
  "dbl_nonneg a \<Longrightarrow> 0 \<le> k \<Longrightarrow> dbl_nonneg (dbl_times a k)"
proof -
  show d: "0 \<le> x \<Longrightarrow> dbl_nonneg (dbl x)" for x by (simp add: dbl_def fl_nonneg Let_def)
  show "dbl_nonneg a \<Longrightarrow> dbl_nonneg b \<Longrightarrow> dbl_nonneg (dbl_add a b)" by (cases a; cases b) (simp_all add: d)
  show "dbl_nonneg a \<Longrightarrow> 0 \<le> k \<Longrightarrow> dbl_nonneg (dbl_times a k)" by (cases a) (simp_all add: d)
qed

end
