(* ===== verification/QrMatrix.thy ===== *)
theory QrMatrix
  imports QrData JsNumber
begin

text \<open>
  The matrix of modules: function patterns, format and version information, the placement of
  the codewords under a mask, the penalty of a matrix and the object \<open>qrcode\<close> itself. A module
  is \<open>None\<close> (null) until it is set.
\<close>

section \<open>Modules\<close>

type_synonym modules = "bool option list list"

definition blank_modules :: "nat \<Rightarrow> modules" where
  "blank_modules n = replicate n (replicate n None)"

definition module_at :: "modules \<Rightarrow> nat \<Rightarrow> nat \<Rightarrow> bool option" where
  "module_at m r c = m ! r ! c"

definition set_module :: "nat \<Rightarrow> nat \<Rightarrow> bool \<Rightarrow> modules \<Rightarrow> modules" where
  "set_module r c v m = m[r := (m ! r)[c := Some v]]"

section \<open>Function patterns\<close>

definition probe_dark :: "int \<Rightarrow> int \<Rightarrow> bool" where
  "probe_dark r c \<longleftrightarrow>
     (0 \<le> r \<and> r \<le> 6 \<and> (c = 0 \<or> c = 6)) \<or> (0 \<le> c \<and> c \<le> 6 \<and> (r = 0 \<or> r = 6)) \<or> (2 \<le> r \<and> r \<le> 4 \<and> 2 \<le> c \<and> c \<le> 4)"

definition setupPositionProbePattern :: "nat \<Rightarrow> int \<Rightarrow> int \<Rightarrow> modules \<Rightarrow> modules" where
  "setupPositionProbePattern n row col m =
     fold (\<lambda>r m. if row + r \<le> - 1 \<or> int n \<le> row + r then m
       else fold (\<lambda>c m. if col + c \<le> - 1 \<or> int n \<le> col + c then m
              else set_module (nat (row + r)) (nat (col + c)) (probe_dark r c) m) [-1..7] m) [-1..7] m"

definition setupTimingPattern :: "nat \<Rightarrow> modules \<Rightarrow> modules" where
  "setupTimingPattern n m =
     fold (\<lambda>c m. if module_at m 6 c \<noteq> None then m else set_module 6 c (c mod 2 = 0) m) [8..<n - 8]
       (fold (\<lambda>r m. if module_at m r 6 \<noteq> None then m else set_module r 6 (r mod 2 = 0) m) [8..<n - 8] m)"

definition adjust_dark :: "int \<Rightarrow> int \<Rightarrow> bool" where
  "adjust_dark r c \<longleftrightarrow> r = -2 \<or> r = 2 \<or> c = -2 \<or> c = 2 \<or> (r = 0 \<and> c = 0)"

definition adjust_one :: "nat \<Rightarrow> nat \<Rightarrow> modules \<Rightarrow> modules" where
  "adjust_one row col m =
     (if module_at m row col \<noteq> None then m
      else fold (\<lambda>r m. fold (\<lambda>c m. set_module (nat (int row + r)) (nat (int col + c)) (adjust_dark r c) m) [-2..2] m) [-2..2] m)"

definition setupPositionAdjustPattern :: "nat list \<Rightarrow> modules \<Rightarrow> modules" where
  "setupPositionAdjustPattern pos m = fold (\<lambda>row m. fold (\<lambda>col m. adjust_one row col m) pos m) pos m"

section \<open>Format and version information\<close>

fun getBCHDigit :: "nat \<Rightarrow> nat" where
  "getBCHDigit data = (if data = 0 then 0 else 1 + getBCHDigit (data div 2))"

declare getBCHDigit.simps [simp del]

definition G15 :: nat where
  "G15 = push_bit 10 1 OR push_bit 8 1 OR push_bit 5 1 OR push_bit 4 1 OR push_bit 2 1 OR push_bit 1 1 OR push_bit 0 1"

definition G18 :: nat where
  "G18 = push_bit 12 1 OR push_bit 11 1 OR push_bit 10 1 OR push_bit 9 1 OR push_bit 8 1 OR push_bit 5 1
     OR push_bit 2 1 OR push_bit 0 1"

definition G15_MASK :: nat where
  "G15_MASK = push_bit 14 1 OR push_bit 12 1 OR push_bit 10 1 OR push_bit 4 1 OR push_bit 1 1"

text \<open>The division loop; every turn clears the leading bit, so the number of bits is enough fuel.\<close>

fun bch_reduce :: "nat \<Rightarrow> nat \<Rightarrow> nat \<Rightarrow> nat" where
  "bch_reduce 0 g d = d"
| "bch_reduce (Suc fuel) g d =
     (if getBCHDigit g \<le> getBCHDigit d then bch_reduce fuel g (d XOR push_bit (getBCHDigit d - getBCHDigit g) g) else d)"

definition getBCHTypeInfo :: "nat \<Rightarrow> nat" where
  "getBCHTypeInfo data =
     (let d = push_bit 10 data in (d OR bch_reduce (getBCHDigit d) G15 d) XOR G15_MASK)"

definition getBCHTypeNumber :: "nat \<Rightarrow> nat" where
  "getBCHTypeNumber data = (let d = push_bit 12 data in d OR bch_reduce (getBCHDigit d) G18 d)"

definition setupTypeNumber :: "nat \<Rightarrow> nat \<Rightarrow> bool \<Rightarrow> modules \<Rightarrow> modules" where
  "setupTypeNumber typeNumber n test m =
     (let bits = getBCHTypeNumber typeNumber
      in fold (\<lambda>i. set_module (i mod 3 + n - 8 - 3) (i div 3) (\<not> test \<and> bit bits i)) [0..<18]
           (fold (\<lambda>i. set_module (i div 3) (i mod 3 + n - 8 - 3) (\<not> test \<and> bit bits i)) [0..<18] m))"

definition setupTypeInfo :: "nat \<Rightarrow> qr_level \<Rightarrow> bool \<Rightarrow> nat \<Rightarrow> modules \<Rightarrow> modules" where
  "setupTypeInfo n level test maskPattern m =
     (let bits = getBCHTypeInfo (push_bit 3 (level_code level) OR maskPattern);
          m1 = fold (\<lambda>i. set_module (if i < 6 then i else if i < 8 then i + 1 else n - 15 + i) 8 (\<not> test \<and> bit bits i)) [0..<15] m;
          m2 = fold (\<lambda>i. set_module 8 (if i < 8 then n - i - 1 else if i < 9 then 15 - i - 1 + 1 else 15 - i - 1)
                      (\<not> test \<and> bit bits i)) [0..<15] m1
      in set_module (n - 8) 8 (\<not> test) m2)"

section \<open>Placing the codewords\<close>

fun getMaskFunction :: "nat \<Rightarrow> qr_error + (nat \<Rightarrow> nat \<Rightarrow> bool)" where
  "getMaskFunction maskPattern =
     (if maskPattern = 0 then Inr (\<lambda>i j. (i + j) mod 2 = 0)
      else if maskPattern = 1 then Inr (\<lambda>i j. i mod 2 = 0)
      else if maskPattern = 2 then Inr (\<lambda>i j. j mod 3 = 0)
      else if maskPattern = 3 then Inr (\<lambda>i j. (i + j) mod 3 = 0)
      else if maskPattern = 4 then Inr (\<lambda>i j. (i div 2 + j div 3) mod 2 = 0)
      else if maskPattern = 5 then Inr (\<lambda>i j. (i * j) mod 2 + (i * j) mod 3 = 0)
      else if maskPattern = 6 then Inr (\<lambda>i j. ((i * j) mod 2 + (i * j) mod 3) mod 2 = 0)
      else if maskPattern = 7 then Inr (\<lambda>i j. ((i * j) mod 3 + (i + j) mod 2) mod 2 = 0)
      else Inl (BadMaskPattern maskPattern))"

record map_state =
  ms_modules :: modules
  ms_bitIndex :: int
  ms_byteIndex :: nat

definition fill_module :: "cell list \<Rightarrow> (nat \<Rightarrow> nat \<Rightarrow> bool) \<Rightarrow> nat \<Rightarrow> nat \<Rightarrow> map_state \<Rightarrow> map_state" where
  "fill_module data maskFunc row col st =
     (if module_at (ms_modules st) row col \<noteq> None then st
      else
        (let dark = (ms_byteIndex st < length data \<and> bit (cell_byte (data ! ms_byteIndex st)) (nat (ms_bitIndex st)));
             dark = (if maskFunc row col then \<not> dark else dark);
             bitIndex = ms_bitIndex st - 1;
             m = set_module row col dark (ms_modules st)
         in if bitIndex = -1 then \<lparr>ms_modules = m, ms_bitIndex = 7, ms_byteIndex = ms_byteIndex st + 1\<rparr>
            else \<lparr>ms_modules = m, ms_bitIndex = bitIndex, ms_byteIndex = ms_byteIndex st\<rparr>))"

text \<open>One pass over a pair of columns; the direction is turned at its end.\<close>

function map_rows :: "cell list \<Rightarrow> (nat \<Rightarrow> nat \<Rightarrow> bool) \<Rightarrow> nat \<Rightarrow> nat \<Rightarrow> bool \<Rightarrow> int \<Rightarrow> map_state \<Rightarrow> map_state \<times> int" where
  "map_rows data maskFunc n col upwards row st =
     (let inc = (if upwards then - 1 else 1);
          st1 = fill_module data maskFunc (nat row) (col - 1) (fill_module data maskFunc (nat row) col st)
      in if row + inc < 0 \<or> int n \<le> row + inc then (st1, row)
         else map_rows data maskFunc n col upwards (row + inc) st1)"
  by pat_completeness auto
termination
  by (relation "measure (\<lambda>(data, maskFunc, n, col, upwards, row, st). if upwards then nat (row + 1) else nat (int n - row))")
    (auto split: if_splits)

function map_columns :: "cell list \<Rightarrow> (nat \<Rightarrow> nat \<Rightarrow> bool) \<Rightarrow> nat \<Rightarrow> int \<Rightarrow> bool \<Rightarrow> int \<Rightarrow> map_state \<Rightarrow> map_state" where
  "map_columns data maskFunc n col upwards row st =
     (if col > 0 then
        (let col = (if col = 6 then col - 1 else col);
             (st1, row1) = map_rows data maskFunc n (nat col) upwards row st
         in map_columns data maskFunc n (col - 2) (\<not> upwards) row1 st1)
      else st)"
  by pat_completeness auto
termination
  by (relation "measure (\<lambda>(data, maskFunc, n, col, upwards, row, st). nat col)") (auto split: if_splits)

declare map_rows.simps [simp del] map_columns.simps [simp del]

definition mapData :: "nat \<Rightarrow> cell list \<Rightarrow> nat \<Rightarrow> modules \<Rightarrow> qr_error + modules" where
  "mapData n data maskPattern m =
     rbind (getMaskFunction maskPattern) (\<lambda>maskFunc.
       Inr (ms_modules (map_columns data maskFunc n (int n - 1) True (int n - 1)
              \<lparr>ms_modules = m, ms_bitIndex = 7, ms_byteIndex = 0\<rparr>)))"

section \<open>The penalty\<close>

abbreviation dark :: "modules \<Rightarrow> nat \<Rightarrow> nat \<Rightarrow> bool" where
  "dark m r c \<equiv> module_at m r c = Some True"

definition same_count :: "nat \<Rightarrow> modules \<Rightarrow> nat \<Rightarrow> nat \<Rightarrow> nat" where
  "same_count n m row col =
     sum_list (map (\<lambda>r. if int row + r < 0 \<or> int n \<le> int row + r then 0
       else sum_list (map (\<lambda>c.
              if int col + c < 0 \<or> int n \<le> int col + c then 0
              else if r = 0 \<and> c = 0 then 0
              else if module_at m row col = module_at m (nat (int row + r)) (nat (int col + c)) then 1 else 0) [-1..1])) [-1..1])"

definition lost_level1 :: "nat \<Rightarrow> modules \<Rightarrow> nat" where
  "lost_level1 n m = sum_list (map (\<lambda>(row, col).
     let sameCount = same_count n m row col in if sameCount > 5 then 3 + sameCount - 5 else 0)
       (List.product [0..<n] [0..<n]))"

definition lost_level2 :: "nat \<Rightarrow> modules \<Rightarrow> nat" where
  "lost_level2 n m = sum_list (map (\<lambda>(row, col).
     let count = length (filter id [dark m row col, dark m (row + 1) col, dark m row (col + 1), dark m (row + 1) (col + 1)])
     in if count = 0 \<or> count = 4 then 3 else 0) (List.product [0..<n - 1] [0..<n - 1]))"

definition lost_level3 :: "nat \<Rightarrow> modules \<Rightarrow> nat" where
  "lost_level3 n m =
     sum_list (map (\<lambda>(row, col).
       if dark m row col \<and> \<not> dark m row (col + 1) \<and> dark m row (col + 2) \<and> dark m row (col + 3)
         \<and> dark m row (col + 4) \<and> \<not> dark m row (col + 5) \<and> dark m row (col + 6) then 40 else 0)
       (List.product [0..<n] [0..<n - 6]))
     + sum_list (map (\<lambda>(col, row).
       if dark m row col \<and> \<not> dark m (row + 1) col \<and> dark m (row + 2) col \<and> dark m (row + 3) col
         \<and> dark m (row + 4) col \<and> \<not> dark m (row + 5) col \<and> dark m (row + 6) col then 40 else 0)
       (List.product [0..<n] [0..<n - 6]))"

definition dark_count :: "nat \<Rightarrow> modules \<Rightarrow> nat" where
  "dark_count n m = length (filter (\<lambda>(col, row). dark m row col) (List.product [0..<n] [0..<n]))"

definition dark_ratio :: "nat \<Rightarrow> nat \<Rightarrow> rat" where
  "dark_ratio n darkCount =
     fl (\<bar>fl (fl (fl (of_nat (100 * darkCount) / of_nat n) / of_nat n) - 50)\<bar> / 5)"

definition getLostPoint :: "nat \<Rightarrow> modules \<Rightarrow> rat" where
  "getLostPoint n m =
     fl (of_nat (lost_level1 n m + lost_level2 n m + lost_level3 n m) + fl (dark_ratio n (dark_count n m) * 10))"

section \<open>The qrcode object\<close>

record qr =
  q_typeNumber :: nat
  q_level :: qr_level
  q_modules :: modules
  q_moduleCount :: nat
  q_dataCache :: "cell list option"
  q_dataList :: "qr_data list"

definition qrcode :: "nat \<Rightarrow> qr_level \<Rightarrow> qr" where
  "qrcode typeNumber level = \<lparr>q_typeNumber = typeNumber, q_level = level, q_modules = [], q_moduleCount = 0,
     q_dataCache = None, q_dataList = []\<rparr>"

definition addData :: "(jstr \<Rightarrow> bytes) \<Rightarrow> (jstr \<Rightarrow> bytes) option \<Rightarrow> jstr \<Rightarrow> jstr \<Rightarrow> qr \<Rightarrow> qr_error + qr" where
  "addData toBytes sjis s mode q =
     rbind (make_data toBytes sjis s mode) (\<lambda>d. Inr (q\<lparr>q_dataList := q_dataList q @ [d], q_dataCache := None\<rparr>))"

definition isDark :: "int \<Rightarrow> int \<Rightarrow> qr \<Rightarrow> qr_error + bool option" where
  "isDark row col q =
     (if row < 0 \<or> int (q_moduleCount q) \<le> row \<or> col < 0 \<or> int (q_moduleCount q) \<le> col then Inl (OutOfRange row col)
      else Inr (module_at (q_modules q) (nat row) (nat col)))"

definition function_patterns :: "nat \<Rightarrow> nat list \<Rightarrow> qr_level \<Rightarrow> bool \<Rightarrow> nat \<Rightarrow> modules" where
  "function_patterns typeNumber pos level test maskPattern =
     (let n = typeNumber * 4 + 17;
          m1 = setupPositionProbePattern n 0 0 (blank_modules n);
          m2 = setupPositionProbePattern n (int n - 7) 0 m1;
          m3 = setupPositionProbePattern n 0 (int n - 7) m2;
          m4 = setupPositionAdjustPattern pos m3;
          m5 = setupTimingPattern n m4;
          m6 = setupTypeInfo n level test maskPattern m5
      in if typeNumber \<ge> 7 then setupTypeNumber typeNumber n test m6 else m6)"

text \<open>
  A type number above 40 has no row of alignment positions, and reading the length of undefined
  throws. The modules set before an error are not observable and left out.
\<close>

definition makeImpl :: "bool \<Rightarrow> nat \<Rightarrow> qr \<Rightarrow> qr_error + qr" where
  "makeImpl test maskPattern q =
     (case getPatternPosition (q_typeNumber q) of
        None \<Rightarrow> Inl BadArray
      | Some pos \<Rightarrow>
          (let n = q_typeNumber q * 4 + 17;
               m = function_patterns (q_typeNumber q) pos (q_level q) test maskPattern in
           rbind (case q_dataCache q of
                    Some d \<Rightarrow> Inr d
                  | None \<Rightarrow> createData (q_typeNumber q) (q_level q) (q_dataList q)) (\<lambda>d.
             rbind (mapData n d maskPattern m) (\<lambda>m'.
               Inr (q\<lparr>q_moduleCount := n, q_modules := m', q_dataCache := Some d\<rparr>)))))"

fun best_mask_loop :: "nat list \<Rightarrow> rat \<Rightarrow> nat \<Rightarrow> qr \<Rightarrow> qr_error + nat \<times> qr" where
  "best_mask_loop [] minLostPoint pattern q = Inr (pattern, q)"
| "best_mask_loop (i # is) minLostPoint pattern q =
     rbind (makeImpl True i q) (\<lambda>q1.
       let lostPoint = getLostPoint (q_moduleCount q1) (q_modules q1) in
       if i = 0 \<or> minLostPoint > lostPoint then best_mask_loop is lostPoint i q1
       else best_mask_loop is minLostPoint pattern q1)"

definition getBestMaskPattern :: "qr \<Rightarrow> qr_error + nat \<times> qr" where
  "getBestMaskPattern q = best_mask_loop [0..<8] 0 0 q"

text \<open>The smallest type number the data fits in; 40 is taken without a test.\<close>

fun choose_type :: "nat list \<Rightarrow> qr_level \<Rightarrow> qr_data list \<Rightarrow> qr_error + nat" where
  "choose_type [] level dataList = Inr 40"
| "choose_type (t # ts) level dataList =
     rbind (getRSBlocks t level) (\<lambda>rsBlocks.
       rbind (write_segments t dataList qrBitBuffer) (\<lambda>buf.
         if bb_length buf \<le> total_data rsBlocks * 8 then Inr t else choose_type ts level dataList))"

definition qr_make :: "qr \<Rightarrow> qr_error + qr" where
  "qr_make q =
     rbind (if q_typeNumber q < 1
            then rbind (choose_type [1..<40] (q_level q) (q_dataList q)) (\<lambda>t. Inr (q\<lparr>q_typeNumber := t\<rparr>))
            else Inr q) (\<lambda>q1.
       rbind (getBestMaskPattern q1) (\<lambda>(pattern, q2). makeImpl False pattern q2))"

end
