(* ===== verification/QrPlacement.thy ===== *)
theory QrPlacement
  imports QrMatrix QrDataCorrect
begin

text \<open>
  Placement of the codewords: the zigzag of \<open>mapData\<close> as a list of positions, what it writes
  there, and that a reader that follows the same positions gets the bits back.
\<close>

section \<open>Square matrices\<close>

definition square :: "nat \<Rightarrow> modules \<Rightarrow> bool" where
  "square n m \<longleftrightarrow> length m = n \<and> (\<forall>row \<in> set m. length row = n)"

lemma square_blank [simp]: "square n (blank_modules n)"
  by (simp add: square_def blank_modules_def)

lemma square_set [simp]:
  assumes "square n m"
  shows "square n (set_module r c v m)"
proof (cases "r < length m")
  case True
  then show ?thesis using assms
    by (auto simp: square_def set_module_def dest!: set_update_subset_insert [THEN subsetD])
qed (use assms in \<open>simp add: square_def set_module_def list_update_beyond not_less\<close>)

lemma module_at_blank [simp]: "r < n \<Longrightarrow> c < n \<Longrightarrow> module_at (blank_modules n) r c = None"
  by (simp add: module_at_def blank_modules_def)

lemma module_at_set:
  "square n m \<Longrightarrow> r' < n \<Longrightarrow> c' < n \<Longrightarrow>
   module_at (set_module r c v m) r' c' = (if r' = r \<and> c' = c then Some v else module_at m r' c')"
  by (cases "r = r'") (auto simp: square_def set_module_def module_at_def nth_list_update)

section \<open>The zigzag as a list of positions\<close>

definition col_cells :: "nat \<Rightarrow> nat \<Rightarrow> bool \<Rightarrow> (nat \<times> nat) list" where
  "col_cells n col upwards = concat (map (\<lambda>r. [(r, col), (r, col - 1)]) (if upwards then rev [0..<n] else [0..<n]))"

function columns_from :: "nat \<Rightarrow> nat list" where
  "columns_from col = (if col = 0 then [] else let c = (if col = 6 then 5 else col) in c # columns_from (c - 2))"
  by pat_completeness auto
termination by (relation "measure id") auto

declare columns_from.simps [simp del]

fun path_cols :: "nat \<Rightarrow> bool \<Rightarrow> nat list \<Rightarrow> (nat \<times> nat) list" where
  "path_cols n upwards [] = []"
| "path_cols n upwards (c # cs) = col_cells n c upwards @ path_cols n (\<not> upwards) cs"

definition data_path :: "nat \<Rightarrow> (nat \<times> nat) list" where
  "data_path n = path_cols n True (columns_from (n - 1))"

abbreviation fill_all :: "cell list \<Rightarrow> (nat \<Rightarrow> nat \<Rightarrow> bool) \<Rightarrow> (nat \<times> nat) list \<Rightarrow> map_state \<Rightarrow> map_state" where
  "fill_all dat f ps \<equiv> fold (\<lambda>(r, c). fill_module dat f r c) ps"

lemma map_rows_up:
  "map_rows dat f n col True (int k) st =
     (fill_all dat f (concat (map (\<lambda>r. [(r, col), (r, col - 1)]) (rev [0..<Suc k]))) st, 0)" if "k < n"
  using that
proof (induction k arbitrary: st)
  case 0
  then show ?case by (subst map_rows.simps) simp
next
  case (Suc k)
  have "int (Suc k) + - 1 = int k" "nat (1 + int k) = Suc k" by simp_all
  then show ?case using Suc by (subst map_rows.simps) (simp add: Let_def)
qed

lemma map_rows_down:
  "map_rows dat f n col False (int k) st =
     (fill_all dat f (concat (map (\<lambda>r. [(r, col), (r, col - 1)]) [k..<n])) st, int n - 1)" if "k < n"
  using that
proof (induction "n - k" arbitrary: k st)
  case (Suc d)
  show ?case
  proof (cases "Suc k = n")
    case True
    then show ?thesis by (subst map_rows.simps) (auto simp: Let_def)
  next
    case False
    have "int k + 1 = int (Suc k)" by simp
    then show ?thesis using False Suc(1) [of "Suc k"] Suc(2,3)
      by (subst map_rows.simps) (simp add: Let_def upt_conv_Cons add.commute [of "int k" 1])
  qed
qed simp

lemma map_rows_path:
  "0 < n \<Longrightarrow> map_rows dat f n col upwards (if upwards then int n - 1 else 0) st
     = (fill_all dat f (col_cells n col upwards) st, if upwards then 0 else int n - 1)"
  using map_rows_up [of "n - 1" n dat f col st] map_rows_down [of 0 n dat f col st]
  by (simp add: col_cells_def of_nat_diff)

lemma map_columns_path:
  assumes "0 < n"
  shows "map_columns dat f n (int col) upwards (if upwards then int n - 1 else 0) st
    = fill_all dat f (path_cols n upwards (columns_from col)) st"
proof (induction col arbitrary: upwards st rule: columns_from.induct)
  case (1 col)
  show ?case
  proof (cases "col = 0")
    case True
    then show ?thesis by (simp add: map_columns.simps columns_from.simps)
  next
    case False
    define c where "c = (if col = 6 then 5 else col)"
    have ci: "(if int col = 6 then int col - 1 else int col) = int c" by (simp add: c_def)
    have next_col: "map_columns dat f n (int c - 2) (\<not> upwards) (if upwards then 0 else int n - 1) st'
        = fill_all dat f (path_cols n (\<not> upwards) (columns_from (c - 2))) st'" for st'
    proof (cases "c < 2")
      case True
      then show ?thesis by (simp add: map_columns.simps columns_from.simps [of 0])
    next
      case False
      then have e: "int c - 2 = int (c - 2)" by simp
      show ?thesis unfolding e using 1 [OF \<open>col \<noteq> 0\<close> c_def, of "\<not> upwards" st']
        by (cases upwards) (simp_all only: if_True if_False simp_thms)
    qed
    have "map_columns dat f n (int col) upwards (if upwards then int n - 1 else 0) st
        = map_columns dat f n (int c - 2) (\<not> upwards) (if upwards then 0 else int n - 1)
            (fill_all dat f (col_cells n c upwards) st)"
    proof -
      have "0 < int col" using False by simp
      then show ?thesis
        unfolding map_columns.simps [of dat f n "int col"] ci Let_def map_rows_path [OF assms] nat_int by simp
    qed
    also have "\<dots> = fill_all dat f (path_cols n upwards (c # columns_from (c - 2))) st" by (simp add: next_col)
    also have "c # columns_from (c - 2) = columns_from col" using False by (simp add: columns_from.simps [of col] c_def Let_def)
    finally show ?thesis .
  qed
qed

section \<open>Every column but one\<close>

lemma columns_from_even:
  assumes "3 \<le> k"
  shows "distinct (concat (map (\<lambda>c. [c, c - 1]) (columns_from (2 * k))))
    \<and> set (concat (map (\<lambda>c. [c, c - 1]) (columns_from (2 * k)))) = {c. c \<le> 2 * k \<and> c \<noteq> 6} \<and> 0 \<notin> set (columns_from (2 * k))"
  using assms
proof (induction k rule: dec_induct)
  case base
  have "columns_from 6 = [5, 3, 1]"
    by (simp add: columns_from.simps [of 6] columns_from.simps [of 3] columns_from.simps [of "Suc 0"] columns_from.simps [of 0])
  then show ?case by auto
next
  case (step k)
  define xs where "xs = concat (map (\<lambda>c. [c, c - 1]) (columns_from (2 * k)))"
  have "2 * Suc k \<noteq> 0" "2 * Suc k \<noteq> 6" "2 * Suc k - 2 = 2 * k" using step(1) by auto
  then have c: "columns_from (2 * Suc k) = 2 * Suc k # columns_from (2 * k)"
    by (simp only: columns_from.simps [of "2 * Suc k"] if_False Let_def)
  have l: "concat (map (\<lambda>c. [c, c - 1]) (columns_from (2 * Suc k))) = Suc (Suc (2 * k)) # Suc (2 * k) # xs"
    unfolding c by (simp add: xs_def)
  have xs: "distinct xs" "set xs = {c. c \<le> 2 * k \<and> c \<noteq> 6}" "0 \<notin> set (columns_from (2 * k))"
    using step(3) unfolding xs_def by blast+
  show ?case unfolding l
  proof (intro conjI)
    show "distinct (Suc (Suc (2 * k)) # Suc (2 * k) # xs)" using xs(1,2) by simp
    show "set (Suc (Suc (2 * k)) # Suc (2 * k) # xs) = {c. c \<le> 2 * Suc k \<and> c \<noteq> 6}"
    proof -
      have "2 * k \<noteq> 5" "2 * k \<noteq> 4" using step(1) by presburger+
      then show ?thesis by (auto simp: xs(2) le_Suc_eq)
    qed
    show "0 \<notin> set (columns_from (2 * Suc k))" unfolding c using xs(3) by simp
  qed
qed

lemma col_cells_props:
  "set (col_cells n c upwards) = {0..<n} \<times> {c, c - 1}" "0 < c \<Longrightarrow> distinct (col_cells n c upwards)"
proof -
  have d: "distinct (concat (map (\<lambda>r. [(r, c), (r, c - 1)]) rs))" if "0 < c" "distinct rs" for rs :: "nat list"
    using that by (induction rs) auto
  then show "0 < c \<Longrightarrow> distinct (col_cells n c upwards)" by (simp add: col_cells_def)
  show "set (col_cells n c upwards) = {0..<n} \<times> {c, c - 1}" by (auto simp: col_cells_def)
qed

lemma path_cols_props:
  "set (path_cols n upwards cs) = {0..<n} \<times> set (concat (map (\<lambda>c. [c, c - 1]) cs))"
  "0 \<notin> set cs \<Longrightarrow> distinct (concat (map (\<lambda>c. [c, c - 1]) cs)) \<Longrightarrow> distinct (path_cols n upwards cs)"
proof -
  show s: "set (path_cols n upwards cs) = {0..<n} \<times> set (concat (map (\<lambda>c. [c, c - 1]) cs))" for upwards cs
    by (induction cs arbitrary: upwards) (auto simp: col_cells_props)
  show "0 \<notin> set cs \<Longrightarrow> distinct (concat (map (\<lambda>c. [c, c - 1]) cs)) \<Longrightarrow> distinct (path_cols n upwards cs)"
    by (induction cs arbitrary: upwards) (auto simp: col_cells_props s)
qed

lemma data_path_props:
  "distinct (data_path (4 * t + 17))" "set (data_path (4 * t + 17)) = {0..<4 * t + 17} \<times> ({0..<4 * t + 17} - {6})"
proof -
  define k where "k = 2 * t + 8"
  have n: "4 * t + 17 = Suc (2 * k)" by (simp add: k_def)
  have "3 \<le> k" by (simp add: k_def)
  note c = columns_from_even [OF this]
  show "distinct (data_path (4 * t + 17))" unfolding data_path_def n using c by (simp add: path_cols_props(2))
  show "set (data_path (4 * t + 17)) = {0..<4 * t + 17} \<times> ({0..<4 * t + 17} - {6})"
    unfolding data_path_def n path_cols_props(1) diff_Suc_1 conjunct1 [OF conjunct2 [OF c]] by auto
qed

section \<open>What is written\<close>

definition code_bit :: "cell list \<Rightarrow> nat \<Rightarrow> bool" where
  "code_bit dat k \<longleftrightarrow> k div 8 < length dat \<and> bit (cell_byte (dat ! (k div 8))) (7 - k mod 8)"

definition at_bit :: "nat \<Rightarrow> modules \<Rightarrow> map_state" where
  "at_bit k m = \<lparr>ms_modules = m, ms_bitIndex = 7 - int (k mod 8), ms_byteIndex = k div 8\<rparr>"

lemma fill_at_bit:
  "fill_module dat f r c (at_bit k m) =
     (if module_at m r c \<noteq> None then at_bit k m
      else at_bit (Suc k) (set_module r c (code_bit dat k \<noteq> f r c) m))"
proof -
  have "nat (7 - int (k mod 8)) = 7 - k mod 8" by (simp add: nat_diff_distrib')
  moreover have "Suc k mod 8 = 0 \<longleftrightarrow> k mod 8 = 7" "k mod 8 \<noteq> 7 \<Longrightarrow> Suc k mod 8 = Suc (k mod 8)"
    by (auto simp: mod_Suc)
  moreover have "Suc k div 8 = (if k mod 8 = 7 then Suc (k div 8) else k div 8)" by (simp add: div_Suc mod_Suc)
  ultimately show ?thesis by (auto simp: fill_module_def at_bit_def code_bit_def Let_def)
qed

definition blanks :: "modules \<Rightarrow> (nat \<times> nat) list \<Rightarrow> (nat \<times> nat) list" where
  "blanks m ps = filter (\<lambda>(r, c). module_at m r c = None) ps"

lemma blanks_set:
  assumes "square n m" "set ps \<subseteq> {0..<n} \<times> {0..<n}" "(r, c) \<notin> set ps"
  shows "blanks (set_module r c v m) ps = blanks m ps"
proof -
  have "module_at (set_module r c v m) a b = module_at m a b" if "(a, b) \<in> set ps" for a b
    using that assms module_at_set [OF assms(1), of a b r c v] by fastforce
  then show ?thesis unfolding blanks_def by (intro filter_cong refl) auto
qed

lemma fill_all_blanks:
  assumes "square n m" "distinct ps" "set ps \<subseteq> {0..<n} \<times> {0..<n}"
  shows "\<exists>m'. fill_all dat f ps (at_bit k m) = at_bit (k + length (blanks m ps)) m' \<and> square n m'
    \<and> (\<forall>r < n. \<forall>c < n. (r, c) \<notin> set (blanks m ps) \<longrightarrow> module_at m' r c = module_at m r c)
    \<and> (\<forall>i < length (blanks m ps). case blanks m ps ! i of (r, c) \<Rightarrow>
          module_at m' r c = Some (code_bit dat (k + i) \<noteq> f r c))"
  using assms
proof (induction ps arbitrary: k m)
  case (Cons p ps)
  obtain r c where p: "p = (r, c)" by fastforce
  have rc: "r < n" "c < n" "(r, c) \<notin> set ps" "distinct ps" "set ps \<subseteq> {0..<n} \<times> {0..<n}" using Cons.prems p by auto
  show ?case
  proof (cases "module_at m r c = None")
    case False
    then have "blanks m (p # ps) = blanks m ps" by (simp add: blanks_def p)
    then show ?thesis using Cons.IH [OF Cons.prems(1) rc(4,5), of k] False p by (simp add: fill_at_bit)
  next
    case True
    let ?m = "set_module r c (code_bit dat k \<noteq> f r c) m"
    have sq: "square n ?m" using Cons.prems(1) by simp
    have b: "blanks m (p # ps) = p # blanks ?m ps"
      using True blanks_set [OF Cons.prems(1) rc(5,3)] by (simp add: blanks_def p)
    obtain m' where m': "fill_all dat f ps (at_bit (Suc k) ?m) = at_bit (Suc k + length (blanks ?m ps)) m'" "square n m'"
      and rest: "\<forall>r < n. \<forall>c < n. (r, c) \<notin> set (blanks ?m ps) \<longrightarrow> module_at m' r c = module_at ?m r c"
      and bits: "\<forall>i < length (blanks ?m ps). case blanks ?m ps ! i of (r, c) \<Rightarrow>
          module_at m' r c = Some (code_bit dat (Suc k + i) \<noteq> f r c)"
      using Cons.IH [OF sq rc(4,5), of "Suc k"] by blast
    have at: "module_at ?m r' c' = (if r' = r \<and> c' = c then Some (code_bit dat k \<noteq> f r c) else module_at m r' c')"
      if "r' < n" "c' < n" for r' c' using that by (rule module_at_set [OF Cons.prems(1)])
    have "(r, c) \<notin> set (blanks ?m ps)" using rc(3) by (auto simp: blanks_def)
    then have here: "module_at m' r c = Some (code_bit dat k \<noteq> f r c)" using rest rc(1,2) at by simp
    show ?thesis unfolding b
    proof (intro exI [of _ m'] conjI allI impI)
      show "fill_all dat f (p # ps) (at_bit k m) = at_bit (k + length (p # blanks ?m ps)) m'"
        using m'(1) True p by (simp add: fill_at_bit)
      fix r' c' assume "r' < n" "c' < n" "(r', c') \<notin> set (p # blanks ?m ps)"
      then show "module_at m' r' c' = module_at m r' c'" using rest at p by auto
    next
      fix i assume "i < length (p # blanks ?m ps)"
      then show "case (p # blanks ?m ps) ! i of (r, c) \<Rightarrow> module_at m' r c = Some (code_bit dat (k + i) \<noteq> f r c)"
        using bits here p by (cases i) auto
    qed (rule m'(2))
  qed
qed (auto simp: blanks_def)

section \<open>Reading the codewords\<close>

text \<open>A reader follows the zigzag over the modules that are blank in the layout and removes the mask.\<close>

definition read_bits :: "nat \<Rightarrow> (nat \<Rightarrow> nat \<Rightarrow> bool) \<Rightarrow> modules \<Rightarrow> modules \<Rightarrow> bool list" where
  "read_bits n f layout m = map (\<lambda>(r, c). (module_at m r c = Some True) \<noteq> f r c) (blanks layout (data_path n))"

lemma mapData_placed:
  assumes "square n m" "n = 4 * t + 17" "getMaskFunction p = Inr f"
  shows "\<exists>m'. mapData n dat p m = Inr m' \<and> square n m'
    \<and> read_bits n f m m' = map (code_bit dat) [0..<length (blanks m (data_path n))]
    \<and> (\<forall>r < n. \<forall>c < n. (r, c) \<notin> set (blanks m (data_path n)) \<longrightarrow> module_at m' r c = module_at m r c)
    \<and> (\<forall>r < n. \<forall>c < n. (r, c) \<in> set (blanks m (data_path n)) \<longrightarrow> module_at m' r c \<noteq> None)"
proof -
  have n: "0 < n" "int n - 1 = int (n - 1)" using assms(2) by auto
  have path: "distinct (data_path n)" "set (data_path n) \<subseteq> {0..<n} \<times> {0..<n}" using data_path_props [of t] assms(2) by auto
  obtain m' where m': "fill_all dat f (data_path n) (at_bit 0 m) = at_bit (0 + length (blanks m (data_path n))) m'" "square n m'"
    and other: "\<forall>r < n. \<forall>c < n. (r, c) \<notin> set (blanks m (data_path n)) \<longrightarrow> module_at m' r c = module_at m r c"
    and bits: "\<forall>i < length (blanks m (data_path n)). case blanks m (data_path n) ! i of (r, c) \<Rightarrow>
          module_at m' r c = Some (code_bit dat (0 + i) \<noteq> f r c)"
    using fill_all_blanks [OF assms(1) path, of dat f 0] by blast
  have "map_columns dat f n (int n - 1) True (int n - 1) (at_bit 0 m) = fill_all dat f (data_path n) (at_bit 0 m)"
    using map_columns_path [OF n(1), of dat f "n - 1" True "at_bit 0 m"]
    unfolding n(2) [symmetric] if_True data_path_def .
  then have "mapData n dat p m = Inr m'" using m'(1) assms(3) by (simp add: mapData_def at_bit_def del: getMaskFunction.simps)
  moreover have "read_bits n f m m' = map (code_bit dat) [0..<length (blanks m (data_path n))]"
    using bits by (intro nth_equalityI) (auto simp: read_bits_def split: prod.splits)
  moreover have "module_at m' r c \<noteq> None" if rc: "(r, c) \<in> set (blanks m (data_path n))" for r c
  proof -
    obtain i where "i < length (blanks m (data_path n))" "blanks m (data_path n) ! i = (r, c)"
      using rc by (auto simp: in_set_conv_nth)
    then show ?thesis using bits by fastforce
  qed
  ultimately show ?thesis using m'(2) other by blast
qed

text \<open>The first bits are those of the codewords, an undefined one counting as zero.\<close>

lemma code_bits_bytes:
  "8 * length dat \<le> k \<Longrightarrow> take (8 * length dat) (map (code_bit dat) [0..<k]) = bytes_bits (map cell_byte dat)"
  by (intro nth_equalityI) (auto simp: code_bit_def nth_bytes_bits)

end
