(* ===== verification/QrLayout.thy ===== *)
theory QrLayout
  imports QrPlacement
begin

text \<open>
  The function patterns: which modules they touch, that they leave room for every codeword, and
  that they fill the column the zigzag leaves out.
\<close>

section \<open>What a step may change\<close>

definition changes :: "nat \<Rightarrow> (nat \<times> nat) set \<Rightarrow> modules \<Rightarrow> modules \<Rightarrow> bool" where
  "changes n S m m' \<longleftrightarrow> square n m' \<and> (\<forall>r < n. \<forall>c < n.
     ((r, c) \<notin> S \<longrightarrow> module_at m' r c = module_at m r c) \<and> (module_at m r c \<noteq> None \<longrightarrow> module_at m' r c \<noteq> None))"

lemma changes_refl: "square n m \<Longrightarrow> changes n S m m"
  by (simp add: changes_def)

lemma changes_trans: "changes n S m m' \<Longrightarrow> changes n S m' m'' \<Longrightarrow> changes n S m m''"
  by (simp add: changes_def)

lemma changes_mono: "changes n S m m' \<Longrightarrow> S \<subseteq> T \<Longrightarrow> changes n T m m'"
  by (auto simp: changes_def)

lemma changes_square: "changes n S m m' \<Longrightarrow> square n m'"
  by (simp add: changes_def)

lemma changes_kept: "changes n S m m' \<Longrightarrow> r < n \<Longrightarrow> c < n \<Longrightarrow> module_at m r c \<noteq> None \<Longrightarrow> module_at m' r c \<noteq> None"
  by (simp add: changes_def)

lemma changes_same: "changes n S m m' \<Longrightarrow> r < n \<Longrightarrow> c < n \<Longrightarrow> (r, c) \<notin> S \<Longrightarrow> module_at m' r c = module_at m r c"
  by (simp add: changes_def)

lemma changes_set: "square n m \<Longrightarrow> (r, c) \<in> S \<Longrightarrow> changes n S m (set_module r c v m)"
  by (auto simp: changes_def module_at_set)

lemma changes_fold:
  assumes "\<And>x m. x \<in> set xs \<Longrightarrow> square n m \<Longrightarrow> I m \<Longrightarrow> changes n S m (f x m)"
    and "\<And>m m'. I m \<Longrightarrow> changes n S m m' \<Longrightarrow> I m'" "square n m" "I m"
  shows "changes n S m (fold f xs m)"
  using assms
proof (induction xs arbitrary: m)
  case (Cons x xs)
  have c: "changes n S m (f x m)" using Cons.prems by simp
  have "changes n S (f x m) (fold f xs (f x m))"
    using Cons.IH [OF Cons.prems(1,2) changes_square [OF c]] Cons.prems(2) [OF Cons.prems(4) c] by simp
  then show ?case using changes_trans [OF c] by simp
qed (simp add: changes_refl)

lemmas changes_fold_simple = changes_fold [where I = "\<lambda>_. True", simplified]

text \<open>A position some step of a loop sets stays set.\<close>

lemma fold_puts:
  assumes "\<And>x m. x \<in> set xs \<Longrightarrow> square n m \<Longrightarrow> changes n S m (f x m)"
    and "x \<in> set xs" "\<And>m. square n m \<Longrightarrow> module_at (f x m) r c \<noteq> None" "square n m" "r < n" "c < n"
  shows "module_at (fold f xs m) r c \<noteq> None"
proof -
  obtain ys zs where xs: "xs = ys @ x # zs" using assms(2) by (meson split_list)
  let ?m = "fold f ys m"
  have m: "square n ?m" using changes_fold_simple [of ys n S f m] assms(1,4) xs changes_square by fastforce
  have "changes n S (f x ?m) (fold f zs (f x ?m))"
    using changes_fold_simple [of zs n S f] assms(1) [of x ?m] assms(1) m xs changes_square by fastforce
  then show ?thesis using changes_kept assms(3) [OF m] assms(5,6) xs by fastforce
qed

section \<open>The patterns\<close>

definition probe_region :: "nat \<Rightarrow> int \<Rightarrow> int \<Rightarrow> (nat \<times> nat) set" where
  "probe_region n row col = {(r, c). row - 1 \<le> int r \<and> int r \<le> row + 7 \<and> col - 1 \<le> int c \<and> int c \<le> col + 7}"

lemma probe_inner:
  assumes "square n m" "r \<in> set [-1..7]"
  shows "changes n (probe_region n row col) m (if row + r \<le> - 1 \<or> int n \<le> row + r then m
       else fold (\<lambda>c m. if col + c \<le> - 1 \<or> int n \<le> col + c then m
              else set_module (nat (row + r)) (nat (col + c)) (probe_dark r c) m) [-1..7] m)"
  using assms by (auto simp: probe_region_def intro!: changes_refl changes_fold_simple changes_set)

lemma probe_changes: "square n m \<Longrightarrow> changes n (probe_region n row col) m (setupPositionProbePattern n row col m)"
  unfolding setupPositionProbePattern_def by (rule changes_fold_simple, rule probe_inner) assumption+

lemma probe_puts:
  assumes "square n m" "r < n" "c < n" "(r, c) \<in> probe_region n row col"
  shows "module_at (setupPositionProbePattern n row col m) r c \<noteq> None"
  unfolding setupPositionProbePattern_def
proof (rule fold_puts [where S = "probe_region n row col" and n = n and x = "int r - row"])
  show "int r - row \<in> set [-1..7]" using assms(4) by (auto simp: probe_region_def)
  fix m' assume m': "square n m'"
  let ?f = "\<lambda>c m. if col + c \<le> - 1 \<or> int n \<le> col + c then m
              else set_module (nat (row + (int r - row))) (nat (col + c)) (probe_dark (int r - row) c) m"
  have "module_at (fold ?f [-1..7] m') r c \<noteq> None"
  proof (rule fold_puts [where S = UNIV and n = n and x = "int c - col"])
    show "int c - col \<in> set [-1..7]" using assms(4) by (auto simp: probe_region_def)
  qed (use assms m' in \<open>auto intro!: changes_refl changes_set simp: module_at_set\<close>)
  then show "module_at (if row + (int r - row) \<le> - 1 \<or> int n \<le> row + (int r - row) then m' else fold ?f [-1..7] m') r c \<noteq> None"
    using assms(2) by simp
qed (use assms probe_inner in auto)

definition timing_region :: "nat \<Rightarrow> (nat \<times> nat) set" where
  "timing_region n = {6} \<times> {8..<n - 8} \<union> {8..<n - 8} \<times> {6}"

lemma timing_changes: "square n m \<Longrightarrow> changes n (timing_region n) m (setupTimingPattern n m)"
  unfolding setupTimingPattern_def
  by (rule changes_trans; rule changes_fold_simple)
    (auto simp: timing_region_def intro!: changes_refl changes_set changes_square [OF changes_fold_simple])

lemma timing_puts:
  assumes "square n m" "8 \<le> r" "r < n - 8"
  shows "module_at (setupTimingPattern n m) r 6 \<noteq> None"
proof -
  let ?S = "timing_region n"
  let ?f = "\<lambda>r m. if module_at m r 6 \<noteq> None then m else set_module r 6 (r mod 2 = 0) m"
  let ?g = "\<lambda>c m. if module_at m 6 c \<noteq> None then m else set_module 6 c (c mod 2 = 0) m"
  let ?m = "fold ?f [8..<n - 8] m"
  have f: "changes n ?S m' (?f x m')" if "x \<in> set [8..<n - 8]" "square n m'" for x m'
    using that by (auto simp: timing_region_def intro!: changes_refl changes_set)
  have "module_at ?m r 6 \<noteq> None"
    by (rule fold_puts [where S = ?S and n = n and x = r, OF f]) (use assms in \<open>auto simp: module_at_set\<close>)
  moreover have "changes n ?S ?m (fold ?g [8..<n - 8] ?m)"
    by (rule changes_fold_simple)
      (use changes_square [OF changes_fold_simple [of "[8..<n - 8]" n ?S ?f, OF f assms(1)]] in
        \<open>auto simp: timing_region_def intro!: changes_refl changes_set\<close>)
  ultimately show ?thesis unfolding setupTimingPattern_def using changes_kept assms by fastforce
qed

definition adjust_cells :: "nat \<Rightarrow> nat \<Rightarrow> (nat \<times> nat) set" where
  "adjust_cells a b = {a - 2..a + 2} \<times> {b - 2..b + 2}"

definition corner :: "nat \<Rightarrow> nat \<Rightarrow> nat \<Rightarrow> bool" where
  "corner n a b \<longleftrightarrow> (a = 6 \<and> b = 6) \<or> (a = 6 \<and> b = n - 7) \<or> (a = n - 7 \<and> b = 6)"

definition adjust_region :: "nat \<Rightarrow> nat list \<Rightarrow> (nat \<times> nat) set" where
  "adjust_region n pos = (\<Union>(a, b) \<in> {(a, b). (a, b) \<in> set pos \<times> set pos \<and> \<not> corner n a b}. adjust_cells a b)"

lemma adjust_one_changes:
  assumes "square n m" "module_at m a b \<noteq> None \<or> adjust_cells a b \<subseteq> S"
  shows "changes n S m (adjust_one a b m)"
proof (cases "module_at m a b \<noteq> None")
  case False
  then have "adjust_cells a b \<subseteq> S" using assms by simp
  then have s: "(nat (int a + r), nat (int b + c)) \<in> S" if "r \<in> set [-2..2]" "c \<in> set [-2..2]" for r c
    using that by (intro subsetD [of "adjust_cells a b" S]) (auto simp: adjust_cells_def)
  have inner: "changes n S m' (fold (\<lambda>c. set_module (nat (int a + r)) (nat (int b + c)) (adjust_dark r c)) [-2..2] m')"
    if "square n m'" "r \<in> set [-2..2]" for r m'
    using that s by (intro changes_fold_simple changes_set) auto
  have "changes n S m (fold (\<lambda>r m. fold (\<lambda>c m. set_module (nat (int a + r)) (nat (int b + c)) (adjust_dark r c) m) [-2..2] m) [-2..2] m)"
    by (rule changes_fold_simple [OF inner assms(1)])
  then show ?thesis unfolding adjust_one_def if_not_P [OF False] .
qed (use assms in \<open>simp add: adjust_one_def changes_refl\<close>)

definition corners_set :: "nat \<Rightarrow> modules \<Rightarrow> bool" where
  "corners_set n m \<longleftrightarrow> module_at m 6 6 \<noteq> None \<and> module_at m 6 (n - 7) \<noteq> None \<and> module_at m (n - 7) 6 \<noteq> None"

lemma corners_kept: "13 < n \<Longrightarrow> corners_set n m \<Longrightarrow> changes n S m m' \<Longrightarrow> corners_set n m'"
  using changes_kept [of n S m m' 6 6] changes_kept [of n S m m' 6 "n - 7"] changes_kept [of n S m m' "n - 7" 6]
  by (simp add: corners_set_def)

lemma adjust_changes:
  assumes "13 < n" "square n m" "corners_set n m"
  shows "changes n (adjust_region n pos) m (setupPositionAdjustPattern pos m)"
proof -
  let ?S = "adjust_region n pos"
  have one: "changes n ?S m' (adjust_one a b m')"
    if "a \<in> set pos" "b \<in> set pos" "square n m'" "corners_set n m'" for a b m'
  proof (rule adjust_one_changes [OF that(3)])
    show "module_at m' a b \<noteq> None \<or> adjust_cells a b \<subseteq> ?S"
    proof (cases "corner n a b")
      case True
      then show ?thesis using that(4) by (auto simp: corner_def corners_set_def)
    next
      case False
      then show ?thesis using that(1,2) by (auto simp: adjust_region_def)
    qed
  qed
  have inner: "changes n ?S m' (fold (\<lambda>col m. adjust_one a col m) pos m')"
    if "a \<in> set pos" "square n m'" "corners_set n m'" for a m'
    by (rule changes_fold [where I = "corners_set n"]) (use one that corners_kept [OF assms(1)] in auto)
  show ?thesis unfolding setupPositionAdjustPattern_def
    by (rule changes_fold [where I = "corners_set n"]) (use inner assms corners_kept [OF assms(1)] in auto)
qed

section \<open>Format and version modules\<close>

definition format_row :: "nat \<Rightarrow> nat \<Rightarrow> nat" where
  "format_row n i = (if i < 6 then i else if i < 8 then i + 1 else n - 15 + i)"

definition format_col :: "nat \<Rightarrow> nat \<Rightarrow> nat" where
  "format_col n i = (if i < 8 then n - i - 1 else if i < 9 then 15 - i - 1 + 1 else 15 - i - 1)"

definition format_region :: "nat \<Rightarrow> (nat \<times> nat) set" where
  "format_region n = {0..<9} \<times> {8} \<union> {n - 8..<n} \<times> {8} \<union> {8} \<times> {0..<9} \<union> {8} \<times> {n - 8..<n}"

definition version_region :: "nat \<Rightarrow> (nat \<times> nat) set" where
  "version_region n = {0..<6} \<times> {n - 11..<n - 8} \<union> {n - 11..<n - 8} \<times> {0..<6}"

lemma setupTypeInfo_fold:
  "setupTypeInfo n level test maskPattern m =
     (let v = \<lambda>i. \<not> test \<and> bit (getBCHTypeInfo (push_bit 3 (level_code level) OR maskPattern)) i
      in set_module (n - 8) 8 (\<not> test) (fold (\<lambda>i. set_module 8 (format_col n i) (v i)) [0..<15]
           (fold (\<lambda>i. set_module (format_row n i) 8 (v i)) [0..<15] m)))"
  unfolding setupTypeInfo_def format_row_def format_col_def Let_def ..

lemma format_positions: "21 \<le> n \<Longrightarrow> i < 15 \<Longrightarrow> (format_row n i, 8) \<in> format_region n \<and> (8, format_col n i) \<in> format_region n"
  by (auto simp: format_row_def format_col_def format_region_def)

lemma typeInfo_changes:
  assumes "21 \<le> n" "square n m"
  shows "changes n (format_region n) m (setupTypeInfo n level test maskPattern m)"
proof -
  let ?S = "format_region n"
  have a: "changes n ?S m' (fold (\<lambda>i. set_module (format_row n i) 8 (v i)) [0..<15] m')" if "square n m'" for v m'
    using that format_positions [OF assms(1)] by (intro changes_fold_simple changes_set) auto
  have b: "changes n ?S m' (fold (\<lambda>i. set_module 8 (format_col n i) (v i)) [0..<15] m')" if "square n m'" for v m'
    using that format_positions [OF assms(1)] by (intro changes_fold_simple changes_set) auto
  have c: "changes n ?S m' (set_module (n - 8) 8 v m')" if "square n m'" for v m'
    using that assms(1) by (intro changes_set) (auto simp: format_region_def)
  show ?thesis unfolding setupTypeInfo_fold Let_def
    by (rule changes_trans [OF a [OF assms(2)]], rule changes_trans [OF b c]; (rule changes_square, rule b)?;
        rule changes_square, rule a [OF assms(2)])
qed

lemma typeNumber_changes:
  assumes "21 \<le> n" "square n m"
  shows "changes n (version_region n) m (setupTypeNumber t n test m)"
proof -
  let ?S = "version_region n"
  have pos: "(i div 3, i mod 3 + n - 8 - 3) \<in> ?S \<and> (i mod 3 + n - 8 - 3, i div 3) \<in> ?S" if "i < 18" for i
  proof -
    have "i div 3 < 6" "i mod 3 < 3" using that by auto
    then show ?thesis using assms(1) by (auto simp: version_region_def)
  qed
  have a: "changes n ?S m' (fold (\<lambda>i. set_module (i div 3) (i mod 3 + n - 8 - 3) (v i)) [0..<18] m')" if "square n m'" for v m'
    using that pos by (intro changes_fold_simple changes_set) auto
  have b: "changes n ?S m' (fold (\<lambda>i. set_module (i mod 3 + n - 8 - 3) (i div 3) (v i)) [0..<18] m')" if "square n m'" for v m'
    using that pos by (intro changes_fold_simple changes_set) auto
  show ?thesis unfolding setupTypeNumber_def Let_def
    by (rule changes_trans [OF a [OF assms(2)] b], rule changes_square, rule a [OF assms(2)])
qed

end
