(* ===== verification/QrCapacity.thy ===== *)
theory QrCapacity
  imports QrLayout
begin

text \<open>
  The whole layout of a symbol: the modules left blank are enough for every codeword, every
  other module is set, and which ones are blank does not depend on the mask or the level.
\<close>

section \<open>The layout\<close>

definition base_layout :: "nat \<Rightarrow> nat list \<Rightarrow> modules" where
  "base_layout n pos = setupTimingPattern n (setupPositionAdjustPattern pos
     (setupPositionProbePattern n 0 (int n - 7) (setupPositionProbePattern n (int n - 7) 0
       (setupPositionProbePattern n 0 0 (blank_modules n)))))"

definition full_region :: "nat \<Rightarrow> nat \<Rightarrow> nat list \<Rightarrow> (nat \<times> nat) set" where
  "full_region t n pos = probe_region n 0 0 \<union> probe_region n (int n - 7) 0 \<union> probe_region n 0 (int n - 7)
     \<union> adjust_region n pos \<union> timing_region n \<union> format_region n \<union> (if t \<ge> 7 then version_region n else {})"

lemma function_patterns_base:
  "function_patterns t pos level test maskPattern =
     (let n = t * 4 + 17; m = setupTypeInfo n level test maskPattern (base_layout n pos)
      in if t \<ge> 7 then setupTypeNumber t n test m else m)"
  by (simp add: function_patterns_def base_layout_def Let_def)

lemma base_layout_changes:
  assumes "21 \<le> n"
  shows "changes n (full_region t n pos) (blank_modules n) (base_layout n pos)"
    and "r < n \<Longrightarrow> module_at (base_layout n pos) r 6 \<noteq> None"
proof -
  let ?m1 = "setupPositionProbePattern n 0 0 (blank_modules n)"
  let ?m2 = "setupPositionProbePattern n (int n - 7) 0 ?m1"
  let ?m3 = "setupPositionProbePattern n 0 (int n - 7) ?m2"
  let ?m4 = "setupPositionAdjustPattern pos ?m3"
  have c1: "changes n (probe_region n 0 0) (blank_modules n) ?m1" by (rule probe_changes) simp
  have c2: "changes n (probe_region n (int n - 7) 0) ?m1 ?m2" by (rule probe_changes [OF changes_square [OF c1]])
  have c3: "changes n (probe_region n 0 (int n - 7)) ?m2 ?m3" by (rule probe_changes [OF changes_square [OF c2]])
  have p: "module_at ?m3 r c \<noteq> None"
    if "r < n" "c < n" "(r, c) \<in> probe_region n 0 0 \<union> probe_region n (int n - 7) 0 \<union> probe_region n 0 (int n - 7)" for r c
    using that(3) probe_puts [OF changes_square [OF c2] that(1,2)]
      changes_kept [OF c3 that(1,2) probe_puts [OF changes_square [OF c1] that(1,2)]]
      changes_kept [OF c3 that(1,2) changes_kept [OF c2 that(1,2) probe_puts [OF square_blank that(1,2)]]] by blast
  have "corners_set n ?m3" using assms p [of 6 6] p [of 6 "n - 7"] p [of "n - 7" 6]
    by (auto simp: corners_set_def probe_region_def)
  then have c4: "changes n (adjust_region n pos) ?m3 ?m4" using adjust_changes [OF _ changes_square [OF c3]] assms by auto
  have c5: "changes n (timing_region n) ?m4 (base_layout n pos)"
    unfolding base_layout_def by (rule timing_changes [OF changes_square [OF c4]])
  show "changes n (full_region t n pos) (blank_modules n) (base_layout n pos)"
    by (rule changes_trans [OF changes_mono [OF c1] changes_trans [OF changes_mono [OF c2] changes_trans [OF changes_mono [OF c3]
          changes_trans [OF changes_mono [OF c4] changes_mono [OF c5]]]]]) (auto simp: full_region_def)
  assume r: "r < n"
  show "module_at (base_layout n pos) r 6 \<noteq> None"
  proof (cases "8 \<le> r \<and> r < n - 8")
    case True
    then show ?thesis unfolding base_layout_def using timing_puts [OF changes_square [OF c4]] by blast
  next
    case False
    then have "module_at ?m3 r 6 \<noteq> None" using r assms by (intro p) (auto simp: probe_region_def)
    then show ?thesis using changes_kept [OF c5 r _ changes_kept [OF c4 r]] assms by simp
  qed
qed

lemma function_patterns_changes:
  assumes "1 \<le> t" "n = t * 4 + 17"
  shows "changes n (full_region t n pos) (blank_modules n) (function_patterns t pos level test maskPattern)"
    and "r < n \<Longrightarrow> module_at (function_patterns t pos level test maskPattern) r 6 \<noteq> None"
proof -
  have n: "21 \<le> n" using assms by simp
  let ?b = "base_layout n pos"
  let ?i = "setupTypeInfo n level test maskPattern ?b"
  note b = base_layout_changes(1) [OF n, where t = t and pos = pos] base_layout_changes(2) [OF n, where pos = pos]
  have i: "changes n (format_region n) ?b ?i" by (rule typeInfo_changes [OF n changes_square [OF b(1)]])
  have v: "changes n (if t \<ge> 7 then version_region n else {}) ?i (function_patterns t pos level test maskPattern)"
    using typeNumber_changes [OF n changes_square [OF i]] changes_refl [OF changes_square [OF i]] assms(2)
    by (simp add: function_patterns_base Let_def)
  show "changes n (full_region t n pos) (blank_modules n) (function_patterns t pos level test maskPattern)"
    by (rule changes_trans [OF b(1) changes_trans [OF changes_mono [OF i] changes_mono [OF v]]]) (auto simp: full_region_def)
  show "module_at (function_patterns t pos level test maskPattern) r 6 \<noteq> None" if "r < n"
    using changes_kept [OF v that _ changes_kept [OF i that _ b(2) [OF that]]] n by simp
qed

section \<open>Counting the blank modules\<close>

definition align_cells :: "nat \<Rightarrow> nat list \<Rightarrow> nat" where
  "align_cells n pos = sum_list (map (\<lambda>(a, b). if corner n a b then 0 else if a = 6 \<or> b = 6 then 20 else 25) (List.product pos pos))"

definition pos_fits :: "nat \<Rightarrow> nat list \<Rightarrow> bool" where
  "pos_fits t pos \<longleftrightarrow> list_all (\<lambda>a. 6 \<le> a) pos
     \<and> raw_modules t + align_cells (t * 4 + 17) pos + 225 + 8 * t + (if t \<ge> 7 then 36 else 0) \<le> (t * 4 + 17) * (t * 4 + 17)"

fun all_fit :: "nat \<Rightarrow> nat list list \<Rightarrow> bool" where
  "all_fit t [] \<longleftrightarrow> True"
| "all_fit t (pos # rest) \<longleftrightarrow> pos_fits t pos \<and> all_fit (Suc t) rest"

lemma table_fits: "all_fit 1 PATTERN_POSITION_TABLE"
  unfolding PATTERN_POSITION_TABLE_def
  by (simp add: pos_fits_def align_cells_def corner_def raw_modules_def alignment_count_def)

lemma all_fit_nth: "all_fit t rows \<Longrightarrow> i < length rows \<Longrightarrow> pos_fits (t + i) (rows ! i)"
proof (induction t rows arbitrary: i rule: all_fit.induct)
  case (2 t pos rest)
  then show ?case by (cases i) auto
qed simp

lemma getPatternPosition_fits: "getPatternPosition t = Some pos \<Longrightarrow> 1 \<le> t \<and> pos_fits t pos"
  using all_fit_nth [OF table_fits, of "t - 1"] by (auto simp: getPatternPosition_def split: if_splits)

lemma card_UN_list:
  "\<forall>x \<in> set xs. finite (f x) \<and> card (f x) \<le> g x \<Longrightarrow> finite (\<Union>x \<in> set xs. f x) \<and> card (\<Union>x \<in> set xs. f x) \<le> sum_list (map g xs)"
proof (induction xs)
  case (Cons x xs)
  then have "card (f x \<union> (\<Union>x \<in> set xs. f x)) \<le> g x + sum_list (map g xs)"
    using card_Un_le [of "f x" "\<Union>x \<in> set xs. f x"] by fastforce
  then show ?case using Cons by simp
qed simp

definition line_free :: "nat \<Rightarrow> nat \<Rightarrow> (nat \<times> nat) set" where
  "line_free a b = ({a - 2..a + 2} - {6}) \<times> ({b - 2..b + 2} - {6})"

lemma card_line_free:
  assumes "6 \<le> a" "6 \<le> b"
  shows "finite (line_free a b) \<and> card (line_free a b) \<le> (if a = 6 \<or> b = 6 then 20 else 25)"
proof -
  have five: "card ({a - 2..a + 2} - {6}) \<le> 5" "card ({a - 2..a + 2} - {6}) \<le> 4 \<or> a \<noteq> 6" if "6 \<le> a" for a :: nat
    using that card_mono [of "{a - 2..a + 2}" "{a - 2..a + 2} - {6}"] by (auto simp: card_Diff_singleton)
  have "card (line_free a b) = card ({a - 2..a + 2} - {6}) * card ({b - 2..b + 2} - {6})"
    by (simp only: line_free_def card_cartesian_product)
  moreover have "\<dots> \<le> (if a = 6 \<or> b = 6 then 20 else 25)"
    using five [OF assms(1)] five [OF assms(2)]
      mult_le_mono [of "card ({a - 2..a + 2} - {6})" 4 "card ({b - 2..b + 2} - {6})" 5]
      mult_le_mono [of "card ({a - 2..a + 2} - {6})" 5 "card ({b - 2..b + 2} - {6})" 4]
      mult_le_mono [of "card ({a - 2..a + 2} - {6})" 5 "card ({b - 2..b + 2} - {6})" 5] by auto
  ultimately show ?thesis by (simp add: line_free_def)
qed

definition cover :: "nat \<Rightarrow> nat \<Rightarrow> nat list \<Rightarrow> (nat \<times> nat) set" where
  "cover t n pos = ({0..<9} \<times> {0..<9} \<union> {0..<9} \<times> {n - 8..<n} \<union> {n - 8..<n} \<times> {0..<9})
     \<union> ({6} \<times> {9..<n - 8} \<union> {9..<n - 8} \<times> {6}) \<union> (if t \<ge> 7 then version_region n else {})
     \<union> (\<Union>(a, b) \<in> set (List.product pos pos). if corner n a b then {} else line_free a b)"

lemma card_Un_bound: "card A \<le> a \<Longrightarrow> card B \<le> b \<Longrightarrow> card (A \<union> B) \<le> a + b"
  using card_Un_le [of A B] by linarith

lemma card_cover:
  assumes "21 \<le> n" "n = t * 4 + 17" "list_all (\<lambda>a. 6 \<le> a) pos"
  shows "finite (cover t n pos) \<and> card (cover t n pos) \<le> 225 + 8 * t + (if t \<ge> 7 then 36 else 0) + align_cells n pos"
proof -
  let ?A = "{0..<9} \<times> {0..<9} \<union> {0..<9} \<times> {n - 8..<n} \<union> {n - 8..<n} \<times> {0..<9} :: (nat \<times> nat) set"
  let ?T = "{6} \<times> {9..<n - 8} \<union> {9..<n - 8} \<times> {6} :: (nat \<times> nat) set"
  let ?V = "if t \<ge> 7 then version_region n else {}"
  let ?P = "\<Union>(a, b) \<in> set (List.product pos pos). if corner n a b then {} else line_free a b"
  have A: "card ?A \<le> 81 + 72 + 72" using assms(1) by (intro card_Un_bound) auto
  have T: "card ?T \<le> 4 * t + 4 * t" using assms(1,2) by (intro card_Un_bound) auto
  have V: "card ?V \<le> (if t \<ge> 7 then 18 + 18 else 0)"
  proof -
    have "card (version_region n) \<le> 18 + 18"
      unfolding version_region_def using assms(1) by (intro card_Un_bound) auto
    then show ?thesis by simp
  qed
  have P: "finite ?P \<and> card ?P \<le> align_cells n pos"
    unfolding align_cells_def
    by (rule card_UN_list) (use assms(3) card_line_free in \<open>auto simp: list_all_iff split: if_splits\<close>)
  have "card (?A \<union> ?T \<union> ?V \<union> ?P) \<le> (81 + 72 + 72) + (4 * t + 4 * t) + (if t \<ge> 7 then 18 + 18 else 0) + align_cells n pos"
    by (rule card_Un_bound [OF card_Un_bound [OF card_Un_bound [OF A T] V] conjunct2 [OF P]])
  moreover have "finite ?V" by (simp add: version_region_def)
  ultimately show ?thesis using P unfolding cover_def by auto
qed

lemma coverI:
  assumes "21 \<le> n" "r < n" "c < n"
    and "r < 9 \<and> c < 9 \<or> r < 9 \<and> n - 8 \<le> c \<or> n - 8 \<le> r \<and> c < 9 \<or> r = 6 \<or> c = 6"
  shows "(r, c) \<in> cover t n pos"
proof -
  have "r < 9 \<and> c < 9 \<or> r < 9 \<and> n - 8 \<le> c \<or> n - 8 \<le> r \<and> c < 9 \<or> (r = 6 \<and> 9 \<le> c \<and> c < n - 8) \<or> (c = 6 \<and> 9 \<le> r \<and> r < n - 8)"
    using assms by linarith
  then show ?thesis using assms(2,3) unfolding cover_def by fastforce
qed

lemma region_covered:
  assumes "21 \<le> n" "n = t * 4 + 17" "r < n" "c < n" "(r, c) \<in> full_region t n pos"
  shows "(r, c) \<in> cover t n pos"
proof -
  consider "(r, c) \<in> probe_region n 0 0" | "(r, c) \<in> probe_region n (int n - 7) 0" | "(r, c) \<in> probe_region n 0 (int n - 7)"
    | "(r, c) \<in> timing_region n" | "(r, c) \<in> format_region n" | "t \<ge> 7" "(r, c) \<in> version_region n"
    | "(r, c) \<in> adjust_region n pos" using assms(5) by (auto simp: full_region_def split: if_splits)
  then show ?thesis
  proof cases
    case 7
    then obtain a b where ab: "a \<in> set pos" "b \<in> set pos" "\<not> corner n a b" "(r, c) \<in> adjust_cells a b"
      by (auto simp: adjust_region_def)
    show ?thesis
    proof (cases "r = 6 \<or> c = 6")
      case True
      then show ?thesis using coverI [OF assms(1,3,4)] by blast
    next
      case False
      then have "(r, c) \<in> line_free a b" using ab(4) by (auto simp: adjust_cells_def line_free_def)
      then show ?thesis using ab(1-3) by (auto simp: cover_def)
    qed
  next
    case 1
    then have "r < 9 \<and> c < 9" by (auto simp: probe_region_def)
    then show ?thesis using coverI [OF assms(1,3,4)] by blast
  next
    case 2
    then have "n - 8 \<le> r \<and> c < 9" by (auto simp: probe_region_def)
    then show ?thesis using coverI [OF assms(1,3,4)] by blast
  next
    case 3
    then have "r < 9 \<and> n - 8 \<le> c" by (auto simp: probe_region_def)
    then show ?thesis using coverI [OF assms(1,3,4)] by blast
  next
    case 4
    then have "r = 6 \<or> c = 6" by (auto simp: timing_region_def)
    then show ?thesis using coverI [OF assms(1,3,4)] by blast
  next
    case 5
    then have "r < 9 \<and> c < 9 \<or> n - 8 \<le> r \<and> c < 9 \<or> r < 9 \<and> n - 8 \<le> c" by (auto simp: format_region_def)
    then show ?thesis using coverI [OF assms(1,3,4)] by blast
  next
    case 6
    then show ?thesis by (simp add: cover_def)
  qed
qed

lemma capacity:
  assumes "getPatternPosition t = Some pos" "n = t * 4 + 17"
  shows "raw_modules t \<le> length (blanks (function_patterns t pos level test maskPattern) (data_path n))"
proof -
  let ?m = "function_patterns t pos level test maskPattern"
  have t: "1 \<le> t" "pos_fits t pos" using getPatternPosition_fits [OF assms(1)] by auto
  have n: "21 \<le> n" using t assms(2) by simp
  note ch = function_patterns_changes(1) [OF t(1) assms(2)]
  have np: "n = 4 * t + 17" using assms(2) by simp
  have sub: "{0..<n} \<times> {0..<n} - cover t n pos \<subseteq> set (blanks ?m (data_path n))"
  proof
    fix p assume p: "p \<in> {0..<n} \<times> {0..<n} - cover t n pos"
    then obtain r c where rc: "p = (r, c)" "r < n" "c < n" "(r, c) \<notin> cover t n pos" by auto
    then have "(r, c) \<notin> full_region t n pos" using region_covered [OF n assms(2)] by blast
    then have "module_at ?m r c = None" using ch rc(2,3) by (simp add: changes_def)
    moreover have "c \<noteq> 6" using rc(2,4) n by (auto simp: cover_def)
    ultimately show "p \<in> set (blanks ?m (data_path n))"
      using rc data_path_props(2) [of t] unfolding np [symmetric] by (simp add: blanks_def)
  qed
  have c: "finite (cover t n pos)" "card (cover t n pos) \<le> 225 + 8 * t + (if t \<ge> 7 then 36 else 0) + align_cells n pos"
    using card_cover [OF n assms(2)] t(2) by (auto simp: pos_fits_def)
  have "raw_modules t \<le> n * n - card (cover t n pos)" using t(2) c(2) assms(2) by (auto simp: pos_fits_def split: if_splits)
  also have "\<dots> \<le> card ({0..<n} \<times> {0..<n} - cover t n pos)"
    using diff_card_le_card_Diff [OF c(1), of "{0..<n} \<times> {0..<n}"] by simp
  also have "\<dots> \<le> card (set (blanks ?m (data_path n)))" by (rule card_mono [OF _ sub]) simp
  also have "\<dots> \<le> length (blanks ?m (data_path n))" by (rule card_length)
  finally show ?thesis .
qed

end
