(* ===== verification/QrFormat.thy ===== *)
theory QrFormat
  imports QrCapacity
begin

text \<open>
  The format information: the thirty-two code words that stand for a level and a mask, how far
  apart they are, and that both copies in the matrix hold the one of the symbol.
\<close>

section \<open>The code words\<close>

definition format_data :: "qr_level \<Rightarrow> nat \<Rightarrow> nat" where
  "format_data level maskPattern = push_bit 3 (level_code level) OR maskPattern"

definition bits15 :: "nat \<Rightarrow> bool list" where
  "bits15 v = map (bit v) [0..<15]"

fun distance :: "bool list \<Rightarrow> bool list \<Rightarrow> nat" where
  "distance (x # xs) (y # ys) = (if x = y then 0 else 1) + distance xs ys"
| "distance _ _ = 0"

lemma length_bits15 [simp]: "length (bits15 v) = 15"
  by (simp add: bits15_def)

lemma distance_self [simp]: "distance xs xs = 0"
  by (induction xs) simp_all

lemma distance_sym: "distance xs ys = distance ys xs"
  by (induction xs ys rule: distance.induct) auto

lemma distance_triangle:
  "length xs = length ys \<Longrightarrow> length ys = length zs \<Longrightarrow> distance xs zs \<le> distance xs ys + distance ys zs"
proof (induction xs ys arbitrary: zs rule: list_induct2)
  case (Cons x xs y ys)
  then obtain z zs' where "zs = z # zs'" "length ys = length zs'" by (cases zs) auto
  then show ?case using Cons.IH [of zs'] by auto
qed simp

text \<open>The code words in the order of the five bits of data.\<close>

lemma type_info_codes:
  "map getBCHTypeInfo [0..<32] = [21522, 20773, 24188, 23371, 17913, 16590, 20375, 19104, 30660, 29427, 32170, 30877, 26159, 25368, 27713, 26998, 5769, 5054, 7399, 6608, 1890, 597, 3340, 2107, 13663, 12392, 16177, 14854, 9396, 8579, 11994, 11245]"
proof -
  have u: "[0..<32] = [0, 1, 2, 3, 4, 5, 6, 7, 8, 9, 10, 11, 12, 13, 14, 15,
    16, 17, 18, 19, 20, 21, 22, 23, 24, 25, 26, 27, 28, 29, 30, 31 :: nat]" by (simp add: upt_rec)
  show ?thesis unfolding u list.map list.inject
    by (intro conjI refl; simp add: getBCHTypeInfo_def G15_def G15_MASK_def Let_def getBCHDigit.simps)
qed

lemma code_words: "map bits15 (map getBCHTypeInfo [0..<32]) = [
  [False, True, False, False, True, False, False, False, False, False, True, False, True, False, True],
  [True, False, True, False, False, True, False, False, True, False, False, False, True, False, True],
  [False, False, True, True, True, True, True, False, False, True, True, True, True, False, True],
  [True, True, False, True, False, False, True, False, True, True, False, True, True, False, True],
  [True, False, False, True, True, True, True, True, True, False, True, False, False, False, True],
  [False, True, True, True, False, False, True, True, False, False, False, False, False, False, True],
  [True, True, True, False, True, False, False, True, True, True, True, True, False, False, True],
  [False, False, False, False, False, True, False, True, False, True, False, True, False, False, True],
  [False, False, True, False, False, False, True, True, True, True, True, False, True, True, True],
  [True, True, False, False, True, True, True, True, False, True, False, False, True, True, True],
  [False, True, False, True, False, True, False, True, True, False, True, True, True, True, True],
  [True, False, True, True, True, False, False, True, False, False, False, True, True, True, True],
  [True, True, True, True, False, True, False, False, False, True, True, False, False, True, True],
  [False, False, False, True, True, False, False, False, True, True, False, False, False, True, True],
  [True, False, False, False, False, False, True, False, False, False, True, True, False, True, True],
  [False, True, True, False, True, True, True, False, True, False, False, True, False, True, True],
  [True, False, False, True, False, False, False, True, False, True, True, False, True, False, False],
  [False, True, True, True, True, True, False, True, True, True, False, False, True, False, False],
  [True, True, True, False, False, True, True, True, False, False, True, True, True, False, False],
  [False, False, False, False, True, False, True, True, True, False, False, True, True, False, False],
  [False, True, False, False, False, True, True, False, True, True, True, False, False, False, False],
  [True, False, True, False, True, False, True, False, False, True, False, False, False, False, False],
  [False, False, True, True, False, False, False, False, True, False, True, True, False, False, False],
  [True, True, False, True, True, True, False, False, False, False, False, True, False, False, False],
  [True, True, True, True, True, False, True, False, True, False, True, False, True, True, False],
  [False, False, False, True, False, True, True, False, False, False, False, False, True, True, False],
  [True, False, False, False, True, True, False, False, True, True, True, True, True, True, False],
  [False, True, True, False, False, False, False, False, False, True, False, True, True, True, False],
  [False, False, True, False, True, True, False, True, False, False, True, False, False, True, False],
  [True, True, False, False, False, False, False, True, True, False, False, False, False, True, False],
  [False, True, False, True, True, False, True, True, False, True, True, True, False, True, False],
  [True, False, True, True, False, True, True, True, True, True, False, True, False, True, False]]"
proof -
  have u: "[0..<15] = [0, 1, 2, 3, 4, 5, 6, 7, 8, 9, 10, 11, 12, 13, 14 :: nat]" by (simp add: upt_rec)
  show ?thesis unfolding type_info_codes bits15_def u by (simp add: bit_0)
qed

lemma code_words_far: "sorted_wrt (\<lambda>a b. 7 \<le> distance a b) (map bits15 (map getBCHTypeInfo [0..<32]))"
  unfolding code_words by code_simp

lemma format_data_eq: "p < 8 \<Longrightarrow> format_data level p = 8 * level_code level + p"
proof -
  assume "p < 8"
  then have "p = 0 \<or> p = 1 \<or> p = 2 \<or> p = 3 \<or> p = 4 \<or> p = 5 \<or> p = 6 \<or> p = 7" by linarith
  then show ?thesis by (cases level) (elim disjE; simp add: format_data_def)+
qed

lemma level_code_less: "level_code level < 4"
  by (cases level) simp_all

lemma level_code_inj: "level_code a = level_code b \<longleftrightarrow> a = b"
  by (cases a; cases b) simp_all

abbreviation format_word :: "qr_level \<Rightarrow> nat \<Rightarrow> bool list" where
  "format_word level maskPattern \<equiv> bits15 (getBCHTypeInfo (format_data level maskPattern))"

lemma format_words_far:
  assumes "p < 8" "p' < 8" "(level, p) \<noteq> (level', p')"
  shows "7 \<le> distance (format_word level p) (format_word level' p')"
proof -
  let ?a = "format_data level p" and ?b = "format_data level' p'"
  have ab: "?a < 32" "?b < 32" using assms level_code_less [of level] level_code_less [of level'] by (auto simp: format_data_eq)
  have "?a \<noteq> ?b"
  proof
    assume "?a = ?b"
    then have "8 * level_code level + p = 8 * level_code level' + p'" using assms by (simp add: format_data_eq)
    moreover from this have "level_code level = level_code level'" using assms(1,2) by linarith
    ultimately show False using assms(3) by (simp add: level_code_inj)
  qed
  moreover have "7 \<le> distance (bits15 (getBCHTypeInfo i)) (bits15 (getBCHTypeInfo j))" if "i < j" "j < 32" for i j
    using sorted_wrt_nth_less [OF code_words_far, of i j] that by simp
  ultimately show ?thesis using ab distance_sym by (metis nat_neq_iff)
qed

section \<open>Reading the format\<close>

definition all_formats :: "(qr_level \<times> nat) list" where
  "all_formats = List.product [LevelL, LevelM, LevelQ, LevelH] [0..<8]"

text \<open>The reader takes the code word that differs in at most three modules.\<close>

definition read_format :: "bool list \<Rightarrow> (qr_level \<times> nat) option" where
  "read_format cells = find (\<lambda>(level, p). distance (format_word level p) cells \<le> 3) all_formats"

lemma find_unique: "x \<in> set xs \<Longrightarrow> P x \<Longrightarrow> (\<And>y. y \<in> set xs \<Longrightarrow> P y \<Longrightarrow> y = x) \<Longrightarrow> find P xs = Some x"
proof (induction xs)
  case (Cons a xs)
  show ?case
  proof (cases "P a")
    case True
    then have "a = x" by (rule Cons.prems(3) [OF list.set_intros(1)])
    then show ?thesis using True by simp
  next
    case False
    then have "x \<in> set xs" using Cons.prems(1,2) by auto
    then have "find P xs = Some x" using Cons.prems(2,3) by (intro Cons.IH) (blast intro: list.set_intros(2))+
    then show ?thesis using False by simp
  qed
qed simp

lemma read_format_near:
  assumes "p < 8" "length cells = 15" "distance (format_word level p) cells \<le> 3"
  shows "read_format cells = Some (level, p)"
  unfolding read_format_def
proof (rule find_unique)
  show "(level, p) \<in> set all_formats" using assms(1) by (cases level) (auto simp: all_formats_def)
  fix y
  assume y: "y \<in> set all_formats" "case y of (level, p) \<Rightarrow> distance (format_word level p) cells \<le> 3"
  obtain level' p' where y': "y = (level', p')" by fastforce
  then have "p' < 8" using y(1) by (auto simp: all_formats_def)
  moreover have "distance (format_word level p) (format_word level' p') \<le> 6"
    using distance_triangle [of "format_word level p" cells "format_word level' p'"] assms(2,3) y y'
      distance_sym [of cells] by simp
  ultimately show "y = (level, p)" using format_words_far [OF assms(1), of p' level level'] y' by fastforce
qed (use assms(3) in simp)

section \<open>Both copies\<close>

definition format_in_row :: "nat \<Rightarrow> modules \<Rightarrow> bool list" where
  "format_in_row n m = map (\<lambda>i. module_at m 8 (format_col n i) = Some True) [0..<15]"

definition format_in_column :: "nat \<Rightarrow> modules \<Rightarrow> bool list" where
  "format_in_column n m = map (\<lambda>i. module_at m (format_row n i) 8 = Some True) [0..<15]"

lemma fold_set_at:
  assumes "square n m" "distinct (map pos xs)" "i \<in> set xs" "pos i = (r, c)" "r < n" "c < n"
  shows "module_at (fold (\<lambda>i. set_module (fst (pos i)) (snd (pos i)) (v i)) xs m) r c = Some (v i)"
  using assms
proof (induction xs arbitrary: m)
  case (Cons x xs)
  let ?m = "set_module (fst (pos x)) (snd (pos x)) (v x) m"
  have sq: "square n ?m" using Cons.prems(1) by simp
  show ?case
  proof (cases "i \<in> set xs")
    case True
    then show ?thesis using Cons.IH [OF sq] Cons.prems by simp
  next
    case False
    then have x: "x = i" using Cons.prems(3) by simp
    have "changes n (- {(r, c)}) ?m (fold (\<lambda>i. set_module (fst (pos i)) (snd (pos i)) (v i)) xs ?m)"
      using Cons.prems(2,4) x sq by (intro changes_fold_simple changes_set) (auto simp: image_iff)
    then show ?thesis using Cons.prems x by (simp add: changes_def module_at_set)
  qed
qed simp

lemma format_distinct: "21 \<le> n \<Longrightarrow> distinct (map (format_row n) [0..<15])" "21 \<le> n \<Longrightarrow> distinct (map (format_col n) [0..<15])"
  by (auto simp: distinct_map inj_on_def format_row_def format_col_def split: if_splits)

lemma format_bounds: "21 \<le> n \<Longrightarrow> i < 15 \<Longrightarrow> format_row n i < n \<and> format_col n i < n \<and> format_row n i \<noteq> n - 8 \<and> format_col n i \<noteq> 8"
  by (auto simp: format_row_def format_col_def)

lemma setupTypeInfo_puts:
  assumes "21 \<le> n" "square n m" "i < 15"
  shows "module_at (setupTypeInfo n level False p m) 8 (format_col n i) = Some (bit (getBCHTypeInfo (format_data level p)) i)"
    and "module_at (setupTypeInfo n level False p m) (format_row n i) 8 = Some (bit (getBCHTypeInfo (format_data level p)) i)"
proof -
  let ?v = "\<lambda>i. bit (getBCHTypeInfo (format_data level p)) i"
  let ?m1 = "fold (\<lambda>i. set_module (format_row n i) 8 (?v i)) [0..<15] m"
  let ?m2 = "fold (\<lambda>i. set_module 8 (format_col n i) (?v i)) [0..<15] ?m1"
  have e: "setupTypeInfo n level False p m = set_module (n - 8) 8 True ?m2"
    by (simp add: setupTypeInfo_fold Let_def format_data_def)
  have c1: "changes n UNIV m ?m1" using assms(2) by (intro changes_fold_simple changes_set) auto
  have c2: "changes n (- (UNIV \<times> {8})) ?m1 ?m2"
    using changes_square [OF c1] format_bounds [OF assms(1)] by (intro changes_fold_simple changes_set) auto
  have c3: "changes n {(n - 8, 8)} ?m2 (set_module (n - 8) 8 True ?m2)" using changes_square [OF c2] by (intro changes_set) auto
  note b = format_bounds [OF assms(1,3)]
  have "module_at ?m1 (format_row n i) 8 = Some (?v i)"
    using fold_set_at [OF assms(2), of "\<lambda>i. (format_row n i, 8)" "[0..<15]" i] format_distinct(1) [OF assms(1)] assms b
    by (simp add: distinct_map inj_on_def)
  then show "module_at (setupTypeInfo n level False p m) (format_row n i) 8 = Some (?v i)"
    using changes_same [OF c2, of "format_row n i" 8] changes_same [OF c3, of "format_row n i" 8] b assms(1) unfolding e by simp
  have "module_at ?m2 8 (format_col n i) = Some (?v i)"
    using fold_set_at [OF changes_square [OF c1], of "\<lambda>i. (8, format_col n i)" "[0..<15]" i] format_distinct(2) [OF assms(1)] assms b
    by (simp add: distinct_map inj_on_def)
  then show "module_at (setupTypeInfo n level False p m) 8 (format_col n i) = Some (?v i)"
    using changes_same [OF c3, of 8 "format_col n i"] b assms(1) unfolding e by simp
qed

lemma function_patterns_format:
  assumes "1 \<le> t" "n = t * 4 + 17" "i < 15"
  shows "module_at (function_patterns t pos level False p) 8 (format_col n i) = Some (bit (getBCHTypeInfo (format_data level p)) i)"
    and "module_at (function_patterns t pos level False p) (format_row n i) 8 = Some (bit (getBCHTypeInfo (format_data level p)) i)"
proof -
  have n: "21 \<le> n" using assms by simp
  let ?b = "base_layout n pos"
  let ?i = "setupTypeInfo n level False p ?b"
  have b: "square n ?b" using base_layout_changes(1) [OF n] changes_square by blast
  have v: "changes n (version_region n) ?i (setupTypeNumber t n False ?i)"
    by (rule typeNumber_changes [OF n changes_square [OF typeInfo_changes [OF n b]]])
  have kept: "module_at (function_patterns t pos level False p) r c = module_at ?i r c"
    if "r < n" "c < n" "r = 8 \<or> c = 8" for r c
  proof (cases "t \<ge> 7")
    case True
    then have "(r, c) \<notin> version_region n" using that assms(2) by (auto simp: version_region_def)
    then show ?thesis using changes_same [OF v that(1,2)] True assms(2) by (simp add: function_patterns_base Let_def)
  next
    case False
    then show ?thesis using assms(2) by (simp add: function_patterns_base Let_def)
  qed
  show "module_at (function_patterns t pos level False p) 8 (format_col n i) = Some (bit (getBCHTypeInfo (format_data level p)) i)"
    "module_at (function_patterns t pos level False p) (format_row n i) 8 = Some (bit (getBCHTypeInfo (format_data level p)) i)"
    using kept setupTypeInfo_puts [OF n b assms(3)] format_bounds [OF n assms(3)] n by simp_all
qed

section \<open>The blank modules do not depend on the format\<close>

definition shape :: "modules \<Rightarrow> bool list list" where
  "shape m = map (map (\<lambda>x. x = None)) m"

definition fill_shape :: "nat \<Rightarrow> nat \<Rightarrow> bool list list \<Rightarrow> bool list list" where
  "fill_shape r c s = s[r := (s ! r)[c := False]]"

lemma shape_set: "shape (set_module r c v m) = fill_shape r c (shape m)"
proof (cases "r < length m")
  case True
  then show ?thesis by (simp add: shape_def set_module_def fill_shape_def map_update)
qed (simp add: shape_def set_module_def fill_shape_def list_update_beyond)

lemma shape_fold: "shape (fold (\<lambda>i. set_module (a i) (b i) (v i)) xs m) = fold (\<lambda>i. fill_shape (a i) (b i)) xs (shape m)"
  by (induction xs arbitrary: m) (simp_all add: shape_set)

lemma shape_blanks:
  assumes "square n m" "square n m'" "shape m = shape m'" "set ps \<subseteq> {0..<n} \<times> {0..<n}"
  shows "blanks m ps = blanks m' ps"
proof -
  have "module_at m r c = None \<longleftrightarrow> module_at m' r c = None" if "r < n" "c < n" for r c
  proof -
    have s: "shape m ! r ! c \<longleftrightarrow> module_at m r c = None" if "square n m" for m
      using that \<open>r < n\<close> \<open>c < n\<close> by (simp add: shape_def module_at_def square_def)
    show ?thesis using s [OF assms(1)] s [OF assms(2)] assms(3) by simp
  qed
  then show ?thesis using assms(4) unfolding blanks_def by (intro filter_cong refl) auto
qed

lemma function_patterns_shape: "shape (function_patterns t pos level test p) = shape (function_patterns t pos LevelL True 0)"
  by (simp add: function_patterns_base setupTypeInfo_fold setupTypeNumber_def Let_def shape_set shape_fold)

lemma blanks_layout:
  assumes "1 \<le> t" "n = t * 4 + 17"
  shows "blanks (function_patterns t pos level test p) (data_path n) = blanks (function_patterns t pos LevelL True 0) (data_path n)"
proof (rule shape_blanks [where n = n])
  show "set (data_path n) \<subseteq> {0..<n} \<times> {0..<n}" using data_path_props(2) [of t] assms(2) by (auto simp: mult.commute)
qed (use function_patterns_changes(1) [OF assms] changes_square function_patterns_shape in blast)+

end
