(* ===== verification/QrScan.thy ===== *)
theory QrScan
  imports QrFormat QrBlocksCorrect
begin

text \<open>
  The finished symbol: which codewords \<open>make\<close> draws and under which mask, when it fails, and a
  reader of the modules that gets the segments back.
\<close>

section \<open>One pass of makeImpl\<close>

definition qr_codewords :: "qr \<Rightarrow> qr_error + cell list" where
  "qr_codewords q = (case q_dataCache q of Some d \<Rightarrow> Inr d | None \<Rightarrow> createData (q_typeNumber q) (q_level q) (q_dataList q))"

text \<open>The modules of a symbol with given codewords, and the object that holds them.\<close>

definition symbol :: "nat \<Rightarrow> qr_level \<Rightarrow> bool \<Rightarrow> cell list \<Rightarrow> nat \<Rightarrow> modules" where
  "symbol t level test d p =
     (case getPatternPosition t of
        None \<Rightarrow> []
      | Some pos \<Rightarrow>
          (case mapData (t * 4 + 17) d p (function_patterns t pos level test p) of Inl e \<Rightarrow> [] | Inr m \<Rightarrow> m))"

definition drawn :: "qr \<Rightarrow> cell list \<Rightarrow> modules \<Rightarrow> qr" where
  "drawn q d m = q\<lparr>q_moduleCount := q_typeNumber q * 4 + 17, q_modules := m, q_dataCache := Some d\<rparr>"

lemma drawn_simps [simp]:
  "q_typeNumber (drawn q d m) = q_typeNumber q" "q_level (drawn q d m) = q_level q" "q_dataList (drawn q d m) = q_dataList q"
  "q_moduleCount (drawn q d m) = q_typeNumber q * 4 + 17" "q_modules (drawn q d m) = m"
  "qr_codewords (drawn q d m) = Inr d" "drawn (drawn q d m) d m' = drawn q d m'"
  by (simp_all add: drawn_def qr_codewords_def)

lemma getPatternPosition_exists: "1 \<le> t \<Longrightarrow> t \<le> 40 \<Longrightarrow> \<exists>pos. getPatternPosition t = Some pos"
  by (simp add: getPatternPosition_def PATTERN_POSITION_TABLE_def)

lemma mask_exists: "p < 8 \<Longrightarrow> \<exists>f. getMaskFunction p = Inr f"
  by auto

lemma makeImpl_drawn:
  assumes "1 \<le> q_typeNumber q" "q_typeNumber q \<le> 40" "p < 8" "qr_codewords q = Inr d"
  shows "makeImpl test p q = Inr (drawn q d (symbol (q_typeNumber q) (q_level q) test d p))"
proof -
  obtain pos where pos: "getPatternPosition (q_typeNumber q) = Some pos" using getPatternPosition_exists assms(1,2) by blast
  obtain f where f: "getMaskFunction p = Inr f" using mask_exists assms(3) by blast
  have "(case q_dataCache q of Some d \<Rightarrow> Inr d | None \<Rightarrow> createData (q_typeNumber q) (q_level q) (q_dataList q)) = Inr d"
    using assms(4) by (simp add: qr_codewords_def)
  then show ?thesis using pos f by (simp add: makeImpl_def symbol_def drawn_def mapData_def Let_def del: getMaskFunction.simps)
qed

lemma makeImpl_error:
  "1 \<le> q_typeNumber q \<Longrightarrow> q_typeNumber q \<le> 40 \<Longrightarrow> qr_codewords q = Inl e \<Longrightarrow> makeImpl test p q = Inl e"
  using getPatternPosition_exists [of "q_typeNumber q"] by (auto simp: makeImpl_def qr_codewords_def Let_def)

section \<open>The best mask\<close>

definition mask_cost :: "qr \<Rightarrow> cell list \<Rightarrow> nat \<Rightarrow> rat" where
  "mask_cost q d p = getLostPoint (q_typeNumber q * 4 + 17) (symbol (q_typeNumber q) (q_level q) True d p)"

definition first_least :: "(nat \<Rightarrow> rat) \<Rightarrow> nat \<Rightarrow> nat \<Rightarrow> bool" where
  "first_least f k p \<longleftrightarrow> p < k \<and> (\<forall>i < k. f p \<le> f i) \<and> (\<forall>i < p. f p < f i)"

lemma first_least_Suc:
  "first_least f k p \<Longrightarrow> first_least f (Suc k) (if f p > f k then k else p)"
  by (auto simp: first_least_def less_Suc_eq intro: less_le_trans order_less_imp_le order_trans)

lemma best_mask_loop_drawn:
  assumes "1 \<le> q_typeNumber q" "q_typeNumber q \<le> 40" "1 \<le> k" "k \<le> 8" "first_least (mask_cost q d) k p"
  shows "\<exists>p' m'. best_mask_loop [k..<8] (mask_cost q d p) p (drawn q d m) = Inr (p', drawn q d m')
    \<and> first_least (mask_cost q d) 8 p'"
  using assms(3-5)
proof (induction "8 - k" arbitrary: k p m)
  case 0
  then show ?case by (intro exI [of _ p] exI [of _ m]) simp
next
  case (Suc j)
  let ?m = "symbol (q_typeNumber q) (q_level q) True d k"
  let ?p = "if mask_cost q d p > mask_cost q d k then k else p"
  have k: "k < 8" "[k..<8] = k # [Suc k..<8]" using Suc(2) by (auto simp: upt_conv_Cons)
  have "makeImpl True k (drawn q d m) = Inr (drawn q d ?m)"
    using makeImpl_drawn [of "drawn q d m" k d True] assms(1,2) k(1) by simp
  then have "best_mask_loop [k..<8] (mask_cost q d p) p (drawn q d m)
      = best_mask_loop [Suc k..<8] (mask_cost q d ?p) ?p (drawn q d ?m)"
    unfolding k(2) using Suc.prems(1) by (simp add: mask_cost_def Let_def)
  moreover have "\<exists>p' m'. best_mask_loop [Suc k..<8] (mask_cost q d ?p) ?p (drawn q d ?m) = Inr (p', drawn q d m')
    \<and> first_least (mask_cost q d) 8 p'"
    using Suc(1) [of "Suc k" ?p ?m] Suc(2) first_least_Suc [OF Suc.prems(3)] k(1) by simp
  ultimately show ?case by simp
qed

lemma best_mask_drawn:
  assumes "1 \<le> q_typeNumber q" "q_typeNumber q \<le> 40" "qr_codewords q = Inr d"
  shows "\<exists>p m. getBestMaskPattern q = Inr (p, drawn q d m) \<and> first_least (mask_cost q d) 8 p"
proof -
  let ?m = "symbol (q_typeNumber q) (q_level q) True d 0"
  have u: "[0..<8] = 0 # [1..<8]" by (simp add: upt_rec)
  have "getBestMaskPattern q = best_mask_loop [1..<8] (mask_cost q d 0) 0 (drawn q d ?m)"
    unfolding getBestMaskPattern_def u using makeImpl_drawn [OF assms(1,2) _ assms(3), of 0 True]
    by (simp add: mask_cost_def Let_def)
  then show ?thesis using best_mask_loop_drawn [OF assms(1,2), of 1 d 0 ?m] by (simp add: first_least_def)
qed

lemma best_mask_error:
  assumes "1 \<le> q_typeNumber q" "q_typeNumber q \<le> 40" "qr_codewords q = Inl e"
  shows "getBestMaskPattern q = Inl e"
proof -
  have u: "[0..<8] = 0 # [1..<8]" by (simp add: upt_rec)
  show ?thesis unfolding getBestMaskPattern_def u by (simp add: makeImpl_error [OF assms])
qed

section \<open>make\<close>

text \<open>The object whose type number is settled.\<close>

definition sized :: "qr \<Rightarrow> nat \<Rightarrow> qr" where
  "sized q t = q\<lparr>q_typeNumber := t\<rparr>"

lemma sized_simps [simp]:
  "q_typeNumber (sized q t) = t" "q_level (sized q t) = q_level q" "q_dataList (sized q t) = q_dataList q"
  "q_dataCache (sized q t) = q_dataCache q" "sized q (q_typeNumber q) = q"
  by (simp_all add: sized_def)

definition chosen :: "qr \<Rightarrow> qr_error + nat" where
  "chosen q = (if q_typeNumber q < 1 then choose_type [1..<40] (q_level q) (q_dataList q) else Inr (q_typeNumber q))"

lemma qr_make_chosen:
  "qr_make q = rbind (chosen q) (\<lambda>t. rbind (getBestMaskPattern (sized q t)) (\<lambda>(p, q2). makeImpl False p q2))"
  by (cases "choose_type [1..<40] (q_level q) (q_dataList q)") (simp_all add: qr_make_def chosen_def flip: sized_def)

lemma qr_make_drawn:
  assumes "chosen q = Inr t" "1 \<le> t" "t \<le> 40" "qr_codewords (sized q t) = Inr d"
  shows "\<exists>p. first_least (mask_cost (sized q t) d) 8 p
    \<and> qr_make q = Inr (drawn (sized q t) d (symbol t (q_level q) False d p))"
proof -
  obtain p m where p: "getBestMaskPattern (sized q t) = Inr (p, drawn (sized q t) d m)"
    "first_least (mask_cost (sized q t) d) 8 p" using best_mask_drawn [of "sized q t" d] assms by auto
  then have "p < 8" by (simp add: first_least_def)
  then have "makeImpl False p (drawn (sized q t) d m) = Inr (drawn (sized q t) d (symbol t (q_level q) False d p))"
    using makeImpl_drawn [of "drawn (sized q t) d m" p d False] assms(2,3) by simp
  then show ?thesis using p assms(1) by (intro exI [of _ p]) (simp add: qr_make_chosen)
qed

lemma qr_make_error:
  assumes "chosen q = Inr t" "1 \<le> t" "t \<le> 40" "qr_codewords (sized q t) = Inl e"
  shows "qr_make q = Inl e"
  using best_mask_error [of "sized q t" e] assms by (simp add: qr_make_chosen)

section \<open>Which symbols fit\<close>

definition fits :: "nat \<Rightarrow> qr_level \<Rightarrow> qr_data list \<Rightarrow> bool" where
  "fits t level ds =
     (case getRSBlocks t level of
        Inl e \<Rightarrow> False
      | Inr blocks \<Rightarrow>
          (case write_segments t ds qrBitBuffer of
             Inl e \<Rightarrow> False
           | Inr buf \<Rightarrow> bb_length buf \<le> total_data blocks * 8))"

lemma fits_iff:
  "fits t level ds \<longleftrightarrow> (\<exists>blocks buf. getRSBlocks t level = Inr blocks \<and> write_segments t ds qrBitBuffer = Inr buf
     \<and> bb_length buf \<le> total_data blocks * 8)"
  by (simp add: fits_def split: sum.splits)

lemma getRSBlocks_exists: "1 \<le> t \<Longrightarrow> t \<le> 40 \<Longrightarrow> \<exists>blocks. getRSBlocks t level = Inr blocks"
  using table_exists [of t level] by (auto simp: getRSBlocks_def)

lemma getRSBlocks_good:
  assumes "getRSBlocks t level = Inr blocks"
  shows "1 \<le> t \<and> t \<le> 40 \<and> good_blocks blocks \<and> sum_list (map totalCount blocks) = raw_modules t div 8"
proof -
  obtain row where row: "getRsBlockTable t level = Some row" "blocks = expand_blocks row"
    using assms by (auto simp: getRSBlocks_def split: option.splits)
  then show ?thesis using table_row [OF row(1)] expand_sums [of row]
    by (auto simp: row_ok_def good_blocks_def list_all_iff)
qed

lemma choose_type_first:
  "choose_type ts level ds = Inr t \<Longrightarrow>
   (\<exists>us vs. ts = us @ t # vs \<and> (\<forall>u \<in> set us. \<not> fits u level ds) \<and> fits t level ds)
   \<or> t = 40 \<and> (\<forall>u \<in> set ts. \<not> fits u level ds)"
proof (induction ts)
  case (Cons u ts)
  obtain blocks buf where b: "getRSBlocks u level = Inr blocks" "write_segments u ds qrBitBuffer = Inr buf"
    using Cons.prems by (auto simp: rbind_eq_Inr_iff)
  show ?case
  proof (cases "bb_length buf \<le> total_data blocks * 8")
    case True
    then have "t = u" "fits u level ds" using Cons.prems b by (auto simp: fits_def)
    then show ?thesis by (intro disjI1 exI [of _ "[]"] exI [of _ ts]) simp
  next
    case False
    then have u: "\<not> fits u level ds" and t: "choose_type ts level ds = Inr t" using Cons.prems b by (auto simp: fits_def)
    from Cons.IH [OF t] show ?thesis
    proof
      assume "\<exists>us vs. ts = us @ t # vs \<and> (\<forall>u \<in> set us. \<not> fits u level ds) \<and> fits t level ds"
      then obtain us vs where "ts = us @ t # vs" "\<forall>u \<in> set us. \<not> fits u level ds" "fits t level ds" by blast
      then show ?thesis using u by (intro disjI1 exI [of _ "u # us"] exI [of _ vs]) simp
    qed (use u in simp)
  qed
qed simp

lemma chosen_range:
  assumes "chosen q = Inr t"
  shows "1 \<le> t \<and> (q_typeNumber q = t \<or> q_typeNumber q = 0 \<and> t \<le> 40)"
proof (cases "q_typeNumber q < 1")
  case True
  then have "choose_type [1..<40] (q_level q) (q_dataList q) = Inr t" using assms by (simp add: chosen_def)
  then have "t \<in> set [1..<40] \<or> t = 40" by (metis choose_type_first in_set_conv_decomp)
  then show ?thesis using True by auto
qed (use assms in \<open>auto simp: chosen_def\<close>)

lemma chosen_least:
  assumes "chosen q = Inr t" "q_typeNumber q = 0" "1 \<le> u" "u < t"
  shows "\<not> fits u (q_level q) (q_dataList q)"
proof -
  have c: "choose_type [1..<40] (q_level q) (q_dataList q) = Inr t" using assms(1,2) by (simp add: chosen_def)
  from choose_type_first [OF c] show ?thesis
  proof (elim disjE exE conjE)
    fix us vs
    assume us: "[1..<40] = us @ t # vs" "\<forall>u \<in> set us. \<not> fits u (q_level q) (q_dataList q)"
    have "u \<in> set [1..<40]" "u \<notin> set (t # vs)"
    proof -
      have "t < 40" using us(1) by (metis in_set_conv_decomp set_upt atLeastLessThan_iff)
      then show "u \<in> set [1..<40]" using assms(3,4) by simp
      have "sorted (us @ t # vs)" using us(1) by (metis sorted_upt)
      then show "u \<notin> set (t # vs)" using assms(4) by (auto simp: sorted_append)
    qed
    then have "u \<in> set us" unfolding us(1) by simp
    then show ?thesis using us(2) by blast
  next
    assume "t = 40" "\<forall>u \<in> set [1..<40]. \<not> fits u (q_level q) (q_dataList q)"
    then show ?thesis using assms(3,4) by auto
  qed
qed

lemma createData_fits:
  assumes "1 \<le> t" "t \<le> 40"
  shows "(\<exists>d. createData t level ds = Inr d) \<longleftrightarrow> fits t level ds"
proof -
  obtain blocks where b: "getRSBlocks t level = Inr blocks" using getRSBlocks_exists assms by blast
  show ?thesis
  proof
    assume "\<exists>d. createData t level ds = Inr d"
    then show "fits t level ds" using b
      by (auto simp: createData_def data_buffer_def fits_def rbind_eq_Inr_iff Let_def split: if_splits)
  next
    assume "fits t level ds"
    then obtain buf where buf: "data_buffer blocks t ds = Inr buf" using b by (auto simp: fits_iff data_buffer_def Let_def)
    have "good_blocks blocks" using getRSBlocks_good [OF b] by blast
    then obtain parts where "split_blocks (bb_buffer buf) 0 blocks = Inr parts" using split_blocks_exist by blast
    then show "\<exists>d. createData t level ds = Inr d" using b buf by (simp add: createData_def createBytes_def Let_def)
  qed
qed

text \<open>Whether the segments can be written does not depend on the type number.\<close>

lemma isl_if_cong:
  "(c \<Longrightarrow> isl a = isl a') \<Longrightarrow> (\<not> c \<Longrightarrow> isl b = isl b') \<Longrightarrow> isl (if c then a else b) = isl (if c then a' else b')"
  by simp

lemma isl_rbind_cong: "(\<And>a. x = Inr a \<Longrightarrow> isl (f a) = isl (g a)) \<Longrightarrow> isl (rbind x f) = isl (rbind x g)"
  by (cases x) simp_all

lemma isl_rbind_Inr: "isl (rbind x (\<lambda>a. Inr (f a))) = isl x"
  by (cases x) simp_all

lemma write_number_fails: "isl (write_number s b) = isl (write_number s b')"
proof (induction s b arbitrary: b' rule: write_number.induct)
  case (1 x y z rest b)
  show ?case unfolding write_number.simps by (rule isl_rbind_cong, rule 1) assumption
qed (simp_all only: write_number.simps isl_rbind_Inr sum.disc)

lemma write_alpha_fails: "isl (write_alpha s b) = isl (write_alpha s b')"
proof (induction s b arbitrary: b' rule: write_alpha.induct)
  case (1 x y rest b)
  show ?case unfolding write_alpha.simps by (rule isl_rbind_cong, rule isl_rbind_cong, rule 1) assumption+
qed (simp_all only: write_alpha.simps isl_rbind_Inr sum.disc)

lemma write_kanji_fails: "isl (write_kanji bs b) = isl (write_kanji bs b')"
proof (induction bs b arbitrary: b' rule: write_kanji.induct)
  case (1 x y rest b)
  show ?case unfolding write_kanji.simps Let_def by (intro isl_if_cong 1 refl)
qed simp_all

lemma write_data_fails: "isl (write_data d b) = isl (write_data d b')"
  using write_number_fails [of _ b b'] write_alpha_fails [of _ b b'] write_kanji_fails [of _ b b'] by (cases d) simp_all

lemma getLengthInBits_exists: "1 \<le> t \<Longrightarrow> t \<le> 40 \<Longrightarrow> \<exists>n. getLengthInBits (getMode d) t = Inr n"
  by (cases d) (auto simp: getLengthInBits_def)

lemma write_segments_fails:
  assumes "1 \<le> t" "t \<le> 40" "1 \<le> t'" "t' \<le> 40"
  shows "isl (write_segments t ds b) = isl (write_segments t' ds b')"
proof (induction ds arbitrary: b b')
  case (Cons d ds)
  obtain n n' where n: "getLengthInBits (getMode d) t = Inr n" "getLengthInBits (getMode d) t' = Inr n'"
    using getLengthInBits_exists assms by blast
  let ?b = "put_num (getLength d) n (put_num (getMode d) 4 b)" and ?b' = "put_num (getLength d) n' (put_num (getMode d) 4 b')"
  show ?case using write_data_fails [of d ?b ?b'] Cons.IH n by (cases "write_data d ?b"; cases "write_data d ?b'") auto
qed simp

lemma choose_type_exists:
  assumes "fits t0 level ds" "\<forall>t \<in> set ts. 1 \<le> t \<and> t \<le> 40"
  shows "\<exists>t. choose_type ts level ds = Inr t"
  using assms(2)
proof (induction ts)
  case (Cons t ts)
  obtain blocks0 buf0 where b0: "getRSBlocks t0 level = Inr blocks0" "write_segments t0 ds qrBitBuffer = Inr buf0"
    using assms(1) by (auto simp: fits_iff)
  obtain blocks where b: "getRSBlocks t level = Inr blocks" using getRSBlocks_exists [of t] Cons.prems by auto
  have "isl (write_segments t ds qrBitBuffer) = isl (write_segments t0 ds qrBitBuffer)"
    using write_segments_fails [of t t0 ds] getRSBlocks_good [OF b0(1)] Cons.prems by simp
  then obtain buf where "write_segments t ds qrBitBuffer = Inr buf" using b0(2) by (cases "write_segments t ds qrBitBuffer") auto
  then show ?case using b Cons by simp
qed simp

section \<open>The modules of a symbol\<close>

lemma symbol_placed:
  assumes "getPatternPosition t = Some pos" "getMaskFunction p = Inr f" "n = t * 4 + 17"
  shows "square n (symbol t level test dat p)"
    and "\<forall>r < n. \<forall>c < n. module_at (symbol t level test dat p) r c \<noteq> None"
    and "\<forall>r < n. \<forall>c < n. module_at (function_patterns t pos level test p) r c \<noteq> None \<longrightarrow>
          module_at (symbol t level test dat p) r c = module_at (function_patterns t pos level test p) r c"
    and "8 * length dat \<le> raw_modules t \<Longrightarrow>
          take (8 * length dat) (read_bits n f (function_patterns t pos LevelL True 0) (symbol t level test dat p))
            = bytes_bits (map cell_byte dat)"
proof -
  let ?l = "function_patterns t pos level test p"
  have t: "1 \<le> t" "n = 4 * t + 17" using getPatternPosition_fits [OF assms(1)] assms(3) by auto
  note lay = function_patterns_changes [OF t(1) assms(3), where pos = pos and level = level and test = test and maskPattern = p]
  obtain m' where m': "mapData n dat p ?l = Inr m'" "square n m'"
    and bits: "read_bits n f ?l m' = map (code_bit dat) [0..<length (blanks ?l (data_path n))]"
    and other: "\<forall>r < n. \<forall>c < n. (r, c) \<notin> set (blanks ?l (data_path n)) \<longrightarrow> module_at m' r c = module_at ?l r c"
    and here: "\<forall>r < n. \<forall>c < n. (r, c) \<in> set (blanks ?l (data_path n)) \<longrightarrow> module_at m' r c \<noteq> None"
    using mapData_placed [OF changes_square [OF lay(1)] t(2) assms(2)] by blast
  have s: "symbol t level test dat p = m'" using m'(1) assms(1,3) by (simp add: symbol_def)
  show "square n (symbol t level test dat p)" using m'(2) s by simp
  show "\<forall>r < n. \<forall>c < n. module_at ?l r c \<noteq> None \<longrightarrow> module_at (symbol t level test dat p) r c = module_at ?l r c"
    using other s by (auto simp: blanks_def)
  show "\<forall>r < n. \<forall>c < n. module_at (symbol t level test dat p) r c \<noteq> None"
  proof (intro allI impI)
    fix r c assume rc: "r < n" "c < n"
    show "module_at (symbol t level test dat p) r c \<noteq> None"
    proof (cases "(r, c) \<in> set (blanks ?l (data_path n))")
      case True
      then show ?thesis using here rc s by simp
    next
      case False
      have "module_at ?l r c \<noteq> None"
      proof (cases "c = 6")
        case True
        then show ?thesis using lay(2) [OF rc(1)] by simp
      next
        case c6: False
        then have "(r, c) \<in> set (data_path n)" using data_path_props(2) [of t] rc unfolding t(2) [symmetric] by simp
        then show ?thesis using False by (simp add: blanks_def)
      qed
      then show ?thesis using other False rc s by simp
    qed
  qed
  assume "8 * length dat \<le> raw_modules t"
  then have "8 * length dat \<le> length (blanks ?l (data_path n))" using capacity [OF assms(1,3)] le_trans by blast
  then show "take (8 * length dat) (read_bits n f (function_patterns t pos LevelL True 0) (symbol t level test dat p))
      = bytes_bits (map cell_byte dat)"
    using code_bits_bytes bits s unfolding read_bits_def blanks_layout [OF t(1) assms(3), where level = level and test = test and p = p]
    by simp
qed

lemma symbol_format:
  assumes "1 \<le> t" "t \<le> 40" "p < 8" "n = t * 4 + 17"
  shows "format_in_row n (symbol t level False dat p) = format_word level p"
    and "format_in_column n (symbol t level False dat p) = format_word level p"
proof -
  obtain pos where pos: "getPatternPosition t = Some pos" using getPatternPosition_exists assms(1,2) by blast
  obtain f where f: "getMaskFunction p = Inr f" using mask_exists assms(3) by blast
  have n: "21 \<le> n" "8 < n" using assms by auto
  have kept: "module_at (symbol t level False dat p) r c = Some v"
    if "module_at (function_patterns t pos level False p) r c = Some v" "r < n" "c < n" for r c v
    using symbol_placed(3) [OF pos f assms(4), of level False dat] that by simp
  show "format_in_row n (symbol t level False dat p) = format_word level p"
    "format_in_column n (symbol t level False dat p) = format_word level p"
    using function_patterns_format [OF assms(1,4), of _ pos level p, THEN kept] format_bounds [OF n(1)] n(2)
    by (simp_all add: format_in_row_def format_in_column_def bits15_def)
qed

section \<open>Reading a symbol\<close>

definition codeword_bits :: "nat \<Rightarrow> bool list \<Rightarrow> bool list list" where
  "codeword_bits k bits = map (\<lambda>i. take 8 (drop (8 * i) bits)) [0..<k]"

text \<open>
  The reader takes the size from the matrix, the level and the mask from the format modules,
  follows the zigzag, undoes the mask and the interleaving and reads the segments. It does not
  use the error correction.
\<close>

definition scan :: "modules \<Rightarrow> qr_data list option" where
  "scan m =
     (let n = length m; t = (n - 17) div 4 in
      case read_format (format_in_row n m) of
        None \<Rightarrow> None
      | Some (level, p) \<Rightarrow>
          (case (getPatternPosition t, getRSBlocks t level, getMaskFunction p) of
             (Some pos, Inr blocks, Inr f) \<Rightarrow>
               (let bits = read_bits n f (function_patterns t pos LevelL True 0) m;
                    words = codeword_bits (sum_list (map totalCount blocks)) bits;
                    content = concat (concat (deinterleave (map dataCount blocks) words))
                in read_segments (Suc (length content)) t content)
           | _ \<Rightarrow> None))"

lemma codeword_bits_bytes:
  assumes "take (8 * k) bits = bytes_bits bs" "length bs = k"
  shows "codeword_bits k bits = map byte_bits bs"
proof (rule nth_equalityI)
  show "length (codeword_bits k bits) = length (map byte_bits bs)" using assms(2) by (simp add: codeword_bits_def)
  fix i assume "i < length (codeword_bits k bits)"
  then have i: "i < k" by (simp add: codeword_bits_def)
  have "take 8 (drop (8 * i) bits) = take 8 (drop (8 * i) (take (8 * k) bits))" using i by (simp add: drop_take min_def)
  also have "\<dots> = byte_bits (bs ! i)" unfolding assms(1)
  proof (rule nth_equalityI)
    fix j assume "j < length (take 8 (drop (8 * i) (bytes_bits bs)))"
    then have j: "j < 8" by simp
    then have "(8 * i + j) div 8 = i" "(8 * i + j) mod 8 = j" "8 * i + j < 8 * k" using i by auto
    then show "take 8 (drop (8 * i) (bytes_bits bs)) ! j = byte_bits (bs ! i) ! j"
      using nth_bytes_bits [of "8 * i + j" bs] i j assms(2) by (simp add: byte_bits_def)
  qed (use i assms(2) in simp)
  finally show "codeword_bits k bits ! i = map byte_bits bs ! i" using i assms(2) by (simp add: codeword_bits_def)
qed

lemma write_segments_longer:
  "write_segments t ds b = Inr b' \<Longrightarrow> buf_ok b \<Longrightarrow> list_all readable ds \<Longrightarrow> bb_length b + length ds \<le> bb_length b'"
proof (induction ds arbitrary: b)
  case (Cons d ds)
  let ?m = "put_num (getMode d) 4 b"
  obtain len b1 where d: "write_data d (put_num (getLength d) len ?m) = Inr b1" and w: "write_segments t ds b1 = Inr b'"
    using Cons.prems(1) by (auto simp: rbind_eq_Inr_iff)
  have ok: "buf_ok (put_num (getLength d) len ?m)" using Cons.prems(2) by simp
  obtain bits where "adds (put_num (getLength d) len ?m) b1 bits" using write_data_reads [OF d ok] Cons.prems(3) by auto
  then show ?case using Cons.IH [OF w] adds_ok adds_length Cons.prems(3) by fastforce
qed simp

lemma createData_reads:
  assumes "createData t level ds = Inr dat" "getRSBlocks t level = Inr blocks" "list_all readable ds"
  shows "length dat = raw_modules t div 8
    \<and> (let content = concat (concat (deinterleave (map dataCount blocks) (map (byte_bits \<circ> cell_byte) dat)))
       in read_segments (Suc (length content)) t content = Some ds)"
proof -
  obtain buf where buf: "data_buffer blocks t ds = Inr buf" and bytes: "createBytes (bb_buffer buf) blocks = Inr dat"
    using assms(1,2) by (auto simp: createData_def rbind_eq_Inr_iff)
  note good = getRSBlocks_good [OF assms(2)]
  note reads = data_buffer_reads [OF assms(2) buf assms(3)]
  obtain dat' and parts :: "(bytes \<times> cell list) list" where p: "createBytes (bb_buffer buf) blocks = Inr dat'" "length dat' = sum_list (map totalCount blocks)"
    "concat (map fst parts) = bb_buffer buf"
    "\<forall>g :: cell \<Rightarrow> bool list. deinterleave (map dataCount blocks) (map g dat') = map (map (g \<circ> Some) \<circ> fst) parts"
    using createBytes_exists [where 'a = "bool list", OF conjunct1 [OF conjunct2 [OF conjunct2 [OF good]]] conjunct1 [OF reads]]
    by blast
  have dat: "dat' = dat" using bytes p(1) by simp
  have "concat (concat (deinterleave (map dataCount blocks) (map (byte_bits \<circ> cell_byte) dat))) = bytes_bits (bb_buffer buf)"
    using p(3,4) unfolding dat by (simp add: bytes_bits_def o_def flip: p(3)) (simp add: map_concat o_def cell_byte_def)
  moreover have "length ds < Suc (length (bytes_bits (bb_buffer buf)))"
  proof -
    obtain b where b: "write_segments t ds qrBitBuffer = Inr b" "bb_length b \<le> total_data blocks * 8"
      using buf by (auto simp: data_buffer_def rbind_eq_Inr_iff Let_def split: if_splits)
    then show ?thesis using write_segments_longer [OF b(1) _ assms(3)] reads by (simp add: mult.commute)
  qed
  ultimately show ?thesis using p(2) good reads dat by (simp add: Let_def del: read_segments.simps)
qed

lemma scan_symbol:
  assumes "1 \<le> t" "t \<le> 40" "p < 8" "createData t level ds = Inr dat" "list_all readable ds"
  shows "scan (symbol t level False dat p) = Some ds"
proof -
  let ?m = "symbol t level False dat p" and ?n = "t * 4 + 17"
  obtain pos where pos: "getPatternPosition t = Some pos" using getPatternPosition_exists assms(1,2) by blast
  obtain f where f: "getMaskFunction p = Inr f" using mask_exists assms(3) by blast
  obtain blocks where b: "getRSBlocks t level = Inr blocks" using getRSBlocks_exists assms(1,2) by blast
  note cd = createData_reads [OF assms(4) b assms(5)]
  have len: "length ?m = ?n" using symbol_placed(1) [OF pos f refl] by (simp add: square_def)
  have fmt: "read_format (format_in_row ?n ?m) = Some (level, p)"
    using symbol_format(1) [OF assms(1-3) refl] read_format_near [OF assms(3), of "format_word level p" level] by simp
  have k: "sum_list (map totalCount blocks) = length dat" using getRSBlocks_good [OF b] cd by simp
  have "take (8 * length dat) (read_bits ?n f (function_patterns t pos LevelL True 0) ?m) = bytes_bits (map cell_byte dat)"
    by (rule symbol_placed(4) [OF pos f refl]) (use conjunct1 [OF cd] in simp)
  then have "codeword_bits (length dat) (read_bits ?n f (function_patterns t pos LevelL True 0) ?m) = map (byte_bits \<circ> cell_byte) dat"
    using codeword_bits_bytes [of "length dat" _ "map cell_byte dat"] by simp
  then show ?thesis using cd fmt pos f b k
    by (simp add: scan_def len Let_def del: read_segments.simps getMaskFunction.simps)
qed

section \<open>What make returns\<close>

lemma qr_codewords_fresh:
  "q_dataCache q = None \<Longrightarrow> qr_codewords (sized q t) = createData t (q_level q) (q_dataList q)"
  by (simp add: qr_codewords_def)

lemma qr_make_result:
  assumes "qr_make q = Inr q'" "q_dataCache q = None"
  shows "\<exists>t dat p. chosen q = Inr t \<and> 1 \<le> t \<and> t \<le> 40 \<and> createData t (q_level q) (q_dataList q) = Inr dat
    \<and> first_least (mask_cost (sized q t) dat) 8 p \<and> q' = drawn (sized q t) dat (symbol t (q_level q) False dat p)"
proof -
  obtain t where t: "chosen q = Inr t" using assms(1) by (auto simp: qr_make_chosen rbind_eq_Inr_iff)
  have "t \<le> 40"
  proof (rule ccontr)
    assume "\<not> t \<le> 40"
    then have "getPatternPosition t = None" by (simp add: getPatternPosition_def PATTERN_POSITION_TABLE_def)
    moreover have u: "[0..<8] = 0 # [1..<8]" by (simp add: upt_rec)
    ultimately have "getBestMaskPattern (sized q t) = Inl BadArray"
      unfolding getBestMaskPattern_def u by (simp add: makeImpl_def)
    then show False using assms(1) t by (simp add: qr_make_chosen)
  qed
  then have r: "1 \<le> t" "t \<le> 40" using chosen_range [OF t] by auto
  obtain dat where dat: "createData t (q_level q) (q_dataList q) = Inr dat"
    using qr_make_error [OF t r] assms by (cases "createData t (q_level q) (q_dataList q)") (auto simp: qr_codewords_fresh)
  then show ?thesis using qr_make_drawn [OF t r, of dat] assms r t by (auto simp: qr_codewords_fresh)
qed

text \<open>
  C4. A symbol can be read back: the modules that \<open>make\<close> returns determine, through the size, the
  format modules, the zigzag, the mask, the interleaving and the length fields, exactly the
  list of segments that was added, for every content that fits, whatever the level and the mask.
\<close>

theorem scan_recovers:
  assumes "qr_make q = Inr q'" "q_dataCache q = None" "list_all readable (q_dataList q)"
  shows "scan (q_modules q') = Some (q_dataList q)"
proof -
  obtain t dat p where "1 \<le> t" "t \<le> 40" "createData t (q_level q) (q_dataList q) = Inr dat"
    "first_least (mask_cost (sized q t) dat) 8 p" "q' = drawn (sized q t) dat (symbol t (q_level q) False dat p)"
    using qr_make_result [OF assms(1,2)] by blast
  then show ?thesis using scan_symbol [OF _ _ _ _ assms(3)] by (simp add: first_least_def)
qed

text \<open>
  A finished symbol is complete: it has 4 t + 17 modules a side for a type number t from 1
  to 40, the one asked for if one was, and no module is left null, so that \<open>isDark\<close> answers
  true or false inside and throws outside.
\<close>

theorem make_complete:
  assumes "qr_make q = Inr q'" "q_dataCache q = None"
  shows "1 \<le> q_typeNumber q' \<and> q_typeNumber q' \<le> 40 \<and> (q_typeNumber q = 0 \<or> q_typeNumber q' = q_typeNumber q)
    \<and> q_moduleCount q' = q_typeNumber q' * 4 + 17 \<and> square (q_moduleCount q') (q_modules q')
    \<and> (\<exists>v. isDark row col q' = Inr (Some v)) = (0 \<le> row \<and> row < int (q_moduleCount q') \<and> 0 \<le> col \<and> col < int (q_moduleCount q'))
    \<and> isDark row col q' \<noteq> Inr None"
proof -
  obtain t dat p where r: "chosen q = Inr t" "1 \<le> t" "t \<le> 40" "p < 8"
    and q': "q' = drawn (sized q t) dat (symbol t (q_level q) False dat p)"
    using qr_make_result [OF assms(1,2)] by (auto simp: first_least_def)
  obtain pos where pos: "getPatternPosition t = Some pos" using getPatternPosition_exists r(2,3) by blast
  obtain f where f: "getMaskFunction p = Inr f" using mask_exists r(4) by blast
  note placed = symbol_placed(1,2) [OF pos f refl, of "q_level q" False dat]
  have "\<exists>v. module_at (symbol t (q_level q) False dat p) (nat row) (nat col) = Some v"
    if "0 \<le> row" "row < int (t * 4 + 17)" "0 \<le> col" "col < int (t * 4 + 17)"
    using placed(2) that by auto
  then show ?thesis using placed(1) chosen_range [OF r(1)] r by (auto simp: q' isDark_def)
qed

text \<open>
  The mask is the best one: the finished symbol is drawn with the mask whose test drawing
  loses the fewest points, the first of them when several do.
\<close>

theorem make_uses_best_mask:
  assumes "qr_make q = Inr q'" "q_dataCache q = None"
  shows "\<exists>dat p. createData (q_typeNumber q') (q_level q) (q_dataList q) = Inr dat \<and> q_dataCache q' = Some dat
    \<and> p < 8 \<and> q_modules q' = symbol (q_typeNumber q') (q_level q) False dat p
    \<and> (\<forall>i < 8. mask_cost q' dat p \<le> mask_cost q' dat i) \<and> (\<forall>i < p. mask_cost q' dat p < mask_cost q' dat i)"
proof -
  obtain t dat p where r: "createData t (q_level q) (q_dataList q) = Inr dat" "first_least (mask_cost (sized q t) dat) 8 p"
    and q': "q' = drawn (sized q t) dat (symbol t (q_level q) False dat p)"
    using qr_make_result [OF assms] by blast
  have "mask_cost q' dat = mask_cost (sized q t) dat" by (rule ext) (simp add: mask_cost_def q')
  then show ?thesis using r by (intro exI [of _ dat] exI [of _ p]) (simp add: q' first_least_def, simp add: drawn_def)
qed

text \<open>
  C28. \<open>make\<close> succeeds exactly on what fits: with a given type number from 1 to 40 it returns a
  symbol if and only if the segments fit the data codewords; with the number 0 if and only if
  they fit some type number, and then it takes the smallest.
\<close>

theorem make_succeeds_iff_fits:
  assumes "q_dataCache q = None" "q_typeNumber q \<le> 40"
  shows "(\<exists>q'. qr_make q = Inr q')
      = (\<exists>t \<in> {1..40}. (q_typeNumber q = 0 \<or> q_typeNumber q = t) \<and> fits t (q_level q) (q_dataList q))
    \<and> (\<forall>q'. qr_make q = Inr q' \<and> q_typeNumber q = 0 \<longrightarrow> q_typeNumber q' = (LEAST t. fits t (q_level q) (q_dataList q)))"
proof -
  let ?fits = "\<lambda>t. fits t (q_level q) (q_dataList q)"
  have range: "?fits t \<Longrightarrow> 1 \<le> t \<and> t \<le> 40" for t using getRSBlocks_good by (auto simp: fits_iff)
  have ok: "\<exists>q'. qr_make q = Inr q'" if t: "chosen q = Inr t" "t \<le> 40" "?fits t" for t
  proof -
    have "1 \<le> t" using chosen_range [OF t(1)] by simp
    then obtain dat where "createData t (q_level q) (q_dataList q) = Inr dat" using createData_fits t(2,3) by blast
    then show ?thesis using qr_make_drawn [OF t(1) \<open>1 \<le> t\<close> t(2)] assms(1) by (auto simp: qr_codewords_fresh)
  qed
  have res: "?fits (q_typeNumber q') \<and> chosen q = Inr (q_typeNumber q')" if made: "qr_make q = Inr q'" for q'
  proof -
    obtain t dat p where "chosen q = Inr t" "1 \<le> t" "t \<le> 40" "createData t (q_level q) (q_dataList q) = Inr dat"
      "q' = drawn (sized q t) dat (symbol t (q_level q) False dat p)" using qr_make_result [OF made assms(1)] by blast
    then show ?thesis using createData_fits [of t "q_level q" "q_dataList q"] by auto
  qed
  have makes: "\<exists>q'. qr_make q = Inr q'" if t: "q_typeNumber q = 0 \<or> q_typeNumber q = t" "?fits t" for t
  proof (cases "q_typeNumber q = 0")
    case True
    obtain u where u: "choose_type [1..<40] (q_level q) (q_dataList q) = Inr u"
      using choose_type_exists [OF t(2), of "[1..<40]"] by auto
    then have c: "chosen q = Inr u" using True by (simp add: chosen_def)
    have "?fits u"
    proof (cases "t < 40")
      case lt: True
      have "t \<in> set [1..<40]" using range [OF t(2)] lt by simp
      then show ?thesis using choose_type_first [OF u] t(2) by blast
    next
      case False
      then show ?thesis using choose_type_first [OF u] t(2) range [OF t(2)] by force
    qed
    then show ?thesis using ok [OF c] range by blast
  next
    case False
    then have "chosen q = Inr t" using t(1) by (simp add: chosen_def)
    then show ?thesis using ok t(2) range by blast
  qed
  have "(\<exists>q'. qr_make q = Inr q') = (\<exists>t \<in> {1..40}. (q_typeNumber q = 0 \<or> q_typeNumber q = t) \<and> ?fits t)"
  proof
    assume "\<exists>q'. qr_make q = Inr q'"
    then obtain q' where "qr_make q = Inr q'" ..
    then have "?fits (q_typeNumber q')" "chosen q = Inr (q_typeNumber q')" using res by blast+
    then show "\<exists>t \<in> {1..40}. (q_typeNumber q = 0 \<or> q_typeNumber q = t) \<and> ?fits t"
      using range chosen_range by (intro bexI [of _ "q_typeNumber q'"]) fastforce+
  qed (use makes in blast)
  moreover have "q_typeNumber q' = (LEAST t. ?fits t)" if made: "qr_make q = Inr q'" and zero: "q_typeNumber q = 0" for q'
  proof -
    have "?fits (q_typeNumber q')" "chosen q = Inr (q_typeNumber q')" using res [OF made] by blast+
    then show ?thesis
      using chosen_least zero range by (intro Least_equality [symmetric]) (auto simp: not_less [symmetric])
  qed
  ultimately show ?thesis by blast
qed

text \<open>
  The format modules survive damage: both copies in a finished symbol hold the code word of
  its level and mask, and a reader that sees at most three of the fifteen modules wrong still
  finds them, because two code words differ in at least seven.
\<close>

theorem format_survives_damage:
  assumes "qr_make q = Inr q'" "q_dataCache q = None" "length seen = 15"
  shows "\<exists>p < 8. (\<exists>dat. q_modules q' = symbol (q_typeNumber q') (q_level q) False dat p)
    \<and> format_in_column (q_moduleCount q') (q_modules q') = format_in_row (q_moduleCount q') (q_modules q')
    \<and> (distance (format_in_row (q_moduleCount q') (q_modules q')) seen \<le> 3 \<longrightarrow> read_format seen = Some (q_level q, p))"
proof -
  obtain t dat p where r: "1 \<le> t" "t \<le> 40" "p < 8" and q': "q' = drawn (sized q t) dat (symbol t (q_level q) False dat p)"
    using qr_make_result [OF assms(1,2)] by (auto simp: first_least_def)
  show ?thesis using symbol_format [OF r refl, of "q_level q" dat] read_format_near [OF r(3) assms(3), of "q_level q"] r(3)
    by (intro exI [of _ p]) (auto simp: q')
qed

section \<open>A sample\<close>

definition sample_qr :: qr where
  "sample_qr = (qrcode 0 LevelM)\<lparr>q_dataList := [Qr8BitByte [104, 105]]\<rparr>"

lemma sample_qr_simps [simp]:
  "q_typeNumber sample_qr = 0" "q_level sample_qr = LevelM" "q_dataCache sample_qr = None"
  "q_dataList sample_qr = [Qr8BitByte [104, 105]]"
  by (simp_all add: sample_qr_def qrcode_def)

lemma sample_blocks: "getRSBlocks 1 LevelM = Inr [\<lparr>totalCount = 26, dataCount = 16\<rparr>]"
  by (simp add: getRSBlocks_def getRsBlockTable_def RS_BLOCK_TABLE_def RS_BLOCK_TABLE_1_18_def)

lemma sample_fits: "fits 1 LevelM [Qr8BitByte [104, 105]]"
  unfolding fits_def sample_blocks by (simp add: getLengthInBits_def write_bytes_def total_data_def qrBitBuffer_def)

lemma sample_chosen: "chosen sample_qr = Inr 1"
proof -
  have u: "[1..<40] = 1 # [2..<40]" by (simp add: upt_conv_Cons)
  show ?thesis using sample_fits unfolding chosen_def u fits_def
    by (auto simp del: One_nat_def split: sum.splits)
qed

lemma sample_made: "\<exists>q'. qr_make sample_qr = Inr q'"
proof -
  obtain dat where "createData 1 LevelM [Qr8BitByte [104, 105]] = Inr dat" using createData_fits [of 1] sample_fits by auto
  then show ?thesis using qr_make_drawn [OF sample_chosen] by (auto simp: qr_codewords_fresh)
qed

lemma scan_recovers_witness:
  "\<exists>q'. qr_make sample_qr = Inr q' \<and> scan (q_modules q') = Some [Qr8BitByte [104, 105]]"
  using sample_made scan_recovers [of sample_qr] by fastforce

lemma make_complete_witness:
  "\<exists>q'. qr_make sample_qr = Inr q' \<and> square (q_moduleCount q') (q_modules q') \<and> isDark 3 (- 1) q' \<noteq> Inr None"
  using sample_made make_complete [of sample_qr _ 3 "- 1"] by fastforce

lemma make_uses_best_mask_witness:
  "\<exists>q' dat p. qr_make sample_qr = Inr q' \<and> p < 8 \<and> q_modules q' = symbol (q_typeNumber q') LevelM False dat p
     \<and> mask_cost q' dat p \<le> mask_cost q' dat 3"
proof -
  obtain q' where q': "qr_make sample_qr = Inr q'" using sample_made by blast
  have "(3::nat) < 8" by simp
  then show ?thesis using q' make_uses_best_mask [OF q'] unfolding sample_qr_simps by blast
qed

lemma make_succeeds_iff_fits_witness:
  "\<exists>q'. qr_make sample_qr = Inr q' \<and> q_typeNumber q' = (LEAST t. fits t LevelM [Qr8BitByte [104, 105]])"
  using sample_made make_succeeds_iff_fits [of sample_qr] by auto

lemma format_survives_damage_witness:
  "\<exists>q' p. qr_make sample_qr = Inr q' \<and> p < 8
     \<and> read_format (format_in_row (q_moduleCount q') (q_modules q')) = Some (LevelM, p)"
proof -
  obtain q' where q': "qr_make sample_qr = Inr q'" using sample_made by blast
  have "length (format_in_row (q_moduleCount q') (q_modules q')) = 15" by (simp add: format_in_row_def)
  from format_survives_damage [OF q' _ this] show ?thesis using q' by auto
qed

end
