(* ===== verification/QrStreams.thy ===== *)
theory QrStreams
  imports JsText
begin

text \<open>
  The streams of \<open>extension/lib/qrcode.js\<close>: the growing array of bytes, base64 in both directions
  with its shift register of 32 bits, the conversion table read from base64, and the stream of
  codes of varying width that the picture format packs into bytes.
\<close>

datatype codec_error =
    BadDigit "32 word"
  | UnexpectedEnd nat
  | BadChar unit16
  | Eof
  | BadCount nat nat
  | CodeTooLong
  | DupKey jstr

section \<open>byteArrayOutputStream\<close>

definition writeByte :: "32 word \<Rightarrow> bytes \<Rightarrow> bytes" where
  "writeByte b out = out @ [ucast b]"

definition writeShort :: "32 word \<Rightarrow> bytes \<Rightarrow> bytes" where
  "writeShort i out = writeByte (drop_bit 8 i) (writeByte i out)"

text \<open>A length of zero stands for the whole array, and a cell past the end writes zero.\<close>

definition writeBytes :: "bytes \<Rightarrow> nat \<Rightarrow> nat \<Rightarrow> bytes \<Rightarrow> bytes" where
  "writeBytes b off len out =
     (let len = (if len = 0 then length b else len)
      in out @ map (\<lambda>i. if i + off < length b then b ! (i + off) else 0) [0..<len])"

definition writeString :: "jstr \<Rightarrow> bytes \<Rightarrow> bytes" where
  "writeString s out = fold (\<lambda>c. writeByte (ucast c)) s out"

definition bytes_toString :: "bytes \<Rightarrow> jstr" where
  "bytes_toString bs = js ''['' @ join (js '','') (map (\<lambda>b. to_radix 10 (unat b)) bs) @ js '']''"

section \<open>base64EncodeOutputStream\<close>

record b64_out =
  bo_buffer :: "32 word"
  bo_buflen :: nat
  bo_length :: nat
  bo_base64 :: jstr

definition base64EncodeOutputStream :: b64_out where
  "base64EncodeOutputStream = \<lparr>bo_buffer = 0, bo_buflen = 0, bo_length = 0, bo_base64 = []\<rparr>"

definition b64_encode :: "32 word \<Rightarrow> codec_error + unit16" where
  "b64_encode n =
     (if sint n < 0 then Inl (BadDigit n)
      else if n < 26 then Inr (0x41 + ucast n)
      else if n < 52 then Inr (0x61 + (ucast n - 26))
      else if n < 62 then Inr (0x30 + (ucast n - 52))
      else if n = 62 then Inr 0x2b
      else if n = 63 then Inr 0x2f
      else Inl (BadDigit n))"

definition writeEncoded :: "32 word \<Rightarrow> b64_out \<Rightarrow> codec_error + b64_out" where
  "writeEncoded b s = rbind (b64_encode (b AND 0x3f)) (\<lambda>c. Inr (s\<lparr>bo_base64 := bo_base64 s @ [c]\<rparr>))"

function encode_loop :: "b64_out \<Rightarrow> codec_error + b64_out" where
  "encode_loop s =
     (if 6 \<le> bo_buflen s
      then rbind (writeEncoded (drop_bit (bo_buflen s - 6) (bo_buffer s)) s)
             (\<lambda>s1. encode_loop (s1\<lparr>bo_buflen := bo_buflen s - 6\<rparr>))
      else Inr s)"
  by pat_completeness auto
termination by (relation "measure bo_buflen") auto

declare encode_loop.simps [simp del]

definition b64_writeByte :: "byte \<Rightarrow> b64_out \<Rightarrow> codec_error + b64_out" where
  "b64_writeByte n s =
     encode_loop (s\<lparr>bo_buffer := push_bit 8 (bo_buffer s) OR ucast n, bo_buflen := bo_buflen s + 8, bo_length := bo_length s + 1\<rparr>)"

fun b64_writeBytes :: "bytes \<Rightarrow> b64_out \<Rightarrow> codec_error + b64_out" where
  "b64_writeBytes [] s = Inr s"
| "b64_writeBytes (b # bs) s = rbind (b64_writeByte b s) (b64_writeBytes bs)"

definition b64_pad :: "b64_out \<Rightarrow> b64_out" where
  "b64_pad s =
     (if bo_length s mod 3 \<noteq> 0
      then s\<lparr>bo_base64 := bo_base64 s @ replicate (3 - bo_length s mod 3) (cu CHR ''='')\<rparr> else s)"

definition b64_flush :: "b64_out \<Rightarrow> codec_error + b64_out" where
  "b64_flush s =
     rbind (if 0 < bo_buflen s
            then rbind (writeEncoded (push_bit (6 - bo_buflen s) (bo_buffer s)) s)
                   (\<lambda>s1. Inr (s1\<lparr>bo_buffer := 0, bo_buflen := 0\<rparr>))
            else Inr s) (\<lambda>s1. Inr (b64_pad s1))"

section \<open>base64DecodeInputStream\<close>

text \<open>The string kept is the rest of it from the current position on.\<close>

record b64_in =
  bi_str :: jstr
  bi_buffer :: "32 word"
  bi_buflen :: nat

definition base64DecodeInputStream :: "jstr \<Rightarrow> b64_in" where
  "base64DecodeInputStream str = \<lparr>bi_str = str, bi_buffer = 0, bi_buflen = 0\<rparr>"

definition b64_decode :: "unit16 \<Rightarrow> codec_error + 32 word" where
  "b64_decode c =
     (if 0x41 \<le> c \<and> c \<le> 0x5a then Inr (ucast c - 0x41)
      else if 0x61 \<le> c \<and> c \<le> 0x7a then Inr (ucast c - 0x61 + 26)
      else if 0x30 \<le> c \<and> c \<le> 0x39 then Inr (ucast c - 0x30 + 52)
      else if c = 0x2b then Inr 62
      else if c = 0x2f then Inr 63
      else Inl (BadChar c))"

fun read_loop :: "jstr \<Rightarrow> 32 word \<Rightarrow> nat \<Rightarrow> codec_error + byte option \<times> b64_in" where
  "read_loop [] buffer buflen =
     (if 8 \<le> buflen
      then Inr (Some (ucast (drop_bit (buflen - 8) buffer)), \<lparr>bi_str = [], bi_buffer = buffer, bi_buflen = buflen - 8\<rparr>)
      else if buflen = 0 then Inr (None, \<lparr>bi_str = [], bi_buffer = buffer, bi_buflen = 0\<rparr>)
      else Inl (UnexpectedEnd buflen))"
| "read_loop (c # str) buffer buflen =
     (if 8 \<le> buflen
      then Inr (Some (ucast (drop_bit (buflen - 8) buffer)), \<lparr>bi_str = c # str, bi_buffer = buffer, bi_buflen = buflen - 8\<rparr>)
      else if c = cu CHR ''='' then Inr (None, \<lparr>bi_str = str, bi_buffer = buffer, bi_buflen = 0\<rparr>)
      else if is_ws c then read_loop str buffer buflen
      else rbind (b64_decode c) (\<lambda>v. read_loop str (push_bit 6 buffer OR v) (buflen + 6)))"

text \<open>\<open>None\<close> is the \<open>-1\<close> at the end.\<close>

definition b64_read :: "b64_in \<Rightarrow> codec_error + byte option \<times> b64_in" where
  "b64_read s = read_loop (bi_str s) (bi_buffer s) (bi_buflen s)"

definition bits_left :: "b64_in \<Rightarrow> nat" where
  "bits_left s = 6 * length (bi_str s) + bi_buflen s"

lemma read_loop_bits:
  "read_loop str buffer buflen = Inr (Some b, s') \<Longrightarrow> bits_left s' + 8 \<le> 6 * length str + buflen"
  by (induction str buffer buflen rule: read_loop.induct) (auto simp: bits_left_def rbind_eq_Inr_iff split: if_splits)

lemma b64_read_bits: "b64_read s = Inr (Some b, s') \<Longrightarrow> bits_left s' + 8 \<le> bits_left s"
  using read_loop_bits [of "bi_str s" "bi_buffer s" "bi_buflen s" b s'] by (simp add: b64_read_def bits_left_def)

section \<open>createStringToBytes\<close>

definition read_or_eof :: "b64_in \<Rightarrow> codec_error + byte \<times> b64_in" where
  "read_or_eof s = rbind (b64_read s) (\<lambda>(r, s1). case r of None \<Rightarrow> Inl Eof | Some b \<Rightarrow> Inr (b, s1))"

lemma read_or_eof_bits: "read_or_eof s = Inr (b, s') \<Longrightarrow> bits_left s' + 8 \<le> bits_left s"
  unfolding read_or_eof_def rbind_eq_Inr_iff by (clarsimp split: option.splits) (rule b64_read_bits)

definition read_pair :: "byte \<Rightarrow> b64_in \<Rightarrow> codec_error + (unit16 \<times> unit16) \<times> b64_in" where
  "read_pair b0 s =
     rbind (read_or_eof s) (\<lambda>(b1, s1). rbind (read_or_eof s1) (\<lambda>(b2, s2). rbind (read_or_eof s2) (\<lambda>(b3, s3).
       Inr ((push_bit 8 (ucast b0) OR ucast b1, push_bit 8 (ucast b2) OR ucast b3), s3))))"

lemma read_pair_bits: "read_pair b0 s = Inr (kv, s') \<Longrightarrow> bits_left s' \<le> bits_left s"
  by (cases kv) (auto simp only: read_pair_def rbind_eq_Inr_iff split_paired_Ex prod.case sum.inject prod.inject dest!: read_or_eof_bits)

function read_map :: "b64_in \<Rightarrow> (unit16, unit16) jsmap \<Rightarrow> nat \<Rightarrow> codec_error + (unit16, unit16) jsmap \<times> nat" where
  "read_map s m count =
     rbind (b64_read s) (\<lambda>(r, s1). case r of
         None \<Rightarrow> Inr (m, count)
       | Some b0 \<Rightarrow> rbind (read_pair b0 s1) (\<lambda>(kv, s2). read_map s2 (jset (fst kv) (snd kv) m) (count + 1)))"
  by pat_completeness auto
termination
proof (relation "measure (\<lambda>(s, m, count). bits_left s)", goal_cases)
  case (2 s m count p r s1 b0 q kv s2)
  then have "bits_left s1 + 8 \<le> bits_left s" "bits_left s2 \<le> bits_left s1" by (auto dest: b64_read_bits read_pair_bits)
  then show ?case by simp
qed simp

declare read_map.simps [simp del]

definition unicode_map :: "jstr \<Rightarrow> nat \<Rightarrow> codec_error + (unit16, unit16) jsmap" where
  "unicode_map unicodeData numChars =
     rbind (read_map (base64DecodeInputStream unicodeData) [] 0) (\<lambda>(m, count).
       if count \<noteq> numChars then Inl (BadCount count numChars) else Inr m)"

definition convert_unit :: "(unit16, unit16) jsmap \<Rightarrow> unit16 \<Rightarrow> bytes" where
  "convert_unit m c =
     (if c < 128 then [ucast c]
      else (case jget m c of
              Some b \<Rightarrow> if b AND 0xff = b then [ucast b] else [ucast (drop_bit 8 b), ucast (b AND 0xff)]
            | None \<Rightarrow> [of_char CHR ''?'']))"

definition createStringToBytes :: "jstr \<Rightarrow> nat \<Rightarrow> codec_error + (jstr \<Rightarrow> bytes)" where
  "createStringToBytes unicodeData numChars =
     rbind (unicode_map unicodeData numChars) (\<lambda>m. Inr (\<lambda>s. concat (map (convert_unit m) s)))"

section \<open>bitOutputStream\<close>

record bit_out =
  bt_out :: bytes
  bt_bitLength :: nat
  bt_bitBuffer :: "32 word"

definition bitOutputStream :: "bytes \<Rightarrow> bit_out" where
  "bitOutputStream out = \<lparr>bt_out = out, bt_bitLength = 0, bt_bitBuffer = 0\<rparr>"

function bit_loop :: "32 word \<Rightarrow> nat \<Rightarrow> bit_out \<Rightarrow> bit_out" where
  "bit_loop data len s =
     (if 8 \<le> bt_bitLength s + len
      then bit_loop (drop_bit (8 - bt_bitLength s) data) (bt_bitLength s + len - 8)
             \<lparr>bt_out = writeByte (0xff AND (push_bit (bt_bitLength s) data OR bt_bitBuffer s)) (bt_out s),
              bt_bitLength = 0, bt_bitBuffer = 0\<rparr>
      else s\<lparr>bt_bitBuffer := push_bit (bt_bitLength s) data OR bt_bitBuffer s, bt_bitLength := bt_bitLength s + len\<rparr>)"
  by pat_completeness auto
termination by (relation "measure (\<lambda>(data, len, s). bt_bitLength s + len)") auto

declare bit_loop.simps [simp del]

definition bit_write :: "32 word \<Rightarrow> nat \<Rightarrow> bit_out \<Rightarrow> codec_error + bit_out" where
  "bit_write data len s = (if drop_bit (len mod 32) data \<noteq> 0 then Inl CodeTooLong else Inr (bit_loop data len s))"

definition bit_flush :: "bit_out \<Rightarrow> bit_out" where
  "bit_flush s = (if 0 < bt_bitLength s then s\<lparr>bt_out := writeByte (bt_bitBuffer s) (bt_out s)\<rparr> else s)"

end
