(* ===== verification/QrImage.thy ===== *)
theory QrImage
  imports QrStreams QrMatrix
begin

text \<open>
  Pictures of a symbol, the second half of \<open>extension/lib/qrcode.js\<close>: the picture format with its
  dictionary coding, the data URL, the SVG, table and text renderings and the canvas. Sizes are
  natural numbers, a margin that is not given is \<open>None\<close>.
\<close>

datatype image_error = QrError qr_error | CodecError codec_error

definition stream_result :: "codec_error + 'a \<Rightarrow> image_error + 'a" where
  "stream_result r = (case r of Inl e \<Rightarrow> Inl (CodecError e) | Inr x \<Rightarrow> Inr x)"

definition qr_result :: "qr_error + 'a \<Rightarrow> image_error + 'a" where
  "qr_result r = (case r of Inl e \<Rightarrow> Inl (QrError e) | Inr x \<Rightarrow> Inr x)"

section \<open>lzwTable\<close>

text \<open>
  The keys are strings of pixel codes; no name an object inherits is made of those, so the object
  is a map.
\<close>

record lzw_table =
  lz_map :: "(jstr, nat) jsmap"
  lz_size :: nat

definition lzwTable :: lzw_table where
  "lzwTable = \<lparr>lz_map = [], lz_size = 0\<rparr>"

definition lz_indexOf :: "jstr \<Rightarrow> lzw_table \<Rightarrow> nat option" where
  "lz_indexOf key t = jget (lz_map t) key"

definition lz_contains :: "jstr \<Rightarrow> lzw_table \<Rightarrow> bool" where
  "lz_contains key t \<longleftrightarrow> jget (lz_map t) key \<noteq> None"

definition lz_add :: "jstr \<Rightarrow> lzw_table \<Rightarrow> codec_error + lzw_table" where
  "lz_add key t =
     (if lz_contains key t then Inl (DupKey key)
      else Inr \<lparr>lz_map = jset key (lz_size t) (lz_map t), lz_size = lz_size t + 1\<rparr>)"

fun lz_add_all :: "jstr list \<Rightarrow> lzw_table \<Rightarrow> codec_error + lzw_table" where
  "lz_add_all [] t = Inr t"
| "lz_add_all (key # keys) t = rbind (lz_add key t) (lz_add_all keys)"

section \<open>gifImage\<close>

text \<open>A pixel that was never set is undefined and becomes the character 0.\<close>

record gif_image =
  gi_width :: nat
  gi_height :: nat
  gi_data :: "nat option list"

definition gifImage :: "nat \<Rightarrow> nat \<Rightarrow> gif_image" where
  "gifImage width height = \<lparr>gi_width = width, gi_height = height, gi_data = replicate (width * height) None\<rparr>"

definition put_cell :: "nat \<Rightarrow> 'a \<Rightarrow> 'a option list \<Rightarrow> 'a option list" where
  "put_cell i v xs = (if i < length xs then xs[i := Some v] else xs @ replicate (i - length xs) None @ [Some v])"

definition setPixel :: "nat \<Rightarrow> nat \<Rightarrow> nat \<Rightarrow> gif_image \<Rightarrow> gif_image" where
  "setPixel x y pixel g = g\<lparr>gi_data := put_cell (y * gi_width g + x) pixel (gi_data g)\<rparr>"

definition pixel_unit :: "nat option \<Rightarrow> unit16" where
  "pixel_unit p = (case p of None \<Rightarrow> 0 | Some n \<Rightarrow> of_nat n)"

text \<open>An index that is undefined is written as zero.\<close>

definition code_word :: "nat option \<Rightarrow> 32 word" where
  "code_word i = (case i of None \<Rightarrow> 0 | Some n \<Rightarrow> of_nat n)"

definition lz_extend :: "jstr \<Rightarrow> lzw_table \<Rightarrow> nat \<Rightarrow> codec_error + lzw_table \<times> nat" where
  "lz_extend key t bitLength =
     (if lz_size t < 0xfff
      then rbind (lz_add key t) (\<lambda>t1. Inr (t1, if lz_size t = 2 ^ bitLength then bitLength + 1 else bitLength))
      else Inr (t, bitLength))"

fun lzw_loop :: "jstr \<Rightarrow> jstr \<Rightarrow> lzw_table \<Rightarrow> nat \<Rightarrow> bit_out \<Rightarrow> codec_error + jstr \<times> lzw_table \<times> nat \<times> bit_out" where
  "lzw_loop [] s t bitLength out = Inr (s, t, bitLength, out)"
| "lzw_loop (c # rest) s t bitLength out =
     (if lz_contains (s @ [c]) t then lzw_loop rest (s @ [c]) t bitLength out
      else rbind (bit_write (code_word (lz_indexOf s t)) bitLength out) (\<lambda>out1.
             rbind (lz_extend (s @ [c]) t bitLength) (\<lambda>(t1, bitLength1). lzw_loop rest [c] t1 bitLength1 out1)))"

definition getLZWRaster :: "nat \<Rightarrow> nat option list \<Rightarrow> codec_error + bytes" where
  "getLZWRaster lzwMinCodeSize pixels =
     (let clearCode = 2 ^ lzwMinCodeSize; endCode = clearCode + 1; bitLength = lzwMinCodeSize + 1;
          units = map pixel_unit pixels;
          s = [if units = [] then 0 else hd units] in
      rbind (lz_add_all (map (\<lambda>i. [of_nat i]) [0..<clearCode] @ [[of_nat clearCode], [of_nat endCode]]) lzwTable) (\<lambda>t.
      rbind (bit_write (of_nat clearCode) bitLength (bitOutputStream [])) (\<lambda>out.
      rbind (lzw_loop (tl units) s t bitLength out) (\<lambda>(s1, t1, bitLength1, out1).
      rbind (bit_write (code_word (lz_indexOf s1 t1)) bitLength1 out1) (\<lambda>out2.
      rbind (bit_write (of_nat endCode) bitLength1 out2) (\<lambda>out3.
      Inr (bt_out (bit_flush out3))))))))"

function gif_blocks :: "bytes \<Rightarrow> nat \<Rightarrow> bytes \<Rightarrow> bytes" where
  "gif_blocks raster offset out =
     (if 255 < length raster - offset
      then gif_blocks raster (offset + 255) (writeBytes raster offset 255 (writeByte 255 out))
      else writeBytes raster offset (length raster - offset) (writeByte (of_nat (length raster - offset)) out))"
  by pat_completeness auto
termination by (relation "measure (\<lambda>(raster, offset, out). length raster - offset)") auto

declare gif_blocks.simps [simp del]

definition gif_header :: "gif_image \<Rightarrow> bytes \<Rightarrow> bytes" where
  "gif_header g out =
     (let out = writeString (js ''GIF87a'') out;
          out = writeShort (of_nat (gi_height g)) (writeShort (of_nat (gi_width g)) out);
          out = writeByte 0 (writeByte 0 (writeByte 0x80 out));
          out = fold writeByte [0, 0, 0, 0xff, 0xff, 0xff] out;
          out = writeShort 0 (writeShort 0 (writeString (js '','') out));
          out = writeShort (of_nat (gi_height g)) (writeShort (of_nat (gi_width g)) out)
      in writeByte 0 out)"

definition gif_write :: "gif_image \<Rightarrow> bytes \<Rightarrow> codec_error + bytes" where
  "gif_write g out =
     rbind (getLZWRaster 2 (gi_data g)) (\<lambda>raster.
       Inr (writeString (js '';'') (writeByte 0 (gif_blocks raster 0 (writeByte 2 (gif_header g out))))))"

section \<open>createDataURL\<close>

fun set_pixels :: "(nat \<Rightarrow> nat \<Rightarrow> image_error + nat) \<Rightarrow> (nat \<times> nat) list \<Rightarrow> gif_image \<Rightarrow> image_error + gif_image" where
  "set_pixels getPixel [] g = Inr g"
| "set_pixels getPixel ((y, x) # ps) g = rbind (getPixel x y) (\<lambda>p. set_pixels getPixel ps (setPixel x y p g))"

definition createDataURL :: "nat \<Rightarrow> nat \<Rightarrow> (nat \<Rightarrow> nat \<Rightarrow> image_error + nat) \<Rightarrow> image_error + jstr" where
  "createDataURL width height getPixel =
     rbind (set_pixels getPixel (List.product [0..<height] [0..<width]) (gifImage width height)) (\<lambda>gif.
     rbind (stream_result (gif_write gif [])) (\<lambda>b.
     rbind (stream_result (b64_writeBytes b base64EncodeOutputStream)) (\<lambda>base64.
     rbind (stream_result (b64_flush base64)) (\<lambda>base64.
     Inr (js ''data:image/gif;base64,'' @ bo_base64 base64)))))"

definition cell_size :: "nat option \<Rightarrow> nat \<Rightarrow> nat" where
  "cell_size cellSize d = (case cellSize of None \<Rightarrow> d | Some n \<Rightarrow> if n = 0 then d else n)"

definition margin_of :: "nat option \<Rightarrow> nat \<Rightarrow> nat" where
  "margin_of margin d = (case margin of None \<Rightarrow> d | Some n \<Rightarrow> n)"

text \<open>Whether the pixel lies in the symbol and its module is dark.\<close>

definition pixel_dark :: "nat \<Rightarrow> nat \<Rightarrow> nat \<Rightarrow> qr \<Rightarrow> int \<Rightarrow> int \<Rightarrow> image_error + bool" where
  "pixel_dark cellSize margin extent q x y =
     (let lo = int margin; hi = int extent - int margin in
      if lo \<le> x \<and> x < hi \<and> lo \<le> y \<and> y < hi
      then rbind (qr_result (isDark ((y - lo) div int cellSize) ((x - lo) div int cellSize) q)) (\<lambda>d. Inr (d = Some True))
      else Inr False)"

definition picture_size :: "nat \<Rightarrow> nat \<Rightarrow> qr \<Rightarrow> nat" where
  "picture_size cellSize margin q = q_moduleCount q * cellSize + margin * 2"

definition qr_createDataURL :: "nat option \<Rightarrow> nat option \<Rightarrow> qr \<Rightarrow> image_error + jstr" where
  "qr_createDataURL cellSize margin q =
     (let cellSize = cell_size cellSize 2; margin = margin_of margin (cellSize * 4);
          extent = picture_size cellSize margin q in
      createDataURL extent extent (\<lambda>x y. rbind (pixel_dark cellSize margin extent q (int x) (int y)) (\<lambda>d. Inr (if d then 0 else 1))))"

end
