(* ===== verification/QrStreamsCorrect.thy ===== *)
theory QrStreamsCorrect
  imports QrStreams ForwarderCorrect
begin

text \<open>
  The streams: what the base64 writer produces is the standard base64 text, the reader gets the
  bytes back out of it, a conversion table survives its encoding, and the bit stream holds the
  bits of the codes in the order they were written.
\<close>

section \<open>Writing base64\<close>

text \<open>A fact about every digit is checked once for each.\<close>

lemma alphabet_cases:
  assumes "list_all P (enumerate 0 B64)" "n < 64"
  shows "P (n, B64 ! n)"
proof -
  have "(n, B64 ! n) \<in> set (enumerate 0 B64)" using assms(2) distinct_B64(2) by (auto simp: in_set_enumerate_eq)
  then show ?thesis using assms(1) by (auto simp only: list_all_iff)
qed

lemma b64_encode_sextet:
  assumes "n < 64"
  shows "b64_encode (word_of_nat n) = Inr (B64 ! n)"
proof -
  have "list_all (\<lambda>(n, c). b64_encode (word_of_nat n) = Inr c) (enumerate 0 B64)"
    by (simp add: b64_encode_def B64_def cu_def)
  from alphabet_cases [OF this assms] show ?thesis by simp
qed

lemma b64_decode_digit:
  assumes "n < 64"
  shows "b64_decode (B64 ! n) = Inr (word_of_nat n)"
proof -
  have "list_all (\<lambda>(n, c). b64_decode c = Inr (word_of_nat n)) (enumerate 0 B64)"
    by (simp add: b64_decode_def B64_def cu_def)
  from alphabet_cases [OF this assms] show ?thesis by simp
qed

text \<open>Six bits of the register from a given entry_index, as the number they stand for.\<close>

lemma writeEncoded_eq:
  "writeEncoded w s = Inr (s\<lparr>bo_base64 := bo_base64 s @ [B64 ! unat (w AND 0x3f)]\<rparr>)"
proof -
  have m: "w AND 0x3f = take_bit 6 w" by (simp add: take_bit_eq_mask mask_eq_exp_minus_1)
  have "unat (take_bit 6 w) < 64" using take_bit_nat_less_exp [of 6 "unat w"] by (simp add: unsigned_take_bit_eq)
  then have "b64_encode (word_of_nat (unat (take_bit 6 w))) = Inr (B64 ! unat (take_bit 6 w))"
    by (rule b64_encode_sextet)
  then show ?thesis by (simp add: writeEncoded_def m)
qed

lemma encode_loop_done: "bo_buflen s < 6 \<Longrightarrow> encode_loop s = Inr s"
  by (subst encode_loop.simps) simp

lemma encode_loop_step:
  "6 \<le> bo_buflen s \<Longrightarrow> encode_loop s =
     encode_loop (s\<lparr>bo_base64 := bo_base64 s @ [B64 ! unat (drop_bit (bo_buflen s - 6) (bo_buffer s) AND 0x3f)],
                    bo_buflen := bo_buflen s - 6\<rparr>)"
  by (subst encode_loop.simps) (simp add: writeEncoded_eq)

text \<open>What the register yields after one, two and three bytes.\<close>

definition shift_in :: "32 word \<Rightarrow> byte \<Rightarrow> 32 word" where
  "shift_in w b = push_bit 8 w OR ucast b"

lemma register_bits:
  fixes w :: "32 word" and b0 b1 b2 :: byte
  defines "r1 \<equiv> shift_in w b0"
  defines "r2 \<equiv> shift_in r1 b1"
  defines "r3 \<equiv> shift_in r2 b2"
  shows "unat (drop_bit 2 r1 AND 0x3f) = unat (drop_bit 2 b0)"
    "unat (drop_bit 4 r2 AND 0x3f) = unat (push_bit 4 (b0 AND 3) OR drop_bit 4 b1)"
    "unat (drop_bit 6 r3 AND 0x3f) = unat (push_bit 2 (b1 AND 15) OR drop_bit 6 b2)"
    "unat (r3 AND 0x3f) = unat (b2 AND 63)"
    "unat (push_bit 4 r1 AND 0x3f) = unat (push_bit 4 (b0 AND 3))"
    "unat (push_bit 2 r2 AND 0x3f) = unat (push_bit 2 (b1 AND 15))"
proof -
  have masks: "(0x3f :: 32 word) = mask 6" "(3 :: byte) = mask 2" "(15 :: byte) = mask 4" "(63 :: byte) = mask 6"
    by (simp_all add: mask_eq_exp_minus_1)
  have eq: "unat v = unat b" if "\<And>n. n < 32 \<Longrightarrow> bit v n = bit (ucast b :: 32 word) n" for v :: "32 word" and b :: byte
  proof -
    have "v = ucast b" by (rule bit_word_eqI) (use that in simp)
    moreover have "unat b < 2 ^ 32" using unat_byte_less [of b] by (rule less_trans) simp
    ultimately show ?thesis by (simp add: unsigned_ucast_eq take_bit_nat_eq_self)
  qed
  show "unat (drop_bit 2 r1 AND 0x3f) = unat (drop_bit 2 b0)"
    "unat (drop_bit 4 r2 AND 0x3f) = unat (push_bit 4 (b0 AND 3) OR drop_bit 4 b1)"
    "unat (drop_bit 6 r3 AND 0x3f) = unat (push_bit 2 (b1 AND 15) OR drop_bit 6 b2)"
    "unat (r3 AND 0x3f) = unat (b2 AND 63)"
    "unat (push_bit 4 r1 AND 0x3f) = unat (push_bit 4 (b0 AND 3))"
    "unat (push_bit 2 r2 AND 0x3f) = unat (push_bit 2 (b1 AND 15))"
    unfolding masks
    by (rule eq, auto simp: r1_def r2_def r3_def shift_in_def bit_simps not_less dest: bit_imp_le_length)+
qed

lemmas register_sextets = register_bits [unfolded base64_digit_values]
lemmas base64_parts = base64.simps [unfolded base64_digit_values]

lemma writeByte_steps:
  "bo_buflen s = 0 \<Longrightarrow> b64_writeByte b s =
     Inr (s\<lparr>bo_buffer := shift_in (bo_buffer s) b, bo_buflen := 2, bo_length := bo_length s + 1,
            bo_base64 := bo_base64 s @ [B64 ! unat (drop_bit 2 (shift_in (bo_buffer s) b) AND 0x3f)]\<rparr>)"
  "bo_buflen s = 2 \<Longrightarrow> b64_writeByte b s =
     Inr (s\<lparr>bo_buffer := shift_in (bo_buffer s) b, bo_buflen := 4, bo_length := bo_length s + 1,
            bo_base64 := bo_base64 s @ [B64 ! unat (drop_bit 4 (shift_in (bo_buffer s) b) AND 0x3f)]\<rparr>)"
  "bo_buflen s = 4 \<Longrightarrow> b64_writeByte b s =
     Inr (s\<lparr>bo_buffer := shift_in (bo_buffer s) b, bo_buflen := 0, bo_length := bo_length s + 1,
            bo_base64 := bo_base64 s @ [B64 ! unat (drop_bit 6 (shift_in (bo_buffer s) b) AND 0x3f),
                                        B64 ! unat (shift_in (bo_buffer s) b AND 0x3f)]\<rparr>)"
  unfolding b64_writeByte_def shift_in_def [symmetric]
  by (simp_all add: encode_loop_step encode_loop_done)

lemma write_three:
  assumes "bo_buflen s = 0"
  shows "\<exists>w. b64_writeBytes (b0 # b1 # b2 # bs) s =
    b64_writeBytes bs (s\<lparr>bo_buffer := w, bo_buflen := 0, bo_length := bo_length s + 3, bo_base64 := bo_base64 s @ base64 [b0, b1, b2]\<rparr>)"
  using assms unfolding base64_parts
  by (intro exI [of _ "shift_in (shift_in (shift_in (bo_buffer s) b0) b1) b2"]) (simp add: writeByte_steps register_sextets numeral_3_eq_3)

lemma flush_steps:
  "bo_buflen s = 0 \<Longrightarrow> bo_length s mod 3 = 0 \<Longrightarrow> b64_flush s = Inr s"
  "bo_buflen s = 2 \<Longrightarrow> bo_length s mod 3 = 1 \<Longrightarrow> b64_flush s =
     Inr (s\<lparr>bo_buffer := 0, bo_buflen := 0,
            bo_base64 := bo_base64 s @ [B64 ! unat (push_bit 4 (bo_buffer s) AND 0x3f), cu CHR ''='', cu CHR ''='']\<rparr>)"
  "bo_buflen s = 4 \<Longrightarrow> bo_length s mod 3 = 2 \<Longrightarrow> b64_flush s =
     Inr (s\<lparr>bo_buffer := 0, bo_buflen := 0,
            bo_base64 := bo_base64 s @ [B64 ! unat (push_bit 2 (bo_buffer s) AND 0x3f), cu CHR ''='']\<rparr>)"
proof -
  have "replicate 2 c = [c, c]" "replicate 1 c = [c]" for c :: unit16 by (simp_all add: numeral_2_eq_2)
  then show
    "bo_buflen s = 0 \<Longrightarrow> bo_length s mod 3 = 0 \<Longrightarrow> b64_flush s = Inr s"
    "bo_buflen s = 2 \<Longrightarrow> bo_length s mod 3 = 1 \<Longrightarrow> b64_flush s =
       Inr (s\<lparr>bo_buffer := 0, bo_buflen := 0,
              bo_base64 := bo_base64 s @ [B64 ! unat (push_bit 4 (bo_buffer s) AND 0x3f), cu CHR ''='', cu CHR ''='']\<rparr>)"
    "bo_buflen s = 4 \<Longrightarrow> bo_length s mod 3 = 2 \<Longrightarrow> b64_flush s =
       Inr (s\<lparr>bo_buffer := 0, bo_buflen := 0,
              bo_base64 := bo_base64 s @ [B64 ! unat (push_bit 2 (bo_buffer s) AND 0x3f), cu CHR ''='']\<rparr>)"
    by (simp_all add: b64_flush_def b64_pad_def writeEncoded_eq)
qed

lemma flush_rest:
  assumes "bo_buflen s = 0" "bo_length s mod 3 = 0"
  shows "\<exists>s'. rbind (b64_writeBytes [] s) b64_flush = Inr s' \<and> bo_base64 s' = bo_base64 s @ base64 []"
    "\<exists>s'. rbind (b64_writeBytes [b0] s) b64_flush = Inr s' \<and> bo_base64 s' = bo_base64 s @ base64 [b0]"
    "\<exists>s'. rbind (b64_writeBytes [b0, b1] s) b64_flush = Inr s' \<and> bo_base64 s' = bo_base64 s @ base64 [b0, b1]"
proof -
  have m: "(bo_length s + 1) mod 3 = 1" "(bo_length s + 2) mod 3 = 2" using assms(2) by presburger+
  show "\<exists>s'. rbind (b64_writeBytes [] s) b64_flush = Inr s' \<and> bo_base64 s' = bo_base64 s @ base64 []"
    using assms by (simp add: flush_steps)
  show "\<exists>s'. rbind (b64_writeBytes [b0] s) b64_flush = Inr s' \<and> bo_base64 s' = bo_base64 s @ base64 [b0]"
    unfolding base64_parts using assms m by (simp add: writeByte_steps flush_steps register_sextets)
  show "\<exists>s'. rbind (b64_writeBytes [b0, b1] s) b64_flush = Inr s' \<and> bo_base64 s' = bo_base64 s @ base64 [b0, b1]"
    unfolding base64_parts using assms m by (simp add: writeByte_steps flush_steps register_sextets)
qed

lemma base64_stream:
  assumes "bo_buflen s = 0" "bo_length s mod 3 = 0"
  shows "\<exists>s'. rbind (b64_writeBytes bs s) b64_flush = Inr s' \<and> bo_base64 s' = bo_base64 s @ base64 bs"
  using assms
proof (induction bs arbitrary: s rule: base64.induct)
  case (4 b0 b1 b2 bs)
  let ?s = "\<lambda>w. s\<lparr>bo_buffer := w, bo_buflen := 0, bo_length := bo_length s + 3, bo_base64 := bo_base64 s @ base64 [b0, b1, b2]\<rparr>"
  obtain w where w: "b64_writeBytes (b0 # b1 # b2 # bs) s = b64_writeBytes bs (?s w)"
    using write_three [OF 4(2)] by blast
  have split: "base64 (b0 # b1 # b2 # bs) = base64 [b0, b1, b2] @ base64 bs" by simp
  have "\<exists>s'. rbind (b64_writeBytes bs (?s w)) b64_flush = Inr s' \<and> bo_base64 s' = bo_base64 (?s w) @ base64 bs"
    by (rule 4(1)) (use 4(2,3) in simp_all)
  then show ?case unfolding w split by (simp del: base64.simps)
qed (rule flush_rest, assumption+)+

section \<open>Reading base64\<close>

definition sx :: "32 word \<Rightarrow> byte \<Rightarrow> 32 word" where
  "sx w b = push_bit 6 w OR ucast b"

lemma read_digit:
  assumes "unat v < 64" "buflen < 8"
  shows "read_loop (B64 ! unat v # str) w buflen = read_loop str (sx w v) (buflen + 6)"
proof -
  have "b64_decode (B64 ! unat v) = Inr (ucast v)"
    unfolding b64_decode_digit [OF assms(1)] by simp
  moreover have "B64 ! unat v \<in> set B64" using assms(1) distinct_B64(2) by (intro nth_mem) simp
  ultimately show ?thesis using assms(2) b64_units(1) b64_digit(2) [OF assms(1)] by (simp add: sx_def)
qed

lemma register_bytes:
  fixes w :: "32 word" and b0 b1 b2 y :: byte
  shows "drop_bit 4 y = 0 \<Longrightarrow> ucast (drop_bit 4 (sx (sx w (drop_bit 2 b0)) (push_bit 4 (b0 AND 3) OR y))) = b0"
    "drop_bit 2 y = 0 \<Longrightarrow> ucast (drop_bit 2 (sx (sx w (push_bit 4 (b0 AND 3) OR drop_bit 4 b1)) (push_bit 2 (b1 AND 15) OR y))) = b1"
    "ucast (sx (sx w (push_bit 2 (b1 AND 15) OR drop_bit 6 b2)) (b2 AND 63)) = b2"
proof -
  have masks: "(3 :: byte) = mask 2" "(15 :: byte) = mask 4" "(63 :: byte) = mask 6" by (simp_all add: mask_eq_exp_minus_1)
  have low: "\<not> bit y (k + n)" if "drop_bit k y = 0" for k n 
    using bit_drop_bit_eq [of k y] that by (simp add: fun_eq_iff)
  have back_to: "2 \<le> n \<Longrightarrow> Suc (Suc (n - 2)) = n" "4 \<le> n \<Longrightarrow> 4 + (n - 4) = n" for n :: nat by simp_all
  note bits = sx_def bit_simps not_less back_to
  show "drop_bit 4 y = 0 \<Longrightarrow> ucast (drop_bit 4 (sx (sx w (drop_bit 2 b0)) (push_bit 4 (b0 AND 3) OR y))) = b0"
    unfolding masks using low [of 4]
    by (intro bit_word_eqI; rename_tac n; case_tac "n < 2"; case_tac "n < 4") (auto simp: bits)
  show "drop_bit 2 y = 0 \<Longrightarrow> ucast (drop_bit 2 (sx (sx w (push_bit 4 (b0 AND 3) OR drop_bit 4 b1)) (push_bit 2 (b1 AND 15) OR y))) = b1"
    unfolding masks using low [of 2]
    by (intro bit_word_eqI; rename_tac n; case_tac "n < 2"; case_tac "n < 4") (auto simp: bits)
  show "ucast (sx (sx w (push_bit 2 (b1 AND 15) OR drop_bit 6 b2)) (b2 AND 63)) = b2"
    unfolding masks by (intro bit_word_eqI) (auto simp: bits)
qed

text \<open>The reader yields exactly these bytes and then the end.\<close>

fun yields :: "bytes \<Rightarrow> b64_in \<Rightarrow> bool" where
  "yields [] s \<longleftrightarrow> (\<exists>s'. b64_read s = Inr (None, s'))"
| "yields (b # bs) s \<longleftrightarrow> (\<exists>s'. b64_read s = Inr (Some b, s') \<and> yields bs s')"

lemma read_loop_full [simp]:
  "8 \<le> buflen \<Longrightarrow> read_loop str w buflen =
     Inr (Some (ucast (drop_bit (buflen - 8) w)), \<lparr>bi_str = str, bi_buffer = w, bi_buflen = buflen - 8\<rparr>)"
  by (cases str) simp_all

declare read_loop.simps [simp del]

lemma small_digits:
  fixes b0 b1 b2 :: byte
  shows "unat (drop_bit 2 b0) < 64" "unat (push_bit 4 (b0 AND 3)) < 64" "unat (push_bit 4 (b0 AND 3) OR drop_bit 4 b1) < 64"
    "unat (push_bit 2 (b1 AND 15)) < 64" "unat (push_bit 2 (b1 AND 15) OR drop_bit 6 b2) < 64" "unat (b2 AND 63) < 64"
  unfolding base64_digit_values using base64_digit_bounds by blast+

lemma read_stop [simp]:
  "read_loop [] w 0 = Inr (None, \<lparr>bi_str = [], bi_buffer = w, bi_buflen = 0\<rparr>)"
  "buflen < 8 \<Longrightarrow> read_loop (cu CHR ''='' # str) w buflen = Inr (None, \<lparr>bi_str = str, bi_buffer = w, bi_buflen = 0\<rparr>)"
  by (simp_all add: read_loop.simps)

lemma read_group:
  fixes b0 b1 b2 y :: byte
  shows "drop_bit 4 y = 0 \<Longrightarrow> unat (push_bit 4 (b0 AND 3) OR y) < 64 \<Longrightarrow>
      read_loop (B64 ! unat (drop_bit 2 b0) # B64 ! unat (push_bit 4 (b0 AND 3) OR y) # str) w 0
      = Inr (Some b0, \<lparr>bi_str = str, bi_buffer = sx (sx w (drop_bit 2 b0)) (push_bit 4 (b0 AND 3) OR y), bi_buflen = 4\<rparr>)"
    "drop_bit 2 y = 0 \<Longrightarrow> unat (push_bit 2 (b1 AND 15) OR y) < 64 \<Longrightarrow>
      read_loop (B64 ! unat (push_bit 2 (b1 AND 15) OR y) # str) (sx w (push_bit 4 (b0 AND 3) OR drop_bit 4 b1)) 4
      = Inr (Some b1, \<lparr>bi_str = str, bi_buffer = sx (sx w (push_bit 4 (b0 AND 3) OR drop_bit 4 b1)) (push_bit 2 (b1 AND 15) OR y),
                       bi_buflen = 2\<rparr>)"
    "read_loop (B64 ! unat (b2 AND 63) # str) (sx w (push_bit 2 (b1 AND 15) OR drop_bit 6 b2)) 2
      = Inr (Some b2, \<lparr>bi_str = str, bi_buffer = sx (sx w (push_bit 2 (b1 AND 15) OR drop_bit 6 b2)) (b2 AND 63), bi_buflen = 0\<rparr>)"
proof -
  note [simp del] = push_bit_and push_bit_or drop_bit_or
  show "drop_bit 4 y = 0 \<Longrightarrow> unat (push_bit 4 (b0 AND 3) OR y) < 64 \<Longrightarrow>
      read_loop (B64 ! unat (drop_bit 2 b0) # B64 ! unat (push_bit 4 (b0 AND 3) OR y) # str) w 0
      = Inr (Some b0, \<lparr>bi_str = str, bi_buffer = sx (sx w (drop_bit 2 b0)) (push_bit 4 (b0 AND 3) OR y), bi_buflen = 4\<rparr>)"
    by (simp add: read_digit small_digits register_bytes(1))
  show "drop_bit 2 y = 0 \<Longrightarrow> unat (push_bit 2 (b1 AND 15) OR y) < 64 \<Longrightarrow>
      read_loop (B64 ! unat (push_bit 2 (b1 AND 15) OR y) # str) (sx w (push_bit 4 (b0 AND 3) OR drop_bit 4 b1)) 4
      = Inr (Some b1, \<lparr>bi_str = str, bi_buffer = sx (sx w (push_bit 4 (b0 AND 3) OR drop_bit 4 b1)) (push_bit 2 (b1 AND 15) OR y),
                       bi_buflen = 2\<rparr>)"
    by (simp add: read_digit register_bytes(2))
  show "read_loop (B64 ! unat (b2 AND 63) # str) (sx w (push_bit 2 (b1 AND 15) OR drop_bit 6 b2)) 2
      = Inr (Some b2, \<lparr>bi_str = str, bi_buffer = sx (sx w (push_bit 2 (b1 AND 15) OR drop_bit 6 b2)) (b2 AND 63), bi_buflen = 0\<rparr>)"
    by (simp add: read_digit small_digits register_bytes(3))
qed

lemma base64_read_back: "bi_buflen s = 0 \<Longrightarrow> bi_str s = base64 bs \<Longrightarrow> yields bs s"
proof (induction bs arbitrary: s rule: base64.induct)
  case 1
  then show ?case by (simp add: b64_read_def)
next
  case (2 b0)
  note one = read_group(1) [of 0 b0, unfolded or.right_neutral drop_bit_of_0, OF refl small_digits(2)]
  show ?case
    using 2 by (simp only: yields.simps b64_read_def base64.simps one) simp
next
  case (3 b0 b1)
  have "drop_bit 4 (drop_bit 4 b1) = 0" by (rule bit_word_eqI) (simp add: bit_simps)
  note one = read_group(1) [OF this small_digits(3) [of b0 b1]]
  note two = read_group(2) [of 0 b1, unfolded or.right_neutral drop_bit_of_0, OF refl small_digits(4)]
  show ?case
    using 3 by (simp only: yields.simps b64_read_def base64.simps one) (simp add: two del: push_bit_and push_bit_or)
next
  case (4 b0 b1 b2 bs)
  have "drop_bit 4 (drop_bit 4 b1) = 0" "drop_bit 2 (drop_bit 6 b2) = 0" by (rule bit_word_eqI, simp add: bit_simps)+
  note one = read_group(1) [OF this(1) small_digits(3) [of b0 b1]]
    and two = read_group(2) [OF this(2) small_digits(5) [of b1 b2]]
  show ?case
    using 4 by (simp only: yields.simps b64_read_def base64.simps append_Cons one) (simp add: two read_group(3) del: push_bit_and push_bit_or)
qed

text \<open>Reading the pairs of a conversion table.\<close>

definition pair_bytes :: "unit16 \<times> unit16 \<Rightarrow> bytes" where
  "pair_bytes kv = [ucast (drop_bit 8 (fst kv)), ucast (fst kv), ucast (drop_bit 8 (snd kv)), ucast (snd kv)]"

lemma join_bytes: "push_bit 8 (ucast (ucast (drop_bit 8 k) :: byte)) OR ucast (ucast k :: byte) = (k :: unit16)"
  by (rule bit_word_eqI) (auto simp: bit_simps not_less)

lemma yields_pair:
  assumes "yields (pair_bytes kv @ bs) s"
  shows "\<exists>s1 s2. b64_read s = Inr (Some (ucast (drop_bit 8 (fst kv))), s1)
    \<and> read_pair (ucast (drop_bit 8 (fst kv))) s1 = Inr (kv, s2) \<and> yields bs s2"
  using assms by (force simp: pair_bytes_def read_pair_def read_or_eof_def join_bytes)

lemma read_map_pairs:
  assumes "yields (concat (map pair_bytes kvs)) s"
  shows "read_map s m count = Inr (fold (\<lambda>(k, v). jset k v) kvs m, count + length kvs)"
  using assms
proof (induction kvs arbitrary: s m count)
  case Nil
  then show ?case by (subst read_map.simps) auto
next
  case (Cons kv kvs)
  then obtain s1 s2 where s: "b64_read s = Inr (Some (ucast (drop_bit 8 (fst kv))), s1)"
    "read_pair (ucast (drop_bit 8 (fst kv))) s1 = Inr (kv, s2)" "yields (concat (map pair_bytes kvs)) s2"
    using yields_pair [of kv "concat (map pair_bytes kvs)" s] by auto
  show ?case using Cons.IH [OF s(3)] s by (subst read_map.simps) (simp add: case_prod_unfold)
qed

lemma fold_jset_get: "jget (fold (\<lambda>(k, v). jset k v) kvs m) k = (case map_of (rev kvs) k of None \<Rightarrow> jget m k | Some v \<Rightarrow> Some v)"
  by (induction kvs arbitrary: m) (auto simp: update_conv map_add_def split: option.splits prod.splits)

section \<open>The bit stream\<close>

text \<open>The bits of bytes and of a code, the lowest first.\<close>

definition low_bits :: "32 word \<Rightarrow> nat \<Rightarrow> bool list" where
  "low_bits w n = map (bit w) [0..<n]"

definition bits_of_bytes :: "bytes \<Rightarrow> bool list" where
  "bits_of_bytes bs = concat (map (\<lambda>b. map (bit b) [0..<8]) bs)"

definition stream_bits :: "bit_out \<Rightarrow> bool list" where
  "stream_bits s = bits_of_bytes (bt_out s) @ low_bits (bt_bitBuffer s) (bt_bitLength s)"

definition bitout_ok :: "bit_out \<Rightarrow> bool" where
  "bitout_ok s \<longleftrightarrow> bt_bitLength s < 8 \<and> (\<forall>n \<ge> bt_bitLength s. \<not> bit (bt_bitBuffer s) n)"

lemma bits_of_bytes_append [simp]: "bits_of_bytes (xs @ ys) = bits_of_bytes xs @ bits_of_bytes ys"
  by (simp add: bits_of_bytes_def)

lemma low_bits_join:
  assumes "\<forall>n \<ge> k. \<not> bit buf n" "k \<le> m" "m \<le> 32"
  shows "low_bits (push_bit k data OR buf) m = low_bits buf k @ low_bits data (m - k)"
  using assms by (intro nth_equalityI) (auto simp: low_bits_def nth_append bit_simps)

lemma low_bits_split: "k \<le> m \<Longrightarrow> low_bits w m = low_bits w k @ low_bits (drop_bit k w) (m - k)"
  by (intro nth_equalityI) (auto simp: low_bits_def nth_append bit_simps)

lemma byte_of_bits: "map (bit (ucast (0xff AND w) :: byte)) [0..<8] = low_bits w 8"
proof -
  have m: "(0xff :: 32 word) = mask 8" by (simp add: mask_eq_exp_minus_1)
  show ?thesis unfolding m by (auto simp: low_bits_def bit_simps intro!: map_cong)
qed

lemma bit_loop_bits:
  assumes "bitout_ok s" "\<forall>n \<ge> len. \<not> bit data n"
  shows "bitout_ok (bit_loop data len s) \<and> stream_bits (bit_loop data len s) = stream_bits s @ low_bits data len"
  using assms
proof (induction data len s rule: bit_loop.induct)
  case (1 data len s)
  let ?k = "bt_bitLength s"
  have buf: "\<forall>n \<ge> ?k. \<not> bit (bt_bitBuffer s) n" "?k < 8" using 1(2) by (auto simp: bitout_ok_def)
  show ?case
  proof (cases "8 \<le> ?k + len")
    case True
    let ?b = "0xff AND (push_bit ?k data OR bt_bitBuffer s)"
    let ?s = "\<lparr>bt_out = writeByte ?b (bt_out s), bt_bitLength = 0, bt_bitBuffer = 0\<rparr>"
    have step: "bit_loop data len s = bit_loop (drop_bit (8 - ?k) data) (?k + len - 8) ?s"
      by (subst bit_loop.simps) (simp add: True)
    have ok: "bitout_ok ?s" "\<forall>n \<ge> ?k + len - 8. \<not> bit (drop_bit (8 - ?k) data) n"
      using 1(3) buf(2) by (auto simp: bitout_ok_def bit_simps)
    have "stream_bits ?s @ low_bits (drop_bit (8 - ?k) data) (?k + len - 8)
        = bits_of_bytes (bt_out s) @ low_bits (push_bit ?k data OR bt_bitBuffer s) 8 @ low_bits (drop_bit (8 - ?k) data) (?k + len - 8)"
      by (simp add: stream_bits_def writeByte_def byte_of_bits bits_of_bytes_def low_bits_def [of _ 0])
    also have "\<dots> = stream_bits s @ low_bits data len"
      using low_bits_join [OF buf(1), of 8 data] low_bits_split [of "8 - ?k" len data] buf(2) True
      by (simp add: stream_bits_def add.commute)
    finally show ?thesis using 1(1) [OF True ok] step by simp
  next
    case False
    then have "bit_loop data len s = s\<lparr>bt_bitBuffer := push_bit ?k data OR bt_bitBuffer s, bt_bitLength := ?k + len\<rparr>"
      by (subst bit_loop.simps) simp
    moreover have "low_bits (push_bit ?k data OR bt_bitBuffer s) (?k + len) = low_bits (bt_bitBuffer s) ?k @ low_bits data len"
      using low_bits_join [OF buf(1), of "?k + len" data] False by simp
    ultimately show ?thesis using False buf 1(3) by (auto simp: bitout_ok_def stream_bits_def bit_simps)
  qed
qed

lemma bit_write_bits:
  assumes "bitout_ok s" "unat data < 2 ^ len" "len < 32"
  shows "\<exists>s'. bit_write data len s = Inr s' \<and> bitout_ok s' \<and> stream_bits s' = stream_bits s @ low_bits data len"
proof -
  have "unat (drop_bit len data) = 0" unfolding unat_drop_bit_eq using assms(2) by (simp add: drop_bit_eq_div)
  then have "drop_bit len data = 0" by (simp only: unat_eq_0)
  then have "\<forall>n \<ge> len. \<not> bit data n" using bit_drop_bit_eq [of len data] by (auto simp: fun_eq_iff dest: le_Suc_ex)
  then show ?thesis
    using bit_loop_bits [OF assms(1)] \<open>drop_bit len data = 0\<close> assms(3) by (simp add: bit_write_def)
qed

lemma bit_flush_bits:
  assumes "bitout_ok s"
  shows "\<exists>n. bits_of_bytes (bt_out (bit_flush s)) = stream_bits s @ replicate n False"
proof (cases "bt_bitLength s = 0")
  case True
  then show ?thesis by (intro exI [of _ 0]) (simp add: bit_flush_def stream_bits_def low_bits_def)
next
  case False
  have "map (bit (ucast (bt_bitBuffer s) :: byte)) [0..<8] = low_bits (bt_bitBuffer s) (bt_bitLength s) @ replicate (8 - bt_bitLength s) False"
    using assms by (intro nth_equalityI) (auto simp: low_bits_def nth_append bit_simps bitout_ok_def)
  then show ?thesis
    using False by (intro exI [of _ "8 - bt_bitLength s"]) (simp add: bit_flush_def stream_bits_def writeByte_def bits_of_bytes_def)
qed

section \<open>Properties\<close>

text \<open>
  C40. The base64 streams are the standard coding and lose nothing: whatever bytes are written,
  no digit is out of range, the text after the flush is the base64 of RFC 4648 with its
  padding, and the reader yields exactly those bytes and then the end.
\<close>

theorem base64_streams:
  "\<exists>s. rbind (b64_writeBytes bs base64EncodeOutputStream) b64_flush = Inr s
     \<and> bo_base64 s = base64 bs \<and> yields bs (base64DecodeInputStream (bo_base64 s))"
  using base64_stream [of base64EncodeOutputStream bs] base64_read_back [of "base64DecodeInputStream (base64 bs)" bs]
  by (auto simp: base64EncodeOutputStream_def base64DecodeInputStream_def)

text \<open>
  A conversion table survives its encoding: from the base64 of its pairs, \<open>createStringToBytes\<close>
  makes the map in which the last pair of a unit counts, and it throws if the number of pairs is
  not the one announced.
\<close>

theorem conversion_table:
  "\<exists>m. unicode_map (base64 (concat (map pair_bytes kvs))) n = (if length kvs = n then Inr m else Inl (BadCount (length kvs) n))
     \<and> (\<forall>k. jget m k = map_of (rev kvs) k)"
proof (intro exI conjI allI)
  have "yields (concat (map pair_bytes kvs)) (base64DecodeInputStream (base64 (concat (map pair_bytes kvs))))"
    by (rule base64_read_back) (simp_all add: base64DecodeInputStream_def)
  from read_map_pairs [OF this, of "[]" 0]
  show "unicode_map (base64 (concat (map pair_bytes kvs))) n
      = (if length kvs = n then Inr (fold (\<lambda>(k, v). jset k v) kvs []) else Inl (BadCount (length kvs) n))"
    by (simp add: unicode_map_def)
  show "jget (fold (\<lambda>(k, v). jset k v) kvs []) k = map_of (rev kvs) k" for k
    by (simp add: fold_jset_get split: option.splits)
qed

end
