(* ===== verification/QrImageCorrect.thy ===== *)
theory QrImageCorrect
  imports QrImage QrStreamsCorrect
begin

text \<open>
  Pictures: a reader of the picture format with the standard dictionary decoder gets back every
  pixel, so what a browser draws from the data URL is the symbol with its margin.
\<close>

section \<open>The code book\<close>

definition table_ok :: "lzw_table \<Rightarrow> jstr list \<Rightarrow> bool" where
  "table_ok t T \<longleftrightarrow> distinct T \<and> lz_size t = length T \<and> (\<forall>k i. jget (lz_map t) k = Some i \<longleftrightarrow> i < length T \<and> T ! i = k)"

lemma table_contains: "table_ok t T \<Longrightarrow> lz_contains k t \<longleftrightarrow> k \<in> set T"
  by (auto simp: lz_contains_def table_ok_def in_set_conv_nth)

lemma table_index:
  assumes "table_ok t T" "i < length T"
  shows "lz_indexOf (T ! i) t = Some i"
  using assms by (simp add: lz_indexOf_def table_ok_def)

lemma table_add:
  assumes "table_ok t T" "k \<notin> set T"
  shows "\<exists>t'. lz_add k t = Inr t' \<and> table_ok t' (T @ [k])"
proof -
  have "jget (jset k (length T) (lz_map t)) k' = Some i \<longleftrightarrow> i < Suc (length T) \<and> (T @ [k]) ! i = k'" for k' i
    using assms by (auto simp: update_conv table_ok_def nth_append less_Suc_eq)
  then show ?thesis
    using assms table_contains [OF assms(1), of k] by (auto simp: lz_add_def table_ok_def)
qed

lemma table_add_all:
  assumes "table_ok t T" "distinct (T @ ks)"
  shows "\<exists>t'. lz_add_all ks t = Inr t' \<and> table_ok t' (T @ ks)"
  using assms
proof (induction ks arbitrary: t T)
  case (Cons k ks)
  then obtain t1 where "lz_add k t = Inr t1" "table_ok t1 (T @ [k])" using table_add [of t T k] by auto
  then show ?case using Cons.IH [of t1 "T @ [k]"] Cons.prems(2) by auto
qed simp

text \<open>The codes emitted, each with its width, over the table as a list.\<close>

definition entry_index :: "jstr list \<Rightarrow> jstr \<Rightarrow> nat" where
  "entry_index T s = the (index_of [s] T)"

fun lzw_emit :: "jstr list \<Rightarrow> nat \<Rightarrow> jstr \<Rightarrow> jstr \<Rightarrow> (nat \<times> nat) list" where
  "lzw_emit T b s [] = [(entry_index T s, b), (5, b)]"
| "lzw_emit T b s (c # rest) =
     (if s @ [c] \<in> set T then lzw_emit T b (s @ [c]) rest
      else (entry_index T s, b) #
        (if length T < 4095 then lzw_emit (T @ [s @ [c]]) (if length T = 2 ^ b then b + 1 else b) [c] rest
         else lzw_emit T b [c] rest))"

definition lzw_base :: "jstr list" where
  "lzw_base = [[0], [1], [2], [3], [4], [5]]"

definition code_bits :: "(nat \<times> nat) list \<Rightarrow> bool list" where
  "code_bits cs = concat (map (\<lambda>(c, w). low_bits (word_of_nat c) w) cs)"

definition enc_ok :: "jstr list \<Rightarrow> nat \<Rightarrow> jstr \<Rightarrow> bool" where
  "enc_ok T b s \<longleftrightarrow> distinct T \<and> take 6 T = lzw_base \<and> 6 \<le> length T \<and> length T \<le> 4095 \<and> length T \<le> 2 ^ b \<and> 3 \<le> b \<and> b \<le> 12
     \<and> s \<in> set T \<and> s \<noteq> [] \<and> (\<forall>c \<in> set s. c < 4)"

lemma entry_index_nth: "distinct T \<Longrightarrow> s \<in> set T \<Longrightarrow> entry_index T s < length T \<and> T ! entry_index T s = s"
  by (auto simp: entry_index_def in_set_conv_nth index_of_nth)

lemma unit_in_base:
  assumes "(c :: unit16) < 4" shows "[c] \<in> set lzw_base"
proof -
  have "unat c < 4" using assms by (simp add: word_less_nat_alt)
  then have "c = word_of_nat (unat c)" "unat c = 0 \<or> unat c = 1 \<or> unat c = 2 \<or> unat c = 3" by auto
  then show ?thesis unfolding lzw_base_def by (metis (no_types) list.set_intros semiring_1_class.of_nat_0 of_nat_1 of_nat_numeral)
qed

lemma enc_ok_unit: "enc_ok T b s \<Longrightarrow> c < 4 \<Longrightarrow> [c] \<in> set T"
  using unit_in_base [of c] set_take_subset [of 6 T] by (auto simp: enc_ok_def)

lemma entry_code:
  assumes "enc_ok T b s"
  shows "entry_index T s < 2 ^ b" "entry_index T s \<noteq> 4" "entry_index T s \<noteq> 5"
proof -
  have p: "entry_index T s < length T" "T ! entry_index T s = s" using assms entry_index_nth by (auto simp: enc_ok_def)
  then show "entry_index T s < 2 ^ b" using assms by (simp add: enc_ok_def)
  have "take 6 T ! 4 = [4]" "take 6 T ! 5 = [5]" using assms by (simp_all only: enc_ok_def lzw_base_def) simp_all
  then have "T ! 4 = [4]" "T ! 5 = [5]" by simp_all
  moreover have "\<forall>c \<in> set s. c < 4" using assms by (simp add: enc_ok_def)
  ultimately have "s \<noteq> T ! 4" "s \<noteq> T ! 5" by auto
  then show "entry_index T s \<noteq> 4" "entry_index T s \<noteq> 5" using p(2) by metis+
qed

lemma enc_ok_extend:
  assumes "enc_ok T b s" "c < 4" "s @ [c] \<notin> set T" "length T < 4095"
  shows "enc_ok (T @ [s @ [c]]) (if length T = 2 ^ b then b + 1 else b) [c]"
proof -
  have "b < 12" if "length T = 2 ^ b"
  proof (rule ccontr)
    assume "\<not> b < 12"
    then have "(2 :: nat) ^ 12 \<le> 2 ^ b" by (intro power_increasing) simp_all
    then show False using that assms(4) by simp
  qed
  then show ?thesis using assms enc_ok_unit [OF assms(1,2)] by (auto simp: enc_ok_def)
qed

text \<open>The concrete loop writes these codes.\<close>

definition lzw_finish :: "jstr \<times> lzw_table \<times> nat \<times> bit_out \<Rightarrow> codec_error + bit_out" where
  "lzw_finish r = (case r of (s, t, b, out) \<Rightarrow>
     rbind (bit_write (code_word (lz_indexOf s t)) b out) (bit_write 5 b))"

lemma write_entry:
  assumes "table_ok t T" "enc_ok T b s" "bitout_ok out"
  shows "\<exists>out'. bit_write (code_word (lz_indexOf s t)) b out = Inr out' \<and> bitout_ok out'
    \<and> stream_bits out' = stream_bits out @ low_bits (word_of_nat (entry_index T s)) b"
proof -
  have p: "entry_index T s < length T" "T ! entry_index T s = s" using assms(2) entry_index_nth by (auto simp: enc_ok_def)
  have "lz_indexOf s t = Some (entry_index T s)" using table_index [OF assms(1) p(1)] p(2) by simp
  moreover have "unat (word_of_nat (entry_index T s) :: 32 word) < 2 ^ b"
    using entry_code(1) [OF assms(2)] unat_of_nat [of "entry_index T s", where 'a = 32] by (simp add: le_less_trans [OF mod_less_eq_dividend])
  ultimately show ?thesis
    using bit_write_bits [OF assms(3), of "word_of_nat (entry_index T s)" b] assms(2) by (simp add: code_word_def enc_ok_def)
qed

lemma lzw_loop_emit:
  assumes "table_ok t T" "enc_ok T b s" "bitout_ok out" "\<forall>c \<in> set rest. c < 4"
  shows "\<exists>out'. rbind (lzw_loop rest s t b out) lzw_finish = Inr out' \<and> bitout_ok out'
    \<and> stream_bits out' = stream_bits out @ code_bits (lzw_emit T b s rest)"
  using assms
proof (induction rest arbitrary: s t T b out)
  case Nil
  obtain o1 where o1: "bit_write (code_word (lz_indexOf s t)) b out = Inr o1" "bitout_ok o1"
    "stream_bits o1 = stream_bits out @ low_bits (word_of_nat (entry_index T s)) b"
    using write_entry Nil by blast
  have "(5 :: nat) < 2 ^ b" using Nil(2) power_increasing [of 3 b "2 :: nat"] by (simp add: enc_ok_def)
  then obtain o2 where "bit_write 5 b o1 = Inr o2" "bitout_ok o2" "stream_bits o2 = stream_bits o1 @ low_bits 5 b"
    using bit_write_bits [OF o1(2), of 5 b] Nil(2) by (auto simp: enc_ok_def)
  then show ?case using o1 by (simp add: lzw_finish_def code_bits_def)
next
  case (Cons c rest)
  have c: "c < 4" "\<forall>c \<in> set rest. c < 4" using Cons.prems(4) by auto
  show ?case
  proof (cases "s @ [c] \<in> set T")
    case True
    then have "enc_ok T b (s @ [c])" using Cons.prems(2) c(1) by (simp add: enc_ok_def)
    then show ?thesis
      using Cons.IH [OF Cons.prems(1) _ Cons.prems(3) c(2)] True table_contains [OF Cons.prems(1)] by simp
  next
    case False
    obtain o1 where o1: "bit_write (code_word (lz_indexOf s t)) b out = Inr o1" "bitout_ok o1"
      "stream_bits o1 = stream_bits out @ low_bits (word_of_nat (entry_index T s)) b"
      using write_entry Cons.prems by blast
    have sz: "lz_size t = length T" using Cons.prems(1) by (simp add: table_ok_def)
    show ?thesis
    proof (cases "length T < 4095")
      case ext: True
      obtain t1 where t1: "lz_add (s @ [c]) t = Inr t1" "table_ok t1 (T @ [s @ [c]])"
        using table_add [OF Cons.prems(1) False] by blast
      show ?thesis
        using Cons.IH [OF t1(2) enc_ok_extend [OF Cons.prems(2) c(1) False ext] o1(2) c(2)] o1 t1 ext False sz
          table_contains [OF Cons.prems(1)] by (simp add: lz_extend_def code_bits_def)
    next
      case full: False
      have "enc_ok T b [c]" using Cons.prems(2) c(1) enc_ok_unit by (auto simp: enc_ok_def)
      then show ?thesis
        using Cons.IH [OF Cons.prems(1) _ o1(2) c(2)] o1 full False sz table_contains [OF Cons.prems(1)]
        by (simp add: lz_extend_def code_bits_def)
    qed
  qed
qed

section \<open>The dictionary decoder\<close>

text \<open>
  The standard decoder of the format, with the minimal code size 2: 4 clears the code book, 5 ends,
  every other code stands for an entry, the one being made included. \<open>None\<close> is a corrupt stream.
\<close>

function lzw_decode :: "bool list \<Rightarrow> nat \<Rightarrow> jstr list \<Rightarrow> jstr option \<Rightarrow> jstr option" where
  "lzw_decode bits w D prev =
     (if w = 0 \<or> length bits < w then Some []
      else (let code = horner_sum of_bool 2 (take w bits); rest = drop w bits in
        if code = (5 :: nat) then Some []
        else if code = 4 then lzw_decode rest 3 lzw_base None
        else (case prev of
            None \<Rightarrow> if code < length D then map_option (append (D ! code)) (lzw_decode rest w D (Some (D ! code))) else None
          | Some p \<Rightarrow>
              if length D < code then None
              else (let entry = (if code < length D then D ! code else p @ [hd p]);
                        D' = (if length D < 4096 then D @ [p @ [hd entry]] else D);
                        w' = (if length D' = 2 ^ w \<and> w < 12 then w + 1 else w)
                    in map_option (append entry) (lzw_decode rest w' D' (Some entry))))))"
  by pat_completeness auto
termination by (relation "measure (\<lambda>(bits, w, D, prev). length bits)") auto

declare lzw_decode.simps [simp del]

lemma length_low_bits [simp]: "length (low_bits w n) = n"
  by (simp add: low_bits_def)

lemma low_bits_value:
  assumes "c < 2 ^ w" "w \<le> 12"
  shows "horner_sum of_bool 2 (low_bits (word_of_nat c) w) = c"
proof -
  have "bit (word_of_nat c :: 32 word) i = bit c i" if "i < w" for i
    using that assms(2) by (simp add: bit_of_nat_iff)
  then have "low_bits (word_of_nat c) w = map (bit c) [0..<w]" by (simp add: low_bits_def)
  then show ?thesis using assms(1) by (simp add: horner_sum_bit_eq_take_bit take_bit_nat_eq_self)
qed

lemma decode_code:
  assumes "c < 2 ^ w" "3 \<le> w" "w \<le> 12" "c \<noteq> 4" "c \<noteq> 5"
  shows "lzw_decode (low_bits (word_of_nat c) w @ bits) w D None
      = (if c < length D then map_option (append (D ! c)) (lzw_decode bits w D (Some (D ! c))) else None)"
    "lzw_decode (low_bits (word_of_nat c) w @ bits) w D (Some p)
      = (if length D < c then None
         else (let entry = (if c < length D then D ! c else p @ [hd p]);
                   D' = (if length D < 4096 then D @ [p @ [hd entry]] else D);
                   w' = (if length D' = 2 ^ w \<and> w < 12 then w + 1 else w)
               in map_option (append entry) (lzw_decode bits w' D' (Some entry))))"
  using assms low_bits_value [OF assms(1,3)] by (subst lzw_decode.simps; simp)+

lemma decode_end:
  assumes "3 \<le> b" "b \<le> 12" "w = b \<or> w = b + 1 \<and> b < 12"
  shows "lzw_decode (low_bits (word_of_nat 5) b @ replicate n False) w D prev = Some []"
proof (cases "length (low_bits (word_of_nat 5) b @ replicate n False) < w")
  case True
  then show ?thesis by (subst lzw_decode.simps) simp
next
  case False
  have small: "(5 :: nat) < 2 ^ b" using assms(1) power_increasing [of 3 b "2 :: nat"] by simp
  have "take w (low_bits (word_of_nat 5) b @ replicate n False) = low_bits (word_of_nat 5) w"
  proof (cases "w = b")
    case wide: False
    then have w: "w = Suc b" "n \<noteq> 0" "b < 12" using assms(3) False by auto
    have "\<not> bit (word_of_nat 5 :: 32 word) b" unfolding bit_of_nat_iff using small by (simp add: bit_iff_odd)
    then show ?thesis using w by (cases n) (simp_all add: low_bits_def)
  qed (simp add: low_bits_def)
  moreover have "(5 :: nat) < 2 ^ w" "w \<le> 12" using small assms by auto
  ultimately show ?thesis using False assms(1,3) low_bits_value [of 5 w] by (subst lzw_decode.simps) auto
qed

lemmas decode_stop = decode_end [unfolded of_nat_numeral]

text \<open>
  After the first code the decoder's book is the encoder's without its last entry, which is being
  made; when the encoder's is full the decoder may add one more that is never used.
\<close>

definition synced :: "jstr list \<Rightarrow> jstr \<Rightarrow> jstr list \<Rightarrow> jstr \<Rightarrow> bool" where
  "synced T s D p \<longleftrightarrow> p \<noteq> [] \<and> take (length T) (D @ [p @ [hd s]]) = T \<and> length T \<le> length D + 1
     \<and> (length T < 4095 \<longrightarrow> length T = length D + 1) \<and> length D \<le> 4096"

lemma synced_entry:
  assumes "synced T s D p" "i < length T" "T ! i = s"
  shows "i \<le> length D" "(if i < length D then D ! i else p @ [hd p]) = s"
proof -
  show le: "i \<le> length D" using assms(1,2) by (simp add: synced_def)
  have T: "T ! i = (D @ [p @ [hd s]]) ! i" using assms(1,2) by (metis nth_take synced_def)
  show "(if i < length D then D ! i else p @ [hd p]) = s"
  proof (cases "i < length D")
    case False
    then have "s = p @ [hd s]" using T assms(3) le by (simp add: nth_append)
    moreover have "p \<noteq> []" using assms(1) by (simp add: synced_def)
    ultimately have "hd s = hd p" by (metis hd_append2)
    then show ?thesis using False \<open>s = p @ [hd s]\<close> by simp
  qed (use T assms(3) in \<open>simp add: nth_append\<close>)
qed

lemma synced_grow:
  assumes "synced T s D p" "length T < 4095" "s \<noteq> []"
  shows "synced (T @ [s @ [c]]) [c] (D @ [p @ [hd s]]) s" "D @ [p @ [hd s]] = T"
  using assms by (auto simp: synced_def)

lemma synced_full:
  assumes "synced T s D p" "length T = 4095" "s \<noteq> []"
  defines "D' \<equiv> if length D < 4096 then D @ [p @ [hd s]] else D"
  shows "synced T [c] D' s" "4095 \<le> length D'" "length D' \<le> 4096"
proof -
  have D: "4094 \<le> length D" "length D \<le> 4096" "take 4095 (D @ [p @ [hd s]]) = T" using assms(1,2) by (auto simp: synced_def)
  then show "4095 \<le> length D'" "length D' \<le> 4096" by (auto simp: D'_def)
  moreover have "take 4095 (D' @ xs) = T" for xs using D by (auto simp: D'_def)
  ultimately show "synced T [c] D' s" using assms(2,3) by (auto simp: synced_def)
qed

lemma no_wider: "4095 \<le> (n :: nat) \<Longrightarrow> n \<le> 4096 \<Longrightarrow> \<not> (n = 2 ^ w \<and> w < (12 :: nat))"
proof
  assume n: "4095 \<le> n" "n = 2 ^ w \<and> w < 12"
  then have "n \<le> 2 ^ 11" using power_increasing [of w 11 "2 :: nat"] by simp
  then show False using n(1) by simp
qed

lemma wider_below: "length T < 4095 \<Longrightarrow> length T = 2 ^ b \<Longrightarrow> b < 12"
  using power_increasing [of 12 b "2 :: nat"] by (cases "b < 12") auto

lemma decode_emit:
  assumes "enc_ok T b s" "synced T s D p" "\<forall>c \<in> set rest. c < 4"
  shows "lzw_decode (code_bits (lzw_emit T b s rest) @ replicate n False) b D (Some p) = Some (s @ rest)"
  using assms
proof (induction rest arbitrary: s T b D p)
  case Nil
  let ?i = "entry_index T s"
  have i: "?i < length T" "T ! ?i = s" using Nil(1) entry_index_nth by (auto simp: enc_ok_def)
  note entry = synced_entry [OF Nil(2) i]
  have b: "3 \<le> b" "b \<le> 12" using Nil(1) by (auto simp: enc_ok_def)
  show ?case
    using decode_code(2) [OF entry_code(1) b entry_code(2,3), OF Nil(1) Nil(1) Nil(1)] entry b
    by (simp add: code_bits_def Let_def decode_stop)
next
  case (Cons c rest)
  have c: "c < 4" "\<forall>c \<in> set rest. c < 4" using Cons.prems(3) by auto
  have b: "3 \<le> b" "b \<le> 12" and s: "s \<noteq> []" using Cons.prems(1) by (auto simp: enc_ok_def)
  show ?case
  proof (cases "s @ [c] \<in> set T")
    case True
    then have "enc_ok T b (s @ [c])" using Cons.prems(1) c(1) by (simp add: enc_ok_def)
    moreover have "synced T (s @ [c]) D p" using Cons.prems(2) s by (simp add: synced_def)
    ultimately show ?thesis using Cons.IH [of T b "s @ [c]" D p] c(2) True by simp
  next
    case False
    let ?i = "entry_index T s"
    have i: "?i < length T" "T ! ?i = s" using Cons.prems(1) entry_index_nth by (auto simp: enc_ok_def)
    note entry = synced_entry [OF Cons.prems(2) i]
    note step = decode_code(2) [OF entry_code(1) b entry_code(2,3), OF Cons.prems(1) Cons.prems(1) Cons.prems(1)]
    show ?thesis
    proof (cases "length T < 4095")
      case True
      have D: "length D + 1 = length T" using Cons.prems(2) True by (simp add: synced_def)
      have w: "(if length T = 2 ^ b \<and> b < 12 then b + 1 else b) = (if length T = 2 ^ b then b + 1 else b)"
        using wider_below [OF True] by auto
      show ?thesis
        using Cons.IH [OF enc_ok_extend [OF Cons.prems(1) c(1) False True] synced_grow(1) [OF Cons.prems(2) True s] c(2)]
          step entry False True D w by (simp add: code_bits_def Let_def)
    next
      case full: False
      then have len: "length T = 4095" using Cons.prems(1) by (simp add: enc_ok_def)
      let ?D = "if length D < 4096 then D @ [p @ [hd s]] else D"
      note fill = synced_full [OF Cons.prems(2) len s]
      have e: "enc_ok T b [c]" using Cons.prems(1) c(1) enc_ok_unit by (auto simp: enc_ok_def)
      have w: "(if length ?D = 2 ^ b \<and> b < 12 then b + 1 else b) = b" using no_wider [OF fill(2,3)] by (simp only: if_False)
      have "lzw_decode (low_bits (word_of_nat ?i) b @ code_bits (lzw_emit T b [c] rest) @ replicate n False) b D (Some p)
          = map_option (append s) (lzw_decode (code_bits (lzw_emit T b [c] rest) @ replicate n False) b ?D (Some s))"
        unfolding step Let_def entry(2) w using entry(1) by simp
      then show ?thesis using Cons.IH [OF e fill(1) c(2)] False full by (simp add: code_bits_def)
    qed
  qed
qed

lemma base_ok: "c < 4 \<Longrightarrow> enc_ok lzw_base 3 [c]"
  using unit_in_base [of c] by (simp add: enc_ok_def) (simp add: lzw_base_def)

lemma decode_first:
  assumes "c < 4" "\<forall>c \<in> set rest. c < 4"
  shows "lzw_decode (code_bits (lzw_emit lzw_base 3 [c] rest) @ replicate n False) 3 lzw_base None = Some (c # rest)"
proof -
  note ok = base_ok [OF assms(1)]
  let ?i = "entry_index lzw_base [c]"
  have i: "?i < 6" "lzw_base ! ?i = [c]" "length lzw_base = 6"
    using entry_index_nth [of lzw_base "[c]"] ok by (auto simp: enc_ok_def lzw_base_def)
  note step = decode_code(1) [OF entry_code(1) _ _ entry_code(2,3), OF ok _ _ ok ok, simplified]
  show ?thesis
  proof (cases rest)
    case Nil
    then show ?thesis using step decode_stop [of 3 3] i by (simp add: code_bits_def)
  next
    case (Cons d r)
    have new: "[c, d] \<notin> set lzw_base" by (simp add: lzw_base_def)
    have "synced (lzw_base @ [[c, d]]) [d] lzw_base [c]" using i(3) by (simp add: synced_def)
    moreover have "enc_ok (lzw_base @ [[c, d]]) 3 [d]"
      using enc_ok_extend [OF ok, of d] new assms(2) Cons i(3) by simp
    ultimately have "lzw_decode (code_bits (lzw_emit (lzw_base @ [[c, d]]) 3 [d] r) @ replicate n False) 3 lzw_base (Some [c])
        = Some ([d] @ r)" using decode_emit assms(2) Cons by simp
    then show ?thesis using step i Cons new by (simp add: code_bits_def)
  qed
qed

section \<open>The raster\<close>

definition raster_pixels :: "bytes \<Rightarrow> jstr option" where
  "raster_pixels raster = lzw_decode (bits_of_bytes raster) 3 lzw_base None"

lemma base_table: "\<exists>t. lz_add_all (map (\<lambda>i. [word_of_nat i]) [0..<4] @ [[4], [5]]) lzwTable = Inr t \<and> table_ok t lzw_base"
proof -
  have keys: "map (\<lambda>i. [word_of_nat i]) [0..<4] @ [[4], [5]] = lzw_base" by (simp add: lzw_base_def upt_rec)
  have "table_ok lzwTable []" by (simp add: table_ok_def lzwTable_def)
  then show ?thesis using table_add_all [of lzwTable "[]" lzw_base] unfolding keys by (simp add: lzw_base_def)
qed

lemma decode_clear: "lzw_decode (low_bits 4 3 @ bits) 3 D prev = lzw_decode bits 3 lzw_base None"
  using low_bits_value [of 4 3] by (subst lzw_decode.simps) simp

lemma rbind_assoc: "rbind (rbind r f) g = rbind r (\<lambda>x. rbind (f x) g)"
  by (cases r) simp_all

lemma raster_roundtrip:
  assumes "units \<noteq> []" "\<forall>c \<in> set units. c < 4" "units = map pixel_unit pixels"
  shows "\<exists>raster. getLZWRaster 2 pixels = Inr raster \<and> raster \<noteq> [] \<and> raster_pixels raster = Some units"
proof -
  obtain c rest where u: "units = c # rest" using assms(1) by (cases units) auto
  have c: "c < 4" "\<forall>c \<in> set rest. c < 4" using assms(2) u by auto
  obtain t where t: "lz_add_all (map (\<lambda>i. [word_of_nat i]) [0..<4] @ [[4], [5]]) lzwTable = Inr t" "table_ok t lzw_base"
    using base_table by blast
  have "bitout_ok (bitOutputStream [])" by (simp add: bitout_ok_def bitOutputStream_def)
  from bit_write_bits [OF this, of 4 3]
  obtain o1 where o1: "bit_write 4 3 (bitOutputStream []) = Inr o1" "bitout_ok o1" "stream_bits o1 = low_bits 4 3"
    by (auto simp: stream_bits_def bitOutputStream_def bits_of_bytes_def low_bits_def)
  obtain o2 where o2: "rbind (lzw_loop rest [c] t 3 o1) lzw_finish = Inr o2" "bitout_ok o2"
    "stream_bits o2 = low_bits 4 3 @ code_bits (lzw_emit lzw_base 3 [c] rest)"
    using lzw_loop_emit [OF t(2) base_ok [OF c(1)] o1(2) c(2)] o1(3) by auto
  obtain n where n: "bits_of_bytes (bt_out (bit_flush o2)) = stream_bits o2 @ replicate n False"
    using bit_flush_bits [OF o2(2)] by blast
  have units: "map pixel_unit pixels = c # rest" using assms(3) u by simp
  have "getLZWRaster 2 pixels = rbind (rbind (lzw_loop rest [c] t 3 o1) lzw_finish) (\<lambda>o2. Inr (bt_out (bit_flush o2)))"
    unfolding getLZWRaster_def Let_def units lzw_finish_def using t(1) o1(1) by (simp add: case_prod_unfold rbind_assoc)
  then have "getLZWRaster 2 pixels = Inr (bt_out (bit_flush o2))" using o2(1) by simp
  moreover have "raster_pixels (bt_out (bit_flush o2)) = Some units"
    using decode_first [OF c] by (simp add: raster_pixels_def n o2(3) decode_clear u)
  moreover have "bt_out (bit_flush o2) \<noteq> []" using n o2(3) by (auto simp: bits_of_bytes_def low_bits_def upt_rec)
  ultimately show ?thesis by blast
qed

section \<open>The picture file\<close>

fun unblock :: "bytes \<Rightarrow> (bytes \<times> bytes) option" where
  "unblock [] = None"
| "unblock (n # bs) =
     (if n = 0 then Some ([], bs)
      else if length bs < unat n then None
      else map_option (\<lambda>(x, rest). (take (unat n) bs @ x, rest)) (unblock (drop (unat n) bs)))"

lemma writeBytes_slice:
  "0 < len \<Longrightarrow> off + len \<le> length b \<Longrightarrow> writeBytes b off len out = out @ take len (drop off b)"
  by (auto simp: writeBytes_def add.commute intro!: nth_equalityI)

lemma unblock_chunk:
  "0 < n \<Longrightarrow> n < 256 \<Longrightarrow> length chunk = n \<Longrightarrow>
     unblock (word_of_nat n # chunk @ bs) = map_option (\<lambda>(x, rest). (chunk @ x, rest)) (unblock bs)"
  by (simp add: unat_of_nat_byte_small word_unat_eq_iff)

lemma gif_blocks_read:
  assumes "offset < length raster"
  shows "\<exists>bs. gif_blocks raster offset out = out @ bs \<and> unblock (bs @ 0 # tail) = Some (drop offset raster, tail)"
  using assms
proof (induction raster offset out rule: gif_blocks.induct)
  case (1 raster offset out)
  let ?n = "length raster - offset"
  show ?case
  proof (cases "255 < ?n")
    case True
    then obtain bs where bs: "gif_blocks raster (offset + 255) (writeBytes raster offset 255 (writeByte 255 out))
        = writeBytes raster offset 255 (writeByte 255 out) @ bs" "unblock (bs @ 0 # tail) = Some (drop (offset + 255) raster, tail)"
      using 1 by fastforce
    have "take 255 (drop offset raster) @ drop (offset + 255) raster = drop offset raster"
      by (metis append_take_drop_id add.commute drop_drop)
    then show ?thesis
      using True bs unblock_chunk [of 255 "take 255 (drop offset raster)" "bs @ 0 # tail"]
      by (subst gif_blocks.simps) (simp add: writeBytes_slice writeByte_def)
  next
    case False
    have "ucast (word_of_nat ?n :: 32 word) = (word_of_nat ?n :: byte)"
      by (rule bit_word_eqI) (simp add: bit_of_nat_iff bit_simps del: of_nat_diff)
    then have "gif_blocks raster offset out = out @ word_of_nat ?n # drop offset raster"
      using False 1(2) by (subst gif_blocks.simps) (simp add: writeBytes_slice writeByte_def del: of_nat_diff)
    then show ?thesis
      using unblock_chunk [of ?n "drop offset raster" "0 # tail"] False 1(2) by simp
  qed
qed

definition gif_read :: "bytes \<Rightarrow> (nat \<times> nat \<times> (byte \<times> byte \<times> byte) list) option" where
  "gif_read bs =
     (if length bs < 30 \<or> take 6 bs \<noteq> map ucast (js ''GIF87a'') \<or> bs ! 10 \<noteq> 0x80 \<or> bs ! 19 \<noteq> 0x2c
         \<or> get_u16_le bs 20 \<noteq> 0 \<or> get_u16_le bs 22 \<noteq> 0 \<or> get_u16_le bs 24 \<noteq> get_u16_le bs 6
         \<or> get_u16_le bs 26 \<noteq> get_u16_le bs 8 \<or> bs ! 28 \<noteq> 0 \<or> bs ! 29 \<noteq> 2 then None
      else (case unblock (drop 30 bs) of
          Some (raster, rest) \<Rightarrow>
            (case raster_pixels raster of
               Some units \<Rightarrow>
                 if rest = [0x3b] \<and> length units = get_u16_le bs 6 * get_u16_le bs 8 \<and> list_all (\<lambda>c. c < 2) units
                 then Some (get_u16_le bs 6, get_u16_le bs 8,
                        map (\<lambda>c. (bs ! (13 + 3 * unat c), bs ! (14 + 3 * unat c), bs ! (15 + 3 * unat c))) units)
                 else None
             | None \<Rightarrow> None)
        | None \<Rightarrow> None))"

lemma short_bytes:
  assumes "n < 65536"
  shows "unat (ucast (word_of_nat n :: 32 word) :: byte) + unat (ucast (drop_bit 8 (word_of_nat n :: 32 word)) :: byte) * 256 = n"
proof -
  have n: "unat (word_of_nat n :: 32 word) = n" using assms by (simp add: unat_of_nat)
  have "unat (ucast (word_of_nat n :: 32 word) :: byte) = n mod 256"
    "unat (ucast (drop_bit 8 (word_of_nat n :: 32 word)) :: byte) = n div 256 mod 256"
    by (simp_all only: unsigned_ucast_eq unat_drop_bit_eq n) (simp_all add: take_bit_eq_mod drop_bit_eq_div)
  moreover have "n div 256 mod 256 = n div 256" using assms by (simp add: less_mult_imp_div_less)
  ultimately show ?thesis by simp
qed

lemma header_bytes:
  "gif_header g [] = map ucast (js ''GIF87a'')
     @ [ucast (word_of_nat (gi_width g) :: 32 word), ucast (drop_bit 8 (word_of_nat (gi_width g) :: 32 word)),
        ucast (word_of_nat (gi_height g) :: 32 word), ucast (drop_bit 8 (word_of_nat (gi_height g) :: 32 word)),
        0x80, 0, 0, 0, 0, 0, 0xff, 0xff, 0xff, 0x2c, 0, 0, 0, 0,
        ucast (word_of_nat (gi_width g) :: 32 word), ucast (drop_bit 8 (word_of_nat (gi_width g) :: 32 word)),
        ucast (word_of_nat (gi_height g) :: 32 word), ucast (drop_bit 8 (word_of_nat (gi_height g) :: 32 word)), 0]"
  by (simp add: gif_header_def Let_def writeShort_def writeByte_def writeString_def cu_def)

definition black :: "byte \<times> byte \<times> byte" where "black = (0, 0, 0)"
definition white :: "byte \<times> byte \<times> byte" where "white = (255, 255, 255)"

lemma gif_roundtrip:
  assumes "gi_data g = map (\<lambda>b. Some (if b then 0 else 1)) shade" "shade \<noteq> []" "length shade = gi_width g * gi_height g"
    and "gi_width g < 65536" "gi_height g < 65536"
  shows "\<exists>bs. gif_write g [] = Inr bs
    \<and> gif_read bs = Some (gi_width g, gi_height g, map (\<lambda>b. if b then black else white) shade)"
proof -
  let ?units = "map (\<lambda>b. if b then 0 else 1 :: unit16) shade"
  have units: "?units \<noteq> []" "\<forall>c \<in> set ?units. c < 4" "?units = map pixel_unit (gi_data g)"
    using assms(1,2) by (auto simp: pixel_unit_def)
  obtain raster where r: "getLZWRaster 2 (gi_data g) = Inr raster" "raster \<noteq> []" "raster_pixels raster = Some ?units"
    using raster_roundtrip [OF units] by blast
  obtain bs where bs: "gif_blocks raster 0 (writeByte 2 (gif_header g [])) = writeByte 2 (gif_header g []) @ bs"
    "unblock (bs @ [0, 0x3b]) = Some (raster, [0x3b])"
    using gif_blocks_read [of 0 raster "writeByte 2 (gif_header g [])" "[0x3b]"] r(2) by auto
  have small: "list_all (\<lambda>c. c < 2) ?units" by (auto simp: list_all_iff)
  let ?f = "gif_header g [] @ 2 # bs @ [0, 0x3b]"
  have "gif_write g [] = Inr ?f"
    using r(1) bs(1) by (simp add: gif_write_def writeByte_def writeString_def cu_def)
  moreover have "gif_read ?f = Some (gi_width g, gi_height g, map (\<lambda>b. if b then black else white) shade)"
    using r(3) bs(2) assms(3) short_bytes [OF assms(4)] short_bytes [OF assms(5)] small
    unfolding gif_read_def header_bytes
    by (simp add: get_u16_le_def black_def white_def)
  ultimately show ?thesis by blast
qed

section \<open>The data URL\<close>

definition view_data_url :: "jstr \<Rightarrow> (nat \<times> nat \<times> (byte \<times> byte \<times> byte) list) option" where
  "view_data_url url =
     (let prefix = js ''data:image/gif;base64,'' in
      if take (length prefix) url \<noteq> prefix then None
      else (case atob (drop (length prefix) url) of None \<Rightarrow> None | Some bs \<Rightarrow> gif_read bs))"

lemma set_pixels_cells:
  assumes "\<forall>(y, x) \<in> set ps. x < gi_width g \<and> y * gi_width g + x < length (gi_data g)"
  shows "\<exists>g'. set_pixels (\<lambda>x y. Inr (f x y)) ps g = Inr g' \<and> gi_width g' = gi_width g \<and> gi_height g' = gi_height g
    \<and> length (gi_data g') = length (gi_data g)
    \<and> (\<forall>y x. x < gi_width g \<longrightarrow> y * gi_width g + x < length (gi_data g) \<longrightarrow>
         gi_data g' ! (y * gi_width g + x) = (if (y, x) \<in> set ps then Some (f x y) else gi_data g ! (y * gi_width g + x)))"
  using assms
proof (induction ps arbitrary: g)
  case (Cons p ps)
  obtain y x where p: "p = (y, x)" by fastforce
  let ?g = "setPixel x y (f x y) g"
  have g: "gi_width ?g = gi_width g" "gi_height ?g = gi_height g" "gi_data ?g = (gi_data g)[y * gi_width g + x := Some (f x y)]"
    using Cons.prems p by (auto simp: setPixel_def put_cell_def)
  have eq: "y' * gi_width g + x' = y * gi_width g + x \<longleftrightarrow> y' = y \<and> x' = x" if "x' < gi_width g" for x' y'
  proof
    assume h: "y' * gi_width g + x' = y * gi_width g + x"
    have "x < gi_width g" using Cons.prems p by auto
    then have "x' = x" using that arg_cong [OF h, of "\<lambda>n. n mod gi_width g"] by simp
    then show "y' = y \<and> x' = x" using h that by simp
  qed simp
  obtain g' where g': "set_pixels (\<lambda>x y. Inr (f x y)) ps ?g = Inr g'" "gi_width g' = gi_width g" "gi_height g' = gi_height g"
    "length (gi_data g') = length (gi_data g)"
    "\<forall>y x. x < gi_width g \<longrightarrow> y * gi_width g + x < length (gi_data g) \<longrightarrow>
         gi_data g' ! (y * gi_width g + x) = (if (y, x) \<in> set ps then Some (f x y) else gi_data ?g ! (y * gi_width g + x))"
    using Cons.IH [of ?g] Cons.prems g by auto
  moreover have "gi_data ?g ! (y' * gi_width g + x') = (if (y', x') = (y, x) then Some (f x y) else gi_data g ! (y' * gi_width g + x'))"
    if "x' < gi_width g" "y' * gi_width g + x' < length (gi_data g)" for y' x'
    using that eq [of x' y'] unfolding g(3) by (cases "y' = y \<and> x' = x") auto
  ultimately show ?case by (intro exI [of _ g']) (auto simp: p)
qed simp

lemma set_pixels_all:
  fixes f :: "nat \<Rightarrow> nat \<Rightarrow> nat"
  shows "\<exists>g. set_pixels (\<lambda>x y. Inr (f x y)) (List.product [0..<h] [0..<w]) (gifImage w h) = Inr g
    \<and> gi_width g = w \<and> gi_height g = h \<and> gi_data g = map (\<lambda>i. Some (f (i mod w) (i div w))) [0..<w * h]"
proof -
  have "y * w + x < w * h" if "y < h" "x < w" for x y
    using that mult_le_mono2 [of "Suc y" h w] by (simp add: algebra_simps)
  then obtain g where g: "set_pixels (\<lambda>x y. Inr (f x y)) (List.product [0..<h] [0..<w]) (gifImage w h) = Inr g"
    "gi_width g = w" "gi_height g = h" "length (gi_data g) = w * h"
    "\<forall>y x. x < w \<longrightarrow> y * w + x < w * h \<longrightarrow>
       gi_data g ! (y * w + x) = (if (y, x) \<in> set (List.product [0..<h] [0..<w]) then Some (f x y) else None)"
    using set_pixels_cells [of "List.product [0..<h] [0..<w]" "gifImage w h" f] by (auto simp: gifImage_def)
  have "gi_data g ! i = Some (f (i mod w) (i div w))" if i: "i < w * h" for i
  proof -
    have "0 < w" using i by (cases w) auto
    then have "i mod w < w" "i div w < h" "i div w * w + i mod w = i" using i by (simp_all add: less_mult_imp_div_less mult.commute)
    then show ?thesis using g(5) i by (metis (no_types, lifting) atLeast_upt lessThan_iff mem_Sigma_iff set_product)
  qed
  then show ?thesis using g(1-4) by (intro exI [of _ g]) (auto intro: nth_equalityI)
qed

lemma data_url_roundtrip:
  assumes "0 < w" "0 < h" "w < 65536" "h < 65536"
  shows "\<exists>url. createDataURL w h (\<lambda>x y. Inr (if f x y then 0 else 1)) = Inr url
    \<and> view_data_url url = Some (w, h, map (\<lambda>i. if f (i mod w) (i div w) then black else white) [0..<w * h])"
proof -
  let ?shade = "map (\<lambda>i. f (i mod w) (i div w)) [0..<w * h]"
  obtain g where g: "set_pixels (\<lambda>x y. Inr (if f x y then 0 else 1)) (List.product [0..<h] [0..<w]) (gifImage w h) = Inr g"
    "gi_width g = w" "gi_height g = h" "gi_data g = map (\<lambda>b. Some (if b then 0 else 1)) ?shade"
    using set_pixels_all [of "\<lambda>x y. if f x y then 0 else 1" h w] by (auto simp: comp_def)
  have "?shade \<noteq> []" "length ?shade = gi_width g * gi_height g" "gi_width g < 65536" "gi_height g < 65536"
    using assms g(2,3) by simp_all
  then obtain bs where bs: "gif_write g [] = Inr bs"
    "gif_read bs = Some (w, h, map (\<lambda>b. if b then black else white) ?shade)"
    using gif_roundtrip [OF g(4)] g(2,3) by auto
  obtain s where s: "rbind (b64_writeBytes bs base64EncodeOutputStream) b64_flush = Inr s" "bo_base64 s = base64 bs"
    using base64_stream [of base64EncodeOutputStream bs] by (auto simp: base64EncodeOutputStream_def)
  then obtain s1 where s1: "b64_writeBytes bs base64EncodeOutputStream = Inr s1" "b64_flush s1 = Inr s"
    by (auto simp: rbind_eq_Inr_iff)
  have "createDataURL w h (\<lambda>x y. Inr (if f x y then 0 else 1)) = Inr (js ''data:image/gif;base64,'' @ base64 bs)"
    unfolding createDataURL_def g(1) using bs(1) s1 s(2) by (simp add: stream_result_def)
  moreover have "view_data_url (js ''data:image/gif;base64,'' @ base64 bs) = gif_read bs"
    by (simp add: view_data_url_def atob_base64 Let_def)
  ultimately show ?thesis using bs(2) by (simp add: comp_def)
qed

text \<open>The module under a pixel, the margin being light.\<close>

definition module_dark :: "nat \<Rightarrow> nat \<Rightarrow> qr \<Rightarrow> nat \<Rightarrow> nat \<Rightarrow> bool" where
  "module_dark cell margin q x y \<longleftrightarrow>
     margin \<le> x \<and> x < margin + q_moduleCount q * cell \<and> margin \<le> y \<and> y < margin + q_moduleCount q * cell
     \<and> module_at (q_modules q) ((y - margin) div cell) ((x - margin) div cell) = Some True"

lemma pixel_dark_eq:
  assumes "0 < cell"
  shows "pixel_dark cell margin (picture_size cell margin q) q (int x) (int y) = Inr (module_dark cell margin q x y)"
proof -
  have lim: "int a < int margin + int (q_moduleCount q) * int cell \<longleftrightarrow> a < margin + q_moduleCount q * cell" for a
    by (metis of_nat_add of_nat_mult of_nat_less_iff)
  show ?thesis
  proof (cases "margin \<le> x \<and> x < margin + q_moduleCount q * cell \<and> margin \<le> y \<and> y < margin + q_moduleCount q * cell")
    case True
    then have "(x - margin) div cell < q_moduleCount q" "(y - margin) div cell < q_moduleCount q"
      using assms by (auto intro!: less_mult_imp_div_less)
    moreover have "(int x - int margin) div int cell = int ((x - margin) div cell)"
      "(int y - int margin) div int cell = int ((y - margin) div cell)"
      using True by (simp_all add: of_nat_diff zdiv_int)
    ultimately show ?thesis
      using True by (simp add: pixel_dark_def picture_size_def Let_def isDark_def qr_result_def module_dark_def lim)
  qed (auto simp: pixel_dark_def picture_size_def Let_def module_dark_def lim)
qed

lemma picture_drawn:
  assumes "cell = cell_size cellSize 2" "m = margin_of margin (cell * 4)" "n = picture_size cell m q" "0 < n" "n < 65536"
  shows "\<exists>url. qr_createDataURL cellSize margin q = Inr url
    \<and> view_data_url url = Some (n, n, map (\<lambda>i. if module_dark cell m q (i mod n) (i div n) then black else white) [0..<n * n])"
proof -
  have "0 < cell" using assms(1) by (simp add: cell_size_def split: option.splits)
  then have "qr_createDataURL cellSize margin q = createDataURL n n (\<lambda>x y. Inr (if module_dark cell m q x y then 0 else 1))"
    using assms(1-3) by (simp add: qr_createDataURL_def Let_def pixel_dark_eq if_distrib cong: if_cong)
  then show ?thesis using data_url_roundtrip [OF assms(4,4,5,5)] by simp
qed

text \<open>
  C15. The picture shows the symbol: for every cell size and margin up to the 65535 pixels the format
  allows, no code of the dictionary coder overflows its width, the data URL is made, and what a
  viewer decodes from it - base64, blocks, dictionary, palette - is black at a pixel exactly if
  the module under it is dark, and white elsewhere.
\<close>

theorem picture_shows_symbol:
  assumes "cell = cell_size cellSize 2" "m = margin_of margin (cell * 4)" "n = picture_size cell m q" "0 < n" "n < 65536"
  shows "\<exists>url. qr_createDataURL cellSize margin q = Inr url
    \<and> view_data_url url = Some (n, n, map (\<lambda>i. if module_dark cell m q (i mod n) (i div n) then black else white) [0..<n * n])"
  using assms by (rule picture_drawn)

definition sample_symbol :: qr where
  "sample_symbol = (qrcode 1 LevelL)\<lparr>q_modules := [[Some True, Some False], [None, Some True]], q_moduleCount := 2\<rparr>"

lemma picture_shows_symbol_witness:
  "\<exists>url pic. qr_createDataURL (Some 1) (Some 1) sample_symbol = Inr url
     \<and> view_data_url url = Some (4, 4, pic) \<and> pic ! 5 = black \<and> pic ! 6 = white \<and> pic ! 10 = black"
proof -
  let ?pic = "map (\<lambda>i. if module_dark 1 1 sample_symbol (i mod 4) (i div 4) then black else white) [0..<4 * 4]"
  have "1 = cell_size (Some 1) 2" "1 = margin_of (Some 1) (1 * 4)" "4 = picture_size 1 1 sample_symbol"
    by (simp_all add: cell_size_def margin_of_def picture_size_def sample_symbol_def)
  from picture_shows_symbol [OF this]
  obtain url where "qr_createDataURL (Some 1) (Some 1) sample_symbol = Inr url" "view_data_url url = Some (4, 4, ?pic)"
    by (elim meta_impE) (rule zero_less_numeral, simp only: numeral_less_iff semiring_norm, blast)
  moreover have "module_dark 1 1 sample_symbol 1 1" "\<not> module_dark 1 1 sample_symbol 2 1" "module_dark 1 1 sample_symbol 2 2"
    by (simp_all add: module_dark_def sample_symbol_def module_at_def)
  then have "?pic ! 5 = black \<and> ?pic ! 6 = white \<and> ?pic ! 10 = black" by simp
  ultimately show ?thesis by blast
qed

end
