(* ===== verification/QrPicture.thy ===== *)
theory QrPicture
  imports QrScan QrImageCorrect
begin

text \<open>
  From text to picture and back: a reader that decodes the data URL, samples one pixel per module
  and scans the modules finds the data that were added.
\<close>

definition sampled :: "nat \<Rightarrow> nat \<Rightarrow> nat \<Rightarrow> nat \<Rightarrow> (byte \<times> byte \<times> byte) list \<Rightarrow> modules" where
  "sampled cell m w n pic = map (\<lambda>r. map (\<lambda>c. Some (pic ! ((m + r * cell) * w + (m + c * cell)) = black)) [0..<n]) [0..<n]"

lemma sampled_modules:
  assumes "0 < cell" "n = q_moduleCount q" "w = picture_size cell m q" "square n (q_modules q)"
    and "\<forall>r < n. \<forall>c < n. module_at (q_modules q) r c \<noteq> None"
  shows "sampled cell m w n (map (\<lambda>i. if module_dark cell m q (i mod w) (i div w) then black else white) [0..<w * w]) = q_modules q"
proof -
  have inside: "m + k * cell < m + n * cell" if "k < n" for k using that assms(1) by simp
  have pixel: "map (\<lambda>i. if module_dark cell m q (i mod w) (i div w) then black else white) [0..<w * w] ! ((m + r * cell) * w + (m + c * cell))
      = (if module_at (q_modules q) r c = Some True then black else white)" if rc: "r < n" "c < n" for r c
  proof -
    have lim: "m + r * cell < w" "m + c * cell < w"
      using inside [OF rc(1)] inside [OF rc(2)] unfolding assms(3) picture_size_def assms(2) by linarith+
    then have "(m + r * cell) * w + (m + c * cell) < w * w"
      using mult_le_mono1 [of "Suc (m + r * cell)" w w] by (simp add: algebra_simps)
    moreover have "((m + r * cell) * w + (m + c * cell)) mod w = m + c * cell" "((m + r * cell) * w + (m + c * cell)) div w = m + r * cell"
      using lim by simp_all
    moreover have "module_dark cell m q (m + c * cell) (m + r * cell) \<longleftrightarrow> module_at (q_modules q) r c = Some True"
      using inside [OF rc(1)] inside [OF rc(2)] assms(1,2) by (simp add: module_dark_def)
    ultimately show ?thesis by simp
  qed
  have "black \<noteq> white" by (simp add: black_def white_def)
  have "sampled cell m w n (map (\<lambda>i. if module_dark cell m q (i mod w) (i div w) then black else white) [0..<w * w]) ! r ! c
      = q_modules q ! r ! c" if rc: "r < n" "c < n" for r c
  proof -
    obtain v where "q_modules q ! r ! c = Some v" using assms(5) rc by (auto simp: module_at_def)
    then show ?thesis using pixel [OF rc] rc \<open>black \<noteq> white\<close> by (cases v) (auto simp: sampled_def module_at_def)
  qed
  moreover have "length (q_modules q) = n" "\<forall>r < n. length (q_modules q ! r) = n" using assms(4) by (auto simp: square_def)
  ultimately show ?thesis by (intro nth_equalityI) (auto simp: sampled_def)
qed

text \<open>
  C3. What is added is what is read from the screen: whenever \<open>make\<close> succeeds and the picture is
  not wider than the format allows, decoding the data URL, sampling one pixel per module and
  scanning the modules gives exactly the segments of data that were added.
\<close>

theorem picture_scans:
  assumes "qr_make q = Inr q'" "q_dataCache q = None" "list_all readable (q_dataList q)"
    and "cell = cell_size cellSize 2" "m = margin_of margin (cell * 4)" "w = picture_size cell m q'" "w < 65536"
  shows "\<exists>url pic. qr_createDataURL cellSize margin q' = Inr url \<and> view_data_url url = Some (w, w, pic)
    \<and> scan (sampled cell m w (q_moduleCount q') pic) = Some (q_dataList q)"
proof -
  obtain t dat p where r: "1 \<le> t" "t \<le> 40" "createData t (q_level q) (q_dataList q) = Inr dat" "p < 8"
    and q': "q' = drawn (sized q t) dat (symbol t (q_level q) False dat p)"
    using qr_make_result [OF assms(1,2)] by (auto simp: first_least_def)
  obtain pos where pos: "getPatternPosition t = Some pos" using getPatternPosition_exists r(1,2) by blast
  obtain f where f: "getMaskFunction p = Inr f" using mask_exists r(4) by blast
  note placed = symbol_placed(1,2) [OF pos f refl, of "q_level q" False dat]
  have n: "q_moduleCount q' = t * 4 + 17" and mods: "q_modules q' = symbol t (q_level q) False dat p" by (simp_all add: q')
  have cell: "0 < cell" using assms(4) by (simp add: cell_size_def split: option.splits)
  then have w: "0 < w" using assms(6) n by (simp add: picture_size_def)
  let ?pic = "map (\<lambda>i. if module_dark cell m q' (i mod w) (i div w) then black else white) [0..<w * w]"
  have "sampled cell m w (q_moduleCount q') ?pic = q_modules q'"
    using placed by (intro sampled_modules [OF cell refl assms(6)]) (simp_all add: n mods)
  moreover have "scan (q_modules q') = Some (q_dataList q)"
    using scan_symbol [OF r(1,2,4,3) assms(3)] mods by simp
  ultimately show ?thesis using picture_drawn [OF assms(4-6) w assms(7)] by (metis (no_types, lifting))
qed

lemma picture_scans_witness:
  "\<exists>q' url w pic. qr_make sample_qr = Inr q' \<and> qr_createDataURL None None q' = Inr url \<and> view_data_url url = Some (w, w, pic)
     \<and> scan (sampled 2 8 w (q_moduleCount q') pic) = Some [Qr8BitByte [104, 105]]"
proof -
  obtain q' where q': "qr_make sample_qr = Inr q'" using sample_made by blast
  obtain t dat p where "t \<le> 40" "q' = drawn (sized sample_qr t) dat (symbol t LevelM False dat p)"
    using qr_make_result [OF q'] by auto
  then have small: "picture_size 2 8 q' < 65536" by (simp add: picture_size_def)
  have d: "2 = cell_size None 2" "8 = margin_of None (2 * 4)" by (simp_all add: cell_size_def margin_of_def)
  have "list_all readable (q_dataList sample_qr)" by simp
  from picture_scans [OF q' _ this d refl small] show ?thesis using q' by auto
qed

end
