(* ===== verification/QrRender.thy ===== *)
theory QrRender
  imports QrImage
begin

text \<open>
  The other renderings of \<open>extension/lib/qrcode.js\<close>: SVG, table, image tag, text and canvas. The
  markup is built as strings, unit by unit as in the source; the canvas is the list of the
  rectangles it was asked to fill.
\<close>

definition decimal :: "nat \<Rightarrow> jstr" where
  "decimal n = to_radix 10 n"

section \<open>escapeXml\<close>

definition escape_unit :: "unit16 \<Rightarrow> jstr" where
  "escape_unit c =
     (if c = cu CHR ''<'' then js ''&lt;''
      else if c = cu CHR ''>'' then js ''&gt;''
      else if c = cu CHR ''&'' then js ''&amp;''
      else if c = cu (CHR 0x22) then js ''&quot;''
      else [c])"

definition escapeXml :: "jstr \<Rightarrow> jstr" where
  "escapeXml s = concat (map escape_unit s)"

abbreviation dq :: jstr where
  "dq \<equiv> [cu (CHR 0x22)]"

definition attr :: "string \<Rightarrow> jstr \<Rightarrow> jstr" where
  "attr name v = js name @ js ''='' @ dq @ v @ dq"

section \<open>createTableTag\<close>

text \<open>Whether a module of the symbol is dark; inside the symbol \<open>isDark\<close> does not throw.\<close>

definition cell_dark :: "qr \<Rightarrow> nat \<Rightarrow> nat \<Rightarrow> image_error + bool" where
  "cell_dark q r c = rbind (qr_result (isDark (int r) (int c) q)) (\<lambda>d. Inr (d = Some True))"

definition html_cell :: "nat \<Rightarrow> bool \<Rightarrow> jstr" where
  "html_cell cellSize shade =
     js ''<td '' @ attr ''style'' (js '' border-width: 0px; border-style: none; border-collapse: collapse; padding: 0px; margin: 0px; width: ''
       @ decimal cellSize @ js ''px; height: '' @ decimal cellSize @ js ''px; background-color: ''
       @ (if shade then js ''#000000'' else js ''#ffffff'') @ js '';'') @ js ''/>''"

definition html_row :: "nat \<Rightarrow> qr \<Rightarrow> nat \<Rightarrow> image_error + jstr" where
  "html_row cellSize q r =
     rbind (map_result (\<lambda>c. rbind (cell_dark q r c) (\<lambda>d. Inr (html_cell cellSize d))) [0..<q_moduleCount q])
       (\<lambda>cells. Inr (js ''<tr>'' @ concat cells @ js ''</tr>''))"

definition createTableTag :: "nat option \<Rightarrow> nat option \<Rightarrow> qr \<Rightarrow> image_error + jstr" where
  "createTableTag cellSize margin q =
     (let cellSize = cell_size cellSize 2; margin = margin_of margin (cellSize * 4) in
      rbind (map_result (html_row cellSize q) [0..<q_moduleCount q]) (\<lambda>rows.
        Inr (js ''<table '' @ attr ''style'' (js '' border-width: 0px; border-style: none; border-collapse: collapse; padding: 0px; margin: ''
               @ decimal margin @ js ''px;'') @ js ''><tbody>'' @ concat rows @ js ''</tbody></table>'')))"

section \<open>createSvgTag\<close>

text \<open>A text with its id; the empty string is falsy like an absent one.\<close>

record svg_text =
  sv_text :: "jstr option"
  sv_id :: "jstr option"

definition given_text :: "jstr option \<Rightarrow> jstr option" where
  "given_text s = (case s of None \<Rightarrow> None | Some t \<Rightarrow> if t = [] then None else Some t)"

definition svg_prop :: "jstr \<Rightarrow> svg_text \<Rightarrow> svg_text" where
  "svg_prop default_id t =
     (case given_text (sv_text t) of
        None \<Rightarrow> \<lparr>sv_text = None, sv_id = None\<rparr>
      | Some s \<Rightarrow> \<lparr>sv_text = Some s, sv_id = Some (case given_text (sv_id t) of None \<Rightarrow> default_id | Some i \<Rightarrow> i)\<rparr>)"

definition or_empty :: "jstr option \<Rightarrow> jstr" where
  "or_empty s = (case s of None \<Rightarrow> [] | Some t \<Rightarrow> t)"

definition svg_element :: "string \<Rightarrow> svg_text \<Rightarrow> jstr" where
  "svg_element name t =
     (case sv_text t of
        None \<Rightarrow> []
      | Some s \<Rightarrow> js ''<'' @ js name @ js '' '' @ attr ''id'' (escapeXml (or_empty (sv_id t))) @ js ''>'' @ escapeXml s
          @ js ''</'' @ js name @ js ''>'')"

definition svg_rect :: "nat \<Rightarrow> jstr" where
  "svg_rect cellSize = js ''l'' @ decimal cellSize @ js '',0 0,'' @ decimal cellSize @ js '' -'' @ decimal cellSize @ js '',0 0,-'' @ decimal cellSize @ js ''z ''"

definition svg_module :: "nat \<Rightarrow> nat \<Rightarrow> qr \<Rightarrow> nat \<times> nat \<Rightarrow> image_error + jstr" where
  "svg_module cellSize margin q p = (case p of (r, c) \<Rightarrow>
     rbind (cell_dark q r c) (\<lambda>d. Inr (if d
       then js ''M'' @ decimal (c * cellSize + margin) @ js '','' @ decimal (r * cellSize + margin) @ svg_rect cellSize else [])))"

definition svg_head :: "bool \<Rightarrow> nat \<Rightarrow> svg_text \<Rightarrow> svg_text \<Rightarrow> jstr" where
  "svg_head scalable extent title alt =
     js ''<svg '' @ attr ''version'' (js ''1.1'') @ js '' '' @ attr ''xmlns'' (js ''http://www.w3.org/2000/svg'')
     @ (if scalable then [] else js '' '' @ attr ''width'' (decimal extent @ js ''px'') @ js '' '' @ attr ''height'' (decimal extent @ js ''px''))
     @ js '' '' @ attr ''viewBox'' (js ''0 0 '' @ decimal extent @ js '' '' @ decimal extent) @ js ''  '' @ attr ''preserveAspectRatio'' (js ''xMinYMin meet'')
     @ (if sv_text title \<noteq> None \<or> sv_text alt \<noteq> None
        then js '' '' @ attr ''role'' (js ''img'') @ js '' ''
          @ attr ''aria-labelledby'' (escapeXml (trim (or_empty (sv_id title) @ js '' '' @ or_empty (sv_id alt)))) else [])
     @ js ''>''"

definition createSvgTag :: "bool \<Rightarrow> nat option \<Rightarrow> nat option \<Rightarrow> svg_text \<Rightarrow> svg_text \<Rightarrow> qr \<Rightarrow> image_error + jstr" where
  "createSvgTag scalable cellSize margin alt title q =
     (let cellSize = cell_size cellSize 2; margin = margin_of margin (cellSize * 4);
          alt = svg_prop (js ''qrcode-description'') alt; title = svg_prop (js ''qrcode-title'') title;
          n = q_moduleCount q in
      rbind (map_result (svg_module cellSize margin q) (List.product [0..<n] [0..<n])) (\<lambda>path.
        Inr (svg_head scalable (picture_size cellSize margin q) title alt
          @ svg_element ''title'' title @ svg_element ''description'' alt
          @ js ''<rect '' @ attr ''width'' (js ''100%'') @ js '' '' @ attr ''height'' (js ''100%'') @ js '' '' @ attr ''fill'' (js ''white'')
          @ js '' '' @ attr ''cx'' (js ''0'') @ js '' '' @ attr ''cy'' (js ''0'') @ js ''/>''
          @ js ''<path '' @ attr ''d'' (concat path) @ js '' '' @ attr ''stroke'' (js ''transparent'') @ js '' '' @ attr ''fill'' (js ''black'')
          @ js ''/></svg>'')))"

section \<open>createImgTag\<close>

definition createImgTag :: "nat option \<Rightarrow> nat option \<Rightarrow> jstr option \<Rightarrow> qr \<Rightarrow> image_error + jstr" where
  "createImgTag cellSize margin alt q =
     (let cellSize = cell_size cellSize 2; margin = margin_of margin (cellSize * 4); extent = picture_size cellSize margin q in
      rbind (qr_createDataURL (Some cellSize) (Some margin) q) (\<lambda>url.
        Inr (js ''<img '' @ attr ''src'' url @ js '' '' @ attr ''width'' (decimal extent) @ js '' '' @ attr ''height'' (decimal extent)
          @ (case given_text alt of None \<Rightarrow> [] | Some s \<Rightarrow> js '' '' @ attr ''alt'' (escapeXml s)) @ js ''/>'')))"

section \<open>createASCII\<close>

definition FULL :: unit16 where "FULL = 0x2588"
definition UPPER :: unit16 where "UPPER = 0x2580"
definition LOWER :: unit16 where "LOWER = 0x2584"

definition SPACE :: unit16 where "SPACE = cu CHR '' ''"
definition NEWLINE :: unit16 where "NEWLINE = 10"

text \<open>A light module is drawn as a block: the text is meant for a dark terminal.\<close>

definition half_block :: "bool \<Rightarrow> bool \<Rightarrow> unit16" where
  "half_block upper_dark lower_dark =
     (if upper_dark then (if lower_dark then SPACE else LOWER) else (if lower_dark then UPPER else FULL))"

definition half_block_last :: "bool \<Rightarrow> unit16" where
  "half_block_last upper_dark = (if upper_dark then SPACE else UPPER)"

definition half_row :: "nat \<Rightarrow> nat \<Rightarrow> qr \<Rightarrow> nat \<Rightarrow> image_error + jstr" where
  "half_row margin extent q y =
     map_result (\<lambda>x.
       rbind (pixel_dark 1 margin extent q (int x) (int y)) (\<lambda>upper.
       rbind (pixel_dark 1 margin extent q (int x) (int y + 1)) (\<lambda>lower.
         Inr (if margin < 1 \<and> int extent - int margin \<le> int y + 1 then half_block_last upper else half_block upper lower)))) [0..<extent]"

definition createHalfASCII :: "nat option \<Rightarrow> qr \<Rightarrow> image_error + jstr" where
  "createHalfASCII margin q =
     (let margin = margin_of margin 2; extent = picture_size 1 margin q in
      rbind (map_result (half_row margin extent q) (map (\<lambda>k. 2 * k) [0..<(extent + 1) div 2])) (\<lambda>rows.
        let ascii = concat (map (\<lambda>row. row @ [NEWLINE]) rows) in
        if odd extent \<and> 0 < margin then Inr (take (length ascii - extent - 1) ascii @ replicate extent UPPER)
        else Inr (take (length ascii - 1) ascii)))"

definition ascii_line :: "nat \<Rightarrow> nat \<Rightarrow> nat \<Rightarrow> qr \<Rightarrow> nat \<Rightarrow> image_error + jstr" where
  "ascii_line cell margin extent q y =
     rbind (map_result (\<lambda>x. pixel_dark cell margin extent q (int x) (int y)) [0..<extent]) (\<lambda>ds.
       Inr (concat (map (\<lambda>d. replicate (2 * cell) (if d then SPACE else FULL)) ds)))"

definition createASCII :: "nat option \<Rightarrow> nat option \<Rightarrow> qr \<Rightarrow> image_error + jstr" where
  "createASCII cellSize margin q =
     (let cellSize = cell_size cellSize 1 in
      if cellSize < 2 then createHalfASCII margin q
      else (let cell = cellSize - 1; margin = margin_of margin (cell * 2); extent = picture_size cell margin q in
        rbind (map_result (ascii_line cell margin extent q) [0..<extent]) (\<lambda>lines.
          let ascii = concat (map (\<lambda>line. concat (replicate cell (line @ [NEWLINE]))) lines)
          in Inr (take (length ascii - 1) ascii))))"

section \<open>renderTo2dContext\<close>

record fill_rect =
  fr_dark :: bool
  fr_x :: nat
  fr_y :: nat
  fr_side :: nat

definition renderTo2dContext :: "nat option \<Rightarrow> qr \<Rightarrow> image_error + fill_rect list" where
  "renderTo2dContext cellSize q =
     (let cellSize = cell_size cellSize 2; n = q_moduleCount q in
      map_result (\<lambda>(row, col). rbind (cell_dark q row col) (\<lambda>d.
        Inr \<lparr>fr_dark = d, fr_x = col * cellSize, fr_y = row * cellSize, fr_side = cellSize\<rparr>)) (List.product [0..<n] [0..<n]))"

end
