(* ===== verification/QrRenderCorrect.thy ===== *)
theory QrRenderCorrect
  imports QrRender QrImageCorrect
begin

text \<open>
  The other renderings: escaped text cannot leave its attribute and is read back, the canvas ends
  up showing the symbol, and so does the text drawing, two rows of modules to a line.
\<close>

section \<open>Escaping\<close>

text \<open>A reader of the four references \<open>escapeXml\<close> makes.\<close>

fun unescape :: "nat \<Rightarrow> jstr \<Rightarrow> jstr" where
  "unescape 0 s = []"
| "unescape (Suc fuel) [] = []"
| "unescape (Suc fuel) (c # s) =
     (if take 4 (c # s) = js ''&lt;'' then cu CHR ''<'' # unescape fuel (drop 4 (c # s))
      else if take 4 (c # s) = js ''&gt;'' then cu CHR ''>'' # unescape fuel (drop 4 (c # s))
      else if take 5 (c # s) = js ''&amp;'' then cu CHR ''&'' # unescape fuel (drop 5 (c # s))
      else if take 6 (c # s) = js ''&quot;'' then cu (CHR 0x22) # unescape fuel (drop 6 (c # s))
      else c # unescape fuel s)"

lemma unescape_unit: "unescape (Suc fuel) (escape_unit c @ s) = c # unescape fuel s"
  by (auto simp: escape_unit_def cu_def)

lemma unescape_escape: "length s < fuel \<Longrightarrow> unescape fuel (escapeXml s) = s"
proof (induction s arbitrary: fuel)
  case Nil
  then show ?case by (cases fuel) (simp_all add: escapeXml_def)
next
  case (Cons c s)
  then obtain f where "fuel = Suc f" "length s < f" by (cases fuel) auto
  then show ?case using Cons.IH unescape_unit [of f c "escapeXml s"] by (simp add: escapeXml_def)
qed

lemma escape_units: "c \<in> set (escapeXml s) \<Longrightarrow> c \<noteq> cu CHR ''<'' \<and> c \<noteq> cu CHR ''>'' \<and> c \<noteq> cu (CHR 0x22)"
  by (auto simp: escapeXml_def escape_unit_def cu_def split: if_splits)

text \<open>
  Escaped text stays inside its attribute: \<open>escapeXml\<close> leaves no angle bracket and no
  quotation mark, and resolving its references gives the text back.
\<close>

theorem escape_safe:
  "set (escapeXml s) \<inter> {cu CHR ''<'', cu CHR ''>'', cu (CHR 0x22)} = {} \<and> unescape (length s + 1) (escapeXml s) = s"
  using escape_units [of _ s] unescape_escape [of s "length s + 1"] by auto

section \<open>The canvas\<close>

text \<open>What the canvas shows after the rectangles were filled one after the other.\<close>

definition paint :: "fill_rect \<Rightarrow> (nat \<Rightarrow> nat \<Rightarrow> bool option) \<Rightarrow> nat \<Rightarrow> nat \<Rightarrow> bool option" where
  "paint r canvas x y =
     (if fr_x r \<le> x \<and> x < fr_x r + fr_side r \<and> fr_y r \<le> y \<and> y < fr_y r + fr_side r then Some (fr_dark r) else canvas x y)"

lemma cell_dark_eq: "r < q_moduleCount q \<Longrightarrow> c < q_moduleCount q \<Longrightarrow> cell_dark q r c = Inr (module_at (q_modules q) r c = Some True)"
  by (simp add: cell_dark_def isDark_def qr_result_def)

lemma in_cell: "0 < k \<Longrightarrow> c * k \<le> (x :: nat) \<and> x < c * k + k \<longleftrightarrow> x div k = c"
  by (metis add.commute div_nat_eqI dividend_less_div_times mult.commute mult_Suc div_times_less_eq_dividend)

lemma paint_all:
  assumes "0 < k"
  shows "fold paint (map (\<lambda>(r, c). \<lparr>fr_dark = f r c, fr_x = c * k, fr_y = r * k, fr_side = k\<rparr>) ps) canvas x y
    = (if (y div k, x div k) \<in> set ps then Some (f (y div k) (x div k)) else canvas x y)"
proof (induction ps arbitrary: canvas)
  case (Cons p ps)
  obtain r c where p: "p = (r, c)" by fastforce
  have "paint \<lparr>fr_dark = f r c, fr_x = c * k, fr_y = r * k, fr_side = k\<rparr> canvas x y
      = (if (y div k, x div k) = (r, c) then Some (f r c) else canvas x y)"
    using in_cell [OF assms, of c x] in_cell [OF assms, of r y] by (auto simp: paint_def)
  then show ?case using Cons.IH by (auto simp: p)
qed simp

text \<open>
  The canvas shows the symbol: \<open>renderTo2dContext\<close> fills every pixel of the square of the
  symbol, dark exactly over dark modules, and no pixel outside.
\<close>

theorem canvas_shows_symbol:
  "\<exists>rects. renderTo2dContext cellSize q = Inr rects
     \<and> fold paint rects (\<lambda>x y. None) x y
       = (let k = cell_size cellSize 2; n = q_moduleCount q in
          if x div k < n \<and> y div k < n then Some (module_at (q_modules q) (y div k) (x div k) = Some True) else None)"
proof -
  let ?k = "cell_size cellSize 2" and ?n = "q_moduleCount q"
  let ?f = "\<lambda>r c. module_at (q_modules q) r c = Some True"
  have k: "0 < ?k" by (simp add: cell_size_def split: option.splits)
  have "renderTo2dContext cellSize q = Inr (map (\<lambda>(r, c). \<lparr>fr_dark = ?f r c, fr_x = c * ?k, fr_y = r * ?k, fr_side = ?k\<rparr>) (List.product [0..<?n] [0..<?n]))"
    unfolding renderTo2dContext_def Let_def by (rule map_result_Inr) (auto simp: cell_dark_eq)
  then show ?thesis using paint_all [OF k, of ?f "List.product [0..<?n] [0..<?n]" "\<lambda>x y. None" x y] by (auto simp: Let_def)
qed

section \<open>The text drawing\<close>

lemma length_lines: "\<forall>row \<in> set rows. length row = e \<Longrightarrow> length (concat (map (\<lambda>row. row @ [c]) rows)) = length rows * Suc e"
  by (induction rows) simp_all

lemma nth_lines:
  assumes "\<forall>row \<in> set rows. length row = e" "k < length rows" "x < e"
  shows "concat (map (\<lambda>row. row @ [c]) rows) ! (k * Suc e + x) = rows ! k ! x"
  using assms
proof (induction rows arbitrary: k)
  case (Cons row rows)
  show ?case
  proof (cases k)
    case 0
    then show ?thesis using Cons.prems by (simp add: nth_append)
  next
    case (Suc j)
    have "Suc j * Suc e + x = length (row @ [c]) + (j * Suc e + x)" using Cons.prems(1) by simp
    then have "concat (map (\<lambda>row. row @ [c]) (row # rows)) ! (k * Suc e + x) = concat (map (\<lambda>row. row @ [c]) rows) ! (j * Suc e + x)"
      unfolding Suc by (simp only: list.map concat.simps nth_append_length_plus)
    then show ?thesis using Cons.IH [of j] Cons.prems Suc by simp
  qed
qed simp

text \<open>What a character shows in its upper and its lower half.\<close>

definition half_dark :: "nat \<Rightarrow> unit16 \<Rightarrow> bool" where
  "half_dark part c \<longleftrightarrow> c = SPACE \<or> c = (if part = 0 then LOWER else UPPER)"

lemma half_units: "distinct [SPACE, LOWER, UPPER, FULL]"
  by (simp add: SPACE_def LOWER_def UPPER_def FULL_def cu_def)

lemma half_block_dark:
  "half_dark 0 (half_block u l) = u" "half_dark (Suc 0) (half_block u l) = l" "half_dark 0 (half_block_last u) = u"
  using half_units by (auto simp: half_dark_def half_block_def half_block_last_def)

definition half_line :: "nat \<Rightarrow> qr \<Rightarrow> nat \<Rightarrow> jstr" where
  "half_line m q y = map (\<lambda>x. if m < 1 \<and> q_moduleCount q + m \<le> y + 1 then half_block_last (module_dark 1 m q x y)
     else half_block (module_dark 1 m q x y) (module_dark 1 m q x (y + 1))) [0..<picture_size 1 m q]"

lemma half_row_eq: "half_row m (picture_size 1 m q) q y = Inr (half_line m q y)"
proof -
  have p: "pixel_dark 1 m (picture_size 1 m q) q (int x) (int y) = Inr (module_dark 1 m q x y)"
    "pixel_dark 1 m (picture_size 1 m q) q (int x) (int y + 1) = Inr (module_dark 1 m q x (y + 1))" for x
    using pixel_dark_eq [of 1 m q x y] pixel_dark_eq [of 1 m q x "y + 1"] by (simp_all add: add.commute)
  have c: "int (picture_size 1 m q) - int m \<le> int y + 1 \<longleftrightarrow> q_moduleCount q + m \<le> y + 1" by (auto simp: picture_size_def)
  show ?thesis unfolding half_row_def half_line_def p c rbind_simps by (rule map_result_Inr) simp
qed

text \<open>
  The text drawing shows the symbol: with one character for two rows, the character at a
  column and half the row shows, in its upper or lower half, a dark module exactly where there is
  one, up to the last row of an odd number of them.
\<close>

theorem text_shows_symbol:
  assumes "m = margin_of margin 2" "e = picture_size 1 m q" "x < e" "y < e"
  shows "\<exists>a. createHalfASCII margin q = Inr a
    \<and> half_dark (y mod 2) (a ! (y div 2 * (e + 1) + x)) = module_dark 1 m q x y"
proof -
  let ?ys = "map (\<lambda>k. 2 * k) [0..<(e + 1) div 2]"
  let ?rows = "map (half_line m q) ?ys"
  let ?a = "concat (map (\<lambda>row. row @ [NEWLINE]) ?rows)"
  have rows: "map_result (half_row m e q) ?ys = Inr ?rows"
    by (rule map_result_Inr) (simp only: assms(2) half_row_eq)
  have len: "\<forall>row \<in> set ?rows. length row = e" by (auto simp: half_line_def assms(2))
  have k: "y div 2 < length ?rows" using assms(4) by simp
  have total: "length ?a = (e + 1) div 2 * Suc e" using length_lines [OF len] by simp
  have cell: "half_dark (y mod 2) (?a ! (y div 2 * Suc e + x)) = module_dark 1 m q x y"
  proof -
    have "?a ! (y div 2 * Suc e + x) = half_line m q (2 * (y div 2)) ! x"
      using nth_lines [OF len k assms(3)] k by simp
    moreover have "y = 2 * (y div 2) + y mod 2" by simp
    ultimately show ?thesis
      using assms(2-4) half_block_dark by (cases "y mod 2 = 0") (auto simp: half_line_def picture_size_def mod_2_eq_odd)
  qed
  show ?thesis
  proof (cases "odd e \<and> 0 < m")
    case True
    then have "createHalfASCII margin q = Inr (take (length ?a - e - 1) ?a @ replicate e UPPER)"
      unfolding createHalfASCII_def Let_def assms(1) [symmetric] assms(2) [symmetric] rows by simp
    moreover have "length ?a - e - 1 = e div 2 * Suc e" using True total by (elim conjE oddE) simp
    moreover have "half_dark (y mod 2) ((take (e div 2 * Suc e) ?a @ replicate e UPPER) ! (y div 2 * Suc e + x)) = module_dark 1 m q x y"
    proof (cases "y div 2 < e div 2")
      case True
      then have "y div 2 * Suc e + x < e div 2 * Suc e" using assms(3) mult_le_mono1 [of "Suc (y div 2)" "e div 2" "Suc e"] by simp
      moreover have "e div 2 * Suc e \<le> length ?a" unfolding total by (intro mult_le_mono1 div_le_mono) simp
      ultimately have "(take (e div 2 * Suc e) ?a @ replicate e UPPER) ! (y div 2 * Suc e + x) = ?a ! (y div 2 * Suc e + x)"
        by (simp only: nth_append length_take min_absorb2 if_True nth_take)
      then show ?thesis using cell by (simp only:)
    next
      case False
      then have y: "y = e - 1" "y div 2 = e div 2" "y mod 2 = 0" using assms(4) True by presburger+
      have "e div 2 * Suc e \<le> length ?a" unfolding total by (intro mult_le_mono1 div_le_mono) simp
      then have "length (take (e div 2 * Suc e) ?a) = e div 2 * Suc e" by (simp only: length_take min_absorb2)
      then have "(take (e div 2 * Suc e) ?a @ replicate e UPPER) ! (y div 2 * Suc e + x) = UPPER"
        using assms(3) unfolding y(2) by (simp only: nth_append) simp
      moreover have "m + q_moduleCount q \<le> y" using y(1) assms(2) True unfolding picture_size_def by arith
      then have "\<not> module_dark 1 m q x y" by (simp add: module_dark_def)
      ultimately show ?thesis using y(3) half_units by (auto simp: half_dark_def)
    qed
    ultimately show ?thesis by auto
  next
    case False
    then have "createHalfASCII margin q = Inr (take (length ?a - 1) ?a)"
      unfolding createHalfASCII_def Let_def assms(1) [symmetric] assms(2) [symmetric] rows by auto
    moreover have "y div 2 * Suc e + x < length ?a - 1"
    proof -
      have "Suc (y div 2) * Suc e \<le> (e + 1) div 2 * Suc e" using k by (intro mult_le_mono1) simp
      then show ?thesis using assms(3) unfolding total by simp
    qed
    ultimately show ?thesis using cell by auto
  qed
qed

lemma text_shows_symbol_witness:
  "\<exists>a. createHalfASCII (Some 1) sample_symbol = Inr a \<and> half_dark 1 (a ! 1) = module_dark 1 1 sample_symbol 1 1"
  using text_shows_symbol [of 1 "Some 1" 4 sample_symbol 1 1] by (simp add: margin_of_def picture_size_def sample_symbol_def)

end
