(* ===== verification/Sidepanel.thy ===== *)
theory Sidepanel
  imports Background
begin

text \<open>
  The side panel, \<open>extension/sidepanel.js\<close>: its list of tunnels, the copy of it in
  \<open>chrome.storage.local\<close>, the form, and the messages from and to the service worker. What is
  drawn is left out; the state that decides what is drawn is not.
\<close>

section \<open>Tunnel objects\<close>

definition or_text :: "string \<Rightarrow> jsval option \<Rightarrow> jsval" where
  "or_text d v = (if truthy v then the v else JText (js d))"

definition opt_field :: "string \<Rightarrow> jsval option \<Rightarrow> js_object" where
  "opt_field k v = (case v of None \<Rightarrow> [] | Some x \<Rightarrow> [(js k, x)])"

definition record_mode_of :: "js_object \<Rightarrow> jsval" where
  "record_mode_of t =
     (case field t ''recordMode'' of None \<Rightarrow> JText (js ''off'') | Some JNull \<Rightarrow> JText (js ''off'') | Some v \<Rightarrow> v)"

text \<open>\<open>now\<close> is the time the object is made, as an ISO string.\<close>

definition load_tunnel :: "jstr \<Rightarrow> js_object \<Rightarrow> js_object" where
  "load_tunnel now t =
     opt_field ''tunnelId'' (field t ''tunnelId'') @
     [(js ''name'', or_text '''' (field t ''name'')),
      (js ''localEndpoint'', or_text '''' (field t ''localEndpoint'')),
      (js ''relayUrl'', or_text '''' (field t ''relayUrl'')),
      (js ''auth'', or_null (field t ''auth'')),
      (js ''status'', or_text ''stopped'' (field t ''status'')),
      (js ''error'', or_null (field t ''error'')),
      (js ''entrypoint'', or_null (field t ''entrypoint'')),
      (js ''createdAt'', if truthy (field t ''createdAt'') then the (field t ''createdAt'') else JText now),
      (js ''hostname'', or_text '''' (field t ''hostname'')),
      (js ''prefix'', or_text '''' (field t ''prefix'')),
      (js ''stats'', or_null (field t ''stats'')),
      (js ''recordMode'', record_mode_of t)]"

text \<open>A field that is undefined is not stored.\<close>

definition persist_tunnel :: "js_object \<Rightarrow> js_object" where
  "persist_tunnel t =
     concat (map (\<lambda>k. opt_field k (field t k))
       [''tunnelId'', ''name'', ''localEndpoint'', ''relayUrl'', ''auth'', ''status'', ''error'', ''entrypoint'',
        ''createdAt'', ''hostname'', ''prefix'', ''stats''])
     @ [(js ''recordMode'', record_mode_of t)]"

text \<open>\<open>find\<close> and the changes to the object it returns.\<close>

fun update_found :: "jstr \<Rightarrow> (js_object \<Rightarrow> js_object) \<Rightarrow> js_object list \<Rightarrow> js_object list" where
  "update_found tid f [] = []"
| "update_found tid f (t # ts) = (if has_id tid t then f t # ts else t # update_found tid f ts)"

definition find_tunnel :: "jstr \<Rightarrow> js_object list \<Rightarrow> js_object option" where
  "find_tunnel tid ts = find (has_id tid) ts"

text \<open>Assigning a string, where the empty string stands for undefined.\<close>

definition assign_text :: "string \<Rightarrow> jstr \<Rightarrow> js_object \<Rightarrow> js_object" where
  "assign_text k s t = (if s = [] then jdelete (js k) t else jset (js k) (JText s) t)"

definition auth_of :: "jstr \<Rightarrow> jstr \<Rightarrow> jsval option" where
  "auth_of user pass = (if user = [] then None else Some (JAuth user pass))"

section \<open>The form\<close>

record form_input =
  in_name :: jstr
  in_endpoint :: jstr
  in_hostname :: jstr
  in_prefix :: jstr
  in_auth :: bool
  in_username :: jstr
  in_password :: jstr

text \<open>The form's data; the empty string stands for undefined.\<close>

record form_data =
  fd_name :: jstr
  fd_endpoint :: jstr
  fd_hostname :: jstr
  fd_prefix :: jstr
  fd_username :: jstr
  fd_password :: jstr
  fd_recordMode :: jstr

definition alnum_unit :: "unit16 \<Rightarrow> bool" where
  "alnum_unit c \<longleftrightarrow> (cu CHR ''a'' \<le> c \<and> c \<le> cu CHR ''z'') \<or> (cu CHR ''0'' \<le> c \<and> c \<le> cu CHR ''9'')"

fun label_pattern :: "jstr \<Rightarrow> bool" where
  "label_pattern [] = False"
| "label_pattern (c # s) \<longleftrightarrow>
     alnum_unit c \<and> (s = [] \<or> list_all (\<lambda>d. alnum_unit d \<or> d = cu CHR ''-'') (butlast s) \<and> alnum_unit (last s))"

definition prefix_invalid :: "jstr \<Rightarrow> bool" where
  "prefix_invalid p \<longleftrightarrow> p \<noteq> [] \<and> (length p < 8 \<or> length p > 63 \<or> \<not> label_pattern p)"

datatype form_error = TargetRequired | InvalidPrefix

definition read_form :: "jstr \<Rightarrow> form_input \<Rightarrow> form_error + form_data" where
  "read_form recordMode i =
     (if trim (in_endpoint i) = [] then Inl TargetRequired
      else let prefix = to_lower (trim (in_prefix i)) in
        if prefix_invalid prefix then Inl InvalidPrefix
        else
          (let username = (if in_auth i then in_username i else []);
               password = (if in_auth i then in_password i else [])
           in Inr \<lparr>fd_name = trim (in_name i), fd_endpoint = trim (in_endpoint i), fd_hostname = trim (in_hostname i),
                fd_prefix = prefix, fd_username = trim username, fd_password = password, fd_recordMode = recordMode\<rparr>))"

definition new_tunnel :: "jstr \<Rightarrow> jstr \<Rightarrow> form_data \<Rightarrow> js_object" where
  "new_tunnel tid now d =
     [(js ''tunnelId'', JText tid),
      (js ''name'', JText (if trim (fd_name d) \<noteq> [] then trim (fd_name d)
         else js ''tunnel-'' @ (let port = last (split_on [cu CHR '':''] (fd_endpoint d)) in if port = [] then js ''0'' else port))),
      (js ''localEndpoint'', JText (trim (fd_endpoint d)))]
     @ opt_field ''auth'' (auth_of (fd_username d) (fd_password d)) @
     [(js ''status'', JText (js ''stopped'')), (js ''error'', JNull), (js ''entrypoint'', JNull),
      (js ''createdAt'', JText now), (js ''hostname'', JText (fd_hostname d)), (js ''prefix'', JText (fd_prefix d)),
      (js ''stats'', JNull), (js ''recordMode'', JText (fd_recordMode d))]"

definition edit_tunnel :: "form_data \<Rightarrow> js_object \<Rightarrow> js_object" where
  "edit_tunnel d t =
     (let t1 = (if fd_name d \<noteq> [] then jset (js ''name'') (JText (fd_name d)) t else t);
          t2 = assign_text ''prefix'' (fd_prefix d) (assign_text ''hostname'' (fd_hostname d)
                 (jset (js ''localEndpoint'') (JText (fd_endpoint d)) t1));
          t3 = (case auth_of (fd_username d) (fd_password d) of
                  None \<Rightarrow> jdelete (js ''auth'') t2 | Some a \<Rightarrow> jset (js ''auth'') a t2)
      in spread t3 [(js ''recordMode'', JText (fd_recordMode d)), (js ''status'', JText (js ''stopped'')),
           (js ''error'', JNull), (js ''entrypoint'', JNull)])"

section \<open>State\<close>

datatype panel_msg = SendStart js_object | SendStop jstr | SendReset jstr

text \<open>Reads of the storage that are under way, with what their callback needs.\<close>

datatype panel_read =
    ReadTunnels jstr
  | ReadSettings
  | ReadForStatus jstr jsval "jsval option" "jsval option" jstr

datatype panel_view = ViewList | ViewForm | ViewSettings

record panel =
  pn_tunnels :: "js_object list"
  pn_settings :: js_object
  pn_view :: panel_view
  pn_editing :: "jstr option"
  pn_deleting :: "jstr option"
  pn_resetting :: "jstr option"
  pn_recordMode :: jstr
  pn_reads :: "(panel_read \<times> (js_object list \<times> js_object) option) list"
  pn_sent :: "panel_msg list"

text \<open>
  The two keys of the storage the panel uses. A write takes effect at once; a read is served at
  some later moment and its callback runs later still.
\<close>

record storage =
  sg_tunnels :: "js_object list"
  sg_settings :: js_object

definition new_panel :: panel where
  "new_panel = \<lparr>pn_tunnels = [], pn_settings = [(js ''theme'', JText (js ''system'')), (js ''lang'', JText (js ''en''))],
     pn_view = ViewList, pn_editing = None, pn_deleting = None, pn_resetting = None, pn_recordMode = js ''off'',
     pn_reads = [], pn_sent = []\<rparr>"

definition send_msg :: "panel_msg \<Rightarrow> panel \<Rightarrow> panel" where
  "send_msg m p = p\<lparr>pn_sent := pn_sent p @ [m]\<rparr>"

definition begin_read :: "panel_read \<Rightarrow> panel \<Rightarrow> panel" where
  "begin_read r p = p\<lparr>pn_reads := pn_reads p @ [(r, None)]\<rparr>"

definition persistTunnels :: "panel \<Rightarrow> storage \<Rightarrow> storage" where
  "persistTunnels p g = g\<lparr>sg_tunnels := map persist_tunnel (pn_tunnels p)\<rparr>"

section \<open>Operations\<close>

type_synonym site = "panel \<times> storage"

definition panel_open :: "jstr \<Rightarrow> site \<Rightarrow> site" where
  "panel_open now st = (begin_read (ReadTunnels now) (begin_read ReadSettings (fst st)), snd st)"

definition start_config :: "js_object \<Rightarrow> js_object" where
  "start_config t =
     opt_field ''tunnelId'' (field t ''tunnelId'') @ opt_field ''name'' (field t ''name'') @
     opt_field ''localEndpoint'' (field t ''localEndpoint'') @ opt_field ''auth'' (field t ''auth'') @
     opt_field ''hostname'' (if truthy (field t ''hostname'') then field t ''hostname'' else None) @
     opt_field ''prefix'' (if truthy (field t ''prefix'') then field t ''prefix'' else None) @
     [(js ''recordMode'', record_mode_of t)]"

definition panel_start :: "jstr \<Rightarrow> site \<Rightarrow> site" where
  "panel_start tid st =
     (case find_tunnel tid (pn_tunnels (fst st)) of
        None \<Rightarrow> st
      | Some t \<Rightarrow>
          (let connecting = jset (js ''status'') (JText (js ''connecting''))
           in (send_msg (SendStart (start_config (connecting t)))
                 ((fst st)\<lparr>pn_tunnels := update_found tid connecting (pn_tunnels (fst st))\<rparr>), snd st)))"

definition panel_stop :: "jstr \<Rightarrow> site \<Rightarrow> site" where
  "panel_stop tid st =
     (let stopped = (\<lambda>t. spread t [(js ''status'', JText (js ''stopped'')), (js ''entrypoint'', JNull), (js ''error'', JNull)]);
          p = send_msg (SendStop tid) ((fst st)\<lparr>pn_tunnels := update_found tid stopped (pn_tunnels (fst st))\<rparr>)
      in (p, persistTunnels p (snd st)))"

definition panel_create :: "jstr \<Rightarrow> jstr \<Rightarrow> form_data \<Rightarrow> site \<Rightarrow> site" where
  "panel_create tid now d st =
     (let p = (fst st)\<lparr>pn_tunnels := pn_tunnels (fst st) @ [new_tunnel tid now d]\<rparr>
      in panel_start tid (p, persistTunnels p (snd st)))"

definition panel_delete :: "jstr \<Rightarrow> site \<Rightarrow> site" where
  "panel_delete tid st =
     (let p0 = send_msg (SendStop tid) (fst st);
          p = p0\<lparr>pn_tunnels := filter (\<lambda>t. \<not> has_id tid t) (pn_tunnels p0)\<rparr>
      in (p, persistTunnels p (snd st)))"

definition panel_reset :: "jstr \<Rightarrow> site \<Rightarrow> site" where
  "panel_reset tid st = (send_msg (SendReset tid) (fst st), snd st)"

definition active :: "js_object \<Rightarrow> bool" where
  "active t \<longleftrightarrow> has_status ''running'' t \<or> has_status ''connecting'' t \<or> has_status ''error'' t"

definition save_form :: "jstr \<Rightarrow> jstr \<Rightarrow> form_input \<Rightarrow> site \<Rightarrow> form_error + site" where
  "save_form fresh now i st =
     rbind (read_form (pn_recordMode (fst st)) i) (\<lambda>d.
       let st1 =
         (case pn_editing (fst st) of
            None \<Rightarrow> panel_create fresh now d st
          | Some tid \<Rightarrow>
              (case find_tunnel tid (pn_tunnels (fst st)) of
                 None \<Rightarrow> st
               | Some old \<Rightarrow>
                   (let p = (fst st)\<lparr>pn_tunnels := update_found tid (edit_tunnel d) (pn_tunnels (fst st))\<rparr>;
                        st2 = (p, persistTunnels p (snd st))
                    in if active old then panel_start tid st2 else st2)))
       in Inr ((fst st1)\<lparr>pn_view := ViewList\<rparr>, snd st1))"

section \<open>Messages from the worker\<close>

definition present :: "jsval option \<Rightarrow> bool" where
  "present v \<longleftrightarrow> v \<noteq> None \<and> v \<noteq> Some JNull"

definition apply_status :: "jsval \<Rightarrow> jsval option \<Rightarrow> jsval option \<Rightarrow> js_object \<Rightarrow> js_object" where
  "apply_status status err ep t =
     (let t1 = jset (js ''status'') status t;
          t2 = (if status = JText (js ''running'') then jset (js ''error'') JNull t1
                else if present err then jset (js ''error'') (the err) t1 else t1)
      in if present ep then jset (js ''entrypoint'') (the ep) t2 else t2)"

definition panel_status :: "jstr \<Rightarrow> jsval \<Rightarrow> jsval option \<Rightarrow> jsval option \<Rightarrow> jstr \<Rightarrow> site \<Rightarrow> site" where
  "panel_status tid status err ep now st =
     (case find_tunnel tid (pn_tunnels (fst st)) of
        None \<Rightarrow> (begin_read (ReadForStatus tid status err ep now) (fst st), snd st)
      | Some t \<Rightarrow>
          (let p = (fst st)\<lparr>pn_tunnels := update_found tid (apply_status status err ep) (pn_tunnels (fst st))\<rparr>
           in (p, persistTunnels p (snd st))))"

definition panel_stats :: "jstr \<Rightarrow> snapshot \<Rightarrow> site \<Rightarrow> site" where
  "panel_stats tid stats st =
     ((fst st)\<lparr>pn_tunnels := update_found tid (jset (js ''stats'') (JStats stats)) (pn_tunnels (fst st))\<rparr>, snd st)"

text \<open>The migration of the old switch looks for a theme that is undefined.\<close>

definition merge_settings :: "js_object \<Rightarrow> js_object \<Rightarrow> js_object" where
  "merge_settings own stored =
     (let s = spread own stored in
      if field s ''darkMode'' \<noteq> None \<and> field s ''theme'' = None
      then jdelete (js ''darkMode'') (jset (js ''theme'')
             (JText (if truthy (field s ''darkMode'') then js ''dark'' else js ''system'')) s)
      else s)"

text \<open>What a callback does with the values its read returned.\<close>

fun panel_callback :: "panel_read \<Rightarrow> js_object list \<times> js_object \<Rightarrow> site \<Rightarrow> site" where
  "panel_callback (ReadTunnels now) got st = ((fst st)\<lparr>pn_tunnels := map (load_tunnel now) (fst got)\<rparr>, snd st)"
| "panel_callback ReadSettings got st =
     ((fst st)\<lparr>pn_settings := merge_settings (pn_settings (fst st)) (snd got)\<rparr>, snd st)"
| "panel_callback (ReadForStatus tid status err ep now) got st =
     (case find_tunnel tid (fst got) of
        None \<Rightarrow> st
      | Some t \<Rightarrow>
          ((fst st)\<lparr>pn_tunnels := pn_tunnels (fst st) @ [load_tunnel now (apply_status status err ep t)]\<rparr>,
           (snd st)\<lparr>sg_tunnels := update_found tid (apply_status status err ep) (fst got)\<rparr>))"

definition read_served :: "nat \<Rightarrow> site \<Rightarrow> site" where
  "read_served k st =
     (let p = fst st; g = snd st in
      if k < length (pn_reads p) \<and> snd (pn_reads p ! k) = None
      then (p\<lparr>pn_reads := (pn_reads p)[k := (fst (pn_reads p ! k), Some (sg_tunnels g, sg_settings g))]\<rparr>, g) else st)"

definition read_done :: "nat \<Rightarrow> site \<Rightarrow> site" where
  "read_done k st =
     (let p = fst st in
      if k < length (pn_reads p) then
        (case pn_reads p ! k of
           (r, None) \<Rightarrow> st
         | (r, Some got) \<Rightarrow>
             panel_callback r got (p\<lparr>pn_reads := take k (pn_reads p) @ drop (Suc k) (pn_reads p)\<rparr>, snd st))
      else st)"

section \<open>Dialogs, form and settings\<close>

definition open_new :: "panel \<Rightarrow> panel" where
  "open_new p = p\<lparr>pn_editing := None, pn_recordMode := js ''off'', pn_view := ViewForm\<rparr>"

text \<open>The form is filled from the tunnel.\<close>

definition text_of :: "jsval option \<Rightarrow> jstr" where
  "text_of v = (case v of Some (JText s) \<Rightarrow> s | _ \<Rightarrow> [])"

definition form_of :: "js_object \<Rightarrow> form_input" where
  "form_of t =
     (let (user, pass) = (case field t ''auth'' of Some (JAuth u w) \<Rightarrow> (u, w) | _ \<Rightarrow> ([], []))
      in \<lparr>in_name = text_of (field t ''name''), in_endpoint = text_of (field t ''localEndpoint''),
          in_hostname = text_of (field t ''hostname''), in_prefix = text_of (field t ''prefix''),
          in_auth = (user \<noteq> []), in_username = user, in_password = pass\<rparr>)"

definition open_edit :: "jstr \<Rightarrow> panel \<Rightarrow> (panel \<times> form_input) option" where
  "open_edit tid p =
     (case find_tunnel tid (pn_tunnels p) of
        None \<Rightarrow> None
      | Some t \<Rightarrow> Some (p\<lparr>pn_editing := Some tid, pn_recordMode := text_of (Some (record_mode_of t)), pn_view := ViewForm\<rparr>,
          form_of t))"

definition RECORD_OPTIONS :: "jstr list" where
  "RECORD_OPTIONS = [js ''off'', js ''headers'', js ''full'']"

text \<open>A mode that is none of the options has index -1, and the next is the first.\<close>

definition cycle_record_mode :: "panel \<Rightarrow> panel" where
  "cycle_record_mode p =
     (let n = length (takeWhile (\<lambda>r. r \<noteq> pn_recordMode p) RECORD_OPTIONS);
          i = (if n = length RECORD_OPTIONS then 0 else (n + 1) mod length RECORD_OPTIONS)
      in p\<lparr>pn_recordMode := RECORD_OPTIONS ! i\<rparr>)"

definition show_delete :: "jstr \<Rightarrow> panel \<Rightarrow> panel" where
  "show_delete tid p = p\<lparr>pn_deleting := Some tid\<rparr>"

definition confirm_delete :: "site \<Rightarrow> site" where
  "confirm_delete st =
     (let id = pn_deleting (fst st); st1 = ((fst st)\<lparr>pn_deleting := None\<rparr>, snd st) in
      case id of
        None \<Rightarrow> st1
      | Some tid \<Rightarrow>
          if pn_view (fst st) = ViewForm \<and> pn_editing (fst st) = Some tid
          then (let st2 = panel_delete tid st1 in ((fst st2)\<lparr>pn_editing := None, pn_view := ViewList\<rparr>, snd st2))
          else panel_delete tid st1)"

definition confirm_reset :: "site \<Rightarrow> site" where
  "confirm_reset st =
     (let id = pn_resetting (fst st); st1 = ((fst st)\<lparr>pn_resetting := None\<rparr>, snd st) in
      case id of None \<Rightarrow> st1 | Some tid \<Rightarrow> panel_reset tid st1)"

definition cycle_theme :: "site \<Rightarrow> site" where
  "cycle_theme st =
     (let cur = field (pn_settings (fst st)) ''theme'';
          next = (if cur = Some (JText (js ''light'')) then js ''dark''
                  else if cur = Some (JText (js ''dark'')) then js ''system''
                  else if cur = Some (JText (js ''system'')) then js ''light'' else js ''system'');
          s = jset (js ''theme'') (JText next) (pn_settings (fst st))
      in ((fst st)\<lparr>pn_settings := s\<rparr>, (snd st)\<lparr>sg_settings := s\<rparr>))"

definition cycle_lang :: "site \<Rightarrow> site" where
  "cycle_lang st =
     (let next = (if field (pn_settings (fst st)) ''lang'' = Some (JText (js ''en'')) then js ''zh'' else js ''en'');
          s = jset (js ''lang'') (JText next) (pn_settings (fst st))
      in ((fst st)\<lparr>pn_settings := s\<rparr>, (snd st)\<lparr>sg_settings := s\<rparr>))"

definition dismiss_tip :: "site \<Rightarrow> site" where
  "dismiss_tip st =
     (let s = jset (js ''tipDismissed'') (JBool True) (pn_settings (fst st))
      in ((fst st)\<lparr>pn_settings := s\<rparr>, (snd st)\<lparr>sg_settings := s\<rparr>))"

section \<open>Panel and worker\<close>

datatype panel_event =
    PanelOpen jstr
  | ReadServed nat
  | ReadDone nat
  | PanelStart jstr
  | PanelStop jstr
  | PanelSave jstr jstr form_input
  | PanelNew
  | PanelEdit jstr
  | PanelDeleteAsk jstr
  | PanelDeleteConfirm
  | PanelStatus jstr jsval "jsval option" "jsval option" jstr
  | PanelStats jstr snapshot

fun panel_step :: "panel_event \<Rightarrow> site \<Rightarrow> site" where
  "panel_step (PanelOpen now) st = panel_open now st"
| "panel_step (ReadServed k) st = read_served k st"
| "panel_step (ReadDone k) st = read_done k st"
| "panel_step (PanelStart tid) st = panel_start tid st"
| "panel_step (PanelStop tid) st = panel_stop tid st"
| "panel_step (PanelSave fresh now i) st = (case save_form fresh now i st of Inl e \<Rightarrow> st | Inr st' \<Rightarrow> st')"
| "panel_step PanelNew st = (open_new (fst st), snd st)"
| "panel_step (PanelEdit tid) st = (case open_edit tid (fst st) of None \<Rightarrow> st | Some (p, i) \<Rightarrow> (p, snd st))"
| "panel_step (PanelDeleteAsk tid) st = (show_delete tid (fst st), snd st)"
| "panel_step PanelDeleteConfirm st = confirm_delete st"
| "panel_step (PanelStatus tid status err ep now) st = panel_status tid status err ep now st"
| "panel_step (PanelStats tid stats) st = panel_stats tid stats st"

text \<open>Both rewrite the same stored list; the messages between them arrive as events.\<close>

datatype system_event = OfPanel panel_event | OfWorker bg_event

record system =
  sy_panel :: panel
  sy_settings :: js_object
  sy_worker :: worker

fun system_step :: "system_event \<Rightarrow> system \<Rightarrow> system" where
  "system_step (OfWorker e) y = y\<lparr>sy_worker := bg_step e (sy_worker y)\<rparr>"
| "system_step (OfPanel e) y =
     (let (p, g) = panel_step e (sy_panel y, \<lparr>sg_tunnels = bg_store (sy_worker y), sg_settings = sy_settings y\<rparr>)
      in y\<lparr>sy_panel := p, sy_settings := sg_settings g, sy_worker := (sy_worker y)\<lparr>bg_store := sg_tunnels g\<rparr>\<rparr>)"

fun system_run :: "system_event list \<Rightarrow> system \<Rightarrow> system" where
  "system_run [] y = y"
| "system_run (e # es) y = system_run es (system_step e y)"

end
