(* ===== verification/SidepanelCorrect.thy ===== *)
theory SidepanelCorrect
  imports Sidepanel
begin

text \<open>
  The side panel: what it stores is what it shows after reopening, its tunnels and the stored ones
  keep distinct ids under every interleaving with the worker unless a status message overtakes a
  read, what the form saves is valid and an edit restarts
  once, and a deleted tunnel can come back through an update of the worker that was under way.
\<close>

declare js_simps [simp del]

section \<open>Fields\<close>

lemma cu_inj [simp]: "cu c = cu d \<longleftrightarrow> c = d"
proof
  assume "cu c = cu d"
  moreover have "unat (cu e) = of_char e" for e
  proof -
    have lt: "(of_char e :: nat) < 256"
      using of_char_mod_256 [of e, where 'a = nat] mod_less_divisor [of 256 "of_char e :: nat"] by linarith
    have "cu e = of_nat (of_char e)" by (simp add: cu_def of_nat_of_char)
    then show ?thesis using unat_of_nat_16_small [OF less_trans [OF lt]] by simp
  qed
  ultimately have "(of_char c :: nat) = of_char d" by metis
  then show "c = d" by (simp add: of_char_eq_iff)
qed simp

lemma js_inj [simp]: "js s = js t \<longleftrightarrow> s = t"
proof -
  have "inj cu" by (rule injI) simp
  then show ?thesis by (simp add: js_def inj_map_eq_map)
qed

lemma field_opt [simp]:
  "map_of (opt_field k v @ rest) (js k') = (if k = k' \<and> v \<noteq> None then v else map_of rest (js k'))"
  by (cases v) (simp_all add: opt_field_def)

lemma field_persist:
  "k \<in> {''tunnelId'', ''name'', ''localEndpoint'', ''relayUrl'', ''auth'', ''status'', ''error'', ''entrypoint'',
      ''createdAt'', ''hostname'', ''prefix'', ''stats''} \<Longrightarrow> field (persist_tunnel t) k = field t k"
  unfolding persist_tunnel_def list.map concat.simps append_assoc
  by (elim insertE emptyE) (simp_all del: map_of_append)

lemma record_persist [simp]: "record_mode_of (persist_tunnel t) = record_mode_of t"
proof -
  have "field (persist_tunnel t) ''recordMode'' = Some (record_mode_of t)"
    unfolding persist_tunnel_def list.map concat.simps append_assoc by (simp del: map_of_append)
  moreover have "record_mode_of t \<noteq> JNull" by (simp add: record_mode_of_def split: option.splits jsval.splits)
  ultimately show ?thesis by (simp add: record_mode_of_def [of "persist_tunnel t"] split: jsval.splits)
qed

lemma load_persist [simp]: "load_tunnel now (persist_tunnel t) = load_tunnel now t"
  by (simp add: load_tunnel_def field_persist del: map_of_append)

text \<open>
  Storing the list loses nothing: whatever the panel holds, once it has written the list, a
  panel that is opened and reads it shows each tunnel as reading the panel's own object would.
\<close>

theorem reopen_shows_stored:
  assumes "pn_reads p = []"
  shows "pn_tunnels (fst (read_done 1 (read_served 1 (panel_open now (p, persistTunnels q g)))))
      = map (load_tunnel now) (pn_tunnels q)"
  using assms
  by (simp_all add: panel_open_def begin_read_def read_served_def read_done_def persistTunnels_def o_def)

section \<open>Distinct ids\<close>

definition ids_ok :: "js_object list \<Rightarrow> bool" where
  "ids_ok ts \<longleftrightarrow> distinct (map id_text ts) \<and> (\<forall>t \<in> set ts. has_id (id_text t) t)"

lemma has_id_text: "has_id tid t \<Longrightarrow> id_text t = tid"
  by (simp add: has_id_def id_text_def)

lemma has_id_iff: "has_id (id_text t) t \<Longrightarrow> has_id tid t \<longleftrightarrow> id_text t = tid"
  by (metis has_id_text)

lemma ids_ok_Cons [simp]: "ids_ok (t # ts) \<longleftrightarrow> has_id (id_text t) t \<and> id_text t \<notin> id_text ` set ts \<and> ids_ok ts"
  by (auto simp: ids_ok_def)

lemma ids_ok_map: "(\<And>t. field (f t) ''tunnelId'' = field t ''tunnelId'') \<Longrightarrow> ids_ok (map f ts) \<longleftrightarrow> ids_ok ts"
proof -
  assume f: "\<And>t. field (f t) ''tunnelId'' = field t ''tunnelId''"
  have "id_text (f t) = id_text t" "has_id tid (f t) = has_id tid t" for t tid
    using f [of t] by (simp_all add: id_text_def has_id_def)
  then show ?thesis by (simp add: ids_ok_def o_def)
qed

lemma update_found_ids: "(\<And>t. field (f t) ''tunnelId'' = field t ''tunnelId'') \<Longrightarrow> ids_ok (update_found tid f ts) \<longleftrightarrow> ids_ok ts"
proof -
  assume f: "\<And>t. field (f t) ''tunnelId'' = field t ''tunnelId''"
  have i: "id_text (f t) = id_text t" "has_id u (f t) = has_id u t" for t u
    using f [of t] by (simp_all add: id_text_def has_id_def)
  have "id_text ` set (update_found tid f ts) = id_text ` set ts" for ts
    by (induction ts) (auto simp: i)
  then show ?thesis by (induction ts) (auto simp: i)
qed

lemma ids_ok_filter: "ids_ok ts \<Longrightarrow> ids_ok (filter P ts)"
  by (auto simp: ids_ok_def distinct_map inj_on_def)

lemma ids_ok_append: "ids_ok (ts @ [t]) \<longleftrightarrow> ids_ok ts \<and> has_id (id_text t) t \<and> id_text t \<notin> id_text ` set ts"
  by (auto simp: ids_ok_def)

lemma field_load [simp]: "field (load_tunnel now t) ''tunnelId'' = field t ''tunnelId''"
  by (simp add: load_tunnel_def del: map_of_append)

lemma field_jset [simp]: "map_of (jset (js k) v t) (js k') = (if k' = k then Some v else map_of t (js k'))"
  by (simp add: update_conv')

lemma field_jdelete [simp]: "map_of (jdelete (js k) t) (js k') = (if k' = k then None else map_of t (js k'))"
  by (simp add: delete_conv')

lemma field_assign [simp]:
  "map_of (assign_text k s t) (js k') = (if k' = k then (if s = [] then None else Some (JText s)) else map_of t (js k'))"
  by (simp add: assign_text_def)

lemma field_status [simp]: "field (apply_status status err ep t) ''tunnelId'' = field t ''tunnelId''"
  by (simp add: apply_status_def Let_def)

lemma field_edit [simp]: "field (edit_tunnel d t) ''tunnelId'' = field t ''tunnelId''"
  by (cases "auth_of (fd_username d) (fd_password d)") (simp_all add: edit_tunnel_def spread_def Let_def)

lemma new_tunnel_id [simp]: "has_id tid (new_tunnel tid now d)" "id_text (new_tunnel tid now d) = tid"
  by (simp_all add: new_tunnel_def has_id_def id_text_def)

text \<open>
  What may happen: any event of the panel and of the worker. A new id is fresh
  (\<open>crypto.randomUUID\<close>), a status message is about a tunnel the panel lists, and a started config is
  an object, which has each key once.
\<close>

fun calm :: "system_event \<Rightarrow> panel \<Rightarrow> bool" where
  "calm (OfPanel (PanelSave fresh now i)) p \<longleftrightarrow> fresh \<notin> id_text ` set (pn_tunnels p)"
| "calm (OfPanel (PanelStatus tid status err ep now)) p \<longleftrightarrow> find_tunnel tid (pn_tunnels p) \<noteq> None"
| "calm (OfWorker (BgStart fresh config)) p \<longleftrightarrow> jok config"
| "calm _ p \<longleftrightarrow> True"

text \<open>
  The panel may be closed and opened anew, and the browser may end the worker and start it
  again: what it had read is lost, and the stored list is kept.
\<close>

inductive system_reach :: "system \<Rightarrow> bool" where
  start: "ids_ok ts \<Longrightarrow> list_all jok ts
    \<Longrightarrow> system_reach \<lparr>sy_panel = new_panel, sy_settings = s, sy_worker = new_worker ts rules\<rparr>"
| event: "system_reach y \<Longrightarrow> calm e (sy_panel y) \<Longrightarrow> system_reach (system_step e y)"
| reopen: "system_reach y \<Longrightarrow> system_reach (y\<lparr>sy_panel := new_panel\<rparr>)"
| revive: "system_reach y \<Longrightarrow> system_reach (y\<lparr>sy_worker := new_worker (bg_store (sy_worker y)) (bg_rules (sy_worker y))\<rparr>)"

definition store_ok :: "js_object list \<Rightarrow> bool" where
  "store_ok ts \<longleftrightarrow> ids_ok ts \<and> list_all jok ts"

definition read_ok :: "panel_read \<times> (js_object list \<times> js_object) option \<Rightarrow> bool" where
  "read_ok r \<longleftrightarrow> (case fst r of ReadForStatus tid status err ep now \<Rightarrow> False | _ \<Rightarrow> True)
     \<and> (case snd r of None \<Rightarrow> True | Some got \<Rightarrow> ids_ok (fst got))"

definition site_ok :: "site \<Rightarrow> bool" where
  "site_ok st \<longleftrightarrow> ids_ok (pn_tunnels (fst st)) \<and> store_ok (sg_tunnels (snd st)) \<and> list_all read_ok (pn_reads (fst st))"

lemma ids_ok_persist [simp]: "ids_ok (map persist_tunnel ts) \<longleftrightarrow> ids_ok ts"
  by (rule ids_ok_map) (simp add: field_persist)

lemma ids_ok_load [simp]: "ids_ok (map (load_tunnel now) ts) \<longleftrightarrow> ids_ok ts"
  by (rule ids_ok_map) simp

lemma opt_fields_object:
  "distinct ks \<Longrightarrow> m \<notin> set ks \<Longrightarrow> jok (concat (map (\<lambda>k. opt_field k (f k)) ks) @ [(js m, v)])"
proof (induction ks)
  case (Cons k ks)
  have "fst ` set (concat (map (\<lambda>k. opt_field k (f k)) ks)) \<subseteq> js ` set ks"
    by (auto simp: opt_field_def split: option.splits)
  moreover have "js k \<notin> js ` set ks" using Cons.prems(1) by auto
  ultimately show ?case using Cons by (auto simp: opt_field_def split: option.splits)
qed simp

lemma persist_object [simp]: "jok (persist_tunnel t)"
  unfolding persist_tunnel_def by (rule opt_fields_object) simp_all

lemma store_ok_persist [simp]: "store_ok (map persist_tunnel ts) \<longleftrightarrow> ids_ok ts"
  by (simp add: store_ok_def list_all_iff)

lemma start_ok: "site_ok st \<Longrightarrow> site_ok (panel_start tid st)"
  by (auto simp: panel_start_def site_ok_def send_msg_def Let_def update_found_ids split: option.splits)

lemma persist_ok: "ids_ok (pn_tunnels p) \<Longrightarrow> list_all read_ok (pn_reads p) \<Longrightarrow> site_ok (p, persistTunnels p g)"
  by (simp add: site_ok_def persistTunnels_def)

lemma stop_ok: "site_ok st \<Longrightarrow> site_ok (panel_stop tid st)"
  by (auto simp: panel_stop_def Let_def send_msg_def site_ok_def persistTunnels_def spread_def update_found_ids)

lemma delete_ok: "site_ok st \<Longrightarrow> site_ok (panel_delete tid st)"
  by (auto simp: panel_delete_def Let_def send_msg_def site_ok_def persistTunnels_def ids_ok_filter)

lemma save_ok:
  assumes "site_ok st" "fresh \<notin> id_text ` set (pn_tunnels (fst st))" "save_form fresh now i st = Inr st'"
  shows "site_ok st'"
proof -
  have view: "site_ok (p\<lparr>pn_view := v\<rparr>, g) = site_ok (p, g)" for p v g by (simp add: site_ok_def)
  have create: "site_ok (panel_create fresh now d st)" for d
    unfolding panel_create_def Let_def
    by (intro start_ok persist_ok) (use assms(1,2) in \<open>auto simp: site_ok_def ids_ok_append\<close>)
  have edit: "site_ok (let p = (fst st)\<lparr>pn_tunnels := update_found tid (edit_tunnel d) (pn_tunnels (fst st))\<rparr>;
                        st2 = (p, persistTunnels p (snd st)) in if active old then panel_start tid st2 else st2)" for tid d old
  proof -
    let ?p = "(fst st)\<lparr>pn_tunnels := update_found tid (edit_tunnel d) (pn_tunnels (fst st))\<rparr>"
    have "site_ok (?p, persistTunnels ?p (snd st))"
      by (rule persist_ok) (use assms(1) in \<open>simp_all add: site_ok_def update_found_ids\<close>)
    then show ?thesis using start_ok by (simp add: Let_def)
  qed
  obtain d where d: "read_form (pn_recordMode (fst st)) i = Inr d"
    using assms(3) by (auto simp: save_form_def rbind_eq_Inr_iff)
  then show ?thesis using assms(1,3) create edit
    by (auto simp: save_form_def view Let_def split: option.splits simp del: if_split)
qed

lemma read_done_ok:
  assumes "site_ok st"
  shows "site_ok (read_done k st)"
proof (cases "k < length (pn_reads (fst st))")
  case True
  obtain r got where r: "pn_reads (fst st) ! k = (r, got)" by fastforce
  have ok: "read_ok (r, got)" using assms True unfolding r [symmetric] by (simp add: site_ok_def list_all_length)
  have rest: "list_all read_ok (take k (pn_reads (fst st)) @ drop (Suc k) (pn_reads (fst st)))"
    using assms by (auto simp: site_ok_def list_all_iff dest: in_set_takeD in_set_dropD)
  show ?thesis
  proof (cases got)
    case None
    then show ?thesis using assms True r by (simp add: read_done_def Let_def)
  next
    case (Some g)
    then have c: "read_done k st = panel_callback r g
        ((fst st)\<lparr>pn_reads := take k (pn_reads (fst st)) @ drop (Suc k) (pn_reads (fst st))\<rparr>, snd st)"
      using True r by (simp add: read_done_def Let_def)
    show ?thesis unfolding c using ok rest assms Some by (cases r) (auto simp: site_ok_def read_ok_def)
  qed
qed (use assms in \<open>simp add: read_done_def Let_def\<close>)

lemma read_served_ok: "site_ok st \<Longrightarrow> site_ok (read_served k st)"
  by (auto simp: read_served_def Let_def site_ok_def store_ok_def list_all_length nth_list_update read_ok_def
      split: panel_read.splits)

lemma status_ok: "site_ok st \<Longrightarrow> find_tunnel tid (pn_tunnels (fst st)) \<noteq> None \<Longrightarrow> site_ok (panel_status tid status err ep now st)"
  by (auto simp: panel_status_def site_ok_def persistTunnels_def update_found_ids Let_def)

lemma confirm_ok: "site_ok st \<Longrightarrow> site_ok (confirm_delete st)"
proof -
  assume st: "site_ok st"
  then have "site_ok ((fst st)\<lparr>pn_deleting := None\<rparr>, snd st)" by (simp add: site_ok_def)
  note d = delete_ok [OF this]
  have upd: "site_ok (p\<lparr>pn_editing := a, pn_view := v\<rparr>, g) = site_ok (p, g)" for p a v g by (simp add: site_ok_def)
  show ?thesis using d st by (auto simp: confirm_delete_def Let_def upd site_ok_def split: option.splits)
qed

lemma dialog_ok: "site_ok st \<Longrightarrow> site_ok (open_new (fst st), snd st)" "site_ok st \<Longrightarrow> site_ok (show_delete tid (fst st), snd st)"
  by (simp_all add: open_new_def show_delete_def site_ok_def)

lemma panel_step_ok: "site_ok st \<Longrightarrow> calm (OfPanel e) (fst st) \<Longrightarrow> site_ok (panel_step e st)"
proof (cases e)
  case (PanelOpen now)
  then show "site_ok st \<Longrightarrow> ?thesis" by (auto simp: site_ok_def panel_open_def begin_read_def read_ok_def)
next
  case (PanelSave fresh now i)
  then show "site_ok st \<Longrightarrow> calm (OfPanel e) (fst st) \<Longrightarrow> ?thesis" using save_ok by (auto split: sum.splits)
next
  case (PanelStats tid stats)
  then show "site_ok st \<Longrightarrow> ?thesis" by (auto simp: site_ok_def panel_stats_def update_found_ids)
next
  case (PanelEdit tid)
  then show "site_ok st \<Longrightarrow> ?thesis" by (auto simp: open_edit_def site_ok_def split: option.splits)
qed (simp_all add: read_served_ok read_done_ok start_ok stop_ok status_ok confirm_ok dialog_ok)

section \<open>Distinct ids in the worker\<close>

text \<open>What a task has read is a list with distinct ids, and a start writes a config that has its id.\<close>

definition task_ok :: "bg_task \<times> task_phase \<Rightarrow> bool" where
  "task_ok tp \<longleftrightarrow> (case snd tp of Waiting \<Rightarrow> True | HasRead saved \<Rightarrow> store_ok saved)
     \<and> (case fst tp of PersistStart tid config \<Rightarrow> has_id tid config \<and> jok config | _ \<Rightarrow> True)"

definition worker_ok :: "worker \<Rightarrow> bool" where
  "worker_ok w \<longleftrightarrow> store_ok (bg_store w) \<and> list_all task_ok (bg_tasks w)"

lemma spread_keeps_id: "has_id tid c \<Longrightarrow> jok c \<Longrightarrow> has_id tid (spread t c)"
  by (simp add: has_id_def spread_get)

lemma update_where_ok:
  assumes "store_ok saved" "jok upds" "field upds ''tunnelId'' = None"
  shows "store_ok (update_where tid upds saved)"
proof -
  have "ids_ok (update_where tid upds saved) \<longleftrightarrow> ids_ok saved"
    unfolding update_where_def by (rule ids_ok_map) (simp add: spread_get assms)
  then show ?thesis using assms(1) by (auto simp: store_ok_def update_where_def list_all_iff spread_object)
qed

lemma upsert_ok:
  assumes "store_ok saved" "has_id tid config" "jok config"
  shows "store_ok (upsert tid config saved) \<and> id_text ` set (upsert tid config saved) = insert tid (id_text ` set saved)"
  using assms
proof (induction saved)
  case (Cons t saved)
  then have t: "has_id (id_text t) t" "id_text t \<notin> id_text ` set saved" "store_ok saved" "jok t"
    by (simp_all add: store_ok_def)
  show ?case
  proof (cases "has_id tid t")
    case True
    moreover have "has_id tid (spread t config)" using Cons.prems by (simp add: spread_keeps_id)
    ultimately show ?thesis
      using Cons.prems t has_id_text [of tid] by (auto simp: store_ok_def spread_object)
  next
    case False
    then have "id_text t \<noteq> tid" using t(1) by blast
    then show ?thesis using False Cons t by (auto simp: store_ok_def)
  qed
qed (auto simp: store_ok_def ids_ok_def dest: has_id_text)

lemma task_write_ok: "task_ok (t, HasRead saved) \<Longrightarrow> store_ok (task_write t saved)"
proof (cases t)
  case (PersistStart tid config)
  then show "task_ok (t, HasRead saved) \<Longrightarrow> ?thesis" using upsert_ok by (simp add: task_ok_def)
qed (auto simp: task_ok_def intro!: update_where_ok)

lemma begin_ok: "worker_ok w \<Longrightarrow> task_ok (t, Waiting) \<Longrightarrow> worker_ok (begin_task t w)"
  by (simp add: worker_ok_def begin_task_def)

lemma start_message_ok:
  assumes "worker_ok w" "jok config"
  shows "worker_ok (handleStartTunnel fresh config w)"
proof -
  have "task_ok (PersistStart tid (jset (js ''tunnelId'') (JText tid) config), Waiting)" for tid
    using assms(2) by (simp add: task_ok_def jset_object has_id_def)
  then show ?thesis using assms(1) by (simp add: handleStartTunnel_def Let_def begin_ok)
qed

lemma start_all_ok: "worker_ok w \<Longrightarrow> list_all jok ts \<Longrightarrow> worker_ok (start_all uuids ts w)"
  by (induction ts arbitrary: w uuids) (simp_all add: start_message_ok)

lemma restart_ok: "worker_ok w \<Longrightarrow> worker_ok (start_all uuids (restartable (bg_store w)) (w\<lparr>bg_rules := r\<rparr>))"
  by (rule start_all_ok) (auto simp: worker_ok_def store_ok_def restartable_def list_all_iff)

lemma task_read_ok: "worker_ok w \<Longrightarrow> worker_ok (task_read i w)"
  by (auto simp: task_read_def worker_ok_def list_all_length nth_list_update task_ok_def)

lemma task_after_keeps_ok: "worker_ok (task_after t saved w) \<longleftrightarrow> worker_ok w"
  by (cases t) (simp_all add: worker_ok_def after_start_def after_stop_def send_out_def Let_def)

lemma task_commit_ok:
  assumes "worker_ok w"
  shows "worker_ok (task_commit i w)"
proof (cases "i < length (bg_tasks w)")
  case True
  obtain t ph where t: "bg_tasks w ! i = (t, ph)" by fastforce
  have ok: "task_ok (t, ph)" using assms True unfolding t [symmetric] by (simp add: worker_ok_def list_all_length)
  have rest: "list_all task_ok (take i (bg_tasks w) @ drop (Suc i) (bg_tasks w))"
    using assms by (auto simp: worker_ok_def list_all_iff dest: in_set_takeD in_set_dropD)
  show ?thesis using assms True t ok rest task_write_ok
    by (cases ph) (auto simp: task_commit_def Let_def task_after_keeps_ok, simp add: worker_ok_def)
qed (use assms in \<open>simp add: task_commit_def\<close>)

lemma bg_step_ok:
  assumes "worker_ok w" "calm (OfWorker e) p"
  shows "worker_ok (bg_step e w)"
proof (cases e)
  case (BgAlarm uuids)
  then show ?thesis using assms(1) restart_ok [OF assms(1), of uuids "bg_rules w"] by (simp add: alarm_keepalive_def)
next
  case (BgStats now tid stats)
  then show ?thesis using assms(1)
    by (auto simp: handleTunnelStats_def Let_def send_out_def task_ok_def worker_ok_def begin_task_def)
next
  case (BgStart fresh config)
  then show ?thesis using assms start_message_ok by simp
next
  case (BgStop tid)
  then show ?thesis using assms(1) by (simp add: handleStopTunnel_def worker_ok_def begin_task_def task_ok_def)
next
  case (BgStatus tid st e ep)
  then show ?thesis using assms(1) by (simp add: handleTunnelStatus_def send_out_def worker_ok_def begin_task_def task_ok_def)
qed (use assms(1) in \<open>simp_all add: task_read_ok task_commit_ok on_startup_def restart_ok\<close>)

section \<open>The panel and the worker together\<close>

definition system_ok :: "system \<Rightarrow> bool" where
  "system_ok y \<longleftrightarrow> site_ok (sy_panel y, \<lparr>sg_tunnels = bg_store (sy_worker y), sg_settings = sy_settings y\<rparr>) \<and> worker_ok (sy_worker y)"

lemma system_step_ok: "system_ok y \<Longrightarrow> calm e (sy_panel y) \<Longrightarrow> system_ok (system_step e y)"
proof (cases e)
  case (OfWorker b)
  assume "system_ok y" "calm e (sy_panel y)"
  then show ?thesis using bg_step_ok [of "sy_worker y" b "sy_panel y"] OfWorker
    by (auto simp: system_ok_def site_ok_def worker_ok_def)
next
  case (OfPanel q)
  let ?st = "(sy_panel y, \<lparr>sg_tunnels = bg_store (sy_worker y), sg_settings = sy_settings y\<rparr>)"
  assume "system_ok y" "calm e (sy_panel y)"
  then have "site_ok (panel_step q ?st)" "worker_ok (sy_worker y)" using OfPanel panel_step_ok [of ?st q] by (simp_all add: system_ok_def)
  then show ?thesis unfolding OfPanel by (cases "panel_step q ?st") (simp add: system_ok_def site_ok_def worker_ok_def)
qed

lemma system_reach_ok: "system_reach y \<Longrightarrow> system_ok y"
proof (induction rule: system_reach.induct)
  case (start ts s rules)
  then show ?case by (simp add: system_ok_def site_ok_def worker_ok_def store_ok_def new_panel_def new_worker_def, simp add: ids_ok_def)
next
  case (event y e)
  then show ?case by (simp add: system_step_ok)
next
  case (reopen y)
  then show ?case by (simp add: system_ok_def site_ok_def new_panel_def, simp add: ids_ok_def)
next
  case (revive y)
  then show ?case by (simp add: system_ok_def site_ok_def worker_ok_def new_worker_def)
qed

text \<open>
  C8. No tunnel is listed twice, nor stored twice: whatever the user does, whatever the messages,
  and however the reads and writes of the worker's tasks interleave with each other and with the
  panel's own, the ids of the panel's list and of the stored list stay distinct, and each stored
  tunnel has one. The panel may be reopened and the worker ended at any moment. Assumed is that a new id
  is fresh and that a status message is about a tunnel the panel lists; without the latter it
  fails (\<open>status_overtakes_load\<close>).
\<close>

theorem panel_ids_distinct:
  assumes "system_reach y"
  shows "distinct (map id_text (pn_tunnels (sy_panel y))) \<and> distinct (map id_text (bg_store (sy_worker y)))
    \<and> (\<forall>t \<in> set (bg_store (sy_worker y)). has_id (id_text t) t)"
  using system_reach_ok [OF assms] by (simp add: system_ok_def site_ok_def store_ok_def ids_ok_def)

text \<open>
  A status message that overtakes the first read lists its tunnel twice: the tunnel is not
  in the list yet, so the panel reads the storage for it and, when both reads have been
  answered, adds to the list that already holds it.
\<close>

theorem status_overtakes_load:
  assumes "has_id tid t"
  shows "map id_text (pn_tunnels (fst (fold panel_step
      [PanelOpen now, PanelStatus tid status err ep now, ReadServed 0, ReadServed 1, ReadServed 2, ReadDone 0, ReadDone 0, ReadDone 0]
      (new_panel, \<lparr>sg_tunnels = [t], sg_settings = s\<rparr>)))) = [tid, tid]"
proof -
  have l: "has_id tid (load_tunnel now t)" using assms by (simp add: has_id_def)
  have a: "has_id tid (load_tunnel now (apply_status status err ep t))" using assms by (simp add: has_id_def)
  show ?thesis using assms has_id_text [OF l] has_id_text [OF a]
    by (simp add: panel_open_def begin_read_def panel_status_def find_tunnel_def new_panel_def read_served_def read_done_def
        numeral_2_eq_2)
qed

section \<open>Saving\<close>

lemma read_form_valid:
  assumes "read_form m i = Inr d"
  shows "fd_endpoint d = trim (in_endpoint i) \<and> fd_endpoint d \<noteq> []
    \<and> (fd_prefix d = [] \<or> 8 \<le> length (fd_prefix d) \<and> length (fd_prefix d) \<le> 63 \<and> label_pattern (fd_prefix d))"
  using assms by (auto simp: read_form_def Let_def prefix_invalid_def split: if_splits)

lemma label_pattern_units:
  "label_pattern s \<Longrightarrow> s \<noteq> [] \<and> alnum_unit (hd s) \<and> alnum_unit (last s) \<and> (\<forall>c \<in> set s. alnum_unit c \<or> c = cu CHR ''-'')"
proof (cases s)
  case (Cons c r)
  assume l: "label_pattern s"
  show ?thesis
  proof (cases "r = []")
    case False
    then have "set r = insert (last r) (set (butlast r))" by (metis append_butlast_last_id list.simps(15) rotate1.simps(2) set_rotate1)
    then show ?thesis using l Cons False by (auto simp: list_all_iff)
  qed (use l Cons in simp)
qed simp

lemma start_config_edit:
  "find_tunnel tid ts = Some old \<Longrightarrow>
   (let c = start_config (jset (js ''status'') (JText (js ''connecting'')) (edit_tunnel d old)) in
     field c ''tunnelId'' = Some (JText tid) \<and> field c ''localEndpoint'' = Some (JText (fd_endpoint d))
     \<and> field c ''auth'' = auth_of (fd_username d) (fd_password d)
     \<and> field c ''hostname'' = (if fd_hostname d = [] then None else Some (JText (fd_hostname d)))
     \<and> field c ''prefix'' = (if fd_prefix d = [] then None else Some (JText (fd_prefix d)))
     \<and> field c ''recordMode'' = Some (JText (fd_recordMode d)))"
proof -
  assume "find_tunnel tid ts = Some old"
  then have id: "field old ''tunnelId'' = Some (JText tid)" by (auto simp: find_tunnel_def find_Some_iff has_id_def)
  show ?thesis
    by (cases "auth_of (fd_username d) (fd_password d)")
      (simp_all add: start_config_def edit_tunnel_def spread_def Let_def id record_mode_of_def truthy_def del: map_of_append)
qed

lemma find_update_found:
  assumes "find_tunnel tid ts = Some old" "field (f old) ''tunnelId'' = field old ''tunnelId''"
  shows "find_tunnel tid (update_found tid f ts) = Some (f old)"
proof -
  have "has_id tid old" using assms(1) by (auto simp: find_tunnel_def find_Some_iff)
  then have "has_id tid (f old)" using assms(2) by (simp add: has_id_def)
  then show ?thesis using assms(1) by (induction ts) (auto simp: find_tunnel_def split: if_splits)
qed

text \<open>
  C29. Saving an edit stores it and restarts the tunnel once: the stored list is the panel's with
  the edited tunnel, its endpoint not empty and its prefix absent or 8 to 63 letters, digits and
  inner hyphens; if the tunnel was active the only message is one start with the new settings,
  and otherwise none is sent.
\<close>

theorem edit_restarts_once:
  assumes "pn_editing p = Some tid" "find_tunnel tid (pn_tunnels p) = Some old" "read_form (pn_recordMode p) i = Inr d"
  shows "\<exists>p' g' c. save_form fresh now i (p, g) = Inr (p', g')
    \<and> sg_tunnels g' = map persist_tunnel (update_found tid (edit_tunnel d) (pn_tunnels p))
    \<and> pn_sent p' = pn_sent p @ (if active old then [SendStart c] else [])
    \<and> field c ''tunnelId'' = Some (JText tid) \<and> field c ''localEndpoint'' = Some (JText (trim (in_endpoint i)))
    \<and> trim (in_endpoint i) \<noteq> [] \<and> field c ''auth'' = auth_of (fd_username d) (fd_password d)
    \<and> (case field c ''prefix'' of None \<Rightarrow> True | Some v \<Rightarrow> \<exists>s. v = JText s \<and> 8 \<le> length s \<and> length s \<le> 63
         \<and> alnum_unit (hd s) \<and> alnum_unit (last s) \<and> (\<forall>u \<in> set s. alnum_unit u \<or> u = cu CHR ''-''))"
proof -
  let ?connecting = "jset (js ''status'') (JText (js ''connecting''))"
  let ?c = "start_config (?connecting (edit_tunnel d old))"
  note c = start_config_edit [OF assms(2), of d, unfolded Let_def]
  note valid = read_form_valid [OF assms(3)]
  have found: "find_tunnel tid (update_found tid (edit_tunnel d) (pn_tunnels p)) = Some (edit_tunnel d old)"
    by (rule find_update_found [OF assms(2)]) simp
  have prefix: "case field ?c ''prefix'' of None \<Rightarrow> True | Some v \<Rightarrow> \<exists>s. v = JText s \<and> 8 \<le> length s \<and> length s \<le> 63
      \<and> alnum_unit (hd s) \<and> alnum_unit (last s) \<and> (\<forall>u \<in> set s. alnum_unit u \<or> u = cu CHR ''-'')"
    using c valid label_pattern_units [of "fd_prefix d"] by auto
  obtain p' g' where saved: "save_form fresh now i (p, g) = Inr (p', g')"
    "sg_tunnels g' = map persist_tunnel (update_found tid (edit_tunnel d) (pn_tunnels p))"
    "pn_sent p' = pn_sent p @ (if active old then [SendStart ?c] else [])"
    using assms found by (auto simp: save_form_def panel_start_def persistTunnels_def send_msg_def Let_def)
  show ?thesis
    by (intro exI [of _ p'] exI [of _ g'] exI [of _ ?c] conjI saved prefix) (use c valid in auto)
qed

section \<open>The panel and the worker\<close>

text \<open>
  A deleted tunnel comes back: while an update of the worker holds the list it read, the
  user deletes the tunnel; the write that follows stores it again, the stop message only marks
  it stopped, and a panel opened later shows it.
\<close>

theorem deleted_tunnel_returns:
  assumes "has_id tid t" "p = new_panel\<lparr>pn_tunnels := [t]\<rparr>"
  shows "\<exists>t'. has_id tid t' \<and> has_status ''stopped'' t' \<and>
    (let y = system_run [OfWorker (BgStats 5000 tid stats), OfWorker (BgRead 0), OfPanel (PanelDeleteAsk tid), OfPanel PanelDeleteConfirm,
           OfWorker (BgWrite 0), OfWorker (BgStop tid), OfWorker (BgRead 0), OfWorker (BgWrite 0)]
         \<lparr>sy_panel = p, sy_settings = [], sy_worker = new_worker [t] rules\<rparr>
     in pn_tunnels (sy_panel y) = [] \<and> pn_sent (sy_panel y) = [SendStop tid] \<and> bg_store (sy_worker y) = [t'])"
proof -
  let ?t1 = "jset (js ''stats'') (JStats stats) t"
  let ?t2 = "spread ?t1 [(js ''status'', JText (js ''stopped'')), (js ''entrypoint'', JNull), (js ''error'', JNull)]"
  have t1: "has_id tid ?t1" using assms(1) by (simp add: has_id_def)
  have t2: "has_id tid ?t2" "has_status ''stopped'' ?t2" using t1 by (simp_all add: has_id_def has_status_def spread_def)
  show ?thesis
    by (intro exI [of _ ?t2] conjI t2)
      (use assms t1 in \<open>simp add: Let_def new_panel_def new_worker_def handleTunnelStats_def begin_task_def send_out_def task_read_def
        task_commit_def confirm_delete_def show_delete_def panel_delete_def send_msg_def persistTunnels_def update_where_def
        handleStopTunnel_def after_stop_def t2 spread_def\<close>)
qed

section \<open>A sample\<close>

definition sample_tunnel :: js_object where
  "sample_tunnel = [(js ''tunnelId'', JText (js ''a'')), (js ''localEndpoint'', JText (js ''localhost:80'')),
     (js ''status'', JText (js ''running''))]"

lemma sample_tunnel_id [simp]: "has_id (js ''a'') sample_tunnel" "id_text sample_tunnel = js ''a''"
  by (simp_all add: sample_tunnel_def has_id_def id_text_def)

lemma reopen_shows_stored_witness:
  "pn_tunnels (fst (read_done 1 (read_served 1 (panel_open [] (new_panel,
     persistTunnels (new_panel\<lparr>pn_tunnels := [sample_tunnel]\<rparr>) \<lparr>sg_tunnels = [], sg_settings = []\<rparr>))))) = [load_tunnel [] sample_tunnel]"
  by (subst reopen_shows_stored) (simp_all add: new_panel_def)

lemma panel_ids_distinct_witness:
  "let y = system_run [OfWorker (BgStart [] [(js ''tunnelId'', JText (js ''a''))]), OfPanel (PanelOpen []), OfWorker (BgRead 0),
       OfWorker (BgWrite 0), OfWorker (BgStart [] [(js ''tunnelId'', JText (js ''a''))]), OfPanel (ReadServed 1), OfPanel (ReadDone 1),
       OfWorker (BgRead 0), OfWorker (BgWrite 0)]
     \<lparr>sy_panel = new_panel, sy_settings = [], sy_worker = new_worker [] []\<rparr>
   in map id_text (bg_store (sy_worker y)) = [js ''a''] \<and> distinct (map id_text (pn_tunnels (sy_panel y)))"
proof -
  let ?c = "[(js ''tunnelId'', JText (js ''a''))]"
  let ?es = "[OfWorker (BgStart [] ?c), OfPanel (PanelOpen []), OfWorker (BgRead 0),
       OfWorker (BgWrite 0), OfWorker (BgStart [] ?c), OfPanel (ReadServed 1), OfPanel (ReadDone 1),
       OfWorker (BgRead 0), OfWorker (BgWrite 0)]"
  let ?y = "\<lparr>sy_panel = new_panel, sy_settings = [], sy_worker = new_worker [] []\<rparr>"
  have "system_reach ?y" by (rule system_reach.start) (simp_all add: ids_ok_def)
  then have "system_reach (system_run ?es ?y)"
    unfolding system_run.simps by (intro system_reach.event) simp_all
  from panel_ids_distinct [OF this]
  have "distinct (map id_text (pn_tunnels (sy_panel (system_run ?es ?y))))" by blast
  moreover have "map id_text (bg_store (sy_worker (system_run ?es ?y))) = [js ''a'']"
    by (simp add: new_worker_def new_panel_def handleStartTunnel_def begin_task_def Let_def task_read_def task_commit_def
        after_start_def send_out_def panel_open_def begin_read_def read_served_def read_done_def has_id_def spread_def id_text_def
        setHostnameDNR_def)
  ultimately show ?thesis unfolding Let_def by blast
qed

lemma status_overtakes_load_witness:
  "map id_text (pn_tunnels (fst (fold panel_step
      [PanelOpen [], PanelStatus (js ''a'') (JText (js ''running'')) None None [], ReadServed 0, ReadServed 1, ReadServed 2,
       ReadDone 0, ReadDone 0, ReadDone 0]
      (new_panel, \<lparr>sg_tunnels = [sample_tunnel], sg_settings = []\<rparr>)))) = [js ''a'', js ''a'']"
  by (rule status_overtakes_load) simp

definition sample_form :: form_input where
  "sample_form = \<lparr>in_name = [], in_endpoint = js ''localhost:8080'', in_hostname = [], in_prefix = js ''My-Tunnel'',
     in_auth = False, in_username = [], in_password = []\<rparr>"

lemma sample_form_read:
  "read_form (js ''off'') sample_form = Inr \<lparr>fd_name = [], fd_endpoint = js ''localhost:8080'', fd_hostname = [],
     fd_prefix = js ''my-tunnel'', fd_username = [], fd_password = [], fd_recordMode = js ''off''\<rparr>"
  by (simp add: read_form_def sample_form_def trim_def is_ws_def to_lower_def lower_unit_def prefix_invalid_def
      alnum_unit_def js_simps cu_def Let_def)

lemma edit_restarts_once_witness:
  "\<exists>p' g' c. save_form [] [] sample_form (new_panel\<lparr>pn_tunnels := [sample_tunnel], pn_editing := Some (js ''a'')\<rparr>,
       \<lparr>sg_tunnels = [], sg_settings = []\<rparr>) = Inr (p', g') \<and> pn_sent p' = [SendStart c]"
proof -
  let ?p = "new_panel\<lparr>pn_tunnels := [sample_tunnel], pn_editing := Some (js ''a'')\<rparr>"
  have "pn_editing ?p = Some (js ''a'')" "find_tunnel (js ''a'') (pn_tunnels ?p) = Some sample_tunnel" "active sample_tunnel"
    "pn_sent ?p = []" by (simp_all add: find_tunnel_def active_def has_status_def new_panel_def, simp add: sample_tunnel_def)
  moreover have "read_form (pn_recordMode ?p) sample_form = Inr \<lparr>fd_name = [], fd_endpoint = js ''localhost:8080'',
      fd_hostname = [], fd_prefix = js ''my-tunnel'', fd_username = [], fd_password = [], fd_recordMode = js ''off''\<rparr>"
    using sample_form_read by (simp add: new_panel_def)
  ultimately show ?thesis
    using edit_restarts_once [of ?p "js ''a''" sample_tunnel sample_form _ "[]" "[]" "\<lparr>sg_tunnels = [], sg_settings = []\<rparr>"] by fastforce
qed

lemma deleted_tunnel_returns_witness:
  "\<exists>t'. has_id (js ''a'') t' \<and> has_status ''stopped'' t' \<and>
    (let y = system_run [OfWorker (BgStats 5000 (js ''a'') \<lparr>snap_input = 0, snap_output = 0, snap_total = 0, snap_current = 0,
              snap_requests = 0, inputRate = 0, outputRate = 0, connsRate = 0\<rparr>), OfWorker (BgRead 0),
           OfPanel (PanelDeleteAsk (js ''a'')), OfPanel PanelDeleteConfirm, OfWorker (BgWrite 0), OfWorker (BgStop (js ''a'')),
           OfWorker (BgRead 0), OfWorker (BgWrite 0)]
         \<lparr>sy_panel = new_panel\<lparr>pn_tunnels := [sample_tunnel]\<rparr>, sy_settings = [], sy_worker = new_worker [sample_tunnel] []\<rparr>
     in pn_tunnels (sy_panel y) = [] \<and> pn_sent (sy_panel y) = [SendStop (js ''a'')] \<and> bg_store (sy_worker y) = [t'])"
  by (rule deleted_tunnel_returns) simp_all

text \<open>The old switch of the theme is never migrated: the panel starts with a theme.\<close>

lemma dark_mode_not_migrated: "field (merge_settings (pn_settings new_panel) stored) ''theme'' \<noteq> None
  \<and> merge_settings (pn_settings new_panel) stored = spread (pn_settings new_panel) stored"
proof -
  have keeps: "map_of (fold (\<lambda>(k, v). jset k v) over t) key \<noteq> None" if "map_of t key \<noteq> None" for over t and key :: jstr
    using that by (induction over arbitrary: t) (auto simp: update_conv')
  have "field (spread (pn_settings new_panel) stored) ''theme'' \<noteq> None"
    unfolding spread_def by (rule keeps) (simp add: new_panel_def)
  then show ?thesis by (auto simp: merge_settings_def Let_def)
qed

end
