(* ===== verification/WebStores.thy ===== *)
theory WebStores
  imports JsText
begin

text \<open>
  The stores of the web interface, \<open>web-src/src/store\<close>: the lists of tunnels and entrypoints
  with their pending requests, the poll of the statistics and the settings. A request and what
  follows its answer are separate steps, and requests overlap; the answers are the backend's and
  arrive as arguments.
\<close>

section \<open>Items\<close>

text \<open>A tunnel or an entrypoint; a field that is absent reads as undefined.\<close>

record 'j item =
  it_id :: jstr
  it_favorite :: bool
  it_fields :: "(jstr, 'j) jsmap"

definition TUNNEL_STATS_FIELDS :: "jstr list" where
  "TUNNEL_STATS_FIELDS = map js [''entrypoint'', ''stats'', ''status'', ''error'', ''peer_stats'', ''lan'']"

definition ENTRYPOINT_STATS_FIELDS :: "jstr list" where
  "ENTRYPOINT_STATS_FIELDS = map js [''entrypoint'', ''stats'', ''status'', ''error'', ''peer_transport'', ''peer_rtt_ms'',
     ''peer_rtt_live'', ''peer_rto_ms'', ''peer_rttvar_ms'', ''peer_kcp_live'', ''lan_routes'']"

definition copy_field :: "'j item \<Rightarrow> jstr \<Rightarrow> 'j item \<Rightarrow> 'j item" where
  "copy_field s k t =
     t\<lparr>it_fields := (case jget (it_fields s) k of None \<Rightarrow> jdelete k (it_fields t) | Some v \<Rightarrow> jset k v (it_fields t))\<rparr>"

definition replace_item :: "jstr \<Rightarrow> 'j item \<Rightarrow> 'j item list \<Rightarrow> 'j item list" where
  "replace_item i t items = map (\<lambda>x. if it_id x = i then t else x) items"

definition set_favorite :: "jstr \<Rightarrow> bool \<Rightarrow> 'j item list \<Rightarrow> 'j item list" where
  "set_favorite i b items = map (\<lambda>x. if it_id x = i then x\<lparr>it_favorite := b\<rparr> else x) items"

section \<open>The list stores\<close>

text \<open>What is left to do when the answer to a request arrives.\<close>

datatype cont =
    AfterList
  | AfterCreate
  | AfterUpdate jstr
  | AfterDelete jstr
  | AfterChange
  | AfterGet jstr bool

datatype 'j reply = Listed "'j item list" | Answered "'j item" | Accepted | Failed

record 'j store =
  st_items :: "'j item list"
  st_loading :: bool
  st_pending :: "cont list"
  st_notified :: nat

definition new_store :: "'j store" where
  "new_store = \<lparr>st_items = [], st_loading = False, st_pending = [], st_notified = 0\<rparr>"

definition notify :: "'j store \<Rightarrow> 'j store" where
  "notify s = s\<lparr>st_notified := st_notified s + 1\<rparr>"

definition await :: "cont \<Rightarrow> 'j store \<Rightarrow> 'j store" where
  "await c s = s\<lparr>st_pending := st_pending s @ [c]\<rparr>"

definition store_refresh :: "'j store \<Rightarrow> 'j store" where
  "store_refresh s = await AfterList (notify (s\<lparr>st_loading := True\<rparr>))"

definition store_create :: "'j store \<Rightarrow> 'j store" where
  "store_create s = await AfterCreate s"

definition store_update :: "jstr \<Rightarrow> 'j store \<Rightarrow> 'j store" where
  "store_update i s = await (AfterUpdate i) s"

definition store_remove :: "jstr \<Rightarrow> 'j store \<Rightarrow> 'j store" where
  "store_remove i s = await (AfterDelete i) s"

text \<open>\<open>start\<close>, \<open>stop\<close> and \<open>resetStats\<close> send a request and refresh when it has been answered.\<close>

definition store_change :: "'j store \<Rightarrow> 'j store" where
  "store_change s = await AfterChange s"

definition toggleFavorite :: "jstr \<Rightarrow> 'j store \<Rightarrow> 'j store" where
  "toggleFavorite i s =
     (case find (\<lambda>x. it_id x = i) (st_items s) of
        None \<Rightarrow> s
      | Some x \<Rightarrow>
          await (AfterGet i (it_favorite x))
            (notify (s\<lparr>st_items := set_favorite i (\<not> it_favorite x) (st_items s)\<rparr>)))"

text \<open>An answer of another kind than the request's does not occur.\<close>

fun store_settle :: "cont \<Rightarrow> 'j reply \<Rightarrow> 'j store \<Rightarrow> 'j store" where
  "store_settle AfterList (Listed items) s = notify (s\<lparr>st_items := items, st_loading := False\<rparr>)"
| "store_settle AfterList _ s = notify (s\<lparr>st_loading := False\<rparr>)"
| "store_settle AfterCreate (Answered t) s = notify (s\<lparr>st_items := st_items s @ [t]\<rparr>)"
| "store_settle (AfterUpdate i) (Answered t) s = notify (s\<lparr>st_items := replace_item i t (st_items s)\<rparr>)"
| "store_settle (AfterDelete i) Accepted s = notify (s\<lparr>st_items := filter (\<lambda>x. it_id x \<noteq> i) (st_items s)\<rparr>)"
| "store_settle AfterChange Accepted s = store_refresh s"
| "store_settle (AfterGet i current) (Answered t) s = notify (s\<lparr>st_items := replace_item i t (st_items s)\<rparr>)"
| "store_settle (AfterGet i current) _ s = notify (s\<lparr>st_items := set_favorite i current (st_items s)\<rparr>)"
| "store_settle _ _ s = s"

definition applyStats :: "jstr list \<Rightarrow> 'j item list \<Rightarrow> 'j store \<Rightarrow> 'j store" where
  "applyStats ks statsList s =
     notify (s\<lparr>st_items := fold (\<lambda>x items. map (\<lambda>t. if it_id t = it_id x then fold (copy_field x) ks t else t) items)
       statsList (st_items s)\<rparr>)"

datatype 'j store_event =
    CallRefresh
  | CallCreate
  | CallUpdate jstr
  | CallRemove jstr
  | CallChange
  | CallToggle jstr
  | Reply nat "'j reply"
  | Stats "'j item list"

fun store_step :: "jstr list \<Rightarrow> 'j store_event \<Rightarrow> 'j store \<Rightarrow> 'j store" where
  "store_step ks CallRefresh s = store_refresh s"
| "store_step ks CallCreate s = store_create s"
| "store_step ks (CallUpdate i) s = store_update i s"
| "store_step ks (CallRemove i) s = store_remove i s"
| "store_step ks CallChange s = store_change s"
| "store_step ks (CallToggle i) s = toggleFavorite i s"
| "store_step ks (Reply k r) s =
     (if k < length (st_pending s)
      then store_settle (st_pending s ! k) r (s\<lparr>st_pending := take k (st_pending s) @ drop (Suc k) (st_pending s)\<rparr>) else s)"
| "store_step ks (Stats l) s = applyStats ks l s"

fun store_run :: "jstr list \<Rightarrow> 'j store_event list \<Rightarrow> 'j store \<Rightarrow> 'j store" where
  "store_run ks [] s = s"
| "store_run ks (e # es) s = store_run ks es (store_step ks e s)"

section \<open>The poll of the statistics\<close>

text \<open>The intervals that are armed; an interval fires until it is cleared.\<close>

record 'j poller =
  po_stats :: "(jstr, 'j) jsmap"
  po_timer :: "nat option"
  po_armed :: "(nat \<times> nat) list"
  po_next :: nat

definition new_poller :: "'j poller" where
  "new_poller = \<lparr>po_stats = [], po_timer = None, po_armed = [], po_next = 0\<rparr>"

definition arm :: "nat \<Rightarrow> 'j poller \<Rightarrow> 'j poller" where
  "arm ms p = p\<lparr>po_timer := Some (po_next p), po_armed := po_armed p @ [(po_next p, ms)], po_next := po_next p + 1\<rparr>"

definition disarm :: "nat \<Rightarrow> 'j poller \<Rightarrow> 'j poller" where
  "disarm k p = p\<lparr>po_armed := filter (\<lambda>a. fst a \<noteq> k) (po_armed p)\<rparr>"

definition startPolling :: "nat \<Rightarrow> 'j poller \<Rightarrow> 'j poller" where
  "startPolling stats_interval p =
     (if po_timer p \<noteq> None then p else arm ((if stats_interval = 0 then 3 else stats_interval) * 1000) p)"

definition stopPolling :: "'j poller \<Rightarrow> 'j poller" where
  "stopPolling p = (case po_timer p of None \<Rightarrow> p | Some k \<Rightarrow> (disarm k p)\<lparr>po_timer := None\<rparr>)"

definition updatePollingInterval :: "int \<Rightarrow> 'j poller \<Rightarrow> 'j poller" where
  "updatePollingInterval intervalSec p =
     (case po_timer p of
        None \<Rightarrow> p
      | Some k \<Rightarrow> arm (nat (if intervalSec > 0 then intervalSec else 3) * 1000) (disarm k p))"

text \<open>The map is rebuilt from the snapshot, the entrypoints after the tunnels.\<close>

definition stats_map :: "jstr \<Rightarrow> 'j item list \<Rightarrow> 'j item list \<Rightarrow> (jstr, 'j) jsmap" where
  "stats_map key tunnels entrypoints =
     fold (\<lambda>t m. case jget (it_fields t) key of None \<Rightarrow> m | Some v \<Rightarrow> jset (it_id t) v m) (tunnels @ entrypoints) []"

definition poll :: "('j item list \<times> 'j item list) option \<Rightarrow> 'j poller \<times> 'j store \<times> 'j store \<Rightarrow> 'j poller \<times> 'j store \<times> 'j store" where
  "poll answer w =
     (case w of (p, ts, es) \<Rightarrow>
        case answer of
          None \<Rightarrow> w
        | Some (tunnels, entrypoints) \<Rightarrow>
            (p\<lparr>po_stats := stats_map (js ''stats'') tunnels entrypoints\<rparr>,
             applyStats TUNNEL_STATS_FIELDS tunnels ts, applyStats ENTRYPOINT_STATS_FIELDS entrypoints es))"

section \<open>Settings\<close>

record 'p app_settings =
  as_server :: jstr
  as_entrypoint :: jstr
  as_insecure :: bool
  as_lang :: jstr
  as_theme :: jstr
  as_interval :: nat
  as_inspector :: jstr
  as_p2p :: "'p option"

record 'p settings_update =
  up_server :: "jstr option"
  up_entrypoint :: "jstr option"
  up_insecure :: "bool option"
  up_lang :: "jstr option"
  up_theme :: "jstr option"
  up_interval :: "nat option"
  up_inspector :: "jstr option"
  up_p2p :: "'p option"

definition DEFAULT_SETTINGS :: "'p app_settings" where
  "DEFAULT_SETTINGS = \<lparr>as_server = js ''wisper.gost.run'', as_entrypoint = js ''gost.run'', as_insecure = False, as_lang = js ''en'',
     as_theme = js ''system'', as_interval = 3, as_inspector = [], as_p2p = None\<rparr>"

definition or_else :: "jstr \<Rightarrow> jstr \<Rightarrow> jstr" where
  "or_else s d = (if s = [] then d else s)"

text \<open>What the browser keeps: the theme and the language last applied.\<close>

record web_local =
  wl_theme :: "jstr option"
  wl_lang :: "jstr option"
  wl_dark :: bool
  wl_locale :: jstr

definition getStoredTheme :: "web_local \<Rightarrow> jstr" where
  "getStoredTheme l = (case wl_theme l of None \<Rightarrow> js ''system'' | Some s \<Rightarrow> or_else s (js ''system''))"

definition applyTheme :: "bool \<Rightarrow> jstr \<Rightarrow> web_local \<Rightarrow> web_local" where
  "applyTheme prefers_dark pref l =
     l\<lparr>wl_dark := (if pref = js ''system'' then prefers_dark else pref = js ''dark''), wl_theme := Some pref\<rparr>"

definition loadSettings :: "bool \<Rightarrow> 'p app_settings option \<Rightarrow> 'p app_settings \<times> web_local \<Rightarrow> 'p app_settings \<times> web_local" where
  "loadSettings prefers_dark answer w =
     (case w of (s, l) \<Rightarrow>
        let s1 = (case answer of
            Some cfg \<Rightarrow>
              \<lparr>as_server = or_else (as_server cfg) (js ''wisper.gost.run''), as_entrypoint = or_else (as_entrypoint cfg) (js ''gost.run''),
               as_insecure = as_insecure cfg, as_lang = or_else (as_lang cfg) (js ''en''),
               as_theme = or_else (as_theme cfg) (getStoredTheme l), as_interval = (if as_interval cfg = 0 then 3 else as_interval cfg),
               as_inspector = as_inspector cfg, as_p2p = as_p2p cfg\<rparr>
          | None \<Rightarrow> s\<lparr>as_theme := getStoredTheme l, as_lang := (case wl_lang l of None \<Rightarrow> js ''en'' | Some x \<Rightarrow> or_else x (js ''en''))\<rparr>)
        in (s1, (applyTheme prefers_dark (as_theme s1) l)\<lparr>wl_locale := as_lang s1\<rparr>))"

definition given :: "'a option \<Rightarrow> 'a \<Rightarrow> 'a" where
  "given v d = (case v of None \<Rightarrow> d | Some x \<Rightarrow> x)"

text \<open>The update is applied here whether or not the backend took it.\<close>

definition updateSettings :: "bool \<Rightarrow> 'p settings_update \<Rightarrow> 'p app_settings \<times> web_local \<Rightarrow> 'p app_settings \<times> web_local" where
  "updateSettings prefers_dark u w =
     (case w of (s, l) \<Rightarrow>
        let s1 = s\<lparr>as_server := given (up_server u) (as_server s), as_entrypoint := given (up_entrypoint u) (as_entrypoint s),
                   as_insecure := given (up_insecure u) (as_insecure s), as_lang := given (up_lang u) (as_lang s),
                   as_theme := given (up_theme u) (as_theme s), as_interval := given (up_interval u) (as_interval s),
                   as_inspector := given (up_inspector u) (as_inspector s),
                   as_p2p := (case up_p2p u of None \<Rightarrow> as_p2p s | Some p \<Rightarrow> Some p)\<rparr>;
            l1 = (case up_lang u of None \<Rightarrow> l | Some lang \<Rightarrow> l\<lparr>wl_locale := lang, wl_lang := Some lang\<rparr>);
            l2 = (case up_theme u of None \<Rightarrow> l1 | Some theme \<Rightarrow> applyTheme prefers_dark theme l1)
        in (s1, l2))"

end
