(* ===== verification/WebStoresCorrect.thy ===== *)
theory WebStoresCorrect
  imports WebStores
begin

text \<open>
  The web stores: the spinner is never left on, requests made one at a time keep the list equal
  to the backend's, overlapping ones need not, the poll changes only what it copies and one
  interval is armed at most.
\<close>

section \<open>The spinner\<close>

definition spinner_ok :: "'j store \<Rightarrow> bool" where
  "spinner_ok s \<longleftrightarrow> (st_loading s \<longrightarrow> AfterList \<in> set (st_pending s))"

lemma settle_spinner:
  assumes "st_loading s \<longrightarrow> c = AfterList \<or> AfterList \<in> set (st_pending s)"
  shows "spinner_ok (store_settle c r s)"
  using assms
  by (cases c; cases r) (auto simp: spinner_ok_def notify_def store_refresh_def await_def)

lemma pending_split: "k < length xs \<Longrightarrow> set xs = insert (xs ! k) (set (take k xs @ drop (Suc k) xs))"
  by (metis Un_insert_right id_take_nth_drop list.simps(15) set_append)

lemma store_step_spinner: "spinner_ok s \<Longrightarrow> spinner_ok (store_step ks e s)"
proof (cases e)
  case (Reply k r)
  assume ok: "spinner_ok s"
  show ?thesis
  proof (cases "k < length (st_pending s)")
    case True
    let ?s = "s\<lparr>st_pending := take k (st_pending s) @ drop (Suc k) (st_pending s)\<rparr>"
    have "st_loading ?s \<longrightarrow> st_pending s ! k = AfterList \<or> AfterList \<in> set (st_pending ?s)"
      using ok pending_split [OF True] by (auto simp: spinner_ok_def)
    then show ?thesis using settle_spinner [of ?s] True Reply by simp
  qed (use ok Reply in simp)
next
  case (CallToggle i)
  then show "spinner_ok s \<Longrightarrow> ?thesis"
    by (auto simp: spinner_ok_def toggleFavorite_def notify_def await_def split: option.splits)
qed (auto simp: spinner_ok_def store_refresh_def store_create_def store_update_def store_remove_def store_change_def
      applyStats_def notify_def await_def)

text \<open>
  The spinner is never left on: after any calls, answers, failures and polls in any order,
  loading is set only while a request for the list is under way, so once every request has been
  answered it is off.
\<close>

theorem spinner_never_pinned:
  "let s = store_run ks es new_store in st_loading s \<longrightarrow> AfterList \<in> set (st_pending s)"
proof -
  have "spinner_ok (store_run ks es s)" if "spinner_ok s" for s :: "'a store"
    using that by (induction es arbitrary: s) (simp_all add: store_step_spinner)
  moreover have "spinner_ok new_store" by (simp add: spinner_ok_def new_store_def)
  ultimately show ?thesis by (auto simp: Let_def spinner_ok_def)
qed

section \<open>The poll\<close>

lemma copy_field_simps [simp]:
  "it_id (copy_field s k t) = it_id t" "it_favorite (copy_field s k t) = it_favorite t"
  "jget (it_fields (copy_field s k t)) k' = (if k' = k then jget (it_fields s) k else jget (it_fields t) k')"
  by (auto simp: copy_field_def update_conv' delete_conv' split: option.splits)

lemma fold_copy_field:
  "it_id (fold (copy_field s) ks t) = it_id t \<and> it_favorite (fold (copy_field s) ks t) = it_favorite t
   \<and> jget (it_fields (fold (copy_field s) ks t)) k = (if k \<in> set ks then jget (it_fields s) k else jget (it_fields t) k)"
  by (induction ks arbitrary: t) auto

definition same_item :: "'j item \<Rightarrow> 'j item \<Rightarrow> bool" where
  "same_item t u \<longleftrightarrow> it_id t = it_id u \<and> it_favorite t = it_favorite u \<and> jget (it_fields t) = jget (it_fields u)"

text \<open>The reference: of the entries of the snapshot with the item's id the last one counts.\<close>

definition polled :: "jstr list \<Rightarrow> 'j item list \<Rightarrow> 'j item \<Rightarrow> 'j item" where
  "polled ks l t = (case find (\<lambda>x. it_id x = it_id t) (rev l) of None \<Rightarrow> t | Some x \<Rightarrow> fold (copy_field x) ks t)"

lemma fold_map_items:
  "fold (\<lambda>x items. map (f x) items) l items = map (\<lambda>t. fold f l t) items"
  by (induction l arbitrary: items) (simp_all add: o_def)

lemma find_append: "find P (xs @ ys) = (case find P xs of None \<Rightarrow> find P ys | Some x \<Rightarrow> Some x)"
  by (induction xs) auto

lemma polled_fold:
  "same_item (fold (\<lambda>x t. if it_id t = it_id x then fold (copy_field x) ks t else t) l t) (polled ks l t)"
proof (induction l rule: rev_induct)
  case (snoc x l)
  let ?u = "fold (\<lambda>x t. if it_id t = it_id x then fold (copy_field x) ks t else t) l t"
  have id: "it_id ?u = it_id t"
    using snoc by (auto simp: same_item_def polled_def fold_copy_field split: option.splits)
  show ?case
  proof (cases "it_id t = it_id x")
    case True
    have "jget (it_fields ?u) k = jget (it_fields t) k" if "k \<notin> set ks" for k
      using snoc that by (auto simp: same_item_def polled_def fold_copy_field split: option.splits)
    moreover have "it_favorite ?u = it_favorite t"
      using snoc by (auto simp: same_item_def polled_def fold_copy_field split: option.splits)
    ultimately show ?thesis using True id by (auto simp: same_item_def polled_def fold_copy_field)
  next
    case False
    then show ?thesis using snoc id by (simp add: polled_def)
  qed
qed (simp add: polled_def same_item_def)

text \<open>
  The poll is exact: it keeps the items, their order and everything but the copied fields;
  of an item in the snapshot each copied field becomes that of its last entry, absent ones
  included, and an item that is not in it keeps all.
\<close>

theorem poll_updates_exactly:
  "list_all2 same_item (st_items (applyStats ks l s)) (map (polled ks l) (st_items s))
   \<and> (\<forall>t. it_id (polled ks l t) = it_id t \<and> it_favorite (polled ks l t) = it_favorite t
        \<and> jget (it_fields (polled ks l t)) k =
            (case find (\<lambda>x. it_id x = it_id t) (rev l) of
               Some x \<Rightarrow> if k \<in> set ks then jget (it_fields x) k else jget (it_fields t) k
             | None \<Rightarrow> jget (it_fields t) k))
   \<and> st_loading (applyStats ks l s) = st_loading s \<and> st_pending (applyStats ks l s) = st_pending s"
proof -
  let ?f = "\<lambda>x t. if it_id t = it_id x then fold (copy_field x) ks t else t"
  have "st_items (applyStats ks l s) = map (fold ?f l) (st_items s)"
    by (simp add: applyStats_def notify_def fold_map_items)
  moreover have "list_all2 same_item (map (fold ?f l) (st_items s)) (map (polled ks l) (st_items s))"
    by (simp add: list_all2_map1 list_all2_map2 list_all2_same polled_fold)
  ultimately show ?thesis
    by (simp add: polled_def fold_copy_field applyStats_def notify_def split: option.splits)
qed

section \<open>One request at a time\<close>

text \<open>The requests of the store; a change is a start, a stop or a reset of the statistics.\<close>

datatype 'j request =
    RqRefresh
  | RqCreate "'j item"
  | RqUpdate "'j item"
  | RqPeers "'j item"
  | RqRemove jstr
  | RqChange "'j item"
  | RqToggle jstr

text \<open>
  What the handlers of \<open>api/tunnel_handler.go\<close> make of the backend's list: a creation is added at
  the end, an update is taken out and added at the end (\<open>tunnel.Delete\<close>, then \<open>tunnel.Add\<close>), an
  allowlist and a change are set in place, and reading changes nothing.
\<close>

fun backend_effect :: "'j request \<Rightarrow> 'j item list \<Rightarrow> 'j item list" where
  "backend_effect (RqCreate t) srv = srv @ [t]"
| "backend_effect (RqUpdate t) srv = filter (\<lambda>x. it_id x \<noteq> it_id t) srv @ [t]"
| "backend_effect (RqPeers t) srv = replace_item (it_id t) t srv"
| "backend_effect (RqRemove i) srv = filter (\<lambda>x. it_id x \<noteq> i) srv"
| "backend_effect (RqChange t) srv = replace_item (it_id t) t srv"
| "backend_effect _ srv = srv"

text \<open>
  How it ends: it was done and answered; it was refused; it was done, but the list the store then
  asks for was refused; or it failed and left the backend in any state, as a request whose
  answer is lost does.
\<close>

datatype 'j req_end = Done | Denied | Unseen | Astray "'j item list"

definition served :: "'j request \<Rightarrow> 'j req_end \<Rightarrow> 'j item list \<Rightarrow> 'j item list" where
  "served r out srv =
     (case out of Done \<Rightarrow> backend_effect r srv | Unseen \<Rightarrow> backend_effect r srv | Denied \<Rightarrow> srv | Astray l \<Rightarrow> l)"

text \<open>A request for an item that is not there is refused, and a new item has a new id.\<close>

fun possible :: "'j request \<Rightarrow> 'j req_end \<Rightarrow> 'j item list \<Rightarrow> bool" where
  "possible r Denied srv \<longleftrightarrow> True"
| "possible r (Astray l) srv \<longleftrightarrow> distinct (map it_id l)"
| "possible r Unseen srv \<longleftrightarrow> (case r of RqChange t \<Rightarrow> it_id t \<in> it_id ` set srv | _ \<Rightarrow> False)"
| "possible r Done srv \<longleftrightarrow>
     (case r of RqCreate t \<Rightarrow> it_id t \<notin> it_id ` set srv | RqUpdate t \<Rightarrow> it_id t \<in> it_id ` set srv
      | RqPeers t \<Rightarrow> it_id t \<in> it_id ` set srv | RqRemove i \<Rightarrow> i \<in> it_id ` set srv | RqChange t \<Rightarrow> it_id t \<in> it_id ` set srv
      | RqToggle i \<Rightarrow> i \<in> it_id ` set srv | RqRefresh \<Rightarrow> True)"

text \<open>The call and the answers of a request, with nothing in between; \<open>srv\<close> is the backend's list after it.\<close>

fun exchange :: "'j request \<Rightarrow> 'j req_end \<Rightarrow> 'j item list \<Rightarrow> 'j store_event list" where
  "exchange RqRefresh out srv = [CallRefresh, Reply 0 (if out = Done then Listed srv else Failed)]"
| "exchange (RqCreate t) out srv = [CallCreate, Reply 0 (if out = Done then Answered t else Failed)]"
| "exchange (RqUpdate t) out srv = [CallUpdate (it_id t), Reply 0 (if out = Done then Answered t else Failed)]"
| "exchange (RqPeers t) out srv = [CallUpdate (it_id t), Reply 0 (if out = Done then Answered t else Failed)]"
| "exchange (RqRemove i) out srv = [CallRemove i, Reply 0 (if out = Done then Accepted else Failed)]"
| "exchange (RqChange t) out srv =
     (if out = Done then [CallChange, Reply 0 Accepted, Reply 0 (Listed srv)]
      else if out = Unseen then [CallChange, Reply 0 Accepted, Reply 0 Failed] else [CallChange, Reply 0 Failed])"
| "exchange (RqToggle i) out srv =
     [CallToggle i, Reply 0 (case find (\<lambda>x. it_id x = i) srv of Some x \<Rightarrow> if out = Done then Answered x else Failed | None \<Rightarrow> Failed)]"

text \<open>Whether the store is up to date after it: a list it was given makes it so, a change it did not see ends it.\<close>

definition up_to_date :: "'j request \<Rightarrow> 'j req_end \<Rightarrow> bool \<Rightarrow> bool" where
  "up_to_date r out before \<longleftrightarrow>
     (case out of Denied \<Rightarrow> before | Unseen \<Rightarrow> False | Astray l \<Rightarrow> False
      | Done \<Rightarrow> before \<or> (case r of RqRefresh \<Rightarrow> True | RqChange t \<Rightarrow> True | _ \<Rightarrow> False))"

fun serial :: "('j request \<times> 'j req_end) list \<Rightarrow> 'j item list \<Rightarrow> bool \<Rightarrow> 'j store_event list \<times> 'j item list \<times> bool" where
  "serial [] srv fresh = ([], srv, fresh)"
| "serial ((r, out) # rs) srv fresh =
     (let srv1 = served r out srv; (es, srv2, fresh2) = serial rs srv1 (up_to_date r out fresh)
      in (exchange r out srv1 @ es, srv2, fresh2))"

fun all_possible :: "('j request \<times> 'j req_end) list \<Rightarrow> 'j item list \<Rightarrow> bool" where
  "all_possible [] srv \<longleftrightarrow> True"
| "all_possible ((r, out) # rs) srv \<longleftrightarrow> possible r out srv \<and> all_possible rs (served r out srv)"

definition holds_items :: "'j item list \<Rightarrow> 'j store \<Rightarrow> bool" where
  "holds_items srv s \<longleftrightarrow> set (st_items s) = set srv \<and> distinct (map it_id (st_items s))"

lemma replace_item_ids: "map it_id (replace_item (it_id t) t xs) = map it_id xs"
  by (auto simp: replace_item_def)

lemma replace_item_set:
  "it_id t \<in> it_id ` set xs \<Longrightarrow> set (replace_item (it_id t) t xs) = insert t {x \<in> set xs. it_id x \<noteq> it_id t}"
  by (auto simp: replace_item_def)

lemma served_distinct: "distinct (map it_id srv) \<Longrightarrow> possible r out srv \<Longrightarrow> distinct (map it_id (served r out srv))"
  by (cases out; cases r) (auto simp: served_def replace_item_ids distinct_map_filter)

lemma toggle_back:
  assumes "x \<in> set items" "it_id x = i" "distinct (map it_id items)"
  shows "replace_item i x (set_favorite i b items) = items" "set_favorite i (it_favorite x) (set_favorite i b items) = items"
proof -
  have u: "y = x" if "y \<in> set items" "it_id y = i" for y
    using that assms by (auto simp: distinct_map inj_on_def)
  show "replace_item i x (set_favorite i b items) = items"
    unfolding replace_item_def set_favorite_def map_map by (rule map_idI) (use u assms(2) in auto)
  show "set_favorite i (it_favorite x) (set_favorite i b items) = items"
    unfolding set_favorite_def map_map by (rule map_idI) (use u assms(2) in auto)
qed

lemma find_by_id:
  assumes "distinct (map it_id xs)" "x \<in> set xs"
  shows "find (\<lambda>y. it_id y = it_id x) xs = Some x"
  using assms by (induction xs) (auto simp: rev_image_eqI)

lemma store_run_append: "store_run ks (es @ fs) s = store_run ks fs (store_run ks es s)"
  by (induction es arbitrary: s) simp_all

lemmas store_defs = store_refresh_def store_create_def store_update_def store_remove_def store_change_def
  toggleFavorite_def notify_def await_def

lemma exchange_idle:
  assumes "st_pending s = []" "\<not> st_loading s" "possible r out srv"
  shows "st_pending (store_run ks (exchange r out srv') s) = []" "\<not> st_loading (store_run ks (exchange r out srv') s)"
  using assms by (cases r; cases out; auto simp: store_defs split: option.splits)+

lemma toggle_holds:
  assumes "st_pending s = []" "holds_items srv s" "distinct (map it_id srv)"
  shows "st_items (store_run ks (exchange (RqToggle i) out srv) s) = st_items s"
proof (cases "find (\<lambda>x. it_id x = i) (st_items s)")
  case None
  then show ?thesis using assms(1) by (simp add: store_defs)
next
  case (Some x)
  then have x: "x \<in> set (st_items s)" "it_id x = i" by (auto simp: find_Some_iff)
  then have "find (\<lambda>x. it_id x = i) srv = Some x"
    using find_by_id [OF assms(3), of x] assms(2) by (simp add: holds_items_def)
  then show ?thesis
    using assms(1,2) Some toggle_back [OF x] by (auto simp: store_defs holds_items_def)
qed

lemma exchange_holds:
  assumes "st_pending s = []" "distinct (map it_id srv)" "possible r out srv" "fresh \<Longrightarrow> holds_items srv s"
    and "up_to_date r out fresh"
  shows "holds_items (served r out srv) (store_run ks (exchange r out (served r out srv)) s)"
proof (cases r)
  case (RqToggle i)
  then have "fresh" "served r out srv = srv"
    using assms(3,5) by (cases out; auto simp: served_def up_to_date_def)+
  moreover from this have "holds_items srv s" using assms(4) by blast
  ultimately show ?thesis using toggle_holds [OF assms(1) _ assms(2)] RqToggle by (simp add: holds_items_def)
next
  case RqRefresh
  then show ?thesis using assms by (cases out) (auto simp: served_def up_to_date_def store_defs holds_items_def)
next
  case (RqChange t)
  then show ?thesis
    using assms by (cases out) (auto simp: served_def up_to_date_def store_defs holds_items_def replace_item_ids)
next
  case (RqCreate t)
  then show ?thesis using assms by (cases out) (auto simp: served_def up_to_date_def store_defs holds_items_def)
next
  case (RqRemove i)
  then show ?thesis
    using assms by (cases out) (auto simp: served_def up_to_date_def store_defs holds_items_def distinct_map_filter)
next
  case (RqUpdate t)
  then show ?thesis
    using assms by (cases out) (auto simp: served_def up_to_date_def store_defs holds_items_def replace_item_ids replace_item_set)
next
  case (RqPeers t)
  then show ?thesis
    using assms by (cases out) (auto simp: served_def up_to_date_def store_defs holds_items_def replace_item_ids replace_item_set)
qed

text \<open>
  C13. Made one at a time, requests keep the store equal to the backend as far as the store can know:
  after any sequence of refreshes, creations, updates, saves of an allowlist, deletions, starts, stops
  and toggles, each answered or failed before the next and the backend changed by nothing else, nothing is
  pending, the spinner is off, and if the store is up to date it holds exactly the backend's items, each
  once. It is up to date from a list it was given until a change it did not see, which is a failure that
  left a trace in the backend, or a start or stop after which the list was refused.
\<close>

theorem serial_mirrors_backend:
  assumes "st_pending s = []" "\<not> st_loading s" "distinct (map it_id srv)" "fresh \<Longrightarrow> holds_items srv s" "all_possible rs srv"
    and "serial rs srv fresh = (es, srv', fresh')"
  shows "st_pending (store_run ks es s) = [] \<and> \<not> st_loading (store_run ks es s) \<and> (fresh' \<longrightarrow> holds_items srv' (store_run ks es s))"
  using assms
proof (induction rs arbitrary: s srv es fresh)
  case (Cons a rs)
  obtain r out where a: "a = (r, out)" by fastforce
  let ?srv = "served r out srv" and ?fresh = "up_to_date r out fresh"
  let ?s = "store_run ks (exchange r out ?srv) s"
  obtain es' where es: "serial rs ?srv ?fresh = (es', srv', fresh')" "es = exchange r out ?srv @ es'"
    using Cons.prems(6) a by (auto simp: Let_def split: prod.splits)
  have p: "possible r out srv" "all_possible rs ?srv" using Cons.prems(5) a by simp_all
  have "st_pending ?s = []" "\<not> st_loading ?s" using exchange_idle [OF Cons.prems(1,2) p(1)] by simp_all
  moreover have "distinct (map it_id ?srv)" by (rule served_distinct [OF Cons.prems(3) p(1)])
  moreover have "?fresh \<Longrightarrow> holds_items ?srv ?s" using exchange_holds [OF Cons.prems(1,3) p(1) Cons.prems(4)] by blast
  ultimately show ?case using Cons.IH [OF _ _ _ _ p(2) es(1)] es(2) by (simp add: store_run_append)
qed simp

text \<open>
  The order is not kept: an update leaves the item where it was in the store and moves it to the
  end in the backend, so the list jumps at the next refresh.
\<close>

lemma update_moves_item:
  fixes a b c :: "'j item"
  assumes "it_id a \<noteq> it_id b" "it_id c = it_id a" "st_pending s = []" "st_items s = [a, b]"
  shows "st_items (store_run ks (exchange (RqUpdate c) Done srv) s) = [c, b]" "backend_effect (RqUpdate c) [a, b] = [b, c]"
  using assms by (auto simp: store_defs replace_item_def)

text \<open>
  Overlapping requests can list an item twice: when the list is fetched while a creation is
  under way and its answer already holds the new item, the creation's answer appends it again.
\<close>

theorem create_overlaps_refresh:
  assumes "t \<in> set srv"
  shows "\<exists>s. s = store_run ks [CallCreate, CallRefresh, Reply 1 (Listed srv), Reply 0 (Answered t)] new_store
    \<and> \<not> distinct (map it_id (st_items s)) \<and> st_pending s = []"
  using assms by (auto simp: new_store_def store_create_def store_refresh_def notify_def await_def)

text \<open>Of two overlapping refreshes the first answer turns the spinner off.\<close>

lemma spinner_off_early:
  "let s = store_run ks [CallRefresh, CallRefresh, Reply 0 Failed] new_store in \<not> st_loading s \<and> st_pending s = [AfterList]"
  by (simp add: new_store_def store_refresh_def notify_def await_def Let_def)

section \<open>The interval\<close>

datatype poll_event = StartPolling nat | StopPolling | SetInterval int

fun poll_step :: "poll_event \<Rightarrow> 'j poller \<Rightarrow> 'j poller" where
  "poll_step (StartPolling sec) p = startPolling sec p"
| "poll_step StopPolling p = stopPolling p"
| "poll_step (SetInterval sec) p = updatePollingInterval sec p"

definition timer_ok :: "'j poller \<Rightarrow> bool" where
  "timer_ok p \<longleftrightarrow> map fst (po_armed p) = (case po_timer p of None \<Rightarrow> [] | Some k \<Rightarrow> [k])
     \<and> (\<forall>a \<in> set (po_armed p). 1000 \<le> snd a)"

lemma poll_step_timer: "timer_ok p \<Longrightarrow> timer_ok (poll_step e p)"
  by (cases e) (auto simp: timer_ok_def startPolling_def stopPolling_def updatePollingInterval_def arm_def disarm_def
      map_eq_Cons_conv split: option.splits)

text \<open>
  One interval at most polls the statistics: however the polling is started, stopped and
  given new intervals, what is armed is exactly the timer the module remembers, and it fires
  once a second at most.
\<close>

theorem one_poll_timer:
  "let p = fold poll_step es new_poller in
     length (po_armed p) = (if po_timer p = None then 0 else 1) \<and> (\<forall>(k, ms) \<in> set (po_armed p). po_timer p = Some k \<and> 1000 \<le> ms)"
proof -
  have "timer_ok (fold poll_step es p)" if "timer_ok p" for p :: "'a poller"
    using that by (induction es arbitrary: p) (simp_all add: poll_step_timer)
  moreover have "timer_ok new_poller" by (simp add: timer_ok_def new_poller_def)
  ultimately have ok: "timer_ok (fold poll_step es (new_poller :: 'a poller))" by blast
  then show ?thesis by (auto simp: Let_def timer_ok_def map_eq_Cons_conv split: option.splits)
qed

section \<open>Settings\<close>

text \<open>Settings that were loaded are complete: loading them again changes nothing.\<close>

lemma load_settings_stable:
  "fst (loadSettings dark' (Some (fst (loadSettings dark (Some cfg) w))) w') = fst (loadSettings dark (Some cfg) w)"
proof -
  have "js ''system'' \<noteq> []" "js ''en'' \<noteq> []" "js ''gost.run'' \<noteq> []" "js ''wisper.gost.run'' \<noteq> []" by simp_all
  moreover have "getStoredTheme l \<noteq> []" for l by (simp add: getStoredTheme_def or_else_def split: option.splits)
  ultimately show ?thesis
    by (cases w; cases w') (simp add: loadSettings_def or_else_def Let_def del: js_simps)
qed

section \<open>Samples\<close>

definition sample_item :: "nat item" where
  "sample_item = \<lparr>it_id = js ''t1'', it_favorite = False, it_fields = [(js ''status'', 1), (js ''name'', 2)]\<rparr>"

lemma spinner_never_pinned_witness:
  "let s = store_run [] [CallRefresh, CallRefresh, Reply 0 Failed, CallRefresh] (new_store :: nat store)
   in st_loading s \<and> AfterList \<in> set (st_pending s)"
proof -
  let ?s = "store_run [] [CallRefresh, CallRefresh, Reply 0 Failed, CallRefresh] (new_store :: nat store)"
  have "let s = ?s in st_loading s \<longrightarrow> AfterList \<in> set (st_pending s)" by (rule spinner_never_pinned)
  then show ?thesis by (simp add: Let_def new_store_def store_refresh_def notify_def await_def)
qed

lemma serial_mirrors_backend_witness:
  "let rs = [(RqCreate sample_item, Done), (RqChange (sample_item\<lparr>it_favorite := True\<rparr>), Unseen), (RqToggle (js ''t1''), Denied),
             (RqRefresh, Done)];
       (es, srv, fresh) = serial rs [] True
   in srv = [sample_item\<lparr>it_favorite := True\<rparr>] \<and> holds_items srv (store_run [] es (new_store :: nat store))"
proof -
  let ?u = "sample_item\<lparr>it_favorite := True\<rparr>"
  let ?rs = "[(RqCreate sample_item, Done), (RqChange ?u, Unseen), (RqToggle (js ''t1''), Denied), (RqRefresh, Done)]"
  obtain es where s: "serial ?rs [] True = (es, [?u], True)"
    by (simp add: Let_def served_def up_to_date_def replace_item_def)
  have "all_possible ?rs []" by (simp add: served_def)
  from serial_mirrors_backend [OF _ _ _ _ this s, of new_store "[]"] show ?thesis
    unfolding s Let_def by (simp add: new_store_def holds_items_def)
qed

lemma create_overlaps_refresh_witness:
  "\<exists>s. s = store_run [] [CallCreate, CallRefresh, Reply 1 (Listed [sample_item]), Reply 0 (Answered sample_item)] new_store
    \<and> \<not> distinct (map it_id (st_items s)) \<and> st_pending s = []"
  by (rule create_overlaps_refresh) simp

lemma one_poll_timer_witness:
  "let p = fold poll_step [StartPolling 0, SetInterval 5, StartPolling 9, SetInterval (- 1)] (new_poller :: nat poller)
   in length (po_armed p) = 1"
proof -
  let ?p = "fold poll_step [StartPolling 0, SetInterval 5, StartPolling 9, SetInterval (- 1)] (new_poller :: nat poller)"
  have "let p = ?p in length (po_armed p) = (if po_timer p = None then 0 else 1)
      \<and> (\<forall>(k, ms) \<in> set (po_armed p). po_timer p = Some k \<and> 1000 \<le> ms)" by (rule one_poll_timer)
  then show ?thesis by (simp add: Let_def new_poller_def startPolling_def updatePollingInterval_def arm_def disarm_def)
qed

end
