(* ===== verification/InspectorPage.thy ===== *)
theory InspectorPage
  imports JsText
begin

text \<open>
  The traffic inspector, \<open>web-src/src/pages/inspector-page.ts\<close>: the query mode with its pages,
  the live mode with its socket and its reconnect timer, and the handlers that switch between
  them. Queries and sockets answer later, as events.
\<close>

section \<open>State\<close>

datatype inspector_mode = QueryMode | LiveMode

datatype range_value = AllTime | Minutes nat

text \<open>The parameters of a query; the start of a range is computed from the clock when it is sent.\<close>

record query_params =
  qp_protocol :: jstr
  qp_sid :: jstr
  qp_range :: range_value
  qp_before :: "jstr option"

text \<open>An answer with code 0 and data: the list and the cursor (the empty string when absent).\<close>

datatype 'r query_answer = Page "'r list" jstr | Refused jstr

record socket =
  so_id :: nat
  so_attached :: bool
  so_closed :: bool

record 'r inspector =
  ip_mode :: inspector_mode
  ip_protocol :: jstr
  ip_records :: "'r list"
  ip_selected :: int
  ip_sid :: jstr
  ip_range :: range_value
  ip_cursor :: "jstr option"
  ip_hasMore :: bool
  ip_loading :: bool
  ip_liveConnected :: bool
  ip_liveStopped :: bool
  ip_error :: jstr
  ip_client :: "jstr option"
  ip_ws :: "nat option"
  ip_wsOk :: bool
  ip_delay :: nat
  ip_timer :: "nat option"
  ip_sockets :: "socket list"
  ip_queries :: "query_params list"
  ip_sent :: "query_params list"

text \<open>
  \<open>ip_wsOk\<close> is whether the client can make a socket: \<open>connectTail\<close> throws when its address is not a
  valid one, and in a page loaded over https when it is insecure. \<open>ip_timer\<close> is the delay of the armed reconnect timer, \<open>ip_sockets\<close> every socket made so far
  with whether its close and message handlers are still attached and whether \<open>close\<close> was called,
  \<open>ip_queries\<close> the queries under way and \<open>ip_sent\<close> all that were sent.
\<close>

definition new_inspector :: "'r inspector" where
  "new_inspector = \<lparr>ip_mode = QueryMode, ip_protocol = js ''http'', ip_records = [], ip_selected = - 1, ip_sid = [],
     ip_range = AllTime, ip_cursor = None, ip_hasMore = True, ip_loading = False, ip_liveConnected = False,
     ip_liveStopped = False, ip_error = [], ip_client = None, ip_ws = None, ip_wsOk = True, ip_delay = 1000, ip_timer = None,
     ip_sockets = [], ip_queries = [], ip_sent = []\<rparr>"

section \<open>Queries\<close>

definition initClient :: "jstr \<Rightarrow> 'r inspector \<Rightarrow> bool \<times> 'r inspector" where
  "initClient url p =
     (if url \<noteq> [] \<and> ip_client p \<noteq> Some url then (True, p\<lparr>ip_client := Some url\<rparr>) else (False, p))"

definition fetchRecords :: "jstr option \<Rightarrow> 'r inspector \<Rightarrow> 'r inspector" where
  "fetchRecords before p =
     (if ip_client p = None \<or> ip_loading p then p
      else (let q = \<lparr>qp_protocol = ip_protocol p, qp_sid = ip_sid p, qp_range = ip_range p, qp_before = before\<rparr>
            in p\<lparr>ip_loading := True, ip_error := [], ip_queries := ip_queries p @ [q], ip_sent := ip_sent p @ [q]\<rparr>))"

definition query_answered :: "nat \<Rightarrow> 'r query_answer \<Rightarrow> 'r inspector \<Rightarrow> 'r inspector" where
  "query_answered k a p =
     (if k < length (ip_queries p) then
        (let q = ip_queries p ! k;
             p1 = p\<lparr>ip_queries := take k (ip_queries p) @ drop (Suc k) (ip_queries p)\<rparr>;
             p2 = (case a of
                 Page l cursor \<Rightarrow>
                   p1\<lparr>ip_records := (if qp_before q = None then l else ip_records p1 @ l),
                      ip_cursor := (if cursor = [] then None else Some cursor), ip_hasMore := (50 \<le> length l)\<rparr>
               | Refused msg \<Rightarrow> p1\<lparr>ip_error := msg\<rparr>)
         in p2\<lparr>ip_loading := False\<rparr>)
      else p)"

definition onLoadMore :: "'r inspector \<Rightarrow> 'r inspector" where
  "onLoadMore p =
     (if ip_mode p = QueryMode \<and> ip_hasMore p \<and> ip_cursor p \<noteq> None then fetchRecords (ip_cursor p) p else p)"

section \<open>The live socket\<close>

definition set_socket :: "nat \<Rightarrow> (socket \<Rightarrow> socket) \<Rightarrow> 'r inspector \<Rightarrow> 'r inspector" where
  "set_socket k f p = p\<lparr>ip_sockets := map (\<lambda>s. if so_id s = k then f s else s) (ip_sockets p)\<rparr>"

definition closeWs :: "'r inspector \<Rightarrow> 'r inspector" where
  "closeWs p =
     (case ip_ws p of
        None \<Rightarrow> p
      | Some k \<Rightarrow> (set_socket k (\<lambda>s. s\<lparr>so_attached := False, so_closed := True\<rparr>) p)\<lparr>ip_ws := None\<rparr>)\<lparr>ip_liveConnected := False\<rparr>"

text \<open>When \<open>connectTail\<close> throws, the exception is caught, and there is no socket until something opens one again.\<close>

definition openWs :: "'r inspector \<Rightarrow> 'r inspector" where
  "openWs p =
     (if ip_client p = None then p
      else (let p1 = (closeWs p)\<lparr>ip_liveStopped := False, ip_delay := 1000\<rparr>; k = length (ip_sockets p1)
            in if ip_wsOk p1
               then p1\<lparr>ip_ws := Some k, ip_sockets := ip_sockets p1 @ [\<lparr>so_id = k, so_attached = True, so_closed = False\<rparr>]\<rparr>
               else p1))"

definition scheduleReconnect :: "'r inspector \<Rightarrow> 'r inspector" where
  "scheduleReconnect p = p\<lparr>ip_timer := Some (ip_delay p)\<rparr>"

definition timer_fires :: "'r inspector \<Rightarrow> 'r inspector" where
  "timer_fires p =
     (if ip_timer p = None then p
      else (let p1 = openWs (p\<lparr>ip_timer := None\<rparr>) in p1\<lparr>ip_delay := min (ip_delay p1 * 2) 30000\<rparr>))"

definition attached :: "nat \<Rightarrow> 'r inspector \<Rightarrow> bool" where
  "attached k p \<longleftrightarrow> (\<exists>s \<in> set (ip_sockets p). so_id s = k \<and> so_attached s)"

definition socket_open :: "nat \<Rightarrow> 'r inspector \<Rightarrow> 'r inspector" where
  "socket_open k p = p\<lparr>ip_liveConnected := True\<rparr>"

text \<open>A message that does not parse is ignored.\<close>

definition socket_message :: "nat \<Rightarrow> 'r option \<Rightarrow> 'r inspector \<Rightarrow> 'r inspector" where
  "socket_message k r p =
     (case r of
        None \<Rightarrow> p
      | Some rec \<Rightarrow> if attached k p then p\<lparr>ip_records := take 200 (rec # ip_records p)\<rparr> else p)"

definition socket_closed :: "nat \<Rightarrow> 'r inspector \<Rightarrow> 'r inspector" where
  "socket_closed k p =
     (if attached k p
      then (let p1 = p\<lparr>ip_liveConnected := False\<rparr> in if ip_liveStopped p1 then p1 else scheduleReconnect p1) else p)"

text \<open>The error handler closes whatever socket is current.\<close>

definition socket_error :: "nat \<Rightarrow> 'r inspector \<Rightarrow> 'r inspector" where
  "socket_error k p = (case ip_ws p of None \<Rightarrow> p | Some j \<Rightarrow> set_socket j (\<lambda>s. s\<lparr>so_closed := True\<rparr>) p)"

section \<open>Handlers\<close>

definition on_connected :: "jstr \<Rightarrow> 'r inspector \<Rightarrow> 'r inspector" where
  "on_connected url p = fetchRecords None (snd (initClient url p))"

definition onSettings :: "jstr \<Rightarrow> 'r inspector \<Rightarrow> 'r inspector" where
  "onSettings url p =
     (let (fresh, p1) = initClient url p in
      if fresh \<and> ip_client p = None
      then (if ip_mode p1 = QueryMode then fetchRecords None (p1\<lparr>ip_hasMore := True, ip_cursor := None\<rparr>) else openWs p1)
      else p1)"

definition onModeChange :: "inspector_mode \<Rightarrow> 'r inspector \<Rightarrow> 'r inspector" where
  "onModeChange mode p =
     (let p1 = p\<lparr>ip_mode := mode, ip_selected := - 1\<rparr> in
      if mode = LiveMode then openWs (p1\<lparr>ip_records := []\<rparr>)
      else fetchRecords None ((closeWs p1)\<lparr>ip_records := []\<rparr>))"

definition restart :: "'r inspector \<Rightarrow> 'r inspector" where
  "restart p =
     (if ip_mode p = LiveMode then openWs (p\<lparr>ip_records := []\<rparr>)
      else fetchRecords None (p\<lparr>ip_records := [], ip_hasMore := True, ip_cursor := None\<rparr>))"

definition onProtocolChange :: "jstr \<Rightarrow> 'r inspector \<Rightarrow> 'r inspector" where
  "onProtocolChange protocol p = restart (p\<lparr>ip_protocol := protocol, ip_selected := - 1\<rparr>)"

definition onFilterChange :: "jstr \<Rightarrow> 'r inspector \<Rightarrow> 'r inspector" where
  "onFilterChange sid p = restart (p\<lparr>ip_sid := sid, ip_selected := - 1\<rparr>)"

definition onRangeChange :: "range_value \<Rightarrow> 'r inspector \<Rightarrow> 'r inspector" where
  "onRangeChange value p =
     fetchRecords None (p\<lparr>ip_range := value, ip_selected := - 1, ip_records := [], ip_hasMore := True, ip_cursor := None\<rparr>)"

definition onRecordSelect :: "int \<Rightarrow> 'r inspector \<Rightarrow> 'r inspector" where
  "onRecordSelect i p = p\<lparr>ip_selected := (if ip_selected p = i then - 1 else i)\<rparr>"

definition onLiveStop :: "'r inspector \<Rightarrow> 'r inspector" where
  "onLiveStop p = (closeWs (p\<lparr>ip_liveStopped := True\<rparr>))\<lparr>ip_timer := None\<rparr>"

definition onLiveReconnect :: "'r inspector \<Rightarrow> 'r inspector" where
  "onLiveReconnect p = openWs (p\<lparr>ip_liveStopped := False\<rparr>)"

definition onLiveClear :: "'r inspector \<Rightarrow> 'r inspector" where
  "onLiveClear p = p\<lparr>ip_records := [], ip_selected := - 1\<rparr>"

definition on_disconnected :: "'r inspector \<Rightarrow> 'r inspector" where
  "on_disconnected p = (closeWs p)\<lparr>ip_timer := None\<rparr>"

section \<open>Runs\<close>

datatype 'r inspector_event =
    Connected jstr
  | SettingsChanged jstr
  | QueryAnswered nat "'r query_answer"
  | LoadMore
  | ModeChange inspector_mode
  | ProtocolChange jstr
  | FilterChange jstr
  | RangeChange range_value
  | RecordSelect int
  | LiveStop
  | LiveReconnect
  | LiveClear
  | TimerFires
  | SocketOpen nat
  | SocketMessage nat "'r option"
  | SocketClosed nat
  | SocketError nat
  | AddressChecked bool

text \<open>\<open>AddressChecked\<close> says whether making a socket succeeds from now on.\<close>

fun inspector_step :: "'r inspector_event \<Rightarrow> 'r inspector \<Rightarrow> 'r inspector" where
  "inspector_step (Connected url) p = on_connected url p"
| "inspector_step (SettingsChanged url) p = onSettings url p"
| "inspector_step (QueryAnswered k a) p = query_answered k a p"
| "inspector_step LoadMore p = onLoadMore p"
| "inspector_step (ModeChange mode) p = onModeChange mode p"
| "inspector_step (ProtocolChange protocol) p = onProtocolChange protocol p"
| "inspector_step (FilterChange sid) p = onFilterChange sid p"
| "inspector_step (RangeChange v) p = onRangeChange v p"
| "inspector_step (RecordSelect i) p = onRecordSelect i p"
| "inspector_step LiveStop p = onLiveStop p"
| "inspector_step LiveReconnect p = onLiveReconnect p"
| "inspector_step LiveClear p = onLiveClear p"
| "inspector_step TimerFires p = timer_fires p"
| "inspector_step (SocketOpen k) p = socket_open k p"
| "inspector_step (SocketMessage k r) p = socket_message k r p"
| "inspector_step (SocketClosed k) p = socket_closed k p"
| "inspector_step (SocketError k) p = socket_error k p"
| "inspector_step (AddressChecked ok) p = p\<lparr>ip_wsOk := ok\<rparr>"

definition inspector_run :: "'r inspector_event list \<Rightarrow> 'r inspector \<Rightarrow> 'r inspector" where
  "inspector_run es p = fold inspector_step es p"

end
