(* ===== verification/InspectorCorrect.thy ===== *)
theory InspectorCorrect
  imports InspectorPage
begin

text \<open>
  The traffic inspector: one query and one listening socket at a time, a stopped live view stays
  stopped; and where it goes wrong: answers to old filters, a timer that outlives its mode, an
  error that closes the wrong socket, a delay that does not grow.
\<close>

section \<open>The invariant\<close>

definition inspector_ok :: "'r inspector \<Rightarrow> bool" where
  "inspector_ok p \<longleftrightarrow>
     length (ip_queries p) = (if ip_loading p then 1 else 0)
     \<and> map so_id (ip_sockets p) = [0..<length (ip_sockets p)]
     \<and> (\<forall>s \<in> set (ip_sockets p). so_attached s \<longleftrightarrow> ip_ws p = Some (so_id s))
     \<and> (\<forall>k. ip_ws p = Some k \<longrightarrow> k < length (ip_sockets p))
     \<and> (ip_liveStopped p \<longrightarrow> ip_ws p = None \<and> ip_timer p = None)
     \<and> (ip_delay p = 1000 \<or> ip_delay p = 2000)
     \<and> (\<forall>d. ip_timer p = Some d \<longrightarrow> d = 1000 \<or> d = 2000)"

lemma ok_new: "inspector_ok new_inspector"
  by (simp add: inspector_ok_def new_inspector_def)

lemma ok_fetch: "inspector_ok p \<Longrightarrow> inspector_ok (fetchRecords b p)"
  by (auto simp: inspector_ok_def fetchRecords_def Let_def)

lemma ok_client: "inspector_ok p \<Longrightarrow> inspector_ok (snd (initClient url p))"
  by (auto simp: inspector_ok_def initClient_def)

lemma ok_answered: "inspector_ok p \<Longrightarrow> inspector_ok (query_answered k a p)"
  by (cases a) (auto simp: inspector_ok_def query_answered_def Let_def split: if_splits)

lemma map_cong_ids: "(\<And>s. so_id (f s) = so_id s) \<Longrightarrow> map so_id (map (\<lambda>s. if so_id s = k then f s else s) xs) = map so_id xs"
  by (induction xs) auto

lemma set_socket_simps [simp]:
  "ip_ws (set_socket k f p) = ip_ws p" "ip_queries (set_socket k f p) = ip_queries p" "ip_loading (set_socket k f p) = ip_loading p"
  "ip_liveStopped (set_socket k f p) = ip_liveStopped p" "ip_timer (set_socket k f p) = ip_timer p"
  "ip_delay (set_socket k f p) = ip_delay p"
  by (simp_all add: set_socket_def)

lemma closeWs_simps [simp]:
  "ip_ws (closeWs p) = None" "ip_queries (closeWs p) = ip_queries p" "ip_loading (closeWs p) = ip_loading p"
  "ip_liveStopped (closeWs p) = ip_liveStopped p" "ip_timer (closeWs p) = ip_timer p" "ip_delay (closeWs p) = ip_delay p"
  "length (ip_sockets (closeWs p)) = length (ip_sockets p)" "ip_client (closeWs p) = ip_client p"
  "map so_id (ip_sockets (closeWs p)) = map so_id (ip_sockets p)"
  by (auto simp: closeWs_def set_socket_def split: option.splits)

lemma closeWs_attached: "inspector_ok p \<Longrightarrow> s \<in> set (ip_sockets (closeWs p)) \<Longrightarrow> \<not> so_attached s"
  by (auto simp: inspector_ok_def closeWs_def set_socket_def split: option.splits if_splits)

lemma ok_close: "inspector_ok p \<Longrightarrow> inspector_ok (closeWs p)"
  using closeWs_attached [of p] by (auto simp: inspector_ok_def)

lemma ok_open: "inspector_ok p \<Longrightarrow> inspector_ok (openWs p)"
proof -
  assume p: "inspector_ok p"
  show ?thesis
  proof (cases "ip_client p = None")
    case False
    have ids: "map so_id (ip_sockets (closeWs p)) = [0..<length (ip_sockets p)]" using p by (simp add: inspector_ok_def)
    have "so_id s < length (ip_sockets p)" if "s \<in> set (ip_sockets (closeWs p))" for s
      using that ids by (metis atLeastLessThan_iff image_eqI list.set_map set_upt)
    then have "length (ip_sockets p) \<noteq> so_id s" if "s \<in> set (ip_sockets (closeWs p))" for s using that by fastforce
    moreover have "inspector_ok ((closeWs p)\<lparr>ip_liveStopped := False, ip_delay := 1000\<rparr>)"
      using ok_close [OF p] by (simp add: inspector_ok_def)
    ultimately show ?thesis using p False closeWs_attached [OF p] ids
      by (cases "ip_wsOk (closeWs p)") (auto simp: openWs_def Let_def, auto simp: inspector_ok_def)
  qed (use p in \<open>simp add: openWs_def\<close>)
qed

lemma ok_updates:
  "inspector_ok p \<Longrightarrow> inspector_ok (p\<lparr>ip_mode := a, ip_selected := b\<rparr>)"
  "inspector_ok p \<Longrightarrow> inspector_ok (p\<lparr>ip_mode := a\<rparr>)"
  "inspector_ok p \<Longrightarrow> inspector_ok (p\<lparr>ip_records := c\<rparr>)"
  "inspector_ok p \<Longrightarrow> inspector_ok (p\<lparr>ip_records := c, ip_selected := b\<rparr>)"
  "inspector_ok p \<Longrightarrow> inspector_ok (p\<lparr>ip_selected := b\<rparr>)"
  "inspector_ok p \<Longrightarrow> inspector_ok (p\<lparr>ip_hasMore := d, ip_cursor := e\<rparr>)"
  "inspector_ok p \<Longrightarrow> inspector_ok (p\<lparr>ip_records := c, ip_hasMore := d, ip_cursor := e\<rparr>)"
  "inspector_ok p \<Longrightarrow> inspector_ok (p\<lparr>ip_range := f, ip_selected := b, ip_records := c, ip_hasMore := d, ip_cursor := e\<rparr>)"
  "inspector_ok p \<Longrightarrow> inspector_ok (p\<lparr>ip_protocol := g, ip_selected := b\<rparr>)"
  "inspector_ok p \<Longrightarrow> inspector_ok (p\<lparr>ip_sid := g, ip_selected := b\<rparr>)"
  "inspector_ok p \<Longrightarrow> inspector_ok (p\<lparr>ip_liveConnected := h\<rparr>)"
  "inspector_ok p \<Longrightarrow> inspector_ok (p\<lparr>ip_liveStopped := False\<rparr>)"
  "inspector_ok p \<Longrightarrow> inspector_ok (p\<lparr>ip_timer := None\<rparr>)"
  "inspector_ok p \<Longrightarrow> inspector_ok (p\<lparr>ip_delay := 2000\<rparr>)"
  "inspector_ok p \<Longrightarrow> inspector_ok (p\<lparr>ip_wsOk := h\<rparr>)"
  by (auto simp: inspector_ok_def)

lemma ok_set_closed: "inspector_ok p \<Longrightarrow> inspector_ok (set_socket j (\<lambda>s. s\<lparr>so_closed := True\<rparr>) p)"
proof -
  assume p: "inspector_ok p"
  let ?q = "set_socket j (\<lambda>s. s\<lparr>so_closed := True\<rparr>) p"
  have "map so_id (ip_sockets ?q) = map so_id (ip_sockets p)"
    unfolding set_socket_def by (simp add: map_cong_ids del: map_map)
  moreover have "\<forall>s \<in> set (ip_sockets ?q). so_attached s \<longleftrightarrow> ip_ws p = Some (so_id s)"
    using p by (auto simp: set_socket_def inspector_ok_def)
  moreover have "length (ip_sockets ?q) = length (ip_sockets p)" by (simp add: set_socket_def)
  ultimately show ?thesis using p unfolding inspector_ok_def by (simp only: set_socket_simps) blast
qed

lemma ok_restart: "inspector_ok p \<Longrightarrow> inspector_ok (restart p)"
  by (auto simp: restart_def intro!: ok_open ok_fetch ok_updates)

lemma openWs_delay: "ip_delay (openWs p) = (if ip_client p = None then ip_delay p else 1000)"
  by (simp add: openWs_def Let_def)

text \<open>Without a client no timer is ever armed, for no socket is ever made.\<close>

definition client_ok :: "'r inspector \<Rightarrow> bool" where
  "client_ok p \<longleftrightarrow> (ip_client p = None \<longrightarrow> ip_sockets p = [] \<and> ip_timer p = None)"

lemma ok_timer: "inspector_ok p \<Longrightarrow> client_ok p \<Longrightarrow> inspector_ok (timer_fires p)"
proof (cases "ip_timer p = None")
  case False
  assume p: "inspector_ok p" "client_ok p"
  then have c: "ip_client p \<noteq> None" using False by (auto simp: client_ok_def)
  have "inspector_ok (openWs (p\<lparr>ip_timer := None\<rparr>))" using p by (intro ok_open ok_updates)
  then have "inspector_ok ((openWs (p\<lparr>ip_timer := None\<rparr>))\<lparr>ip_delay := 2000\<rparr>)" by (rule ok_updates)
  then show ?thesis using False c by (auto simp: timer_fires_def Let_def openWs_delay)
qed (simp add: timer_fires_def)

lemma ok_step: "inspector_ok p \<Longrightarrow> client_ok p \<Longrightarrow> inspector_ok (inspector_step e p)"
proof (cases e)
  case (SettingsChanged url)
  assume p: "inspector_ok p"
  then show ?thesis using SettingsChanged ok_client [OF p, of url]
    by (auto simp: onSettings_def case_prod_unfold Let_def intro!: ok_fetch ok_open ok_updates)
next
  case LiveStop
  assume p: "inspector_ok p"
  have "inspector_ok (closeWs p)" using p by (rule ok_close)
  moreover have "closeWs (p\<lparr>ip_liveStopped := True\<rparr>) = (closeWs p)\<lparr>ip_liveStopped := True\<rparr>"
    by (simp add: closeWs_def set_socket_def split: option.splits)
  ultimately show ?thesis using LiveStop by (simp add: onLiveStop_def inspector_ok_def)
next
  case (SocketClosed k)
  assume p: "inspector_ok p"
  then show ?thesis using SocketClosed by (auto simp: socket_closed_def scheduleReconnect_def Let_def inspector_ok_def)
next
  case (SocketError k)
  assume p: "inspector_ok p"
  then show ?thesis using SocketError ok_set_closed by (auto simp: socket_error_def split: option.splits)
next
  case (ModeChange mode)
  assume p: "inspector_ok p"
  then show ?thesis using ModeChange by (auto simp: onModeChange_def Let_def intro!: ok_open ok_fetch ok_updates ok_close)
next
  case (SocketMessage k r)
  assume p: "inspector_ok p"
  then show ?thesis using SocketMessage by (auto simp: socket_message_def intro!: ok_updates split: option.splits)
qed (auto simp: on_connected_def onLoadMore_def onProtocolChange_def onFilterChange_def onRangeChange_def onRecordSelect_def
      onLiveReconnect_def onLiveClear_def socket_open_def
      intro!: ok_client ok_fetch ok_answered ok_updates ok_restart ok_open ok_timer)

lemma client_step: "inspector_ok p \<Longrightarrow> client_ok p \<Longrightarrow> client_ok (inspector_step e p)"
proof (cases e)
  case (QueryAnswered k a)
  then show "client_ok p \<Longrightarrow> ?thesis" by (cases a) (auto simp: client_ok_def query_answered_def Let_def)
qed (auto simp: client_ok_def on_connected_def onLoadMore_def onProtocolChange_def onFilterChange_def onRangeChange_def
      onRecordSelect_def onLiveReconnect_def onLiveClear_def socket_open_def initClient_def fetchRecords_def Let_def
      onSettings_def onModeChange_def openWs_def closeWs_def set_socket_def restart_def timer_fires_def onLiveStop_def
      socket_message_def socket_closed_def socket_error_def scheduleReconnect_def attached_def inspector_ok_def
      split: option.splits if_splits prod.splits)

lemma inspector_run_ok: "inspector_ok p \<Longrightarrow> client_ok p \<Longrightarrow> inspector_ok (inspector_run es p) \<and> client_ok (inspector_run es p)"
  unfolding inspector_run_def by (induction es arbitrary: p) (simp_all add: ok_step client_step)

lemma ok_run: "inspector_ok (inspector_run es new_inspector)"
proof -
  have "client_ok new_inspector" by (simp add: client_ok_def new_inspector_def)
  then show ?thesis using inspector_run_ok [OF ok_new] by blast
qed

text \<open>
  C16. However the user and the network act, at most one query is under way, exactly while the
  page shows that it is loading; at most one socket has its handlers, the current one; and a live
  view that was stopped has no socket and no reconnect pending.
\<close>

theorem inspector_invariant:
  "let p = inspector_run es new_inspector in
     length (ip_queries p) = (if ip_loading p then 1 else 0)
     \<and> length (filter so_attached (ip_sockets p)) \<le> 1
     \<and> (\<forall>k. attached k p \<longrightarrow> ip_ws p = Some k)
     \<and> (ip_liveStopped p \<longrightarrow> ip_ws p = None \<and> ip_timer p = None \<and> filter so_attached (ip_sockets p) = [])"
proof -
  define p where "p = (inspector_run es new_inspector :: 'a inspector)"
  have ok: "inspector_ok p" unfolding p_def by (rule ok_run)
  have d: "distinct (map so_id (ip_sockets p))" using ok by (simp add: inspector_ok_def)
  have "length (filter so_attached (ip_sockets p)) \<le> 1"
  proof (cases "ip_ws p")
    case None
    then have "filter so_attached (ip_sockets p) = []" using ok by (auto simp: inspector_ok_def filter_empty_conv)
    then show ?thesis by simp
  next
    case (Some k)
    then have "filter so_attached (ip_sockets p) = filter (\<lambda>s. so_id s = k) (ip_sockets p)"
      using ok by (intro filter_cong refl) (auto simp: inspector_ok_def)
    moreover have "length (filter (\<lambda>s. so_id s = k) xs) \<le> 1" if "distinct (map so_id xs)" for xs
      using that by (induction xs) (auto simp: filter_empty_conv rev_image_eqI)
    ultimately show ?thesis using d by simp
  qed
  moreover have "\<forall>k. attached k p \<longrightarrow> ip_ws p = Some k" using ok by (auto simp: inspector_ok_def attached_def)
  moreover have "ip_liveStopped p \<longrightarrow> filter so_attached (ip_sockets p) = []"
    using ok by (auto simp: inspector_ok_def filter_empty_conv)
  ultimately show ?thesis using ok unfolding p_def Let_def by (simp add: inspector_ok_def)
qed

text \<open>
  The reconnect delay does not back off: opening the socket resets it before it is doubled,
  so every timer waits one or two seconds, never the thirty the code allows for.
\<close>

theorem reconnect_delay_bounded:
  "let p = inspector_run es new_inspector in
     (ip_delay p = 1000 \<or> ip_delay p = 2000) \<and> (ip_timer p = None \<or> ip_timer p = Some 1000 \<or> ip_timer p = Some 2000)"
  using ok_run [of es] by (auto simp: Let_def inspector_ok_def split: option.splits)

section \<open>Where it goes wrong\<close>

text \<open>
  Answers to old filters are shown: a change of the protocol while a query is under way
  sends no new query, and when the old one is answered its records stand under the new protocol,
  with nothing under way that would replace them.
\<close>

theorem stale_records_shown:
  assumes "url \<noteq> []" "protocol \<noteq> js ''http''"
  shows "let p = inspector_run [Connected url, ProtocolChange protocol, QueryAnswered 0 (Page recs cursor)] new_inspector in
     ip_records p = recs \<and> ip_protocol p = protocol \<and> map qp_protocol (ip_sent p) = [js ''http''] \<and> \<not> ip_loading p"
  using assms
  by (simp add: inspector_run_def on_connected_def initClient_def new_inspector_def fetchRecords_def onProtocolChange_def
      restart_def query_answered_def Let_def)

text \<open>
  When the socket cannot be made, the live view is left without one and without a timer: it never
  tries again by itself, and nothing says so.
\<close>

lemma failed_socket_not_retried:
  assumes "ip_client p \<noteq> None" "\<not> ip_wsOk p" "ip_timer p = None"
  shows "ip_ws (openWs p) = None \<and> ip_timer (openWs p) = None \<and> \<not> ip_liveConnected (openWs p) \<and> \<not> ip_liveStopped (openWs p)
    \<and> ip_error (openWs p) = ip_error p"
  using assms by (auto simp: openWs_def closeWs_def set_socket_def Let_def split: option.splits)

text \<open>
  A pending reconnect survives the return to the query mode: the timer opens a live socket
  there, and its records mix with those of the query.
\<close>

theorem reconnect_in_query_mode:
  assumes "url \<noteq> []"
  shows "let p = inspector_run [Connected url, QueryAnswered 0 (Page [] []), ModeChange LiveMode, SocketClosed 0, ModeChange QueryMode,
       QueryAnswered 0 (Page recs cursor), TimerFires, SocketMessage 1 (Some r)] new_inspector in
     ip_mode p = QueryMode \<and> ip_ws p = Some 1 \<and> ip_records p = take 200 (r # recs)"
  using assms
  by (simp add: inspector_run_def on_connected_def initClient_def new_inspector_def fetchRecords_def onModeChange_def
      query_answered_def openWs_def closeWs_def socket_closed_def attached_def scheduleReconnect_def timer_fires_def
      socket_message_def set_socket_def Let_def)

text \<open>
  The error of a replaced socket closes its successor: closing a socket that is still
  connecting makes it fail later, and its error handler closes whatever socket is current.
\<close>

theorem replaced_socket_closes_current:
  assumes "url \<noteq> []"
  shows "let p = inspector_run [Connected url, QueryAnswered 0 (Page [] []), ModeChange LiveMode, ProtocolChange protocol, SocketError 0]
       new_inspector in
     ip_ws p = Some 1 \<and> ip_sockets p = [\<lparr>so_id = 0, so_attached = False, so_closed = True\<rparr>, \<lparr>so_id = 1, so_attached = True, so_closed = True\<rparr>]"
  using assms
  by (simp add: inspector_run_def on_connected_def initClient_def new_inspector_def fetchRecords_def onModeChange_def
      query_answered_def openWs_def closeWs_def onProtocolChange_def restart_def socket_error_def set_socket_def Let_def)

section \<open>Samples\<close>

lemma inspector_invariant_witness:
  "let p = inspector_run [Connected (js ''u''), QueryAnswered 0 (Page [1, 2] []), ModeChange LiveMode, LiveStop]
       (new_inspector :: nat inspector) in
     ip_liveStopped p \<and> ip_ws p = None \<and> ip_timer p = None"
proof -
  let ?p = "inspector_run [Connected (js ''u''), QueryAnswered 0 (Page [1, 2] []), ModeChange LiveMode, LiveStop]
       (new_inspector :: nat inspector)"
  have "let p = ?p in length (ip_queries p) = (if ip_loading p then 1 else 0) \<and> length (filter so_attached (ip_sockets p)) \<le> 1
     \<and> (\<forall>k. attached k p \<longrightarrow> ip_ws p = Some k)
     \<and> (ip_liveStopped p \<longrightarrow> ip_ws p = None \<and> ip_timer p = None \<and> filter so_attached (ip_sockets p) = [])"
    by (rule inspector_invariant)
  moreover have "ip_liveStopped ?p"
    by (simp add: inspector_run_def on_connected_def initClient_def new_inspector_def fetchRecords_def onModeChange_def
      query_answered_def openWs_def closeWs_def onLiveStop_def set_socket_def Let_def)
  ultimately show ?thesis by (simp add: Let_def)
qed

lemma stale_records_shown_witness:
  "let p = inspector_run [Connected (js ''u''), ProtocolChange (js ''tcp''), QueryAnswered 0 (Page [1, 2] [])] (new_inspector :: nat inspector) in
     ip_records p = [1, 2] \<and> ip_protocol p = js ''tcp''"
proof -
  have "js ''u'' \<noteq> []" "js ''tcp'' \<noteq> js ''http''" by (simp_all add: cu_def)
  from stale_records_shown [OF this, of "[1, 2 :: nat]" "[]"] show ?thesis by (simp only: Let_def simp_thms)
qed

lemma reconnect_in_query_mode_witness:
  "let p = inspector_run [Connected (js ''u''), QueryAnswered 0 (Page [] []), ModeChange LiveMode, SocketClosed 0, ModeChange QueryMode,
       QueryAnswered 0 (Page [1] []), TimerFires, SocketMessage 1 (Some 2)] (new_inspector :: nat inspector) in
     ip_mode p = QueryMode \<and> ip_ws p = Some 1 \<and> ip_records p = take 200 [2, 1]"
  by (rule reconnect_in_query_mode) simp

lemma replaced_socket_closes_current_witness:
  "let p = inspector_run [Connected (js ''u''), QueryAnswered 0 (Page [] []), ModeChange LiveMode, ProtocolChange (js ''tcp''), SocketError 0]
       (new_inspector :: nat inspector) in
     ip_ws p = Some 1 \<and> ip_sockets p = [\<lparr>so_id = 0, so_attached = False, so_closed = True\<rparr>, \<lparr>so_id = 1, so_attached = True, so_closed = True\<rparr>]"
  by (rule replaced_socket_closes_current) simp

end
