(* ===== verification/PeersPage.thy ===== *)
theory PeersPage
  imports Forwarder
begin

text \<open>
  The allowlist manager of the web interface, \<open>web-src/src/pages/tunnel-peers-page.ts\<close>, with the
  refusal journal it reads, \<open>utils/lan-refusal.ts\<close>, and the text of a failed save,
  \<open>utils/save-error.ts\<close>. A save and its answer are separate steps; the store may reload the page
  between any two. Labels are given by their i18n keys.
\<close>

section \<open>Peer keys\<close>

definition key_unit :: "unit16 \<Rightarrow> bool" where
  "key_unit c \<longleftrightarrow> (cu CHR ''A'' \<le> c \<and> c \<le> cu CHR ''Z'') \<or> (cu CHR ''a'' \<le> c \<and> c \<le> cu CHR ''z'')
     \<or> (cu CHR ''0'' \<le> c \<and> c \<le> cu CHR ''9'') \<or> c = cu CHR ''_'' \<or> c = cu CHR ''-''"

definition url_unit :: "unit16 \<Rightarrow> unit16" where
  "url_unit c = (if c = cu CHR ''-'' then cu CHR ''+'' else if c = cu CHR ''_'' then cu CHR ''/'' else c)"

definition key_bytes :: "jstr \<Rightarrow> bytes option" where
  "key_bytes k = atob (map url_unit (k @ replicate ((4 - length k mod 4) mod 4) (cu CHR ''='')))"

definition validPeerKey :: "jstr \<Rightarrow> bool" where
  "validPeerKey k \<longleftrightarrow> length k = 43 \<and> list_all key_unit k
     \<and> (case key_bytes k of Some bs \<Rightarrow> length bs = 32 | None \<Rightarrow> False)"

section \<open>The LAN policy\<close>

definition policy_sep :: "unit16 \<Rightarrow> bool" where
  "policy_sep c \<longleftrightarrow> is_ws c \<or> c = cu CHR '',''"

text \<open>\<open>split\<close> at runs of separators.\<close>

function split_runs :: "('a \<Rightarrow> bool) \<Rightarrow> 'a list \<Rightarrow> 'a list list" where
  "split_runs P s =
     (case dropWhile (\<lambda>c. \<not> P c) s of
        [] \<Rightarrow> [s]
      | c # r \<Rightarrow> takeWhile (\<lambda>c. \<not> P c) s # split_runs P (dropWhile P r))"
  by pat_completeness auto
termination
proof (relation "measure (\<lambda>(P, s). length s)", goal_cases)
  case (2 P s c r)
  have "length (dropWhile P r) \<le> length r" by (rule length_dropWhile_le)
  also have "\<dots> < length (dropWhile (\<lambda>c. \<not> P c) s)" using 2 by simp
  also have "\<dots> \<le> length s" by (rule length_dropWhile_le)
  finally show ?case by simp
qed simp

declare split_runs.simps [simp del]

type_synonym policy = "(jstr, jstr list) jsmap"

definition policy_row :: "jstr \<Rightarrow> policy \<Rightarrow> policy" where
  "policy_row row rows =
     (case index_of [cu CHR ''=''] row of
        None \<Rightarrow> rows
      | Some eq \<Rightarrow>
          (let key = take eq row; cidr = drop (eq + 1) row in
           if key = [] \<or> cidr = [] then rows
           else jset key ((case jget rows key of None \<Rightarrow> [] | Some cs \<Rightarrow> cs) @ [cidr]) rows))"

definition parseLanAllow :: "jstr option \<Rightarrow> policy" where
  "parseLanAllow spec = fold policy_row (split_runs policy_sep (case spec of None \<Rightarrow> [] | Some s \<Rightarrow> s)) []"

section \<open>Rows\<close>

record peer =
  pe_key :: jstr
  pe_alias :: "jstr option"
  pe_disabled :: bool
  pe_ip :: "jstr option"

record refusal =
  rf_peer :: jstr
  rf_prefix :: jstr
  rf_reason :: jstr
  rf_detail :: "jstr option"
  rf_at :: jstr

record tunnel_lan =
  tl_claims :: "(jstr, jstr list) jsmap"
  tl_rejected :: "refusal list"

record hub =
  hb_id :: jstr
  hb_tun :: bool
  hb_peers :: "peer list"
  hb_lan_allow :: "jstr option"
  hb_lan :: "tunnel_lan option"

record peer_row =
  pr_key :: jstr
  pr_alias :: jstr
  pr_disabled :: bool
  pr_ip :: jstr
  pr_lan :: jstr
  pr_lanTouched :: bool
  pr_ipTouched :: bool

definition opt_text :: "jstr option \<Rightarrow> jstr" where
  "opt_text s = (case s of None \<Rightarrow> [] | Some t \<Rightarrow> t)"

definition row_of :: "policy \<Rightarrow> peer \<Rightarrow> peer_row" where
  "row_of allow p =
     \<lparr>pr_key = pe_key p, pr_alias = opt_text (pe_alias p), pr_disabled = pe_disabled p, pr_ip = opt_text (pe_ip p),
      pr_lan = join (js '', '') (case jget allow (pe_key p) of None \<Rightarrow> [] | Some cs \<Rightarrow> cs),
      pr_lanTouched = False, pr_ipTouched = False\<rparr>"

definition rowsOf :: "hub option \<Rightarrow> peer_row list" where
  "rowsOf t = (case t of None \<Rightarrow> [] | Some h \<Rightarrow> map (row_of (parseLanAllow (hb_lan_allow h))) (hb_peers h))"

definition cidrs_of :: "jstr \<Rightarrow> jstr list" where
  "cidrs_of lan = filter (\<lambda>c. c \<noteq> []) (map trim (split_on [cu CHR '',''] lan))"

definition lanAllowOf :: "peer_row list \<Rightarrow> policy" where
  "lanAllowOf rows =
     fold (\<lambda>r out. if \<not> pr_lanTouched r \<and> pr_lan r = [] then out else jset (pr_key r) (cidrs_of (pr_lan r)) out) rows []"

section \<open>The refusal journal\<close>

definition ALLOW_ROW_REASONS :: "jstr list" where
  "ALLOW_ROW_REASONS = [js ''no-allow-row'', js ''empty-allow'', js ''outside-allow'']"

record refusal_group =
  rg_peer :: jstr
  rg_prefix :: jstr
  rg_reason :: jstr
  rg_detail :: "jstr option"
  rg_at :: jstr
  rg_count :: nat
  rg_fixable :: bool
  rg_resolved :: bool

definition claim_key :: "refusal \<Rightarrow> jstr" where
  "claim_key r = rf_peer r @ [0] @ rf_prefix r"

definition new_group :: "(jstr, jstr list) jsmap \<Rightarrow> refusal \<Rightarrow> refusal_group" where
  "new_group claimed r =
     \<lparr>rg_peer = rf_peer r, rg_prefix = rf_prefix r, rg_reason = rf_reason r, rg_detail = rf_detail r, rg_at = rf_at r, rg_count = 1,
      rg_fixable = (rf_reason r \<in> set ALLOW_ROW_REASONS),
      rg_resolved = (case jget claimed (rf_peer r) of None \<Rightarrow> False | Some ps \<Rightarrow> rf_prefix r \<in> set ps)\<rparr>"

text \<open>The groups with their keys, in the order of their first refusal: the array and the index on it.\<close>

definition add_refusal :: "(jstr, jstr list) jsmap \<Rightarrow> refusal \<Rightarrow> (jstr, refusal_group) jsmap \<Rightarrow> (jstr, refusal_group) jsmap" where
  "add_refusal claimed r groups =
     (case jget groups (claim_key r) of
        Some g \<Rightarrow> jset (claim_key r) (g\<lparr>rg_count := rg_count g + 1\<rparr>) groups
      | None \<Rightarrow> groups @ [(claim_key r, new_group claimed r)])"

definition lanRefusalGroups :: "tunnel_lan option \<Rightarrow> refusal_group list" where
  "lanRefusalGroups lan =
     (case lan of None \<Rightarrow> [] | Some l \<Rightarrow> map snd (fold (add_refusal (tl_claims l)) (tl_rejected l) []))"

definition saveErrorText :: "jstr \<Rightarrow> jstr" where
  "saveErrorText msg =
     (if index_of (js ''is already used by another p2p tunnel'') msg \<noteq> None then js ''saveFailed: peerKeyInUseHint''
      else js ''saveFailed'' @ (if msg = [] then [] else js '': '' @ msg))"

section \<open>The page\<close>

datatype editing = NotEditing | EditRow nat | EditNew

record peer_entry =
  en_key :: jstr
  en_alias :: "jstr option"
  en_disabled :: bool
  en_ip :: "jstr option"

text \<open>The body of a save: the peers, with the fields that are sent, and the policy of a hub.\<close>

record peers_request =
  rq_peers :: "peer_entry list"
  rq_lan_allow :: "policy option"

text \<open>What an answered save goes on with.\<close>

datatype save_after = SaveRow | SavePending jstr | SaveOther

record peers_page =
  pp_tunnelId :: jstr
  pp_tunnel :: "hub option"
  pp_rows :: "peer_row list"
  pp_editing :: editing
  pp_draft :: peer_row
  pp_saving :: "save_after option"
  pp_rowError :: jstr
  pp_confirmDelete :: "nat option"
  pp_snackbar :: jstr
  pp_pending :: "jstr list"
  pp_sent :: "peers_request list"

definition empty_row :: peer_row where
  "empty_row = \<lparr>pr_key = [], pr_alias = [], pr_disabled = False, pr_ip = [], pr_lan = [], pr_lanTouched = False, pr_ipTouched = False\<rparr>"

definition new_peers_page :: "jstr \<Rightarrow> peers_page" where
  "new_peers_page i = \<lparr>pp_tunnelId = i, pp_tunnel = None, pp_rows = [], pp_editing = NotEditing, pp_draft = empty_row, pp_saving = None, pp_rowError = [],
     pp_confirmDelete = None, pp_snackbar = [], pp_pending = [], pp_sent = []\<rparr>"

text \<open>\<open>_load\<close>, on mounting and at every notification of the store.\<close>

definition page_load :: "hub list \<Rightarrow> peers_page \<Rightarrow> peers_page" where
  "page_load ts p = (let t = find (\<lambda>x. hb_id x = pp_tunnelId p) ts in p\<lparr>pp_tunnel := t, pp_rows := rowsOf t\<rparr>)"

definition pending_loaded :: "jstr list option \<Rightarrow> peers_page \<Rightarrow> peers_page" where
  "pending_loaded r p = (case r of None \<Rightarrow> p | Some ks \<Rightarrow> p\<lparr>pp_pending := ks\<rparr>)"

definition startEdit :: "nat \<Rightarrow> peers_page \<Rightarrow> peers_page" where
  "startEdit i p =
     p\<lparr>pp_editing := EditRow i, pp_draft := (pp_rows p ! i)\<lparr>pr_ipTouched := False, pr_lanTouched := False\<rparr>, pp_rowError := []\<rparr>"

definition startAdd :: "peers_page \<Rightarrow> peers_page" where
  "startAdd p = p\<lparr>pp_editing := EditNew, pp_draft := empty_row, pp_rowError := []\<rparr>"

definition cancelEdit :: "peers_page \<Rightarrow> peers_page" where
  "cancelEdit p = p\<lparr>pp_editing := NotEditing, pp_rowError := []\<rparr>"

definition isHub :: "peers_page \<Rightarrow> bool" where
  "isHub p \<longleftrightarrow> (case pp_tunnel p of None \<Rightarrow> False | Some h \<Rightarrow> hb_tun h)"

definition refusedFor :: "jstr \<Rightarrow> peers_page \<Rightarrow> refusal_group list" where
  "refusedFor key p =
     filter (\<lambda>g. \<not> rg_resolved g \<and> rg_peer g = key) (lanRefusalGroups (case pp_tunnel p of None \<Rightarrow> None | Some h \<Rightarrow> hb_lan h))"

definition add_prefix :: "refusal_group \<Rightarrow> jstr list \<Rightarrow> jstr list" where
  "add_prefix g cidrs = (if rg_fixable g \<and> rg_prefix g \<notin> set cidrs then cidrs @ [rg_prefix g] else cidrs)"

definition allowRefused :: "nat \<Rightarrow> refusal_group list \<Rightarrow> peers_page \<Rightarrow> peers_page" where
  "allowRefused i refused p =
     (let row = pp_rows p ! i; cidrs = fold add_prefix refused (cidrs_of (pr_lan row)) in
      p\<lparr>pp_editing := EditRow i, pp_draft := row\<lparr>pr_lan := join (js '', '') cidrs, pr_lanTouched := True\<rparr>, pp_rowError := []\<rparr>)"

datatype draft_field = DraftAlias | DraftKey | DraftIp | DraftLan

definition draft_input :: "draft_field \<Rightarrow> jstr \<Rightarrow> peers_page \<Rightarrow> peers_page" where
  "draft_input f v p =
     (case f of
        DraftAlias \<Rightarrow> p\<lparr>pp_draft := (pp_draft p)\<lparr>pr_alias := v\<rparr>\<rparr>
      | DraftKey \<Rightarrow> p\<lparr>pp_draft := (pp_draft p)\<lparr>pr_key := v\<rparr>, pp_rowError := []\<rparr>
      | DraftIp \<Rightarrow> p\<lparr>pp_draft := (pp_draft p)\<lparr>pr_ip := v, pr_ipTouched := True\<rparr>\<rparr>
      | DraftLan \<Rightarrow> p\<lparr>pp_draft := (pp_draft p)\<lparr>pr_lan := v, pr_lanTouched := True\<rparr>\<rparr>)"

definition nonempty :: "jstr \<Rightarrow> jstr option" where
  "nonempty s = (if s = [] then None else Some s)"

definition entry_of :: "peer_row \<Rightarrow> peer_entry" where
  "entry_of r = \<lparr>en_key = pr_key r, en_alias = nonempty (pr_alias r), en_disabled = pr_disabled r,
     en_ip = (if pr_ipTouched r then Some (trim (pr_ip r)) else None)\<rparr>"

text \<open>\<open>_save\<close>, up to its request; a save under way makes it return false.\<close>

definition begin_save :: "save_after \<Rightarrow> peer_row list \<Rightarrow> peers_page \<Rightarrow> peers_page" where
  "begin_save after rows p =
     (if pp_saving p \<noteq> None then p
      else p\<lparr>pp_saving := Some after,
             pp_sent := pp_sent p @ [\<lparr>rq_peers = map entry_of rows, rq_lan_allow = (if isHub p then Some (lanAllowOf rows) else None)\<rparr>]\<rparr>)"

definition save_answered :: "jstr + hub \<Rightarrow> peers_page \<Rightarrow> peers_page" where
  "save_answered r p =
     (case pp_saving p of
        None \<Rightarrow> p
      | Some after \<Rightarrow>
          (case r of
             Inr h \<Rightarrow>
               (let p1 = p\<lparr>pp_tunnel := Some h, pp_rows := rowsOf (Some h), pp_snackbar := js ''saved'', pp_saving := None\<rparr> in
                case after of
                  SaveRow \<Rightarrow> p1\<lparr>pp_editing := NotEditing, pp_rowError := []\<rparr>
                | SavePending key \<Rightarrow> p1\<lparr>pp_pending := filter (\<lambda>k. k \<noteq> key) (pp_pending p1)\<rparr>
                | SaveOther \<Rightarrow> p1)
           | Inl msg \<Rightarrow>
               (let text = saveErrorText msg; p1 = p\<lparr>pp_saving := None\<rparr> in
                if pp_editing p \<noteq> NotEditing then p1\<lparr>pp_rowError := text\<rparr> else p1\<lparr>pp_snackbar := text\<rparr>)))"

definition toggleRow :: "nat \<Rightarrow> peers_page \<Rightarrow> peers_page" where
  "toggleRow i p =
     begin_save SaveOther
       (map (\<lambda>(r, j). if j = i then r\<lparr>pr_disabled := \<not> pr_disabled r\<rparr> else r) (zip (pp_rows p) [0..<length (pp_rows p)])) p"

definition addPending :: "jstr \<Rightarrow> peers_page \<Rightarrow> peers_page" where
  "addPending key p = begin_save (SavePending key) (pp_rows p @ [empty_row\<lparr>pr_key := key\<rparr>]) p"

definition dismissed :: "jstr \<Rightarrow> jstr option \<Rightarrow> peers_page \<Rightarrow> peers_page" where
  "dismissed key err p =
     (case err of
        None \<Rightarrow> p\<lparr>pp_pending := filter (\<lambda>k. k \<noteq> key) (pp_pending p)\<rparr>
      | Some msg \<Rightarrow> p\<lparr>pp_snackbar := js ''saveFailed'' @ (if msg = [] then [] else js '': '' @ msg)\<rparr>)"

definition trimmed_draft :: "peer_row \<Rightarrow> peer_row" where
  "trimmed_draft d = d\<lparr>pr_key := trim (pr_key d), pr_alias := trim (pr_alias d), pr_ip := trim (pr_ip d), pr_lan := trim (pr_lan d)\<rparr>"

definition other_keys :: "peers_page \<Rightarrow> jstr list" where
  "other_keys p = map (\<lambda>(r, i). pr_key r) (filter (\<lambda>(r, i). EditRow i \<noteq> pp_editing p) (zip (pp_rows p) [0..<length (pp_rows p)]))"

definition next_rows :: "peer_row \<Rightarrow> peers_page \<Rightarrow> peer_row list" where
  "next_rows draft p =
     (if pp_editing p = EditNew then pp_rows p @ [draft]
      else map (\<lambda>(r, i). if EditRow i = pp_editing p then draft else r) (zip (pp_rows p) [0..<length (pp_rows p)]))"

definition saveRow :: "peers_page \<Rightarrow> peers_page" where
  "saveRow p =
     (let draft = trimmed_draft (pp_draft p) in
      if \<not> validPeerKey (pr_key draft) then p\<lparr>pp_rowError := js ''peersKeyInvalid''\<rparr>
      else if pr_key draft \<in> set (other_keys p) then p\<lparr>pp_rowError := js ''peersKeyDuplicate''\<rparr>
      else begin_save SaveRow (next_rows draft p) p)"

definition askDelete :: "nat option \<Rightarrow> peers_page \<Rightarrow> peers_page" where
  "askDelete i p = p\<lparr>pp_confirmDelete := i\<rparr>"

definition deleteRow :: "nat \<Rightarrow> peers_page \<Rightarrow> peers_page" where
  "deleteRow i p =
     (let p1 = p\<lparr>pp_confirmDelete := None\<rparr> in
      begin_save SaveOther (map fst (filter (\<lambda>(r, j). j \<noteq> i) (zip (pp_rows p) [0..<length (pp_rows p)]))) p1)"

definition snackbar_cleared :: "peers_page \<Rightarrow> peers_page" where
  "snackbar_cleared p = p\<lparr>pp_snackbar := []\<rparr>"

section \<open>Events\<close>

text \<open>What the browser, the store and the backend may do to the page, with the guards of its controls.\<close>

datatype page_event =
    StoreNotified "hub list"
  | PendingAnswer "jstr list option"
  | EditClicked nat
  | AddClicked
  | CancelClicked
  | DraftTyped draft_field jstr
  | AllowClicked nat
  | ToggleClicked nat
  | PendingAdded jstr
  | DismissAnswer jstr "jstr option"
  | SaveClicked
  | SaveAnswer "jstr + hub"
  | DeleteAsked nat
  | DeleteCancelled
  | DeleteConfirmed
  | SnackbarTimeout

text \<open>The editor is drawn in place of the row it edits, or below the rows for a new one.\<close>

definition editor_shown :: "peers_page \<Rightarrow> bool" where
  "editor_shown p \<longleftrightarrow> pp_tunnel p \<noteq> None
     \<and> (case pp_editing p of NotEditing \<Rightarrow> False | EditNew \<Rightarrow> True | EditRow i \<Rightarrow> i < length (pp_rows p))"

definition row_shown :: "nat \<Rightarrow> peers_page \<Rightarrow> bool" where
  "row_shown i p \<longleftrightarrow> pp_tunnel p \<noteq> None \<and> i < length (pp_rows p) \<and> pp_editing p \<noteq> EditRow i"

fun page_enabled :: "page_event \<Rightarrow> peers_page \<Rightarrow> bool" where
  "page_enabled (StoreNotified ts) p = True"
| "page_enabled (PendingAnswer r) p = True"
| "page_enabled (EditClicked i) p = row_shown i p"
| "page_enabled AddClicked p = (pp_tunnel p \<noteq> None \<and> pp_editing p = NotEditing)"
| "page_enabled CancelClicked p = editor_shown p"
| "page_enabled (DraftTyped f v) p = (editor_shown p \<and> (f \<in> {DraftIp, DraftLan} \<longrightarrow> isHub p))"
| "page_enabled (AllowClicked i) p =
     (row_shown i p \<and> isHub p \<and> pp_saving p = None \<and> list_ex rg_fixable (refusedFor (pr_key (pp_rows p ! i)) p))"
| "page_enabled (ToggleClicked i) p = (row_shown i p \<and> pp_saving p = None)"
| "page_enabled (PendingAdded k) p = (pp_tunnel p \<noteq> None \<and> k \<in> set (pp_pending p) \<and> pp_saving p = None)"
| "page_enabled (DismissAnswer k err) p = True"
| "page_enabled SaveClicked p = (editor_shown p \<and> pp_saving p = None)"
| "page_enabled (SaveAnswer r) p = (pp_saving p \<noteq> None)"
| "page_enabled (DeleteAsked i) p = row_shown i p"
| "page_enabled DeleteCancelled p = (pp_confirmDelete p \<noteq> None)"
| "page_enabled SnackbarTimeout p = (pp_snackbar p \<noteq> [])"
| "page_enabled DeleteConfirmed p = (pp_confirmDelete p \<noteq> None \<and> pp_saving p = None)"

fun page_step :: "page_event \<Rightarrow> peers_page \<Rightarrow> peers_page" where
  "page_step (StoreNotified ts) p = page_load ts p"
| "page_step (PendingAnswer r) p = pending_loaded r p"
| "page_step (EditClicked i) p = startEdit i p"
| "page_step AddClicked p = startAdd p"
| "page_step CancelClicked p = cancelEdit p"
| "page_step (DraftTyped f v) p = draft_input f v p"
| "page_step (AllowClicked i) p = allowRefused i (refusedFor (pr_key (pp_rows p ! i)) p) p"
| "page_step (ToggleClicked i) p = toggleRow i p"
| "page_step (PendingAdded k) p = addPending k p"
| "page_step (DismissAnswer k err) p = dismissed k err p"
| "page_step SaveClicked p = saveRow p"
| "page_step (SaveAnswer r) p = save_answered r p"
| "page_step (DeleteAsked i) p = askDelete (Some i) p"
| "page_step DeleteCancelled p = askDelete None p"
| "page_step SnackbarTimeout p = snackbar_cleared p"
| "page_step DeleteConfirmed p = (case pp_confirmDelete p of None \<Rightarrow> p | Some i \<Rightarrow> deleteRow i p)"

inductive page_reach :: "peers_page \<Rightarrow> bool" where
  page_reach_new: "page_reach (new_peers_page i)"
| page_reach_step: "page_reach p \<Longrightarrow> page_enabled e p \<Longrightarrow> page_reach (page_step e p)"

end
