(* ===== verification/PeersCorrect.thy ===== *)
theory PeersCorrect
  imports PeersPage ForwarderCorrect
begin

text \<open>
  The allowlist manager: what a save restates of the rows nobody touched, the refusals as groups,
  and what the check of a key lets through.
\<close>

section \<open>The LAN policy\<close>

lemma split_runs_units: "\<forall>t \<in> set (split_runs P s). \<forall>c \<in> set t. \<not> P c"
proof (induction P s rule: split_runs.induct)
  case (1 P s)
  show ?case
  proof (cases "dropWhile (\<lambda>c. \<not> P c) s")
    case Nil
    then have "split_runs P s = [s]" by (subst split_runs.simps) (simp only: Nil list.case)
    then show ?thesis using Nil by (simp add: dropWhile_eq_Nil_conv)
  next
    case (Cons c r)
    have *: "\<forall>c \<in> set (takeWhile (\<lambda>c. \<not> P c) s). \<not> P c" by (auto dest: set_takeWhileD)
    have eq: "split_runs P s = takeWhile (\<lambda>c. \<not> P c) s # split_runs P (dropWhile P r)"
      by (subst split_runs.simps) (simp only: Cons list.case)
    show ?thesis using * 1 [OF Cons] unfolding eq list.set by blast
  qed
qed

lemma split_runs_none: "\<forall>c \<in> set s. \<not> P c \<Longrightarrow> split_runs P s = [s]"
  by (subst split_runs.simps) (simp add: dropWhile_eq_Nil_conv [THEN iffD2])

definition policy_cell :: "jstr \<Rightarrow> bool" where
  "policy_cell c \<longleftrightarrow> c \<noteq> [] \<and> (\<forall>u \<in> set c. \<not> policy_sep u)"

definition policy_ok :: "policy \<Rightarrow> bool" where
  "policy_ok m \<longleftrightarrow> (\<forall>k cs. jget m k = Some cs \<longrightarrow> cs \<noteq> [] \<and> (\<forall>c \<in> set cs. policy_cell c))"

lemma policy_row_ok:
  assumes "policy_ok m" "\<forall>c \<in> set row. \<not> policy_sep c"
  shows "policy_ok (policy_row row m)"
proof (cases "index_of [cu CHR ''=''] row")
  case (Some eq)
  have "policy_cell (drop (eq + 1) row)" if "drop (eq + 1) row \<noteq> []"
    using that assms(2) by (auto simp: policy_cell_def dest: in_set_dropD)
  then show ?thesis
    using assms(1) Some
    by (cases "jget m (take eq row)") (auto simp: policy_row_def policy_ok_def Let_def update_conv)
next
  case None
  then have "policy_row row m = m" unfolding policy_row_def by (simp only: option.case)
  then show ?thesis using assms(1) by simp
qed

lemma parseLanAllow_ok: "policy_ok (parseLanAllow s)"
proof -
  have "policy_ok (fold policy_row rows m)"
    if "policy_ok m" "\<forall>t \<in> set rows. \<forall>c \<in> set t. \<not> policy_sep c" for rows m
    using that by (induction rows arbitrary: m) (simp_all add: policy_row_ok)
  moreover have "policy_ok []" by (simp add: policy_ok_def)
  ultimately show ?thesis by (simp add: parseLanAllow_def split_runs_units)
qed

lemma trim_leading_space: "trim (cu CHR '' '' # s) = trim s"
  by (simp add: trim_def is_ws_def cu_def Let_def)

lemma trim_cell: "policy_cell c \<Longrightarrow> trim c = c"
  by (rule trim_id) (auto simp: policy_cell_def policy_sep_def)

lemma split_on_joined:
  assumes "cu CHR '','' \<notin> set p" "\<forall>c \<in> set (x # ys). cu CHR '','' \<notin> set c"
  shows "split_on [cu CHR '',''] (p @ join (js '', '') (x # ys)) = (p @ x) # map ((#) (cu CHR '' '')) ys"
  using assms
proof (induction ys arbitrary: p x)
  case (Cons y ys)
  have "cu CHR '','' \<notin> set [cu CHR '' '']" by (simp add: cu_def)
  then show ?case
    using Cons.prems Cons.IH [of "[cu CHR '' '']" y]
      split_on_single_append [of "cu CHR '',''" "p @ x" "cu CHR '' '' # join (js '', '') (y # ys)"]
    by simp
qed (simp add: split_on_single_notin)

lemma cidrs_of_joined:
  assumes "\<forall>c \<in> set cs. policy_cell c"
  shows "cidrs_of (join (js '', '') cs) = cs"
proof (cases cs)
  case Nil
  have "trim [] = []" by (simp add: trim_def)
  then show ?thesis by (simp add: Nil cidrs_of_def split_on_single_notin)
next
  case (Cons x ys)
  have comma: "cu CHR '','' \<notin> set c" if "policy_cell c" for c
    using that by (auto simp: policy_cell_def policy_sep_def)
  have trims: "trim (cu CHR '' '' # y) = y" if "y \<in> set ys" for y
    using that assms by (simp add: Cons trim_leading_space trim_cell)
  have "split_on [cu CHR '',''] (join (js '', '') cs) = x # map ((#) (cu CHR '' '')) ys"
    using split_on_joined [of "[]" x ys] comma assms by (simp add: Cons)
  then have "cidrs_of (join (js '', '') cs) = filter (\<lambda>c. c \<noteq> []) (trim x # map (\<lambda>y. trim (cu CHR '' '' # y)) ys)"
    by (simp add: cidrs_of_def comp_def)
  also have "\<dots> = filter (\<lambda>c. c \<noteq> []) cs"
    using assms trims by (simp add: Cons trim_cell cong: map_cong)
  also have "\<dots> = cs"
    using assms by (auto simp: filter_id_conv policy_cell_def)
  finally show ?thesis .
qed

lemma join_eq_Nil: "\<forall>c \<in> set cs. c \<noteq> [] \<Longrightarrow> join sep cs = [] \<longleftrightarrow> cs = []"
  by (cases "(sep, cs)" rule: join.cases) auto

text \<open>What a list of rows puts into the policy: its last row that says something under the key.\<close>

definition row_claims :: "peer_row \<Rightarrow> bool" where
  "row_claims r \<longleftrightarrow> pr_lanTouched r \<or> pr_lan r \<noteq> []"

lemma lanAllowOf_get:
  "jget (lanAllowOf rows) k
     = map_option (\<lambda>r. cidrs_of (pr_lan r)) (find (\<lambda>r. row_claims r \<and> pr_key r = k) (rev rows))"
proof -
  let ?f = "\<lambda>r out. if \<not> pr_lanTouched r \<and> pr_lan r = [] then out else jset (pr_key r) (cidrs_of (pr_lan r)) out"
  have "jget (fold ?f rows m) k
          = (case find (\<lambda>r. row_claims r \<and> pr_key r = k) (rev rows) of None \<Rightarrow> jget m k | Some r \<Rightarrow> Some (cidrs_of (pr_lan r)))" for m
    by (induction rows rule: rev_induct) (auto simp: row_claims_def update_conv)
  then show ?thesis by (auto simp: lanAllowOf_def split: option.splits)
qed

text \<open>A row read from the stored policy restates the stored entry.\<close>

lemma stored_row_claims:
  "row_claims (row_of (parseLanAllow s) p) \<longleftrightarrow> jget (parseLanAllow s) (pe_key p) \<noteq> None"
  "jget (parseLanAllow s) (pe_key p) = Some cs \<Longrightarrow> cidrs_of (pr_lan (row_of (parseLanAllow s) p)) = cs"
proof -
  have ok: "cs \<noteq> []" "\<forall>c \<in> set cs. policy_cell c" if "jget (parseLanAllow s) k = Some cs" for k cs
    using parseLanAllow_ok [of s] that unfolding policy_ok_def by blast+
  show "row_claims (row_of (parseLanAllow s) p) \<longleftrightarrow> jget (parseLanAllow s) (pe_key p) \<noteq> None"
    using ok [of "pe_key p"] by (auto simp: row_claims_def row_of_def join_eq_Nil policy_cell_def split: option.splits)
  show "jget (parseLanAllow s) (pe_key p) = Some cs \<Longrightarrow> cidrs_of (pr_lan (row_of (parseLanAllow s) p)) = cs"
    using ok [of "pe_key p" cs] by (simp add: row_of_def cidrs_of_joined del: js_simps)
qed

section \<open>The refusal journal\<close>

text \<open>
  The claims of the journal in the order of their newest entry, and the group of one claim: its
  newest entry with the number of its entries.
\<close>

definition journal_claims :: "refusal list \<Rightarrow> jstr list" where
  "journal_claims rs = rev (remdups (rev (map claim_key rs)))"

definition claim_group :: "(jstr, jstr list) jsmap \<Rightarrow> refusal list \<Rightarrow> jstr \<Rightarrow> refusal_group" where
  "claim_group claimed rs k =
     (let mine = filter (\<lambda>r. claim_key r = k) rs in
      (new_group claimed (hd mine))\<lparr>rg_count := length mine\<rparr>)"

lemma journal_claims_snoc:
  "journal_claims (rs @ [r]) =
     (if claim_key r \<in> set (map claim_key rs) then journal_claims rs else journal_claims rs @ [claim_key r])"
  by (simp add: journal_claims_def)

lemma journal_claims_set [simp]: "set (journal_claims rs) = claim_key ` set rs" "distinct (journal_claims rs)"
  by (simp_all add: journal_claims_def)

lemma claim_group_snoc:
  "claim_group claimed (rs @ [r]) k =
     (if claim_key r \<noteq> k then claim_group claimed rs k
      else if k \<in> claim_key ` set rs then (claim_group claimed rs k)\<lparr>rg_count := rg_count (claim_group claimed rs k) + 1\<rparr>
      else new_group claimed r)"
proof -
  have mine: "filter (\<lambda>r. claim_key r = k) rs \<noteq> [] \<longleftrightarrow> k \<in> claim_key ` set rs"
    by (auto simp: filter_empty_conv)
  have "filter (\<lambda>r. claim_key r = k) (rs @ [r]) = filter (\<lambda>r. claim_key r = k) rs @ (if claim_key r = k then [r] else [])"
    by simp
  then show ?thesis
    using mine by (cases "filter (\<lambda>r. claim_key r = k) rs") (simp_all only: claim_group_def Let_def, simp_all add: new_group_def split: option.splits)
qed

lemma update_mapped:
  "distinct ks \<Longrightarrow> k \<in> set ks \<Longrightarrow>
   AList.update k v (map (\<lambda>k. (k, f k)) ks) = map (\<lambda>j. (j, if j = k then v else f j)) ks"
proof (induction ks)
  case (Cons j ks)
  have "map (\<lambda>j. (j, f j)) ks = map (\<lambda>i. (i, if i = j then v else f i)) ks"
    using Cons.prems by (auto intro!: map_cong)
  then show ?case using Cons by auto
qed simp

lemma journal_fold:
  "fold (add_refusal claimed) rs [] = map (\<lambda>k. (k, claim_group claimed rs k)) (journal_claims rs)"
proof (induction rs rule: rev_induct)
  case Nil
  then show ?case by (simp add: journal_claims_def)
next
  case (snoc r rs)
  let ?g = "\<lambda>k. claim_group claimed rs k"
  have get: "jget (map (\<lambda>k. (k, ?g k)) (journal_claims rs)) k = (if k \<in> claim_key ` set rs then Some (?g k) else None)" for k
    by (simp add: map_of_map_restrict restrict_map_def)
  show ?case
  proof (cases "claim_key r \<in> claim_key ` set rs")
    case True
    then show ?thesis
      using snoc
      by (simp add: add_refusal_def get journal_claims_snoc update_mapped claim_group_snoc cong: map_cong)
  next
    case False
    then have "map (\<lambda>k. (k, ?g k)) (journal_claims rs) = map (\<lambda>k. (k, claim_group claimed (rs @ [r]) k)) (journal_claims rs)"
      by (auto intro!: map_cong simp: claim_group_snoc)
    then show ?thesis
      using False snoc by (simp add: add_refusal_def get journal_claims_snoc claim_group_snoc)
  qed
qed

text \<open>
  What the prompt should show, apart from how the groups are built: a claim is a peer with a prefix, and its
  group has the fields of the newest refusal of just that peer and prefix and counts them; an allow row
  answers three of the reasons, and it is settled when the hub has installed the prefix for that peer.
\<close>

type_synonym claim = "jstr \<times> jstr"

definition claim_of :: "refusal \<Rightarrow> claim" where
  "claim_of r = (rf_peer r, rf_prefix r)"

definition first_copies :: "'a list \<Rightarrow> 'a list" where
  "first_copies xs = rev (remdups (rev xs))"

definition group_of :: "tunnel_lan \<Rightarrow> claim \<Rightarrow> refusal_group" where
  "group_of l c =
     (let copies = filter (\<lambda>r. claim_of r = c) (tl_rejected l); newest = hd copies
      in \<lparr>rg_peer = fst c, rg_prefix = snd c, rg_reason = rf_reason newest, rg_detail = rf_detail newest, rg_at = rf_at newest,
          rg_count = length copies,
          rg_fixable = (rf_reason newest = js ''no-allow-row'' \<or> rf_reason newest = js ''empty-allow''
             \<or> rf_reason newest = js ''outside-allow''),
          rg_resolved = list_ex (\<lambda>(peer, prefixes). peer = fst c \<and> snd c \<in> set prefixes) (tl_claims l)\<rparr>)"

lemma claim_key_iff:
  assumes "0 \<notin> set (rf_peer r)" "0 \<notin> set (rf_peer q)"
  shows "claim_key r = claim_key q \<longleftrightarrow> claim_of r = claim_of q"
proof -
  have t: "takeWhile (\<lambda>c. c \<noteq> 0) (claim_key p) = rf_peer p" if "0 \<notin> set (rf_peer p)" for p
    using that by (subst claim_key_def, subst takeWhile_append2) auto
  show ?thesis
    using t [OF assms(1)] t [OF assms(2)] by (auto simp: claim_of_def claim_key_def)
qed

lemma remdups_keyed:
  "(\<And>x y. x \<in> set xs \<Longrightarrow> y \<in> set xs \<Longrightarrow> f x = f y \<longleftrightarrow> g x = g y)
   \<Longrightarrow> list_all2 (\<lambda>a b. \<exists>x \<in> set xs. a = f x \<and> b = g x) (remdups (map f xs)) (remdups (map g xs))"
proof (induction xs)
  case (Cons x xs)
  have "list_all2 (\<lambda>a b. \<exists>x \<in> set xs. a = f x \<and> b = g x) (remdups (map f xs)) (remdups (map g xs))"
    by (rule Cons.IH) (simp add: Cons.prems)
  then have "list_all2 (\<lambda>a b. \<exists>y \<in> set (x # xs). a = f y \<and> b = g y) (remdups (map f xs)) (remdups (map g xs))"
    by (rule list_all2_mono) auto
  moreover have "f x \<in> f ` set xs \<longleftrightarrow> g x \<in> g ` set xs" using Cons.prems by (auto simp: image_iff)
  ultimately show ?case by auto
qed simp

lemma claim_group_is:
  assumes "\<forall>q \<in> set (tl_rejected l). 0 \<notin> set (rf_peer q)" "jok (tl_claims l)" "r \<in> set (tl_rejected l)"
  shows "claim_group (tl_claims l) (tl_rejected l) (claim_key r) = group_of l (claim_of r)"
proof -
  let ?copies = "filter (\<lambda>q. claim_of q = claim_of r) (tl_rejected l)"
  have copies: "filter (\<lambda>q. claim_key q = claim_key r) (tl_rejected l) = ?copies"
    by (rule filter_cong) (use assms claim_key_iff in auto)
  have "?copies \<noteq> []" using assms(3) by (auto simp: filter_empty_conv)
  then have "claim_of (hd ?copies) = claim_of r" using hd_in_set [of ?copies] by auto
  moreover have "(case jget (tl_claims l) p of None \<Rightarrow> False | Some ps \<Rightarrow> x \<in> set ps)
      \<longleftrightarrow> list_ex (\<lambda>(peer, prefixes). peer = p \<and> x \<in> set prefixes) (tl_claims l)" for p x
  proof (cases "jget (tl_claims l) p")
    case None
    then have "fst c \<noteq> p" if "c \<in> set (tl_claims l)" for c using that by (auto simp: map_of_eq_None_iff)
    then show ?thesis using None by (fastforce simp: list_ex_iff)
  next
    case (Some ps)
    then show ?thesis using assms(2) by (auto simp: list_ex_iff dest: map_of_SomeD eq_key_imp_eq_value)
  qed
  ultimately show ?thesis
    by (simp add: claim_group_def group_of_def new_group_def copies ALLOW_ROW_REASONS_def claim_of_def Let_def del: js_simps)
qed

text \<open>
  C24. The journal is shown one entry per claim: the groups are those of the different pairs of a
  peer and a prefix in the order of their newest refusal, each with the reason, detail and time of
  that refusal, the number of its refusals, whether an allow row would answer it, and whether it has
  been settled since. The keys of the peers have no NUL, which separates peer and prefix in the key of
  a claim, and the claims are an object, with each peer once.
\<close>

theorem refusals_grouped:
  assumes "\<forall>r \<in> set (tl_rejected l). 0 \<notin> set (rf_peer r)" "jok (tl_claims l)"
  shows "lanRefusalGroups (Some l) = map (group_of l) (first_copies (map claim_of (tl_rejected l)))"
proof -
  let ?rs = "tl_rejected l"
  have "list_all2 (\<lambda>a b. \<exists>x \<in> set (rev ?rs). a = claim_key x \<and> b = claim_of x)
      (remdups (map claim_key (rev ?rs))) (remdups (map claim_of (rev ?rs)))"
    by (rule remdups_keyed) (use assms(1) claim_key_iff in auto)
  then have "list_all2 (\<lambda>a b. claim_group (tl_claims l) ?rs a = group_of l b) (journal_claims ?rs) (first_copies (map claim_of ?rs))"
    unfolding journal_claims_def first_copies_def rev_map list_all2_rev
    by (rule list_all2_mono) (use claim_group_is [OF assms] in auto)
  then have "map (claim_group (tl_claims l) ?rs) (journal_claims ?rs) = map (group_of l) (first_copies (map claim_of ?rs))"
    by (simp add: list_eq_iff_nth_eq list_all2_conv_all_nth)
  then show ?thesis by (simp add: lanRefusalGroups_def journal_fold comp_def)
qed

lemma refusals_grouped_witness:
  "let r = \<lambda>p x t. \<lparr>rf_peer = js p, rf_prefix = js x, rf_reason = js ''no-allow-row'', rf_detail = None, rf_at = js t\<rparr>
   in map (\<lambda>g. (rg_peer g, rg_at g, rg_count g, rg_resolved g)) (lanRefusalGroups (Some
        \<lparr>tl_claims = [(js ''b'', [js ''10.0.0.0/24''])],
         tl_rejected = [r ''a'' ''10.0.0.0/24'' ''3'', r ''b'' ''10.0.0.0/24'' ''2'', r ''a'' ''10.0.0.0/24'' ''1'']\<rparr>))
      = [(js ''a'', js ''3'', 2, False), (js ''b'', js ''2'', 1, True)]"
  unfolding Let_def
  by (subst refusals_grouped) (simp_all add: first_copies_def claim_of_def group_of_def Let_def cu_def)

section \<open>The rows of the page\<close>

text \<open>The rows are always those of the tunnel the page holds.\<close>

definition page_ok :: "peers_page \<Rightarrow> bool" where
  "page_ok p \<longleftrightarrow> pp_rows p = rowsOf (pp_tunnel p)"

named_theorems page_defs

lemmas [page_defs] = page_load_def pending_loaded_def startEdit_def startAdd_def cancelEdit_def draft_input_def
  allowRefused_def toggleRow_def addPending_def dismissed_def saveRow_def deleteRow_def askDelete_def begin_save_def snackbar_cleared_def Let_def

lemma page_ok_step: "page_ok p \<Longrightarrow> page_ok (page_step e p)"
proof (cases e)
  case (SaveAnswer r)
  then show "page_ok p \<Longrightarrow> page_ok (page_step e p)"
    by (auto simp: page_ok_def save_answered_def Let_def split: option.splits sum.splits save_after.splits)
qed (auto simp: page_ok_def page_defs Let_def split: option.splits draft_field.splits)

lemma page_reach_ok: "page_reach p \<Longrightarrow> page_ok p"
  by (induction rule: page_reach.induct) (simp_all add: page_ok_step, simp add: page_ok_def new_peers_page_def rowsOf_def)

text \<open>What a save sends for a peer nobody touched: its stored entry, without an address.\<close>

definition stored_entry :: "peer \<Rightarrow> peer_entry" where
  "stored_entry p = \<lparr>en_key = pe_key p, en_alias = nonempty (opt_text (pe_alias p)), en_disabled = pe_disabled p, en_ip = None\<rparr>"

lemma entry_of_stored [simp]: "entry_of (row_of allow p) = stored_entry p"
  by (simp add: entry_of_def row_of_def stored_entry_def)

lemma pr_key_row_of [simp]: "pr_key (row_of allow p) = pe_key p"
  by (simp add: row_of_def)

lemma find_Some_holds: "find P xs = Some x \<Longrightarrow> x \<in> set xs \<and> P x"
  by (induction xs) (auto split: if_splits)

text \<open>Rows, one of which may be replaced: the policy of every other listed peer is the stored one.\<close>

lemma replaced_rows_policy:
  assumes rows: "set rows \<subseteq> insert d (set (map (row_of (parseLanAllow s)) ps))"
    and k: "k \<noteq> pr_key d" "p \<in> set ps" "pe_key p = k" "row_of (parseLanAllow s) p \<in> set rows"
  shows "jget (lanAllowOf rows) k = jget (parseLanAllow s) k"
proof (cases "find (\<lambda>r. row_claims r \<and> pr_key r = k) (rev rows)")
  case None
  then have "\<not> row_claims (row_of (parseLanAllow s) p)"
    using k by (auto simp: find_None_iff)
  then show ?thesis using None k by (simp add: lanAllowOf_get stored_row_claims)
next
  case (Some r)
  then have r: "r \<in> set rows" "row_claims r" "pr_key r = k"
    using find_Some_holds [OF Some] by simp_all
  from rows r(1) have "r = d \<or> r \<in> row_of (parseLanAllow s) ` set ps" by auto
  with r(3) k(1) obtain q where q: "r = row_of (parseLanAllow s) q" by blast
  then have key: "pe_key q = k" using r(3) by simp
  obtain cs where cs: "jget (parseLanAllow s) (pe_key q) = Some cs"
    using r(2) stored_row_claims(1) [of s q] unfolding q by blast
  have "jget (lanAllowOf rows) k = Some (cidrs_of (pr_lan r))" by (simp only: lanAllowOf_get Some option.map)
  also have "\<dots> = jget (parseLanAllow s) k"
    using stored_row_claims(2) [OF cs] cs unfolding q key by simp
  finally show ?thesis .
qed

text \<open>Positions.\<close>

lemma nth_zip_upt: "j < length xs \<Longrightarrow> zip xs [0..<length xs] ! j = (xs ! j, j)"
  by simp

lemma set_zip_upt: "(x, j) \<in> set (zip xs [0..<length xs]) \<longleftrightarrow> j < length xs \<and> x = xs ! j"
  by (auto simp: in_set_zip)

lemma map_zip_upt: "map (\<lambda>(r, j). if j = i then f r else r) (zip xs [0..<length xs]) = xs[i := f (xs ! i)]"
  by (rule nth_equalityI) (auto simp: nth_list_update)

lemma next_rows_edit: "pp_editing p = EditRow i \<Longrightarrow> next_rows d p = (pp_rows p)[i := d]"
  using map_zip_upt [of i "\<lambda>_. d" "pp_rows p"] by (simp add: next_rows_def)

lemma other_keys_edit:
  "pp_editing p = EditRow i \<Longrightarrow> set (other_keys p) = {pr_key (pp_rows p ! j) | j. j < length (pp_rows p) \<and> j \<noteq> i}"
  by (fastforce simp: other_keys_def set_zip_upt)

lemma set_list_update_notin: "x \<in> set (xs[i := y]) \<Longrightarrow> x = y \<or> (\<exists>j. j < length xs \<and> j \<noteq> i \<and> x = xs ! j)"
  by (metis in_set_conv_nth length_list_update nth_list_update_eq nth_list_update_neq)

lemma find_only:
  assumes "d \<in> set xs" "\<And>x. x \<in> set xs \<Longrightarrow> P x \<Longrightarrow> x = d"
  shows "find P xs = (if P d then Some d else None)"
proof (cases "find P xs")
  case None
  then have "\<not> P d" using assms(1) unfolding find_None_iff by blast
  then show ?thesis using None by simp
next
  case (Some x)
  then have "P x" "x = d" using assms(2) find_Some_holds [OF Some] by blast+
  then show ?thesis using Some by simp
qed

lemma edit_saved:
  assumes ok: "page_ok p" and tun: "pp_tunnel p = Some h" "hb_tun h" and idle: "pp_saving p = None"
    and ed: "pp_editing p = EditRow i" "i < length (hb_peers h)"
    and key: "validPeerKey (pr_key d)" "pr_key d \<notin> set (other_keys p)" and d: "d = trimmed_draft (pp_draft p)"
  shows "\<exists>rq m. pp_sent (saveRow p) = pp_sent p @ [rq] \<and> rq_peers rq = (map stored_entry (hb_peers h))[i := entry_of d]
    \<and> rq_lan_allow rq = Some m
    \<and> (\<forall>j < length (hb_peers h). j \<noteq> i \<longrightarrow>
         jget m (pe_key (hb_peers h ! j)) = jget (parseLanAllow (hb_lan_allow h)) (pe_key (hb_peers h ! j)))
    \<and> jget m (pr_key d) = (if row_claims d then Some (cidrs_of (pr_lan d)) else None)"
proof -
  let ?ps = "hb_peers h" and ?row = "row_of (parseLanAllow (hb_lan_allow h))"
  let ?rows = "(map ?row ?ps)[i := d]"
  have rows: "pp_rows p = map ?row ?ps" using ok tun by (simp add: page_ok_def rowsOf_def)
  have others: "pe_key (?ps ! j) \<noteq> pr_key d" if "j < length ?ps" "j \<noteq> i" for j
    using key(2) that unfolding other_keys_edit [OF ed(1)] rows by fastforce
  have sent: "pp_sent (saveRow p) = pp_sent p @ [\<lparr>rq_peers = map entry_of ?rows, rq_lan_allow = Some (lanAllowOf ?rows)\<rparr>]"
    using key idle tun ed rows unfolding d
    by (simp add: saveRow_def Let_def begin_save_def next_rows_edit isHub_def)
  have keep: "jget (lanAllowOf ?rows) (pe_key (?ps ! j)) = jget (parseLanAllow (hb_lan_allow h)) (pe_key (?ps ! j))"
    if "j < length ?ps" "j \<noteq> i" for j
  proof (rule replaced_rows_policy)
    show "set ?rows \<subseteq> insert d (set (map ?row ?ps))" by (rule set_update_subset_insert)
    show "pe_key (?ps ! j) \<noteq> pr_key d" using that by (rule others)
    show "?ps ! j \<in> set ?ps" using that by simp
    have "?rows ! j = ?row (?ps ! j)" "j < length ?rows" using that by simp_all
    then show "?row (?ps ! j) \<in> set ?rows" by (metis nth_mem)
  qed simp
  have "find (\<lambda>r. row_claims r \<and> pr_key r = pr_key d) (rev ?rows) = (if row_claims d then Some d else None)"
  proof -
    have "x = d" if "x \<in> set (rev ?rows)" "row_claims x \<and> pr_key x = pr_key d" for x
      using set_list_update_notin [of x "map ?row ?ps" i d] that others by auto
    moreover have "d \<in> set (rev ?rows)" using ed(2) by (simp add: set_update_memI)
    ultimately show ?thesis
      using find_only [of d "rev ?rows" "\<lambda>r. row_claims r \<and> pr_key r = pr_key d"] by simp
  qed
  then have mine: "jget (lanAllowOf ?rows) (pr_key d) = (if row_claims d then Some (cidrs_of (pr_lan d)) else None)"
    by (simp only: lanAllowOf_get) simp
  show ?thesis
    unfolding sent using keep mine
    by (intro exI [of _ "\<lparr>rq_peers = map entry_of ?rows, rq_lan_allow = Some (lanAllowOf ?rows)\<rparr>"] exI [of _ "lanAllowOf ?rows"])
      (simp add: map_update comp_def)
qed

section \<open>Keys\<close>

lemma key_unit_nat: "key_unit c \<Longrightarrow> unat c \<in> set ([65..<91] @ [97..<123] @ [48..<58] @ [95, 45])"
  unfolding key_unit_def cu_def set_append set_upt by (auto simp: word_le_nat_alt)

lemma url_units: "list_all (\<lambda>n. url_unit (of_nat n) \<in> set B64) ([65..<91] @ [97..<123] @ [48..<58] @ [95, 45])"
  by code_simp

lemma url_unit_B64: "key_unit c \<Longrightarrow> url_unit c \<in> set B64"
  using key_unit_nat [of c] url_units by (auto simp only: list_all_iff dest!: bspec) simp

lemma length_sextet_bytes: "length (sextet_bytes vs) = 3 * length vs div 4"
  by (induction vs rule: sextet_bytes.induct) simp_all

lemma key_bytes_units:
  assumes "length k = 43" "list_all key_unit k"
  shows "key_bytes k = Some (sextet_bytes (map (\<lambda>c. the (b64_index (url_unit c))) k))"
proof -
  let ?u = "map url_unit k" and ?eq = "cu CHR ''=''"
  have B64: "c \<in> set B64" if "c \<in> set ?u" for c
    using that assms(2) url_unit_B64 by (auto simp: list_all_iff)
  have eq: "?eq \<notin> set B64" by code_simp
  have "filter (\<lambda>c. \<not> ascii_ws c) (?u @ [?eq]) = ?u @ [?eq]"
    using B64 b64_units(2) by (auto simp: filter_id_conv)
  moreover have "strip_padding (?u @ [?eq]) = ?u"
  proof -
    have ne: "?u \<noteq> []" using assms(1) by auto
    then have "last ?u \<noteq> ?eq" using B64 [OF last_in_set [OF ne]] eq by metis
    then show ?thesis using assms(1) by (simp add: strip_padding_def Let_def)
  qed
  moreover have "\<not> (\<exists>c \<in> set ?u. b64_index c = None)"
    using B64 by (auto simp: b64_index_def)
  moreover have "key_bytes k = atob (?u @ [?eq])"
    using assms(1) by (simp add: key_bytes_def url_unit_def cu_def)
  ultimately show ?thesis using assms(1) by (simp add: atob_def Let_def comp_def)
qed

lemma valid_key_iff: "validPeerKey k \<longleftrightarrow> length k = 43 \<and> list_all key_unit k"
  by (auto simp: validPeerKey_def key_bytes_units length_sextet_bytes)

text \<open>The check of a peer key accepts exactly the texts of 43 characters of the alphabet: decoding
  such a text never fails and always gives 32 bytes.\<close>

theorem peer_key_check: "validPeerKey k \<longleftrightarrow> length k = 43 \<and> list_all key_unit k"
  by (rule valid_key_iff)

text \<open>The last character holds two bits of the key only, so one key has four accepted spellings,
  which the comparison with the other rows takes for different keys.\<close>

lemma key_spellings:
  "let k = \<lambda>c. replicate 42 (cu CHR ''A'') @ [cu c] in
   validPeerKey (k CHR ''A'') \<and> validPeerKey (k CHR ''B'') \<and> key_bytes (k CHR ''A'') = key_bytes (k CHR ''B'')
   \<and> k CHR ''A'' \<noteq> k CHR ''B''"
  by code_simp

section \<open>Saving\<close>

text \<open>A request of rows nobody touched holds the policy of its peers and no other.\<close>

lemma listed_policy:
  "jget (lanAllowOf (map (row_of (parseLanAllow s)) ps)) k = (if k \<in> pe_key ` set ps then jget (parseLanAllow s) k else None)"
proof (cases "k \<in> pe_key ` set ps")
  case True
  then obtain q where q: "q \<in> set ps" "pe_key q = k" by blast
  let ?d = "\<lparr>pr_key = cu CHR ''x'' # k, pr_alias = [], pr_disabled = False, pr_ip = [], pr_lan = [], pr_lanTouched = False, pr_ipTouched = False\<rparr>"
  have "jget (lanAllowOf (map (row_of (parseLanAllow s)) ps)) k = jget (parseLanAllow s) k"
    by (rule replaced_rows_policy [of _ ?d _ ps _ q]) (use q in auto)
  then show ?thesis using True by simp
next
  case False
  then have "find (\<lambda>r. row_claims r \<and> pr_key r = k) (rev (map (row_of (parseLanAllow s)) ps)) = None"
    by (auto simp: find_None_iff)
  then show ?thesis using False by (simp only: lanAllowOf_get) simp
qed

definition switched :: "peer \<Rightarrow> peer" where
  "switched p = p\<lparr>pe_disabled := \<not> pe_disabled p\<rparr>"

definition restated :: "hub \<Rightarrow> peer list \<Rightarrow> peers_request" where
  "restated h ps = \<lparr>rq_peers = map stored_entry ps, rq_lan_allow = Some (lanAllowOf (map (row_of (parseLanAllow (hb_lan_allow h))) ps))\<rparr>"

lemma toggle_sent:
  assumes "page_ok p" "pp_tunnel p = Some h" "hb_tun h" "pp_saving p = None" "i < length (hb_peers h)"
  shows "pp_sent (toggleRow i p) = pp_sent p @ [restated h ((hb_peers h)[i := switched (hb_peers h ! i)])]"
proof -
  let ?row = "row_of (parseLanAllow (hb_lan_allow h))"
  have "(?row q)\<lparr>pr_disabled := \<not> pr_disabled (?row q)\<rparr> = ?row (switched q)" for q
    by (simp add: row_of_def switched_def)
  then have rows: "map (\<lambda>(r, j). if j = i then r\<lparr>pr_disabled := \<not> pr_disabled r\<rparr> else r) (zip (pp_rows p) [0..<length (pp_rows p)])
      = map ?row ((hb_peers h)[i := switched (hb_peers h ! i)])"
    using assms(1,2,5) map_zip_upt [of i "\<lambda>r. r\<lparr>pr_disabled := \<not> pr_disabled r\<rparr>" "pp_rows p"]
    by (simp only: map_update) (simp add: page_ok_def rowsOf_def)
  have "map entry_of (map ?row ps) = map stored_entry ps" for ps by simp
  then show ?thesis
    using assms(2-4) unfolding toggleRow_def rows by (simp only: begin_save_def isHub_def restated_def) simp
qed

text \<open>C17. Saving an edited row of a hub: in every state the page can reach, the request holds the edited
  row in its place and all other peers as they are stored, without an address and with the LAN
  policy the hub has for them; the policy of the edited peer is what its LAN field says, and it has
  none when the field was empty and left alone.\<close>

theorem edit_keeps_others:
  assumes "page_reach p" "page_enabled SaveClicked p" "pp_tunnel p = Some h" "hb_tun h" "pp_editing p = EditRow i"
    and "d = trimmed_draft (pp_draft p)" "validPeerKey (pr_key d)" "pr_key d \<notin> set (other_keys p)"
  shows "\<exists>rq m. pp_sent (page_step SaveClicked p) = pp_sent p @ [rq]
    \<and> rq_peers rq = (map stored_entry (hb_peers h))[i := entry_of d] \<and> rq_lan_allow rq = Some m
    \<and> (\<forall>j < length (hb_peers h). j \<noteq> i \<longrightarrow>
         jget m (pe_key (hb_peers h ! j)) = jget (parseLanAllow (hb_lan_allow h)) (pe_key (hb_peers h ! j)))
    \<and> jget m (pr_key d) = (if row_claims d then Some (cidrs_of (pr_lan d)) else None)"
proof -
  have ok: "page_ok p" by (rule page_reach_ok) fact
  have idle: "pp_saving p = None" and i: "i < length (hb_peers h)"
    using assms(2-5) ok by (auto simp: editor_shown_def page_ok_def rowsOf_def)
  show ?thesis
    unfolding page_step.simps by (rule edit_saved [OF ok assms(3,4) idle assms(5) i assms(7,8,6)])
qed

definition key_of :: "char \<Rightarrow> jstr" where
  "key_of c = replicate 43 (cu c)"

definition two_peers :: hub where
  "two_peers = \<lparr>hb_id = js ''hub'', hb_tun = True,
     hb_peers = [\<lparr>pe_key = key_of CHR ''A'', pe_alias = None, pe_disabled = False, pe_ip = Some (js ''10.0.0.2'')\<rparr>,
                 \<lparr>pe_key = js ''q'', pe_alias = Some (js ''q''), pe_disabled = False, pe_ip = None\<rparr>],
     hb_lan_allow = Some (js ''q=::/0''), hb_lan = None\<rparr>"

definition edited_page :: peers_page where
  "edited_page = draft_input DraftAlias (js ''a'') (startEdit 0 (page_load [two_peers] (new_peers_page (js ''hub''))))"

lemmas edited_page_defs = edited_page_def page_defs new_peers_page_def rowsOf_def two_peers_def

lemma edited_page_reach: "page_reach edited_page"
proof -
  have "page_reach (page_step (DraftTyped DraftAlias (js ''a'')) (page_step (EditClicked 0) (page_step (StoreNotified [two_peers]) (new_peers_page (js ''hub'')))))"
    by (intro page_reach.intros) (simp_all add: edited_page_defs row_shown_def editor_shown_def)
  then show ?thesis by (simp add: edited_page_def)
qed

lemma two_peers_policy: "jget (parseLanAllow (hb_lan_allow two_peers)) (js ''q'') = Some [js ''::/0'']"
proof -
  have "split_runs policy_sep (js ''q=::/0'') = [js ''q=::/0'']"
    by (rule split_runs_none) (simp add: policy_sep_def is_ws_def cu_def Let_def)
  then show ?thesis
    by (simp add: two_peers_def parseLanAllow_def) (simp add: policy_row_def Let_def cu_def)
qed

lemma edited_page_draft: "pr_key (trimmed_draft (pp_draft edited_page)) = key_of CHR ''A''"
proof -
  have "trim (key_of CHR ''A'') = key_of CHR ''A''"
    by (rule trim_id) (simp_all add: key_of_def is_ws_def cu_def Let_def)
  then show ?thesis by (simp add: edited_page_defs trimmed_draft_def row_of_def del: js_simps)
qed

lemma key_of_valid: "validPeerKey (key_of CHR ''A'')"
proof -
  have "key_unit (cu CHR ''A'')" by code_simp
  then show ?thesis by (simp add: valid_key_iff key_of_def list_all_iff)
qed

lemma edit_keeps_others_witness:
  "\<exists>rq m. pp_sent (page_step SaveClicked edited_page) = [rq] \<and> rq_lan_allow rq = Some m
    \<and> jget m (js ''q'') = Some [js ''::/0'']"
proof -
  let ?d = "trimmed_draft (pp_draft edited_page)"
  have e: "page_enabled SaveClicked edited_page" "pp_tunnel edited_page = Some two_peers" "hb_tun two_peers"
    "pp_editing edited_page = EditRow 0" "pp_sent edited_page = []"
    by (simp_all add: edited_page_defs editor_shown_def)
  have v: "validPeerKey (pr_key ?d)" by (simp add: edited_page_draft key_of_valid)
  have "pr_key ?d \<notin> set (other_keys edited_page)"
    unfolding edited_page_draft other_keys_edit [OF e(4)] by (auto simp: edited_page_defs less_Suc_eq key_of_def dest: arg_cong [of _ _ length])
  then obtain rq m where "pp_sent (page_step SaveClicked edited_page) = [rq]" "rq_lan_allow rq = Some m"
    and keep: "\<forall>j < length (hb_peers two_peers). j \<noteq> 0 \<longrightarrow>
         jget m (pe_key (hb_peers two_peers ! j)) = jget (parseLanAllow (hb_lan_allow two_peers)) (pe_key (hb_peers two_peers ! j))"
    using edit_keeps_others [OF edited_page_reach e(1-4) refl v] e(5) by auto
  moreover have "jget m (js ''q'') = Some [js ''::/0'']"
    using keep [rule_format, of 1] two_peers_policy by (simp add: two_peers_def)
  ultimately show ?thesis by blast
qed

text \<open>
  The row being edited is remembered by its position. When the list changes under the editor, the save
  overwrites whichever peer is at that position now: here a peer was removed elsewhere while its row was
  being edited, and the save brings it back in the place of the only other one.
\<close>

lemma stale_edit_replaces_peer:
  defines "p \<equiv> page_load [two_peers\<lparr>hb_peers := tl (hb_peers two_peers)\<rparr>] edited_page"
  shows "page_enabled SaveClicked p" "map en_key (rq_peers (hd (pp_sent (saveRow p)))) = [key_of CHR ''A'']"
proof -
  have d: "pr_key (trimmed_draft (pp_draft p)) = key_of CHR ''A''"
    using edited_page_draft by (simp add: p_def page_load_def Let_def)
  have "other_keys p = []" by (simp add: p_def edited_page_defs other_keys_def)
  moreover have "pp_tunnel p \<noteq> None" "length (pp_rows p) = 1" "pp_editing p = EditRow 0" "pp_saving p = None" "pp_sent p = []"
    by (simp_all add: p_def edited_page_defs)
  moreover from this have "next_rows d p = [d]" for d
    by (cases "pp_rows p") (simp_all add: next_rows_edit)
  ultimately show "page_enabled SaveClicked p" "map en_key (rq_peers (hd (pp_sent (saveRow p)))) = [key_of CHR ''A'']"
    using d key_of_valid by (simp_all add: saveRow_def begin_save_def Let_def editor_shown_def entry_of_def)
qed

text \<open>And when the list has become shorter than the position, no editor is shown, nor the button for a new row.\<close>

lemma stale_edit_hides_editor:
  "pp_editing p = EditRow i \<Longrightarrow> pp_tunnel p = Some h \<Longrightarrow> length (pp_rows p) \<le> i \<Longrightarrow>
   \<not> editor_shown p \<and> \<not> page_enabled AddClicked p \<and> \<not> page_enabled CancelClicked p"
  by (simp add: editor_shown_def)

text \<open>The answer to a save closes whatever editor is open by then.\<close>

lemma answer_closes_other_editor:
  "pp_saving p = Some SaveRow \<Longrightarrow>
   pp_editing (save_answered (Inr h) (startEdit j (cancelEdit p))) = NotEditing"
  by (simp add: save_answered_def startEdit_def cancelEdit_def Let_def)

end
