(* ===== verification/SettingsPage.thy ===== *)
theory SettingsPage
  imports WebStores JsNumber
begin

text \<open>
  The settings page, \<open>web-src/src/pages/settings-page.ts\<close>: its form, the check of the advanced values
  with the parser of Go durations, saves through the settings store, the rotation of the peer identity
  with its re-reads, the probes and the liveness of the inspector. Requests and answers are separate
  steps, and answers may come in any order. Labels are given by their i18n keys.
\<close>

section \<open>Durations\<close>

abbreviation dec_unit :: "unit16 \<Rightarrow> bool" where
  "dec_unit c \<equiv> is_digit 10 c"

datatype go_unit = Nanosecond | Microsecond | MicroSign | Millisecond | Second | Minute | Hour

text \<open>The alternatives of the pattern in its order.\<close>

definition GO_UNITS :: "(jstr \<times> go_unit) list" where
  "GO_UNITS = [(js ''ns'', Nanosecond), (js ''us'', Microsecond), ([181] @ js ''s'', MicroSign), (js ''ms'', Millisecond),
     (js ''s'', Second), (js ''m'', Minute), (js ''h'', Hour)]"

definition starts_with :: "jstr \<Rightarrow> jstr \<Rightarrow> bool" where
  "starts_with p s \<longleftrightarrow> take (length p) s = p"

definition match_unit :: "jstr \<Rightarrow> (jstr \<times> go_unit) option" where
  "match_unit s = find (\<lambda>(u, k). starts_with u s) GO_UNITS"

text \<open>
  One match of \<open>(\d+(?:\.\d+)?)(ns|us|...|h)\<close> at the start of a text: the number and the unit.
  The digits are taken greedily and first with the fraction; giving digits back never helps, because
  no unit starts with a digit or a point.
\<close>

definition match_duration :: "jstr \<Rightarrow> (jstr \<times> jstr \<times> go_unit) option" where
  "match_duration s =
     (let ds = takeWhile dec_unit s; r = dropWhile dec_unit s; fs = takeWhile dec_unit (tl r); plain = map_option (\<lambda>u. (ds, u)) (match_unit r) in
      if ds = [] then None
      else if r \<noteq> [] \<and> hd r = cu CHR ''.'' \<and> fs \<noteq> []
      then (case match_unit (dropWhile dec_unit (tl r)) of Some u \<Rightarrow> Some (ds @ [cu CHR ''.''] @ fs, u) | None \<Rightarrow> plain)
      else plain)"

text \<open>\<open>re.exec\<close> of a global pattern: the first match at or after the last index, with its index.\<close>

fun exec_duration :: "nat \<Rightarrow> jstr \<Rightarrow> (nat \<times> jstr \<times> jstr \<times> go_unit) option" where
  "exec_duration i s =
     (case match_duration s of
        Some m \<Rightarrow> Some (i, m)
      | None \<Rightarrow> (case s of [] \<Rightarrow> None | c # cs \<Rightarrow> exec_duration (i + 1) cs))"

declare exec_duration.simps [simp del]

definition unit_scale :: "go_unit \<Rightarrow> rat" where
  "unit_scale u =
     fl (case u of Nanosecond \<Rightarrow> 1 / 10 ^ 9 | Microsecond \<Rightarrow> 1 / 10 ^ 6 | MicroSign \<Rightarrow> 1 / 10 ^ 6 | Millisecond \<Rightarrow> 1 / 10 ^ 3
         | Second \<Rightarrow> 1 | Minute \<Rightarrow> 60 | Hour \<Rightarrow> 3600)"

text \<open>\<open>Number\<close> of digits with at most one point among them.\<close>

definition plain_number :: "jstr \<Rightarrow> js_double" where
  "plain_number s =
     (let ip = takeWhile dec_unit s; fp = drop (length ip + 1) s in
      dbl (of_nat (digits_value 10 (ip @ fp)) / 10 ^ length fp))"

lemma match_duration_nonempty: "match_duration s = Some (n, u, k) \<Longrightarrow> n \<noteq> []"
  by (auto simp: match_duration_def Let_def split: if_splits option.splits)

lemma exec_duration_nonempty: "exec_duration i s = Some (j, n, u, k) \<Longrightarrow> n \<noteq> []"
proof (induction i s rule: exec_duration.induct)
  case (1 i s)
  then show ?case
    by (auto simp: exec_duration.simps [of i s] dest: match_duration_nonempty split: option.splits list.splits)
qed

function duration_loop :: "jstr \<Rightarrow> nat \<Rightarrow> js_double \<Rightarrow> js_double option" where
  "duration_loop v e t =
     (case exec_duration e (drop e v) of
        None \<Rightarrow> if e = length v \<and> 0 < e then Some t else None
      | Some (i, n, u, k) \<Rightarrow>
          if i \<noteq> e \<or> length v \<le> e then None
          else duration_loop v (e + length n + length u) (dbl_add t (dbl_times (plain_number n) (unit_scale k))))"
  by pat_completeness auto

termination
proof (relation "measure (\<lambda>(v, e, t). length v - e)", goal_cases)
  case (2 v e t x i y n z u k)
  then have "n \<noteq> []" using exec_duration_nonempty by blast
  then have "length v - (e + length n + length u) < length v - e" if "e < length v"
    using that by (simp add: diff_less_mono2 length_greater_0_conv [symmetric] del: length_greater_0_conv)
  then show ?case using 2 by simp
qed simp

declare duration_loop.simps [simp del]

definition parseGoDuration :: "jstr \<Rightarrow> js_double option" where
  "parseGoDuration value = (let v = trim value in if v = [] then Some (Finite 0) else duration_loop v 0 (Finite 0))"

section \<open>Numbers\<close>

definition all_digits :: "nat \<Rightarrow> jstr \<Rightarrow> bool" where
  "all_digits r s \<longleftrightarrow> s \<noteq> [] \<and> list_all (is_digit r) s"

definition strip_sign :: "jstr \<Rightarrow> rat \<times> jstr" where
  "strip_sign s =
     (case s of c # r \<Rightarrow> if c = cu CHR ''-'' then (-1, r) else if c = cu CHR ''+'' then (1, r) else (1, s) | [] \<Rightarrow> (1, s))"

definition scaled :: "rat \<Rightarrow> int \<Rightarrow> rat" where
  "scaled x e = (if e < 0 then x / 10 ^ nat (- e) else x * 10 ^ nat e)"

definition js_exponent :: "jstr \<Rightarrow> int option" where
  "js_exponent s =
     (case s of
        [] \<Rightarrow> Some 0
      | c # r \<Rightarrow>
          if lower_unit c = cu CHR ''e'' \<and> all_digits 10 (snd (strip_sign r))
          then Some ((if fst (strip_sign r) < 0 then -1 else 1) * int (digits_value 10 (snd (strip_sign r)))) else None)"

definition js_decimal :: "jstr \<Rightarrow> rat option" where
  "js_decimal s =
     (let sg = fst (strip_sign s); s1 = snd (strip_sign s);
          ip = takeWhile dec_unit s1; r = dropWhile dec_unit s1;
          point = (r \<noteq> [] \<and> hd r = cu CHR ''.'');
          fp = (if point then takeWhile dec_unit (tl r) else []);
          rest = (if point then dropWhile dec_unit (tl r) else r)
      in if ip = [] \<and> fp = [] then None
         else (case js_exponent rest of
                 None \<Rightarrow> None
               | Some e \<Rightarrow> Some (fl (sg * scaled (of_nat (digits_value 10 (ip @ fp))) (e - int (length fp))))))"

text \<open>\<open>Number\<close> of a text, where NaN and what is not finite are \<open>None\<close>.\<close>

definition js_number :: "jstr \<Rightarrow> rat option" where
  "js_number s =
     (let v = trim s;
          radix = (\<lambda>r. if all_digits r (drop 2 v) then Some (fl (of_nat (digits_value r (drop 2 v)))) else None)
      in if v = [] then Some 0
         else (case (if to_lower (take 2 v) = js ''0x'' then radix 16
                     else if to_lower (take 2 v) = js ''0o'' then radix 8
                     else if to_lower (take 2 v) = js ''0b'' then radix 2
                     else js_decimal v) of
                 None \<Rightarrow> None
               | Some x \<Rightarrow> if \<bar>x\<bar> < 2 ^ 1024 then Some x else None))"

definition is_integer :: "rat \<Rightarrow> bool" where
  "is_integer x \<longleftrightarrow> of_int \<lfloor>x\<rfloor> = x"

section \<open>The form\<close>

datatype p2p_mode = Kcp | Quic

record quic_settings =
  qs_mtu :: "nat option"
  qs_relay_batch_bytes :: "nat option"
  qs_relay_flush :: "jstr option"
  qs_keep_alive :: "jstr option"
  qs_idle :: "jstr option"
  qs_handshake_timeout :: "jstr option"

record smux_settings =
  sx_interval :: "jstr option"
  sx_timeout :: "jstr option"

text \<open>
  \<open>p2_timeouts\<close> is the object \<open>timeouts\<close> with its member \<open>smux\<close>. The type of the page does not
  name \<open>faults\<close>, but the backend sends it where the config file has it (\<open>api/config_handler.go\<close>);
  it is kept as its text.
\<close>

record p2p_settings =
  p2_derp :: jstr
  p2_secure :: "bool option"
  p2_ca_file :: "jstr option"
  p2_stun :: "jstr option"
  p2_direct :: "bool option"
  p2_ipv6 :: "bool option"
  p2_transport :: "p2p_mode option"
  p2_quic :: "quic_settings option"
  p2_timeouts :: "smux_settings option option"
  p2_faults :: "jstr option"

record p2p_form =
  pf_derp :: jstr
  pf_secure :: bool
  pf_caFile :: jstr
  pf_stun :: jstr
  pf_direct :: bool
  pf_ipv6 :: bool
  pf_mode :: p2p_mode
  pf_quicMtu :: jstr
  pf_quicBatch :: jstr
  pf_quicRelayFlush :: jstr
  pf_quicKeepAlive :: jstr
  pf_quicIdle :: jstr
  pf_quicHandshake :: jstr
  pf_smuxInterval :: jstr
  pf_smuxTimeout :: jstr

definition text_or_empty :: "jstr option \<Rightarrow> jstr" where
  "text_or_empty s = given s []"

definition number_text :: "nat option \<Rightarrow> jstr" where
  "number_text n = (case n of None \<Rightarrow> [] | Some k \<Rightarrow> if k = 0 then [] else dec_str k)"

text \<open>The fields of the form that \<open>_applyP2PAdvanced\<close> sets, then all fields of the P2P settings.\<close>

definition applyP2PAdvanced :: "p2p_settings option \<Rightarrow> p2p_form \<Rightarrow> p2p_form" where
  "applyP2PAdvanced p2p f =
     (let quic = Option.bind p2p p2_quic; smux = Option.bind (Option.bind p2p p2_timeouts) (\<lambda>t. t) in
      f\<lparr>pf_mode := (if Option.bind p2p p2_transport = Some Quic then Quic else Kcp),
        pf_quicMtu := number_text (Option.bind quic qs_mtu),
        pf_quicBatch := number_text (Option.bind quic qs_relay_batch_bytes),
        pf_quicRelayFlush := text_or_empty (Option.bind quic qs_relay_flush),
        pf_quicKeepAlive := text_or_empty (Option.bind quic qs_keep_alive),
        pf_quicIdle := text_or_empty (Option.bind quic qs_idle),
        pf_quicHandshake := text_or_empty (Option.bind quic qs_handshake_timeout),
        pf_smuxInterval := text_or_empty (Option.bind smux sx_interval),
        pf_smuxTimeout := text_or_empty (Option.bind smux sx_timeout)\<rparr>)"

definition apply_p2p :: "p2p_settings option \<Rightarrow> p2p_form \<Rightarrow> p2p_form" where
  "apply_p2p p2p f =
     applyP2PAdvanced p2p
       (f\<lparr>pf_derp := (case p2p of None \<Rightarrow> [] | Some s \<Rightarrow> p2_derp s),
          pf_secure := given (Option.bind p2p p2_secure) True,
          pf_caFile := text_or_empty (Option.bind p2p p2_ca_file),
          pf_stun := text_or_empty (Option.bind p2p p2_stun),
          pf_direct := given (Option.bind p2p p2_direct) True,
          pf_ipv6 := given (Option.bind p2p p2_ipv6) False\<rparr>)"

text \<open>
  A field of a payload is left out when its text is blank. The numbers are sent only after
  \<open>_advancedError\<close> has found them to be integers in their range.
\<close>

definition trimmed :: "jstr \<Rightarrow> jstr option" where
  "trimmed v = (if trim v = [] then None else Some (trim v))"

definition number_of :: "jstr \<Rightarrow> nat option" where
  "number_of v = (if trim v = [] then None else Some (case js_number v of None \<Rightarrow> 0 | Some x \<Rightarrow> nat \<lfloor>x\<rfloor>))"

definition quicPayload :: "p2p_form \<Rightarrow> quic_settings option" where
  "quicPayload f =
     (let q = \<lparr>qs_mtu = number_of (pf_quicMtu f), qs_relay_batch_bytes = number_of (pf_quicBatch f),
               qs_relay_flush = trimmed (pf_quicRelayFlush f), qs_keep_alive = trimmed (pf_quicKeepAlive f),
               qs_idle = trimmed (pf_quicIdle f), qs_handshake_timeout = trimmed (pf_quicHandshake f)\<rparr>
      in if q = \<lparr>qs_mtu = None, qs_relay_batch_bytes = None, qs_relay_flush = None, qs_keep_alive = None, qs_idle = None,
                 qs_handshake_timeout = None\<rparr> then None else Some q)"

definition smuxPayload :: "p2p_form \<Rightarrow> smux_settings option" where
  "smuxPayload f =
     (let s = \<lparr>sx_interval = trimmed (pf_smuxInterval f), sx_timeout = trimmed (pf_smuxTimeout f)\<rparr>
      in if s = \<lparr>sx_interval = None, sx_timeout = None\<rparr> then None else Some s)"

definition p2p_payload :: "p2p_form \<Rightarrow> p2p_settings" where
  "p2p_payload f =
     \<lparr>p2_derp = pf_derp f, p2_secure = Some (pf_secure f), p2_ca_file = Some (pf_caFile f), p2_stun = Some (pf_stun f),
      p2_direct = Some (pf_direct f), p2_ipv6 = Some (pf_ipv6 f), p2_transport = Some (pf_mode f),
      p2_quic = quicPayload f, p2_timeouts = (case smuxPayload f of None \<Rightarrow> None | Some s \<Rightarrow> Some (Some s)),
      p2_faults = None\<rparr>"

section \<open>The check of the advanced values\<close>

datatype adv_error =
    QUICMTUInvalid | QUICBatchInvalid | DurationInvalid jstr | QUICIdleInvalid | SmuxTimeoutInvalid

text \<open>A blank field is null, and NaN stands for a text that is none: the outer and the inner \<open>None\<close>.\<close>

definition intField :: "jstr \<Rightarrow> rat option option" where
  "intField v =
     (if trim v = [] then None
      else Some (case js_number v of None \<Rightarrow> None | Some n \<Rightarrow> if is_integer n then Some n else None))"

definition durField :: "jstr \<Rightarrow> js_double option option" where
  "durField v = (if trim v = [] then None else Some (parseGoDuration v))"

definition out_of :: "rat \<Rightarrow> rat \<Rightarrow> rat option option \<Rightarrow> bool" where
  "out_of l h f \<longleftrightarrow> (case f of None \<Rightarrow> False | Some None \<Rightarrow> True | Some (Some n) \<Rightarrow> n < l \<or> n > h)"

definition bad_duration :: "js_double option option \<Rightarrow> bool" where
  "bad_duration f \<longleftrightarrow> (case f of None \<Rightarrow> False | Some None \<Rightarrow> True | Some (Some n) \<Rightarrow> dbl_less n (Finite 0))"

text \<open>\<open>x || d\<close>, for a field that is a number or null.\<close>

definition or_default :: "js_double option option \<Rightarrow> rat \<Rightarrow> js_double" where
  "or_default f d = (case f of Some (Some n) \<Rightarrow> if n = Finite 0 then Finite d else n | _ \<Rightarrow> Finite d)"

definition advancedError :: "p2p_form \<Rightarrow> adv_error option" where
  "advancedError f =
     (let keepAlive = durField (pf_quicKeepAlive f); idle = durField (pf_quicIdle f);
          interval = durField (pf_smuxInterval f); timeout = durField (pf_smuxTimeout f)
      in if out_of 1200 1452 (intField (pf_quicMtu f)) then Some QUICMTUInvalid
         else if out_of 1 65536 (intField (pf_quicBatch f)) then Some QUICBatchInvalid
         else if bad_duration (durField (pf_quicRelayFlush f)) then Some (DurationInvalid (js ''settingsQUICRelayFlush''))
         else if bad_duration keepAlive then Some (DurationInvalid (js ''settingsQUICKeepAlive''))
         else if bad_duration idle then Some (DurationInvalid (js ''settingsQUICIdle''))
         else if bad_duration (durField (pf_quicHandshake f)) then Some (DurationInvalid (js ''settingsQUICHandshake''))
         else if \<not> dbl_less (or_default keepAlive 5) (or_default idle 15) then Some QUICIdleInvalid
         else if bad_duration interval then Some (DurationInvalid (js ''settingsSmuxInterval''))
         else if bad_duration timeout then Some (DurationInvalid (js ''settingsSmuxTimeout''))
         else if dbl_less (or_default timeout 15) (dbl_times (or_default interval 3) 2) then Some SmuxTimeoutInvalid
         else None)"

definition adv_error_text :: "adv_error \<Rightarrow> jstr" where
  "adv_error_text e =
     (case e of QUICMTUInvalid \<Rightarrow> js ''settingsQUICMTUInvalid'' | QUICBatchInvalid \<Rightarrow> js ''settingsQUICBatchInvalid''
      | DurationInvalid x \<Rightarrow> js ''settingsDurationInvalid: '' @ x | QUICIdleInvalid \<Rightarrow> js ''settingsQUICIdleInvalid''
      | SmuxTimeoutInvalid \<Rightarrow> js ''settingsSmuxTimeoutInvalid'')"

section \<open>The page\<close>

type_synonym p2p_update = "p2p_settings settings_update"
type_synonym settings_store = "p2p_settings app_settings \<times> web_local"

text \<open>What follows an answered update of the settings.\<close>

datatype update_after = AfterSave | AfterInspectorUrl | AfterQuiet

record identity =
  idn_public_key :: jstr
  idn_running :: bool
  idn_direct_peers :: nat
  idn_derp_peers :: nat
  idn_punch_attempts :: nat
  idn_punch_success :: nat

record probe_test =
  pt_ok :: bool
  pt_mapped :: "jstr option"
  pt_latency :: "nat option"
  pt_error :: "jstr option"

text \<open>
  A rotation of the key: the request is out; or it failed, and a re-read is out or waits for its
  timer. The key before the click and the number of the re-read are kept.
\<close>

datatype reset_phase = ResetIdle | ResetSent jstr | ResetReading jstr nat | ResetWaiting jstr nat

record settings_page =
  sg_server :: jstr
  sg_entrypoint :: jstr
  sg_insecure :: bool
  sg_p2p :: p2p_form
  sg_theme :: jstr
  sg_lang :: jstr
  sg_statsInterval :: nat
  sg_inspectorUrl :: jstr
  sg_saving :: bool
  sg_snackbar :: jstr
  sg_snackTimers :: nat
  sg_updates :: "(p2p_update \<times> update_after) list"
  sg_publicKey :: jstr
  sg_running :: bool
  sg_transport :: "(nat \<times> nat \<times> nat \<times> nat) option"
  sg_showKey :: bool
  sg_qrKey :: jstr
  sg_resetDialog :: bool
  sg_reset :: reset_phase
  sg_resetRequests :: nat
  sg_identityReads :: "bool list"
  sg_identityTimers :: nat
  sg_p2pTesting :: bool
  sg_p2pTest :: "probe_test option"
  sg_p2pProbe :: "(jstr \<times> bool \<times> jstr) option"
  sg_stunTesting :: bool
  sg_stunTest :: "probe_test option"
  sg_stunProbe :: "jstr option"
  sg_livenessTimer :: bool
  sg_livenessChecks :: "jstr list"
  sg_inspectorConnected :: bool
  sg_inspectorTested :: bool
  sg_doctor :: jstr
  sg_doctorLoading :: bool
  sg_version :: jstr

text \<open>The fields of a page that was just created.\<close>

definition initial_form :: p2p_form where
  "initial_form = \<lparr>pf_derp = [], pf_secure = True, pf_caFile = [], pf_stun = [], pf_direct = True, pf_ipv6 = False, pf_mode = Kcp,
     pf_quicMtu = [], pf_quicBatch = [], pf_quicRelayFlush = [], pf_quicKeepAlive = [], pf_quicIdle = [], pf_quicHandshake = [],
     pf_smuxInterval = [], pf_smuxTimeout = []\<rparr>"

definition initial_page :: settings_page where
  "initial_page = \<lparr>sg_server = [], sg_entrypoint = [], sg_insecure = False, sg_p2p = initial_form, sg_theme = js ''system'',
     sg_lang = js ''en'', sg_statsInterval = 3, sg_inspectorUrl = [], sg_saving = False, sg_snackbar = [], sg_snackTimers = 0,
     sg_updates = [], sg_publicKey = [], sg_running = False, sg_transport = None, sg_showKey = False, sg_qrKey = [],
     sg_resetDialog = False, sg_reset = ResetIdle, sg_resetRequests = 0, sg_identityReads = [], sg_identityTimers = 0,
     sg_p2pTesting = False, sg_p2pTest = None, sg_p2pProbe = None, sg_stunTesting = False, sg_stunTest = None, sg_stunProbe = None,
     sg_livenessTimer = False, sg_livenessChecks = [], sg_inspectorConnected = False, sg_inspectorTested = False,
     sg_doctor = [], sg_doctorLoading = False, sg_version = []\<rparr>"

definition show_snackbar :: "jstr \<Rightarrow> settings_page \<Rightarrow> settings_page" where
  "show_snackbar msg p = p\<lparr>sg_snackbar := msg, sg_snackTimers := sg_snackTimers p + 1\<rparr>"

definition snackbar_timeout :: "settings_page \<Rightarrow> settings_page" where
  "snackbar_timeout p = (if sg_snackTimers p = 0 then p else p\<lparr>sg_snackbar := [], sg_snackTimers := sg_snackTimers p - 1\<rparr>)"

text \<open>The assignments of \<open>connectedCallback\<close> and of its subscription; both then read the identity.\<close>

definition apply_settings :: "p2p_settings app_settings \<Rightarrow> settings_page \<Rightarrow> settings_page" where
  "apply_settings s p =
     p\<lparr>sg_server := as_server s, sg_entrypoint := as_entrypoint s, sg_insecure := as_insecure s, sg_p2p := apply_p2p (as_p2p s) (sg_p2p p),
       sg_theme := as_theme s, sg_lang := as_lang s, sg_statsInterval := (if as_interval s = 0 then 1 else as_interval s),
       sg_inspectorUrl := as_inspector s\<rparr>"

definition fetchP2PIdentity :: "bool \<Rightarrow> settings_page \<Rightarrow> settings_page" where
  "fetchP2PIdentity keepOnError p = p\<lparr>sg_identityReads := sg_identityReads p @ [keepOnError]\<rparr>"

definition settings_notified :: "p2p_settings app_settings \<Rightarrow> settings_page \<Rightarrow> settings_page" where
  "settings_notified s p = fetchP2PIdentity False (apply_settings s p)"

definition fetchVersion :: "jstr option \<Rightarrow> settings_page \<Rightarrow> settings_page" where
  "fetchVersion answer p = p\<lparr>sg_version := given answer []\<rparr>"

definition set_identity :: "identity \<Rightarrow> settings_page \<Rightarrow> settings_page" where
  "set_identity r p =
     p\<lparr>sg_publicKey := idn_public_key r, sg_running := idn_running r,
       sg_transport := (if idn_running r then Some (idn_direct_peers r, idn_derp_peers r, idn_punch_attempts r, idn_punch_success r) else None)\<rparr>"

definition identity_answer :: "bool \<Rightarrow> identity option \<Rightarrow> settings_page \<Rightarrow> settings_page" where
  "identity_answer keepOnError answer p =
     (case answer of
        Some r \<Rightarrow> set_identity r p
      | None \<Rightarrow> if keepOnError then p else p\<lparr>sg_publicKey := [], sg_running := False, sg_transport := None\<rparr>)"

definition remove_nth :: "nat \<Rightarrow> 'a list \<Rightarrow> 'a list" where
  "remove_nth i xs = take i xs @ drop (i + 1) xs"

definition identity_read :: "nat \<Rightarrow> identity option \<Rightarrow> settings_page \<Rightarrow> settings_page" where
  "identity_read i answer p =
     (if i < length (sg_identityReads p)
      then identity_answer (sg_identityReads p ! i) answer (p\<lparr>sg_identityReads := remove_nth i (sg_identityReads p)\<rparr>) else p)"

text \<open>The controls of the form.\<close>

datatype adv_field = SmuxInterval | SmuxTimeout | QuicMtu | QuicBatch | QuicRelayFlush | QuicKeepAlive | QuicIdle | QuicHandshake

datatype settings_input =
    TypedServer jstr
  | TypedEntrypoint jstr
  | ToggledInsecure
  | TypedDerp jstr
  | ToggledSecure
  | TypedCaFile jstr
  | ToggledDirect
  | ToggledIPv6
  | TypedStun jstr
  | ChoseMode jstr
  | TypedAdvanced adv_field jstr

fun advanced_input :: "adv_field \<Rightarrow> jstr \<Rightarrow> p2p_form \<Rightarrow> p2p_form" where
  "advanced_input SmuxInterval v f = f\<lparr>pf_smuxInterval := v\<rparr>"
| "advanced_input SmuxTimeout v f = f\<lparr>pf_smuxTimeout := v\<rparr>"
| "advanced_input QuicMtu v f = f\<lparr>pf_quicMtu := v\<rparr>"
| "advanced_input QuicBatch v f = f\<lparr>pf_quicBatch := v\<rparr>"
| "advanced_input QuicRelayFlush v f = f\<lparr>pf_quicRelayFlush := v\<rparr>"
| "advanced_input QuicKeepAlive v f = f\<lparr>pf_quicKeepAlive := v\<rparr>"
| "advanced_input QuicIdle v f = f\<lparr>pf_quicIdle := v\<rparr>"
| "advanced_input QuicHandshake v f = f\<lparr>pf_quicHandshake := v\<rparr>"

definition p2p_input :: "(p2p_form \<Rightarrow> p2p_form) \<Rightarrow> settings_page \<Rightarrow> settings_page" where
  "p2p_input g p = p\<lparr>sg_p2p := g (sg_p2p p)\<rparr>"

fun settings_typed :: "settings_input \<Rightarrow> settings_page \<Rightarrow> settings_page" where
  "settings_typed (TypedServer v) p = p\<lparr>sg_server := v\<rparr>"
| "settings_typed (TypedEntrypoint v) p = p\<lparr>sg_entrypoint := v\<rparr>"
| "settings_typed ToggledInsecure p = p\<lparr>sg_insecure := \<not> sg_insecure p\<rparr>"
| "settings_typed (TypedDerp v) p = (p2p_input (\<lambda>f. f\<lparr>pf_derp := v\<rparr>) p)\<lparr>sg_p2pTest := None\<rparr>"
| "settings_typed ToggledSecure p = (p2p_input (\<lambda>f. f\<lparr>pf_secure := \<not> pf_secure f\<rparr>) p)\<lparr>sg_p2pTest := None\<rparr>"
| "settings_typed (TypedCaFile v) p = (p2p_input (\<lambda>f. f\<lparr>pf_caFile := v\<rparr>) p)\<lparr>sg_p2pTest := None\<rparr>"
| "settings_typed ToggledDirect p = p2p_input (\<lambda>f. f\<lparr>pf_direct := \<not> pf_direct f\<rparr>) p"
| "settings_typed ToggledIPv6 p = p2p_input (\<lambda>f. f\<lparr>pf_ipv6 := \<not> pf_ipv6 f\<rparr>) p"
| "settings_typed (TypedStun v) p = (p2p_input (\<lambda>f. f\<lparr>pf_stun := v\<rparr>) p)\<lparr>sg_stunTest := None\<rparr>"
| "settings_typed (ChoseMode v) p = p2p_input (\<lambda>f. f\<lparr>pf_mode := (if v = js ''quic'' then Quic else Kcp)\<rparr>) p"
| "settings_typed (TypedAdvanced x v) p = p2p_input (advanced_input x v) p"

section \<open>Rotating the key\<close>

definition reconcileP2PIdentity :: "settings_page \<Rightarrow> settings_page" where
  "reconcileP2PIdentity p = (fetchP2PIdentity True p)\<lparr>sg_identityTimers := sg_identityTimers p + 2\<rparr>"

definition identity_timer :: "settings_page \<Rightarrow> settings_page" where
  "identity_timer p =
     (if sg_identityTimers p = 0 then p else fetchP2PIdentity True (p\<lparr>sg_identityTimers := sg_identityTimers p - 1\<rparr>))"

definition resetP2PKey :: "settings_page \<Rightarrow> settings_page" where
  "resetP2PKey p = p\<lparr>sg_reset := ResetSent (sg_publicKey p), sg_resetRequests := sg_resetRequests p + 1\<rparr>"

text \<open>
  An answer reports the rotation; an error starts the re-reads, the first without delay. The text of
  the error is left out of the message.
\<close>

definition reset_answered :: "identity option \<Rightarrow> settings_page \<Rightarrow> settings_page" where
  "reset_answered answer p =
     (case sg_reset p of
        ResetSent before \<Rightarrow>
          (case answer of
             Some r \<Rightarrow>
               (reconcileP2PIdentity (show_snackbar (js ''p2pKeyResetDone'') ((set_identity r p)\<lparr>sg_showKey := True, sg_resetDialog := False\<rparr>)))
                 \<lparr>sg_reset := ResetIdle\<rparr>
           | None \<Rightarrow> p\<lparr>sg_reset := ResetReading before 0\<rparr>)
      | _ \<Rightarrow> p)"

definition reset_wait_over :: "settings_page \<Rightarrow> settings_page" where
  "reset_wait_over p = (case sg_reset p of ResetWaiting before k \<Rightarrow> p\<lparr>sg_reset := ResetReading before k\<rparr> | _ \<Rightarrow> p)"

definition reset_reread :: "identity option \<Rightarrow> settings_page \<Rightarrow> settings_page" where
  "reset_reread answer p =
     (case sg_reset p of
        ResetReading before k \<Rightarrow>
          (let p1 = identity_answer True answer p in
           if before \<noteq> [] \<and> sg_publicKey p1 \<noteq> [] \<and> sg_publicKey p1 \<noteq> before
           then (reconcileP2PIdentity (show_snackbar (js ''p2pKeyResetDone'') (p1\<lparr>sg_resetDialog := False\<rparr>)))\<lparr>sg_reset := ResetIdle\<rparr>
           else if k < 2 then p1\<lparr>sg_reset := ResetWaiting before (k + 1)\<rparr>
           else (show_snackbar (js ''p2pKeyResetFailed'') p1)\<lparr>sg_reset := ResetIdle\<rparr>)
      | _ \<Rightarrow> p)"

section \<open>Saving\<close>

definition no_update :: p2p_update where
  "no_update = \<lparr>up_server = None, up_entrypoint = None, up_insecure = None, up_lang = None, up_theme = None, up_interval = None,
     up_inspector = None, up_p2p = None\<rparr>"

definition send_update :: "p2p_update \<Rightarrow> update_after \<Rightarrow> settings_page \<Rightarrow> settings_page" where
  "send_update u after p = p\<lparr>sg_updates := sg_updates p @ [(u, after)]\<rparr>"

definition saveSettings :: "settings_page \<Rightarrow> settings_page" where
  "saveSettings p =
     (case advancedError (sg_p2p p) of
        Some e \<Rightarrow> show_snackbar (adv_error_text e) p
      | None \<Rightarrow>
          send_update (no_update\<lparr>up_server := Some (sg_server p), up_entrypoint := Some (sg_entrypoint p), up_insecure := Some (sg_insecure p),
                         up_p2p := Some (p2p_payload (sg_p2p p))\<rparr>) AfterSave (p\<lparr>sg_saving := True\<rparr>))"

definition CHECK_MARK :: jstr where
  "CHECK_MARK = [10003, 32]"

text \<open>
  The answer to an update, or its failure, which the store swallows: it applies the update and
  notifies the page in either case, and the page goes on.
\<close>

definition after_update :: "update_after \<Rightarrow> settings_page \<Rightarrow> settings_page" where
  "after_update after p =
     (case after of
        AfterSave \<Rightarrow> (show_snackbar (CHECK_MARK @ js ''saved'') p)\<lparr>sg_saving := False\<rparr>
      | AfterInspectorUrl \<Rightarrow> show_snackbar (CHECK_MARK @ js ''saved'') p
      | AfterQuiet \<Rightarrow> p)"

definition update_answered :: "bool \<Rightarrow> nat \<Rightarrow> bool \<Rightarrow> settings_page \<times> settings_store \<Rightarrow> settings_page \<times> settings_store" where
  "update_answered prefers_dark i accepted w =
     (case w of (p, st) \<Rightarrow>
        if i < length (sg_updates p)
        then (let (u, after) = sg_updates p ! i;
                  st1 = updateSettings prefers_dark u st;
                  p1 = settings_notified (fst st1) (p\<lparr>sg_updates := remove_nth i (sg_updates p)\<rparr>)
              in (after_update after p1, st1))
        else w)"

definition cycleOption :: "'a \<Rightarrow> 'a list \<Rightarrow> 'a" where
  "cycleOption current opts =
     (case index_of [current] opts of None \<Rightarrow> opts ! 0 | Some i \<Rightarrow> opts ! ((i + 1) mod length opts))"

definition THEME_OPTIONS :: "(jstr \<times> jstr) list" where
  "THEME_OPTIONS = [(js ''system'', js ''settingsThemeSystem''), (js ''light'', js ''settingsThemeLight''), (js ''dark'', js ''settingsThemeDark'')]"

definition LANG_OPTIONS :: "(jstr \<times> jstr) list" where
  "LANG_OPTIONS = [(js ''en'', js ''settingsLangEn''), (js ''zh'', js ''settingsLangZh'')]"

definition INTERVAL_OPTIONS :: "(nat \<times> jstr) list" where
  "INTERVAL_OPTIONS = [(1, js ''settingsInterval1s''), (2, js ''settingsInterval2s''), (3, js ''settingsInterval3s''),
     (5, js ''settingsInterval5s''), (10, js ''settingsInterval10s''), (30, js ''settingsInterval30s'')]"

definition setTheme :: "jstr \<Rightarrow> settings_page \<Rightarrow> settings_page" where
  "setTheme theme p =
     send_update (no_update\<lparr>up_theme := Some theme\<rparr>) AfterQuiet
       (show_snackbar (CHECK_MARK @ given (map_of THEME_OPTIONS theme) (js ''settingsThemeSystem'')) (p\<lparr>sg_theme := theme\<rparr>))"

definition setLang :: "jstr \<Rightarrow> settings_page \<Rightarrow> settings_page" where
  "setLang lang p =
     send_update (no_update\<lparr>up_lang := Some lang\<rparr>) AfterQuiet
       (show_snackbar (CHECK_MARK @ given (map_of LANG_OPTIONS lang) (js ''settingsLangEn'')) (p\<lparr>sg_lang := lang\<rparr>))"

definition setStatsInterval :: "nat \<Rightarrow> settings_page \<Rightarrow> settings_page" where
  "setStatsInterval secs p =
     send_update (no_update\<lparr>up_interval := Some secs\<rparr>) AfterQuiet
       (show_snackbar (CHECK_MARK @ given (map_of INTERVAL_OPTIONS secs) (js ''settingsInterval1s'')) (p\<lparr>sg_statsInterval := secs\<rparr>))"

definition saveInspectorUrl :: "settings_page \<Rightarrow> settings_page" where
  "saveInspectorUrl p = send_update (no_update\<lparr>up_inspector := Some (sg_inspectorUrl p)\<rparr>) AfterInspectorUrl p"

section \<open>Probes\<close>

definition testP2P :: "settings_page \<Rightarrow> settings_page" where
  "testP2P p =
     p\<lparr>sg_p2pTesting := True, sg_p2pTest := None,
       sg_p2pProbe := Some (pf_derp (sg_p2p p), pf_secure (sg_p2p p), pf_caFile (sg_p2p p))\<rparr>"

definition p2p_tested :: "jstr + probe_test \<Rightarrow> settings_page \<Rightarrow> settings_page" where
  "p2p_tested r p =
     p\<lparr>sg_p2pTest := Some (case r of Inr a \<Rightarrow> a\<lparr>pt_mapped := None\<rparr>
                            | Inl e \<Rightarrow> \<lparr>pt_ok = False, pt_mapped = None, pt_latency = None, pt_error = Some e\<rparr>),
       sg_p2pTesting := False, sg_p2pProbe := None\<rparr>"

definition testStun :: "settings_page \<Rightarrow> settings_page" where
  "testStun p = p\<lparr>sg_stunTesting := True, sg_stunTest := None, sg_stunProbe := Some (pf_stun (sg_p2p p))\<rparr>"

definition stun_tested :: "jstr + probe_test \<Rightarrow> settings_page \<Rightarrow> settings_page" where
  "stun_tested r p =
     p\<lparr>sg_stunTest := Some (case r of Inr a \<Rightarrow> a | Inl e \<Rightarrow> \<lparr>pt_ok = False, pt_mapped = None, pt_latency = None, pt_error = Some e\<rparr>),
       sg_stunTesting := False, sg_stunProbe := None\<rparr>"

definition runDoctor :: "settings_page \<Rightarrow> settings_page" where
  "runDoctor p = p\<lparr>sg_doctorLoading := True\<rparr>"

definition doctor_answered :: "jstr + jstr \<Rightarrow> settings_page \<Rightarrow> settings_page" where
  "doctor_answered r p = p\<lparr>sg_doctor := (case r of Inl e \<Rightarrow> e | Inr d \<Rightarrow> d), sg_doctorLoading := False\<rparr>"

text \<open>The inspector: a change of its URL arms the one timer again; the timer or a click starts a check.\<close>

definition onInspectorUrlChange :: "jstr \<Rightarrow> settings_page \<Rightarrow> settings_page" where
  "onInspectorUrlChange url p = p\<lparr>sg_inspectorUrl := url, sg_livenessTimer := True\<rparr>"

definition liveness_url :: "jstr \<Rightarrow> jstr" where
  "liveness_url url = (if url \<noteq> [] \<and> last url = cu CHR ''/'' then butlast url else url) @ js ''/liveness''"

definition checkLiveness :: "settings_page \<Rightarrow> settings_page" where
  "checkLiveness p =
     (if sg_inspectorUrl p = [] then p\<lparr>sg_inspectorConnected := False, sg_inspectorTested := False\<rparr>
      else p\<lparr>sg_livenessChecks := sg_livenessChecks p @ [liveness_url (sg_inspectorUrl p)]\<rparr>)"

definition liveness_timeout :: "settings_page \<Rightarrow> settings_page" where
  "liveness_timeout p = (if sg_livenessTimer p then checkLiveness (p\<lparr>sg_livenessTimer := False\<rparr>) else p)"

definition liveness_answered :: "nat \<Rightarrow> bool \<Rightarrow> settings_page \<Rightarrow> settings_page" where
  "liveness_answered i live p =
     (if i < length (sg_livenessChecks p)
      then p\<lparr>sg_livenessChecks := remove_nth i (sg_livenessChecks p), sg_inspectorConnected := live, sg_inspectorTested := True\<rparr> else p)"

end
