(* ===== verification/SettingsCorrect.thy ===== *)
theory SettingsCorrect
  imports SettingsPage
begin

text \<open>
  The settings page: which texts are durations, that a save of untouched settings restates them, that
  a rotation of the key which happened is not reported as failed, and where edits and answers get lost.
\<close>

section \<open>Durations\<close>

text \<open>A term of a duration: digits, a fraction or none, a unit. Its value in seconds.\<close>

type_synonym go_term = "(jstr \<times> jstr option) \<times> (jstr \<times> go_unit)"

definition term_number :: "go_term \<Rightarrow> jstr" where
  "term_number t = (case t of ((ds, fs), _) \<Rightarrow> ds @ (case fs of None \<Rightarrow> [] | Some f \<Rightarrow> cu CHR ''.'' # f))"

definition term_text :: "go_term \<Rightarrow> jstr" where
  "term_text t = term_number t @ fst (snd t)"

definition term_ok :: "go_term \<Rightarrow> bool" where
  "term_ok t \<longleftrightarrow> (case t of ((ds, fs), uk) \<Rightarrow>
     all_digits 10 ds \<and> (case fs of None \<Rightarrow> True | Some f \<Rightarrow> all_digits 10 f) \<and> uk \<in> set GO_UNITS)"

definition add_term :: "js_double \<Rightarrow> go_term \<Rightarrow> js_double" where
  "add_term x t = dbl_add x (dbl_times (plain_number (term_number t)) (unit_scale (snd (snd t))))"

lemma digit_not_unit:
  "dec_unit c \<Longrightarrow> c \<noteq> cu CHR ''s''" "\<not> dec_unit (cu CHR ''.'')"
  by (auto simp: is_digit_def digit_val_def cu_def Let_def)

lemma match_unit_found: "match_unit s = Some (u, k) \<Longrightarrow> (u, k) \<in> set GO_UNITS \<and> (\<exists>r. s = u @ r)"
proof -
  assume "match_unit s = Some (u, k)"
  moreover have "find P xs = Some x \<Longrightarrow> x \<in> set xs \<and> P x" for P and xs :: "(jstr \<times> go_unit) list" and x
    by (induction xs) (auto split: if_splits)
  ultimately have "(u, k) \<in> set GO_UNITS" "starts_with u s" unfolding match_unit_def by fastforce+
  then show ?thesis by (metis append_take_drop_id starts_with_def)
qed

lemma match_unit_complete:
  assumes "(u, k) \<in> set GO_UNITS" "r \<noteq> [] \<Longrightarrow> dec_unit (hd r)"
  shows "match_unit (u @ r) = Some (u, k)"
proof -
  have "r \<noteq> [] \<Longrightarrow> hd r \<noteq> cu CHR ''s''" using assms(2) digit_not_unit(1) by blast
  then have s: "take (Suc 0) r \<noteq> [cu CHR ''s'']" by (cases r) auto
  show ?thesis
    using assms(1) s by (auto simp: GO_UNITS_def match_unit_def starts_with_def cu_def)
qed

lemma unit_head:
  assumes "(u, k) \<in> set GO_UNITS"
  shows "u \<noteq> []" "\<not> dec_unit (hd u)" "hd u \<noteq> cu CHR ''.''"
  using assms by (auto simp: GO_UNITS_def is_digit_def digit_val_def cu_def Let_def)

lemma takeWhile_digits_append:
  "list_all dec_unit ds \<Longrightarrow> r \<noteq> [] \<Longrightarrow> \<not> dec_unit (hd r) \<Longrightarrow> takeWhile dec_unit (ds @ r) = ds \<and> dropWhile dec_unit (ds @ r) = r"
  by (induction ds) (auto simp: takeWhile_eq_Nil_iff dropWhile_id_hd)

lemma match_duration_complete:
  assumes "term_ok t" "r \<noteq> [] \<Longrightarrow> dec_unit (hd r)"
  shows "match_duration (term_text t @ r) = Some (term_number t, snd t)"
proof -
  obtain ds fs u k where t: "t = ((ds, fs), (u, k))" by (metis prod.exhaust)
  have ok: "ds \<noteq> []" "list_all dec_unit ds" "(u, k) \<in> set GO_UNITS"
    using assms(1) by (auto simp: t term_ok_def all_digits_def)
  note u = unit_head [OF ok(3)] and m = match_unit_complete [OF ok(3) assms(2)]
  show ?thesis
  proof (cases fs)
    case None
    have "u @ r \<noteq> []" "\<not> dec_unit (hd (u @ r))" "hd (u @ r) \<noteq> cu CHR ''.''" using u by auto
    then show ?thesis
      using takeWhile_digits_append [OF ok(2), of "u @ r"] ok(1) m
      by (simp add: t None term_text_def term_number_def match_duration_def Let_def)
  next
    case (Some f)
    have f: "f \<noteq> []" "list_all dec_unit f" using assms(1) by (auto simp: t Some term_ok_def all_digits_def)
    have "takeWhile dec_unit (f @ u @ r) = f \<and> dropWhile dec_unit (f @ u @ r) = u @ r"
      by (rule takeWhile_digits_append) (use f u in auto)
    moreover have "takeWhile dec_unit (ds @ cu CHR ''.'' # f @ u @ r) = ds \<and> dropWhile dec_unit (ds @ cu CHR ''.'' # f @ u @ r) = cu CHR ''.'' # f @ u @ r"
      by (rule takeWhile_digits_append) (use ok digit_not_unit in auto)
    ultimately show ?thesis
      using ok(1) f(1) m by (simp add: t Some term_text_def term_number_def match_duration_def Let_def)
  qed
qed

lemma match_duration_sound:
  assumes "match_duration s = Some (n, uk)"
  shows "\<exists>t r. term_ok t \<and> n = term_number t \<and> uk = snd t \<and> s = term_text t @ r"
proof -
  let ?ds = "takeWhile dec_unit s" and ?r = "dropWhile dec_unit s"
  let ?fs = "takeWhile dec_unit (tl ?r)" and ?r2 = "dropWhile dec_unit (tl ?r)"
  have ds: "?ds \<noteq> []" "list_all dec_unit ?ds" "list_all dec_unit ?fs"
    using assms by (auto simp: match_duration_def Let_def list_all_iff dest: set_takeWhileD)
  have s: "s = ?ds @ ?r" by simp
  show ?thesis
  proof (cases "?r \<noteq> [] \<and> hd ?r = cu CHR ''.'' \<and> ?fs \<noteq> [] \<and> match_unit ?r2 = Some uk \<and> n = ?ds @ cu CHR ''.'' # ?fs")
    case True
    obtain u k where uk: "uk = (u, k)" by (cases uk)
    then obtain r where r: "(u, k) \<in> set GO_UNITS" "?r2 = u @ r" using True match_unit_found by blast
    have "?r = cu CHR ''.'' # ?fs @ ?r2" using True by (cases ?r) auto
    then have "s = ?ds @ cu CHR ''.'' # ?fs @ u @ r" using s r(2) by metis
    then show ?thesis
      using True ds r(1)
      by (intro exI [of _ "((?ds, Some ?fs), (u, k))"] exI [of _ r]) (simp add: term_ok_def term_number_def term_text_def all_digits_def uk)
  next
    case False
    then have m: "match_unit ?r = Some uk" "n = ?ds"
      using assms by (auto simp: match_duration_def Let_def split: if_splits option.splits)
    obtain u k where uk: "uk = (u, k)" by (cases uk)
    then obtain r where r: "(u, k) \<in> set GO_UNITS" "?r = u @ r" using m match_unit_found by blast
    then have "s = ?ds @ u @ r" using s by metis
    then show ?thesis
      using m ds r(1)
      by (intro exI [of _ "((?ds, None), (u, k))"] exI [of _ r]) (simp add: term_ok_def term_number_def term_text_def all_digits_def uk)
  qed
qed

lemma exec_duration_here: "match_duration s = Some m \<Longrightarrow> exec_duration i s = Some (i, m)"
  by (subst exec_duration.simps) simp

lemma exec_duration_later: "match_duration s = None \<Longrightarrow> exec_duration i s = Some (j, m) \<Longrightarrow> i < j"
proof (induction i s rule: exec_duration.induct)
  case (1 i s)
  from 1(3) 1(2) obtain c cs where s: "s = c # cs" "exec_duration (i + 1) cs = Some (j, m)"
    by (subst (asm) exec_duration.simps) (auto split: list.splits)
  show ?case
  proof (cases "match_duration cs")
    case None
    then show ?thesis using "1.IH" [OF 1(2) s(1) None s(2)] by simp
  next
    case (Some m')
    then show ?thesis using s(2) exec_duration_here [OF Some, of "i + 1"] by simp
  qed
qed

lemma loop_step:
  assumes "match_duration (drop e v) = Some (n, u, k)"
  shows "duration_loop v e t = duration_loop v (e + length n + length u) (dbl_add t (dbl_times (plain_number n) (unit_scale k)))"
proof -
  have "e < length v"
  proof (rule ccontr)
    assume "\<not> e < length v"
    then show False using assms by (simp add: match_duration_def)
  qed
  then show ?thesis using exec_duration_here [OF assms, of e] by (subst duration_loop.simps) simp
qed

lemma loop_end:
  assumes "match_duration (drop e v) = None"
  shows "duration_loop v e t = (if e = length v \<and> 0 < e then Some t else None)"
proof (cases "exec_duration e (drop e v)")
  case None
  then show ?thesis by (subst duration_loop.simps) simp
next
  case (Some x)
  obtain i m where x: "x = (i, m)" by (cases x)
  have "e < i" using exec_duration_later [OF assms] Some x by blast
  moreover have "e \<noteq> length v"
  proof
    assume e: "e = length v"
    then have "exec_duration e (drop e v) = None" by (subst exec_duration.simps) (simp add: match_duration_def)
    then show False using Some by simp
  qed
  ultimately show ?thesis using Some x by (cases m) (simp add: duration_loop.simps [of v e t])
qed

lemma loop_sound:
  "duration_loop v e t = Some x \<Longrightarrow>
   \<exists>ts. (\<forall>t \<in> set ts. term_ok t) \<and> drop e v = concat (map term_text ts) \<and> x = foldl add_term t ts \<and> (ts = [] \<longrightarrow> e = length v \<and> 0 < e)"
proof (induction "length v - e" arbitrary: e t rule: less_induct)
  case less
  show ?case
  proof (cases "match_duration (drop e v)")
    case None
    then show ?thesis using less.prems loop_end [OF None, of t] by (intro exI [of _ "[]"]) (simp split: if_splits)
  next
    case (Some m)
    obtain n u k where m: "m = (n, u, k)" by (metis prod.exhaust)
    obtain tm r where tm: "term_ok tm" "n = term_number tm" "(u, k) = snd tm" "drop e v = term_text tm @ r"
      using match_duration_sound [of "drop e v" n "(u, k)"] Some m by auto
    then have u: "u = fst (snd tm)" "k = snd (snd tm)" by (simp_all flip: tm(3))
    let ?e = "e + length n + length u"
    have len: "?e - e = length (term_text tm)" by (simp add: term_text_def tm(2) u)
    have "drop ?e v = drop (?e - e) (drop e v)" by (simp add: add.commute add.left_commute)
    also have "\<dots> = r" unfolding len tm(4) by simp
    finally have r: "drop ?e v = r" .
    have "n \<noteq> []" using match_duration_nonempty Some m by blast
    moreover have "e < length v"
    proof (rule ccontr)
      assume "\<not> e < length v"
      then show False using Some by (simp add: match_duration_def)
    qed
    ultimately have "length v - ?e < length v - e" by (simp add: diff_less_mono2 length_greater_0_conv [symmetric] del: length_greater_0_conv)
    moreover have "duration_loop v ?e (add_term t tm) = Some x"
      using less.prems loop_step [of e v n u k t] Some m by (simp add: add_term_def tm(2) u)
    ultimately obtain ts where "\<forall>t \<in> set ts. term_ok t" "drop ?e v = concat (map term_text ts)" "x = foldl add_term (add_term t tm) ts"
      using less.hyps by blast
    then show ?thesis using tm r by (intro exI [of _ "tm # ts"]) simp
  qed
qed

lemma term_starts_with_digit: "term_ok t \<Longrightarrow> term_text t \<noteq> [] \<and> dec_unit (hd (term_text t))"
  by (cases t) (auto simp: term_ok_def term_text_def term_number_def all_digits_def list_all_iff)

lemma loop_complete:
  "(\<forall>t \<in> set ts. term_ok t) \<Longrightarrow> drop e v = concat (map term_text ts) \<Longrightarrow> e \<le> length v \<Longrightarrow> ts \<noteq> [] \<or> 0 < e \<Longrightarrow>
   duration_loop v e t = Some (foldl add_term t ts)"
proof (induction ts arbitrary: e t)
  case Nil
  then have "match_duration (drop e v) = None" by (simp add: match_duration_def)
  then show ?case using Nil loop_end by simp
next
  case (Cons tm ts)
  let ?r = "concat (map term_text ts)"
  have "?r \<noteq> [] \<Longrightarrow> dec_unit (hd ?r)"
    using Cons.prems(1) term_starts_with_digit by (cases ts) auto
  then have m: "match_duration (drop e v) = Some (term_number tm, snd tm)"
    using match_duration_complete [of tm ?r] Cons.prems by simp
  obtain n u k where tm: "term_number tm = n" "snd tm = (u, k)" by (metis prod.exhaust)
  let ?e = "e + length n + length u"
  have len: "?e - e = length (term_text tm)" by (simp add: term_text_def tm)
  have "drop ?e v = drop (?e - e) (drop e v)" by (simp add: add.commute add.left_commute)
  then have r: "drop ?e v = ?r" unfolding len using Cons.prems(2) by simp
  have "length (drop e v) = length (term_text tm) + length ?r" unfolding Cons.prems(2) by simp
  then have "?e \<le> length v" using Cons.prems(3) by (simp add: term_text_def tm)
  moreover have "0 < ?e" using Cons.prems(1) by (cases tm) (auto simp: term_ok_def all_digits_def term_number_def simp flip: tm(1))
  ultimately have "duration_loop v ?e (add_term t tm) = Some (foldl add_term (add_term t tm) ts)"
    using Cons.IH [of ?e] Cons.prems(1) r by simp
  moreover have "add_term t tm = dbl_add t (dbl_times (plain_number n) (unit_scale k))" by (simp add: add_term_def tm)
  ultimately show ?case using loop_step [of e v n u k t] m by (simp add: tm)
qed

lemma duration_language_lemma:
  "parseGoDuration v = Some x \<longleftrightarrow>
     (\<exists>ts. (\<forall>t \<in> set ts. term_ok t) \<and> trim v = concat (map term_text ts) \<and> x = foldl add_term (Finite 0) ts)"
proof (cases "trim v = []")
  case True
  have "ts = []" if "\<forall>t \<in> set ts. term_ok t" "concat (map term_text ts) = []" for ts
    using that term_starts_with_digit by (cases ts) auto
  then have "(\<exists>ts. (\<forall>t \<in> set ts. term_ok t) \<and> trim v = concat (map term_text ts) \<and> x = foldl add_term (Finite 0) ts) \<longleftrightarrow> x = Finite 0"
    unfolding True by (metis concat.simps(1) empty_iff foldl_Nil list.map_disc_iff list.set(1))
  then show ?thesis using True by (auto simp: parseGoDuration_def Let_def)
next
  case False
  then have loop: "parseGoDuration v = duration_loop (trim v) 0 (Finite 0)" by (simp add: parseGoDuration_def Let_def)
  show ?thesis
  proof
    assume "parseGoDuration v = Some x"
    then show "\<exists>ts. (\<forall>t \<in> set ts. term_ok t) \<and> trim v = concat (map term_text ts) \<and> x = foldl add_term (Finite 0) ts"
      using loop_sound [of "trim v" 0 "Finite 0" x] unfolding loop by auto
  next
    assume "\<exists>ts. (\<forall>t \<in> set ts. term_ok t) \<and> trim v = concat (map term_text ts) \<and> x = foldl add_term (Finite 0) ts"
    then obtain ts where "\<forall>t \<in> set ts. term_ok t" "trim v = concat (map term_text ts)" "x = foldl add_term (Finite 0) ts" by blast
    then show "parseGoDuration v = Some x"
      using loop_complete [of ts 0 "trim v" "Finite 0"] False unfolding loop by (cases "ts = []") simp_all
  qed
qed

















text \<open>No duration is negative: the tests for it never hold.\<close>

lemma duration_nonneg: "parseGoDuration v = Some x \<Longrightarrow> dbl_nonneg x"
proof -
  have "dbl_nonneg (foldl add_term y ts)" if "dbl_nonneg y" for y ts
    using that
  proof (induction ts arbitrary: y)
    case (Cons tm ts)
    have "0 \<le> unit_scale k" for k by (cases k) (simp_all add: unit_scale_def fl_nonneg)
    moreover have "dbl_nonneg (plain_number w)" for w by (simp add: plain_number_def Let_def dbl_nonneg_ops)
    ultimately have "dbl_nonneg (add_term y tm)" using Cons.prems by (simp add: add_term_def dbl_nonneg_ops)
    then show ?case using Cons.IH by simp
  qed simp
  then show "parseGoDuration v = Some x \<Longrightarrow> dbl_nonneg x" using duration_language_lemma by auto
qed

text \<open>The zero without a unit, a sign and a point at either end of the digits, which Go accepts, are refused.\<close>

lemma no_term_refused:
  assumes "v \<noteq> []" "\<not> is_ws (hd v)" "\<not> is_ws (last v)" "match_duration v = None"
  shows "parseGoDuration v = None"
proof -
  have "trim v = v" using assms(2,3) by (intro trim_id)
  then show ?thesis using loop_end [of 0 v "Finite 0"] assms(1,4) by (simp add: parseGoDuration_def Let_def)
qed

lemmas match_defs = match_duration_def match_unit_def GO_UNITS_def starts_with_def is_digit_def digit_val_def cu_def Let_def

lemma go_durations_refused:
  "parseGoDuration (js ''0'') = None" "parseGoDuration (js ''+5s'') = None"
  "parseGoDuration (js ''.5s'') = None" "parseGoDuration (js ''5.s'') = None"
  by (rule no_term_refused; simp add: match_defs is_ws_def)+

section \<open>Untouched settings\<close>

lemma dec_str_digits: "c \<in> set (dec_str n) \<Longrightarrow> \<exists>d < 10. c = digit_unit d"
  by (rule to_radix_digits) simp_all

lemma decimal_char: "d < 10 \<Longrightarrow> digit_unit d \<noteq> cu CHR ''.'' \<and> lower_unit (digit_unit d) \<notin> {cu CHR ''x'', cu CHR ''o'', cu CHR ''b''}"
  by (auto simp: lower_unit_def cu_def word_unat_eq_iff word_le_nat_alt unat_digit_unit)

lemma dec_str_plain:
  "trim (dec_str n) = dec_str n" "strip_sign (dec_str n) = (1, dec_str n)"
  "to_lower (take 2 (dec_str n)) \<notin> {js ''0x'', js ''0o'', js ''0b''}"
  "takeWhile dec_unit (dec_str n) = dec_str n" "dropWhile dec_unit (dec_str n) = []"
proof -
  have digit: "\<exists>d < 10. c = digit_unit d" if "c \<in> set (dec_str n)" for c
    using that by (rule dec_str_digits)
  then have hd: "\<exists>d < 10. hd (dec_str n) = digit_unit d" and last: "\<exists>d < 10. last (dec_str n) = digit_unit d" by simp_all
  show "trim (dec_str n) = dec_str n"
    using hd last by (intro trim_id) auto
  show "strip_sign (dec_str n) = (1, dec_str n)"
    using hd by (cases "dec_str n") (auto simp: strip_sign_def)
  have all: "\<forall>c \<in> set (dec_str n). dec_unit c" using digit by fastforce
  then show "takeWhile dec_unit (dec_str n) = dec_str n" "dropWhile dec_unit (dec_str n) = []"
    by (simp_all add: takeWhile_eq_all_conv dropWhile_eq_Nil_conv)
  show "to_lower (take 2 (dec_str n)) \<notin> {js ''0x'', js ''0o'', js ''0b''}"
  proof (cases "tl (dec_str n)")
    case Nil
    then have "length (to_lower (take 2 (dec_str n))) \<le> 1" by (cases "dec_str n") (auto simp: to_lower_def)
    then show ?thesis by auto
  next
    case (Cons c cs)
    then have "c \<in> set (dec_str n)" by (metis list.set_intros(1) list.set_sel(2) tl_Nil neq_Nil_conv)
    then have "lower_unit c \<notin> {cu CHR ''x'', cu CHR ''o'', cu CHR ''b''}" using digit decimal_char by blast
    moreover have "to_lower (take 2 (dec_str n)) = [lower_unit (hd (dec_str n)), lower_unit c]"
      using Cons by (cases "dec_str n") (auto simp: to_lower_def)
    ultimately show ?thesis by auto
  qed
qed

lemma js_number_dec_str: "n < 2 ^ 53 \<Longrightarrow> js_number (dec_str n) = Some (of_nat n)"
proof -
  assume n: "n < 2 ^ 53"
  have "js_decimal (dec_str n) = Some (of_nat n)"
    using fl_of_nat [OF n] by (simp add: js_decimal_def Let_def dec_str_plain js_exponent_def scaled_def digits_value_to_radix)
  moreover have "(of_nat n :: rat) < 2 ^ 1024"
  proof -
    have "(of_nat n :: rat) < of_nat (2 ^ 53)" using n by (simp only: of_nat_less_iff)
    also have "\<dots> \<le> 2 ^ 1024" by simp
    finally show ?thesis .
  qed
  ultimately show ?thesis using dec_str_plain(3) [of n] by (simp add: js_number_def Let_def dec_str_plain(1))
qed

text \<open>
  What settings mean to their reader, \<open>tunnel/p2p.go\<close>: an omitted switch has its default, an omitted
  or empty text and an omitted or zero number leave the default in force, durations are trimmed.
\<close>

definition meant_quic :: "quic_settings option \<Rightarrow> quic_settings" where
  "meant_quic q =
     (let text = (\<lambda>f. Some (trim (given (Option.bind q f) []))); num = (\<lambda>f. Some (given (Option.bind q f) 0)) in
      \<lparr>qs_mtu = num qs_mtu, qs_relay_batch_bytes = num qs_relay_batch_bytes, qs_relay_flush = text qs_relay_flush,
       qs_keep_alive = text qs_keep_alive, qs_idle = text qs_idle, qs_handshake_timeout = text qs_handshake_timeout\<rparr>)"

definition meant_smux :: "smux_settings option \<Rightarrow> smux_settings" where
  "meant_smux s =
     (let text = (\<lambda>f. Some (trim (given (Option.bind s f) []))) in \<lparr>sx_interval = text sx_interval, sx_timeout = text sx_timeout\<rparr>)"

definition p2p_meaning :: "p2p_settings option \<Rightarrow> p2p_settings" where
  "p2p_meaning s =
     \<lparr>p2_derp = (case s of None \<Rightarrow> [] | Some x \<Rightarrow> p2_derp x),
      p2_secure = Some (given (Option.bind s p2_secure) True), p2_ca_file = Some (given (Option.bind s p2_ca_file) []),
      p2_stun = Some (given (Option.bind s p2_stun) []), p2_direct = Some (given (Option.bind s p2_direct) True),
      p2_ipv6 = Some (given (Option.bind s p2_ipv6) False), p2_transport = Some (given (Option.bind s p2_transport) Kcp),
      p2_quic = Some (meant_quic (Option.bind s p2_quic)),
      p2_timeouts = Some (Some (meant_smux (Option.bind (Option.bind s p2_timeouts) (\<lambda>t. t)))),
      p2_faults = Option.bind s p2_faults\<rparr>"

definition numbers_exact :: "p2p_settings option \<Rightarrow> bool" where
  "numbers_exact s \<longleftrightarrow>
     list_all (\<lambda>n. given n 0 < 2 ^ 53)
       [Option.bind (Option.bind s p2_quic) qs_mtu, Option.bind (Option.bind s p2_quic) qs_relay_batch_bytes]"

lemma trimmed_meaning: "trim (given (trimmed (text_or_empty t)) []) = trim (given t [])"
  by (simp add: trimmed_def text_or_empty_def given_def split: option.split)

lemma number_meaning: "given n 0 < 2 ^ 53 \<Longrightarrow> given (number_of (number_text n)) 0 = given n 0"
  by (cases n) (auto simp: number_text_def number_of_def dec_str_plain js_number_dec_str given_def)

lemma blank_payload [simp]: "trimmed [] = None" "number_of [] = None" "text_or_empty None = []" "number_text None = []"
  by (simp_all add: trimmed_def number_of_def text_or_empty_def number_text_def given_def trim_def)

lemma quic_meaning:
  assumes "numbers_exact s"
  shows "meant_quic (quicPayload (apply_p2p s f)) = meant_quic (Option.bind s p2_quic)"
proof -
  let ?q = "Option.bind s p2_quic"
  define full where "full = \<lparr>qs_mtu = number_of (number_text (Option.bind ?q qs_mtu)),
     qs_relay_batch_bytes = number_of (number_text (Option.bind ?q qs_relay_batch_bytes)),
     qs_relay_flush = trimmed (text_or_empty (Option.bind ?q qs_relay_flush)),
     qs_keep_alive = trimmed (text_or_empty (Option.bind ?q qs_keep_alive)),
     qs_idle = trimmed (text_or_empty (Option.bind ?q qs_idle)),
     qs_handshake_timeout = trimmed (text_or_empty (Option.bind ?q qs_handshake_timeout))\<rparr>"
  let ?none = "\<lparr>qs_mtu = None, qs_relay_batch_bytes = None, qs_relay_flush = None, qs_keep_alive = None, qs_idle = None,
     qs_handshake_timeout = None\<rparr>"
  have p: "quicPayload (apply_p2p s f) = (if full = ?none then None else Some full)"
    by (simp add: quicPayload_def apply_p2p_def applyP2PAdvanced_def Let_def full_def)
  have "meant_quic None = meant_quic (Some ?none)" by (simp add: meant_quic_def given_def)
  then have "meant_quic (quicPayload (apply_p2p s f)) = meant_quic (Some full)" by (simp add: p)
  also have "\<dots> = meant_quic ?q"
    using assms by (simp add: meant_quic_def full_def Let_def trimmed_meaning number_meaning numbers_exact_def)
  finally show ?thesis .
qed

lemma smux_meaning: "meant_smux (smuxPayload (apply_p2p s f)) = meant_smux (Option.bind (Option.bind s p2_timeouts) (\<lambda>t. t))"
proof -
  let ?t = "Option.bind (Option.bind s p2_timeouts) (\<lambda>t. t)"
  define full where "full = \<lparr>sx_interval = trimmed (text_or_empty (Option.bind ?t sx_interval)),
     sx_timeout = trimmed (text_or_empty (Option.bind ?t sx_timeout))\<rparr>"
  let ?none = "\<lparr>sx_interval = None, sx_timeout = None\<rparr>"
  have p: "smuxPayload (apply_p2p s f) = (if full = ?none then None else Some full)"
    by (simp add: smuxPayload_def apply_p2p_def applyP2PAdvanced_def Let_def full_def)
  have "meant_smux None = meant_smux (Some ?none)" by (simp add: meant_smux_def given_def)
  then have "meant_smux (smuxPayload (apply_p2p s f)) = meant_smux (Some full)" by (simp add: p)
  also have "\<dots> = meant_smux ?t" by (simp add: meant_smux_def full_def Let_def trimmed_meaning)
  finally show ?thesis .
qed

lemma payload_meaning:
  assumes "numbers_exact s"
  shows "p2p_meaning (Some (p2p_payload (apply_p2p s f))) = (p2p_meaning s)\<lparr>p2_faults := None\<rparr>"
proof -
  let ?f = "apply_p2p s f"
  have t: "Option.bind (Option.bind (Some (p2p_payload ?f)) p2_timeouts) (\<lambda>t. t) = smuxPayload ?f"
    by (simp add: p2p_payload_def split: option.split)
  have q: "Option.bind (Some (p2p_payload ?f)) p2_quic = quicPayload ?f" by (simp add: p2p_payload_def)
  have mode: "given (Option.bind s p2_transport) Kcp = (if Option.bind s p2_transport = Some Quic then Quic else Kcp)"
    by (cases "Option.bind s p2_transport"; simp add: given_def) (metis p2p_mode.exhaust)
  show ?thesis
    unfolding p2p_meaning_def t q quic_meaning [OF assms] smux_meaning mode
    by (simp add: p2p_payload_def apply_p2p_def applyP2PAdvanced_def Let_def text_or_empty_def given_def)
qed

text \<open>
  C19. A save of settings nobody touched keeps what they mean: whatever the backend had sent, options
  left out included, either the check of the advanced values stops the save and nothing is sent, or
  one update is sent after which the store holds what it held, only that the options left out are
  now given with their defaults, that blank texts are gone, and that \<open>faults\<close>, which the page does
  not know, is lost. Numbers are below \<open>2^53\<close>.
\<close>

theorem untouched_save:
  assumes "numbers_exact (as_p2p st)"
  shows "case advancedError (apply_p2p (as_p2p st) (sg_p2p p)) of
      Some e \<Rightarrow> sg_updates (saveSettings (apply_settings st p)) = sg_updates p
    | None \<Rightarrow> (\<exists>u s. sg_updates (saveSettings (apply_settings st p)) = sg_updates p @ [(u, AfterSave)]
                 \<and> fst (updateSettings prefers_dark u (st, l)) = st\<lparr>as_p2p := Some s\<rparr>
                 \<and> p2p_meaning (Some s) = (p2p_meaning (as_p2p st))\<lparr>p2_faults := None\<rparr>)"
proof (cases "advancedError (apply_p2p (as_p2p st) (sg_p2p p))")
  case (Some e)
  then show ?thesis by (simp add: saveSettings_def apply_settings_def show_snackbar_def)
next
  case None
  then show ?thesis
    using payload_meaning [OF assms, of "sg_p2p p"]
    by (simp add: saveSettings_def apply_settings_def send_update_def no_update_def updateSettings_def Let_def given_def)
      blast
qed

text \<open>Settings with most options left out, a text of blanks and injected faults.\<close>

definition sample_p2p :: p2p_settings where
  "sample_p2p = \<lparr>p2_derp = js ''wss://relay'', p2_secure = None, p2_ca_file = None, p2_stun = Some [], p2_direct = Some False,
     p2_ipv6 = None, p2_transport = Some Quic,
     p2_quic = Some \<lparr>qs_mtu = Some 1280, qs_relay_batch_bytes = None, qs_relay_flush = None, qs_keep_alive = Some (js '' ''), qs_idle = None,
                     qs_handshake_timeout = None\<rparr>, p2_timeouts = None, p2_faults = Some (js ''{}'')\<rparr>"

lemma sample_checked: "advancedError (apply_p2p (Some sample_p2p) f) = None"
proof -
  have d: "durField [] = None" "intField [] = None" "durField (js '' '') = None"
    by (simp_all add: durField_def intField_def trim_def is_ws_def cu_def)
  have n: "js_number (dec_str 1280) = Some 1280" using js_number_dec_str [of 1280] by simp
  have i: "intField (dec_str 1280) = Some (Some 1280)"
    by (simp add: intField_def dec_str_plain(1) n is_integer_def)
  have "fl 6 = 6" using fl_of_nat [of 6] by simp
  then show ?thesis
    using d(3)
    by (simp add: advancedError_def sample_p2p_def apply_p2p_def applyP2PAdvanced_def Let_def number_text_def text_or_empty_def given_def d i
        out_of_def bad_duration_def or_default_def dbl_def)
qed

lemma untouched_save_witness:
  "let st = DEFAULT_SETTINGS\<lparr>as_p2p := Some sample_p2p\<rparr> in
   \<exists>u s. sg_updates (saveSettings (apply_settings st initial_page)) = [(u, AfterSave)]
     \<and> fst (updateSettings True u (st, \<lparr>wl_theme = None, wl_lang = None, wl_dark = False, wl_locale = js ''en''\<rparr>)) = st\<lparr>as_p2p := Some s\<rparr>
     \<and> p2p_meaning (Some s) = (p2p_meaning (Some sample_p2p))\<lparr>p2_faults := None\<rparr>"
proof -
  have "numbers_exact (Some sample_p2p)" by (simp add: numbers_exact_def sample_p2p_def given_def)
  moreover have "sg_updates initial_page = []" by (simp add: initial_page_def)
  ultimately show ?thesis
    using untouched_save [of "DEFAULT_SETTINGS\<lparr>as_p2p := Some sample_p2p\<rparr>" initial_page True
        "\<lparr>wl_theme = None, wl_lang = None, wl_dark = False, wl_locale = js ''en''\<rparr>"] sample_checked
    by (simp add: Let_def del: js_simps)
qed

text \<open>What the config file says about faults does not survive a save.\<close>

lemma save_drops_faults: "p2_faults (p2p_payload f) = None"
  by (simp add: p2p_payload_def)

section \<open>The rotation of the key\<close>

text \<open>The answers to the re-reads after a failed request, with the waits between them.\<close>

definition rereads :: "identity option list \<Rightarrow> settings_page \<Rightarrow> settings_page" where
  "rereads rs p = fold (\<lambda>r p. reset_reread r (reset_wait_over p)) rs p"

text \<open>The key shown after some answers.\<close>

definition key_after :: "identity option list \<Rightarrow> jstr \<Rightarrow> jstr" where
  "key_after rs key = fold (\<lambda>r k. case r of None \<Rightarrow> k | Some x \<Rightarrow> idn_public_key x) rs key"

lemmas reset_defs = reset_reread_def reset_wait_over_def identity_answer_def set_identity_def reconcileP2PIdentity_def fetchP2PIdentity_def
  show_snackbar_def Let_def

lemma reread_idle: "sg_reset p = ResetIdle \<Longrightarrow> reset_reread r (reset_wait_over p) = p"
  by (simp add: reset_reread_def reset_wait_over_def)

lemma rereads_idle: "sg_reset p = ResetIdle \<Longrightarrow> rereads rs p = p"
  by (induction rs) (simp_all add: rereads_def reread_idle)

text \<open>The outcome of one re-read, of \<open>k\<close> before it.\<close>

lemma reread_outcome:
  fixes r :: "identity option"
  assumes "sg_reset p = ResetReading b k \<or> sg_reset p = ResetWaiting b k"
  defines "q \<equiv> reset_reread r (reset_wait_over p)" and "key \<equiv> key_after [r] (sg_publicKey p)"
  shows "sg_resetRequests q = sg_resetRequests p" "sg_publicKey q = key"
    and "b \<noteq> [] \<and> key \<notin> {[], b} \<Longrightarrow> sg_reset q = ResetIdle \<and> sg_snackbar q = js ''p2pKeyResetDone'' \<and> \<not> sg_resetDialog q"
    and "\<not> (b \<noteq> [] \<and> key \<notin> {[], b}) \<Longrightarrow> sg_resetDialog q = sg_resetDialog p
           \<and> (if k < 2 then sg_reset q = ResetWaiting b (k + 1) else sg_reset q = ResetIdle \<and> sg_snackbar q = js ''p2pKeyResetFailed'')"
  using assms by (auto simp: reset_defs key_after_def split: option.splits)

lemma key_after_take_Suc: "key_after (take (Suc i) (r # rs)) key = key_after (take i rs) (key_after [r] key)"
  by (simp add: key_after_def)

lemma some_key_Cons:
  "(\<exists>i \<in> {1..Suc n}. P (key_after (take i (r # rs)) key)) \<longleftrightarrow>
     P (key_after [r] key) \<or> (\<exists>i \<in> {1..n}. P (key_after (take i rs) (key_after [r] key)))"
proof
  assume "\<exists>i \<in> {1..Suc n}. P (key_after (take i (r # rs)) key)"
  then obtain i where i: "1 \<le> i" "i \<le> Suc n" "P (key_after (take i (r # rs)) key)" by auto
  then obtain j where "i = Suc j" by (cases i) auto
  then show "P (key_after [r] key) \<or> (\<exists>i \<in> {1..n}. P (key_after (take i rs) (key_after [r] key)))"
    using i unfolding key_after_take_Suc by (cases j) (auto simp: key_after_def)
next
  assume "P (key_after [r] key) \<or> (\<exists>i \<in> {1..n}. P (key_after (take i rs) (key_after [r] key)))"
  then show "\<exists>i \<in> {1..Suc n}. P (key_after (take i (r # rs)) key)"
  proof
    assume "P (key_after [r] key)"
    then show ?thesis by (intro bexI [of _ 1]) (auto simp: key_after_def)
  next
    assume "\<exists>i \<in> {1..n}. P (key_after (take i rs) (key_after [r] key))"
    then obtain i where "i \<in> {1..n}" "P (key_after (take i rs) (key_after [r] key))" by blast
    then show ?thesis by (intro bexI [of _ "Suc i"]) (simp_all only: key_after_take_Suc, auto)
  qed
qed

lemma rotation_outcome:
  assumes "sg_reset p = ResetReading b k \<or> sg_reset p = ResetWaiting b k" "length rs = 3 - k" "k < 3"
  shows "sg_reset (rereads rs p) = ResetIdle \<and> sg_resetRequests (rereads rs p) = sg_resetRequests p
    \<and> (if b \<noteq> [] \<and> (\<exists>i \<in> {1..length rs}. key_after (take i rs) (sg_publicKey p) \<notin> {[], b})
        then sg_snackbar (rereads rs p) = js ''p2pKeyResetDone'' \<and> \<not> sg_resetDialog (rereads rs p)
        else sg_snackbar (rereads rs p) = js ''p2pKeyResetFailed'' \<and> sg_resetDialog (rereads rs p) = sg_resetDialog p)"
  using assms
proof (induction rs arbitrary: p k)
  case (Cons r rs)
  let ?q = "reset_reread r (reset_wait_over p)" and ?key = "key_after [r] (sg_publicKey p)"
  note out = reread_outcome [OF Cons.prems(1), of r]
  note some = some_key_Cons [of "length rs" "\<lambda>key. key \<notin> {[], b}" r rs "sg_publicKey p"]
  have run: "rereads (r # rs) p = rereads rs ?q" by (simp add: rereads_def)
  have len: "length (r # rs) = Suc (length rs)" by simp
  show ?case
  proof (cases "b \<noteq> [] \<and> ?key \<notin> {[], b}")
    case True
    then show ?thesis unfolding run len some using out(1) out(3) [OF True] by (simp add: rereads_idle)
  next
    case False
    show ?thesis
    proof (cases "k < 2")
      case True
      then have l: "length rs = 3 - (k + 1)" "k + 1 < 3" using Cons.prems(2) by auto
      have "sg_reset ?q = ResetReading b (k + 1) \<or> sg_reset ?q = ResetWaiting b (k + 1)" using out(4) [OF False] True by simp
      note ih = Cons.IH [OF this l, unfolded out(1,2)]
      have d: "sg_resetDialog ?q = sg_resetDialog p" using out(4) [OF False] by simp
      have c: "(b \<noteq> [] \<and> (?key \<notin> {[], b} \<or> R)) = (b \<noteq> [] \<and> R)" for R using False by blast
      show ?thesis unfolding run len some c using ih unfolding d .
    next
      case last: False
      then have "k = 2" using Cons.prems(3) by linarith
      then have rs: "rs = []" using Cons.prems(2) by simp
      show ?thesis unfolding run len some using out(1) out(4) [OF False] last False by (simp add: rereads_idle rs)
    qed
  qed
qed simp

text \<open>
  C21. A rotation of the key whose answer was lost ends after at most three re-reads, and no second
  rotation has been asked for. It is reported as done exactly when the old key was known and after
  one of the re-reads another key is shown; otherwise it is reported as failed, and so is a rotation
  that did happen when the old key had not been known.
\<close>

theorem rotation_not_misreported:
  fixes rs :: "identity option list"
  assumes "sg_reset p = ResetSent b" "length rs = 3"
  defines "q \<equiv> rereads rs (reset_answered None p)"
  shows "sg_reset q = ResetIdle \<and> sg_resetRequests q = sg_resetRequests p
    \<and> (if b \<noteq> [] \<and> (\<exists>i \<in> {1..3}. key_after (take i rs) (sg_publicKey p) \<notin> {[], b})
        then sg_snackbar q = js ''p2pKeyResetDone'' \<and> \<not> sg_resetDialog q
        else sg_snackbar q = js ''p2pKeyResetFailed'' \<and> sg_resetDialog q = sg_resetDialog p)"
proof -
  let ?p = "reset_answered None p"
  have "sg_reset ?p = ResetReading b 0" "sg_publicKey ?p = sg_publicKey p" "sg_resetRequests ?p = sg_resetRequests p"
    "sg_resetDialog ?p = sg_resetDialog p"
    using assms(1) by (simp_all add: reset_answered_def)
  then show ?thesis
    unfolding q_def using rotation_outcome [of ?p b 0 rs] assms(2) by simp
qed

lemma rotation_not_misreported_witness:
  "let rs = [None, Some \<lparr>idn_public_key = js ''new'', idn_running = True, idn_direct_peers = 0, idn_derp_peers = 0, idn_punch_attempts = 0,
                idn_punch_success = 0\<rparr>, None] in
   sg_snackbar (rereads rs (reset_answered None (resetP2PKey (initial_page\<lparr>sg_publicKey := js ''old''\<rparr>)))) = js ''p2pKeyResetDone''"
proof -
  let ?p = "resetP2PKey (initial_page\<lparr>sg_publicKey := js ''old''\<rparr>)"
  let ?id = "\<lparr>idn_public_key = js ''new'', idn_running = True, idn_direct_peers = 0, idn_derp_peers = 0, idn_punch_attempts = 0,
                idn_punch_success = 0\<rparr> :: identity"
  have r: "sg_reset ?p = ResetSent (js ''old'')" by (simp add: resetP2PKey_def)
  have "\<exists>i \<in> {1..3}. key_after (take i [None, Some ?id, None]) (sg_publicKey ?p) \<notin> {[], js ''old''}"
    by (rule bexI [of _ 2]) (simp_all add: key_after_def cu_def)
  then show ?thesis
    using rotation_not_misreported [OF r, of "[None, Some ?id, None]"] by (simp add: Let_def)
qed

text \<open>When the key was not known before, every lost answer counts as a failure.\<close>

lemma rotation_of_unknown_key:
  "sg_reset p = ResetReading [] 2 \<Longrightarrow> sg_snackbar (reset_reread r p) = js ''p2pKeyResetFailed''"
  by (simp add: reset_defs split: option.splits)

section \<open>Lost edits and late answers\<close>

text \<open>The store swallows a refused update, so the page reports it saved.\<close>

lemma refused_save_reported_saved:
  assumes "i < length (sg_updates p)" "snd (sg_updates p ! i) = AfterSave"
  shows "sg_snackbar (fst (update_answered d i False (p, st))) = CHECK_MARK @ js ''saved''"
  using assms by (cases "sg_updates p ! i") (simp add: update_answered_def Let_def after_update_def show_snackbar_def)

text \<open>Every notification of the store reloads the form: a change of the theme discards what was typed and not saved.\<close>

lemma theme_change_discards_edits:
  assumes "i = length (sg_updates p)"
  shows "sg_server (fst (update_answered d i accepted (setTheme th (settings_typed (TypedServer v) p), st))) = as_server (fst st)"
  using assms
  by (simp add: update_answered_def setTheme_def send_update_def show_snackbar_def Let_def after_update_def settings_notified_def
      fetchP2PIdentity_def apply_settings_def updateSettings_def no_update_def given_def nth_append split_beta)

text \<open>The result of a probe is shown for whatever address is in the field when it arrives.\<close>

lemma probe_of_old_address:
  "let p1 = p2p_tested (Inr r) (settings_typed (TypedDerp v) (testP2P p)) in
   pf_derp (sg_p2p p1) = v \<and> sg_p2pTest p1 = Some (r\<lparr>pt_mapped := None\<rparr>)"
  by (simp add: p2p_tested_def p2p_input_def testP2P_def Let_def)

text \<open>So is the liveness of an inspector that is no longer in the field, if its answer is the last.\<close>

lemma liveness_of_old_inspector:
  fixes v :: jstr
  assumes "sg_livenessChecks p = []" "sg_inspectorUrl p \<noteq> []" "v \<noteq> []"
  defines "p2 \<equiv> liveness_timeout (onInspectorUrlChange v (checkLiveness p))"
  shows "sg_livenessChecks p2 = [liveness_url (sg_inspectorUrl p), liveness_url v]"
    and "sg_inspectorConnected (liveness_answered 0 True (liveness_answered 1 False p2))"
  using assms by (simp_all add: checkLiveness_def liveness_timeout_def onInspectorUrlChange_def liveness_answered_def remove_nth_def)

end
