(* ===== verification/TunnelDetail.thy ===== *)
theory TunnelDetail
  imports PeersPage SettingsPage
begin

text \<open>
  The page of one tunnel, \<open>web-src/src/pages/tunnel-detail-page.ts\<close>: view, editor and creation, what
  the store's notifications do to each, the check of a prefix and the body of a save. A request and its
  answer are separate steps. Navigation is modelled as far as the page reads it back: whether the URL
  asks for the editor.
\<close>

datatype tunnel_type = TcpTunnel | UdpTunnel | HttpTunnel | FileTunnel | P2pTunnel | TunTunnel

record tunnel_options =
  to_prefix :: "jstr option"
  to_hostname :: "jstr option"
  to_username :: "jstr option"
  to_password :: "jstr option"
  to_basic_auth :: bool
  to_enableTLS :: bool
  to_rewriteHost :: bool
  to_file_upload :: bool
  to_keepalive :: bool
  to_ttl :: nat
  to_record_mode :: "jstr option"
  to_peers :: "peer list option"
  to_net :: "jstr option"
  to_mtu :: "int option"
  to_device_name :: "jstr option"
  to_routes :: "jstr option"
  to_dns :: "jstr option"
  to_share_lan :: "jstr option"
  to_share_mode :: "jstr option"
  to_lan_allow :: "jstr option"
  to_lan_routes :: "jstr list option"

record tunnel_item =
  ti_id :: jstr
  ti_name :: jstr
  ti_endpoint :: jstr
  ti_options :: tunnel_options

text \<open>The body of a creation or an update, with the fields this page never sets.\<close>

record tunnel_body =
  tb_name :: jstr
  tb_type :: tunnel_type
  tb_endpoint :: jstr
  tb_prefix :: "jstr option"
  tb_hostname :: "jstr option"
  tb_username :: "jstr option"
  tb_password :: "jstr option"
  tb_enableTLS :: bool
  tb_rewriteHost :: bool
  tb_file_upload :: bool
  tb_keepalive :: "bool option"
  tb_ttl :: "nat option"
  tb_record_mode :: jstr
  tb_peers :: "peer list option"
  tb_net :: "jstr option"
  tb_mtu :: "int option"
  tb_device_name :: "jstr option"
  tb_routes :: "jstr option"
  tb_dns :: "jstr option"
  tb_share_lan :: "jstr option"
  tb_share_mode :: "jstr option"
  tb_lan_allow :: "jstr option"
  tb_lan_routes :: "jstr list option"

record tunnel_form =
  tf_name :: jstr
  tf_endpoint :: jstr
  tf_hostname :: jstr
  tf_prefix :: jstr
  tf_username :: jstr
  tf_password :: jstr
  tf_enableTLS :: bool
  tf_rewriteHost :: bool
  tf_fileUpload :: bool
  tf_showAuth :: bool
  tf_recordMode :: jstr
  tf_net :: jstr
  tf_mtu :: int
  tf_deviceName :: jstr
  tf_shareLAN :: jstr
  tf_shareMode :: jstr

datatype page_mode = ViewMode | EditMode | CreateMode

datatype detail_request =
    CreateTunnel tunnel_body
  | UpdateTunnel jstr tunnel_body
  | DeleteTunnel jstr
  | StartTunnel jstr
  | StopTunnel jstr
  | ResetTunnelStats jstr jstr

text \<open>The save under way: whether it creates or updates, or has been answered and reads the list again.\<close>

datatype save_phase = SavingNew | SavingEdit | SaveRefreshing

record tunnel_page =
  td_type :: tunnel_type
  td_id :: jstr
  td_edit_url :: bool
  td_mode :: page_mode
  td_tunnel :: "tunnel_item option"
  td_form :: tunnel_form
  td_save :: "save_phase option"
  td_snackbar :: jstr
  td_deleteDialog :: bool
  td_resetDialog :: bool
  td_resetKind :: jstr
  td_pendingCount :: nat
  td_requests :: "detail_request list"

section \<open>The form\<close>

definition blank_tunnel_form :: tunnel_form where
  "blank_tunnel_form = \<lparr>tf_name = [], tf_endpoint = [], tf_hostname = [], tf_prefix = [], tf_username = [], tf_password = [],
     tf_enableTLS = False, tf_rewriteHost = False, tf_fileUpload = False, tf_showAuth = False, tf_recordMode = js ''off'', tf_net = [],
     tf_mtu = 0, tf_deviceName = [], tf_shareLAN = [], tf_shareMode = js ''auto''\<rparr>"

definition populate_tunnel_form :: "tunnel_item \<Rightarrow> tunnel_form" where
  "populate_tunnel_form t =
     (let q = ti_options t in
      \<lparr>tf_name = ti_name t, tf_endpoint = ti_endpoint t, tf_hostname = given (to_hostname q) [], tf_prefix = given (to_prefix q) [],
       tf_username = given (to_username q) [], tf_password = given (to_password q) [], tf_enableTLS = to_enableTLS q,
       tf_rewriteHost = to_rewriteHost q, tf_fileUpload = to_file_upload q,
       tf_showAuth = (given (to_username q) [] \<noteq> [] \<or> to_basic_auth q), tf_recordMode = or_else (given (to_record_mode q) []) (js ''off''),
       tf_net = given (to_net q) [], tf_mtu = given (to_mtu q) 0, tf_deviceName = given (to_device_name q) [],
       tf_shareLAN = given (to_share_lan q) [], tf_shareMode = or_else (given (to_share_mode q) []) (js ''auto'')\<rparr>)"

section \<open>Notifications\<close>

text \<open>\<open>_load\<close>: a form being edited or created is left alone, otherwise the page shows the tunnel of the list.\<close>

definition tunnel_load :: "tunnel_item list \<Rightarrow> tunnel_page \<Rightarrow> tunnel_page" where
  "tunnel_load ts p =
     (if td_id p = js ''new'' \<or> td_id p = []
      then (if td_mode p = CreateMode then p else p\<lparr>td_mode := CreateMode, td_tunnel := None, td_form := blank_tunnel_form\<rparr>)
      else if td_mode p = EditMode \<and> map_option ti_id (td_tunnel p) = Some (td_id p) then p
      else (case find (\<lambda>t. ti_id t = td_id p) ts of
              None \<Rightarrow> p
            | Some t \<Rightarrow>
                if td_edit_url p then p\<lparr>td_tunnel := Some t, td_mode := EditMode, td_form := populate_tunnel_form t\<rparr>
                else if td_mode p \<noteq> EditMode \<or> ti_id t \<noteq> td_id p
                then p\<lparr>td_tunnel := Some t, td_mode := ViewMode, td_form := populate_tunnel_form t\<rparr>
                else p\<lparr>td_tunnel := Some t\<rparr>))"

definition pending_counted :: "nat option \<Rightarrow> tunnel_page \<Rightarrow> tunnel_page" where
  "pending_counted n p = (case n of None \<Rightarrow> p | Some k \<Rightarrow> p\<lparr>td_pendingCount := k\<rparr>)"

definition open_tunnel_page :: "tunnel_type \<Rightarrow> jstr \<Rightarrow> bool \<Rightarrow> tunnel_item list \<Rightarrow> tunnel_page" where
  "open_tunnel_page ty i edit ts =
     tunnel_load ts \<lparr>td_type = ty, td_id = i, td_edit_url = edit, td_mode = ViewMode, td_tunnel = None, td_form = blank_tunnel_form,
       td_save = None, td_snackbar = [], td_deleteDialog = False, td_resetDialog = False, td_resetKind = [], td_pendingCount = 0,
       td_requests = []\<rparr>"

section \<open>What is shown of peers\<close>

definition dots :: "jstr \<Rightarrow> jstr" where
  "dots k = replicate (length k) 8226"

definition listed_peers :: "tunnel_page \<Rightarrow> peer list" where
  "listed_peers p = (case td_tunnel p of None \<Rightarrow> [] | Some t \<Rightarrow> given (to_peers (ti_options t)) [])"

definition peer_keys :: "tunnel_page \<Rightarrow> jstr" where
  "peer_keys p = join [10] (map pe_key (listed_peers p))"

definition peer_name :: "tunnel_page \<Rightarrow> jstr \<Rightarrow> jstr" where
  "peer_name p key =
     or_else (case find (\<lambda>q. pe_key q = key) (listed_peers p) of None \<Rightarrow> [] | Some q \<Rightarrow> given (pe_alias q) []) (dots key)"

definition lan_origin :: "tunnel_page \<Rightarrow> jstr \<Rightarrow> jstr" where
  "lan_origin p orig = (if orig = js ''static'' then js ''lanOriginHub'' else peer_name p orig)"

definition lan_allowed :: "tunnel_page \<Rightarrow> jstr list option \<Rightarrow> jstr" where
  "lan_allowed p allow =
     (case allow of None \<Rightarrow> js ''lanAllowAll'' | Some ks \<Rightarrow> if ks = [] then js ''lanAllowAll'' else join (js '', '') (map (peer_name p) ks))"

section \<open>Saving\<close>

definition is_p2p :: "tunnel_page \<Rightarrow> bool" where
  "is_p2p p \<longleftrightarrow> td_type p = P2pTunnel \<or> td_type p = TunTunnel"

definition label_unit :: "unit16 \<Rightarrow> bool" where
  "label_unit c \<longleftrightarrow> (cu CHR ''a'' \<le> c \<and> c \<le> cu CHR ''z'') \<or> (cu CHR ''0'' \<le> c \<and> c \<le> cu CHR ''9'')"

text \<open>The match of \<open>/^[a-z0-9]([a-z0-9-]*[a-z0-9])?$/\<close>: one character, or a first and a last with any between.\<close>

definition label_match :: "jstr \<Rightarrow> bool" where
  "label_match s \<longleftrightarrow>
     (case s of [] \<Rightarrow> False
      | c # r \<Rightarrow> label_unit c
          \<and> (r = [] \<or> (list_all (\<lambda>u. label_unit u \<or> u = cu CHR ''-'') (butlast r) \<and> label_unit (last r))))"

definition prefix_error :: "jstr \<Rightarrow> bool" where
  "prefix_error x \<longleftrightarrow> x \<noteq> [] \<and> (length x < 8 \<or> length x > 63 \<or> \<not> label_match x)"

definition lower_trim :: "jstr \<Rightarrow> jstr" where
  "lower_trim s = to_lower (trim s)"

definition some_text :: "jstr \<Rightarrow> jstr option" where
  "some_text s = (if s = [] then None else Some s)"

definition base_body :: "tunnel_page \<Rightarrow> tunnel_body" where
  "base_body p =
     (let f = td_form p in
      \<lparr>tb_name = trim (tf_name f), tb_type = td_type p, tb_endpoint = trim (tf_endpoint f), tb_prefix = some_text (lower_trim (tf_prefix f)),
       tb_hostname = some_text (trim (tf_hostname f)), tb_username = None, tb_password = None, tb_enableTLS = tf_enableTLS f,
       tb_rewriteHost = tf_rewriteHost f, tb_file_upload = tf_fileUpload f, tb_keepalive = None, tb_ttl = None,
       tb_record_mode = tf_recordMode f, tb_peers = None, tb_net = None, tb_mtu = None, tb_device_name = None, tb_routes = None,
       tb_dns = None, tb_share_lan = None, tb_share_mode = None, tb_lan_allow = None, tb_lan_routes = None\<rparr>)"

definition stored_options :: "tunnel_page \<Rightarrow> tunnel_options option" where
  "stored_options p = map_option ti_options (td_tunnel p)"

text \<open>What a hub's body holds besides.\<close>

definition hub_body :: "tunnel_page \<Rightarrow> tunnel_body \<Rightarrow> tunnel_body" where
  "hub_body p b =
     (let f = td_form p in
      b\<lparr>tb_endpoint := [], tb_net := some_text (trim (tf_net f)), tb_mtu := (if tf_mtu f = 0 then None else Some (tf_mtu f)),
        tb_device_name := some_text (trim (tf_deviceName f)), tb_share_lan := some_text (trim (tf_shareLAN f)),
        tb_share_mode := some_text (tf_shareMode f),
        tb_lan_allow := Option.bind (Option.bind (stored_options p) to_lan_allow) some_text,
        tb_lan_routes := Option.bind (stored_options p) to_lan_routes\<rparr>)"

definition tunnel_save_body :: "tunnel_page \<Rightarrow> tunnel_body" where
  "tunnel_save_body p =
     (let f = td_form p; b1 = base_body p;
          b2 = (if td_type p = TunTunnel then hub_body p b1 else b1);
          b3 = (if is_p2p p \<and> td_mode p = EditMode then b2\<lparr>tb_peers := Some (given (Option.bind (stored_options p) to_peers) [])\<rparr> else b2)
      in if tf_showAuth f
         then b3\<lparr>tb_username := some_text (trim (tf_username f)), tb_password := some_text (tf_password f)\<rparr> else b3)"

definition detail_snackbar :: "jstr \<Rightarrow> tunnel_page \<Rightarrow> tunnel_page" where
  "detail_snackbar msg p = p\<lparr>td_snackbar := msg\<rparr>"

definition handleSave :: "tunnel_page \<Rightarrow> tunnel_page" where
  "handleSave p =
     (if trim (tf_name (td_form p)) = [] then detail_snackbar (js ''requiredField'') p
      else if prefix_error (lower_trim (tf_prefix (td_form p))) then detail_snackbar (js ''invalidPrefix'') p
      else if td_mode p = CreateMode
      then p\<lparr>td_save := Some SavingNew, td_requests := td_requests p @ [CreateTunnel (tunnel_save_body p)]\<rparr>
      else p\<lparr>td_save := Some SavingEdit, td_requests := td_requests p @ [UpdateTunnel (td_id p) (tunnel_save_body p)]\<rparr>)"

text \<open>
  The answer: the store has changed its list and notified before the page goes on. After an update the
  page reads the list again, and is saving until that is answered.
\<close>

definition tunnel_saved :: "jstr + tunnel_item list \<Rightarrow> tunnel_page \<Rightarrow> tunnel_page" where
  "tunnel_saved r p =
     (case (td_save p, r) of
        (Some SavingNew, Inr ts) \<Rightarrow> (detail_snackbar (js ''saved'') (tunnel_load ts p))\<lparr>td_edit_url := False, td_save := None\<rparr>
      | (Some SavingEdit, Inr ts) \<Rightarrow>
          (detail_snackbar (js ''saved'') (tunnel_load ts p))\<lparr>td_mode := ViewMode, td_save := Some SaveRefreshing\<rparr>
      | (Some SavingNew, Inl msg) \<Rightarrow> (detail_snackbar (saveErrorText msg) p)\<lparr>td_save := None\<rparr>
      | (Some SavingEdit, Inl msg) \<Rightarrow> (detail_snackbar (saveErrorText msg) p)\<lparr>td_save := None\<rparr>
      | _ \<Rightarrow> p)"

definition save_refreshed :: "tunnel_item list \<Rightarrow> tunnel_page \<Rightarrow> tunnel_page" where
  "save_refreshed ts p = (if td_save p = Some SaveRefreshing then (tunnel_load ts p)\<lparr>td_save := None\<rparr> else p)"

section \<open>The other actions\<close>

definition enterEdit :: "tunnel_page \<Rightarrow> tunnel_page" where
  "enterEdit p = (case td_tunnel p of None \<Rightarrow> p | Some t \<Rightarrow> p\<lparr>td_form := populate_tunnel_form t, td_mode := EditMode\<rparr>)"

definition handleBack :: "tunnel_page \<Rightarrow> tunnel_page" where
  "handleBack p = (if td_mode p = EditMode \<and> td_id p \<noteq> [] then p\<lparr>td_mode := ViewMode, td_edit_url := False\<rparr> else p\<lparr>td_edit_url := False\<rparr>)"

definition handleDelete :: "tunnel_page \<Rightarrow> tunnel_page" where
  "handleDelete p = p\<lparr>td_deleteDialog := False, td_requests := td_requests p @ [DeleteTunnel (td_id p)]\<rparr>"

definition delete_answered :: "bool \<Rightarrow> tunnel_page \<Rightarrow> tunnel_page" where
  "delete_answered done p =
     (if done then (detail_snackbar (js ''deleted'') p)\<lparr>td_edit_url := False\<rparr> else detail_snackbar (js ''deleteFailed'') p)"

definition handleStart :: "tunnel_page \<Rightarrow> tunnel_page" where
  "handleStart p = p\<lparr>td_requests := td_requests p @ [StartTunnel (td_id p)]\<rparr>"

definition start_answered :: "bool \<Rightarrow> tunnel_page \<Rightarrow> tunnel_page" where
  "start_answered done p = detail_snackbar (if done then js ''started'' else js ''startFailed'') p"

definition handleStop :: "tunnel_page \<Rightarrow> tunnel_page" where
  "handleStop p = p\<lparr>td_requests := td_requests p @ [StopTunnel (td_id p)]\<rparr>"

definition stop_answered :: "bool \<Rightarrow> tunnel_page \<Rightarrow> tunnel_page" where
  "stop_answered done p = detail_snackbar (if done then js ''stopped'' else js ''stopFailed'') p"

definition handleResetStats :: "jstr \<Rightarrow> tunnel_page \<Rightarrow> tunnel_page" where
  "handleResetStats kind p = p\<lparr>td_resetKind := kind, td_resetDialog := True\<rparr>"

definition doResetStats :: "tunnel_page \<Rightarrow> tunnel_page" where
  "doResetStats p = p\<lparr>td_resetDialog := False, td_requests := td_requests p @ [ResetTunnelStats (td_id p) (td_resetKind p)]\<rparr>"

definition reset_stats_answered :: "bool \<Rightarrow> tunnel_page \<Rightarrow> tunnel_page" where
  "reset_stats_answered done p = detail_snackbar (if done then js ''saved'' else js ''saveFailed'') p"

definition dir_picked :: "jstr \<Rightarrow> tunnel_page \<Rightarrow> tunnel_page" where
  "dir_picked path p = p\<lparr>td_form := (td_form p)\<lparr>tf_endpoint := path\<rparr>\<rparr>"

definition toggle_auth :: "tunnel_form \<Rightarrow> tunnel_form" where
  "toggle_auth f = (if tf_showAuth f then f\<lparr>tf_showAuth := False, tf_username := [], tf_password := []\<rparr> else f\<lparr>tf_showAuth := True\<rparr>)"

definition typed_mtu :: "jstr \<Rightarrow> int" where
  "typed_mtu v = (case parse_int v 10 of None \<Rightarrow> 0 | Some n \<Rightarrow> n)"

text \<open>The controls of the form.\<close>

datatype tunnel_input =
    TunName jstr
  | TunEndpoint jstr
  | TunNet jstr
  | TunMtu jstr
  | TunDeviceName jstr
  | TunShareLAN jstr
  | TunShareMode
  | TunPrefix jstr
  | TunHostname jstr
  | TunTLS
  | TunRecordMode
  | TunAuth
  | TunUsername jstr
  | TunPassword jstr
  | TunUpload

definition RECORD_MODES :: "jstr list" where
  "RECORD_MODES = [js ''off'', js ''headers'', js ''full'']"

definition SHARE_MODES :: "jstr list" where
  "SHARE_MODES = [js ''auto'', js ''kernel'', js ''userspace'']"

definition recordOption :: "jstr \<Rightarrow> jstr" where
  "recordOption mode = given (find (\<lambda>m. m = mode) RECORD_MODES) (RECORD_MODES ! 2)"

definition shareModeLabel :: "jstr \<Rightarrow> jstr" where
  "shareModeLabel mode =
     (if mode = js ''kernel'' then js ''shareModeKernel'' else if mode = js ''userspace'' then js ''shareModeUserspace''
      else js ''shareModeAuto'')"

fun tunnel_typed :: "tunnel_input \<Rightarrow> tunnel_form \<Rightarrow> tunnel_form" where
  "tunnel_typed (TunName v) f = f\<lparr>tf_name := v\<rparr>"
| "tunnel_typed (TunEndpoint v) f = f\<lparr>tf_endpoint := v\<rparr>"
| "tunnel_typed (TunNet v) f = f\<lparr>tf_net := v\<rparr>"
| "tunnel_typed (TunMtu v) f = f\<lparr>tf_mtu := typed_mtu v\<rparr>"
| "tunnel_typed (TunDeviceName v) f = f\<lparr>tf_deviceName := v\<rparr>"
| "tunnel_typed (TunShareLAN v) f = f\<lparr>tf_shareLAN := v\<rparr>"
| "tunnel_typed TunShareMode f = f\<lparr>tf_shareMode := cycleOption (tf_shareMode f) SHARE_MODES\<rparr>"
| "tunnel_typed (TunPrefix v) f = f\<lparr>tf_prefix := v\<rparr>"
| "tunnel_typed (TunHostname v) f = f\<lparr>tf_hostname := v\<rparr>"
| "tunnel_typed TunTLS f = f\<lparr>tf_enableTLS := \<not> tf_enableTLS f\<rparr>"
| "tunnel_typed TunRecordMode f = f\<lparr>tf_recordMode := cycleOption (tf_recordMode f) RECORD_MODES\<rparr>"
| "tunnel_typed TunAuth f = toggle_auth f"
| "tunnel_typed (TunUsername v) f = f\<lparr>tf_username := v\<rparr>"
| "tunnel_typed (TunPassword v) f = f\<lparr>tf_password := v\<rparr>"
| "tunnel_typed TunUpload f = f\<lparr>tf_fileUpload := \<not> tf_fileUpload f\<rparr>"

text \<open>The newest line of the history, with the count of a repeated one.\<close>

record wisper_event =
  we_message :: jstr
  we_count :: nat

definition latest_event_line :: "wisper_event list \<Rightarrow> jstr" where
  "latest_event_line es =
     (case es of [] \<Rightarrow> js ''eventsEntryDesc''
      | e # _ \<Rightarrow> if we_count e > 1 then we_message e @ [32, 215] @ dec_str (we_count e) else we_message e)"

end
