(* ===== verification/EntrypointDetail.thy ===== *)
theory EntrypointDetail
  imports TunnelDetail
begin

text \<open>
  The page of one entrypoint, \<open>web-src/src/pages/entrypoint-detail-page.ts\<close>, and the device of the
  Android app it arms before a tun entrypoint is saved or started (\<open>utils/vpn.ts\<close>). Arming waits for
  the app; the page is not marked as saving meanwhile, so there may be several saves under way.
\<close>

datatype entry_type = TcpEntry | UdpEntry | P2pEntry | TunEntry

record entry_options =
  eo_keepalive :: "bool option"
  eo_ttl :: nat
  eo_peer :: "jstr option"
  eo_protocol :: "jstr option"
  eo_net :: "jstr option"
  eo_mtu :: "int option"
  eo_device_name :: "jstr option"
  eo_routes :: "jstr option"
  eo_dns :: "jstr option"
  eo_share_lan :: "jstr option"
  eo_share_mode :: "jstr option"
  eo_direct :: bool

record entry_item =
  ei_id :: jstr
  ei_name :: jstr
  ei_type :: entry_type
  ei_running :: bool
  ei_entrypoint :: jstr
  ei_options :: entry_options

record entry_body =
  eb_name :: jstr
  eb_type :: entry_type
  eb_endpoint :: jstr
  eb_id :: "jstr option"
  eb_peer :: "jstr option"
  eb_protocol :: "jstr option"
  eb_keepalive :: "bool option"
  eb_net :: "jstr option"
  eb_mtu :: "int option"
  eb_device_name :: "jstr option"
  eb_routes :: "jstr option"
  eb_dns :: "jstr option"
  eb_share_lan :: "jstr option"
  eb_share_mode :: "jstr option"
  eb_direct :: "bool option"

record entry_form =
  ef_name :: jstr
  ef_endpoint :: jstr
  ef_tunnelId :: jstr
  ef_peer :: jstr
  ef_protocol :: jstr
  ef_keepalive :: bool
  ef_net :: jstr
  ef_mtu :: int
  ef_deviceName :: jstr
  ef_routes :: jstr
  ef_dns :: jstr
  ef_shareLAN :: jstr
  ef_shareMode :: jstr
  ef_direct :: bool

datatype entry_request =
    CreateEntry entry_body
  | UpdateEntry jstr entry_body
  | DeleteEntry jstr
  | StartEntry jstr
  | StopEntry jstr
  | ResetEntryStats jstr jstr
  | ArmVpn jstr jstr int jstr

datatype arm_purpose = ArmSave | ArmStart

record entry_page =
  ed_type :: entry_type
  ed_id :: jstr
  ed_edit_url :: bool
  ed_mode :: page_mode
  ed_entry :: "entry_item option"
  ed_form :: entry_form
  ed_formId :: jstr
  ed_transportDetail :: bool
  ed_saving :: bool
  ed_saves :: "save_phase list"
  ed_arms :: "arm_purpose list"
  ed_snackbar :: jstr
  ed_deleteDialog :: bool
  ed_resetDialog :: bool
  ed_resetKind :: jstr
  ed_polling :: bool
  ed_requests :: "entry_request list"

section \<open>The form and the list\<close>

definition blank_entry_form :: entry_form where
  "blank_entry_form = \<lparr>ef_name = [], ef_endpoint = [], ef_tunnelId = [], ef_peer = [], ef_protocol = js ''tcp'', ef_keepalive = True,
     ef_net = [], ef_mtu = 0, ef_deviceName = [], ef_routes = [], ef_dns = [], ef_shareLAN = [], ef_shareMode = js ''auto'', ef_direct = False\<rparr>"

definition populate_entry_form :: "entry_item \<Rightarrow> entry_form" where
  "populate_entry_form e =
     (let q = ei_options e in
      \<lparr>ef_name = ei_name e, ef_endpoint = ei_entrypoint e, ef_tunnelId = ei_id e, ef_peer = given (eo_peer q) [],
       ef_protocol = (if eo_protocol q = Some (js ''udp'') then js ''udp'' else js ''tcp''), ef_keepalive = given (eo_keepalive q) True,
       ef_net = given (eo_net q) [], ef_mtu = given (eo_mtu q) 0, ef_deviceName = given (eo_device_name q) [],
       ef_routes = given (eo_routes q) [], ef_dns = given (eo_dns q) [], ef_shareLAN = given (eo_share_lan q) [],
       ef_shareMode = or_else (given (eo_share_mode q) []) (js ''auto''), ef_direct = eo_direct q\<rparr>)"

text \<open>\<open>_populateForm\<close> closes the transport detail when it is another entrypoint's.\<close>

definition populate_entry :: "entry_item \<Rightarrow> entry_page \<Rightarrow> entry_page" where
  "populate_entry e p =
     p\<lparr>ed_form := populate_entry_form e, ed_formId := ei_id e,
       ed_transportDetail := (if ed_formId p = ei_id e then ed_transportDetail p else False)\<rparr>"

definition entry_load :: "entry_item list \<Rightarrow> entry_page \<Rightarrow> entry_page" where
  "entry_load es p =
     (if ed_id p = js ''new'' \<or> ed_id p = []
      then (if ed_mode p = CreateMode then p
            else p\<lparr>ed_mode := CreateMode, ed_entry := None, ed_form := blank_entry_form, ed_formId := [], ed_transportDetail := False\<rparr>)
      else if ed_mode p = EditMode \<and> map_option ei_id (ed_entry p) = Some (ed_id p) then p
      else (case find (\<lambda>e. ei_id e = ed_id p) es of
              None \<Rightarrow> p
            | Some e \<Rightarrow>
                if ed_edit_url p then populate_entry e (p\<lparr>ed_entry := Some e, ed_mode := EditMode\<rparr>)
                else if ed_mode p \<noteq> EditMode \<or> ei_id e \<noteq> ed_id p then populate_entry e (p\<lparr>ed_entry := Some e, ed_mode := ViewMode\<rparr>)
                else p\<lparr>ed_entry := Some e\<rparr>))"

definition open_entry_page :: "entry_type \<Rightarrow> jstr \<Rightarrow> bool \<Rightarrow> entry_item list \<Rightarrow> entry_page" where
  "open_entry_page ty i edit es =
     entry_load es \<lparr>ed_type = ty, ed_id = i, ed_edit_url = edit, ed_mode = ViewMode, ed_entry = None, ed_form = blank_entry_form,
       ed_formId = [], ed_transportDetail = False, ed_saving = False, ed_saves = [], ed_arms = [], ed_snackbar = [], ed_deleteDialog = False,
       ed_resetDialog = False, ed_resetKind = [], ed_polling = True, ed_requests = []\<rparr>"

definition close_entry_page :: "entry_page \<Rightarrow> entry_page" where
  "close_entry_page p = p\<lparr>ed_polling := False\<rparr>"

section \<open>The history\<close>

definition mentions :: "jstr \<Rightarrow> wisper_event \<Rightarrow> bool" where
  "mentions t e \<longleftrightarrow> index_of t (we_message e) \<noteq> None"

text \<open>The newest verdict on the hub, of a history that is newest first.\<close>

fun hubNoReflow :: "wisper_event list \<Rightarrow> bool" where
  "hubNoReflow [] = False"
| "hubNoReflow (e # es) =
     (if mentions (js ''uplink without downlink'') e then True
      else if mentions (js ''downlink recovered'') e then False
      else hubNoReflow es)"

section \<open>Saving\<close>

definition tunDeviceHolder :: "jstr \<Rightarrow> entry_item list \<Rightarrow> entry_item option" where
  "tunDeviceHolder exceptId es = find (\<lambda>e. ei_type e = TunEntry \<and> ei_running e \<and> ei_id e \<noteq> exceptId) es"

definition entry_snackbar :: "jstr \<Rightarrow> entry_page \<Rightarrow> entry_page" where
  "entry_snackbar msg p = p\<lparr>ed_snackbar := msg\<rparr>"

definition entry_save_body :: "entry_page \<Rightarrow> entry_body" where
  "entry_save_body p =
     (let f = ed_form p; tun = (ed_type p = TunEntry); p2p = (ed_type p = P2pEntry) in
      \<lparr>eb_name = trim (ef_name f), eb_type = ed_type p, eb_endpoint = (if tun then [] else trim (ef_endpoint f)),
       eb_id = some_text (trim (ef_tunnelId f)), eb_peer = some_text (trim (ef_peer f)),
       eb_protocol = (if p2p then Some (ef_protocol f) else None),
       eb_keepalive = (if p2p \<and> ef_protocol f = js ''udp'' then Some (ef_keepalive f) else None),
       eb_net = (if tun then some_text (trim (ef_net f)) else None), eb_mtu = (if tun \<and> ef_mtu f \<noteq> 0 then Some (ef_mtu f) else None),
       eb_device_name = (if tun then some_text (trim (ef_deviceName f)) else None),
       eb_routes = (if tun then some_text (trim (ef_routes f)) else None), eb_dns = (if tun then some_text (trim (ef_dns f)) else None),
       eb_share_lan = (if tun then some_text (trim (ef_shareLAN f)) else None),
       eb_share_mode = (if tun then some_text (ef_shareMode f) else None), eb_direct = (if tun then Some (ef_direct f) else None)\<rparr>)"

text \<open>The part of a save after the device is there, or when none is needed.\<close>

definition send_save :: "entry_page \<Rightarrow> entry_page" where
  "send_save p =
     (if ed_mode p = CreateMode
      then p\<lparr>ed_saving := True, ed_saves := ed_saves p @ [SavingNew], ed_requests := ed_requests p @ [CreateEntry (entry_save_body p)]\<rparr>
      else p\<lparr>ed_saving := True, ed_saves := ed_saves p @ [SavingEdit], ed_requests := ed_requests p @ [UpdateEntry (ed_id p) (entry_save_body p)]\<rparr>)"

definition arm_vpn :: "arm_purpose \<Rightarrow> jstr \<Rightarrow> jstr \<Rightarrow> int \<Rightarrow> jstr \<Rightarrow> entry_page \<Rightarrow> entry_page" where
  "arm_vpn purpose net routes mtu dns p =
     p\<lparr>ed_arms := ed_arms p @ [purpose], ed_requests := ed_requests p @ [ArmVpn net routes mtu dns]\<rparr>"

definition entry_handleSave :: "entry_item list \<Rightarrow> entry_page \<Rightarrow> entry_page" where
  "entry_handleSave es p =
     (let f = ed_form p in
      if trim (ef_name f) = [] then entry_snackbar (js ''requiredField'') p
      else if (ed_type p = P2pEntry \<or> ed_type p = TunEntry) \<and> trim (ef_peer f) = []
      then entry_snackbar (js ''entrypointPeerKey: requiredField'') p
      else if ed_type p = TunEntry
      then (case tunDeviceHolder (ed_id p) es of
              Some h \<Rightarrow> entry_snackbar (js ''tunDeviceBusy: '' @ ei_name h) p
            | None \<Rightarrow> arm_vpn ArmSave (trim (ef_net f)) (trim (ef_routes f)) (ef_mtu f) (trim (ef_dns f)) p)
      else send_save p)"

definition entry_handleStart :: "entry_item list \<Rightarrow> entry_page \<Rightarrow> entry_page" where
  "entry_handleStart es p =
     (if ed_type p = TunEntry
      then (case tunDeviceHolder (ed_id p) es of
              Some h \<Rightarrow> entry_snackbar (js ''tunDeviceBusy: '' @ ei_name h) p
            | None \<Rightarrow>
                (let q = map_option ei_options (ed_entry p) in
                 arm_vpn ArmStart (given (Option.bind q eo_net) []) (given (Option.bind q eo_routes) []) (given (Option.bind q eo_mtu) 0)
                   (given (Option.bind q eo_dns) []) p))
      else p\<lparr>ed_requests := ed_requests p @ [StartEntry (ed_id p)]\<rparr>)"

text \<open>The app's word on the \<open>i\<close>-th device asked for. Elsewhere than on Android it is yes at once.\<close>

definition armed :: "nat \<Rightarrow> bool \<Rightarrow> entry_page \<Rightarrow> entry_page" where
  "armed i ready p =
     (if i < length (ed_arms p)
      then (let p1 = p\<lparr>ed_arms := remove_nth i (ed_arms p)\<rparr> in
            if \<not> ready then entry_snackbar (js ''vpnNotReady'') p1
            else (case ed_arms p ! i of
                    ArmSave \<Rightarrow> send_save p1
                  | ArmStart \<Rightarrow> p1\<lparr>ed_requests := ed_requests p1 @ [StartEntry (ed_id p1)]\<rparr>))
      else p)"

definition failure_text :: "jstr \<Rightarrow> jstr \<Rightarrow> jstr" where
  "failure_text what msg = what @ (if msg = [] then [] else js '': '' @ msg)"

definition entry_saved :: "nat \<Rightarrow> jstr + entry_item list \<Rightarrow> entry_page \<Rightarrow> entry_page" where
  "entry_saved i r p =
     (if length (ed_saves p) \<le> i then p
      else (let p1 = p\<lparr>ed_saves := remove_nth i (ed_saves p)\<rparr> in
            case (ed_saves p ! i, r) of
              (SavingNew, Inr es) \<Rightarrow> (entry_snackbar (js ''saved'') (entry_load es p1))\<lparr>ed_edit_url := False, ed_saving := False\<rparr>
            | (SavingEdit, Inr es) \<Rightarrow>
                (entry_snackbar (js ''saved'') (entry_load es p1))\<lparr>ed_mode := ViewMode, ed_saves := ed_saves p1 @ [SaveRefreshing]\<rparr>
            | (SaveRefreshing, Inr es) \<Rightarrow> (entry_load es p1)\<lparr>ed_saving := False\<rparr>
            | (SaveRefreshing, Inl _) \<Rightarrow> p1\<lparr>ed_saving := False\<rparr>
            | (_, Inl msg) \<Rightarrow> (entry_snackbar (failure_text (js ''saveFailed'') msg) p1)\<lparr>ed_saving := False\<rparr>))"

section \<open>The other actions\<close>

definition entry_enterEdit :: "entry_page \<Rightarrow> entry_page" where
  "entry_enterEdit p = (case ed_entry p of None \<Rightarrow> p | Some e \<Rightarrow> (populate_entry e p)\<lparr>ed_mode := EditMode\<rparr>)"

definition entry_handleBack :: "entry_page \<Rightarrow> entry_page" where
  "entry_handleBack p = (if ed_mode p = EditMode \<and> ed_id p \<noteq> [] then p\<lparr>ed_mode := ViewMode, ed_edit_url := False\<rparr> else p\<lparr>ed_edit_url := False\<rparr>)"

definition entry_handleDelete :: "entry_page \<Rightarrow> entry_page" where
  "entry_handleDelete p = p\<lparr>ed_deleteDialog := False, ed_requests := ed_requests p @ [DeleteEntry (ed_id p)]\<rparr>"

definition entry_deleted :: "bool \<Rightarrow> entry_page \<Rightarrow> entry_page" where
  "entry_deleted done p =
     (if done then (entry_snackbar (js ''deleted'') p)\<lparr>ed_edit_url := False\<rparr> else entry_snackbar (js ''deleteFailed'') p)"

definition entry_started :: "jstr option \<Rightarrow> entry_page \<Rightarrow> entry_page" where
  "entry_started err p = entry_snackbar (case err of None \<Rightarrow> js ''started'' | Some msg \<Rightarrow> failure_text (js ''startFailed'') msg) p"

definition entry_handleStop :: "entry_page \<Rightarrow> entry_page" where
  "entry_handleStop p = p\<lparr>ed_requests := ed_requests p @ [StopEntry (ed_id p)]\<rparr>"

definition entry_stopped :: "bool \<Rightarrow> entry_page \<Rightarrow> entry_page" where
  "entry_stopped done p = entry_snackbar (if done then js ''stopped'' else js ''stopFailed'') p"

definition entry_resetStats :: "jstr \<Rightarrow> entry_page \<Rightarrow> entry_page" where
  "entry_resetStats kind p = p\<lparr>ed_resetKind := kind, ed_resetDialog := True\<rparr>"

definition entry_doResetStats :: "entry_page \<Rightarrow> entry_page" where
  "entry_doResetStats p = p\<lparr>ed_resetDialog := False, ed_requests := ed_requests p @ [ResetEntryStats (ed_id p) (ed_resetKind p)]\<rparr>"

definition entry_stats_reset :: "bool \<Rightarrow> entry_page \<Rightarrow> entry_page" where
  "entry_stats_reset done p = entry_snackbar (if done then js ''saved'' else js ''saveFailed'') p"

datatype entry_input =
    EntTunnelId jstr
  | EntName jstr
  | EntNet jstr
  | EntPeer jstr
  | EntMtu jstr
  | EntDeviceName jstr
  | EntRoutes jstr
  | EntDns jstr
  | EntShareLAN jstr
  | EntShareMode
  | EntDirect
  | EntEndpoint jstr
  | EntProtocol
  | EntKeepalive

fun entry_typed :: "entry_input \<Rightarrow> entry_form \<Rightarrow> entry_form" where
  "entry_typed (EntTunnelId v) f = f\<lparr>ef_tunnelId := v\<rparr>"
| "entry_typed (EntName v) f = f\<lparr>ef_name := v\<rparr>"
| "entry_typed (EntNet v) f = f\<lparr>ef_net := v\<rparr>"
| "entry_typed (EntPeer v) f = f\<lparr>ef_peer := v\<rparr>"
| "entry_typed (EntMtu v) f = f\<lparr>ef_mtu := typed_mtu v\<rparr>"
| "entry_typed (EntDeviceName v) f = f\<lparr>ef_deviceName := v\<rparr>"
| "entry_typed (EntRoutes v) f = f\<lparr>ef_routes := v\<rparr>"
| "entry_typed (EntDns v) f = f\<lparr>ef_dns := v\<rparr>"
| "entry_typed (EntShareLAN v) f = f\<lparr>ef_shareLAN := v\<rparr>"
| "entry_typed EntShareMode f = f\<lparr>ef_shareMode := cycleOption (ef_shareMode f) SHARE_MODES\<rparr>"
| "entry_typed EntDirect f = f\<lparr>ef_direct := \<not> ef_direct f\<rparr>"
| "entry_typed (EntEndpoint v) f = f\<lparr>ef_endpoint := v\<rparr>"
| "entry_typed EntProtocol f = f\<lparr>ef_protocol := (if ef_protocol f = js ''tcp'' then js ''udp'' else js ''tcp'')\<rparr>"
| "entry_typed EntKeepalive f = f\<lparr>ef_keepalive := \<not> ef_keepalive f\<rparr>"

end
