(* ===== verification/GoApi.thy ===== *)
theory GoApi
  imports EntrypointDetail
begin

text \<open>
  The other side of the two editors: what the backend tells the web interface of a tunnel or an
  entrypoint, and what it makes of the body of a \<open>PUT\<close> (\<open>api/tunnel_handler.go\<close>,
  \<open>api/entrypoint_handler.go\<close>), as far as the fields the editors deal in go. A Go field holds its
  zero value where the interface has an absent one (\<open>omitempty\<close>), and a field missing from a body
  is read as the zero value. The rows of an allowlist, the addresses of its peers and the checks of
  a hub's networks are left out. White space and case are those of JavaScript; Go's differ for
  U+0085 and U+FEFF.
\<close>

section \<open>Tunnels\<close>

text \<open>The options of a tunnel, \<open>tunnel.Options\<close>.\<close>

record go_tunnel =
  gt_name :: jstr
  gt_endpoint :: jstr
  gt_prefix :: jstr
  gt_hostname :: jstr
  gt_username :: jstr
  gt_password :: jstr
  gt_enableTLS :: bool
  gt_rewriteHost :: bool
  gt_fileUpload :: bool
  gt_keepalive :: bool
  gt_ttl :: nat
  gt_recordMode :: jstr
  gt_net :: jstr
  gt_mtu :: int
  gt_deviceName :: jstr
  gt_routes :: jstr
  gt_dns :: jstr
  gt_shareLAN :: jstr
  gt_shareMode :: jstr
  gt_lanAllow :: jstr
  gt_lanRoutes :: "jstr list"

definition NormalizeShareMode :: "jstr \<Rightarrow> jstr" where
  "NormalizeShareMode mode =
     (let m = to_lower (trim mode) in
      if m = js ''kernel'' then js ''kernel'' else if m = js ''userspace'' then js ''userspace'' else js ''auto'')"

definition omit_zero :: "int \<Rightarrow> int option" where
  "omit_zero n = (if n = 0 then None else Some n)"

definition omit_empty :: "'a list \<Rightarrow> 'a list option" where
  "omit_empty xs = (if xs = [] then None else Some xs)"

text \<open>The answer about a tunnel. The password is never in it.\<close>

definition toTunnelResponse :: "jstr \<Rightarrow> peer list \<Rightarrow> go_tunnel \<Rightarrow> tunnel_item" where
  "toTunnelResponse i rows s =
     \<lparr>ti_id = i, ti_name = gt_name s, ti_endpoint = gt_endpoint s, ti_options =
        \<lparr>to_prefix = omit_empty (gt_prefix s), to_hostname = omit_empty (gt_hostname s), to_username = omit_empty (gt_username s),
         to_password = None, to_basic_auth = (gt_username s \<noteq> []), to_enableTLS = gt_enableTLS s, to_rewriteHost = gt_rewriteHost s,
         to_file_upload = gt_fileUpload s, to_keepalive = gt_keepalive s, to_ttl = gt_ttl s, to_record_mode = omit_empty (gt_recordMode s),
         to_peers = omit_empty rows, to_net = omit_empty (gt_net s), to_mtu = omit_zero (gt_mtu s),
         to_device_name = omit_empty (gt_deviceName s), to_routes = omit_empty (gt_routes s), to_dns = omit_empty (gt_dns s),
         to_share_lan = omit_empty (gt_shareLAN s), to_share_mode = Some (NormalizeShareMode (gt_shareMode s)),
         to_lan_allow = omit_empty (gt_lanAllow s), to_lan_routes = omit_empty (gt_lanRoutes s)\<rparr>\<rparr>"

text \<open>
  The \<open>PUT\<close> of a tunnel: a prefix that is none refuses it, a missing password, policy or list of
  routes is kept, everything else is replaced.
\<close>

definition toOptions :: "tunnel_body \<Rightarrow> jstr \<Rightarrow> go_tunnel \<Rightarrow> go_tunnel" where
  "toOptions b prefix old =
     \<lparr>gt_name = tb_name b, gt_endpoint = tb_endpoint b, gt_prefix = prefix, gt_hostname = given (tb_hostname b) [],
      gt_username = given (tb_username b) [], gt_password = given (tb_password b) (gt_password old), gt_enableTLS = tb_enableTLS b,
      gt_rewriteHost = tb_rewriteHost b, gt_fileUpload = tb_file_upload b, gt_keepalive = given (tb_keepalive b) False,
      gt_ttl = given (tb_ttl b) 0, gt_recordMode = tb_record_mode b, gt_net = given (tb_net b) [], gt_mtu = given (tb_mtu b) 0,
      gt_deviceName = given (tb_device_name b) [], gt_routes = given (tb_routes b) [], gt_dns = given (tb_dns b) [],
      gt_shareLAN = given (tb_share_lan b) [], gt_shareMode = NormalizeShareMode (given (tb_share_mode b) []),
      gt_lanAllow = given (tb_lan_allow b) (gt_lanAllow old), gt_lanRoutes = given (tb_lan_routes b) (gt_lanRoutes old)\<rparr>"

definition handleUpdateTunnel :: "tunnel_body \<Rightarrow> go_tunnel \<Rightarrow> go_tunnel option" where
  "handleUpdateTunnel b old =
     (let prefix = lower_trim (given (tb_prefix b) [])
      in if prefix_error prefix then None else Some (toOptions b prefix old))"

section \<open>Entrypoints\<close>

record go_entry =
  ge_name :: jstr
  ge_endpoint :: jstr
  ge_keepalive :: bool
  ge_ttl :: nat
  ge_peer :: jstr
  ge_protocol :: jstr
  ge_net :: jstr
  ge_mtu :: int
  ge_deviceName :: jstr
  ge_routes :: jstr
  ge_dns :: jstr
  ge_shareLAN :: jstr
  ge_shareMode :: jstr
  ge_blockedPeers :: "jstr list"
  ge_direct :: bool

text \<open>The answer about an entrypoint; a tun one is named by its network, the others by what they listen on.\<close>

definition toEntryResponse :: "jstr \<Rightarrow> entry_type \<Rightarrow> bool \<Rightarrow> go_entry \<Rightarrow> entry_item" where
  "toEntryResponse i ty running s =
     \<lparr>ei_id = i, ei_name = ge_name s, ei_type = ty, ei_running = running,
      ei_entrypoint = (if ty = TunEntry then ge_net s else ge_endpoint s), ei_options =
        \<lparr>eo_keepalive = (if ge_keepalive s then Some True else None), eo_ttl = ge_ttl s, eo_peer = omit_empty (ge_peer s),
         eo_protocol = omit_empty (ge_protocol s), eo_net = omit_empty (ge_net s), eo_mtu = omit_zero (ge_mtu s),
         eo_device_name = omit_empty (ge_deviceName s), eo_routes = omit_empty (ge_routes s), eo_dns = omit_empty (ge_dns s),
         eo_share_lan = omit_empty (ge_shareLAN s), eo_share_mode = Some (NormalizeShareMode (ge_shareMode s)),
         eo_direct = ge_direct s\<rparr>\<rparr>"

text \<open>
  The \<open>PUT\<close> of an entrypoint: the path gives the identity, what is blocked and a missing \<open>direct\<close>
  are kept, and the body of the page has no time to live.
\<close>

definition handleUpdateEntrypoint :: "entry_body \<Rightarrow> go_entry \<Rightarrow> go_entry" where
  "handleUpdateEntrypoint b old =
     \<lparr>ge_name = eb_name b, ge_endpoint = eb_endpoint b, ge_keepalive = given (eb_keepalive b) False, ge_ttl = 0,
      ge_peer = given (eb_peer b) [], ge_protocol = given (eb_protocol b) [], ge_net = given (eb_net b) [], ge_mtu = given (eb_mtu b) 0,
      ge_deviceName = given (eb_device_name b) [], ge_routes = given (eb_routes b) [], ge_dns = given (eb_dns b) [],
      ge_shareLAN = given (eb_share_lan b) [], ge_shareMode = NormalizeShareMode (given (eb_share_mode b) []),
      ge_blockedPeers = ge_blockedPeers old, ge_direct = given (eb_direct b) (ge_direct old)\<rparr>"

section \<open>What a form and a body make of a stored text\<close>

lemma given_omit [simp]: "given (omit_empty xs) [] = xs" "given (omit_zero n) 0 = n" "omit_empty [] = None"
  by (simp_all add: omit_empty_def omit_zero_def given_def)

lemma given_some_text [simp]: "given (some_text s) [] = s"
  by (simp add: some_text_def given_def)

lemma NormalizeShareMode_simps [simp]:
  "NormalizeShareMode [] = js ''auto''" "NormalizeShareMode (NormalizeShareMode m) = NormalizeShareMode m"
  "NormalizeShareMode m \<noteq> []"
proof -
  have "NormalizeShareMode (js ''kernel'') = js ''kernel''" "NormalizeShareMode (js ''userspace'') = js ''userspace''"
    "NormalizeShareMode (js ''auto'') = js ''auto''"
    by (simp_all add: NormalizeShareMode_def to_lower_def lower_unit_def trim_def is_ws_def cu_def Let_def)
  then show "NormalizeShareMode (NormalizeShareMode m) = NormalizeShareMode m"
    by (simp add: NormalizeShareMode_def [of m] Let_def del: js_simps)
qed (simp_all add: NormalizeShareMode_def to_lower_def cu_def Let_def)

lemma or_else_share [simp]: "or_else (NormalizeShareMode m) d = NormalizeShareMode m"
  by (simp add: or_else_def)

lemma lower_trim_idem [simp]: "lower_trim (lower_trim s) = lower_trim s"
  by (simp add: lower_trim_def trim_to_lower)

end
