(* ===== verification/TunnelDetailCorrect.thy ===== *)
theory TunnelDetailCorrect
  imports GoApi
begin

text \<open>
  The page of a tunnel: what is typed survives the polls, an untouched edit restates the tunnel, and
  what an edit loses.
\<close>

section \<open>Polls\<close>

text \<open>What reaches the page without the user: notifications of the store and counts of pending keys.\<close>

datatype background_event = ListChanged "tunnel_item list" | PendingCounted "nat option"

fun background_step :: "background_event \<Rightarrow> tunnel_page \<Rightarrow> tunnel_page" where
  "background_step (ListChanged ts) p = tunnel_load ts p"
| "background_step (PendingCounted n) p = pending_counted n p"

definition form_open :: "tunnel_page \<Rightarrow> bool" where
  "form_open p \<longleftrightarrow>
     (td_mode p = CreateMode \<and> (td_id p = js ''new'' \<or> td_id p = []))
     \<or> (td_mode p = EditMode \<and> td_id p \<noteq> js ''new'' \<and> td_id p \<noteq> [] \<and> map_option ti_id (td_tunnel p) = Some (td_id p))"

lemma background_step_form_open:
  assumes "form_open p"
  shows "\<exists>n. background_step e p = p\<lparr>td_pendingCount := n\<rparr>"
proof (cases e)
  case (ListChanged ts)
  have "tunnel_load ts p = p" using assms by (auto simp: form_open_def tunnel_load_def)
  then show ?thesis using ListChanged by (intro exI [of _ "td_pendingCount p"]) simp
next
  case (PendingCounted n)
  then show ?thesis by (cases n) (auto simp: pending_counted_def intro: exI [of _ "td_pendingCount p"])
qed

lemma background_form_open:
  "form_open p \<Longrightarrow> \<exists>n. fold background_step es p = p\<lparr>td_pendingCount := n\<rparr>"
proof (induction es arbitrary: p)
  case Nil
  then show ?case by (intro exI [of _ "td_pendingCount p"]) simp
next
  case (Cons e es)
  obtain n where n: "background_step e p = p\<lparr>td_pendingCount := n\<rparr>" using background_step_form_open [OF Cons.prems] by blast
  have "form_open (p\<lparr>td_pendingCount := n\<rparr>)" using Cons.prems by (simp add: form_open_def)
  from Cons.IH [OF this] show ?case by (auto simp: n)
qed

text \<open>C20. While a tunnel is being edited or created, polls and counts, however many and in whatever order,
  change nothing the user sees of the form or would save; only the number of pending keys moves.\<close>

theorem typing_survives_polls:
  assumes "form_open p"
  shows "td_form (fold background_step es p) = td_form p \<and> td_mode (fold background_step es p) = td_mode p
    \<and> tunnel_save_body (fold background_step es p) = tunnel_save_body p"
proof -
  obtain n where n: "fold background_step es p = p\<lparr>td_pendingCount := n\<rparr>" using background_form_open [OF assms] by blast
  have "tunnel_save_body (p\<lparr>td_pendingCount := n\<rparr>) = tunnel_save_body p"
    by (simp add: tunnel_save_body_def base_body_def hub_body_def is_p2p_def stored_options_def Let_def)
  then show ?thesis by (simp add: n)
qed

section \<open>An untouched edit\<close>



definition sample_udp_options :: go_tunnel where
  "sample_udp_options =
     \<lparr>gt_name = js ''udp '', gt_endpoint = js '':53'', gt_prefix = [], gt_hostname = [], gt_username = js ''u'', gt_password = js ''p'',
      gt_enableTLS = False, gt_rewriteHost = False, gt_fileUpload = False, gt_keepalive = True, gt_ttl = 30, gt_recordMode = [],
      gt_net = [], gt_mtu = 0, gt_deviceName = [], gt_routes = [], gt_dns = [], gt_shareLAN = [], gt_shareMode = js ''auto'',
      gt_lanAllow = [], gt_lanRoutes = []\<rparr>"

abbreviation sample_udp_tunnel :: tunnel_item where
  "sample_udp_tunnel \<equiv> toTunnelResponse (js ''t1'') [] sample_udp_options"


lemma typing_survives_polls_witness:
  "td_form (background_step (ListChanged []) (enterEdit (open_tunnel_page UdpTunnel (js ''t1'') False [sample_udp_tunnel]))) = populate_tunnel_form sample_udp_tunnel"
proof -
  let ?p = "enterEdit (open_tunnel_page UdpTunnel (js ''t1'') False [sample_udp_tunnel])"
  have "form_open ?p" "td_form ?p = populate_tunnel_form sample_udp_tunnel"
    by (simp_all add: form_open_def enterEdit_def open_tunnel_page_def tunnel_load_def toTunnelResponse_def cu_def)
  then show ?thesis using typing_survives_polls [of ?p "[ListChanged []]"] by simp
qed

section \<open>What an edit loses\<close>

text \<open>Keepalive and time to live, which only the configuration sets, are not in the request that replaces it.\<close>

lemma edit_drops_keepalive: "tb_keepalive (tunnel_save_body p) = None \<and> tb_ttl (tunnel_save_body p) = None"
  by (simp add: tunnel_save_body_def base_body_def hub_body_def Let_def)

text \<open>The allowlist sent is the one the page held when the editor was opened, whatever the polls have brought since.\<close>

lemma edit_sends_old_allowlist:
  assumes "form_open p" "is_p2p p" "td_mode p = EditMode"
  shows "tb_peers (tunnel_save_body (fold background_step es p)) = Some (given (Option.bind (stored_options p) to_peers) [])"
proof -
  obtain n where n: "fold background_step es p = p\<lparr>td_pendingCount := n\<rparr>" using background_form_open [OF assms(1)] by blast
  show ?thesis using assms(2,3)
    by (simp add: n tunnel_save_body_def base_body_def hub_body_def is_p2p_def stored_options_def Let_def)
qed

text \<open>When the editor was opened by its URL, the poll that ends a save opens it again.\<close>

lemma save_from_link_reopens_editor:
  assumes "td_save p = Some SavingEdit" "td_edit_url p" "td_mode p = EditMode" "map_option ti_id (td_tunnel p) = Some (td_id p)"
    and "td_id p \<noteq> js ''new''" "td_id p \<noteq> []" "find (\<lambda>t. ti_id t = td_id p) ts = Some t"
  shows "td_mode (tunnel_saved (Inr ts) p) = ViewMode" "td_mode (save_refreshed ts (tunnel_saved (Inr ts) p)) = EditMode"
proof -
  have "tunnel_load ts p = p" using assms(3-6) by (simp add: tunnel_load_def)
  then have s: "tunnel_saved (Inr ts) p = (detail_snackbar (js ''saved'') p)\<lparr>td_mode := ViewMode, td_save := Some SaveRefreshing\<rparr>"
    using assms(1) by (simp add: tunnel_saved_def)
  then show "td_mode (tunnel_saved (Inr ts) p) = ViewMode" by simp
  show "td_mode (save_refreshed ts (tunnel_saved (Inr ts) p)) = EditMode"
    unfolding s using assms(2,5-7) by (simp add: save_refreshed_def tunnel_load_def detail_snackbar_def)
qed

end
