(* ===== verification/Spec2Isabelle.thy ===== *)
theory Spec2Isabelle
  imports RelayCorrect SmuxRuns WsCorrect TunnelId TunnelStats HttpRead Md5Correct
    ForwarderCorrect WsBridgeCorrect ConnectionCorrect OffscreenCorrect BackgroundCorrect
    QrTablesCorrect QrBlocksCorrect QrScan QrPicture QrRenderCorrect SidepanelCorrect WebStoresCorrect InspectorCorrect
    PeersCorrect SettingsCorrect TunnelDetailCorrect EntrypointCorrect
begin

text \<open>
  A model of wisper, a client for TCP and HTTP tunnels over a public relay, in the parts of it that
  are written in JavaScript and TypeScript: the browser extension (\<open>extension/\<close>), which is a
  complete tunnel client, and the web interface of the desktop program (\<open>web-src/\<close>).

  \<^bold>\<open>How the program works.\<close> The side panel (\<open>extension/sidepanel.js\<close>) keeps the list of tunnels the
  user edits, and asks the service worker (\<open>extension/background.js\<close>) to start and stop them. The
  worker keeps the stored copy of the list and passes the orders to the tunnel host
  (\<open>extension/offscreen.js\<close>), which owns one connection per running tunnel, reconnects it and samples
  its counters (\<open>lib/tunnel-stats.js\<close>). A connection (\<open>lib/tunnel-connection.js\<close>) opens a WebSocket
  to the relay, sends a bind request (\<open>lib/relay.js\<close>) under the identity derived from the
  tunnel's UUID (\<open>lib/tunnel-id.js\<close>, \<open>lib/md5.js\<close>), and hands the socket to a stream multiplexer
  (\<open>lib/smux.js\<close>). Every stream the relay opens is one visitor: its HTTP request is read off the
  stream and forwarded to the backend (\<open>lib/forwarder.js\<close>), or, for an upgrade, bridged to a
  WebSocket of the backend (\<open>lib/ws-codec.js\<close>). The panel draws QR codes of public addresses
  (\<open>lib/qrcode.js\<close>). The web interface talks to a server written in Go over its API; modelled are
  its stores, its traffic inspector, and the pages that edit
  tunnels, entrypoints, peers and settings.

  \<^bold>\<open>The theories.\<close>
  \<^item> Ground: \<open>JsPrelude\<close> (bytes, words, \<open>DataView\<close> fields, results that may throw, the JavaScript
    \<open>Map\<close>), \<open>JsText\<close> (strings as 16-bit code units and the string functions in use), \<open>JsNumber\<close>
    (doubles as rationals rounded to 53 bits, with infinity), \<open>Utf8\<close> (\<open>TextEncoder\<close>, \<open>TextDecoder\<close>),
    \<open>TextTransit\<close> (what is left of any text after the two), \<open>Framing\<close> (frames
    cut from a growing buffer, with the locale shared by the two frame readers).
  \<^item> Protocols: \<open>Relay\<close>/\<open>RelayCorrect\<close> for \<open>lib/relay.js\<close>; \<open>Smux\<close>/\<open>SmuxCorrect\<close>/\<open>SmuxRuns\<close> for
    \<open>lib/smux.js\<close>; \<open>WsCodec\<close>/\<open>WsCorrect\<close> for \<open>lib/ws-codec.js\<close>; \<open>Md5\<close>/\<open>Md5Correct\<close> and \<open>TunnelId\<close> for
    \<open>lib/md5.js\<close>, \<open>lib/tunnel-id.js\<close>; \<open>TunnelStats\<close> for \<open>lib/tunnel-stats.js\<close>.
  \<^item> Connection: \<open>TunnelConnection\<close> and \<open>HttpRead\<close> (reading a request off a stream), \<open>Connection\<close> and
    \<open>ConnectionCorrect\<close> (the class of \<open>lib/tunnel-connection.js\<close>).
  \<^item> Forwarding: \<open>Forwarder\<close>, \<open>ChunkedCoding\<close>, \<open>ForwarderCorrect\<close> and \<open>WsBridge\<close>, \<open>WsBridgeCorrect\<close> for
    \<open>lib/forwarder.js\<close>.
  \<^item> Extension pages: \<open>Offscreen\<close>/\<open>OffscreenCorrect\<close>, \<open>Background\<close>/\<open>BackgroundCorrect\<close>,
    \<open>Sidepanel\<close>/\<open>SidepanelCorrect\<close>.
  \<^item> QR codes, \<open>lib/qrcode.js\<close>: \<open>QrMath\<close>, \<open>QrField\<close>, \<open>QrReedSolomon\<close>, \<open>QrRsCorrect\<close> (the field, its
    tables, error correction); \<open>QrTables\<close>, \<open>QrTablesCorrect\<close>, \<open>QrData\<close>, \<open>QrDataCorrect\<close>,
    \<open>QrBlocksCorrect\<close> (constants, data, blocks); \<open>QrMatrix\<close>, \<open>QrPlacement\<close>, \<open>QrLayout\<close>, \<open>QrCapacity\<close>,
    \<open>QrFormat\<close>, \<open>QrScan\<close> (the matrix and a reader of it); \<open>QrStreams\<close>, \<open>QrStreamsCorrect\<close>, \<open>QrImage\<close>,
    \<open>QrImageCorrect\<close>, \<open>QrPicture\<close>, \<open>QrRender\<close>, \<open>QrRenderCorrect\<close> (streams, pictures, renderings).
    \<open>web-src/src/lib/qrcode.js\<close> is the same program with another export at its end.
  \<^item> Web interface: \<open>WebStores\<close>/\<open>WebStoresCorrect\<close> for \<open>store/\<close>, \<open>InspectorPage\<close>/\<open>InspectorCorrect\<close>
    for \<open>pages/inspector-page.ts\<close>,
    \<open>PeersPage\<close>/\<open>PeersCorrect\<close> for \<open>pages/tunnel-peers-page.ts\<close> with \<open>utils/lan-refusal.ts\<close>,
    \<open>SettingsPage\<close>/\<open>SettingsCorrect\<close> for \<open>pages/settings-page.ts\<close>,
    \<open>TunnelDetail\<close>/\<open>TunnelDetailCorrect\<close> for \<open>pages/tunnel-detail-page.ts\<close>,
    \<open>EntrypointDetail\<close>/\<open>EntrypointCorrect\<close> for \<open>pages/entrypoint-detail-page.ts\<close> with \<open>utils/vpn.ts\<close>,
    \<open>GoApi\<close> for what \<open>api/tunnel_handler.go\<close> and \<open>api/entrypoint_handler.go\<close> answer these editors and make of a save.

  \<^bold>\<open>How state and effects are modelled.\<close> An object or module is a record of its fields, a method is
  a function on the record, named after the method. A method that throws returns a sum with the error
  on the left. An asynchronous method is cut at its awaits into one function per segment; what it waits for
  is part of the state, and the answer is the argument of the next segment, so every interleaving that
  the event loop allows is a list of events. Messages, frames and requests that leave a component are
  appended to an output list. Timers are events that may fire while armed. \<open>fetch\<close>, the sockets, the
  storage and clock of the browser, SHA-1 and random masks are arguments.

  \<^bold>\<open>What is proved.\<close>
  \<^item> Round trips: relay requests, SMUX frames, WebSocket messages, base64, the chunked coding and the
    QR symbol are read back as they were written, but for what UTF-8 changes in a text, however the transport
    cuts the bytes; each codec is an interpretation of the locale of its reader. A reader of a symbol recovers the data
    added to it (\<open>QrScan\<close>), also after the symbol became a picture (\<open>QrPicture\<close>).
  \<^item> Equivalence: MD5 is RFC 1321's over mathematical integers, the tables of \<open>QRMath\<close> multiply in
    the field of 256 elements, base64 streams give the standard text.
  \<^item> Runs: the multiplexer, the connection, the tunnel host, the panel together with the worker, and the inspector are
    transition systems with an invariant over all reachable states: flow control, order of writes, end of
    stream after data, bound only after the relay accepted, distinct ids, one query at a time.
  \<^item> Refinement: messages to the worker handled one after the other change the stored tunnels, field by
    field, as they mean to; requests of the stores made one after the other keep the items of the
    list those of the backend, except after a change the store did not see. Lemmas show what is lost when they overlap.
  \<^item> Safety: an unauthorised request never reaches the backend, bridges of different streams do not
    touch, not even in the map they share, every response is delimited, escaped text stays inside its attribute.
  \<^item> Forms: a save of something nobody edited keeps what the backend holds, up to the fields each theorem names, of
    which those that are lost are findings (\<open>PeersCorrect\<close>, \<open>SettingsCorrect\<close>, \<open>TunnelDetailCorrect\<close>,
    \<open>EntrypointCorrect\<close>); polls do not disturb an open editor; and a lost answer to a rotation of the key ends
    in a report, whose truth is characterised exactly.
  \<^item> Faults of the code are theorems too: each states what the code does in the case at hand.

  \<^bold>\<open>Bounds and fuel.\<close> There is no fuel in a modelled loop except where a bound is proved enough: loops of the
  source are structural recursions or have a measure. QR symbols have types 1 to 40, levels
  and masks as in the source; generator polynomials are used up to 30 bytes, which the table of blocks never
  exceeds (\<open>QrTablesCorrect\<close>); pictures have sides up to 65535 pixels, the width of their field; a code
  book holds at most 4095 words, as in the source. Counters of SMUX are 32-bit words where the
  wire carries them, and the one place where the code mixes them with unbounded numbers is a lemma.
  Bytes are 8-bit words, code units 16-bit words. Sizes and lengths of arrays are natural numbers.

  \<^bold>\<open>Not modelled.\<close> Text that is only drawn (labels, colours, icons, toasts, logs), the clipboard, the
  browser's storage format beyond the values stored, and case mapping and \<open>parseInt\<close> outside the
  range stated in \<open>JsText\<close>. Of the web interface, the list of the home page, the event histories, the type selection, the router, the
  translations and the components that draw a record or a card are not modelled. Outside the extension and the web interface: the server in Go
  (\<open>api/\<close>, \<open>tunnel/\<close>, \<open>config/\<close>, \<open>runner/\<close>), but for what the claims about the forms and the stores need of its
  handlers (\<open>GoApi\<close>, \<open>backend_effect\<close> in \<open>WebStoresCorrect\<close> and the options in \<open>SettingsCorrect\<close>), the Android and desktop shells, built assets, tests.
\<close>

end
